(* ===== verification/Prelude.thy ===== *)
theory Prelude
  imports Main "HOL-Library.Word" "HOL-Library.AList" "HOL-Library.Multiset"
begin

text \<open>
  Shared vocabulary of the development: the outcomes a Go call can have, Go errors, Go maps as
  association lists with distinct keys, machine words, and the generic invariant rule for step
  relations. Every other theory imports this one.
\<close>

named_theorems go_simps \<open>unfolding of the plumbing of Go calls\<close>
named_theorems heap_simps \<open>effect of node updates on the heap\<close>

type_synonym u64 = "64 word"
type_synonym u8 = "8 word"

text \<open>A 32-byte array, read as one 256-bit word; the zero array is the zero hash.\<close>
type_synonym root32 = "256 word"

subsection \<open>Errors and outcomes\<close>

text \<open>
  A sentinel is a package-level error variable, \<open>Fresh\<close> an error made on the spot by
  \<^verbatim>\<open>errors.New\<close> or \<^verbatim>\<open>fmt.Errorf\<close> (the text without its arguments), \<open>Wrap\<close> an error with
  a message around it, \<open>CtxErr\<close> the error of a cancelled context.
\<close>
datatype go_error = Sentinel string | Fresh string | Wrap string go_error | CtxErr

primrec errors_Is :: "go_error \<Rightarrow> go_error \<Rightarrow> bool" where
  "errors_Is (Sentinel m) t = (t = Sentinel m)"
| "errors_Is (Fresh m) t = False"
| "errors_Is (Wrap m e) t = errors_Is e t"
| "errors_Is CtxErr t = (t = CtxErr)"

text \<open>
  What a call does: it returns, it panics (nil dereference, division by zero, an explicit
  panic), or it never returns.
\<close>
datatype 'a outcome = Ret 'a | Panic | Diverge

primrec obind :: "'a outcome \<Rightarrow> ('a \<Rightarrow> 'b outcome) \<Rightarrow> 'b outcome" where
  "obind (Ret x) f = f x"
| "obind Panic f = Panic"
| "obind Diverge f = Diverge"

text \<open>The pair of a value and an error that a fallible Go function returns.\<close>
type_synonym 'a result = "'a \<times> go_error option"

lemma obind_Ret_iff [go_simps]: "obind m f = Ret y \<longleftrightarrow> (\<exists>x. m = Ret x \<and> f x = Ret y)"
  by (cases m) auto

lemma obind_assoc [go_simps]: "obind (obind m f) g = obind m (\<lambda>x. obind (f x) g)"
  by (cases m) auto

lemma obind_cong [fundef_cong]:
  "m = m' \<Longrightarrow> (\<And>x. m' = Ret x \<Longrightarrow> f x = f' x) \<Longrightarrow> obind m f = obind m' f'"
  by (cases m') auto

text \<open>What a call returns, if it returns, satisfies \<open>P\<close>.\<close>
definition yields :: "('a \<Rightarrow> bool) \<Rightarrow> 'a outcome \<Rightarrow> bool" where
  "yields P m \<longleftrightarrow> (\<forall>y. m = Ret y \<longrightarrow> P y)"

lemma yields_simps [simp]: "yields P (Ret y) = P y" "yields P Panic" "yields P Diverge"
  by (auto simp: yields_def)

lemma yields_obind [intro!]: "(\<And>x. m = Ret x \<Longrightarrow> yields P (f x)) \<Longrightarrow> yields P (obind m f)"
  by (auto simp: yields_def obind_Ret_iff)

lemma yieldsD: "yields P m \<Longrightarrow> m = Ret y \<Longrightarrow> P y"
  by (simp add: yields_def)

subsection \<open>Go maps\<close>

type_synonym ('k, 'v) gomap = "('k \<times> 'v) list"

definition gm_ok :: "('k, 'v) gomap \<Rightarrow> bool" where
  "gm_ok m \<longleftrightarrow> distinct (map fst m)"

definition gm_get :: "('k, 'v) gomap \<Rightarrow> 'k \<Rightarrow> 'v option" where
  "gm_get m k = map_of m k"

definition gm_set :: "'k \<Rightarrow> 'v \<Rightarrow> ('k, 'v) gomap \<Rightarrow> ('k, 'v) gomap" where
  "gm_set k v m = AList.update k v m"

definition gm_del :: "'k \<Rightarrow> ('k, 'v) gomap \<Rightarrow> ('k, 'v) gomap" where
  "gm_del k m = AList.delete k m"

definition gm_len :: "('k, 'v) gomap \<Rightarrow> nat" where
  "gm_len m = length m"

definition gm_keys :: "('k, 'v) gomap \<Rightarrow> 'k set" where
  "gm_keys m = fst ` set m"

text \<open>
  Ranging over a Go map visits every key once, in an order the language leaves open:
  \<open>gm_order m ks\<close> says that the list \<open>ks\<close> is one such order.
\<close>
definition gm_order :: "('k, 'v) gomap \<Rightarrow> 'k list \<Rightarrow> bool" where
  "gm_order m ks \<longleftrightarrow> distinct ks \<and> set ks = gm_keys m"

text \<open>The contract of a Go map that the components rely on.\<close>
locale go_map =
  fixes empty :: "'m"
    and get :: "'m \<Rightarrow> 'k \<Rightarrow> 'v option"
    and set_at :: "'k \<Rightarrow> 'v \<Rightarrow> 'm \<Rightarrow> 'm"
    and del :: "'k \<Rightarrow> 'm \<Rightarrow> 'm"
    and keys :: "'m \<Rightarrow> 'k set"
    and len :: "'m \<Rightarrow> nat"
    and ok :: "'m \<Rightarrow> bool"
  assumes get_empty: "get empty k = None"
    and get_set: "get (set_at k v m) k' = (if k' = k then Some v else get m k')"
    and get_del: "get (del k m) k' = (if k' = k then None else get m k')"
    and keys_get: "k \<in> keys m \<longleftrightarrow> get m k \<noteq> None"
    and keys_finite: "finite (keys m)"
    and len_card: "ok m \<Longrightarrow> len m = card (keys m)"
    and ok_empty: "ok empty"
    and ok_set: "ok m \<Longrightarrow> ok (set_at k v m)"
    and ok_del: "ok m \<Longrightarrow> ok (del k m)"
begin

lemma keys_set: "keys (set_at k v m) = insert k (keys m)"
  by (auto simp: keys_get get_set split: if_splits)

lemma keys_del: "keys (del k m) = keys m - {k}"
  by (auto simp: keys_get get_del split: if_splits)

lemma keys_empty: "keys empty = {}"
  by (auto simp: keys_get get_empty)

lemma len_set_fresh: "ok m \<Longrightarrow> get m k = None \<Longrightarrow> len (set_at k v m) = Suc (len m)"
proof -
  assume a: "ok m" "get m k = None"
  then have "k \<notin> keys m" by (simp add: keys_get)
  with a show ?thesis by (simp add: len_card ok_set keys_set keys_finite)
qed

lemma get_set_get: "get m k = Some v \<Longrightarrow> get (set_at k v m) = get m"
  by (rule ext) (simp add: get_set)

end

interpretation gm: go_map "[]" gm_get gm_set gm_del gm_keys gm_len gm_ok
proof (standard, goal_cases)
  case (2 k v m k') then show ?case by (simp add: gm_get_def gm_set_def update_conv')
next
  case (3 k m k') then show ?case by (simp add: gm_get_def gm_del_def delete_conv')
next
  case (4 k m) then show ?case by (simp add: gm_get_def gm_keys_def map_of_eq_None_iff)
next
  case (6 m) then show ?case by (simp add: gm_len_def gm_keys_def gm_ok_def) (metis distinct_card length_map set_map)
next
  case (8 m k v) then show ?case by (simp add: gm_ok_def gm_set_def distinct_update)
next
  case (9 m k) then show ?case by (simp add: gm_ok_def gm_del_def distinct_delete)
qed (simp_all add: gm_get_def gm_keys_def gm_ok_def)

lemmas gm_laws = gm.get_empty gm.get_set gm.get_del gm.keys_set gm.keys_del gm.keys_empty
  gm.ok_empty gm.ok_set gm.ok_del

declare gm.get_empty [simp] gm.get_set [simp] gm.get_del [simp] gm.keys_set [simp]
  gm.keys_del [simp] gm.keys_empty [simp] gm.ok_empty [simp] gm.ok_set [simp] gm.ok_del [simp]
  gm.keys_finite [simp]

lemma gm_get_in_set: "gm_get m k = Some v \<Longrightarrow> (k, v) \<in> set m"
  by (simp add: gm_get_def map_of_SomeD)

lemma gm_order_get: "gm_order m ks \<Longrightarrow> k \<in> set ks \<longleftrightarrow> gm_get m k \<noteq> None"
  by (simp add: gm_order_def gm.keys_get)

lemma gm_order_exists: "\<exists>ks. gm_order m ks"
  by (metis finite_distinct_list gm.keys_finite gm_order_def)

subsection \<open>Machine words\<close>

lemma unat_u64_lt: "unat (x :: u64) < 18446744073709551616"
  using unsigned_less [of x] by simp

lemma unat_u64_bound: "unat (x :: u64) < 2 ^ 64"
  using unat_u64_lt [of x] by simp

lemma u64_of_nat: "n < 2 ^ 64 \<longleftrightarrow> (\<exists>c :: u64. unat c = n)"
proof
  assume "n < 2 ^ 64"
  then have "unat (of_nat n :: u64) = n" by (simp add: unat_of_nat)
  then show "\<exists>c :: u64. unat c = n" ..
qed (auto simp: unat_u64_bound simp del: power_numeral)

lemma unat_add_no_wrap: "unat (a :: u64) + unat b < 2 ^ 64 \<Longrightarrow> unat (a + b) = unat a + unat b"
  by (simp add: unat_word_ariths)

lemma unat_mult_no_wrap: "unat (a :: u64) * unat b < 2 ^ 64 \<Longrightarrow> unat (a * b) = unat a * unat b"
  by (simp add: unat_word_ariths)

lemma unat_sub_no_wrap: "b \<le> (a :: u64) \<Longrightarrow> unat (a - b) = unat a - unat b"
  by (rule unat_sub)

lemma unat_eqI: "unat (a :: u64) = unat b \<Longrightarrow> a = b"
  by (rule word_unat_eq_iff [THEN iffD2])

lemmas u64_nat = word_less_nat_alt word_le_nat_alt unat_div unat_mod word_unat_eq_iff

subsection \<open>Reachable states and invariants\<close>

inductive reach :: "('s \<Rightarrow> bool) \<Rightarrow> ('s \<Rightarrow> 's \<Rightarrow> bool) \<Rightarrow> 's \<Rightarrow> bool"
  for init :: "'s \<Rightarrow> bool" and step :: "'s \<Rightarrow> 's \<Rightarrow> bool" where
  start: "init s \<Longrightarrow> reach init step s"
| move: "reach init step s \<Longrightarrow> step s t \<Longrightarrow> reach init step t"

text \<open>
  An invariant of a step relation, relative to one already established (\<open>given\<close>).
\<close>
locale step_invariant =
  fixes init :: "'s \<Rightarrow> bool" and step :: "'s \<Rightarrow> 's \<Rightarrow> bool"
    and given :: "'s \<Rightarrow> bool" and inv :: "'s \<Rightarrow> bool"
  assumes given_reach: "reach init step s \<Longrightarrow> given s"
    and inv_init: "init s \<Longrightarrow> inv s"
    and inv_step: "given s \<Longrightarrow> inv s \<Longrightarrow> step s t \<Longrightarrow> inv t"
begin

lemma reach_inv: "reach init step s \<Longrightarrow> inv s"
proof (induction rule: reach.induct)
  case (start s)
  then show ?case by (rule inv_init)
next
  case (move s t)
  then show ?case by (blast intro: inv_step given_reach)
qed

end

end
