(* ===== verification/GoMath.thy ===== *)
theory GoMath
  imports Prelude
begin

text \<open>
  \<^verbatim>\<open>modified_prysm/math/math_helper.go\<close>: checked 64-bit arithmetic and the cached integer square
  root. Checked operations return the pair Go returns, with value 0 beside an error.
\<close>

unbundle bit_operations_syntax

subsection \<open>Checked arithmetic\<close>

definition ErrOverflow :: go_error where "ErrOverflow = Sentinel ''integer overflow''"
definition ErrDivByZero :: go_error where "ErrDivByZero = Sentinel ''integer divide by zero''"

definition Mul64 :: "u64 \<Rightarrow> u64 \<Rightarrow> u64 result" where
  "Mul64 a b = (if unat a * unat b \<ge> 2 ^ 64 then (0, Some (Fresh ''multiplication overflows''))
     else (a * b, None))"

definition Div64 :: "u64 \<Rightarrow> u64 \<Rightarrow> u64 result" where
  "Div64 a b = (if b = 0 then (0, Some ErrDivByZero) else (a div b, None))"

definition Add64 :: "u64 \<Rightarrow> u64 \<Rightarrow> u64 result" where
  "Add64 a b = (if unat a + unat b \<ge> 2 ^ 64 then (0, Some (Fresh ''addition overflows''))
     else (a + b, None))"

definition Sub64 :: "u64 \<Rightarrow> u64 \<Rightarrow> u64 result" where
  "Sub64 a b = (if a < b then (0, Some (Fresh ''subtraction underflow'')) else (a - b, None))"

definition Mod64 :: "u64 \<Rightarrow> u64 \<Rightarrow> u64 result" where
  "Mod64 a b = (if b = 0 then (0, Some ErrDivByZero) else (a mod b, None))"

definition MaxInt :: int where "MaxInt = 2 ^ 63 - 1"
definition MinInt :: int where "MinInt = - (2 ^ 63)"

definition Int_math :: "u64 \<Rightarrow> int result" where
  "Int_math u = (if uint u > MaxInt then (0, Some ErrOverflow) else (uint u, None))"

fun AddInt_loop :: "int \<Rightarrow> int list \<Rightarrow> int result" where
  "AddInt_loop acc [] = (acc, None)"
| "AddInt_loop acc (ii # is) =
    (if ii > 0 \<and> acc > MaxInt - ii then (0, Some ErrOverflow)
     else if ii < 0 \<and> acc < MinInt - ii then (0, Some ErrOverflow)
     else AddInt_loop (acc + ii) is)"

definition AddInt :: "int list \<Rightarrow> int result" where
  "AddInt is = AddInt_loop 0 is"

definition math_Max :: "u64 \<Rightarrow> u64 \<Rightarrow> u64" where "math_Max a b = (if a > b then a else b)"
definition math_Min :: "u64 \<Rightarrow> u64 \<Rightarrow> u64" where "math_Min a b = (if a < b then a else b)"

text \<open>
  Go's \<^verbatim>\<open>/\<close> and \<^verbatim>\<open>%\<close> on \<^verbatim>\<open>int\<close> truncate towards zero.
\<close>
definition go_quot :: "int \<Rightarrow> int \<Rightarrow> int" where
  "go_quot a b = sgn a * sgn b * (\<bar>a\<bar> div \<bar>b\<bar>)"

definition go_rem :: "int \<Rightarrow> int \<Rightarrow> int" where
  "go_rem a b = a - b * go_quot a b"

definition CeilDiv8 :: "int \<Rightarrow> int" where
  "CeilDiv8 n = (let ret = go_quot n 8 in if go_rem n 8 > 0 then ret + 1 else ret)"

definition IsPowerOf2 :: "u64 \<Rightarrow> bool" where
  "IsPowerOf2 n \<longleftrightarrow> n \<noteq> 0 \<and> (n AND (n - 1)) = 0"

definition PowerOf2 :: "u64 \<Rightarrow> u64 outcome" where
  "PowerOf2 n = (if n \<ge> 64 then Panic else Ret (push_bit (unat n) 1))"

text \<open>
  A \<^verbatim>\<open>Wei\<close> is a pointer to a big integer; \<^verbatim>\<open>Div\<close> on big integers is Euclidean, and
  \<^verbatim>\<open>Uint64\<close> keeps the low 64 bits of the magnitude.
\<close>
definition WeiToGwei :: "int option \<Rightarrow> u64" where
  "WeiToGwei v = (case v of None \<Rightarrow> 0 | Some w \<Rightarrow> of_nat (nat \<bar>w div 1000000000\<bar>))"

subsection \<open>The cached square root\<close>

record sqrt_cache =
  squareRoot :: u64
  sqBalance :: u64

definition cachedSquareRoot :: sqrt_cache where
  "cachedSquareRoot = \<lparr>squareRoot = 126491106, sqBalance = 15999999897103236\<rparr>"

lemma half_sum_less:
  fixes sr val :: u64
  assumes "val < sr"
  shows "unat ((sr + val) div 2) < unat sr"
proof -
  have v: "unat val < unat sr" using assms by (simp add: word_less_nat_alt)
  have "unat (sr + val) = (unat sr + unat val) mod 2 ^ 64" by (simp add: unat_word_ariths)
  then have "unat (sr + val) \<le> unat sr + unat val"
    by (metis mod_less_eq_dividend)
  then have "unat (sr + val) < 2 * unat sr" using v by linarith
  then show ?thesis by (simp add: unat_div)
qed

text \<open>
  The body of the endless loop: one Newton step, then the exit test. A zero divisor panics. The
  loop stops because after its first round every round makes the estimate smaller.
\<close>
function newton_loop :: "u64 \<Rightarrow> u64 \<Rightarrow> u64 \<Rightarrow> u64 outcome" where
  "newton_loop balance sr val =
    (let sr' = (sr + val) div 2 in
     if sr' = 0 then Panic
     else let val' = balance div sr' in
       if sr' \<le> val' then Ret sr' else newton_loop balance sr' val')"
  by pat_completeness auto
termination
  by (relation "measure (\<lambda>(balance, sr, val). unat ((sr + val) div 2))")
    (auto simp: not_le intro: half_sum_less)

declare newton_loop.simps [simp del]

definition CachedSquareRoot :: "sqrt_cache \<Rightarrow> u64 \<Rightarrow> (sqrt_cache \<times> u64) outcome" where
  "CachedSquareRoot c balance =
    (if balance = 0 then Ret (c, 0)
     else if balance = sqBalance c then Ret (c, squareRoot c)
     else if squareRoot c = 0 then Panic
     else obind (newton_loop balance (squareRoot c) (balance div squareRoot c))
       (\<lambda>r. Ret (\<lparr>squareRoot = r, sqBalance = balance\<rparr>, r)))"

subsection \<open>Laws of the checked operations\<close>

text \<open>
  What a client of checked arithmetic may rely on: an operation that reports no error returned
  the exact result, it reports an error exactly when the exact result does not fit (or the
  divisor is zero), and the value beside an error is 0.
\<close>
locale checked_arith =
  fixes mul :: "u64 \<Rightarrow> u64 \<Rightarrow> u64 result" and quo :: "u64 \<Rightarrow> u64 \<Rightarrow> u64 result"
    and add :: "u64 \<Rightarrow> u64 \<Rightarrow> u64 result" and sub :: "u64 \<Rightarrow> u64 \<Rightarrow> u64 result"
    and rem :: "u64 \<Rightarrow> u64 \<Rightarrow> u64 result"
  assumes mul_ok: "mul a b = (c, None) \<longleftrightarrow> unat c = unat a * unat b"
    and quo_ok: "quo a b = (c, None) \<longleftrightarrow> b \<noteq> 0 \<and> unat c = unat a div unat b"
    and add_ok: "add a b = (c, None) \<longleftrightarrow> unat c = unat a + unat b"
    and sub_ok: "sub a b = (c, None) \<longleftrightarrow> unat a = unat b + unat c"
    and rem_ok: "rem a b = (c, None) \<longleftrightarrow> b \<noteq> 0 \<and> unat c = unat a mod unat b"
    and mul_zero: "snd (mul a b) = Some e \<Longrightarrow> fst (mul a b) = 0"
    and add_zero: "snd (add a b) = Some e \<Longrightarrow> fst (add a b) = 0"
    and sub_zero: "snd (sub a b) = Some e \<Longrightarrow> fst (sub a b) = 0"
begin

lemma add_sub: "add a b = (c, None) \<Longrightarrow> sub c b = (a, None)"
  by (simp add: add_ok sub_ok)

lemma sub_add: "sub a b = (c, None) \<Longrightarrow> add c b = (a, None)"
  by (simp add: add_ok sub_ok)

lemma mul_quo: "mul a b = (c, None) \<Longrightarrow> b \<noteq> 0 \<Longrightarrow> quo c b = (a, None)"
  by (simp add: mul_ok quo_ok unat_eq_0)

lemma quo_rem: "quo a b = (q, None) \<Longrightarrow> rem a b = (r, None) \<Longrightarrow>
    mul q b = (m, None) \<Longrightarrow> add m r = (a, None)"
  by (simp add: mul_ok quo_ok add_ok rem_ok)

lemma rem_bound: "rem a b = (r, None) \<Longrightarrow> r < b"
  by (simp add: rem_ok word_less_nat_alt) (metis bot_nat_0.not_eq_extremum mod_less_divisor unat_0_iff)

lemma no_err: "snd p = None \<longleftrightarrow> (\<exists>c. p = (c, None))"
  by (cases p) auto

lemma add_err: "snd (add a b) = None \<longleftrightarrow> unat a + unat b < 2 ^ 64"
  unfolding no_err add_ok u64_of_nat ..

lemma mul_err: "snd (mul a b) = None \<longleftrightarrow> unat a * unat b < 2 ^ 64"
  unfolding no_err mul_ok u64_of_nat ..

end

interpretation math: checked_arith Mul64 Div64 Add64 Sub64 Mod64
proof (standard, goal_cases)
  case (1 a b c)
  have "unat c < 18446744073709551616" by (rule unat_u64_lt)
  then show ?case
    by (auto simp: Mul64_def word_unat_eq_iff unat_word_ariths)
next
  case (2 a b c)
  then show ?case by (auto simp: Div64_def word_unat_eq_iff unat_div)
next
  case (3 a b c)
  have "unat c < 18446744073709551616" by (rule unat_u64_lt)
  then show ?case
    by (auto simp: Add64_def word_unat_eq_iff unat_word_ariths)
next
  case (4 a b c)
  show ?case
    by (auto simp: Sub64_def word_less_nat_alt word_unat_eq_iff not_less unat_sub word_le_nat_alt)
next
  case (5 a b c)
  then show ?case by (auto simp: Mod64_def word_unat_eq_iff unat_mod)
qed (auto simp: Mul64_def Add64_def Sub64_def)

subsection \<open>Correctness of the square root\<close>

definition is_isqrt :: "nat \<Rightarrow> nat \<Rightarrow> bool" where
  "is_isqrt n r \<longleftrightarrow> r * r \<le> n \<and> n < (r + 1) * (r + 1)"

lemma am_gm_nat: "4 * (a * b) \<le> (a + b) * (a + b :: nat)"
proof -
  have "0 \<le> (int a - int b) * (int a - int b)" by simp
  then have "4 * (int a * int b) \<le> (int a + int b) * (int a + int b)"
    by (simp add: algebra_simps)
  then show ?thesis by (metis of_nat_le_iff of_nat_mult of_nat_add of_nat_numeral)
qed

lemma half_up: "(a :: nat) + 1 \<le> 2 * (a div 2 + 1)"
  by presburger

lemma newton_step_ge:
  fixes n x :: nat
  assumes "0 < x"
  shows "n < ((x + n div x) div 2 + 1) * ((x + n div x) div 2 + 1)" (is "n < (?y + 1) * (?y + 1)")
proof -
  let ?q = "n div x"
  have "n < x * (?q + 1)" using assms by (metis Suc_eq_plus1 dividend_less_times_div mult_Suc_right)
  then have "4 * n < 4 * (x * (?q + 1))" by simp
  also have "\<dots> \<le> (x + (?q + 1)) * (x + (?q + 1))" by (rule am_gm_nat)
  also have "\<dots> \<le> (2 * (?y + 1)) * (2 * (?y + 1))"
    using half_up [of "x + ?q"] by (intro mult_le_mono) (simp_all only: add.assoc)
  finally show ?thesis by (simp add: algebra_simps)
qed

lemma newton_exit_le:
  fixes n x :: nat
  assumes "0 < x" "x \<le> n div x"
  shows "x * x \<le> n"
  using assms by (metis div_times_less_eq_dividend le_trans mult_le_mono1)

text \<open>
  A round that does not overflow gives the integer square root, and later rounds cannot overflow.
\<close>
lemma newton_loop_isqrt:
  assumes "0 < balance" "0 < sr" "val = balance div sr" "unat sr + unat val < 2 ^ 64"
  shows "\<exists>r. newton_loop balance sr val = Ret r \<and> is_isqrt (unat balance) (unat r)"
  using assms
proof (induction balance sr val rule: newton_loop.induct)
  case (1 balance sr val)
  define sr' where "sr' = (sr + val) div 2"
  define val' where "val' = balance div sr'"
  have u: "unat sr' = (unat sr + unat balance div unat sr) div 2"
    using 1 by (simp add: sr'_def unat_div unat_add_no_wrap)
  have lt: "unat balance < (unat sr' + 1) * (unat sr' + 1)"
    unfolding u using 1 by (intro newton_step_ge) (simp add: word_less_nat_alt)
  have "0 < unat sr'" using lt 1(2) by (cases "unat sr'") (auto simp: word_less_nat_alt)
  then have pos: "0 < sr'" by (simp add: word_less_nat_alt)
  note unfold = newton_loop.simps [of balance sr val, folded sr'_def]
  show ?case
  proof (cases "sr' \<le> val'")
    case True
    then have "unat sr' * unat sr' \<le> unat balance"
      using pos by (intro newton_exit_le) (auto simp: val'_def u64_nat)
    with lt True pos show ?thesis by (simp add: unfold is_isqrt_def Let_def val'_def [symmetric])
  next
    case False
    then have "unat val' < unat sr'" by (simp add: u64_nat)
    moreover have "unat sr' < 2 ^ 63" unfolding u using 1(5) 1(4) by (simp add: unat_div)
    ultimately have "unat sr' + unat val' < 2 ^ 64" by simp
    then obtain r where "newton_loop balance sr' val' = Ret r" "is_isqrt (unat balance) (unat r)"
      using 1(1) [OF sr'_def _ val'_def False 1(2) pos val'_def] pos by auto
    with False pos show ?thesis by (simp add: unfold Let_def val'_def [symmetric])
  qed
qed

definition sqrt_cache_ok :: "sqrt_cache \<Rightarrow> bool" where
  "sqrt_cache_ok c \<longleftrightarrow> 0 < squareRoot c \<and> is_isqrt (unat (sqBalance c)) (unat (squareRoot c))"

lemma sqrt_cache_ok_init: "sqrt_cache_ok cachedSquareRoot"
  by (simp add: sqrt_cache_ok_def cachedSquareRoot_def is_isqrt_def)

lemma isqrt_bound: "is_isqrt (unat (b :: u64)) r \<Longrightarrow> r < 2 ^ 32"
proof (rule ccontr)
  assume a: "is_isqrt (unat b) r" "\<not> r < 2 ^ 32"
  then have "2 ^ 32 * 2 ^ 32 \<le> r * r" by (intro mult_le_mono) auto
  also have "r * r \<le> unat b" using a by (simp add: is_isqrt_def)
  finally show False using unat_u64_lt [of b] by simp
qed

lemma cached_round_no_overflow:
  fixes sr balance :: u64
  assumes "0 < sr" "unat sr < 2 ^ 32" "balance < - 1 \<or> sr \<noteq> 1"
  shows "unat sr + unat (balance div sr) < 2 ^ 64"
proof (cases "sr = 1")
  case True
  then have "balance < - 1" using assms by simp
  then have "unat balance < unat (- 1 :: u64)" by (simp only: word_less_nat_alt)
  moreover have "unat (- 1 :: u64) = 18446744073709551615" by (simp add: unsigned_minus_1_eq_mask mask_eq_exp_minus_1)
  ultimately have "unat balance < 18446744073709551615" by simp
  with True show ?thesis by simp
next
  case False
  then have "2 \<le> unat sr" using assms(1) by (simp add: word_less_nat_alt) (metis One_nat_def
    Suc_leI less_one linorder_neqE_nat numeral_2_eq_2 not_less_eq unat_1 word_unat_eq_iff)
  then have "unat balance div unat sr \<le> unat balance div 2" by (rule div_le_mono2 [rotated]) simp
  moreover have "unat balance div 2 < 9223372036854775808" using unat_u64_lt [of balance] by linarith
  ultimately show ?thesis using assms(2) by (simp add: unat_div)
qed

text \<open>
  The cached square root is the integer square root, whatever balance is cached, except for the
  one combination where the first sum wraps around.
\<close>
lemma CachedSquareRoot_ok:
  assumes "sqrt_cache_ok c" "balance < - 1 \<or> squareRoot c \<noteq> 1"
  shows "\<exists>c' r. CachedSquareRoot c balance = Ret (c', r) \<and> is_isqrt (unat balance) (unat r)
    \<and> sqrt_cache_ok c'"
proof -
  note c = assms(1) [unfolded sqrt_cache_ok_def]
  consider "balance = 0" | "balance \<noteq> 0" "balance = sqBalance c" | "balance \<noteq> 0" "balance \<noteq> sqBalance c"
    by blast
  then show ?thesis
  proof cases
    case 1
    with assms show ?thesis by (simp add: CachedSquareRoot_def is_isqrt_def)
  next
    case 2
    with assms c show ?thesis by (simp add: CachedSquareRoot_def)
  next
    case 3
    have "unat (squareRoot c) < 2 ^ 32" using c isqrt_bound by blast
    then have "unat (squareRoot c) + unat (balance div squareRoot c) < 2 ^ 64"
      using c assms(2) by (intro cached_round_no_overflow) auto
    then obtain r where r: "newton_loop balance (squareRoot c) (balance div squareRoot c) = Ret r"
      "is_isqrt (unat balance) (unat r)"
      using newton_loop_isqrt [of balance "squareRoot c"] c 3 by (auto simp: word_gt_0)
    have "r \<noteq> 0" using r(2) 3(1) by (auto simp: is_isqrt_def unat_eq_0)
    with r 3 c show ?thesis
      by (auto simp: CachedSquareRoot_def sqrt_cache_ok_def word_gt_0)
  qed
qed

text \<open>The remaining combination: the sum wraps to 0 and the next division panics.\<close>
lemma CachedSquareRoot_max_panics:
  "CachedSquareRoot \<lparr>squareRoot = 1, sqBalance = 1\<rparr> (- 1) = Panic"
  by (simp add: CachedSquareRoot_def newton_loop.simps)

subsection \<open>The other helpers\<close>

lemma Int_math_ok: "Int_math u = (i, None) \<longleftrightarrow> i = uint u \<and> uint u < 2 ^ 63"
  by (auto simp: Int_math_def MaxInt_def)

text \<open>A successful sum is exact; every partial sum stayed inside the range of \<^verbatim>\<open>int\<close>.\<close>
lemma AddInt_loop_exact:
  assumes "AddInt_loop acc is = (n, None)"
  shows "n = acc + sum_list is"
  using assms by (induction acc "is" rule: AddInt_loop.induct) (auto split: if_splits)

lemma AddInt_loop_range:
  assumes "AddInt_loop acc is = (n, None)" "MinInt \<le> acc" "acc \<le> MaxInt"
    "\<forall>i\<in>set is. MinInt \<le> i \<and> i \<le> MaxInt"
  shows "MinInt \<le> n \<and> n \<le> MaxInt"
  using assms
proof (induction acc "is" rule: AddInt_loop.induct)
  case (2 acc ii "is")
  then have "\<not> (ii > 0 \<and> acc > MaxInt - ii)" "\<not> (ii < 0 \<and> acc < MinInt - ii)"
    by (auto split: if_splits)
  moreover from this 2 have "MinInt \<le> acc + ii" "acc + ii \<le> MaxInt" by auto
  ultimately show ?case using 2 by auto
qed auto

lemma ceil8: "(if 0 < n mod 8 then n div 8 + 1 else n div 8) = (n + 7) div (8::int)"
proof -
  define q r where "q = n div 8" and "r = n mod 8"
  have n: "n = r + 8 * q" and r: "0 \<le> r" "r < 8" by (simp_all add: q_def r_def)
  have "(r + 7) div 8 = (if 0 < r then 1 else 0)" using r by (auto simp: div_pos_geq)
  moreover have "(n + 7) div 8 = (r + 7) div 8 + q"
    using div_mult_self2 [of 8 "r + 7" q] by (simp add: n algebra_simps)
  ultimately show ?thesis by (simp add: q_def r_def)
qed

lemma CeilDiv8_ceiling: "0 \<le> n \<Longrightarrow> CeilDiv8 n = (n + 7) div 8"
  by (cases "n = 0") (simp_all add: CeilDiv8_def go_quot_def go_rem_def Let_def minus_mult_div_eq_mod ceil8)

lemma IsPowerOf2_PowerOf2: "PowerOf2 n = Ret p \<Longrightarrow> IsPowerOf2 p"
proof -
  assume "PowerOf2 n = Ret p"
  then have n: "unat n < 64" and p: "p = push_bit (unat n) 1"
    by (auto simp: PowerOf2_def u64_nat split: if_splits)
  have "p = 2 ^ unat n" by (simp add: p push_bit_eq_mult)
  moreover have "p - 1 = mask (unat n)" by (simp add: p mask_eq_exp_minus_1 push_bit_eq_mult)
  moreover have "p \<noteq> 0" using n p by (simp add: push_bit_eq_0_iff unsigned_eq_0_iff)
  moreover have "take_bit (unat n) (2 ^ unat n :: u64) = 0"
    by (rule bit_eqI) (auto simp: bit_take_bit_iff bit_exp_iff)
  ultimately show ?thesis
    by (simp add: IsPowerOf2_def take_bit_eq_mask [symmetric])
qed

end
