(* ===== verification/Primitives.thy ===== *)
theory Primitives
  imports GoMath
begin

text \<open>
  \<^verbatim>\<open>modified_prysm/consensus-types/primitives\<close>: slots, epochs and validator indices with their
  checked (\<open>Safe\<close>) and panicking operations, all on top of the checked arithmetic of
  \<^verbatim>\<open>math_helper.go\<close>.
\<close>

type_synonym Slot = u64
type_synonym Epoch = u64
type_synonym ValidatorIndex = u64

text \<open>\<^verbatim>\<open>res, err := ...; if err != nil { panic(err.Error()) }; return res\<close>\<close>
definition must :: "'a result \<Rightarrow> 'a outcome" where
  "must p = (case snd p of None \<Rightarrow> Ret (fst p) | Some e \<Rightarrow> Panic)"

subsection \<open>Slots\<close>

definition Slot_SafeMul :: "Slot \<Rightarrow> u64 \<Rightarrow> Slot result" where
  "Slot_SafeMul s x = (case Mul64 s x of (res, err) \<Rightarrow> (res, err))"

definition Slot_Mul :: "Slot \<Rightarrow> u64 \<Rightarrow> Slot outcome" where
  "Slot_Mul s x = must (Slot_SafeMul s x)"

definition Slot_MulSlot :: "Slot \<Rightarrow> Slot \<Rightarrow> Slot outcome" where
  "Slot_MulSlot s x = Slot_Mul s x"

definition Slot_SafeMulSlot :: "Slot \<Rightarrow> Slot \<Rightarrow> Slot result" where
  "Slot_SafeMulSlot s x = Slot_SafeMul s x"

definition Slot_SafeDiv :: "Slot \<Rightarrow> u64 \<Rightarrow> Slot result" where
  "Slot_SafeDiv s x = (case Div64 s x of (res, err) \<Rightarrow> (res, err))"

definition Slot_Div :: "Slot \<Rightarrow> u64 \<Rightarrow> Slot outcome" where
  "Slot_Div s x = must (Slot_SafeDiv s x)"

definition Slot_DivSlot :: "Slot \<Rightarrow> Slot \<Rightarrow> Slot outcome" where
  "Slot_DivSlot s x = Slot_Div s x"

definition Slot_SafeDivSlot :: "Slot \<Rightarrow> Slot \<Rightarrow> Slot result" where
  "Slot_SafeDivSlot s x = Slot_SafeDiv s x"

definition Slot_SafeAdd :: "Slot \<Rightarrow> u64 \<Rightarrow> Slot result" where
  "Slot_SafeAdd s x = (case Add64 s x of (res, err) \<Rightarrow> (res, err))"

definition Slot_Add :: "Slot \<Rightarrow> u64 \<Rightarrow> Slot outcome" where
  "Slot_Add s x = must (Slot_SafeAdd s x)"

definition Slot_AddSlot :: "Slot \<Rightarrow> Slot \<Rightarrow> Slot outcome" where
  "Slot_AddSlot s x = Slot_Add s x"

definition Slot_SafeAddSlot :: "Slot \<Rightarrow> Slot \<Rightarrow> Slot result" where
  "Slot_SafeAddSlot s x = Slot_SafeAdd s x"

definition Slot_SafeSub :: "Slot \<Rightarrow> u64 \<Rightarrow> Slot result" where
  "Slot_SafeSub s x = (case Sub64 s x of (res, err) \<Rightarrow> (res, err))"

definition Slot_Sub :: "Slot \<Rightarrow> u64 \<Rightarrow> Slot outcome" where
  "Slot_Sub s x = must (Slot_SafeSub s x)"

definition Slot_SubSlot :: "Slot \<Rightarrow> Slot \<Rightarrow> Slot outcome" where
  "Slot_SubSlot s x = Slot_Sub s x"

definition Slot_SafeSubSlot :: "Slot \<Rightarrow> Slot \<Rightarrow> Slot result" where
  "Slot_SafeSubSlot s x = Slot_SafeSub s x"

definition Slot_SafeMod :: "Slot \<Rightarrow> u64 \<Rightarrow> Slot result" where
  "Slot_SafeMod s x = (case Mod64 s x of (res, err) \<Rightarrow> (res, err))"

definition Slot_Mod :: "Slot \<Rightarrow> u64 \<Rightarrow> Slot outcome" where
  "Slot_Mod s x = must (Slot_SafeMod s x)"

definition Slot_ModSlot :: "Slot \<Rightarrow> Slot \<Rightarrow> Slot outcome" where
  "Slot_ModSlot s x = Slot_Mod s x"

definition Slot_SafeModSlot :: "Slot \<Rightarrow> Slot \<Rightarrow> Slot result" where
  "Slot_SafeModSlot s x = Slot_SafeMod s x"

subsection \<open>Epochs\<close>

definition MaxEpoch :: "Epoch \<Rightarrow> Epoch \<Rightarrow> Epoch" where
  "MaxEpoch a b = (if a > b then a else b)"

definition Epoch_SafeMul :: "Epoch \<Rightarrow> u64 \<Rightarrow> Epoch result" where
  "Epoch_SafeMul e x = (case Mul64 e x of (res, err) \<Rightarrow> (res, err))"

definition Epoch_Mul :: "Epoch \<Rightarrow> u64 \<Rightarrow> Epoch outcome" where
  "Epoch_Mul e x = must (Epoch_SafeMul e x)"

definition Epoch_SafeDiv :: "Epoch \<Rightarrow> u64 \<Rightarrow> Epoch result" where
  "Epoch_SafeDiv e x = (case Div64 e x of (res, err) \<Rightarrow> (res, err))"

definition Epoch_Div :: "Epoch \<Rightarrow> u64 \<Rightarrow> Epoch outcome" where
  "Epoch_Div e x = must (Epoch_SafeDiv e x)"

definition Epoch_SafeAdd :: "Epoch \<Rightarrow> u64 \<Rightarrow> Epoch result" where
  "Epoch_SafeAdd e x = (case Add64 e x of (res, err) \<Rightarrow> (res, err))"

definition Epoch_Add :: "Epoch \<Rightarrow> u64 \<Rightarrow> Epoch outcome" where
  "Epoch_Add e x = must (Epoch_SafeAdd e x)"

definition Epoch_AddEpoch :: "Epoch \<Rightarrow> Epoch \<Rightarrow> Epoch outcome" where
  "Epoch_AddEpoch e x = Epoch_Add e x"

definition Epoch_SafeAddEpoch :: "Epoch \<Rightarrow> Epoch \<Rightarrow> Epoch result" where
  "Epoch_SafeAddEpoch e x = Epoch_SafeAdd e x"

definition Epoch_SafeSub :: "Epoch \<Rightarrow> u64 \<Rightarrow> Epoch result" where
  "Epoch_SafeSub e x = (case Sub64 e x of (res, err) \<Rightarrow> (res, err))"

definition Epoch_Sub :: "Epoch \<Rightarrow> u64 \<Rightarrow> Epoch outcome" where
  "Epoch_Sub e x = must (Epoch_SafeSub e x)"

definition Epoch_SafeMod :: "Epoch \<Rightarrow> u64 \<Rightarrow> Epoch result" where
  "Epoch_SafeMod e x = (case Mod64 e x of (res, err) \<Rightarrow> (res, err))"

definition Epoch_Mod :: "Epoch \<Rightarrow> u64 \<Rightarrow> Epoch outcome" where
  "Epoch_Mod e x = must (Epoch_SafeMod e x)"

subsection \<open>Validator indices\<close>

definition ValidatorIndex_Div :: "ValidatorIndex \<Rightarrow> u64 \<Rightarrow> ValidatorIndex outcome" where
  "ValidatorIndex_Div v x = (if x = 0 then Panic else Ret (v div x))"

definition ValidatorIndex_Add :: "ValidatorIndex \<Rightarrow> u64 \<Rightarrow> ValidatorIndex" where
  "ValidatorIndex_Add v x = v + x"

definition ValidatorIndex_Sub :: "ValidatorIndex \<Rightarrow> u64 \<Rightarrow> ValidatorIndex outcome" where
  "ValidatorIndex_Sub v x = (if v < x then Panic else Ret (v - x))"

definition ValidatorIndex_Mod :: "ValidatorIndex \<Rightarrow> u64 \<Rightarrow> ValidatorIndex outcome" where
  "ValidatorIndex_Mod v x = (if x = 0 then Panic else Ret (v mod x))"

subsection \<open>Laws\<close>

lemma must_Ret: "must p = Ret v \<longleftrightarrow> p = (v, None)"
  by (cases p) (auto simp: must_def split: option.splits)

lemma must_Panic: "must p = Panic \<longleftrightarrow> snd p \<noteq> None"
  by (auto simp: must_def split: option.splits)

lemma must_not_Diverge: "must p \<noteq> Diverge"
  by (auto simp: must_def split: option.splits)

text \<open>
  The contract of an integer type with panicking operations over a checked arithmetic: an
  operation that returns is exact, and the panicking and checked versions agree.
\<close>
locale panicking_arith = checked_arith mul quo add sub rem
  for mul quo add sub rem +
  fixes pmul :: "u64 \<Rightarrow> u64 \<Rightarrow> u64 outcome" and pquo :: "u64 \<Rightarrow> u64 \<Rightarrow> u64 outcome"
    and padd :: "u64 \<Rightarrow> u64 \<Rightarrow> u64 outcome" and psub :: "u64 \<Rightarrow> u64 \<Rightarrow> u64 outcome"
    and prem :: "u64 \<Rightarrow> u64 \<Rightarrow> u64 outcome"
  assumes pmul_must: "pmul a b = must (mul a b)" and pquo_must: "pquo a b = must (quo a b)"
    and padd_must: "padd a b = must (add a b)" and psub_must: "psub a b = must (sub a b)"
    and prem_must: "prem a b = must (rem a b)"
begin

lemma pmul_Ret: "pmul a b = Ret c \<longleftrightarrow> unat c = unat a * unat b"
  by (simp add: pmul_must must_Ret mul_ok)

lemma padd_Ret: "padd a b = Ret c \<longleftrightarrow> unat c = unat a + unat b"
  by (simp add: padd_must must_Ret add_ok)

lemma psub_Ret: "psub a b = Ret c \<longleftrightarrow> unat a = unat b + unat c"
  by (simp add: psub_must must_Ret sub_ok)

lemma padd_psub: "padd a b = Ret c \<Longrightarrow> psub c b = Ret a"
  by (simp add: padd_Ret psub_Ret)

lemma psub_padd: "psub a b = Ret c \<Longrightarrow> padd c b = Ret a"
  by (simp add: padd_Ret psub_Ret)

lemma pquo_prem:
  assumes "b \<noteq> 0"
  obtains q r where "pquo a b = Ret q" "prem a b = Ret r" "r < b" "unat a = unat q * unat b + unat r"
proof
  have 1: "quo a b = (a div b, None)" and 2: "rem a b = (a mod b, None)"
    using assms by (simp_all add: quo_ok rem_ok unat_div unat_mod)
  show "pquo a b = Ret (a div b)" "prem a b = Ret (a mod b)"
    using 1 2 by (simp_all add: pquo_must prem_must must_Ret)
  show "a mod b < b" using 2 by (rule rem_bound)
  show "unat a = unat (a div b) * unat b + unat (a mod b)" by (simp add: unat_div unat_mod)
qed

lemma pmul_Panic: "pmul a b = Panic \<longleftrightarrow> 2 ^ 64 \<le> unat a * unat b"
  using mul_err [of a b] by (auto simp: pmul_must must_Panic)

lemma padd_Panic: "padd a b = Panic \<longleftrightarrow> 2 ^ 64 \<le> unat a + unat b"
  using add_err [of a b] by (auto simp: padd_must must_Panic)

lemma psub_Panic: "psub a b = Panic \<longleftrightarrow> a < b"
proof -
  have "psub a b \<noteq> Panic \<longleftrightarrow> (\<exists>c. psub a b = Ret c)"
    by (cases "psub a b") (simp_all add: psub_must must_not_Diverge)
  also have "\<dots> \<longleftrightarrow> unat b \<le> unat a"
  proof
    assume "unat b \<le> unat a"
    then have "unat a = unat b + unat (a - b)" by (simp add: unat_sub word_le_nat_alt)
    then show "\<exists>c. psub a b = Ret c" unfolding psub_Ret ..
  qed (auto simp: psub_Ret)
  finally show ?thesis by (auto simp: word_less_nat_alt)
qed

end

interpretation slot: panicking_arith Slot_SafeMul Slot_SafeDiv Slot_SafeAdd Slot_SafeSub Slot_SafeMod
  Slot_Mul Slot_Div Slot_Add Slot_Sub Slot_Mod
  by unfold_locales
    (simp_all add: Slot_SafeMul_def Slot_SafeDiv_def Slot_SafeAdd_def Slot_SafeSub_def
      Slot_SafeMod_def Slot_Mul_def Slot_Div_def Slot_Add_def Slot_Sub_def Slot_Mod_def
      math.mul_ok math.quo_ok math.add_ok math.sub_ok math.rem_ok math.mul_zero math.add_zero
      math.sub_zero)

interpretation epoch: panicking_arith Epoch_SafeMul Epoch_SafeDiv Epoch_SafeAdd Epoch_SafeSub
  Epoch_SafeMod Epoch_Mul Epoch_Div Epoch_Add Epoch_Sub Epoch_Mod
  by unfold_locales
    (simp_all add: Epoch_SafeMul_def Epoch_SafeDiv_def Epoch_SafeAdd_def Epoch_SafeSub_def
      Epoch_SafeMod_def Epoch_Mul_def Epoch_Div_def Epoch_Add_def Epoch_Sub_def Epoch_Mod_def
      math.mul_ok math.quo_ok math.add_ok math.sub_ok math.rem_ok math.mul_zero math.add_zero
      math.sub_zero)

lemma Slot_DivSlot_nz: "x \<noteq> 0 \<Longrightarrow> Slot_DivSlot s x = Ret (s div x)"
  by (simp add: Slot_DivSlot_def Slot_Div_def Slot_SafeDiv_def Div64_def must_def)

lemma Slot_ModSlot_nz: "x \<noteq> 0 \<Longrightarrow> Slot_ModSlot s x = Ret (s mod x)"
  by (simp add: Slot_ModSlot_def Slot_Mod_def Slot_SafeMod_def Mod64_def must_def)

end
