(* ===== verification/SlotTime.thy ===== *)
theory SlotTime
  imports Primitives
begin

text \<open>
  \<^verbatim>\<open>modified_prysm/time/slots/slottime.go\<close>: slots, epochs and wall-clock time. An instant is a
  number of nanoseconds since the Unix epoch, a duration a signed 64-bit number of nanoseconds;
  readings of the clock are arguments. Chain parameters have the values of
  \<^verbatim>\<open>config/params/mainnet_config.go\<close>, which the test networks of the repository keep for the
  fields used here (\<^verbatim>\<open>config/config.yml\<close>).
\<close>

type_synonym go_time = int
type_synonym duration = "64 word"

definition SlotsPerEpoch :: Slot where "SlotsPerEpoch = 32"
definition SecondsPerSlot :: u64 where "SecondsPerSlot = 12"
definition IntervalsPerSlot :: u64 where "IntervalsPerSlot = 3"
definition GenesisEpoch :: Epoch where "GenesisEpoch = 0"
definition EpochsPerEth1VotingPeriod :: Epoch where "EpochsPerEth1VotingPeriod = 64"
definition EpochsPerSyncCommitteePeriod :: Epoch where "EpochsPerSyncCommitteePeriod = 256"
definition MaxSlotBuffer :: u64 where "MaxSlotBuffer = 128"

lemmas params_simps = SlotsPerEpoch_def SecondsPerSlot_def IntervalsPerSlot_def GenesisEpoch_def
  EpochsPerEth1VotingPeriod_def EpochsPerSyncCommitteePeriod_def MaxSlotBuffer_def

definition second_ns :: int where "second_ns = 1000000000"

text \<open>\<^verbatim>\<open>time.Unix(sec, 0)\<close> of a \<^verbatim>\<open>uint64\<close> converted to \<^verbatim>\<open>int64\<close>; \<^verbatim>\<open>t.Unix()\<close> rounds down.\<close>
definition time_Unix :: "u64 \<Rightarrow> go_time" where "time_Unix sec = sint sec * second_ns"
definition unix_of :: "go_time \<Rightarrow> u64" where "unix_of t = word_of_int (t div second_ns)"

text \<open>\<^verbatim>\<open>t.Sub(u)\<close> saturates at the bounds of a duration.\<close>
definition time_Sub :: "go_time \<Rightarrow> go_time \<Rightarrow> duration" where
  "time_Sub t u = (let d = t - u in
     if d > 2 ^ 63 - 1 then word_of_int (2 ^ 63 - 1)
     else if d < - (2 ^ 63) then word_of_int (- (2 ^ 63)) else word_of_int d)"

subsection \<open>Slots and epochs\<close>

definition AbsoluteValueSlotDifference :: "Slot \<Rightarrow> Slot \<Rightarrow> u64 outcome" where
  "AbsoluteValueSlotDifference x y = (if x > y then Slot_SubSlot x y else Slot_SubSlot y x)"

definition ToEpoch :: "Slot \<Rightarrow> Epoch outcome" where
  "ToEpoch slot = Slot_DivSlot slot SlotsPerEpoch"

definition EpochStart :: "Epoch \<Rightarrow> Slot result" where
  "EpochStart epoch = (case Slot_SafeMul SlotsPerEpoch epoch of
     (slot, Some err) \<Rightarrow> (slot, Some (Fresh ''start slot calculation overflows''))
   | (slot, None) \<Rightarrow> (slot, None))"

definition UnsafeEpochStart :: "Epoch \<Rightarrow> Slot outcome" where
  "UnsafeEpochStart epoch = (case EpochStart epoch of (es, Some err) \<Rightarrow> Panic | (es, None) \<Rightarrow> Ret es)"

definition EpochEnd :: "Epoch \<Rightarrow> Slot result" where
  "EpochEnd epoch =
    (if epoch = - 1 then (0, Some (Fresh ''start slot calculation overflows''))
     else case EpochStart (epoch + 1) of (slot, Some err) \<Rightarrow> (0, Some err)
       | (slot, None) \<Rightarrow> (slot - 1, None))"

definition IsEpochStart :: "Slot \<Rightarrow> bool" where
  "IsEpochStart slot \<longleftrightarrow> slot mod SlotsPerEpoch = 0"

definition IsEpochEnd :: "Slot \<Rightarrow> bool" where
  "IsEpochEnd slot \<longleftrightarrow> IsEpochStart (slot + 1)"

definition SinceEpochStarts :: "Slot \<Rightarrow> Slot" where
  "SinceEpochStarts slot = slot mod SlotsPerEpoch"

definition RoundUpToNearestEpoch :: "Slot \<Rightarrow> Slot" where
  "RoundUpToNearestEpoch slot =
    (if slot mod SlotsPerEpoch \<noteq> 0
     then (slot - slot mod SlotsPerEpoch) + SlotsPerEpoch else slot)"

definition PrevSlot :: "Slot \<Rightarrow> Slot outcome" where
  "PrevSlot slot = (if slot > 0 then Slot_Sub slot 1 else Ret 0)"

definition SyncCommitteePeriod :: "Epoch \<Rightarrow> u64" where
  "SyncCommitteePeriod e = e div EpochsPerSyncCommitteePeriod"

definition SyncCommitteePeriodStartEpoch :: "Epoch \<Rightarrow> Epoch result" where
  "SyncCommitteePeriodStartEpoch e =
    (case Mul64 (SyncCommitteePeriod e) EpochsPerSyncCommitteePeriod of
       (startEpoch, Some err) \<Rightarrow> (0, Some err) | (startEpoch, None) \<Rightarrow> (startEpoch, None))"

definition MaxSafeEpoch :: Epoch where
  "MaxSafeEpoch = - 1 div SlotsPerEpoch"

subsection \<open>Clock\<close>

definition startFromTime :: "go_time \<Rightarrow> Slot \<Rightarrow> go_time outcome" where
  "startFromTime genesis slot = obind (Slot_Mul slot SecondsPerSlot)
     (\<lambda>secs. Ret (genesis + sint (1000000000 * secs :: duration)))"

definition StartTime :: "u64 \<Rightarrow> Slot \<Rightarrow> go_time outcome" where
  "StartTime genesis slot = startFromTime (time_Unix genesis) slot"

text \<open>
  \<^verbatim>\<open>uint64(prysmTime.Since(genesis).Seconds())\<close>, a conversion through \<^verbatim>\<open>float64\<close>, is the argument
  \<open>elapsed\<close>.
\<close>
definition SinceGenesis :: "go_time \<Rightarrow> go_time \<Rightarrow> u64 \<Rightarrow> Slot" where
  "SinceGenesis genesis now elapsed = (if genesis > now then 0 else elapsed div SecondsPerSlot)"

definition EpochsSinceGenesis :: "go_time \<Rightarrow> go_time \<Rightarrow> u64 \<Rightarrow> Epoch" where
  "EpochsSinceGenesis genesis now elapsed = SinceGenesis genesis now elapsed div SlotsPerEpoch"

definition CurrentSlot :: "u64 \<Rightarrow> u64 \<Rightarrow> Slot" where
  "CurrentSlot now genesisTimeSec =
    (if now < genesisTimeSec then 0 else (now - genesisTimeSec) div SecondsPerSlot)"

definition Since :: "u64 \<Rightarrow> go_time \<Rightarrow> Slot" where
  "Since now t = CurrentSlot now (unix_of t)"

definition Duration :: "go_time \<Rightarrow> go_time \<Rightarrow> Slot" where
  "Duration start end =
    (if end < start then 0 else (unix_of end - unix_of start) div SecondsPerSlot)"

definition ToTime :: "u64 \<Rightarrow> Slot \<Rightarrow> go_time result" where
  "ToTime genesisTimeSec slot =
    (case Slot_SafeMul slot SecondsPerSlot of
       (timeSinceGenesis, Some err) \<Rightarrow> (time_Unix 0, Some (Wrap ''slot is in the far distant future'' err))
     | (timeSinceGenesis, None) \<Rightarrow> (case Slot_SafeAdd timeSinceGenesis genesisTimeSec of
         (sTime, Some err) \<Rightarrow> (time_Unix 0, Some (Wrap ''slot is in the far distant future'' err))
       | (sTime, None) \<Rightarrow> (time_Unix sTime, None)))"

definition BeginsAt :: "Slot \<Rightarrow> go_time \<Rightarrow> go_time" where
  "BeginsAt slot genesis = genesis + sint (1000000000 * SecondsPerSlot * slot :: duration)"

definition ValidateClock :: "u64 \<Rightarrow> Slot \<Rightarrow> u64 \<Rightarrow> go_error option outcome" where
  "ValidateClock now slot genesisTimeSec =
    obind (Slot_Add (CurrentSlot now genesisTimeSec) MaxSlotBuffer)
     (\<lambda>maxPossibleSlot. Ret (if slot > maxPossibleSlot
        then Some (Fresh ''slot exceeds max allowed value relative to the local clock'') else None))"

definition VerifyTime :: "u64 \<Rightarrow> go_time \<Rightarrow> u64 \<Rightarrow> Slot \<Rightarrow> duration \<Rightarrow> go_error option outcome" where
  "VerifyTime now currentTime genesisTime slot timeTolerance =
    (case ToTime genesisTime slot of (slotTime, Some err) \<Rightarrow> Ret (Some err)
     | (slotTime, None) \<Rightarrow> obind (ValidateClock now slot genesisTime) (\<lambda>e. case e of
         Some err \<Rightarrow> Ret (Some err)
       | None \<Rightarrow> (let diff = time_Sub slotTime currentTime in
           Ret (if sint diff > sint timeTolerance
             then Some (Fresh ''could not process slot from the future'') else None))))"

definition VotingPeriodStartTime :: "u64 \<Rightarrow> Slot \<Rightarrow> u64 outcome" where
  "VotingPeriodStartTime genesis slot =
    obind (Slot_Mul SlotsPerEpoch EpochsPerEth1VotingPeriod) (\<lambda>slots.
    obind (Slot_ModSlot slot slots) (\<lambda>m.
    obind (Slot_Mul (slot - m) SecondsPerSlot) (\<lambda>startTime. Ret (genesis + startTime))))"

definition SecondsSinceSlotStart :: "Slot \<Rightarrow> u64 \<Rightarrow> u64 \<Rightarrow> u64 result" where
  "SecondsSinceSlotStart s genesisTime timeStamp =
    (if timeStamp < genesisTime + s * SecondsPerSlot
     then (0, Some (Fresh ''could not compute seconds since slot start: invalid timestamp''))
     else (timeStamp - genesisTime - s * SecondsPerSlot, None))"

definition DivideSlotBy :: "64 word \<Rightarrow> duration outcome" where
  "DivideSlotBy timesPerSlot = (if timesPerSlot = 0 then Panic
     else Ret (word_of_int (go_quot (sint (SecondsPerSlot * 1000)) (sint timesPerSlot)) * 1000000))"

definition MultiplySlotBy :: "64 word \<Rightarrow> duration" where
  "MultiplySlotBy k = SecondsPerSlot * k * 1000000000"

subsection \<open>Laws\<close>

lemma SlotsPerEpoch_nz [simp]: "SlotsPerEpoch \<noteq> 0" by (simp add: SlotsPerEpoch_def)

lemma ToEpoch_Ret [simp]: "ToEpoch slot = Ret (slot div 32)"
  by (simp add: ToEpoch_def Slot_DivSlot_nz) (simp add: SlotsPerEpoch_def)

lemma EpochStart_ok: "EpochStart e = (s, None) \<longleftrightarrow> unat s = 32 * unat e"
  using slot.mul_ok [of SlotsPerEpoch e s]
  by (auto simp: EpochStart_def SlotsPerEpoch_def split: prod.splits option.splits)

lemma EpochStart_err: "snd (EpochStart e) = None \<longleftrightarrow> e \<le> MaxSafeEpoch"
proof -
  have "snd (EpochStart e) = None \<longleftrightarrow> snd (Slot_SafeMul SlotsPerEpoch e) = None"
    by (auto simp: EpochStart_def split: prod.splits option.splits)
  also have "\<dots> \<longleftrightarrow> 32 * unat e < 2 ^ 64"
    by (simp add: slot.mul_err SlotsPerEpoch_def)
  also have "\<dots> \<longleftrightarrow> e \<le> MaxSafeEpoch"
    by (simp add: MaxSafeEpoch_def SlotsPerEpoch_def word_le_nat_alt unat_div unsigned_minus_1_eq_mask
        mask_eq_exp_minus_1) linarith
  finally show ?thesis .
qed

text \<open>Every epoch with a representable start is found again from it.\<close>
lemma ToEpoch_EpochStart: "EpochStart e = (s, None) \<Longrightarrow> ToEpoch s = Ret e"
  by (simp add: EpochStart_ok word_unat_eq_iff unat_div)

lemma EpochStart_le: "ToEpoch s = Ret e \<Longrightarrow> \<exists>st. EpochStart e = (st, None) \<and> st \<le> s"
proof -
  assume "ToEpoch s = Ret e"
  then have e: "unat e = unat s div 32" by (auto simp: unat_div)
  have "32 * (unat s div 32) \<le> unat s" by simp
  then have "32 * unat e < 2 ^ 64" using unat_u64_bound [of s] unfolding e by linarith
  then obtain st :: u64 where "unat st = 32 * unat e" using u64_of_nat by blast
  then show ?thesis
    using e by (intro exI [of _ st]) (simp add: EpochStart_ok word_le_nat_alt)
qed

text \<open>
  The last slot of an epoch is computed from the next epoch's start, so the last epoch with a
  representable end already reports an overflow.
\<close>
lemma EpochEnd_ok:
  "EpochEnd e = (s, None) \<longleftrightarrow> unat s + 1 = 32 * (unat e + 1) \<and> e < MaxSafeEpoch"
proof -
  have mx: "e < MaxSafeEpoch \<longleftrightarrow> 32 * (unat e + 1) < 2 ^ 64"
    by (simp add: MaxSafeEpoch_def SlotsPerEpoch_def word_less_nat_alt unat_div
        unsigned_minus_1_eq_mask mask_eq_exp_minus_1)
  show ?thesis
  proof (cases "e = - 1")
    case True
    then show ?thesis
      by (simp add: EpochEnd_def mx unsigned_minus_1_eq_mask mask_eq_exp_minus_1)
  next
    case False
    then have u: "unat (e + 1) = unat e + 1"
      by (metis Suc_eq_plus1 add.commute eq_neg_iff_add_eq_0 unatSuc)
    obtain st err where es: "EpochStart (e + 1) = (st, err)" by (cases "EpochStart (e + 1)")
    show ?thesis
    proof (cases err)
      case None
      then have st: "unat st = 32 * (unat e + 1)" using es u by (simp add: EpochStart_ok)
      then have "1 \<le> st" by (simp add: word_le_nat_alt)
      then have "unat (st - 1) = unat st - 1" by (simp add: unat_sub)
      moreover have "32 * (unat e + 1) < 2 ^ 64" using st u64_of_nat by metis
      ultimately show ?thesis
        using False es None st by (auto simp: EpochEnd_def word_unat_eq_iff mx)
    next
      case (Some er)
      then have "\<not> 32 * (unat e + 1) < 2 ^ 64"
        using es u u64_of_nat [of "32 * (unat e + 1)"] EpochStart_ok [of "e + 1"] by auto
      then show ?thesis using False es Some by (simp add: EpochEnd_def mx)
    qed
  qed
qed

text \<open>A slot lies in exactly the epoch whose bounds contain it.\<close>
lemma epoch_bounds:
  assumes "EpochStart e = (st, None)" "EpochEnd e = (en, None)"
  shows "ToEpoch s = Ret e \<longleftrightarrow> st \<le> s \<and> s \<le> en"
  using assms by (auto simp: EpochStart_ok EpochEnd_ok u64_nat)

lemma RoundUp_mult: "RoundUpToNearestEpoch s mod 32 = 0"
proof -
  have "unat (s - s mod 32) = unat s - unat s mod 32"
    by (simp add: unat_sub word_le_nat_alt unat_mod)
  then have "unat ((s - s mod 32) mod 32) = 0"
    by (simp add: unat_mod)
  then have "(s - s mod 32) mod 32 = 0" by (simp add: unat_eq_0)
  moreover have "(x + 32) mod 32 = x mod 32" for x :: u64
  proof -
    have "(unat x + 32) mod 18446744073709551616 mod 32 = (unat x + 32) mod 32"
      by (rule mod_mod_cancel) simp
    then show ?thesis by (simp add: word_unat_eq_iff unat_mod unat_word_ariths)
  qed
  ultimately show ?thesis by (simp add: RoundUpToNearestEpoch_def SlotsPerEpoch_def)
qed

lemma SyncCommitteePeriodStartEpoch_ok:
  "\<exists>st. SyncCommitteePeriodStartEpoch e = (st, None) \<and> st \<le> e \<and> e - st < 256"
proof -
  have le: "unat e div 256 * 256 \<le> unat e" by simp
  have "unat (e div 256) * 256 < 2 ^ 64"
    using le_less_trans [OF le unat_u64_bound] by (simp only: unat_div) simp
  then obtain st :: u64 where st: "unat st = unat (e div 256) * 256" using u64_of_nat by blast
  have m: "Mul64 (e div 256) 256 = (st, None)" using st by (simp add: math.mul_ok)
  have "st \<le> e" using st le by (simp add: word_le_nat_alt unat_div)
  moreover from this have "unat (e - st) = unat e - unat e div 256 * 256"
    using st by (simp add: unat_sub unat_div)
  then have "e - st < 256" by (simp add: word_less_nat_alt minus_div_mult_eq_mod)
  ultimately show ?thesis
    using m by (simp add: SyncCommitteePeriodStartEpoch_def SyncCommitteePeriod_def
        EpochsPerSyncCommitteePeriod_def)
qed

end
