(* ===== verification/ForkStore.thy ===== *)
theory ForkStore
  imports SlotTime
begin

text \<open>
  The fork choice store of the modified client,
  \<^verbatim>\<open>modified_prysm/beacon-chain/forkchoice/doubly-linked-tree\<close>: \<^verbatim>\<open>types.go\<close>, \<^verbatim>\<open>errors.go\<close>,
  \<^verbatim>\<open>node.go\<close>, \<^verbatim>\<open>store.go\<close> and \<^verbatim>\<open>optimistic_sync.go\<close>.

  Nodes live in an explicit heap: a pointer is an address or nil (\<open>None\<close>), \<open>nodes\<close> gives the
  node at an address and \<open>nextAddr\<close> the address the next \<^verbatim>\<open>&Node{}\<close> gets. Loops along parent
  or child pointers carry fuel; running out of it is the outcome \<open>Diverge\<close>. Every top-level
  operation starts its loops with one unit more than there are allocated nodes, so a loop that
  visits no node twice never runs out.
\<close>

subsection \<open>Types\<close>

type_synonym addr = nat

record Checkpoint =
  cpEpoch :: Epoch
  cpRoot :: root32

record Node =
  n_slot :: Slot
  n_root :: root32
  n_payloadHash :: root32
  n_parent :: "addr option"
  n_target :: "addr option"
  n_children :: "addr list"
  n_justifiedEpoch :: Epoch
  n_finalizedEpoch :: Epoch
  n_balance :: u64
  n_weight :: u64
  n_optimistic :: bool
  n_timestamp :: u64
  n_stabled :: bool
  n_validatorIndices :: "(u64, bool) gomap option"

text \<open>
  The maps hold non-nil pointers only (every write stores a fresh \<^verbatim>\<open>&Node\<close>), so their values are
  addresses. \<open>cacheAttCount\<close> is nil until the first vote. The field \<^verbatim>\<open>votedSlotBlock\<close> is made
  by \<^verbatim>\<open>New\<close> and never used; \<^verbatim>\<open>mux\<close> is never locked.
\<close>
record Store =
  justifiedCheckpoint :: Checkpoint
  prevJustifiedCheckpoint :: Checkpoint
  finalizedCheckpoint :: Checkpoint
  treeRootNode :: "addr option"
  headNode :: "addr option"
  nodeByRoot :: "(root32, addr) gomap"
  nodeByPayload :: "(root32, addr) gomap"
  originRoot :: root32
  genesisTime :: u64
  receivedBlocksLastEpoch :: "Slot list"
  allTipsAreInvalid :: bool
  votedSlotBlock :: "(u64, (root32, addr) gomap) gomap"
  cacheSlot :: u64
  cacheAttCount :: "(root32, int) gomap option"
  nodes :: "addr \<Rightarrow> Node"
  nextAddr :: addr

definition ErrNilNode :: go_error where
  "ErrNilNode = Sentinel ''invalid nil or unknown node''"
definition errInvalidParentRoot :: go_error where
  "errInvalidParentRoot = Sentinel ''invalid parent root''"
definition errUnknownFinalizedRoot :: go_error where
  "errUnknownFinalizedRoot = Sentinel ''unknown finalized root''"
definition errUnknownJustifiedRoot :: go_error where
  "errUnknownJustifiedRoot = Sentinel ''unknown justified root''"
definition errInvalidOptimisticStatus :: go_error where
  "errInvalidOptimisticStatus = Sentinel ''invalid optimistic status''"
definition errInvalidNilCheckpoint :: go_error where
  "errInvalidNilCheckpoint = Sentinel ''invalid nil checkpoint''"
definition errNilBlockHeader :: go_error where
  "errNilBlockHeader = Sentinel ''invalid nil block header''"

lemmas fork_errors = ErrNilNode_def errInvalidParentRoot_def errUnknownFinalizedRoot_def
  errUnknownJustifiedRoot_def errInvalidOptimisticStatus_def errInvalidNilCheckpoint_def
  errNilBlockHeader_def

text \<open>
  A context answers, at each place that asks \<^verbatim>\<open>ctx.Err()\<close>, whether it is cancelled: at the entry
  of \<^verbatim>\<open>updateBestDescendant\<close> and \<^verbatim>\<open>head\<close>, and when a loop stands at a node (or a pair of nodes).
\<close>
datatype ctx_site = AtUpdateBest | AtHead | AtNode addr | AtPair addr addr
type_synonym ctxt = "ctx_site \<Rightarrow> bool"

definition background :: ctxt where "background = (\<lambda>_. False)"

text \<open>The order in which one operation ranges over \<^verbatim>\<open>nodeByRoot\<close>.\<close>
type_synonym map_iter = "(root32, addr) gomap \<Rightarrow> root32 list"

definition iter_ok :: "map_iter \<Rightarrow> bool" where
  "iter_ok iter \<longleftrightarrow> (\<forall>m. gm_ok m \<longrightarrow> gm_order m (iter m))"

text \<open>Writing one node.\<close>
definition upd_node :: "addr \<Rightarrow> (Node \<Rightarrow> Node) \<Rightarrow> Store \<Rightarrow> Store" where
  "upd_node a f s = s\<lparr>nodes := (nodes s)(a := f (nodes s a))\<rparr>"

definition TotalValidatorCount :: int where "TotalValidatorCount = 16384"
definition ValidatorPerSlot :: int where "ValidatorPerSlot = TotalValidatorCount div 32"

subsection \<open>Nodes\<close>

definition ProcessAttestationsThreshold :: u64 where "ProcessAttestationsThreshold = 10"

fun depth_loop :: "nat \<Rightarrow> Store \<Rightarrow> addr option \<Rightarrow> u64 \<Rightarrow> u64 outcome" where
  "depth_loop 0 s node ret = Diverge"
| "depth_loop (Suc k) s None ret = Ret ret"
| "depth_loop (Suc k) s (Some a) ret = depth_loop k s (n_parent (nodes s a)) (ret + 1)"

definition depth :: "Store \<Rightarrow> addr \<Rightarrow> u64 outcome" where
  "depth s n = depth_loop (Suc (nextAddr s)) s (n_parent (nodes s n)) 0"

definition viableForHead :: "Node \<Rightarrow> Epoch \<Rightarrow> Epoch \<Rightarrow> bool" where
  "viableForHead n justifiedEpoch currentEpoch \<longleftrightarrow>
     justifiedEpoch = n_justifiedEpoch n \<or> justifiedEpoch = 0"

fun setNodeAndParentValidated :: "nat \<Rightarrow> ctxt \<Rightarrow> Store \<Rightarrow> addr \<Rightarrow> (Store \<times> go_error option) outcome" where
  "setNodeAndParentValidated 0 ctx s n = Diverge"
| "setNodeAndParentValidated (Suc k) ctx s n =
    (if ctx (AtNode n) then Ret (s, Some CtxErr)
     else if \<not> n_optimistic (nodes s n) then Ret (s, None)
     else let s' = upd_node n (\<lambda>x. x\<lparr>n_optimistic := False\<rparr>) s in
       case n_parent (nodes s' n) of None \<Rightarrow> Ret (s', None)
       | Some p \<Rightarrow> setNodeAndParentValidated k ctx s' p)"

definition arrivedEarly :: "Node \<Rightarrow> u64 \<Rightarrow> bool result" where
  "arrivedEarly n genesis = (case SecondsSinceSlotStart (n_slot n) genesis (n_timestamp n) of
     (secs, err) \<Rightarrow> let votingWindow = SecondsPerSlot div IntervalsPerSlot in (secs < votingWindow, err))"

definition arrivedAfterOrphanCheck :: "Node \<Rightarrow> u64 \<Rightarrow> bool result" where
  "arrivedAfterOrphanCheck n genesis = (case SecondsSinceSlotStart (n_slot n) genesis (n_timestamp n) of
     (secs, err) \<Rightarrow> (secs \<ge> ProcessAttestationsThreshold, err))"

datatype Validity = Valid | Optimistic

record DumpNode =
  d_Slot :: Slot
  d_BlockRoot :: root32
  d_ParentRoot :: root32
  d_JustifiedEpoch :: Epoch
  d_FinalizedEpoch :: Epoch
  d_UnrealizedJustifiedEpoch :: Epoch
  d_UnrealizedFinalizedEpoch :: Epoch
  d_Balance :: u64
  d_Weight :: u64
  d_ExecutionOptimistic :: bool
  d_ExecutionBlockHash :: root32
  d_Timestamp :: u64
  d_Validity :: Validity

definition dump_one :: "Store \<Rightarrow> addr \<Rightarrow> DumpNode" where
  "dump_one s a = (let n = nodes s a in
    \<lparr>d_Slot = n_slot n, d_BlockRoot = n_root n,
     d_ParentRoot = (case n_parent n of None \<Rightarrow> 0 | Some p \<Rightarrow> n_root (nodes s p)),
     d_JustifiedEpoch = n_justifiedEpoch n, d_FinalizedEpoch = n_finalizedEpoch n,
     d_UnrealizedJustifiedEpoch = n_justifiedEpoch n, d_UnrealizedFinalizedEpoch = n_finalizedEpoch n,
     d_Balance = n_balance n, d_Weight = n_weight n, d_ExecutionOptimistic = n_optimistic n,
     d_ExecutionBlockHash = n_payloadHash n, d_Timestamp = n_timestamp n,
     d_Validity = (if n_optimistic n then Optimistic else Valid)\<rparr>)"

fun nodeTreeDump :: "nat \<Rightarrow> ctxt \<Rightarrow> Store \<Rightarrow> addr \<Rightarrow> DumpNode list \<Rightarrow> DumpNode list result outcome"
  and dump_children :: "nat \<Rightarrow> ctxt \<Rightarrow> Store \<Rightarrow> addr list \<Rightarrow> DumpNode list \<Rightarrow> DumpNode list result outcome" where
  "nodeTreeDump 0 ctx s n ds = Diverge"
| "nodeTreeDump (Suc k) ctx s n ds =
    (if ctx (AtNode n) then Ret ([], Some CtxErr)
     else dump_children k ctx s (n_children (nodes s n)) (ds @ [dump_one s n]))"
| "dump_children k ctx s [] ds = Ret (ds, None)"
| "dump_children k ctx s (c # cs) ds = obind (nodeTreeDump k ctx s c ds) (\<lambda>r. case r of
     (ds', Some err) \<Rightarrow> Ret ([], Some err)
   | (ds', None) \<Rightarrow> dump_children k ctx s cs ds')"

subsection \<open>The head\<close>

definition tips :: "map_iter \<Rightarrow> Store \<Rightarrow> root32 list \<times> Slot list" where
  "tips iter s =
    (let leaves = filter (\<lambda>r. case gm_get (nodeByRoot s) r of None \<Rightarrow> False
          | Some a \<Rightarrow> n_children (nodes s a) = []) (iter (nodeByRoot s))
     in (leaves, map (\<lambda>r. case gm_get (nodeByRoot s) r of None \<Rightarrow> 0
          | Some a \<Rightarrow> n_slot (nodes s a)) leaves))"

text \<open>The loop that collects the viable and stable leaves.\<close>
fun filter_tips :: "Store \<Rightarrow> Epoch \<Rightarrow> Epoch \<Rightarrow> root32 list \<Rightarrow> addr list" where
  "filter_tips s je ce [] = []"
| "filter_tips s je ce (r # rs) =
    (case gm_get (nodeByRoot s) r of
       None \<Rightarrow> filter_tips s je ce rs
     | Some a \<Rightarrow> if viableForHead (nodes s a) je ce \<and> n_stabled (nodes s a)
         then a # filter_tips s je ce rs else filter_tips s je ce rs)"

fun maxNode_loop :: "Store \<Rightarrow> addr \<Rightarrow> addr list \<Rightarrow> addr outcome" where
  "maxNode_loop s maxNode [] = Ret maxNode"
| "maxNode_loop s maxNode (node # ns) =
    obind (depth s node) (\<lambda>dn. obind (depth s maxNode) (\<lambda>dm.
      if dn > dm then maxNode_loop s node ns
      else if dn = dm then
        (if n_slot (nodes s node) > n_slot (nodes s maxNode) then maxNode_loop s node ns
         else maxNode_loop s maxNode ns)
      else maxNode_loop s maxNode ns))"

text \<open>
  The length of the tree root's children is read before the test for a nil tree root, so a store
  without a tree root panics here.
\<close>
definition updateBestDescendant ::
  "map_iter \<Rightarrow> ctxt \<Rightarrow> Store \<Rightarrow> Epoch \<Rightarrow> Epoch \<Rightarrow> Epoch \<Rightarrow> (Store \<times> go_error option) outcome" where
  "updateBestDescendant iter ctx s je fe ce =
    (if ctx AtUpdateBest then Ret (s, Some CtxErr)
     else case treeRootNode s of None \<Rightarrow> Panic
     | Some t \<Rightarrow>
        if n_children (nodes s t) = [] then Ret (s\<lparr>headNode := None\<rparr>, None)
        else case filter_tips s je ce (fst (tips iter s)) of
          [] \<Rightarrow> Ret (s\<lparr>headNode := None\<rparr>, None)
        | m # ms \<Rightarrow> obind (maxNode_loop s m (m # ms))
            (\<lambda>maxNode. Ret (s\<lparr>headNode := Some maxNode\<rparr>, None)))"

definition head :: "ctxt \<Rightarrow> Store \<Rightarrow> (Store \<times> root32 result) outcome" where
  "head ctx s =
    (if ctx AtHead then Ret (s, 0, Some CtxErr)
     else case headNode s of
       Some h \<Rightarrow> Ret (s, n_root (nodes s h), None)
     | None \<Rightarrow>
        if cpEpoch (justifiedCheckpoint s) = GenesisEpoch then
          (case treeRootNode s of None \<Rightarrow> Panic
           | Some t \<Rightarrow> Ret (s\<lparr>headNode := Some t\<rparr>, n_root (nodes s t), None))
        else Ret (s, 0, Some (Wrap ''root'' errUnknownJustifiedRoot)))"

subsection \<open>Insertion\<close>

definition new_node :: "u64 \<Rightarrow> Slot \<Rightarrow> root32 \<Rightarrow> addr option \<Rightarrow> root32 \<Rightarrow> Epoch \<Rightarrow> Epoch \<Rightarrow> Node" where
  "new_node now slot root par payloadHash je fe =
    \<lparr>n_slot = slot, n_root = root, n_payloadHash = payloadHash, n_parent = par, n_target = None,
     n_children = [], n_justifiedEpoch = je, n_finalizedEpoch = fe, n_balance = 0, n_weight = 0,
     n_optimistic = True, n_timestamp = now, n_stabled = False, n_validatorIndices = None\<rparr>"

text \<open>The target checkpoint of a new node at address \<open>a\<close>.\<close>
definition insert_target :: "Store \<Rightarrow> addr \<Rightarrow> Slot \<Rightarrow> addr option \<Rightarrow> addr option outcome" where
  "insert_target s a slot par =
    (if slot mod SlotsPerEpoch = 0 then Ret (Some a)
     else case par of None \<Rightarrow> Ret None
     | Some p \<Rightarrow> obind (ToEpoch slot) (\<lambda>e. obind (ToEpoch (n_slot (nodes s p))) (\<lambda>pe.
         Ret (if e = pe then n_target (nodes s p) else Some p))))"

text \<open>
  Whether a new child of a block is stable: the votes counted for the parent in the cache reach
  half of a slot's committee, or the parent is not in the cache and is the block of slot 0.
\<close>
definition insert_stabled :: "Store \<Rightarrow> root32 \<Rightarrow> addr \<Rightarrow> bool" where
  "insert_stabled s parentRoot p =
    (case (case cacheAttCount s of None \<Rightarrow> None | Some m \<Rightarrow> gm_get m parentRoot) of
       Some cnt \<Rightarrow> cnt \<ge> ValidatorPerSlot div 2
     | None \<Rightarrow> n_slot (nodes s p) = 0)"

definition mark_received :: "u64 \<Rightarrow> Slot \<Rightarrow> Store \<Rightarrow> Store" where
  "mark_received now slot s =
    (if slot + SlotsPerEpoch > CurrentSlot now (genesisTime s)
     then s\<lparr>receivedBlocksLastEpoch := (receivedBlocksLastEpoch s)[unat (slot mod SlotsPerEpoch) := slot]\<rparr>
     else s)"

text \<open>
  \<open>clk i\<close> is the \<open>i\<close>-th reading of the clock (Unix seconds) during the call.
\<close>
definition insert_node ::
  "map_iter \<Rightarrow> ctxt \<Rightarrow> (nat \<Rightarrow> u64) \<Rightarrow> Store \<Rightarrow> Slot \<Rightarrow> root32 \<Rightarrow> root32 \<Rightarrow> root32 \<Rightarrow> Epoch \<Rightarrow> Epoch
    \<Rightarrow> (Store \<times> addr result) outcome" where
  "insert_node iter ctx clk s slot root parentRoot payloadHash je fe =
    (case gm_get (nodeByRoot s) root of
       Some n \<Rightarrow> Ret (s, n, None)
     | None \<Rightarrow>
        let par = gm_get (nodeByRoot s) parentRoot; a = nextAddr s in
        obind (insert_target s a slot par) (\<lambda>tg.
        let n = (new_node (clk 0) slot root par payloadHash je fe)\<lparr>n_target := tg\<rparr>;
            s1 = s\<lparr>nodes := (nodes s)(a := n), nextAddr := Suc a,
                   nodeByPayload := gm_set payloadHash a (nodeByPayload s),
                   nodeByRoot := gm_set root a (nodeByRoot s)\<rparr>
        in case par of
          None \<Rightarrow>
            if treeRootNode s1 = None
            then Ret (mark_received (clk 3) slot
                   (upd_node a (\<lambda>x. x\<lparr>n_stabled := True\<rparr>)
                     (s1\<lparr>treeRootNode := Some a, headNode := Some a\<rparr>)), a, None)
            else Ret (s1, a, Some errInvalidParentRoot)
        | Some p \<Rightarrow>
            let s2 = upd_node p (\<lambda>x. x\<lparr>n_children := n_children x @ [a]\<rparr>) s1 in
            if clk 1 < genesisTime s2 then Ret (s2, a, None)
            else
              let currentSlot = CurrentSlot (clk 2) (genesisTime s2);
                  s3 = (if insert_stabled s2 parentRoot p
                        then upd_node a (\<lambda>x. x\<lparr>n_stabled := True\<rparr>) s2 else s2)
              in obind (ToEpoch currentSlot) (\<lambda>ce.
                 obind (updateBestDescendant iter ctx s3 (cpEpoch (justifiedCheckpoint s3))
                          (cpEpoch (finalizedCheckpoint s3)) ce) (\<lambda>r. case r of
                   (s4, Some err) \<Rightarrow> Ret (s4, a, Some err)
                 | (s4, None) \<Rightarrow> Ret (mark_received (clk 3) slot s4, a, None)))))"

subsection \<open>Pruning\<close>

definition delete_node :: "addr \<Rightarrow> Store \<Rightarrow> Store" where
  "delete_node a s = s\<lparr>nodeByRoot := gm_del (n_root (nodes s a)) (nodeByRoot s),
     nodeByPayload := gm_del (n_payloadHash (nodes s a)) (nodeByPayload s)\<rparr>"

fun pruneFinalizedNodeByRootMap ::
    "nat \<Rightarrow> ctxt \<Rightarrow> Store \<Rightarrow> addr \<Rightarrow> addr \<Rightarrow> (Store \<times> go_error option) outcome"
  and prune_children ::
    "nat \<Rightarrow> ctxt \<Rightarrow> Store \<Rightarrow> addr list \<Rightarrow> addr \<Rightarrow> (Store \<times> go_error option) outcome" where
  "pruneFinalizedNodeByRootMap 0 ctx s node fin = Diverge"
| "pruneFinalizedNodeByRootMap (Suc k) ctx s node fin =
    (if ctx (AtNode node) then Ret (s, Some CtxErr)
     else if node = fin then
       Ret (if n_target (nodes s node) \<noteq> Some node
            then upd_node node (\<lambda>x. x\<lparr>n_target := None\<rparr>) s else s, None)
     else obind (prune_children k ctx s (n_children (nodes s node)) fin) (\<lambda>r. case r of
         (s', Some err) \<Rightarrow> Ret (s', Some err)
       | (s', None) \<Rightarrow> Ret (delete_node node (upd_node node (\<lambda>x. x\<lparr>n_children := []\<rparr>) s'), None)))"
| "prune_children k ctx s [] fin = Ret (s, None)"
| "prune_children k ctx s (c # cs) fin =
    obind (pruneFinalizedNodeByRootMap k ctx s c fin) (\<lambda>r. case r of
       (s', Some err) \<Rightarrow> Ret (s', Some err)
     | (s', None) \<Rightarrow> prune_children k ctx s' cs fin)"

text \<open>The loop over the finalized node's children that are too old.\<close>
fun prune_incompatible ::
  "nat \<Rightarrow> ctxt \<Rightarrow> Store \<Rightarrow> addr list \<Rightarrow> addr \<Rightarrow> Slot \<Rightarrow> (Store \<times> go_error option) outcome" where
  "prune_incompatible k ctx s [] fin maxSlot = Ret (s, None)"
| "prune_incompatible k ctx s (c # cs) fin maxSlot =
    (if n_slot (nodes s c) \<le> maxSlot then
       obind (pruneFinalizedNodeByRootMap k ctx s c fin) (\<lambda>r. case r of
         (s', Some err) \<Rightarrow> Ret (s', Some (Wrap ''could not prune incompatible finalized child'' err))
       | (s', None) \<Rightarrow> prune_incompatible k ctx s' cs fin maxSlot)
     else prune_incompatible k ctx s cs fin maxSlot)"

definition prune :: "ctxt \<Rightarrow> Store \<Rightarrow> (Store \<times> go_error option) outcome" where
  "prune ctx s =
    (let finalizedRoot = cpRoot (finalizedCheckpoint s);
         finalizedEpoch = cpEpoch (finalizedCheckpoint s) in
     case gm_get (nodeByRoot s) finalizedRoot of
       None \<Rightarrow> Ret (s, Some (Wrap ''root'' errUnknownFinalizedRoot))
     | Some fin \<Rightarrow>
        if n_parent (nodes s fin) = None then Ret (s, None)
        else case treeRootNode s of None \<Rightarrow> Panic
        | Some t \<Rightarrow>
            obind (pruneFinalizedNodeByRootMap (Suc (nextAddr s)) ctx s t fin) (\<lambda>r. case r of
              (s1, Some err) \<Rightarrow> Ret (s1, Some err)
            | (s1, None) \<Rightarrow>
                let s2 = (upd_node fin (\<lambda>x. x\<lparr>n_parent := None\<rparr>) s1)\<lparr>treeRootNode := Some fin\<rparr>
                in case EpochStart finalizedEpoch of
                  (_, Some err) \<Rightarrow> Ret (s2, Some (Wrap ''could not compute epoch start'' err))
                | (checkpointMaxSlot, None) \<Rightarrow>
                    if n_slot (nodes s2 fin) = checkpointMaxSlot then Ret (s2, None)
                    else prune_incompatible (Suc (nextAddr s)) ctx s2 (n_children (nodes s2 fin)) fin
                           checkpointMaxSlot))"

subsection \<open>Votes\<close>

definition UpdateVoted :: "u64 \<Rightarrow> root32 \<Rightarrow> int \<Rightarrow> Store \<Rightarrow> Store" where
  "UpdateVoted slot root cnt s =
    (let s1 = (if slot > cacheSlot s \<or> cacheAttCount s = None
               then s\<lparr>cacheAttCount := Some [], cacheSlot := slot\<rparr> else s);
         m = the (cacheAttCount s1);
         old = (case gm_get m root of None \<Rightarrow> 0 | Some c \<Rightarrow> c)
     in s1\<lparr>cacheAttCount := Some (gm_set root (old + cnt) m)\<rparr>)"

definition ReceivedBlocksLastEpoch :: "u64 \<Rightarrow> Store \<Rightarrow> u64 result" where
  "ReceivedBlocksLastEpoch now s =
    (let current = CurrentSlot now (genesisTime s);
         (lowerBound, err) = (if current > SlotsPerEpoch then Slot_SafeSub current SlotsPerEpoch
            else (current, None))
     in case err of Some e \<Rightarrow> (0, Some e)
        | None \<Rightarrow> (of_nat (length (filter (\<lambda>x. x \<noteq> 0 \<and> lowerBound \<le> x) (receivedBlocksLastEpoch s))), None))"

definition HighestReceivedBlockSlot :: "Store \<Rightarrow> Slot" where "HighestReceivedBlockSlot s = 0"
definition HighestReceivedBlockDelay :: "Store \<Rightarrow> Slot" where "HighestReceivedBlockDelay s = 0"

subsection \<open>Removal of invalid blocks\<close>

text \<open>\<^verbatim>\<open>children[i] = children[len-1]; children = children[:len-1]\<close> at the first occurrence.\<close>
definition swap_remove :: "addr \<Rightarrow> addr list \<Rightarrow> addr list" where
  "swap_remove a cs =
    (if length cs = 1 then []
     else let i = length (takeWhile (\<lambda>c. c \<noteq> a) cs) in
       if i < length cs then butlast (cs[i := last cs]) else cs)"

fun removeNodeAndChildren ::
    "nat \<Rightarrow> ctxt \<Rightarrow> Store \<Rightarrow> addr \<Rightarrow> root32 list \<Rightarrow> (Store \<times> root32 list result) outcome"
  and remove_children ::
    "nat \<Rightarrow> ctxt \<Rightarrow> Store \<Rightarrow> addr list \<Rightarrow> root32 list \<Rightarrow> (Store \<times> root32 list result) outcome" where
  "removeNodeAndChildren 0 ctx s node rs = Diverge"
| "removeNodeAndChildren (Suc k) ctx s node rs =
    obind (remove_children k ctx s (n_children (nodes s node)) rs) (\<lambda>r. case r of
      (s', rs', Some err) \<Rightarrow> Ret (s', rs', Some err)
    | (s', rs', None) \<Rightarrow> Ret (delete_node node s', rs' @ [n_root (nodes s' node)], None))"
| "remove_children k ctx s [] rs = Ret (s, rs, None)"
| "remove_children k ctx s (c # cs) rs =
    (if ctx (AtNode c) then Ret (s, rs, Some CtxErr)
     else obind (removeNodeAndChildren k ctx s c rs) (\<lambda>r. case r of
        (s', rs', Some err) \<Rightarrow> Ret (s', rs', Some err)
      | (s', rs', None) \<Rightarrow> remove_children k ctx s' cs rs'))"

definition removeNode :: "ctxt \<Rightarrow> Store \<Rightarrow> addr option \<Rightarrow> (Store \<times> root32 list result) outcome" where
  "removeNode ctx s node = (case node of
      None \<Rightarrow> Ret (s, [], Some (Wrap ''could not remove node'' ErrNilNode))
    | Some a \<Rightarrow> (case n_parent (nodes s a) of
        None \<Rightarrow> Ret (s, [], Some errInvalidOptimisticStatus)
      | Some p \<Rightarrow>
          if \<not> n_optimistic (nodes s a) then Ret (s, [], Some errInvalidOptimisticStatus)
          else removeNodeAndChildren (Suc (nextAddr s)) ctx
                 (upd_node p (\<lambda>x. x\<lparr>n_children := swap_remove a (n_children x)\<rparr>) s) a []))"

text \<open>Walks up to the last ancestor whose parent is missing or has the last valid payload.\<close>
fun firstInvalid_loop :: "nat \<Rightarrow> ctxt \<Rightarrow> Store \<Rightarrow> root32 \<Rightarrow> addr \<Rightarrow> addr result outcome" where
  "firstInvalid_loop 0 ctx s lvh a = Diverge"
| "firstInvalid_loop (Suc k) ctx s lvh a =
    (case n_parent (nodes s a) of
       None \<Rightarrow> Ret (a, None)
     | Some p \<Rightarrow> if n_payloadHash (nodes s p) = lvh then Ret (a, None)
         else if ctx (AtNode a) then Ret (a, Some CtxErr)
         else firstInvalid_loop k ctx s lvh p)"

definition invalidate_from ::
  "ctxt \<Rightarrow> Store \<Rightarrow> addr \<Rightarrow> root32 \<Rightarrow> root32 \<Rightarrow> (Store \<times> root32 list result) outcome" where
  "invalidate_from ctx s node parentRoot lvh =
    obind (firstInvalid_loop (Suc (nextAddr s)) ctx s lvh node) (\<lambda>r. case r of
      (_, Some err) \<Rightarrow> Ret (s, [], Some err)
    | (fi, None) \<Rightarrow>
        if n_parent (nodes s fi) = None then
          (if n_root (nodes s node) = parentRoot then Ret (s, [], None)
           else removeNode ctx s (Some node))
        else removeNode ctx s (Some fi))"

definition setOptimisticToInvalid ::
  "ctxt \<Rightarrow> Store \<Rightarrow> root32 \<Rightarrow> root32 \<Rightarrow> root32 \<Rightarrow> (Store \<times> root32 list result) outcome" where
  "setOptimisticToInvalid ctx s root parentRoot lvh =
    (case gm_get (nodeByRoot s) root of
       None \<Rightarrow> (case gm_get (nodeByRoot s) parentRoot of
           None \<Rightarrow> Ret (s, [], Some (Wrap ''could not set node to invalid'' ErrNilNode))
         | Some node \<Rightarrow> if n_payloadHash (nodes s node) = lvh then Ret (s, [], None)
             else invalidate_from ctx s node parentRoot lvh)
     | Some node \<Rightarrow> (case n_parent (nodes s node) of
           None \<Rightarrow> Panic
         | Some p \<Rightarrow> if n_root (nodes s p) \<noteq> parentRoot then Ret (s, [], Some errInvalidParentRoot)
             else invalidate_from ctx s node parentRoot lvh))"

end
