(* ===== verification/ForkChoice.thy ===== *)
theory ForkChoice
  imports ForkStore
begin

text \<open>
  The exported operations of the fork choice: \<^verbatim>\<open>forkchoice.go\<close>, \<^verbatim>\<open>on_tick.go\<close>, \<^verbatim>\<open>last_root.go\<close>
  and \<^verbatim>\<open>reorg_late_blocks.go\<close>. A method reads and writes its receiver only through
  \<^verbatim>\<open>f.store\<close> (the vote and balance fields of \<^verbatim>\<open>ForkChoice\<close> are no longer used), so it is a
  function on stores; a failing method still returns the store it has changed.
\<close>

subsection \<open>Construction\<close>

record Vote =
  currentRoot :: root32
  nextRoot :: root32
  nextEpoch :: Epoch

record ForkChoice =
  store :: Store
  votes :: "Vote list"
  balances :: "u64 list"
  justifiedBalances :: "u64 list"
  numActiveValidators :: u64
  balancesByRoot :: "(root32 \<Rightarrow> u64 list result) option"

definition zero_cp :: Checkpoint where "zero_cp = \<lparr>cpEpoch = 0, cpRoot = 0\<rparr>"

definition New_store :: Store where
  "New_store =
    \<lparr>justifiedCheckpoint = zero_cp, prevJustifiedCheckpoint = zero_cp, finalizedCheckpoint = zero_cp,
     treeRootNode = None, headNode = None, nodeByRoot = [], nodeByPayload = [], originRoot = 0,
     genesisTime = 0, receivedBlocksLastEpoch = replicate 32 0, allTipsAreInvalid = False,
     votedSlotBlock = [], cacheSlot = 0, cacheAttCount = None,
     nodes = (\<lambda>_. new_node 0 0 0 None 0 0 0), nextAddr = 0\<rparr>"

definition New :: ForkChoice where
  "New = \<lparr>store = New_store, votes = [], balances = [], justifiedBalances = [],
     numActiveValidators = 0, balancesByRoot = None\<rparr>"

definition SetBalancesByRooter :: "(root32 \<Rightarrow> u64 list result) \<Rightarrow> ForkChoice \<Rightarrow> ForkChoice" where
  "SetBalancesByRooter handler f = f\<lparr>balancesByRoot := Some handler\<rparr>"

definition NodeCount :: "Store \<Rightarrow> int" where
  "NodeCount s = int (gm_len (nodeByRoot s))"

subsection \<open>Head\<close>

text \<open>\<open>now\<close> and \<open>elapsed\<close> are the clock readings behind \<^verbatim>\<open>slots.EpochsSinceGenesis\<close>.\<close>
definition Head :: "map_iter \<Rightarrow> ctxt \<Rightarrow> go_time \<Rightarrow> u64 \<Rightarrow> Store \<Rightarrow> (Store \<times> root32 result) outcome" where
  "Head iter ctx now elapsed s =
    (let jc = justifiedCheckpoint s; fc = finalizedCheckpoint s;
         currentEpoch = EpochsSinceGenesis (time_Unix (genesisTime s)) now elapsed
     in obind (updateBestDescendant iter ctx s (cpEpoch jc) (cpEpoch fc) currentEpoch) (\<lambda>r. case r of
          (s', Some err) \<Rightarrow> Ret (s', 0, Some (Wrap ''could not update best descendant'' err))
        | (s', None) \<Rightarrow> head ctx s'))"

definition GetProposerHead :: "Store \<Rightarrow> root32" where
  "GetProposerHead s = (case headNode s of None \<Rightarrow> 0 | Some h \<Rightarrow> n_root (nodes s h))"

definition ShouldOverrideFCU :: "Store \<Rightarrow> bool" where "ShouldOverrideFCU s = False"

definition CachedHeadRoot :: "Store \<Rightarrow> root32" where
  "CachedHeadRoot s = (case headNode s of None \<Rightarrow> 0 | Some h \<Rightarrow> n_root (nodes s h))"

definition ProposerBoost :: "Store \<Rightarrow> root32" where "ProposerBoost s = 0"

definition Tips :: "map_iter \<Rightarrow> Store \<Rightarrow> root32 list \<times> Slot list" where
  "Tips iter s = tips iter s"

subsection \<open>Attestations\<close>

fun new_indices :: "(u64, bool) gomap \<Rightarrow> u64 list \<Rightarrow> u64 list \<Rightarrow> (u64, bool) gomap \<times> u64 list" where
  "new_indices m acc [] = (m, acc)"
| "new_indices m acc (i # is) =
    (if gm_get m i = Some True then new_indices m acc is
     else new_indices (gm_set i True m) (acc @ [i]) is)"

definition ProcessAttestation :: "u64 list \<Rightarrow> root32 \<Rightarrow> Epoch \<Rightarrow> Store \<Rightarrow> Store" where
  "ProcessAttestation validatorIndices blockRoot attestSlot s =
    (case gm_get (nodeByRoot s) blockRoot of
       None \<Rightarrow> s
     | Some a \<Rightarrow>
        let m = (case n_validatorIndices (nodes s a) of None \<Rightarrow> [] | Some m \<Rightarrow> m);
            (m', newIndex) = new_indices m [] validatorIndices
        in UpdateVoted attestSlot blockRoot (int (length newIndex))
             (upd_node a (\<lambda>x. x\<lparr>n_validatorIndices := Some m'\<rparr>) s))"

subsection \<open>Checkpoints and insertion\<close>

definition updateCheckpoints :: "ctxt \<Rightarrow> Checkpoint \<Rightarrow> Checkpoint \<Rightarrow> Store \<Rightarrow> (Store \<times> go_error option) outcome" where
  "updateCheckpoints ctx jc fc s =
    (let s1 = (if cpEpoch jc > cpEpoch (justifiedCheckpoint s)
               then s\<lparr>prevJustifiedCheckpoint := justifiedCheckpoint s,
                      justifiedCheckpoint := \<lparr>cpEpoch = cpEpoch jc, cpRoot = cpRoot jc\<rparr>\<rparr>
               else s)
     in if cpEpoch fc \<le> cpEpoch (finalizedCheckpoint s1) then Ret (s1, None)
        else prune ctx (s1\<lparr>finalizedCheckpoint := \<lparr>cpEpoch = cpEpoch fc, cpRoot = cpRoot fc\<rparr>\<rparr>))"

text \<open>
  What \<^verbatim>\<open>InsertNode\<close> reads of the beacon state: the parent root of its latest block header, its
  fork version, the block hash of its latest execution payload header and its checkpoints.
\<close>
record StateView =
  sv_Slot :: Slot
  sv_LatestBlockHeader :: "root32 option"
  sv_Version :: int
  sv_LatestExecutionPayloadHeader :: "root32 option result"
  sv_CurrentJustifiedCheckpoint :: "Checkpoint option"
  sv_FinalizedCheckpoint :: "Checkpoint option"

definition version_Bellatrix :: int where "version_Bellatrix = 2"

definition state_payload_hash :: "StateView \<Rightarrow> root32 result" where
  "state_payload_hash st =
    (if sv_Version st \<ge> version_Bellatrix then
       (case sv_LatestExecutionPayloadHeader st of
          (_, Some err) \<Rightarrow> (0, Some err)
        | (None, None) \<Rightarrow> (0, None)
        | (Some h, None) \<Rightarrow> (h, None))
     else (0, None))"

definition InsertNode ::
  "map_iter \<Rightarrow> ctxt \<Rightarrow> (nat \<Rightarrow> u64) \<Rightarrow> StateView \<Rightarrow> root32 \<Rightarrow> Store \<Rightarrow> (Store \<times> go_error option) outcome" where
  "InsertNode iter ctx clk st root s =
    (case sv_LatestBlockHeader st of None \<Rightarrow> Ret (s, Some errNilBlockHeader)
     | Some parentRoot \<Rightarrow>
    (case state_payload_hash st of (_, Some err) \<Rightarrow> Ret (s, Some err)
     | (payloadHash, None) \<Rightarrow>
    (case sv_CurrentJustifiedCheckpoint st of None \<Rightarrow> Ret (s, Some errInvalidNilCheckpoint)
     | Some jc \<Rightarrow>
    (case sv_FinalizedCheckpoint st of None \<Rightarrow> Ret (s, Some errInvalidNilCheckpoint)
     | Some fc \<Rightarrow>
        obind (insert_node iter ctx clk s (sv_Slot st) root parentRoot payloadHash (cpEpoch jc) (cpEpoch fc))
          (\<lambda>r. case r of (s', _, Some err) \<Rightarrow> Ret (s', Some err)
             | (s', _, None) \<Rightarrow> updateCheckpoints ctx jc fc s')))))"

record BlockAndCheckpoints =
  bc_Slot :: Slot
  bc_ParentRoot :: root32
  bc_PayloadHash :: "root32 result"
  bc_JustifiedCheckpoint :: Checkpoint
  bc_FinalizedCheckpoint :: Checkpoint

text \<open>The loop from the last element down to index 1; \<open>clk i\<close> are the readings of round \<open>i\<close>.\<close>
fun InsertChain_loop ::
  "map_iter \<Rightarrow> ctxt \<Rightarrow> (nat \<Rightarrow> nat \<Rightarrow> u64) \<Rightarrow> BlockAndCheckpoints list \<Rightarrow> nat \<Rightarrow> Store
    \<Rightarrow> (Store \<times> go_error option) outcome" where
  "InsertChain_loop iter ctx clk chain 0 s = Ret (s, None)"
| "InsertChain_loop iter ctx clk chain (Suc i) s =
    (let b = chain ! Suc i; r = bc_ParentRoot (chain ! i) in
     case bc_PayloadHash b of (_, Some err) \<Rightarrow> Ret (s, Some err)
     | (payloadHash, None) \<Rightarrow>
        obind (insert_node iter ctx (clk (Suc i)) s (bc_Slot b) r (bc_ParentRoot b) payloadHash
                 (cpEpoch (bc_JustifiedCheckpoint b)) (cpEpoch (bc_FinalizedCheckpoint b)))
          (\<lambda>res. case res of (s1, _, Some err) \<Rightarrow> Ret (s1, Some err)
             | (s1, _, None) \<Rightarrow>
                obind (updateCheckpoints ctx (bc_JustifiedCheckpoint b) (bc_FinalizedCheckpoint b) s1)
                  (\<lambda>res2. case res2 of (s2, Some err) \<Rightarrow> Ret (s2, Some err)
                     | (s2, None) \<Rightarrow> InsertChain_loop iter ctx clk chain i s2)))"

definition InsertChain ::
  "map_iter \<Rightarrow> ctxt \<Rightarrow> (nat \<Rightarrow> nat \<Rightarrow> u64) \<Rightarrow> BlockAndCheckpoints list \<Rightarrow> Store
    \<Rightarrow> (Store \<times> go_error option) outcome" where
  "InsertChain iter ctx clk chain s =
    (if chain = [] then Ret (s, None) else InsertChain_loop iter ctx clk chain (length chain - 1) s)"

definition UpdateJustifiedCheckpoint :: "Checkpoint option \<Rightarrow> Store \<Rightarrow> Store \<times> go_error option" where
  "UpdateJustifiedCheckpoint jc s = (case jc of None \<Rightarrow> (s, Some errInvalidNilCheckpoint)
     | Some c \<Rightarrow> (s\<lparr>prevJustifiedCheckpoint := justifiedCheckpoint s, justifiedCheckpoint := c\<rparr>, None))"

definition UpdateFinalizedCheckpoint :: "Checkpoint option \<Rightarrow> Store \<Rightarrow> Store \<times> go_error option" where
  "UpdateFinalizedCheckpoint fc s = (case fc of None \<Rightarrow> (s, Some errInvalidNilCheckpoint)
     | Some c \<Rightarrow> (s\<lparr>finalizedCheckpoint := c\<rparr>, None))"

definition NewSlot :: "ctxt \<Rightarrow> Slot \<Rightarrow> Store \<Rightarrow> (Store \<times> go_error option) outcome" where
  "NewSlot ctx slot s = (if \<not> IsEpochStart slot then Ret (s, None) else prune ctx s)"

definition SetGenesisTime :: "u64 \<Rightarrow> Store \<Rightarrow> Store" where
  "SetGenesisTime g s = s\<lparr>genesisTime := g\<rparr>"

definition SetOriginRoot :: "root32 \<Rightarrow> Store \<Rightarrow> Store" where
  "SetOriginRoot r s = s\<lparr>originRoot := r\<rparr>"

definition InsertSlashedIndex :: "ValidatorIndex \<Rightarrow> Store \<Rightarrow> Store" where
  "InsertSlashedIndex i s = s"

subsection \<open>Optimistic status\<close>

definition SetOptimisticToValid :: "ctxt \<Rightarrow> root32 \<Rightarrow> Store \<Rightarrow> (Store \<times> go_error option) outcome" where
  "SetOptimisticToValid ctx root s = (case gm_get (nodeByRoot s) root of
      None \<Rightarrow> Ret (s, Some (Wrap ''could not set node to valid'' ErrNilNode))
    | Some a \<Rightarrow> setNodeAndParentValidated (Suc (nextAddr s)) ctx s a)"

definition SetOptimisticToInvalid ::
  "ctxt \<Rightarrow> root32 \<Rightarrow> root32 \<Rightarrow> root32 \<Rightarrow> Store \<Rightarrow> (Store \<times> root32 list result) outcome" where
  "SetOptimisticToInvalid ctx root parentRoot payloadHash s =
     setOptimisticToInvalid ctx s root parentRoot payloadHash"

definition IsOptimistic :: "root32 \<Rightarrow> Store \<Rightarrow> bool result" where
  "IsOptimistic root s = (if allTipsAreInvalid s then (True, None)
     else case gm_get (nodeByRoot s) root of None \<Rightarrow> (True, Some ErrNilNode)
       | Some a \<Rightarrow> (n_optimistic (nodes s a), None))"

subsection \<open>Queries along the chain\<close>

definition HasNode :: "root32 \<Rightarrow> Store \<Rightarrow> bool" where
  "HasNode root s \<longleftrightarrow> gm_get (nodeByRoot s) root \<noteq> None"

fun canonical_loop :: "nat \<Rightarrow> Store \<Rightarrow> root32 \<Rightarrow> Slot \<Rightarrow> addr option \<Rightarrow> bool outcome" where
  "canonical_loop 0 s root slot leaf = Diverge"
| "canonical_loop (Suc k) s root slot None = Ret False"
| "canonical_loop (Suc k) s root slot (Some a) =
    (if n_slot (nodes s a) \<ge> slot then
       (if n_root (nodes s a) = root then Ret True
        else canonical_loop k s root slot (n_parent (nodes s a)))
     else Ret False)"

definition IsCanonical :: "root32 \<Rightarrow> Store \<Rightarrow> bool outcome" where
  "IsCanonical root s = (case gm_get (nodeByRoot s) root of None \<Rightarrow> Ret False
     | Some a \<Rightarrow> canonical_loop (Suc (Suc (nextAddr s))) s root (n_slot (nodes s a)) (headNode s))"

fun ancestor_loop :: "nat \<Rightarrow> ctxt \<Rightarrow> Store \<Rightarrow> Slot \<Rightarrow> addr option \<Rightarrow> addr option result outcome" where
  "ancestor_loop 0 ctx s slot n = Diverge"
| "ancestor_loop (Suc k) ctx s slot None = Ret (None, None)"
| "ancestor_loop (Suc k) ctx s slot (Some a) =
    (if n_slot (nodes s a) > slot then
       (if ctx (AtNode a) then Ret (None, Some CtxErr)
        else ancestor_loop k ctx s slot (n_parent (nodes s a)))
     else Ret (Some a, None))"

definition AncestorRoot :: "ctxt \<Rightarrow> root32 \<Rightarrow> Slot \<Rightarrow> Store \<Rightarrow> root32 result outcome" where
  "AncestorRoot ctx root slot s =
    (case gm_get (nodeByRoot s) root of
       None \<Rightarrow> Ret (0, Some (Wrap ''could not determine ancestor root'' ErrNilNode))
     | Some a \<Rightarrow> obind (ancestor_loop (Suc (Suc (nextAddr s))) ctx s slot (Some a)) (\<lambda>r. case r of
         (_, Some err) \<Rightarrow> Ret (0, Some err)
       | (None, None) \<Rightarrow> Ret (0, Some (Wrap ''could not determine ancestor root'' ErrNilNode))
       | (Some n, None) \<Rightarrow> Ret (n_root (nodes s n), None)))"

definition IsViableForCheckpoint :: "Checkpoint \<Rightarrow> Store \<Rightarrow> bool result outcome" where
  "IsViableForCheckpoint cp s =
    (case gm_get (nodeByRoot s) (cpRoot cp) of
       None \<Rightarrow> Ret (False, None)
     | Some a \<Rightarrow> (case EpochStart (cpEpoch cp) of
         (_, Some err) \<Rightarrow> Ret (False, Some err)
       | (epochStart, None) \<Rightarrow>
          let node = nodes s a in
          if n_slot node > epochStart then Ret (False, None)
          else if n_children node = [] then Ret (True, None)
          else if n_slot node = epochStart then Ret (True, None)
          else obind (ToEpoch (n_slot node)) (\<lambda>nodeEpoch.
            if nodeEpoch \<ge> cpEpoch cp then Ret (False, None)
            else Ret (\<exists>c\<in>set (n_children node). n_slot (nodes s c) > epochStart, None))))"

definition ErrUnknownCommonAncestor :: go_error where
  "ErrUnknownCommonAncestor = Sentinel ''unknown common ancestor''"

fun common_loop :: "nat \<Rightarrow> ctxt \<Rightarrow> Store \<Rightarrow> addr \<Rightarrow> addr \<Rightarrow> (root32 \<times> Slot \<times> go_error option) outcome" where
  "common_loop 0 ctx s n1 n2 = Diverge"
| "common_loop (Suc k) ctx s n1 n2 =
    (if ctx (AtPair n1 n2) then Ret (0, 0, Some CtxErr)
     else if n_slot (nodes s n1) > n_slot (nodes s n2) then
       (case n_parent (nodes s n1) of None \<Rightarrow> Ret (0, 0, Some ErrUnknownCommonAncestor)
        | Some p \<Rightarrow> if p = n2 then Ret (n_root (nodes s p), n_slot (nodes s p), None)
            else common_loop k ctx s p n2)
     else
       (case n_parent (nodes s n2) of None \<Rightarrow> Ret (0, 0, Some ErrUnknownCommonAncestor)
        | Some p \<Rightarrow> if n1 = p then Ret (n_root (nodes s n1), n_slot (nodes s n1), None)
            else common_loop k ctx s n1 p))"

definition CommonAncestor :: "ctxt \<Rightarrow> root32 \<Rightarrow> root32 \<Rightarrow> Store \<Rightarrow> (root32 \<times> Slot \<times> go_error option) outcome" where
  "CommonAncestor ctx r1 r2 s =
    (case gm_get (nodeByRoot s) r1 of None \<Rightarrow> Ret (0, 0, Some ErrUnknownCommonAncestor)
     | Some n1 \<Rightarrow> if r1 = r2 then Ret (r1, n_slot (nodes s n1), None)
        else (case gm_get (nodeByRoot s) r2 of None \<Rightarrow> Ret (0, 0, Some ErrUnknownCommonAncestor)
          | Some n2 \<Rightarrow> common_loop (Suc (2 * nextAddr s)) ctx s n1 n2))"

fun TargetRootForEpoch_loop :: "nat \<Rightarrow> Store \<Rightarrow> root32 \<Rightarrow> Epoch \<Rightarrow> root32 result outcome" where
  "TargetRootForEpoch_loop 0 s root epoch = Diverge"
| "TargetRootForEpoch_loop (Suc k) s root epoch =
    (case gm_get (nodeByRoot s) root of None \<Rightarrow> Ret (0, Some ErrNilNode)
     | Some n \<Rightarrow> obind (ToEpoch (n_slot (nodes s n))) (\<lambda>nodeEpoch.
        if epoch > nodeEpoch then Ret (n_root (nodes s n), None)
        else case n_target (nodes s n) of None \<Rightarrow> Ret (0, None)
        | Some t \<Rightarrow>
           let targetRoot = n_root (nodes s t) in
           if epoch = nodeEpoch then Ret (targetRoot, None)
           else case gm_get (nodeByRoot s) targetRoot of None \<Rightarrow> Ret (0, Some ErrNilNode)
           | Some targetNode \<Rightarrow> obind (ToEpoch (n_slot (nodes s targetNode))) (\<lambda>te.
               if nodeEpoch = te then
                 (case n_parent (nodes s targetNode) of None \<Rightarrow> Ret (0, Some ErrNilNode)
                  | Some p \<Rightarrow> TargetRootForEpoch_loop k s (n_root (nodes s p)) epoch)
               else TargetRootForEpoch_loop k s (n_root (nodes s targetNode)) epoch)))"

definition TargetRootForEpoch :: "root32 \<Rightarrow> Epoch \<Rightarrow> Store \<Rightarrow> root32 result outcome" where
  "TargetRootForEpoch root epoch s = TargetRootForEpoch_loop (Suc (nextAddr s)) s root epoch"

fun lastRoot_loop :: "nat \<Rightarrow> Store \<Rightarrow> Slot \<Rightarrow> addr option \<Rightarrow> addr option outcome" where
  "lastRoot_loop 0 s epochEnd h = Diverge"
| "lastRoot_loop (Suc k) s epochEnd None = Ret None"
| "lastRoot_loop (Suc k) s epochEnd (Some a) =
    (if n_slot (nodes s a) > epochEnd then lastRoot_loop k s epochEnd (n_parent (nodes s a))
     else Ret (Some a))"

definition LastRoot :: "Epoch \<Rightarrow> Store \<Rightarrow> root32 outcome" where
  "LastRoot epoch s = (case headNode s of None \<Rightarrow> Panic
     | Some h \<Rightarrow> obind (ToEpoch (n_slot (nodes s h))) (\<lambda>headEpoch.
        case EpochEnd epoch of (_, Some err) \<Rightarrow> Ret 0
        | (epochEnd, None) \<Rightarrow>
            if headEpoch \<le> epoch then Ret (n_root (nodes s h))
            else obind (lastRoot_loop (Suc (Suc (nextAddr s))) s epochEnd (Some h)) (\<lambda>r.
              Ret (case r of None \<Rightarrow> 0 | Some a \<Rightarrow> n_root (nodes s a)))))"

subsection \<open>Simple readers\<close>

definition Weight :: "root32 \<Rightarrow> Store \<Rightarrow> u64 result" where
  "Weight root s = (case gm_get (nodeByRoot s) root of None \<Rightarrow> (0, Some ErrNilNode)
     | Some a \<Rightarrow> (n_weight (nodes s a), None))"

definition Slot_of :: "root32 \<Rightarrow> Store \<Rightarrow> Slot result" where
  "Slot_of root s = (case gm_get (nodeByRoot s) root of None \<Rightarrow> (0, Some ErrNilNode)
     | Some a \<Rightarrow> (n_slot (nodes s a), None))"

definition PreviousJustifiedCheckpoint :: "Store \<Rightarrow> Checkpoint" where
  "PreviousJustifiedCheckpoint s = prevJustifiedCheckpoint s"

definition JustifiedCheckpoint :: "Store \<Rightarrow> Checkpoint" where
  "JustifiedCheckpoint s = justifiedCheckpoint s"

definition FinalizedCheckpoint :: "Store \<Rightarrow> Checkpoint" where
  "FinalizedCheckpoint s = finalizedCheckpoint s"

definition FinalizedPayloadBlockHash :: "Store \<Rightarrow> root32" where
  "FinalizedPayloadBlockHash s = (case gm_get (nodeByRoot s) (cpRoot (FinalizedCheckpoint s)) of
     None \<Rightarrow> 0 | Some a \<Rightarrow> n_payloadHash (nodes s a))"

definition JustifiedPayloadBlockHash :: "Store \<Rightarrow> root32" where
  "JustifiedPayloadBlockHash s = (case gm_get (nodeByRoot s) (cpRoot (JustifiedCheckpoint s)) of
     None \<Rightarrow> 0 | Some a \<Rightarrow> n_payloadHash (nodes s a))"

definition UnrealizedJustifiedPayloadBlockHash :: "Store \<Rightarrow> root32" where
  "UnrealizedJustifiedPayloadBlockHash s =
    (case gm_get (nodeByRoot s) (cpRoot (justifiedCheckpoint s)) of
       None \<Rightarrow> 0 | Some a \<Rightarrow> n_payloadHash (nodes s a))"

record Dump =
  dp_JustifiedCheckpoint :: Checkpoint
  dp_UnrealizedJustifiedCheckpoint :: Checkpoint
  dp_FinalizedCheckpoint :: Checkpoint
  dp_UnrealizedFinalizedCheckpoint :: Checkpoint
  dp_ProposerBoostRoot :: "u8 list"
  dp_PreviousProposerBoostRoot :: "u8 list"
  dp_HeadRoot :: root32
  dp_ForkChoiceNodes :: "DumpNode list"

definition ForkChoiceDump :: "ctxt \<Rightarrow> Store \<Rightarrow> Dump option result outcome" where
  "ForkChoiceDump ctx s =
    (let jc = justifiedCheckpoint s; fc = finalizedCheckpoint s in
     obind (case treeRootNode s of None \<Rightarrow> Ret ([], None)
            | Some t \<Rightarrow> nodeTreeDump (Suc (nextAddr s)) ctx s t []) (\<lambda>r. case r of
        (_, Some err) \<Rightarrow> Ret (None, Some err)
      | (ds, None) \<Rightarrow> Ret (Some
          \<lparr>dp_JustifiedCheckpoint = jc, dp_UnrealizedJustifiedCheckpoint = jc,
           dp_FinalizedCheckpoint = fc, dp_UnrealizedFinalizedCheckpoint = fc,
           dp_ProposerBoostRoot = [], dp_PreviousProposerBoostRoot = [],
           dp_HeadRoot = (case headNode s of None \<Rightarrow> 0 | Some h \<Rightarrow> n_root (nodes s h)),
           dp_ForkChoiceNodes = ds\<rparr>, None)))"

end
