(* ===== verification/ForkInvariant.thy ===== *)
theory ForkInvariant
  imports ForkChoice
begin

text \<open>
  The well-formedness invariant of the fork choice store and its preservation by every operation
  of \<open>ForkStore\<close> and \<open>ForkChoice\<close>. Parents are older than their children and children younger
  than their parents, which bounds every pointer walk: no operation on a well-formed store runs
  out of fuel.
\<close>

subsection \<open>The invariant\<close>

definition node_ok :: "Store \<Rightarrow> addr \<Rightarrow> bool" where
  "node_ok s a \<longleftrightarrow>
     (\<forall>p. n_parent (nodes s a) = Some p \<longrightarrow> p < a) \<and>
     (\<forall>c\<in>set (n_children (nodes s a)). a < c \<and> c < nextAddr s
        \<and> (\<forall>q. n_parent (nodes s c) = Some q \<longrightarrow> q = a)) \<and>
     distinct (n_children (nodes s a)) \<and>
     (\<forall>t. n_target (nodes s a) = Some t \<longrightarrow> t \<le> a)"

definition heap_ok :: "Store \<Rightarrow> bool" where
  "heap_ok s \<longleftrightarrow> (\<forall>a<nextAddr s. node_ok s a)"

definition index_ok :: "Store \<Rightarrow> bool" where
  "index_ok s \<longleftrightarrow> gm_ok (nodeByRoot s) \<and>
     (\<forall>r a. gm_get (nodeByRoot s) r = Some a \<longrightarrow> a < nextAddr s \<and> n_root (nodes s a) = r)"

definition anchor_ok :: "Store \<Rightarrow> bool" where
  "anchor_ok s \<longleftrightarrow>
     (\<forall>t. treeRootNode s = Some t \<longrightarrow> t < nextAddr s \<and> n_parent (nodes s t) = None) \<and>
     (\<forall>h. headNode s = Some h \<longrightarrow> h < nextAddr s) \<and>
     (treeRootNode s = None \<longrightarrow> nodeByRoot s = [])"

definition aux_ok :: "Store \<Rightarrow> bool" where
  "aux_ok s \<longleftrightarrow> (\<forall>m. cacheAttCount s = Some m \<longrightarrow> gm_ok m) \<and> length (receivedBlocksLastEpoch s) = 32"

definition wf_store :: "Store \<Rightarrow> bool" where
  "wf_store s \<longleftrightarrow> heap_ok s \<and> index_ok s \<and> anchor_ok s \<and> aux_ok s"

lemma wf_storeD:
  assumes "wf_store s"
  shows "heap_ok s" "index_ok s" "anchor_ok s" "aux_ok s"
  using assms by (simp_all add: wf_store_def)

lemma wf_node: "wf_store s \<Longrightarrow> a < nextAddr s \<Longrightarrow> node_ok s a"
  by (simp add: wf_store_def heap_ok_def)

lemma wf_parent: "wf_store s \<Longrightarrow> a < nextAddr s \<Longrightarrow> n_parent (nodes s a) = Some p \<Longrightarrow> p < a"
  by (frule (1) wf_node) (simp add: node_ok_def)

lemma wf_child:
  "wf_store s \<Longrightarrow> a < nextAddr s \<Longrightarrow> c \<in> set (n_children (nodes s a)) \<Longrightarrow> a < c \<and> c < nextAddr s"
  by (frule (1) wf_node) (simp add: node_ok_def)

lemma wf_target: "wf_store s \<Longrightarrow> a < nextAddr s \<Longrightarrow> n_target (nodes s a) = Some t \<Longrightarrow> t \<le> a"
  by (frule (1) wf_node) (simp add: node_ok_def)

lemma wf_lookup: "wf_store s \<Longrightarrow> gm_get (nodeByRoot s) r = Some a \<Longrightarrow> a < nextAddr s"
  by (simp add: wf_store_def index_ok_def)

lemma wf_lookup_root: "wf_store s \<Longrightarrow> gm_get (nodeByRoot s) r = Some a \<Longrightarrow> n_root (nodes s a) = r"
  by (simp add: wf_store_def index_ok_def)

lemma wf_lookup_inj:
  "wf_store s \<Longrightarrow> gm_get (nodeByRoot s) r = Some a \<Longrightarrow> gm_get (nodeByRoot s) r' = Some a \<Longrightarrow> r = r'"
  by (metis wf_lookup_root)

lemma wf_tree_root:
  "wf_store s \<Longrightarrow> treeRootNode s = Some t \<Longrightarrow> t < nextAddr s \<and> n_parent (nodes s t) = None"
  by (simp add: wf_store_def anchor_ok_def)

lemma wf_lookup_tree: "wf_store s \<Longrightarrow> gm_get (nodeByRoot s) r = Some a \<Longrightarrow> \<exists>t. treeRootNode s = Some t"
  by (cases "treeRootNode s") (simp_all add: wf_store_def anchor_ok_def)

lemma wf_head: "wf_store s \<Longrightarrow> headNode s = Some h \<Longrightarrow> h < nextAddr s"
  by (simp add: wf_store_def anchor_ok_def)

lemma wf_New: "wf_store New_store"
  by (simp add: wf_store_def heap_ok_def index_ok_def anchor_ok_def aux_ok_def New_store_def)

subsection \<open>Effect of writing a node\<close>

lemma upd_node_simps [simp]:
  "nodes (upd_node a f s) = (nodes s)(a := f (nodes s a))"
  "nextAddr (upd_node a f s) = nextAddr s"
  "nodeByRoot (upd_node a f s) = nodeByRoot s"
  "nodeByPayload (upd_node a f s) = nodeByPayload s"
  "treeRootNode (upd_node a f s) = treeRootNode s"
  "headNode (upd_node a f s) = headNode s"
  "cacheAttCount (upd_node a f s) = cacheAttCount s"
  "cacheSlot (upd_node a f s) = cacheSlot s"
  "receivedBlocksLastEpoch (upd_node a f s) = receivedBlocksLastEpoch s"
  "genesisTime (upd_node a f s) = genesisTime s"
  "justifiedCheckpoint (upd_node a f s) = justifiedCheckpoint s"
  "finalizedCheckpoint (upd_node a f s) = finalizedCheckpoint s"
  "prevJustifiedCheckpoint (upd_node a f s) = prevJustifiedCheckpoint s"
  "allTipsAreInvalid (upd_node a f s) = allTipsAreInvalid s"
  by (simp_all add: upd_node_def)

lemma delete_node_simps [simp]:
  "nodes (delete_node a s) = nodes s"
  "nextAddr (delete_node a s) = nextAddr s"
  "nodeByRoot (delete_node a s) = gm_del (n_root (nodes s a)) (nodeByRoot s)"
  "treeRootNode (delete_node a s) = treeRootNode s"
  "headNode (delete_node a s) = headNode s"
  "cacheAttCount (delete_node a s) = cacheAttCount s"
  "cacheSlot (delete_node a s) = cacheSlot s"
  "receivedBlocksLastEpoch (delete_node a s) = receivedBlocksLastEpoch s"
  "genesisTime (delete_node a s) = genesisTime s"
  "justifiedCheckpoint (delete_node a s) = justifiedCheckpoint s"
  "finalizedCheckpoint (delete_node a s) = finalizedCheckpoint s"
  "prevJustifiedCheckpoint (delete_node a s) = prevJustifiedCheckpoint s"
  "allTipsAreInvalid (delete_node a s) = allTipsAreInvalid s"
  by (simp_all add: delete_node_def)

text \<open>Operations that only cut: nodes lose children, parent or target, the maps lose entries.\<close>

definition same_block :: "Node \<Rightarrow> Node \<Rightarrow> bool" where
  "same_block n' n \<longleftrightarrow> n_root n' = n_root n \<and> n_slot n' = n_slot n \<and> n_payloadHash n' = n_payloadHash n
     \<and> n_justifiedEpoch n' = n_justifiedEpoch n \<and> n_finalizedEpoch n' = n_finalizedEpoch n
     \<and> n_timestamp n' = n_timestamp n \<and> n_stabled n' = n_stabled n"

definition node_le :: "Node \<Rightarrow> Node \<Rightarrow> bool" where
  "node_le n' n \<longleftrightarrow> same_block n' n
     \<and> n_validatorIndices n' = n_validatorIndices n
     \<and> n_optimistic n' = n_optimistic n
     \<and> (n_parent n' = n_parent n \<or> n_parent n' = None)
     \<and> set (n_children n') \<subseteq> set (n_children n)
     \<and> (distinct (n_children n) \<longrightarrow> distinct (n_children n'))
     \<and> (n_target n' = n_target n \<or> n_target n' = None)"

definition shrinks :: "Store \<Rightarrow> Store \<Rightarrow> bool" where
  "shrinks s s' \<longleftrightarrow> nextAddr s' = nextAddr s \<and> (\<forall>a. node_le (nodes s' a) (nodes s a))
     \<and> (gm_ok (nodeByRoot s) \<longrightarrow> gm_ok (nodeByRoot s'))
     \<and> (\<forall>r a. gm_get (nodeByRoot s') r = Some a \<longrightarrow> gm_get (nodeByRoot s) r = Some a)
     \<and> treeRootNode s' = treeRootNode s \<and> headNode s' = headNode s
     \<and> cacheAttCount s' = cacheAttCount s \<and> cacheSlot s' = cacheSlot s
     \<and> receivedBlocksLastEpoch s' = receivedBlocksLastEpoch s
     \<and> justifiedCheckpoint s' = justifiedCheckpoint s \<and> finalizedCheckpoint s' = finalizedCheckpoint s"

lemma same_block_refl [simp]: "same_block n n"
  by (simp add: same_block_def)

lemma same_block_trans: "same_block n'' n' \<Longrightarrow> same_block n' n \<Longrightarrow> same_block n'' n"
  by (simp add: same_block_def)

lemma node_le_refl [simp]: "node_le n n"
  by (simp add: node_le_def)

lemma node_le_trans: "node_le n'' n' \<Longrightarrow> node_le n' n \<Longrightarrow> node_le n'' n"
  by (auto simp: node_le_def intro: same_block_trans)

lemma shrinks_refl [simp]: "shrinks s s"
  by (simp add: shrinks_def)

lemma shrinks_trans: "shrinks s s' \<Longrightarrow> shrinks s' s'' \<Longrightarrow> shrinks s s''"
  by (auto simp: shrinks_def intro: node_le_trans)

lemma shrinks_upd: "node_le (f (nodes s a)) (nodes s a) \<Longrightarrow> shrinks s (upd_node a f s)"
  by (simp add: shrinks_def)

lemma shrinks_delete: "shrinks s (delete_node a s)"
  by (auto simp: shrinks_def split: if_splits)

lemma gm_get_all_None: "(\<forall>k. gm_get m k = None) \<Longrightarrow> m = []"
  by (cases m) (auto simp: gm_get_def split: if_splits)

lemma shrinksD:
  assumes "shrinks s s'"
  shows "nextAddr s' = nextAddr s" "node_le (nodes s' a) (nodes s a)"
    "treeRootNode s' = treeRootNode s" "headNode s' = headNode s"
    "gm_get (nodeByRoot s') r = Some b \<Longrightarrow> gm_get (nodeByRoot s) r = Some b"
    "justifiedCheckpoint s' = justifiedCheckpoint s" "finalizedCheckpoint s' = finalizedCheckpoint s"
  using assms by (simp_all add: shrinks_def)

lemma node_ok_shrinks:
  assumes "node_ok s a" "\<And>c. node_le (nodes s' c) (nodes s c)" "nextAddr s' = nextAddr s"
  shows "node_ok s' a"
proof -
  have p: "n_parent (nodes s' c) = n_parent (nodes s c) \<or> n_parent (nodes s' c) = None" for c
    using assms(2) [of c] by (simp add: node_le_def)
  have c: "set (n_children (nodes s' a)) \<subseteq> set (n_children (nodes s a))"
    and d: "distinct (n_children (nodes s' a))"
    and t: "n_target (nodes s' a) = n_target (nodes s a) \<or> n_target (nodes s' a) = None"
    using assms(1) assms(2) [of a] unfolding node_le_def node_ok_def by (elim conjE; simp (no_asm_simp))+
  show ?thesis unfolding node_ok_def
  proof (intro conjI allI impI ballI)
    fix q assume "n_parent (nodes s' a) = Some q"
    then show "q < a" using p [of a] assms(1) unfolding node_ok_def by auto
  next
    fix x assume "x \<in> set (n_children (nodes s' a))"
    then have "x \<in> set (n_children (nodes s a))" using c by blast
    then show "a < x" "x < nextAddr s'" "n_parent (nodes s' x) = Some q \<Longrightarrow> q = a" for q
      using assms(1,3) p [of x] unfolding node_ok_def by auto
  next
    fix u assume "n_target (nodes s' a) = Some u"
    then show "u \<le> a" using t assms(1) unfolding node_ok_def by auto
  qed (rule d)
qed

lemma wf_shrinks:
  assumes "wf_store s" "shrinks s s'"
  shows "wf_store s'"
  unfolding wf_store_def
proof (intro conjI)
  note d = shrinksD [OF assms(2)]
  show "heap_ok s'"
    unfolding heap_ok_def d(1) using wf_node [OF assms(1)] node_ok_shrinks [OF _ d(2) d(1)] by blast
  have r: "n_root (nodes s' a) = n_root (nodes s a)" for a using d(2) [of a] by (simp add: node_le_def same_block_def)
  have "gm_ok (nodeByRoot s')"
    using assms(2) wf_storeD(2) [OF assms(1)] unfolding shrinks_def index_ok_def by blast
  then show "index_ok s'"
    unfolding index_ok_def r d(1) using d(5) wf_lookup [OF assms(1)] wf_lookup_root [OF assms(1)] by blast
  have "nodeByRoot s' = []" if "treeRootNode s' = None"
  proof (rule gm_get_all_None, rule allI, rule ccontr)
    fix k assume "gm_get (nodeByRoot s') k \<noteq> None"
    then show False using d(5) wf_lookup_tree [OF assms(1)] that d(3) by force
  qed
  moreover have "n_parent (nodes s' t) = None" if "treeRootNode s' = Some t" for t
    using wf_tree_root [OF assms(1), of t] that d(3) d(2) [of t] by (simp add: node_le_def)
  ultimately show "anchor_ok s'"
    using wf_storeD(3) [OF assms(1)] d unfolding anchor_ok_def by simp
  show "aux_ok s'"
    using wf_storeD(4) [OF assms(1)] assms(2) unfolding aux_ok_def shrinks_def by simp
qed

text \<open>
  What every operation except voting and validation does to the blocks already stored: none
  disappears from the heap or changes, links to parents are at most cut, the recorded votes and
  the vote cache stay; new blocks are optimistic.
\<close>
text \<open>A block nobody has validated or voted for.\<close>
definition fresh_node :: "Node \<Rightarrow> bool" where
  "fresh_node n \<longleftrightarrow> n_optimistic n \<and> n_validatorIndices n = None"

definition evolves :: "Store \<Rightarrow> Store \<Rightarrow> bool" where
  "evolves s t \<longleftrightarrow> nextAddr s \<le> nextAddr t
     \<and> (\<forall>a<nextAddr s. same_block (nodes t a) (nodes s a)
         \<and> n_optimistic (nodes t a) = n_optimistic (nodes s a)
         \<and> (n_parent (nodes t a) = n_parent (nodes s a) \<or> n_parent (nodes t a) = None)
         \<and> n_validatorIndices (nodes t a) = n_validatorIndices (nodes s a))
     \<and> (\<forall>a<nextAddr t. nextAddr s \<le> a \<longrightarrow> fresh_node (nodes t a))
     \<and> cacheAttCount t = cacheAttCount s \<and> cacheSlot t = cacheSlot s"

lemma evolves_refl [simp]: "evolves s s"
  by (simp add: evolves_def)

lemma evolves_trans: "evolves s t \<Longrightarrow> evolves t u \<Longrightarrow> evolves s u"
  unfolding evolves_def fresh_node_def by (smt (verit, best) linorder_not_le order_less_le_trans order_trans same_block_trans)

lemma shrinks_evolves: "shrinks s t \<Longrightarrow> evolves s t"
  unfolding shrinks_def evolves_def node_le_def by simp

lemma evolves_fields:
  "nodes t = nodes s \<Longrightarrow> nextAddr t = nextAddr s \<Longrightarrow> cacheAttCount t = cacheAttCount s
    \<Longrightarrow> cacheSlot t = cacheSlot s \<Longrightarrow> evolves s t"
  unfolding evolves_def by simp

lemma heap_ok_cong: "nodes s' = nodes s \<Longrightarrow> nextAddr s' = nextAddr s \<Longrightarrow> heap_ok s' = heap_ok s"
  unfolding heap_ok_def node_ok_def by simp

lemma index_ok_cong: "nodes s' = nodes s \<Longrightarrow> nextAddr s' = nextAddr s \<Longrightarrow> nodeByRoot s' = nodeByRoot s
    \<Longrightarrow> index_ok s' = index_ok s"
  unfolding index_ok_def by simp

lemma aux_ok_cong: "cacheAttCount s' = cacheAttCount s \<Longrightarrow> receivedBlocksLastEpoch s' = receivedBlocksLastEpoch s
    \<Longrightarrow> aux_ok s' = aux_ok s"
  unfolding aux_ok_def by simp

lemma wf_fields:
  assumes "wf_store s" "nodes s' = nodes s" "nextAddr s' = nextAddr s" "nodeByRoot s' = nodeByRoot s"
    "treeRootNode s' = treeRootNode s" "\<And>h. headNode s' = Some h \<Longrightarrow> h < nextAddr s"
    "aux_ok s'"
  shows "wf_store s'"
  unfolding wf_store_def
proof (intro conjI)
  show "heap_ok s'" "index_ok s'"
    using wf_storeD(1,2) [OF assms(1)] heap_ok_cong [OF assms(2,3)] index_ok_cong [OF assms(2-4)] by simp_all
  show "anchor_ok s'"
    using wf_storeD(3) [OF assms(1)] assms(6) unfolding anchor_ok_def assms(2-5) by blast
qed (rule assms(7))

lemma heap_okI:
  assumes "\<And>a. a < nextAddr s \<Longrightarrow> node_ok s a"
  shows "heap_ok s"
  using assms by (simp add: heap_ok_def)

lemma node_okE:
  assumes "node_ok s a"
  shows "n_parent (nodes s a) = Some p \<Longrightarrow> p < a"
    and "c \<in> set (n_children (nodes s a)) \<Longrightarrow> a < c \<and> c < nextAddr s"
    and "c \<in> set (n_children (nodes s a)) \<Longrightarrow> n_parent (nodes s c) = Some q \<Longrightarrow> q = a"
    and "distinct (n_children (nodes s a))"
    and "n_target (nodes s a) = Some t \<Longrightarrow> t \<le> a"
  using assms unfolding node_ok_def by auto

text \<open>Writes that keep the links of a node.\<close>

lemma wf_upd_keep:
  assumes "wf_store s"
    and "n_parent (f (nodes s a)) = n_parent (nodes s a)" "n_children (f (nodes s a)) = n_children (nodes s a)"
      "n_target (f (nodes s a)) = n_target (nodes s a)" "n_root (f (nodes s a)) = n_root (nodes s a)"
  shows "wf_store (upd_node a f s)"
proof -
  let ?s = "upd_node a f s"
  have e: "n_parent (nodes ?s b) = n_parent (nodes s b)" "n_children (nodes ?s b) = n_children (nodes s b)"
    "n_target (nodes ?s b) = n_target (nodes s b)" "n_root (nodes ?s b) = n_root (nodes s b)" for b
    using assms(2-5) by simp_all
  show ?thesis
    using assms(1)
    unfolding wf_store_def heap_ok_def node_ok_def index_ok_def anchor_ok_def aux_ok_def e upd_node_simps(2-)
    .
qed

text \<open>A fresh node, and its entry in the children of its parent.\<close>

lemma wf_alloc:
  assumes wf: "wf_store s"
    and n: "n_children n = []" "\<And>p. n_parent n = Some p \<Longrightarrow> p < nextAddr s" "\<And>t. n_target n = Some t \<Longrightarrow> t \<le> nextAddr s"
    and s': "nodes s' = (nodes s)(nextAddr s := n)" "nextAddr s' = Suc (nextAddr s)"
      "nodeByRoot s' = gm_set (n_root n) (nextAddr s) (nodeByRoot s)"
      "cacheAttCount s' = cacheAttCount s" "receivedBlocksLastEpoch s' = receivedBlocksLastEpoch s"
    and t: "treeRootNode s' = treeRootNode s \<and> headNode s' = headNode s \<and> treeRootNode s \<noteq> None
      \<or> treeRootNode s' = Some (nextAddr s) \<and> headNode s' = Some (nextAddr s) \<and> n_parent n = None"
  shows "wf_store s'"
  unfolding wf_store_def
proof (intro conjI)
  show "heap_ok s'"
  proof (rule heap_okI)
    fix a assume "a < nextAddr s'"
    then consider "a = nextAddr s" | "a < nextAddr s" by (auto simp: s' less_Suc_eq)
    then show "node_ok s' a"
    proof cases
      case 1
      then show ?thesis using n by (simp add: node_ok_def s')
    next
      case 2
      note o = node_okE [OF wf_node [OF wf 2]]
      show ?thesis unfolding node_ok_def
        using o(1,4,5) 2 o(2,3) by (auto simp: s' less_Suc_eq)
    qed
  qed
  show "index_ok s'"
    using wf_storeD(2) [OF wf] by (auto simp: index_ok_def s' less_Suc_eq)
  show "anchor_ok s'"
    using t wf_tree_root [OF wf] wf_head [OF wf] by (auto simp: anchor_ok_def s' less_Suc_eq)
  show "aux_ok s'" using wf_storeD(4) [OF wf] by (simp add: aux_ok_def s')
qed

lemma wf_link:
  assumes wf: "wf_store s" and a: "p < a" "a < nextAddr s" "n_parent (nodes s a) = Some p"
    "a \<notin> set (n_children (nodes s p))"
  shows "wf_store (upd_node p (\<lambda>x. x\<lparr>n_children := n_children x @ [a]\<rparr>) s)" (is "wf_store ?s")
  unfolding wf_store_def
proof (intro conjI)
  have e: "n_parent (nodes ?s b) = n_parent (nodes s b)" "n_target (nodes ?s b) = n_target (nodes s b)"
    "n_root (nodes ?s b) = n_root (nodes s b)" for b by simp_all
  show "heap_ok ?s"
  proof (rule heap_okI)
    fix b assume "b < nextAddr ?s"
    then have o: "node_ok s b" using wf_node [OF wf] by simp
    show "node_ok ?s b"
      unfolding node_ok_def e using node_okE [OF o] a by (auto split: if_splits)
  qed
  show "index_ok ?s" "anchor_ok ?s" "aux_ok ?s"
    using wf unfolding wf_store_def index_ok_def anchor_ok_def aux_ok_def e by simp_all
qed

subsection \<open>Ancestry\<close>

text \<open>
  The reference for every walk along parent pointers: the path from a node up to its root. The
  guard makes it total; on a well-formed store parents are always older and the guard is idle.
\<close>
fun ancestry :: "Store \<Rightarrow> addr \<Rightarrow> addr list" where
  "ancestry s a = a # (case n_parent (nodes s a) of None \<Rightarrow> []
     | Some p \<Rightarrow> if p < a then ancestry s p else [])"

declare ancestry.simps [simp del]

definition ancestry_opt :: "Store \<Rightarrow> addr option \<Rightarrow> addr list" where
  "ancestry_opt s n = (case n of None \<Rightarrow> [] | Some a \<Rightarrow> ancestry s a)"

lemma ancestry_opt_simps [simp]:
  "ancestry_opt s None = []" "ancestry_opt s (Some a) = ancestry s a"
  by (simp_all add: ancestry_opt_def)

lemma ancestry_unfold:
  "wf_store s \<Longrightarrow> a < nextAddr s \<Longrightarrow> ancestry s a = a # ancestry_opt s (n_parent (nodes s a))"
  using wf_parent [of s a] by (subst ancestry.simps) (auto split: option.split)

lemma ancestry_le: "b \<in> set (ancestry s a) \<Longrightarrow> b \<le> a"
proof (induction s a rule: ancestry.induct)
  case (1 s a)
  then show ?case by (subst (asm) ancestry.simps) (force split: option.splits if_splits)
qed

lemma ancestry_self [simp]: "a \<in> set (ancestry s a)"
  by (subst ancestry.simps) simp

lemma ancestry_length: "length (ancestry s a) \<le> Suc a"
proof (induction s a rule: ancestry.induct)
  case (1 s a)
  then show ?case by (subst ancestry.simps) (force split: option.splits)
qed

definition height :: "Store \<Rightarrow> addr \<Rightarrow> nat" where
  "height s a = length (ancestry s a) - 1"

lemma depth_loop_ok:
  assumes "wf_store s" "\<And>a. n = Some a \<Longrightarrow> a < nextAddr s \<and> Suc a < k" "0 < k"
  shows "depth_loop k s n ret = Ret (ret + of_nat (length (ancestry_opt s n)))"
  using assms(2,3)
proof (induction k arbitrary: n ret)
  case (Suc k)
  show ?case
  proof (cases n)
    case (Some a)
    with Suc.prems have a: "a < nextAddr s" "a < k" by auto
    have "depth_loop k s (n_parent (nodes s a)) (ret + 1)
        = Ret (ret + 1 + of_nat (length (ancestry_opt s (n_parent (nodes s a)))))"
      using wf_parent [OF assms(1) a(1)] a by (intro Suc.IH) (auto dest: order.strict_trans)
    then show ?thesis using Some ancestry_unfold [OF assms(1) a(1)] by simp
  qed simp
qed simp

lemma depth_ok:
  assumes "wf_store s" "a < nextAddr s"
  shows "depth s a = Ret (of_nat (height s a))"
proof -
  have "depth s a = Ret (0 + of_nat (length (ancestry_opt s (n_parent (nodes s a)))))"
    unfolding depth_def using wf_parent [OF assms] assms(2)
    by (intro depth_loop_ok [OF assms(1)]) (auto dest: order.strict_trans)
  then show ?thesis by (simp add: height_def ancestry_unfold [OF assms])
qed

lemma height_lt: "wf_store s \<Longrightarrow> a < nextAddr s \<Longrightarrow> height s a < nextAddr s"
  using ancestry_length [of s a] by (simp add: height_def)

subsection \<open>The head update\<close>

text \<open>The loop's choice between the best node so far and the next candidate.\<close>
definition better :: "Store \<Rightarrow> addr \<Rightarrow> addr \<Rightarrow> bool" where
  "better s n m \<longleftrightarrow> (of_nat (height s n) :: u64) > of_nat (height s m)
     \<or> (of_nat (height s n) :: u64) = of_nat (height s m) \<and> n_slot (nodes s n) > n_slot (nodes s m)"

definition pick :: "Store \<Rightarrow> addr \<Rightarrow> addr \<Rightarrow> addr" where
  "pick s m n = (if better s n m then n else m)"

lemma maxNode_loop_foldl:
  assumes "wf_store s" "m < nextAddr s" "\<And>n. n \<in> set ns \<Longrightarrow> n < nextAddr s"
  shows "maxNode_loop s m ns = Ret (foldl (pick s) m ns)"
  using assms(2,3)
proof (induction ns arbitrary: m)
  case (Cons n ns)
  have "pick s m n < nextAddr s" using Cons.prems by (simp add: pick_def)
  then have "maxNode_loop s (pick s m n) ns = Ret (foldl (pick s) (pick s m n) ns)"
    using Cons by simp
  moreover have "maxNode_loop s m (n # ns) = maxNode_loop s (pick s m n) ns"
    using Cons.prems by (auto simp: depth_ok [OF assms(1)] pick_def better_def split: if_splits)
  ultimately show ?case by simp
qed simp

lemma foldl_pick_in: "foldl (pick s) m ns \<in> insert m (set ns)"
proof (induction ns arbitrary: m)
  case (Cons n ns)
  from Cons [of "pick s m n"] show ?case by (auto simp: pick_def split: if_splits)
qed simp

lemma filter_tips_iff:
  "a \<in> set (filter_tips s je ce rs) \<longleftrightarrow>
     (\<exists>r\<in>set rs. gm_get (nodeByRoot s) r = Some a) \<and> viableForHead (nodes s a) je ce \<and> n_stabled (nodes s a)"
  by (induction rs) (auto split: option.splits)

lemma filter_tips_lt:
  "wf_store s \<Longrightarrow> a \<in> set (filter_tips s je ce rs) \<Longrightarrow> a < nextAddr s"
  using wf_lookup by (auto simp: filter_tips_iff)

lemma updateBestDescendant_eq:
  assumes "wf_store s" "\<not> ctx AtUpdateBest" "treeRootNode s = Some t"
  shows "updateBestDescendant iter ctx s je fe ce = Ret (s\<lparr>headNode :=
     (if n_children (nodes s t) = [] then None
      else case filter_tips s je ce (fst (tips iter s)) of [] \<Rightarrow> None
        | m # ms \<Rightarrow> Some (foldl (pick s) m (m # ms)))\<rparr>, None)"
proof -
  have "maxNode_loop s m (m # ms) = Ret (foldl (pick s) m (m # ms))"
    if "filter_tips s je ce (fst (tips iter s)) = m # ms" for m ms
    using filter_tips_lt [OF assms(1), of _ je ce "fst (tips iter s)"] that
    by (intro maxNode_loop_foldl [OF assms(1)]) auto
  then show ?thesis using assms(2,3) unfolding updateBestDescendant_def
    by (auto split: list.split simp del: maxNode_loop.simps foldl.simps)
qed

lemma updateBestDescendant_cases:
  assumes "wf_store s" "treeRootNode s \<noteq> None"
  obtains h e where "updateBestDescendant iter ctx s je fe ce = Ret (s\<lparr>headNode := h\<rparr>, e)"
    "\<And>a. h = Some a \<Longrightarrow> a < nextAddr s"
proof (cases "ctx AtUpdateBest")
  case True
  then show ?thesis using that [of "headNode s" "Some CtxErr"] wf_head [OF assms(1)]
    by (simp add: updateBestDescendant_def)
next
  case False
  obtain t where t: "treeRootNode s = Some t" using assms(2) by blast
  let ?f = "filter_tips s je ce (fst (tips iter s))"
  have "a < nextAddr s" if "?f = m # ms" "foldl (pick s) m (m # ms) = a" for a m ms
    using foldl_pick_in [of s m "m # ms"] filter_tips_lt [OF assms(1), of a je ce] that
    by (metis insert_absorb list.set_intros(1))
  then show ?thesis
    by (intro that [OF updateBestDescendant_eq [where ctx = ctx, OF assms(1) False t]])
      (auto split: if_splits list.splits simp del: foldl.simps)
qed

lemma wf_set_head:
  "wf_store s \<Longrightarrow> (\<And>a. h = Some a \<Longrightarrow> a < nextAddr s) \<Longrightarrow> wf_store (s\<lparr>headNode := h\<rparr>)"
  by (rule wf_fields, assumption) (use wf_storeD(4) [of s] in \<open>auto simp: aux_ok_def\<close>)

lemma wf_updateBestDescendant:
  assumes "wf_store s" "updateBestDescendant iter ctx s je fe ce = Ret (s', e)"
  shows "wf_store s'"
proof -
  have "treeRootNode s \<noteq> None \<or> s' = s" using assms(2)
    by (auto simp: updateBestDescendant_def split: if_splits option.splits)
  then show ?thesis
    using assms by (elim disjE updateBestDescendant_cases [OF assms(1), of iter ctx je fe ce])
      (auto intro: wf_set_head)
qed

lemma wf_head_op:
  assumes "wf_store s" "head ctx s = Ret (s', r)"
  shows "wf_store s'"
  using assms wf_tree_root [OF assms(1)]
  by (auto simp: head_def split: if_splits option.splits intro: wf_set_head)

lemma wf_Head:
  assumes "wf_store s" "Head iter ctx now el s = Ret (s', r)"
  shows "wf_store s'"
  using assms unfolding Head_def Let_def
  by (auto simp: go_simps split: option.splits intro: wf_updateBestDescendant wf_head_op)

subsection \<open>Insertion\<close>

lemma mark_received_simps [simp]:
  "nodes (mark_received now sl s) = nodes s" "nextAddr (mark_received now sl s) = nextAddr s"
  "nodeByRoot (mark_received now sl s) = nodeByRoot s" "treeRootNode (mark_received now sl s) = treeRootNode s"
  "headNode (mark_received now sl s) = headNode s" "cacheAttCount (mark_received now sl s) = cacheAttCount s"
  "cacheSlot (mark_received now sl s) = cacheSlot s"
  "justifiedCheckpoint (mark_received now sl s) = justifiedCheckpoint s"
  "finalizedCheckpoint (mark_received now sl s) = finalizedCheckpoint s"
  "length (receivedBlocksLastEpoch (mark_received now sl s)) = length (receivedBlocksLastEpoch s)"
  by (simp_all add: mark_received_def)

lemma wf_mark_received: "wf_store s \<Longrightarrow> wf_store (mark_received now sl s)"
  by (rule wf_fields, assumption) (use wf_storeD(4) [of s] wf_head [of s] in \<open>auto simp: aux_ok_def\<close>)

lemma insert_target_ok:
  assumes "wf_store s" "\<And>p. par = Some p \<Longrightarrow> p < nextAddr s"
  obtains tg where "insert_target s (nextAddr s) sl par = Ret tg" "\<And>t. tg = Some t \<Longrightarrow> t \<le> nextAddr s"
proof -
  have "\<exists>tg. insert_target s (nextAddr s) sl par = Ret tg \<and> (\<forall>t. tg = Some t \<longrightarrow> t \<le> nextAddr s)"
    using assms(2) wf_target [OF assms(1)]
    by (fastforce simp: insert_target_def split: option.split)
  then show ?thesis using that by blast
qed

text \<open>The three states of an insertion: the linked child, the new tree root, the orphan.\<close>

definition with_node :: "Node \<Rightarrow> root32 \<Rightarrow> Store \<Rightarrow> Store" where
  "with_node n payloadHash s = s\<lparr>nodes := (nodes s)(nextAddr s := n), nextAddr := Suc (nextAddr s),
     nodeByPayload := gm_set payloadHash (nextAddr s) (nodeByPayload s),
     nodeByRoot := gm_set (n_root n) (nextAddr s) (nodeByRoot s)\<rparr>"

definition with_child :: "addr \<Rightarrow> Node \<Rightarrow> root32 \<Rightarrow> Store \<Rightarrow> Store" where
  "with_child p n payloadHash s =
     upd_node p (\<lambda>x. x\<lparr>n_children := n_children x @ [nextAddr s]\<rparr>) (with_node n payloadHash s)"

definition with_root :: "Node \<Rightarrow> root32 \<Rightarrow> Store \<Rightarrow> Store" where
  "with_root n payloadHash s = upd_node (nextAddr s) (\<lambda>x. x\<lparr>n_stabled := True\<rparr>)
     ((with_node n payloadHash s)\<lparr>treeRootNode := Some (nextAddr s), headNode := Some (nextAddr s)\<rparr>)"

definition set_stabled :: "bool \<Rightarrow> addr \<Rightarrow> Store \<Rightarrow> Store" where
  "set_stabled b a s = (if b then upd_node a (\<lambda>x. x\<lparr>n_stabled := True\<rparr>) s else s)"

lemma wf_with_node:
  assumes "wf_store s" "treeRootNode s \<noteq> None" "n_children n = []"
    "\<And>p. n_parent n = Some p \<Longrightarrow> p < nextAddr s" "\<And>t. n_target n = Some t \<Longrightarrow> t \<le> nextAddr s"
  shows "wf_store (with_node n ph s)"
  using assms by (intro wf_alloc [OF assms(1) assms(3-5)]) (simp_all add: with_node_def)

lemma wf_with_root:
  assumes "wf_store s" "n_children n = []" "n_parent n = None" "\<And>t. n_target n = Some t \<Longrightarrow> t \<le> nextAddr s"
  shows "wf_store (with_root n ph s)"
  unfolding with_root_def
  using assms by (intro wf_upd_keep wf_alloc [OF assms(1,2) _ assms(4)]) (simp_all add: with_node_def)

lemma wf_with_child:
  assumes "wf_store s" "n_parent n = Some p" "p < nextAddr s" "treeRootNode s \<noteq> None" "n_children n = []"
    "\<And>t. n_target n = Some t \<Longrightarrow> t \<le> nextAddr s"
  shows "wf_store (with_child p n ph s)"
  unfolding with_child_def
proof (rule wf_link)
  show "wf_store (with_node n ph s)" using assms by (intro wf_with_node) auto
  show "nextAddr s \<notin> set (n_children (nodes (with_node n ph s) p))"
    using wf_child [OF assms(1,3)] assms(3) by (auto simp: with_node_def)
qed (use assms in \<open>simp_all add: with_node_def\<close>)

lemma wf_set_stabled: "wf_store s \<Longrightarrow> wf_store (set_stabled b a s)"
  by (simp add: set_stabled_def wf_upd_keep)

lemma set_stabled_simps [simp]:
  "treeRootNode (set_stabled b a s) = treeRootNode s" "nextAddr (set_stabled b a s) = nextAddr s"
  "nodeByRoot (set_stabled b a s) = nodeByRoot s" "headNode (set_stabled b a s) = headNode s"
  "cacheAttCount (set_stabled b a s) = cacheAttCount s" "cacheSlot (set_stabled b a s) = cacheSlot s"
  "justifiedCheckpoint (set_stabled b a s) = justifiedCheckpoint s"
  "finalizedCheckpoint (set_stabled b a s) = finalizedCheckpoint s"
  by (simp_all add: set_stabled_def)

lemma with_child_simps [simp]:
  "treeRootNode (with_child p n ph s) = treeRootNode s" "nextAddr (with_child p n ph s) = Suc (nextAddr s)"
  "nodeByRoot (with_child p n ph s) = gm_set (n_root n) (nextAddr s) (nodeByRoot s)"
  "headNode (with_child p n ph s) = headNode s"
  "cacheAttCount (with_child p n ph s) = cacheAttCount s" "cacheSlot (with_child p n ph s) = cacheSlot s"
  "justifiedCheckpoint (with_child p n ph s) = justifiedCheckpoint s"
  "finalizedCheckpoint (with_child p n ph s) = finalizedCheckpoint s"
  "genesisTime (with_child p n ph s) = genesisTime s"
  by (simp_all add: with_child_def with_node_def)

lemma insert_node_child:
  assumes "gm_get (nodeByRoot s) root = None" "gm_get (nodeByRoot s) parentRoot = Some p"
    "insert_target s (nextAddr s) slot (Some p) = Ret tg" "\<not> clk 1 < genesisTime s"
    and n_def: "n = (new_node (clk 0) slot root (Some p) ph je fe)\<lparr>n_target := tg\<rparr>"
    and s3_def: "s3 = set_stabled (insert_stabled (with_child p n ph s) parentRoot p) (nextAddr s) (with_child p n ph s)"
  shows "insert_node iter ctx clk s slot root parentRoot ph je fe =
    obind (updateBestDescendant iter ctx s3 (cpEpoch (justifiedCheckpoint s)) (cpEpoch (finalizedCheckpoint s))
      (CurrentSlot (clk 2) (genesisTime s) div 32)) (\<lambda>r. case r of
        (s4, Some err) \<Rightarrow> Ret (s4, nextAddr s, Some err)
      | (s4, None) \<Rightarrow> Ret (mark_received (clk 3) slot s4, nextAddr s, None))"
proof -
  have "n_root n = root" by (simp add: n_def new_node_def)
  then show ?thesis
    using assms(1-4)
    by (simp add: insert_node_def s3_def n_def [symmetric] with_child_def with_node_def set_stabled_def Let_def)
qed

text \<open>Every way an insertion into a well-formed store ends; it always returns.\<close>

lemma insert_node_cases:
  assumes wf: "wf_store s"
    and ins_def: "ins = insert_node iter ctx clk s slot root parentRoot ph je fe"
  obtains (known) n where "gm_get (nodeByRoot s) root = Some n" "ins = Ret (s, n, None)"
  | (tree) n tg where "gm_get (nodeByRoot s) root = None" "gm_get (nodeByRoot s) parentRoot = None"
      "treeRootNode s = None" "n = (new_node (clk 0) slot root None ph je fe)\<lparr>n_target := tg\<rparr>"
      "ins = Ret (mark_received (clk 3) slot (with_root n ph s), nextAddr s, None)"
      "wf_store (with_root n ph s)"
  | (orphan) n tg where "gm_get (nodeByRoot s) root = None" "gm_get (nodeByRoot s) parentRoot = None"
      "treeRootNode s \<noteq> None" "n = (new_node (clk 0) slot root None ph je fe)\<lparr>n_target := tg\<rparr>"
      "ins = Ret (with_node n ph s, nextAddr s, Some errInvalidParentRoot)"
      "wf_store (with_node n ph s)"
  | (early) p n tg where "gm_get (nodeByRoot s) root = None" "gm_get (nodeByRoot s) parentRoot = Some p"
      "n = (new_node (clk 0) slot root (Some p) ph je fe)\<lparr>n_target := tg\<rparr>" "clk 1 < genesisTime s"
      "ins = Ret (with_child p n ph s, nextAddr s, None)" "wf_store (with_child p n ph s)"
  | (child) p n tg s3 ce h e where "gm_get (nodeByRoot s) root = None" "gm_get (nodeByRoot s) parentRoot = Some p"
      "n = (new_node (clk 0) slot root (Some p) ph je fe)\<lparr>n_target := tg\<rparr>" "\<not> clk 1 < genesisTime s"
      "s3 = set_stabled (insert_stabled (with_child p n ph s) parentRoot p) (nextAddr s) (with_child p n ph s)"
      "ce = CurrentSlot (clk 2) (genesisTime s) div 32"
      "updateBestDescendant iter ctx s3 (cpEpoch (justifiedCheckpoint s)) (cpEpoch (finalizedCheckpoint s)) ce
         = Ret (s3\<lparr>headNode := h\<rparr>, e)"
      "ins = Ret (if e = None then mark_received (clk 3) slot (s3\<lparr>headNode := h\<rparr>) else s3\<lparr>headNode := h\<rparr>,
         nextAddr s, e)"
      "wf_store s3" "wf_store (s3\<lparr>headNode := h\<rparr>)"
proof (cases "gm_get (nodeByRoot s) root")
  case (Some n)
  then show ?thesis using known by (simp add: ins_def insert_node_def)
next
  case new: None
  obtain tg where tg: "insert_target s (nextAddr s) slot (gm_get (nodeByRoot s) parentRoot) = Ret tg"
    "\<And>t. tg = Some t \<Longrightarrow> t \<le> nextAddr s"
    using insert_target_ok [OF wf] wf_lookup [OF wf] by metis
  show ?thesis
  proof (cases "gm_get (nodeByRoot s) parentRoot")
    case par: None
    let ?n = "(new_node (clk 0) slot root None ph je fe)\<lparr>n_target := tg\<rparr>"
    have n: "n_children ?n = []" "n_parent ?n = None" "\<And>t. n_target ?n = Some t \<Longrightarrow> t \<le> nextAddr s"
      "n_root ?n = root" using tg(2) by (simp_all add: new_node_def)
    show ?thesis
    proof (cases "treeRootNode s")
      case None
      show ?thesis by (rule tree [OF new par None refl _ wf_with_root [OF wf n(1-3)]])
        (use new par None tg n(4) in \<open>simp add: ins_def insert_node_def with_root_def with_node_def Let_def\<close>)
    next
      case (Some t)
      then have t: "treeRootNode s \<noteq> None" by simp
      show ?thesis by (rule orphan [OF new par t refl _ wf_with_node [OF wf t n(1) _ n(3)]])
        (use new par Some tg n(2,4) in \<open>simp_all add: ins_def insert_node_def with_node_def Let_def\<close>)
    qed
  next
    case par: (Some p)
    let ?n = "(new_node (clk 0) slot root (Some p) ph je fe)\<lparr>n_target := tg\<rparr>"
    have n: "n_children ?n = []" "n_parent ?n = Some p" "\<And>t. n_target ?n = Some t \<Longrightarrow> t \<le> nextAddr s"
      "n_root ?n = root" using tg(2) by (simp_all add: new_node_def)
    have t: "treeRootNode s \<noteq> None" using wf_lookup_tree [OF wf par] by auto
    have wc: "wf_store (with_child p ?n ph s)"
      using wf_with_child [OF wf n(2) wf_lookup [OF wf par] t n(1,3)] .
    show ?thesis
    proof (cases "clk 1 < genesisTime s")
      case True
      show ?thesis by (rule early [OF new par refl True _ wc])
        (use new par True tg n in \<open>simp add: ins_def insert_node_def with_child_def with_node_def Let_def\<close>)
    next
      case False
      let ?s3 = "set_stabled (insert_stabled (with_child p ?n ph s) parentRoot p) (nextAddr s) (with_child p ?n ph s)"
      have w3: "wf_store ?s3" by (rule wf_set_stabled [OF wc])
      obtain h e where u: "updateBestDescendant iter ctx ?s3 (cpEpoch (justifiedCheckpoint s))
          (cpEpoch (finalizedCheckpoint s)) (CurrentSlot (clk 2) (genesisTime s) div 32) = Ret (?s3\<lparr>headNode := h\<rparr>, e)"
        "\<And>a. h = Some a \<Longrightarrow> a < nextAddr ?s3"
        using updateBestDescendant_cases [OF w3] t by (metis set_stabled_simps(1) with_child_simps(1))
      show ?thesis
      proof (rule child [OF new par refl False refl refl u(1) _ w3 wf_set_head [OF w3 u(2)]])
        show "ins = Ret (if e = None then mark_received (clk 3) slot (?s3\<lparr>headNode := h\<rparr>) else ?s3\<lparr>headNode := h\<rparr>, nextAddr s, e)"
          unfolding ins_def insert_node_child [where clk = clk, OF new par tg(1) [unfolded par] False refl refl] u(1)
          by (simp split: option.split)
      qed
    qed
  qed
qed

lemma evolves_with_node: "fresh_node n \<Longrightarrow> evolves s (with_node n ph s)"
  by (simp add: evolves_def with_node_def)

lemma evolves_with_child: "fresh_node n \<Longrightarrow> p < nextAddr s \<Longrightarrow> evolves s (with_child p n ph s)"
  by (auto simp: evolves_def with_child_def with_node_def same_block_def less_Suc_eq fresh_node_def)

lemma evolves_with_root: "fresh_node n \<Longrightarrow> evolves s (with_root n ph s)"
  by (simp add: evolves_def with_root_def with_node_def fresh_node_def)

lemma evolves_child:
  "fresh_node n \<Longrightarrow> p < nextAddr s \<Longrightarrow> evolves s ((set_stabled b (nextAddr s) (with_child p n ph s))\<lparr>headNode := h\<rparr>)"
  by (auto simp: evolves_def with_child_def with_node_def set_stabled_def same_block_def less_Suc_eq fresh_node_def)

lemma evolves_mark_received: "evolves s (mark_received now sl s)"
  by (simp add: evolves_fields)

lemma insert_node_returns:
  assumes "wf_store s"
  obtains s' a e where "insert_node iter ctx clk s slot root parentRoot ph je fe = Ret (s', a, e)" "wf_store s'"
    "evolves s s'"
proof (rule insert_node_cases [where iter = iter and ctx = ctx and clk = clk and slot = slot
      and root = root and parentRoot = parentRoot and ph = ph and je = je and fe = fe, OF assms refl], goal_cases)
  case (5 p n tg s3 ce h e)
  have "evolves s (s3\<lparr>headNode := h\<rparr>)" unfolding 5(6)
    by (rule evolves_child [OF _ wf_lookup [OF assms 5(3)]]) (simp add: fresh_node_def 5(4) new_node_def)
  then show ?thesis using that wf_mark_received evolves_trans [OF _ evolves_mark_received] 5
    by (cases e) auto
next
  case (2 n tg)
  have "fresh_node n" by (simp add: fresh_node_def 2(5) new_node_def)
  then show ?thesis using 2 that wf_mark_received evolves_trans [OF evolves_with_root evolves_mark_received] by blast
next
  case (3 n tg)
  have "fresh_node n" by (simp add: fresh_node_def 3(5) new_node_def)
  then show ?thesis using 3 that evolves_with_node by blast
next
  case (4 p n tg)
  have "fresh_node n" by (simp add: fresh_node_def 4(4) new_node_def)
  then show ?thesis using 4 that evolves_with_child wf_lookup [OF assms] by blast
qed (use that assms in \<open>metis evolves_refl\<close>)

lemma wf_insert_node:
  assumes "wf_store s" "insert_node iter ctx clk s slot root parentRoot ph je fe = Ret (s', r)"
  shows "wf_store s'"
  using insert_node_returns [OF assms(1), of iter ctx clk slot root parentRoot ph je fe] assms(2)
  by (metis outcome.inject prod.inject)

subsection \<open>Pruning and removal\<close>

lemma shrinks_clear_children: "shrinks s (upd_node a (\<lambda>x. x\<lparr>n_children := []\<rparr>) s)"
  by (rule shrinks_upd) (simp add: node_le_def same_block_def)

lemma shrinks_clear_target: "shrinks s (upd_node a (\<lambda>x. x\<lparr>n_target := None\<rparr>) s)"
  by (rule shrinks_upd) (simp add: node_le_def same_block_def)

lemma shrinks_clear_parent: "shrinks s (upd_node a (\<lambda>x. x\<lparr>n_parent := None\<rparr>) s)"
  by (rule shrinks_upd) (simp add: node_le_def same_block_def)

text \<open>
  A list of addresses whose every element is younger than the bound \<open>nextAddr s - k\<close>: the fuel
  \<open>k\<close> is enough to visit each of them and all their descendants.
\<close>
definition fuel_for :: "nat \<Rightarrow> Store \<Rightarrow> addr list \<Rightarrow> bool" where
  "fuel_for k s cs \<longleftrightarrow> (\<forall>c\<in>set cs. c < nextAddr s \<and> nextAddr s \<le> c + k)"

lemma fuel_for_children:
  assumes "wf_store s" "a < nextAddr s" "nextAddr s \<le> a + Suc k"
  shows "fuel_for k s (n_children (nodes s a))"
  unfolding fuel_for_def using wf_child [OF assms(1,2)] assms(3) by fastforce

lemma fuel_for_shrinks: "shrinks s s' \<Longrightarrow> fuel_for k s' cs = fuel_for k s cs"
  by (simp add: fuel_for_def shrinksD(1))

lemma fuel_for_Cons [simp]:
  "fuel_for k s (c # cs) \<longleftrightarrow> c < nextAddr s \<and> nextAddr s \<le> c + k \<and> fuel_for k s cs"
  by (auto simp: fuel_for_def)

lemma prune_shrinks:
  "wf_store s \<Longrightarrow> node < nextAddr s \<Longrightarrow> nextAddr s \<le> node + k \<Longrightarrow>
     \<exists>s' e. pruneFinalizedNodeByRootMap k ctx s node fin = Ret (s', e) \<and> shrinks s s'"
  "wf_store s \<Longrightarrow> fuel_for k s cs \<Longrightarrow>
     \<exists>s' e. prune_children k ctx s cs fin = Ret (s', e) \<and> shrinks s s'"
proof (induction k ctx s node fin and k ctx s cs fin
    rule: pruneFinalizedNodeByRootMap_prune_children.induct)
  case (2 k ctx s node fin)
  have f: "fuel_for k s (n_children (nodes s node))" by (rule fuel_for_children) (use 2 in auto)
  show ?case
  proof (cases "ctx (AtNode node) \<or> node = fin")
    case True
    then show ?thesis using shrinks_clear_target by auto
  next
    case False
    then obtain s' e where r: "prune_children k ctx s (n_children (nodes s node)) fin = Ret (s', e)" "shrinks s s'"
      using 2 f by blast
    have "shrinks s (delete_node node (upd_node node (\<lambda>x. x\<lparr>n_children := []\<rparr>) s'))"
      by (rule shrinks_trans [OF r(2) shrinks_trans [OF shrinks_clear_children shrinks_delete]])
    then show ?thesis using False r by (cases e) auto
  qed
next
  case (4 k ctx s c cs fin)
  then obtain s' e where r: "pruneFinalizedNodeByRootMap k ctx s c fin = Ret (s', e)" "shrinks s s'"
    by auto
  show ?case
  proof (cases e)
    case None
    then obtain s'' e' where "prune_children k ctx s' cs fin = Ret (s'', e')" "shrinks s' s''"
      using 4 r wf_shrinks [OF 4(3) r(2)] fuel_for_shrinks [OF r(2)] by fastforce
    then show ?thesis using r None shrinks_trans by auto
  qed (use r in auto)
qed auto

lemma prune_incompatible_shrinks:
  assumes "wf_store s" "fuel_for k s cs"
  shows "\<exists>s' e. prune_incompatible k ctx s cs fin ms = Ret (s', e) \<and> shrinks s s'"
  using assms
proof (induction cs arbitrary: s)
  case (Cons c cs)
  then obtain s' e where r: "pruneFinalizedNodeByRootMap k ctx s c fin = Ret (s', e)" "shrinks s s'"
    using prune_shrinks(1) [of s c k] by fastforce
  have "\<exists>s'' e. prune_incompatible k ctx s' cs fin ms = Ret (s'', e) \<and> shrinks s' s''"
    using Cons.IH wf_shrinks [OF Cons.prems(1) r(2)] fuel_for_shrinks [OF r(2)] Cons.prems(2) by auto
  moreover have "\<exists>s'' e. prune_incompatible k ctx s cs fin ms = Ret (s'', e) \<and> shrinks s s''"
    using Cons by auto
  ultimately show ?case using r shrinks_trans [OF r(2)] by (cases e) auto
qed simp

lemma wf_reroot:
  assumes "wf_store s" "fin < nextAddr s"
  shows "wf_store ((upd_node fin (\<lambda>x. x\<lparr>n_parent := None\<rparr>) s)\<lparr>treeRootNode := Some fin\<rparr>)"
proof -
  let ?u = "upd_node fin (\<lambda>x. x\<lparr>n_parent := None\<rparr>) s"
  have w: "wf_store ?u" by (rule wf_shrinks [OF assms(1) shrinks_clear_parent])
  have "anchor_ok (?u\<lparr>treeRootNode := Some fin\<rparr>)"
    using wf_head [OF assms(1)] assms(2) by (simp add: anchor_ok_def)
  moreover have "heap_ok (?u\<lparr>treeRootNode := Some fin\<rparr>)" "index_ok (?u\<lparr>treeRootNode := Some fin\<rparr>)"
    "aux_ok (?u\<lparr>treeRootNode := Some fin\<rparr>)"
    using wf_storeD [OF w] heap_ok_cong [of "?u\<lparr>treeRootNode := Some fin\<rparr>" ?u]
      index_ok_cong [of "?u\<lparr>treeRootNode := Some fin\<rparr>" ?u] aux_ok_cong [of "?u\<lparr>treeRootNode := Some fin\<rparr>" ?u]
    by simp_all
  ultimately show ?thesis by (simp add: wf_store_def)
qed

lemma prune_returns:
  assumes "wf_store s"
  obtains s' e where "prune ctx s = Ret (s', e)" "wf_store s'" "nextAddr s' = nextAddr s" "evolves s s'"
    "justifiedCheckpoint s' = justifiedCheckpoint s" "finalizedCheckpoint s' = finalizedCheckpoint s"
proof (cases "gm_get (nodeByRoot s) (cpRoot (finalizedCheckpoint s))")
  case None
  then show ?thesis using that assms by (simp add: prune_def)
next
  case (Some fin)
  note fin = wf_lookup [OF assms Some]
  obtain t where t: "treeRootNode s = Some t" using wf_lookup_tree [OF assms Some] by blast
  have tn: "t < nextAddr s" using wf_tree_root [OF assms t] by simp
  obtain s1 e where r: "pruneFinalizedNodeByRootMap (Suc (nextAddr s)) ctx s t fin = Ret (s1, e)" "shrinks s s1"
    using prune_shrinks(1) [OF assms tn, of "Suc (nextAddr s)" ctx fin] by auto
  note w1 = wf_shrinks [OF assms r(2)] and n1 = shrinksD(1) [OF r(2)] and c1 = shrinksD(6,7) [OF r(2)]
  let ?s2 = "(upd_node fin (\<lambda>x. x\<lparr>n_parent := None\<rparr>) s1)\<lparr>treeRootNode := Some fin\<rparr>"
  have w2: "wf_store ?s2" using wf_reroot [OF w1] fin n1 by simp
  have f: "fuel_for (Suc (nextAddr s)) ?s2 (n_children (nodes ?s2 fin))"
    unfolding fuel_for_def using wf_child [OF w2, of fin] fin n1 by fastforce
  obtain s3 e3 where p: "prune_incompatible (Suc (nextAddr s)) ctx ?s2 (n_children (nodes ?s2 fin)) fin
      (fst (EpochStart (cpEpoch (finalizedCheckpoint s)))) = Ret (s3, e3)" "shrinks ?s2 s3"
    using prune_incompatible_shrinks [OF w2 f] by blast
  have v2: "evolves s ?s2"
    by (rule evolves_trans [OF shrinks_evolves [OF r(2)] evolves_trans [OF shrinks_evolves [OF shrinks_clear_parent [of s1 fin]]]])
      (simp add: evolves_fields)
  have w3: "wf_store s3" "nextAddr s3 = nextAddr s" "evolves s s3"
    "justifiedCheckpoint s3 = justifiedCheckpoint s" "finalizedCheckpoint s3 = finalizedCheckpoint s"
    using shrinksD(6,7) [OF p(2)] c1 wf_shrinks [OF w2 p(2)] shrinksD(1) [OF p(2)] n1 evolves_trans [OF v2 shrinks_evolves [OF p(2)]] by simp_all
  have eq: "prune ctx s = (if n_parent (nodes s fin) = None then Ret (s, None)
     else case e of Some err \<Rightarrow> Ret (s1, Some err)
     | None \<Rightarrow> (case snd (EpochStart (cpEpoch (finalizedCheckpoint s))) of
         Some err \<Rightarrow> Ret (?s2, Some (Wrap ''could not compute epoch start'' err))
       | None \<Rightarrow> if n_slot (nodes ?s2 fin) = fst (EpochStart (cpEpoch (finalizedCheckpoint s))) then Ret (?s2, None)
           else Ret (s3, e3)))"
    unfolding prune_def Let_def Some t option.case r(1) obind.simps p(1) [symmetric]
    by (simp split: option.split prod.split)
  have n2: "nextAddr ?s2 = nextAddr s" "justifiedCheckpoint ?s2 = justifiedCheckpoint s"
    "finalizedCheckpoint ?s2 = finalizedCheckpoint s" using n1 c1 by simp_all
  show ?thesis
    using that [of s] that [OF _ w1 n1 shrinks_evolves [OF r(2)] c1] that [OF _ w2 n2(1) v2 n2(2,3)] that [OF _ w3] assms eq
    by (simp split: if_splits option.splits del: Store.simps)
qed

lemma swap_remove_mset:
  assumes "a \<in> set cs"
  shows "mset (swap_remove a cs) = mset cs - {#a#}"
proof -
  obtain xs ys where cs: "cs = xs @ a # ys" "a \<notin> set xs" using assms by (metis split_list_first)
  then have i: "takeWhile (\<lambda>c. c \<noteq> a) cs = xs" by (simp add: cs(1)) (subst takeWhile_append2; force)
  show ?thesis
  proof (cases ys rule: rev_cases)
    case Nil
    then show ?thesis using cs i by (auto simp: swap_remove_def)
  next
    case (snoc zs z)
    then show ?thesis using cs i by (simp add: swap_remove_def butlast_append)
  qed
qed

lemma swap_remove_notin:
  assumes "a \<notin> set cs"
  shows "swap_remove a cs = (if length cs = 1 then [] else cs)"
proof -
  have "takeWhile (\<lambda>c. c \<noteq> a) cs = cs" using assms unfolding takeWhile_eq_all_conv by auto
  then have "length (takeWhile (\<lambda>c. c \<noteq> a) cs) = length cs" by (rule arg_cong)
  then show ?thesis by (simp add: swap_remove_def Let_def)
qed

lemma swap_remove_subset: "set (swap_remove a cs) \<subseteq> set cs"
  using swap_remove_mset [of a cs] swap_remove_notin [of a cs]
  by (cases "a \<in> set cs") (auto dest!: arg_cong [where f = set_mset] in_diffD)

lemma swap_remove_distinct: "distinct cs \<Longrightarrow> distinct (swap_remove a cs)"
proof (cases "a \<in> set cs")
  case True
  then have "mset (a # swap_remove a cs) = mset cs" by (simp add: swap_remove_mset)
  then show "distinct cs \<Longrightarrow> ?thesis" by (drule_tac mset_eq_imp_distinct_iff) simp
qed (simp add: swap_remove_notin)

lemma remove_shrinks:
  "wf_store s \<Longrightarrow> node < nextAddr s \<Longrightarrow> nextAddr s \<le> node + k \<Longrightarrow>
     \<exists>s' r. removeNodeAndChildren k ctx s node rs = Ret (s', r) \<and> shrinks s s'"
  "wf_store s \<Longrightarrow> fuel_for k s cs \<Longrightarrow>
     \<exists>s' r. remove_children k ctx s cs rs = Ret (s', r) \<and> shrinks s s'"
proof (induction k ctx s node rs and k ctx s cs rs
    rule: removeNodeAndChildren_remove_children.induct)
  case (2 k ctx s node rs)
  have f: "fuel_for k s (n_children (nodes s node))" by (rule fuel_for_children) (use 2 in auto)
  then obtain s' rs' e where r: "remove_children k ctx s (n_children (nodes s node)) rs = Ret (s', rs', e)"
    "shrinks s s'" using 2 by fastforce
  then show ?case using shrinks_trans [OF r(2) shrinks_delete] by (cases e) auto
next
  case (4 k ctx s c cs rs)
  show ?case
  proof (cases "ctx (AtNode c)")
    case False
    then obtain s' rs' e where r: "removeNodeAndChildren k ctx s c rs = Ret (s', rs', e)" "shrinks s s'"
      using 4 by fastforce
    show ?thesis
    proof (cases e)
      case None
      then obtain s'' r' where "remove_children k ctx s' cs rs' = Ret (s'', r')" "shrinks s' s''"
        using 4(2) [OF False r(1)] wf_shrinks [OF 4(3) r(2)] fuel_for_shrinks [OF r(2)] 4(4) by fastforce
      then show ?thesis using r None False shrinks_trans by auto
    qed (use r False in auto)
  qed simp
qed auto

lemma removeNode_returns:
  assumes "wf_store s" "\<And>a. n = Some a \<Longrightarrow> a < nextAddr s"
  obtains s' r where "removeNode ctx s n = Ret (s', r)" "shrinks s s'"
proof -
  have "\<exists>s' r. removeNode ctx s n = Ret (s', r) \<and> shrinks s s'"
  proof (cases "\<exists>a p. n = Some a \<and> n_parent (nodes s a) = Some p \<and> n_optimistic (nodes s a)")
    case True
    then obtain a p where a: "n = Some a" "n_parent (nodes s a) = Some p" "n_optimistic (nodes s a)" by blast
    let ?u = "upd_node p (\<lambda>x. x\<lparr>n_children := swap_remove a (n_children x)\<rparr>) s"
    have u: "shrinks s ?u"
      by (rule shrinks_upd) (simp add: node_le_def same_block_def swap_remove_subset swap_remove_distinct)
    obtain s' r where "removeNodeAndChildren (Suc (nextAddr s)) ctx ?u a [] = Ret (s', r)" "shrinks ?u s'"
      using remove_shrinks(1) [OF wf_shrinks [OF assms(1) u], of a "Suc (nextAddr s)" ctx "[]"] assms(2) [OF a(1)]
      by (auto simp del: removeNodeAndChildren.simps)
    then show ?thesis using a shrinks_trans [OF u] by (auto simp: removeNode_def)
  next
    case False
    then show ?thesis by (fastforce simp: removeNode_def split: option.split)
  qed
  then show ?thesis using that by blast
qed

lemma firstInvalid_returns:
  assumes "wf_store s" "a < nextAddr s" "a < k"
  shows "\<exists>b e. firstInvalid_loop k ctx s lvh a = Ret (b, e) \<and> b \<in> set (ancestry s a)"
  using assms(2,3)
proof (induction k arbitrary: a)
  case (Suc k)
  show ?case
  proof (cases "n_parent (nodes s a)")
    case (Some p)
    then have "p < a" using wf_parent [OF assms(1)] Suc by blast
    then have "\<exists>b e. firstInvalid_loop k ctx s lvh p = Ret (b, e) \<and> b \<in> set (ancestry s p)"
      using Suc by simp
    then show ?thesis using Some ancestry_unfold [OF assms(1) Suc.prems(1)] by auto
  qed simp
qed simp

lemma setOptimisticToInvalid_cases:
  assumes "wf_store s"
  shows "setOptimisticToInvalid ctx s root parentRoot lvh = Panic \<or>
    (\<exists>s' r. setOptimisticToInvalid ctx s root parentRoot lvh = Ret (s', r) \<and> shrinks s s')"
proof -
  have *: "\<exists>s' r. invalidate_from ctx s node parentRoot lvh = Ret (s', r) \<and> shrinks s s'"
    if n: "node < nextAddr s" for node
  proof -
    obtain b e where b: "firstInvalid_loop (Suc (nextAddr s)) ctx s lvh node = Ret (b, e)" "b \<in> set (ancestry s node)"
      using firstInvalid_returns [OF assms n, of "Suc (nextAddr s)" ctx lvh] n by (auto simp del: firstInvalid_loop.simps)
    then have "b < nextAddr s" using ancestry_le [OF b(2)] n by simp
    then obtain s1 r1 where r1: "removeNode ctx s (Some b) = Ret (s1, r1)" "shrinks s s1"
      using removeNode_returns [OF assms] by (metis option.inject)
    obtain s2 r2 where r2: "removeNode ctx s (Some node) = Ret (s2, r2)" "shrinks s s2"
      using removeNode_returns [OF assms] n by (metis option.inject)
    show ?thesis using b r1 r2 by (cases e) (auto simp: invalidate_from_def)
  qed
  show ?thesis
    using * wf_lookup [OF assms] by (auto simp: setOptimisticToInvalid_def split: option.split)
qed

text \<open>Validation clears the optimistic flag of some of the block's ancestors and does nothing else.\<close>

definition clear_optimistic :: "addr set \<Rightarrow> Store \<Rightarrow> Store" where
  "clear_optimistic A s = s\<lparr>nodes := (\<lambda>a. if a \<in> A then (nodes s a)\<lparr>n_optimistic := False\<rparr> else nodes s a)\<rparr>"

lemma clear_optimistic_simps [simp]:
  "nextAddr (clear_optimistic A s) = nextAddr s" "nodeByRoot (clear_optimistic A s) = nodeByRoot s"
  "nodes (clear_optimistic A s) a = (if a \<in> A then (nodes s a)\<lparr>n_optimistic := False\<rparr> else nodes s a)"
  "treeRootNode (clear_optimistic A s) = treeRootNode s" "headNode (clear_optimistic A s) = headNode s"
  "cacheAttCount (clear_optimistic A s) = cacheAttCount s" "cacheSlot (clear_optimistic A s) = cacheSlot s"
  "receivedBlocksLastEpoch (clear_optimistic A s) = receivedBlocksLastEpoch s"
  by (simp_all add: clear_optimistic_def)

lemma clear_optimistic_empty [simp]: "clear_optimistic {} s = s"
  by (simp add: clear_optimistic_def)

lemma clear_optimistic_id: "(\<And>a. a \<in> A \<Longrightarrow> \<not> n_optimistic (nodes s a)) \<Longrightarrow> clear_optimistic A s = s"
proof -
  assume "\<And>a. a \<in> A \<Longrightarrow> \<not> n_optimistic (nodes s a)"
  then have "(\<lambda>a. if a \<in> A then (nodes s a)\<lparr>n_optimistic := False\<rparr> else nodes s a) = nodes s"
    by (auto simp: fun_eq_iff)
  then show ?thesis by (simp add: clear_optimistic_def)
qed

lemma upd_clear: "upd_node a (\<lambda>x. x\<lparr>n_optimistic := False\<rparr>) s = clear_optimistic {a} s"
  by (auto simp: clear_optimistic_def upd_node_def fun_eq_iff intro!: Store.equality)

lemma clear_clear: "clear_optimistic A (clear_optimistic B s) = clear_optimistic (A \<union> B) s"
  by (auto simp: clear_optimistic_def fun_eq_iff)

lemma clear_links [simp]:
  "n_parent (nodes (clear_optimistic A s) a) = n_parent (nodes s a)"
  "n_children (nodes (clear_optimistic A s) a) = n_children (nodes s a)"
  "n_target (nodes (clear_optimistic A s) a) = n_target (nodes s a)"
  "n_root (nodes (clear_optimistic A s) a) = n_root (nodes s a)"
  by simp_all

lemma wf_clear_optimistic:
  assumes "wf_store s"
  shows "wf_store (clear_optimistic A s)"
  using assms
  unfolding wf_store_def heap_ok_def node_ok_def index_ok_def anchor_ok_def aux_ok_def
    clear_links clear_optimistic_simps(1,2,4-) .

lemma ancestry_clear [simp]: "ancestry (clear_optimistic A s) c = ancestry s c"
proof (induction s c rule: ancestry.induct)
  case (1 s c)
  then show ?case
    by (subst (1 2) ancestry.simps) (simp only: clear_links split: option.split, simp)
qed

lemma validated_returns:
  assumes "wf_store s" "a < nextAddr s" "a < k"
  shows "\<exists>A e. setNodeAndParentValidated k ctx s a = Ret (clear_optimistic A s, e) \<and> A \<subseteq> set (ancestry s a)"
  using assms
proof (induction k ctx s a rule: setNodeAndParentValidated.induct)
  case (2 k ctx s a)
  let ?s = "clear_optimistic {a} s"
  show ?case
  proof (cases "\<not> ctx (AtNode a) \<and> n_optimistic (nodes s a)")
    case True
    show ?thesis
    proof (cases "n_parent (nodes s a)")
      case None
      then show ?thesis using True by (auto simp: upd_clear Let_def)
    next
      case (Some p)
      then have "p < a" using wf_parent [OF 2(2,3)] by blast
      then have "\<exists>A e. setNodeAndParentValidated k ctx ?s p = Ret (clear_optimistic A ?s, e)
          \<and> A \<subseteq> set (ancestry ?s p)"
        using True Some 2(2-4) wf_clear_optimistic [OF 2(2), of "{a}"]
        by (intro 2(1) [unfolded upd_clear]) auto
      then show ?thesis using True Some ancestry_unfold [OF 2(2,3)]
        by (fastforce simp: upd_clear clear_clear Let_def)
    qed
  next
    case False
    then have "\<exists>e. setNodeAndParentValidated (Suc k) ctx s a = Ret (clear_optimistic {} s, e)" by auto
    then show ?thesis by blast
  qed
qed simp

subsection \<open>Votes and checkpoints\<close>

lemma UpdateVoted_simps [simp]:
  "nodes (UpdateVoted sl r c s) = nodes s" "nextAddr (UpdateVoted sl r c s) = nextAddr s"
  "nodeByRoot (UpdateVoted sl r c s) = nodeByRoot s" "treeRootNode (UpdateVoted sl r c s) = treeRootNode s"
  "headNode (UpdateVoted sl r c s) = headNode s"
  "receivedBlocksLastEpoch (UpdateVoted sl r c s) = receivedBlocksLastEpoch s"
  "justifiedCheckpoint (UpdateVoted sl r c s) = justifiedCheckpoint s"
  "finalizedCheckpoint (UpdateVoted sl r c s) = finalizedCheckpoint s"
  by (simp_all add: UpdateVoted_def Let_def)

lemma UpdateVoted_cache:
  "cacheAttCount (UpdateVoted sl r c s) =
    (let m = (if sl > cacheSlot s then [] else case cacheAttCount s of None \<Rightarrow> [] | Some m \<Rightarrow> m)
     in Some (gm_set r ((case gm_get m r of None \<Rightarrow> 0 | Some k \<Rightarrow> k) + c) m))"
  "cacheSlot (UpdateVoted sl r c s) = (if sl > cacheSlot s \<or> cacheAttCount s = None then sl else cacheSlot s)"
  by (auto simp: UpdateVoted_def Let_def split: option.split)

lemma wf_UpdateVoted:
  assumes "wf_store s"
  shows "wf_store (UpdateVoted sl r c s)"
proof (rule wf_fields [OF assms])
  show "aux_ok (UpdateVoted sl r c s)"
    using wf_storeD(4) [OF assms] by (auto simp: aux_ok_def UpdateVoted_cache Let_def split: option.split)
qed (use wf_head [OF assms] in simp_all)

lemma wf_ProcessAttestation: "wf_store s \<Longrightarrow> wf_store (ProcessAttestation vs r sl s)"
  by (auto simp: ProcessAttestation_def Let_def split: option.split prod.split intro!: wf_UpdateVoted wf_upd_keep)

lemma wf_checkpoints:
  "wf_store s \<Longrightarrow> wf_store (s\<lparr>justifiedCheckpoint := c\<rparr>)"
  "wf_store s \<Longrightarrow> wf_store (s\<lparr>prevJustifiedCheckpoint := c\<rparr>)"
  "wf_store s \<Longrightarrow> wf_store (s\<lparr>finalizedCheckpoint := c\<rparr>)"
  "wf_store s \<Longrightarrow> wf_store (s\<lparr>genesisTime := g\<rparr>)"
  "wf_store s \<Longrightarrow> wf_store (s\<lparr>originRoot := r\<rparr>)"
  by (rule wf_fields, assumption; use wf_storeD(4) [of s] wf_head [of s] in \<open>simp add: aux_ok_def\<close>)+

text \<open>The justified checkpoint after \<^verbatim>\<open>updateCheckpoints\<close>.\<close>
definition justify :: "Checkpoint \<Rightarrow> Store \<Rightarrow> Store" where
  "justify jc s = (if cpEpoch jc > cpEpoch (justifiedCheckpoint s)
     then s\<lparr>prevJustifiedCheckpoint := justifiedCheckpoint s,
            justifiedCheckpoint := \<lparr>cpEpoch = cpEpoch jc, cpRoot = cpRoot jc\<rparr>\<rparr> else s)"

lemma wf_justify: "wf_store s \<Longrightarrow> wf_store (justify jc s)"
  by (simp add: justify_def wf_checkpoints)

lemma updateCheckpoints_eq:
  "updateCheckpoints ctx jc fc s =
    (if cpEpoch fc \<le> cpEpoch (finalizedCheckpoint s) then Ret (justify jc s, None)
     else prune ctx ((justify jc s)\<lparr>finalizedCheckpoint := \<lparr>cpEpoch = cpEpoch fc, cpRoot = cpRoot fc\<rparr>\<rparr>))"
  by (simp add: updateCheckpoints_def justify_def Let_def)

lemma updateCheckpoints_returns:
  assumes "wf_store s"
  obtains s' e where "updateCheckpoints ctx jc fc s = Ret (s', e)" "wf_store s'" "evolves s s'"
    "cpEpoch (justifiedCheckpoint s') = max (cpEpoch (justifiedCheckpoint s)) (cpEpoch jc)"
    "cpEpoch (finalizedCheckpoint s') = max (cpEpoch (finalizedCheckpoint s)) (cpEpoch fc)"
proof -
  let ?j = "justify jc s"
  let ?s = "?j\<lparr>finalizedCheckpoint := \<lparr>cpEpoch = cpEpoch fc, cpRoot = cpRoot fc\<rparr>\<rparr>"
  have j: "cpEpoch (justifiedCheckpoint ?j) = max (cpEpoch (justifiedCheckpoint s)) (cpEpoch jc)"
    "finalizedCheckpoint ?j = finalizedCheckpoint s"
    by (auto simp: justify_def)
  have e: "evolves s ?j" "evolves s ?s" by (auto intro!: evolves_fields simp: justify_def)
  obtain s' e' where p: "prune ctx ?s = Ret (s', e')" "wf_store s'" "nextAddr s' = nextAddr ?s" "evolves ?s s'"
    "justifiedCheckpoint s' = justifiedCheckpoint ?s" "finalizedCheckpoint s' = finalizedCheckpoint ?s"
    by (rule prune_returns [OF wf_checkpoints(3) [OF wf_justify [OF assms]]])
  show ?thesis
  proof (cases "cpEpoch fc \<le> cpEpoch (finalizedCheckpoint s)")
    case True
    then show ?thesis using that [OF _ wf_justify [OF assms] e(1)] j
      by (simp add: updateCheckpoints_eq max_def)
  next
    case False
    then have m: "max (cpEpoch (finalizedCheckpoint s)) (cpEpoch fc) = cpEpoch fc" by simp
    have u: "updateCheckpoints ctx jc fc s = Ret (s', e')" using False p(1) by (simp add: updateCheckpoints_eq)
    show ?thesis
      by (rule that [OF u p(2) evolves_trans [OF e(2) p(4)]]) (use p(5,6) j m in simp_all)
  qed
qed

lemma InsertNode_returns:
  assumes "wf_store s"
  shows "\<exists>s' e. InsertNode iter ctx clk st root s = Ret (s', e) \<and> wf_store s' \<and> evolves s s'"
proof -
  have "\<exists>s' e. obind (insert_node iter ctx clk s (sv_Slot st) root pr ph (cpEpoch jc) (cpEpoch fc))
          (\<lambda>r. case r of (s', _, Some err) \<Rightarrow> Ret (s', Some err)
             | (s', _, None) \<Rightarrow> updateCheckpoints ctx jc fc s') = Ret (s', e) \<and> wf_store s' \<and> evolves s s'" for pr ph jc fc
  proof (rule insert_node_returns [OF assms, of iter ctx clk "sv_Slot st" root pr ph "cpEpoch jc" "cpEpoch fc"])
    fix s' a e assume i: "insert_node iter ctx clk s (sv_Slot st) root pr ph (cpEpoch jc) (cpEpoch fc) = Ret (s', a, e)"
      "wf_store s'" "evolves s s'"
    show ?thesis by (rule updateCheckpoints_returns [OF i(2), of ctx jc fc])
        (use i evolves_trans [OF i(3)] in \<open>cases e; auto\<close>)
  qed
  then show ?thesis using assms by (auto simp: InsertNode_def split: option.split prod.split)
qed

lemma InsertChain_loop_returns:
  assumes "wf_store s"
  shows "\<exists>s' e. InsertChain_loop iter ctx clk chain i s = Ret (s', e) \<and> wf_store s' \<and> evolves s s'"
  using assms
proof (induction i arbitrary: s)
  case (Suc i)
  let ?b = "chain ! Suc i"
  obtain s1 a e where i: "insert_node iter ctx (clk (Suc i)) s (bc_Slot ?b) (bc_ParentRoot (chain ! i)) (bc_ParentRoot ?b)
      (fst (bc_PayloadHash ?b)) (cpEpoch (bc_JustifiedCheckpoint ?b)) (cpEpoch (bc_FinalizedCheckpoint ?b)) = Ret (s1, a, e)"
    "wf_store s1" "evolves s s1" by (rule insert_node_returns [OF Suc.prems])
  obtain s2 e2 where u: "updateCheckpoints ctx (bc_JustifiedCheckpoint ?b) (bc_FinalizedCheckpoint ?b) s1 = Ret (s2, e2)"
    "wf_store s2" "evolves s1 s2" by (rule updateCheckpoints_returns [OF i(2)])
  have e: "evolves s s2" by (rule evolves_trans [OF i(3) u(3)])
  show ?case using Suc.IH [OF u(2)] i u Suc.prems e evolves_trans [OF e]
    by (cases "bc_PayloadHash ?b"; cases "snd (bc_PayloadHash ?b)"; cases e; cases e2) (auto simp: Let_def)
qed simp

lemma InsertChain_returns:
  "wf_store s \<Longrightarrow> \<exists>s' e. InsertChain iter ctx clk chain s = Ret (s', e) \<and> wf_store s' \<and> evolves s s'"
  using InsertChain_loop_returns by (simp add: InsertChain_def)

end
