(* ===== verification/ForkMachine.thy ===== *)
theory ForkMachine
  imports ForkInvariant
begin

text \<open>
  The fork choice as a state machine: one rule per exported operation that writes the store, run
  from the empty store of \<^verbatim>\<open>New\<close>. Reachable stores are well formed, blocks never change once
  inserted, and a validated block stays validated.
\<close>

text \<open>
  \<open>adm\<close> says which contexts callers pass: every context, or only contexts that are never
  cancelled.
\<close>
inductive fc_step :: "(ctxt \<Rightarrow> bool) \<Rightarrow> Store \<Rightarrow> Store \<Rightarrow> bool" for adm :: "ctxt \<Rightarrow> bool" where
  head_step: "iter_ok iter \<Longrightarrow> adm ctx \<Longrightarrow> Head iter ctx now elapsed s = Ret (t, r) \<Longrightarrow> fc_step adm s t"
| vote_step: "t = ProcessAttestation vs r sl s \<Longrightarrow> fc_step adm s t"
| insert_step: "iter_ok iter \<Longrightarrow> adm ctx \<Longrightarrow> InsertNode iter ctx clk st root s = Ret (t, e) \<Longrightarrow> fc_step adm s t"
| chain_step: "iter_ok iter \<Longrightarrow> adm ctx \<Longrightarrow> InsertChain iter ctx ck bs s = Ret (t, e) \<Longrightarrow> fc_step adm s t"
| valid_step: "adm ctx \<Longrightarrow> SetOptimisticToValid ctx root s = Ret (t, e) \<Longrightarrow> fc_step adm s t"
| invalid_step: "adm ctx \<Longrightarrow> SetOptimisticToInvalid ctx root pr lvh s = Ret (t, x) \<Longrightarrow> fc_step adm s t"
| justified_step: "UpdateJustifiedCheckpoint c s = (t, e) \<Longrightarrow> fc_step adm s t"
| finalized_step: "UpdateFinalizedCheckpoint c s = (t, e) \<Longrightarrow> fc_step adm s t"
| slot_step: "adm ctx \<Longrightarrow> NewSlot ctx sl s = Ret (t, e) \<Longrightarrow> fc_step adm s t"
| genesis_step: "t = SetGenesisTime g s \<Longrightarrow> fc_step adm s t"
| origin_step: "t = SetOriginRoot root s \<Longrightarrow> fc_step adm s t"
| slashed_step: "t = InsertSlashedIndex i s \<Longrightarrow> fc_step adm s t"

definition any_ctx :: "ctxt \<Rightarrow> bool" where "any_ctx ctx \<longleftrightarrow> True"
definition live_ctx :: "ctxt \<Rightarrow> bool" where "live_ctx ctx \<longleftrightarrow> ctx = background"

definition fc_init :: "Store \<Rightarrow> bool" where "fc_init s \<longleftrightarrow> s = New_store"

abbreviation fc_reach :: "Store \<Rightarrow> bool" where "fc_reach \<equiv> reach fc_init (fc_step any_ctx)"
abbreviation fc_reach_live :: "Store \<Rightarrow> bool" where "fc_reach_live \<equiv> reach fc_init (fc_step live_ctx)"

subsection \<open>Well-formedness\<close>

lemma Ret_fst_eq: "\<exists>s' e. m = Ret (s', e) \<and> P s' \<Longrightarrow> m = Ret (t, x) \<Longrightarrow> P t"
  by auto

lemma wf_SetOptimisticToValid:
  assumes "wf_store s"
  shows "\<exists>A e. SetOptimisticToValid ctx root s = Ret (clear_optimistic A s, e)"
proof (cases "gm_get (nodeByRoot s) root")
  case (Some a)
  then have "a < nextAddr s" using wf_lookup [OF assms] by blast
  then show ?thesis using Some validated_returns [OF assms, of a "Suc (nextAddr s)" ctx]
    by (auto simp: SetOptimisticToValid_def simp del: setNodeAndParentValidated.simps)
qed (auto simp: SetOptimisticToValid_def intro!: exI [of _ "{}"])

lemma wf_SetOptimisticToInvalid:
  assumes "wf_store s" "SetOptimisticToInvalid ctx root pr lvh s = Ret (t, x)"
  shows "shrinks s t"
  using setOptimisticToInvalid_cases [OF assms(1), of ctx root pr lvh] assms(2)
  by (auto simp: SetOptimisticToInvalid_def)

lemma wf_prune: "wf_store s \<Longrightarrow> prune ctx s = Ret (t, e) \<Longrightarrow> wf_store t"
  using prune_returns [of s ctx] by (metis outcome.inject prod.inject)

lemma fc_step_wf: "fc_step adm s t \<Longrightarrow> wf_store s \<Longrightarrow> wf_store t"
proof (induction rule: fc_step.induct)
  case (insert_step iter ctx clk st root s t e)
  then show ?case using Ret_fst_eq [OF InsertNode_returns] by blast
next
  case (chain_step iter ctx ck bs s t e)
  then show ?case using Ret_fst_eq [OF InsertChain_returns] by blast
next
  case (valid_step ctx root s t e)
  then show ?case using wf_SetOptimisticToValid [of s ctx root] by (auto intro: wf_clear_optimistic)
next
  case (invalid_step ctx root pr lvh s t x)
  then show ?case using wf_SetOptimisticToInvalid wf_shrinks by blast
next
  case (slot_step ctx sl s t e)
  then show ?case by (auto simp: NewSlot_def split: if_splits intro: wf_prune)
qed (auto simp: UpdateJustifiedCheckpoint_def UpdateFinalizedCheckpoint_def SetGenesisTime_def
    SetOriginRoot_def InsertSlashedIndex_def wf_checkpoints wf_ProcessAttestation
    split: option.splits intro: wf_Head)

interpretation fc_wf: step_invariant fc_init "fc_step adm" "\<lambda>_. True" wf_store for adm
  by unfold_locales (auto simp: fc_init_def wf_New intro: fc_step_wf)

lemmas reach_wf = fc_wf.reach_inv

subsection \<open>Blocks never change\<close>

lemma updateBestDescendant_evolves:
  assumes "wf_store s" "updateBestDescendant iter ctx s je fe ce = Ret (t, e)"
  shows "evolves s t"
proof -
  have "treeRootNode s \<noteq> None \<or> t = s" using assms(2)
    by (auto simp: updateBestDescendant_def split: if_splits option.splits)
  then show ?thesis
    using assms by (elim disjE updateBestDescendant_cases [OF assms(1), of iter ctx je fe ce])
      (auto intro: evolves_fields)
qed

lemma Head_evolves:
  assumes "wf_store s" "Head iter ctx now el s = Ret (t, r)"
  shows "evolves s t"
proof -
  obtain s1 e where u: "updateBestDescendant iter ctx s (cpEpoch (justifiedCheckpoint s))
      (cpEpoch (finalizedCheckpoint s)) (EpochsSinceGenesis (time_Unix (genesisTime s)) now el) = Ret (s1, e)"
    using assms(2) by (auto simp: Head_def Let_def go_simps)
  have "evolves s1 t" using assms(2) u
    by (auto simp: Head_def Let_def head_def split: option.splits if_splits intro: evolves_fields)
  then show ?thesis using updateBestDescendant_evolves [OF assms(1) u] evolves_trans by blast
qed

lemma fc_step_cases:
  assumes "fc_step adm s t" "wf_store s"
  obtains (evolves) "evolves s t" | (vote) vs r sl where "t = ProcessAttestation vs r sl s"
    | (valid) ctx root e where "adm ctx" "SetOptimisticToValid ctx root s = Ret (t, e)"
  using assms
proof (induction rule: fc_step.induct)
  case (insert_step iter ctx clk st root s t e)
  then show ?case using Ret_fst_eq [OF InsertNode_returns] by blast
next
  case (chain_step iter ctx ck bs s t e)
  then show ?case using Ret_fst_eq [OF InsertChain_returns] by blast
next
  case (invalid_step ctx root pr lvh s t x)
  then show ?case using wf_SetOptimisticToInvalid shrinks_evolves by blast
next
  case (slot_step ctx sl s t e)
  then show ?case using prune_returns [of s ctx] evolves_refl
    by (cases "IsEpochStart sl") (simp add: NewSlot_def, metis outcome.inject prod.inject, simp add: NewSlot_def)
next
  case (head_step iter ctx now elapsed s t r)
  then show ?case using Head_evolves by blast
qed (auto simp: UpdateJustifiedCheckpoint_def UpdateFinalizedCheckpoint_def SetGenesisTime_def
    SetOriginRoot_def InsertSlashedIndex_def evolves_fields split: option.splits)

subsection \<open>Votes\<close>

definition voters :: "Node \<Rightarrow> u64 set" where
  "voters n = (case n_validatorIndices n of None \<Rightarrow> {} | Some m \<Rightarrow> {v. gm_get m v = Some True})"

text \<open>All votes ever recorded for a root: over the heap, the validators of each node with that root, nodes removed from the maps included.\<close>
definition recorded :: "Store \<Rightarrow> root32 \<Rightarrow> nat" where
  "recorded s r = (\<Sum>a\<in>{a. a < nextAddr s \<and> n_root (nodes s a) = r}. card (voters (nodes s a)))"

definition votes_ok :: "Store \<Rightarrow> bool" where
  "votes_ok s \<longleftrightarrow> (\<forall>m r c. cacheAttCount s = Some m \<longrightarrow> gm_get m r = Some c \<longrightarrow> 0 \<le> c \<and> c \<le> int (recorded s r))"

lemma finite_true_keys: "finite {v. gm_get m v = Some True}"
  by (rule finite_subset [OF _ gm.keys_finite [of m]]) (auto simp: gm.keys_get)

lemma finite_voters [simp]: "finite (voters n)"
  by (simp add: voters_def finite_true_keys split: option.split)

lemma new_indices_spec:
  assumes "new_indices m acc is = (m', new)"
  shows "{v. gm_get m' v = Some True} = {v. gm_get m v = Some True} \<union> set is"
    and "length new = length acc + card (set is - {v. gm_get m v = Some True})"
  using assms
proof (induction m acc "is" arbitrary: m' new rule: new_indices.induct)
  case (2 m acc i js)
  let ?S = "\<lambda>m. {v. gm_get m v = Some True}"
  have S: "?S (gm_set i True m) = insert i (?S m)" by auto
  { case 1
    then show ?case using 2 S by (auto split: if_splits)
  next
    case 2
    show ?case
    proof (cases "gm_get m i = Some True")
      case True
      then have "set (i # js) - ?S m = set js - ?S m" by auto
      then show ?thesis using True "2.IH"(2) "2.prems" 2 by simp
    next
      case False
      then have "set (i # js) - ?S m = insert i (set js - ?S (gm_set i True m))" by auto
      moreover have "i \<notin> set js - ?S (gm_set i True m)" by simp
      moreover have "length new = length (acc @ [i]) + card (set js - ?S (gm_set i True m))"
        using False 2 "2.IH"(4) by simp
      ultimately show ?thesis by simp
    qed }
qed simp_all

lemma card_Un_new: "finite A \<Longrightarrow> finite B \<Longrightarrow> card (A \<union> B) = card A + card (B - A)"
  by (metis Un_Diff_cancel card_Un_disjoint Diff_disjoint finite_Diff)

text \<open>The count a cache holds for a root; an absent entry reads as zero, as in Go.\<close>
definition cached :: "Store \<Rightarrow> root32 \<Rightarrow> int" where
  "cached s r = (case cacheAttCount s of None \<Rightarrow> 0
     | Some m \<Rightarrow> (case gm_get m r of None \<Rightarrow> 0 | Some c \<Rightarrow> c))"

lemma ProcessAttestation_eq:
  assumes "gm_get (nodeByRoot s) r = Some a"
  obtains m' where "ProcessAttestation vs r sl s =
      UpdateVoted sl r (int (card (set vs - voters (nodes s a))))
        (upd_node a (\<lambda>x. x\<lparr>n_validatorIndices := Some m'\<rparr>) s)"
    "{v. gm_get m' v = Some True} = voters (nodes s a) \<union> set vs"
proof -
  let ?m = "case n_validatorIndices (nodes s a) of None \<Rightarrow> [] | Some m \<Rightarrow> m"
  obtain m' new where n: "new_indices ?m [] vs = (m', new)" by force
  have v: "voters (nodes s a) = {v. gm_get ?m v = Some True}"
    by (simp add: voters_def split: option.split)
  show ?thesis
  proof (rule that)
    show "ProcessAttestation vs r sl s =
      UpdateVoted sl r (int (card (set vs - voters (nodes s a))))
        (upd_node a (\<lambda>x. x\<lparr>n_validatorIndices := Some m'\<rparr>) s)"
      using assms n new_indices_spec(2) [OF n] by (simp add: ProcessAttestation_def v)
  qed (use new_indices_spec(1) [OF n] v in simp)
qed

lemma ProcessAttestation_nodes:
  assumes "gm_get (nodeByRoot s) r = Some a"
  shows "voters (nodes (ProcessAttestation vs r sl s) a) = voters (nodes s a) \<union> set vs"
    and "b \<noteq> a \<Longrightarrow> nodes (ProcessAttestation vs r sl s) b = nodes s b"
    and "same_block (nodes (ProcessAttestation vs r sl s) b) (nodes s b)"
  by (rule ProcessAttestation_eq [OF assms, of vs sl]; simp add: voters_def same_block_def)+

lemma ProcessAttestation_unknown:
  "gm_get (nodeByRoot s) r = None \<Longrightarrow> ProcessAttestation vs r sl s = s"
  by (simp add: ProcessAttestation_def)

lemma ProcessAttestation_fields [simp]:
  "nextAddr (ProcessAttestation vs r sl s) = nextAddr s"
  "nodeByRoot (ProcessAttestation vs r sl s) = nodeByRoot s"
  "headNode (ProcessAttestation vs r sl s) = headNode s"
  "treeRootNode (ProcessAttestation vs r sl s) = treeRootNode s"
  by (simp_all add: ProcessAttestation_def Let_def split: option.split prod.split)

lemma UpdateVoted_cached:
  "cached (UpdateVoted sl r c s) r' =
    (if sl > cacheSlot s then 0 else cached s r') + (if r' = r then c else 0)"
  by (auto simp: cached_def UpdateVoted_cache Let_def split: option.split)

lemma cached_upd_node [simp]: "cached (upd_node a f s) r = cached s r"
  by (simp add: cached_def)

lemma ProcessAttestation_cached:
  assumes "gm_get (nodeByRoot s) r = Some a"
  shows "cached (ProcessAttestation vs r sl s) r' =
    (if sl > cacheSlot s then 0 else cached s r')
    + (if r' = r then int (card (set vs - voters (nodes s a))) else 0)"
  by (rule ProcessAttestation_eq [OF assms, of vs sl]) (simp add: UpdateVoted_cached)

lemma recorded_vote:
  assumes "wf_store s" "gm_get (nodeByRoot s) r = Some a"
  shows "recorded (ProcessAttestation vs r sl s) r'
    = recorded s r' + (if r' = r then card (set vs - voters (nodes s a)) else 0)"
proof -
  let ?t = "ProcessAttestation vs r sl s"
  let ?A = "\<lambda>s. {b. b < nextAddr s \<and> n_root (nodes s b) = r'}"
  note nd = ProcessAttestation_nodes [where vs = vs and sl = sl, OF assms(2)]
  have A: "?A ?t = ?A s" using nd(3) by (auto simp: same_block_def)
  have fin: "finite (?A s)" by (rule finite_subset [of _ "{..<nextAddr s}"]) auto
  have a: "a \<in> ?A s \<longleftrightarrow> r' = r" using wf_lookup [OF assms] wf_lookup_root [OF assms] by auto
  have rest: "(\<Sum>b\<in>?A s - {a}. card (voters (nodes ?t b))) = (\<Sum>b\<in>?A s - {a}. card (voters (nodes s b)))"
    by (rule sum.cong) (auto simp: nd(2))
  show ?thesis
  proof (cases "r' = r")
    case True
    then have "a \<in> ?A s" using a by simp
    then show ?thesis unfolding recorded_def A
      using True sum.remove [OF fin, of a "\<lambda>b. card (voters (nodes ?t b))"]
        sum.remove [OF fin, of a "\<lambda>b. card (voters (nodes s b))"] rest
      by (simp add: nd(1) card_Un_new)
  next
    case False
    then have "?A s - {a} = ?A s" using a by auto
    then show ?thesis unfolding recorded_def A using False rest by simp
  qed
qed

lemma recorded_evolves: "evolves s t \<Longrightarrow> recorded s r \<le> recorded t r"
proof -
  assume e: "evolves s t"
  have r: "n_root (nodes t a) = n_root (nodes s a)" and v: "voters (nodes t a) = voters (nodes s a)"
    if "a < nextAddr s" for a
    using e that by (simp_all add: evolves_def same_block_def voters_def)
  have "recorded s r = (\<Sum>a\<in>{a. a < nextAddr s \<and> n_root (nodes s a) = r}. card (voters (nodes t a)))"
    unfolding recorded_def by (rule sum.cong) (auto simp: v)
  also have "\<dots> \<le> recorded t r" unfolding recorded_def
  proof (rule sum_mono2)
    show "finite {a. a < nextAddr t \<and> n_root (nodes t a) = r}"
      by (rule finite_subset [of _ "{..<nextAddr t}"]) auto
    show "{a. a < nextAddr s \<and> n_root (nodes s a) = r} \<subseteq> {a. a < nextAddr t \<and> n_root (nodes t a) = r}"
      using e r by (auto simp: evolves_def)
  qed simp
  finally show ?thesis .
qed

lemma votes_ok_cached: "votes_ok s \<Longrightarrow> 0 \<le> cached s r \<and> cached s r \<le> int (recorded s r)"
  unfolding votes_ok_def cached_def by (auto split: option.split)

lemma votes_okI: "(\<And>r. 0 \<le> cached s r \<and> cached s r \<le> int (recorded s r)) \<Longrightarrow> votes_ok s"
  unfolding votes_ok_def cached_def by (metis option.simps(5))

lemma votes_ok_step:
  assumes "wf_store s" "votes_ok s" "fc_step adm s t"
  shows "votes_ok t"
  using assms(3,1)
proof (cases rule: fc_step_cases)
  case evolves
  then have "cached t r = cached s r" for r by (simp add: evolves_def cached_def)
  then show ?thesis
    using votes_ok_cached [OF assms(2)] recorded_evolves [OF evolves]
    by (intro votes_okI) (metis of_nat_mono order_trans)
next
  case (vote vs r sl)
  show ?thesis
  proof (cases "gm_get (nodeByRoot s) r")
    case (Some a)
    then show ?thesis unfolding vote
      using votes_ok_cached [OF assms(2)]
      by (intro votes_okI) (simp add: ProcessAttestation_cached recorded_vote [OF assms(1)] add_mono)
  qed (use assms vote ProcessAttestation_unknown in simp)
next
  case (valid ctx root e)
  then obtain A where t: "t = clear_optimistic A s"
    using wf_SetOptimisticToValid [OF assms(1), of ctx root] by auto
  have "voters (nodes t a) = voters (nodes s a)" for a by (simp add: t voters_def)
  then have "recorded t r = recorded s r" for r unfolding recorded_def by (simp add: t)
  then show ?thesis using assms(2) by (simp add: votes_ok_def t)
qed

interpretation fc_votes: step_invariant fc_init "fc_step adm" wf_store votes_ok for adm
proof
  show "votes_ok s" if "fc_init s" for s using that by (simp add: fc_init_def New_store_def votes_ok_def)
qed (fact reach_wf votes_ok_step)+

subsection \<open>Optimistic status\<close>

text \<open>The parent of a valid block is valid.\<close>
definition opt_ok :: "Store \<Rightarrow> bool" where
  "opt_ok s \<longleftrightarrow> (\<forall>a<nextAddr s. \<forall>p. n_parent (nodes s a) = Some p \<longrightarrow> \<not> n_optimistic (nodes s a)
     \<longrightarrow> \<not> n_optimistic (nodes s p))"

lemma opt_ok_ancestors:
  assumes "wf_store s" "opt_ok s" "a < nextAddr s" "\<not> n_optimistic (nodes s a)" "b \<in> set (ancestry s a)"
  shows "\<not> n_optimistic (nodes s b)"
  using assms(3-5)
proof (induction a rule: less_induct)
  case (less a)
  show ?case
  proof (cases "n_parent (nodes s a)")
    case None
    then show ?thesis using less ancestry_unfold [OF assms(1) less(2)] by simp
  next
    case (Some p)
    then have p: "p < a" using wf_parent [OF assms(1) less(2)] by blast
    have "\<not> n_optimistic (nodes s p)" using assms(2) less(2,3) Some by (auto simp: opt_ok_def)
    then show ?thesis using less p Some ancestry_unfold [OF assms(1) less(2)] by auto
  qed
qed

lemma validated_exact:
  assumes "wf_store s" "a < nextAddr s" "a < k" "\<And>x. \<not> ctx x"
    and "\<And>b c. b \<in> set (ancestry s a) \<Longrightarrow> \<not> n_optimistic (nodes s b) \<Longrightarrow> c \<in> set (ancestry s b) \<Longrightarrow> \<not> n_optimistic (nodes s c)"
  shows "setNodeAndParentValidated k ctx s a = Ret (clear_optimistic (set (ancestry s a)) s, None)"
  using assms
proof (induction k ctx s a rule: setNodeAndParentValidated.induct)
  case (2 k ctx s a)
  note unf = ancestry_unfold [OF 2(2,3)]
  show ?case
  proof (cases "n_optimistic (nodes s a)")
    case False
    then have "clear_optimistic (set (ancestry s a)) s = s"
      using 2(6) [of a] by (intro clear_optimistic_id) simp
    then show ?thesis using False 2(5) by simp
  next
    case True
    show ?thesis
    proof (cases "n_parent (nodes s a)")
      case None
      then show ?thesis using True 2(5) unf by (simp add: upd_clear Let_def)
    next
      case (Some p)
      then have p: "p < a" using wf_parent [OF 2(2,3)] by blast
      let ?s = "clear_optimistic {a} s"
      have old: "c \<noteq> a" if "c \<in> set (ancestry s b)" "b \<in> set (ancestry s p)" for b c
        using ancestry_le [OF that(1)] ancestry_le [OF that(2)] p by simp
      have "setNodeAndParentValidated k ctx ?s p = Ret (clear_optimistic (set (ancestry ?s p)) ?s, None)"
      proof (rule 2(1) [unfolded upd_clear])
        fix b c assume b: "b \<in> set (ancestry ?s p)" "\<not> n_optimistic (nodes ?s b)" "c \<in> set (ancestry ?s b)"
        then have "b \<noteq> a" "c \<noteq> a" using old [of b b] old [of c b] by auto
        then show "\<not> n_optimistic (nodes ?s c)" using b 2(6) [of b c] unf Some by auto
      qed (use True Some p 2 wf_clear_optimistic in auto)
      moreover have "setNodeAndParentValidated (Suc k) ctx s a = setNodeAndParentValidated k ctx ?s p"
        using True Some 2(5) [of "AtNode a"] by (simp add: upd_clear Let_def)
      ultimately show ?thesis using unf Some by (simp add: clear_clear)
    qed
  qed
qed simp

lemma SetOptimisticToValid_exact:
  assumes "wf_store s" "opt_ok s" "gm_get (nodeByRoot s) root = Some a"
  shows "SetOptimisticToValid background root s = Ret (clear_optimistic (set (ancestry s a)) s, None)"
proof -
  have a: "a < nextAddr s" by (rule wf_lookup [OF assms(1,3)])
  then have "setNodeAndParentValidated (Suc (nextAddr s)) background s a
      = Ret (clear_optimistic (set (ancestry s a)) s, None)"
    by (intro validated_exact [OF assms(1)])
      (auto simp: background_def dest: opt_ok_ancestors [OF assms(1,2) order_le_less_trans [OF ancestry_le]])
  then show ?thesis using assms(3) by (simp add: SetOptimisticToValid_def del: setNodeAndParentValidated.simps)
qed

lemma ancestry_closed:
  assumes "wf_store s" "a < nextAddr s" "b \<in> set (ancestry s a)" "n_parent (nodes s b) = Some p"
  shows "p \<in> set (ancestry s a)"
  using assms(2,3)
proof (induction a rule: less_induct)
  case (less a)
  note unf = ancestry_unfold [OF assms(1) less(2)]
  show ?case
  proof (cases "b = a")
    case False
    then obtain q where q: "n_parent (nodes s a) = Some q" "b \<in> set (ancestry s q)"
      using less(3) unf by (cases "n_parent (nodes s a)") auto
    then show ?thesis using less wf_parent [OF assms(1) less(2) q(1)] unf by auto
  qed (use unf assms(4) in simp)
qed

lemma opt_ok_step:
  assumes "wf_store s" "opt_ok s" "fc_step live_ctx s t"
  shows "opt_ok t"
  using assms(3,1)
proof (cases rule: fc_step_cases)
  case evolves
  show ?thesis unfolding opt_ok_def
  proof (intro allI impI)
    fix a p assume a: "a < nextAddr t" "n_parent (nodes t a) = Some p" "\<not> n_optimistic (nodes t a)"
    then have l: "a < nextAddr s" using evolves unfolding evolves_def fresh_node_def by (meson linorder_not_le)
    then have "n_parent (nodes s a) = Some p" "\<not> n_optimistic (nodes s a)"
      using evolves a unfolding evolves_def by auto
    moreover from this have "p < nextAddr s" using wf_parent [OF assms(1) l] l by fastforce
    ultimately show "\<not> n_optimistic (nodes t p)"
      using assms(2) l evolves unfolding opt_ok_def evolves_def by auto
  qed
next
  case (vote vs r sl)
  have "n_optimistic (nodes t a) = n_optimistic (nodes s a) \<and> n_parent (nodes t a) = n_parent (nodes s a)" for a
    by (simp add: vote ProcessAttestation_def Let_def split: option.split prod.split)
  then show ?thesis using assms(2) by (simp add: opt_ok_def vote)
next
  case (valid ctx root e)
  show ?thesis
  proof (cases "gm_get (nodeByRoot s) root")
    case None
    then show ?thesis using valid assms(2) by (simp add: SetOptimisticToValid_def)
  next
    case (Some a)
    then have t: "t = clear_optimistic (set (ancestry s a)) s"
      using SetOptimisticToValid_exact [OF assms(1,2) Some] valid by (simp add: live_ctx_def)
    show ?thesis using assms(2) ancestry_closed [OF assms(1) wf_lookup [OF assms(1) Some]]
      by (auto simp: opt_ok_def t)
  qed
qed

interpretation fc_opt: step_invariant fc_init "fc_step live_ctx" wf_store opt_ok
proof
  show "opt_ok s" if "fc_init s" for s using that by (simp add: fc_init_def New_store_def opt_ok_def)
qed (fact reach_wf opt_ok_step)+

end
