(* ===== verification/ForkDemo.thy ===== *)
theory ForkDemo
  imports ForkMachine
begin

text \<open>
  Small stores, built by insertions into the empty store, on which the properties of the fork
  choice are evaluated.
\<close>

definition grow :: "Store \<Rightarrow> Slot \<Rightarrow> root32 \<Rightarrow> root32 \<Rightarrow> Store" where
  "grow s slot root parent =
    (case insert_node (map fst) background (\<lambda>_. 1000) s slot root parent root 0 0 of
       Ret (t, _) \<Rightarrow> t | _ \<Rightarrow> s)"

text \<open>A genesis block with two children of the same slot.\<close>
definition fork_store :: Store where
  "fork_store = grow (grow (grow New_store 0 1 0) 1 2 1) 1 3 1"

text \<open>A genesis block, a child with 300 cached votes and a grandchild.\<close>
definition line_store :: Store where
  "line_store = grow ((grow (grow New_store 0 1 0) 1 2 1)\<lparr>cacheAttCount := Some [(2, 300)], cacheSlot := 1\<rparr>) 2 3 2"

lemma wf_grow: "wf_store s \<Longrightarrow> wf_store (grow s sl r p)"
  by (auto simp: grow_def split: outcome.split intro: wf_insert_node)

lemma wf_fork_store: "wf_store fork_store"
  by (simp add: fork_store_def wf_grow wf_New)

lemma wf_votes: "wf_store s \<Longrightarrow> gm_ok m \<Longrightarrow> wf_store (s\<lparr>cacheAttCount := Some m, cacheSlot := sl\<rparr>)"
  by (rule wf_fields, assumption) (use wf_storeD(4) [of s] wf_head [of s] in \<open>auto simp: aux_ok_def\<close>)

lemma wf_line_store: "wf_store line_store"
  unfolding line_store_def by (intro wf_grow wf_votes wf_New) (simp add: gm_ok_def)

lemma iter_ok_fst: "iter_ok (map fst)"
  by (auto simp: iter_ok_def gm_order_def gm_ok_def gm_keys_def)

lemma iter_ok_rev: "iter_ok (\<lambda>m. rev (map fst m))"
  by (auto simp: iter_ok_def gm_order_def gm_ok_def gm_keys_def)

lemma fork_store_facts:
  "nextAddr fork_store = 3" "treeRootNode fork_store = Some 0" "n_children (nodes fork_store 0) = [1, 2]"
  "headNode fork_store = Some 1" "gm_get (nodeByRoot fork_store) 1 = Some 0"
  "gm_get (nodeByRoot fork_store) 2 = Some 1" "gm_get (nodeByRoot fork_store) 3 = Some 2"
  by code_simp+

lemma line_store_facts:
  "nextAddr line_store = 3" "treeRootNode line_store = Some 0" "n_children (nodes line_store 0) = [1]"
  "n_children (nodes line_store 1) = [2]" "nodeByRoot line_store = [(1, 0), (2, 1), (3, 2)]"
  "headNode line_store = Some 2" "gm_get (nodeByRoot line_store) 1 = Some 0"
  "gm_get (nodeByRoot line_store) 2 = Some 1" "gm_get (nodeByRoot line_store) 3 = Some 2"
  by code_simp+

end
