(* ===== verification/ForkHead.thy ===== *)
theory ForkHead
  imports ForkDemo
begin

text \<open>
  The choice of the head: \<^verbatim>\<open>updateBestDescendant\<close> picks, among the leaves that are stable and
  viable for the justified epoch, one of greatest depth and, at equal depth, of greatest slot.
\<close>

subsection \<open>Candidates and their order\<close>

definition candidate :: "Store \<Rightarrow> Epoch \<Rightarrow> addr \<Rightarrow> bool" where
  "candidate s je a \<longleftrightarrow> gm_get (nodeByRoot s) (n_root (nodes s a)) = Some a
     \<and> n_children (nodes s a) = [] \<and> n_stabled (nodes s a)
     \<and> (je = n_justifiedEpoch (nodes s a) \<or> je = 0)"

definition rank_le :: "Store \<Rightarrow> addr \<Rightarrow> addr \<Rightarrow> bool" where
  "rank_le s a b \<longleftrightarrow> height s a < height s b
     \<or> height s a = height s b \<and> n_slot (nodes s a) \<le> n_slot (nodes s b)"

lemma rank_le_refl [simp]: "rank_le s a a"
  by (simp add: rank_le_def)

lemma rank_le_trans: "rank_le s a b \<Longrightarrow> rank_le s b c \<Longrightarrow> rank_le s a c"
  by (auto simp: rank_le_def)

lemma rank_le_linear: "rank_le s a b \<or> rank_le s b a"
  by (auto simp: rank_le_def)

lemma height_word:
  assumes "wf_store s" "nextAddr s \<le> 2 ^ 64" "a < nextAddr s"
  shows "unat (of_nat (height s a) :: u64) = height s a"
proof -
  have "height s a < 2 ^ 64" using height_lt [OF assms(1,3)] assms(2) by linarith
  then show ?thesis by (simp add: unat_of_nat)
qed

lemma better_rank:
  assumes "wf_store s" "nextAddr s \<le> 2 ^ 64" "a < nextAddr s" "b < nextAddr s"
  shows "better s a b \<longleftrightarrow> \<not> rank_le s a b"
  using height_word [OF assms(1,2,3)] height_word [OF assms(1,2,4)]
  unfolding better_def rank_le_def by (auto simp: word_less_nat_alt word_unat_eq_iff not_le)

lemma foldl_pick_max:
  assumes "wf_store s" "nextAddr s \<le> 2 ^ 64" "m < nextAddr s" "\<And>n. n \<in> set ns \<Longrightarrow> n < nextAddr s"
    "b \<in> insert m (set ns)"
  shows "rank_le s b (foldl (pick s) m ns)"
  using assms(3-5)
proof (induction ns arbitrary: m b)
  case (Cons n ns)
  let ?p = "pick s m n"
  have p: "?p < nextAddr s" "rank_le s m ?p" "rank_le s n ?p"
    using Cons.prems better_rank [OF assms(1,2), of n m] rank_le_linear by (auto simp: pick_def)
  have ih: "rank_le s x (foldl (pick s) ?p ns)" if "x \<in> insert ?p (set ns)" for x
    using Cons.IH [OF p(1) _ that] Cons.prems(2) by simp
  have "rank_le s m (foldl (pick s) ?p ns)" "rank_le s n (foldl (pick s) ?p ns)"
    using p(2,3) ih [of ?p] rank_le_trans by blast+
  then show ?case using Cons.prems(3) ih by auto
qed simp

lemma tips_iff:
  assumes "wf_store s" "iter_ok iter"
  shows "r \<in> set (fst (tips iter s)) \<longleftrightarrow> (\<exists>a. gm_get (nodeByRoot s) r = Some a \<and> n_children (nodes s a) = [])"
proof -
  have "gm_order (nodeByRoot s) (iter (nodeByRoot s))"
    using assms by (simp add: iter_ok_def wf_store_def index_ok_def)
  from gm_order_get [OF this, of r] show ?thesis
    by (auto simp: tips_def Let_def split: option.splits)
qed

lemma filter_tips_candidates:
  assumes "wf_store s" "iter_ok iter"
  shows "a \<in> set (filter_tips s je ce (fst (tips iter s))) \<longleftrightarrow> candidate s je a"
proof -
  have "(\<exists>r\<in>set (fst (tips iter s)). gm_get (nodeByRoot s) r = Some a)
      \<longleftrightarrow> gm_get (nodeByRoot s) (n_root (nodes s a)) = Some a \<and> n_children (nodes s a) = []"
    using tips_iff [OF assms] wf_lookup_root [OF assms(1)] by (metis option.inject)
  then show ?thesis unfolding filter_tips_iff candidate_def viableForHead_def by blast
qed

lemma updateBestDescendant_choice:
  assumes "wf_store s" "iter_ok iter" "nextAddr s \<le> 2 ^ 64" "\<not> ctx AtUpdateBest"
    "treeRootNode s = Some t" "n_children (nodes s t) \<noteq> []"
  obtains h where "updateBestDescendant iter ctx s je fe ce = Ret (s\<lparr>headNode := h\<rparr>, None)"
    "h = None \<Longrightarrow> \<forall>a. \<not> candidate s je a"
    "\<And>b. h = Some b \<Longrightarrow> candidate s je b \<and> (\<forall>a. candidate s je a \<longrightarrow> rank_le s a b)"
proof -
  let ?f = "filter_tips s je ce (fst (tips iter s))"
  have lt: "n < nextAddr s" if "n \<in> set ?f" for n by (rule filter_tips_lt [OF assms(1) that])
  show ?thesis
  proof (rule that [OF updateBestDescendant_eq [where ctx = ctx, OF assms(1,4,5)]], goal_cases)
    case 1
    then have "?f = []" using assms(6) by (auto split: if_splits list.splits)
    then show ?case using filter_tips_candidates [OF assms(1,2), of _ je ce] by simp
  next
    case (2 b)
    then obtain m ms where f: "?f = m # ms" "b = foldl (pick s) m (m # ms)"
      using assms(6) by (auto split: if_splits list.splits simp del: foldl.simps)
    have "b \<in> set ?f" using f foldl_pick_in [of s m "m # ms"] by auto
    moreover have "rank_le s a b" if "a \<in> set ?f" for a
      unfolding f(2) using that f(1) lt by (intro foldl_pick_max [OF assms(1,3)]) auto
    ultimately show ?case using filter_tips_candidates [OF assms(1,2), of _ je ce] by blast
  qed
qed

subsection \<open>Properties of the head\<close>



text \<open>
  When no two distinct candidates share depth and slot, the head does not depend on the order
  in which Go ranges over the node map.
\<close>
theorem updateBestDescendant_deterministic:
  assumes "wf_store s" "iter_ok iter" "iter_ok iter'" "nextAddr s \<le> 2 ^ 64" "treeRootNode s = Some t"
    and "\<And>a b. candidate s je a \<Longrightarrow> candidate s je b \<Longrightarrow> rank_le s a b \<Longrightarrow> rank_le s b a \<Longrightarrow> a = b"
  shows "updateBestDescendant iter background s je fe ce = updateBestDescendant iter' background s je fe ce"
proof (cases "n_children (nodes s t) = []")
  case True
  then show ?thesis using assms(5) by (simp add: updateBestDescendant_def)
next
  case False
  have b: "\<not> background AtUpdateBest" by (simp add: background_def)
  obtain h where h: "updateBestDescendant iter background s je fe ce = Ret (s\<lparr>headNode := h\<rparr>, None)"
    "h = None \<Longrightarrow> \<forall>a. \<not> candidate s je a"
    "\<And>b. h = Some b \<Longrightarrow> candidate s je b \<and> (\<forall>a. candidate s je a \<longrightarrow> rank_le s a b)"
    using updateBestDescendant_choice [where ctx = background and je = je and fe = fe and ce = ce, OF assms(1,2,4) b assms(5) False] by metis
  obtain k where k: "updateBestDescendant iter' background s je fe ce = Ret (s\<lparr>headNode := k\<rparr>, None)"
    "k = None \<Longrightarrow> \<forall>a. \<not> candidate s je a"
    "\<And>b. k = Some b \<Longrightarrow> candidate s je b \<and> (\<forall>a. candidate s je a \<longrightarrow> rank_le s a b)"
    using updateBestDescendant_choice [where ctx = background and je = je and fe = fe and ce = ce, OF assms(1,3,4) b assms(5) False] by metis
  have "h = k" using h(2,3) k(2,3) assms(6) by (metis option.exhaust)
  then show ?thesis using h(1) k(1) by simp
qed

lemma line_store_candidate:
  assumes "candidate line_store je a"
  shows "a = 2"
proof -
  have "(n_root (nodes line_store a), a) \<in> set (nodeByRoot line_store)"
    using assms by (auto simp: candidate_def intro: gm_get_in_set)
  then have "a = 0 \<or> a = 1 \<or> a = 2" unfolding line_store_facts by auto
  then show ?thesis using assms line_store_facts by (auto simp: candidate_def)
qed

theorem updateBestDescendant_deterministic_witness:
  "updateBestDescendant (map fst) background line_store 0 0 2
    = updateBestDescendant (\<lambda>m. rev (map fst m)) background line_store 0 0 2"
proof (rule updateBestDescendant_deterministic [where t = 0, OF wf_line_store iter_ok_fst iter_ok_rev])
  fix a b assume "candidate line_store 0 a" "candidate line_store 0 b"
  then show "a = b" using line_store_candidate by blast
qed (simp_all add: line_store_facts)

text \<open>
  Two stable leaves of the same depth and slot: which of them \<^verbatim>\<open>Head\<close> returns is decided by
  the iteration order of a Go map, which the language leaves unspecified.
\<close>
theorem Head_tie_order_dependent:
  "map_outcome fst (obind (Head (map fst) background (time_Unix 1000) 1000 fork_store) (\<lambda>r. Ret (snd r)))
     \<noteq> map_outcome fst (obind (Head (\<lambda>m. rev (map fst m)) background (time_Unix 1000) 1000 fork_store) (\<lambda>r. Ret (snd r)))"
  by code_simp

text \<open>
  On the empty store of \<^verbatim>\<open>New\<close> the call \<^verbatim>\<open>Head\<close> panics, for every context that is not yet
  cancelled: the children of the nil tree root are read before the nil test.
\<close>
theorem Head_empty_panics:
  assumes "\<not> ctx AtUpdateBest"
  shows "Head iter ctx now elapsed New_store = Panic"
  using assms by (simp add: Head_def updateBestDescendant_def New_store_def Let_def)

theorem Head_empty_panics_witness:
  "Head (map fst) background (time_Unix 0) 0 New_store = Panic"
  by (rule Head_empty_panics) (simp add: background_def)

end
