(* ===== verification/ForkVotes.thy ===== *)
theory ForkVotes
  imports ForkDemo
begin

text \<open>
  Votes and the stability of new blocks, optimistic status, checkpoints: the properties of the
  writing operations.
\<close>

text \<open>
  Stores reached from \<^verbatim>\<open>New\<close> by the operations: a genesis block, an attestation for it, a second
  block, and 256 votes for that one.
\<close>

definition block_view :: "Slot \<Rightarrow> root32 \<Rightarrow> StateView" where
  "block_view slot parent = \<lparr>sv_Slot = slot, sv_LatestBlockHeader = Some parent, sv_Version = 0,
     sv_LatestExecutionPayloadHeader = (None, None),
     sv_CurrentJustifiedCheckpoint = Some zero_cp, sv_FinalizedCheckpoint = Some zero_cp\<rparr>"

definition add_block :: "Slot \<Rightarrow> root32 \<Rightarrow> root32 \<Rightarrow> Store \<Rightarrow> Store" where
  "add_block slot root parent s = (case InsertNode (map fst) background (\<lambda>_. 1000) (block_view slot parent) root s of
     Ret (t, _) \<Rightarrow> t | _ \<Rightarrow> s)"

definition voted_store :: Store where
  "voted_store = ProcessAttestation [7, 8, 7] 1 1 (add_block 0 1 0 New_store)"

definition two_store :: Store where
  "two_store = add_block 1 2 1 (add_block 0 1 0 New_store)"

definition quorum_store :: Store where
  "quorum_store = ProcessAttestation (map of_nat [0..<256]) 2 1 two_store"

lemma reach_New: "reach fc_init (fc_step adm) New_store"
  by (rule reach.start) (simp add: fc_init_def)

lemma reach_add_block:
  assumes "reach fc_init (fc_step adm) s" "adm background"
  shows "reach fc_init (fc_step adm) (add_block slot root parent s)"
proof -
  obtain t e where r: "InsertNode (map fst) background (\<lambda>_. 1000) (block_view slot parent) root s = Ret (t, e)"
    using InsertNode_returns [OF reach_wf [OF assms(1)]] by blast
  have "fc_step adm s t" by (rule insert_step [where adm = adm, OF iter_ok_fst assms(2) r])
  then show ?thesis using reach.move [OF assms(1)] r by (simp add: add_block_def)
qed

lemma reach_vote:
  "reach fc_init (fc_step adm) s \<Longrightarrow> reach fc_init (fc_step adm) (ProcessAttestation vs r sl s)"
  by (erule reach.move) (auto intro: vote_step)

lemma reach_voted_store: "adm background \<Longrightarrow> reach fc_init (fc_step adm) voted_store"
  unfolding voted_store_def by (intro reach_vote reach_add_block reach_New)

lemma reach_two_store: "adm background \<Longrightarrow> reach fc_init (fc_step adm) two_store"
  unfolding two_store_def by (intro reach_add_block reach_New)

lemma reach_quorum_store: "adm background \<Longrightarrow> reach fc_init (fc_step adm) quorum_store"
  unfolding quorum_store_def by (intro reach_vote reach_two_store)

lemma two_store_facts:
  "gm_get (nodeByRoot two_store) 2 = Some 1" "gm_get (nodeByRoot two_store) 3 = None"
  "n_validatorIndices (nodes two_store (Suc 0)) = None" "n_slot (nodes two_store (Suc 0)) = 1" "cacheSlot two_store = 0"
  "genesisTime two_store = 0"
  by code_simp+

lemma card_256: "card (set (map of_nat [0..<256]) :: u64 set) = 256"
proof -
  have "inj_on (of_nat :: nat \<Rightarrow> u64) {0..<256}"
    by (rule inj_onI) (drule arg_cong [where f = unat], simp add: unat_of_nat)
  then show ?thesis by (simp add: card_image)
qed

lemma quorum_cached: "cached quorum_store 2 = 256"
  unfolding quorum_store_def ProcessAttestation_cached [OF two_store_facts(1)]
  using card_256 by (simp add: two_store_facts voters_def)

text \<open>
  (C1) Every store reached from \<^verbatim>\<open>New\<close> by the exported operations, under any contexts, clocks and
  map orders, is well formed: parents are older than children, children lists have no duplicates
  and point back, the root index maps each root to an allocated node of that root, the tree root
  has no parent, and without a tree root the index is empty.
\<close>
theorem reachable_well_formed:
  assumes "fc_reach s"
  shows "wf_store s"
  using assms by (rule reach_wf)

theorem reachable_well_formed_witness:
  "wf_store voted_store"
  by (rule reachable_well_formed [OF reach_voted_store]) (simp add: any_ctx_def)

subsection \<open>Votes\<close>

lemma recorded_only_node:
  assumes "wf_store s" "gm_get (nodeByRoot s) r = Some a" "\<forall>b < nextAddr s. n_root (nodes s b) = r \<longrightarrow> b = a"
  shows "recorded s r = card (voters (nodes s a))"
proof -
  have "{b. b < nextAddr s \<and> n_root (nodes s b) = r} = {a}"
    using assms(3) wf_lookup [OF assms(1,2)] wf_lookup_root [OF assms(1,2)] by blast
  then show ?thesis by (simp add: recorded_def)
qed

text \<open>
  (C2) In every reachable store the count cached for a root is between 0 and the number of marks of
  validators on the nodes ever created for that root, nodes removed since included. When the node stored
  for the root is the only one ever created for it, the count is at most the number of different validators marked on it.
\<close>
theorem cached_votes_recorded:
  assumes "fc_reach s" "cacheAttCount s = Some m" "gm_get m r = Some c"
  shows "0 \<le> c \<and> c \<le> int (recorded s r)
    \<and> (\<forall>a. gm_get (nodeByRoot s) r = Some a \<longrightarrow> (\<forall>b < nextAddr s. n_root (nodes s b) = r \<longrightarrow> b = a)
          \<longrightarrow> c \<le> int (card (voters (nodes s a))))"
proof -
  have c: "0 \<le> c" "c \<le> int (recorded s r)"
    using fc_votes.reach_inv [OF assms(1)] assms(2,3) unfolding votes_ok_def by blast+
  moreover have "recorded s r = card (voters (nodes s a))"
    if "gm_get (nodeByRoot s) r = Some a" "\<forall>b < nextAddr s. n_root (nodes s b) = r \<longrightarrow> b = a" for a
    by (rule recorded_only_node [OF reach_wf [OF assms(1)] that])
  ultimately show ?thesis by metis
qed

theorem cached_votes_recorded_witness:
  "gm_get [(1, 2)] (1 :: root32) = Some (2 :: int) \<and> 2 \<le> recorded voted_store 1
    \<and> 2 \<le> card (voters (nodes voted_store 0))"
proof -
  have m: "cacheAttCount voted_store = Some [(1, 2)]" by code_simp
  have g: "gm_get [(1, 2)] (1 :: root32) = Some (2 :: int)" by code_simp
  have a: "gm_get (nodeByRoot voted_store) 1 = Some 0" by code_simp
  have "nextAddr voted_store = 1" by code_simp
  then show ?thesis
    using cached_votes_recorded [OF reach_voted_store m g] a g by (simp add: any_ctx_def)
qed

text \<open>
  (C6) One attestation for a known block marks exactly its validators on the block and adds to the
  block's count the number of those not marked before; a vote for a newer slot than the cached one
  first resets all counts, a vote for an older slot does not.
\<close>
theorem ProcessAttestation_counts_once:
  assumes "gm_get (nodeByRoot s) r = Some a"
  shows "voters (nodes (ProcessAttestation vs r sl s) a) = voters (nodes s a) \<union> set vs
    \<and> cached (ProcessAttestation vs r sl s) r' =
        (if cacheSlot s < sl then 0 else cached s r')
        + (if r' = r then int (card (set vs - voters (nodes s a))) else 0)"
  using ProcessAttestation_nodes(1) [OF assms] ProcessAttestation_cached [OF assms] by blast

theorem ProcessAttestation_counts_once_witness:
  "cached (ProcessAttestation [7, 8, 7] 2 1 fork_store) 2 = 2"
proof -
  have "card ({7, 8} :: u64 set) = 2" by simp
  moreover have "set [7, 8, 7] = ({7, 8} :: u64 set)" by auto
  moreover have "cacheSlot fork_store = 0" "voters (nodes fork_store 1) = {}"
    by (code_simp, simp add: voters_def, code_simp)
  ultimately show ?thesis
    using ProcessAttestation_counts_once [OF fork_store_facts(6), of "[7, 8, 7]" 1 2] by (simp del: list.set)
qed

lemma UpdateVoted_not_newer: "\<not> sl > cacheSlot (UpdateVoted sl r c s)"
  by (auto simp: UpdateVoted_cache)

lemma ProcessAttestation_not_newer:
  "gm_get (nodeByRoot s) r = Some a \<Longrightarrow> \<not> sl > cacheSlot (ProcessAttestation vs r sl s)"
  by (erule ProcessAttestation_eq [where vs = vs and sl = sl]) (simp add: UpdateVoted_not_newer)

text \<open>Processing the same attestation again changes no count.\<close>
theorem ProcessAttestation_replay:
  "cached (ProcessAttestation vs r sl (ProcessAttestation vs r sl s)) r' = cached (ProcessAttestation vs r sl s) r'"
proof (cases "gm_get (nodeByRoot s) r")
  case (Some a)
  let ?t = "ProcessAttestation vs r sl s"
  have t: "gm_get (nodeByRoot ?t) r = Some a" using Some by simp
  show ?thesis
    using ProcessAttestation_cached [OF t, of vs sl r'] ProcessAttestation_not_newer [OF Some]
      ProcessAttestation_nodes(1) [OF Some] by simp
qed (simp add: ProcessAttestation_unknown)

subsection \<open>Stability of a new block\<close>

lemma insert_child_node:
  assumes "wf_store s" "gm_get (nodeByRoot s) root = None" "gm_get (nodeByRoot s) parentRoot = Some p"
    "insert_node iter ctx clk s slot root parentRoot ph je fe = Ret (t, a, e)"
  shows "a = nextAddr s" "n_parent (nodes t a) = Some p" "n_root (nodes t a) = root" "n_optimistic (nodes t a)"
    "n_stabled (nodes t a) \<longleftrightarrow> genesisTime s \<le> clk 1 \<and>
      (case (case cacheAttCount s of None \<Rightarrow> None | Some m \<Rightarrow> gm_get m parentRoot) of
         Some c \<Rightarrow> c \<ge> 256 | None \<Rightarrow> n_slot (nodes s p) = 0)"
proof -
  have p: "p < nextAddr s" by (rule wf_lookup [OF assms(1,3)])
  have st: "insert_stabled (with_child p n ph s) parentRoot p \<longleftrightarrow>
    (case (case cacheAttCount s of None \<Rightarrow> None | Some m \<Rightarrow> gm_get m parentRoot) of
         Some c \<Rightarrow> c \<ge> 256 | None \<Rightarrow> n_slot (nodes s p) = 0)" for n
    using p by (simp add: insert_stabled_def ValidatorPerSlot_def TotalValidatorCount_def with_child_def with_node_def
        split: option.split)
  have "a = nextAddr s \<and> n_parent (nodes t a) = Some p \<and> n_root (nodes t a) = root \<and> n_optimistic (nodes t a) \<and>
    (n_stabled (nodes t a) \<longleftrightarrow> genesisTime s \<le> clk 1 \<and>
      (case (case cacheAttCount s of None \<Rightarrow> None | Some m \<Rightarrow> gm_get m parentRoot) of
         Some c \<Rightarrow> c \<ge> 256 | None \<Rightarrow> n_slot (nodes s p) = 0))"
  proof (rule insert_node_cases [OF assms(1) assms(4) [symmetric]], goal_cases)
    case (4 p' n tg)
    then show ?thesis using assms(3) p by (auto simp: with_child_def with_node_def new_node_def)
  next
    case (5 p' n tg s3 ce h e)
    have pp: "p' = p" using 5(2) assms(3) by simp
    have eqs: "a = nextAddr s" "nodes t = nodes s3" using 5(8) by (auto split: if_splits)
    have "n_stabled (nodes s3 (nextAddr s)) \<longleftrightarrow> insert_stabled (with_child p n ph s) parentRoot p"
      "n_parent (nodes s3 (nextAddr s)) = Some p" "n_root (nodes s3 (nextAddr s)) = root" "n_optimistic (nodes s3 (nextAddr s))"
      unfolding 5(5) pp using p by (simp_all add: set_stabled_def with_child_def with_node_def 5(3) new_node_def pp)
    then show ?thesis using eqs st 5(4) by (simp add: not_less)
  qed (use assms in auto)
  then show "a = nextAddr s" "n_parent (nodes t a) = Some p" "n_root (nodes t a) = root" "n_optimistic (nodes t a)"
    "n_stabled (nodes t a) \<longleftrightarrow> genesisTime s \<le> clk 1 \<and>
      (case (case cacheAttCount s of None \<Rightarrow> None | Some m \<Rightarrow> gm_get m parentRoot) of
         Some c \<Rightarrow> c \<ge> 256 | None \<Rightarrow> n_slot (nodes s p) = 0)"
    by blast+
qed

text \<open>
  (C3) A block inserted under a known parent becomes a new optimistic child of it, and is marked
  stable exactly when genesis has passed and the cached count of the parent reaches 256 votes, or,
  the parent having no cached count, the parent is the block of slot 0.
\<close>
theorem insert_stable_iff:
  assumes "wf_store s" "gm_get (nodeByRoot s) root = None" "gm_get (nodeByRoot s) parentRoot = Some p"
    "insert_node iter ctx clk s slot root parentRoot ph je fe = Ret (t, a, e)"
  shows "a = nextAddr s \<and> n_parent (nodes t a) = Some p \<and> n_root (nodes t a) = root \<and> n_optimistic (nodes t a)
    \<and> (n_stabled (nodes t a) \<longleftrightarrow> genesisTime s \<le> clk 1 \<and>
      (case (case cacheAttCount s of None \<Rightarrow> None | Some m \<Rightarrow> gm_get m parentRoot) of
         Some c \<Rightarrow> c \<ge> 256 | None \<Rightarrow> n_slot (nodes s p) = 0))"
  using insert_child_node [OF assms] by blast

theorem insert_stable_iff_witness:
  "\<exists>t a e. insert_node (map fst) background (\<lambda>_. 1000) line_store 3 9 3 9 0 0 = Ret (t, a, e)
    \<and> a = 3 \<and> \<not> n_stabled (nodes t a)"
proof -
  obtain t a e where r: "insert_node (map fst) background (\<lambda>_. 1000) line_store 3 9 3 9 0 0 = Ret (t, a, e)"
    by (rule insert_node_returns [OF wf_line_store])
  have f: "gm_get (nodeByRoot line_store) 9 = None" "genesisTime line_store = 0" "n_slot (nodes line_store 2) = 2"
    "cacheAttCount line_store = Some [(2, 300)]" "gm_get [(2, 300)] (3 :: root32) = (None :: int option)"
    by code_simp+
  show ?thesis
    using insert_stable_iff [OF wf_line_store f(1) line_store_facts(9) r] r f(2-) by (auto simp: line_store_facts)
qed

lemma recorded_quorum:
  assumes "fc_reach s" "gm_get (nodeByRoot s) root = None" "gm_get (nodeByRoot s) parentRoot = Some p"
    "insert_node iter ctx clk s slot root parentRoot ph je fe = Ret (t, a, e)"
    "n_stabled (nodes t a)" "n_slot (nodes s p) \<noteq> 0"
  shows "256 \<le> recorded s parentRoot"
proof -
  note st = insert_child_node(5) [OF reach_wf [OF assms(1)] assms(2-4)]
  obtain m c where "cacheAttCount s = Some m" "gm_get m parentRoot = Some c" "c \<ge> 256"
    using assms(5,6) st by (auto split: option.splits)
  then show ?thesis using fc_votes.reach_inv [OF assms(1)] unfolding votes_ok_def by fastforce
qed

text \<open>
  In a reachable store, a block that is inserted as stable under a parent of a slot other than 0
  has a parent with at least 256 recorded votes.
\<close>
theorem stable_needs_quorum:
  assumes "fc_reach s" "gm_get (nodeByRoot s) root = None" "gm_get (nodeByRoot s) parentRoot = Some p"
    "insert_node iter ctx clk s slot root parentRoot ph je fe = Ret (t, a, e)"
    "n_stabled (nodes t a)" "n_slot (nodes s p) \<noteq> 0"
  shows "256 \<le> recorded s parentRoot"
  using assms by (rule recorded_quorum)

theorem stable_needs_quorum_witness: "256 \<le> recorded quorum_store 2"
proof -
  have reach: "fc_reach quorum_store" by (rule reach_quorum_store) (simp add: any_ctx_def)
  have new: "gm_get (nodeByRoot quorum_store) 3 = None" and par: "gm_get (nodeByRoot quorum_store) 2 = Some 1"
    by (simp_all add: quorum_store_def two_store_facts)
  obtain t a e where r: "insert_node (map fst) background (\<lambda>_. 1000) quorum_store 2 3 2 3 0 0 = Ret (t, a, e)"
    by (rule insert_node_returns [OF reach_wf [OF reach]])
  have "genesisTime quorum_store = 0"
    by (simp add: quorum_store_def ProcessAttestation_def UpdateVoted_def Let_def two_store_facts split: prod.split)
  moreover obtain m where "cacheAttCount quorum_store = Some m" "gm_get m 2 = Some 256"
    using quorum_cached by (auto simp: cached_def split: option.splits)
  ultimately have "n_stabled (nodes t a)" using insert_child_node(5) [OF reach_wf [OF reach] new par r] by simp
  moreover have "n_slot (nodes quorum_store 1) = 1"
    using ProcessAttestation_nodes(3) [OF two_store_facts(1), of "map of_nat [0..<256]" 1 1] two_store_facts(4)
    by (simp add: quorum_store_def same_block_def)
  ultimately show ?thesis using stable_needs_quorum [OF reach new par r] by simp
qed

end
