(* ===== verification/ForkQueries.thy ===== *)
theory ForkQueries
  imports ForkVotes
begin

text \<open>
  The queries along the chain against their reference definitions over \<open>ancestry\<close>: canonicity,
  ancestor at a slot, last root of an epoch and common ancestor; and that no operation on a
  well-formed store runs forever.
\<close>

subsection \<open>Walks\<close>

text \<open>Slots grow along the chain, as the state transition function guarantees for valid blocks.\<close>
definition slots_increase :: "Store \<Rightarrow> bool" where
  "slots_increase s \<longleftrightarrow> (\<forall>a<nextAddr s. \<forall>p. n_parent (nodes s a) = Some p \<longrightarrow> n_slot (nodes s p) < n_slot (nodes s a))"

lemma ancestry_slots:
  assumes "wf_store s" "slots_increase s" "a < nextAddr s" "b \<in> set (ancestry s a)" "b \<noteq> a"
  shows "n_slot (nodes s b) < n_slot (nodes s a)"
  using assms(3-5)
proof (induction a rule: less_induct)
  case (less a)
  then obtain p where p: "n_parent (nodes s a) = Some p" "b \<in> set (ancestry s p)"
    using ancestry_unfold [OF assms(1) less(2)] by (cases "n_parent (nodes s a)") auto
  note pa = wf_parent [OF assms(1) less(2) p(1)]
  have "n_slot (nodes s p) < n_slot (nodes s a)" using assms(2) less(2) p(1) by (simp add: slots_increase_def)
  then show ?case using less p pa by (cases "b = p") (auto dest: order.strict_trans)
qed

lemma walk_induct:
  assumes "wf_store s"
    and "\<forall>a. n = Some a \<longrightarrow> a < nextAddr s \<and> Suc a < k" "0 < k"
    and "\<And>k. P (Suc k) None"
    and "\<And>k a. a < nextAddr s \<Longrightarrow> a < k \<Longrightarrow> P k (n_parent (nodes s a)) \<Longrightarrow> P (Suc k) (Some a)"
  shows "P k n"
  using assms(2) [rule_format] assms(3)
proof (induction k arbitrary: n)
  case (Suc k)
  show ?case
  proof (cases n)
    case (Some a)
    then have a: "a < nextAddr s" "a < k" using Suc.prems by auto
    have "P k (n_parent (nodes s a))"
      using Suc.IH [of "n_parent (nodes s a)"] wf_parent [OF assms(1) a(1)] a by fastforce
    then show ?thesis using assms(5) [OF a] Some by simp
  qed (use assms(4) in simp)
qed simp

lemma canonical_loop_spec:
  assumes "wf_store s" "\<forall>a. n = Some a \<longrightarrow> a < nextAddr s \<and> Suc a < k" "0 < k"
  shows "canonical_loop k s root sl n
    = Ret (\<exists>b\<in>set (takeWhile (\<lambda>b. n_slot (nodes s b) \<ge> sl) (ancestry_opt s n)). n_root (nodes s b) = root)"
proof (rule walk_induct [OF assms], goal_cases)
  case (2 k a)
  then show ?case by (auto simp: ancestry_unfold [OF assms(1)])
qed simp

lemma ancestor_loop_spec:
  assumes "wf_store s" "\<forall>a. n = Some a \<longrightarrow> a < nextAddr s \<and> Suc a < k" "0 < k"
  shows "ancestor_loop k background s sl n
    = Ret (find (\<lambda>b. n_slot (nodes s b) \<le> sl) (ancestry_opt s n), None)"
proof (rule walk_induct [OF assms], goal_cases)
  case (2 k a)
  then show ?case by (auto simp: ancestry_unfold [OF assms(1)] background_def)
qed simp

lemma lastRoot_loop_spec:
  assumes "wf_store s" "\<forall>a. n = Some a \<longrightarrow> a < nextAddr s \<and> Suc a < k" "0 < k"
  shows "lastRoot_loop k s sl n = Ret (find (\<lambda>b. n_slot (nodes s b) \<le> sl) (ancestry_opt s n))"
proof (rule walk_induct [OF assms], goal_cases)
  case (2 k a)
  then show ?case by (auto simp: ancestry_unfold [OF assms(1)])
qed simp

lemma find_cong_set: "(\<And>x. x \<in> set xs \<Longrightarrow> P x = Q x) \<Longrightarrow> find P xs = find Q xs"
  by (induction xs) auto

lemma common_loop_spec:
  assumes "wf_store s" "slots_increase s" "n1 < nextAddr s" "n2 < nextAddr s" "n1 \<noteq> n2" "n1 + n2 < k"
  shows "common_loop k background s n1 n2 =
    Ret (case find (\<lambda>b. b \<in> set (ancestry s n2)) (ancestry s n1) of
           None \<Rightarrow> (0, 0, Some ErrUnknownCommonAncestor)
         | Some b \<Rightarrow> (n_root (nodes s b), n_slot (nodes s b), None))"
  using assms(3-6)
proof (induction k arbitrary: n1 n2)
  case (Suc k)
  note u1 = ancestry_unfold [OF assms(1) Suc.prems(1)] and u2 = ancestry_unfold [OF assms(1) Suc.prems(2)]
  note sl = ancestry_slots [OF assms(1,2)]
  show ?case
  proof (cases "n_slot (nodes s n1) > n_slot (nodes s n2)")
    case True
    then have n1: "n1 \<notin> set (ancestry s n2)" using sl [OF Suc.prems(2), of n1] Suc.prems(3) by auto
    show ?thesis
    proof (cases "n_parent (nodes s n1)")
      case None
      then show ?thesis using True u1 n1 by (simp add: background_def)
    next
      case (Some p)
      have p: "p < n1" by (rule wf_parent [OF assms(1) Suc.prems(1) Some])
      have f: "find (\<lambda>b. b \<in> set (ancestry s n2)) (ancestry s n1) = find (\<lambda>b. b \<in> set (ancestry s n2)) (ancestry s p)"
        using u1 n1 Some by simp
      show ?thesis
      proof (cases "p = n2")
        case eq: True
        have "find (\<lambda>b. b \<in> set (ancestry s n2)) (ancestry s n2) = Some n2"
          by (subst (2) u2) simp
        then show ?thesis using True eq Some f by (simp add: background_def)
      next
        case False
        then show ?thesis using True Some f p Suc by (simp add: background_def)
      qed
    qed
  next
    case False
    then have n2: "n2 \<notin> set (ancestry s n1)" using sl [OF Suc.prems(1), of n2] Suc.prems(3) by auto
    have f: "find (\<lambda>b. b \<in> set (ancestry s n2)) (ancestry s n1)
        = find (\<lambda>b. b \<in> set (ancestry_opt s (n_parent (nodes s n2)))) (ancestry s n1)"
      by (rule find_cong_set) (use u2 n2 in auto)
    show ?thesis
    proof (cases "n_parent (nodes s n2)")
      case None
      then have "find (\<lambda>b. b \<in> set (ancestry s n2)) (ancestry s n1) = None" using f by (simp add: find_None_iff)
      then show ?thesis using False None by (simp add: background_def)
    next
      case (Some p)
      have p: "p < n2" by (rule wf_parent [OF assms(1) Suc.prems(2) Some])
      show ?thesis
      proof (cases "n1 = p")
        case True
        have "find (\<lambda>b. b \<in> set (ancestry s n1)) (ancestry s n1) = Some n1"
          by (subst (2) u1) simp
        then show ?thesis using False Some f True by (simp add: background_def)
      next
        case neq: False
        then show ?thesis using False Some f p Suc by (simp add: background_def)
      qed
    qed
  qed
qed simp

subsection \<open>No operation runs forever\<close>

lemma not_Diverge_obind: "m \<noteq> Diverge \<Longrightarrow> (\<And>x. m = Ret x \<Longrightarrow> f x \<noteq> Diverge) \<Longrightarrow> obind m f \<noteq> Diverge"
  by (cases m) auto

lemma common_loop_returns:
  assumes "wf_store s" "n1 < nextAddr s" "n2 < nextAddr s" "n1 + n2 < k"
  shows "\<exists>r. common_loop k ctx s n1 n2 = Ret r"
  using assms(2-4)
proof (induction k arbitrary: n1 n2)
  case (Suc k)
  show ?case using Suc wf_parent [OF assms(1) Suc.prems(1)] wf_parent [OF assms(1) Suc.prems(2)]
    by (auto split: option.split)
qed simp

lemma ancestor_loop_returns:
  assumes "wf_store s" "\<forall>a. n = Some a \<longrightarrow> a < nextAddr s \<and> Suc a < k" "0 < k"
  shows "\<exists>r. ancestor_loop k ctx s sl n = Ret r"
  by (rule walk_induct [OF assms]) auto

lemma dump_returns:
  "wf_store s \<Longrightarrow> node < nextAddr s \<Longrightarrow> nextAddr s \<le> node + k \<Longrightarrow> \<exists>r. nodeTreeDump k ctx s node ds = Ret r"
  "wf_store s \<Longrightarrow> fuel_for k s cs \<Longrightarrow> \<exists>r. dump_children k ctx s cs ds = Ret r"
proof (induction k ctx s node ds and k ctx s cs ds rule: nodeTreeDump_dump_children.induct)
  case (2 k ctx s n ds)
  have "fuel_for k s (n_children (nodes s n))" by (rule fuel_for_children) (use 2 in auto)
  then show ?case using 2 by auto
next
  case (4 k ctx s c cs ds)
  then obtain ds' e where "nodeTreeDump k ctx s c ds = Ret (ds', e)" by auto
  then show ?case using 4 by (cases e) auto
qed auto

lemma Head_no_diverge: "wf_store s \<Longrightarrow> Head iter ctx now el s \<noteq> Diverge"
proof -
  assume wf: "wf_store s"
  have "updateBestDescendant iter ctx s je fe ce \<noteq> Diverge" for je fe ce
  proof (cases "treeRootNode s")
    case (Some t)
    then have "treeRootNode s \<noteq> None" by simp
    then show ?thesis by (rule updateBestDescendant_cases [OF wf, of iter ctx je fe ce]) simp
  qed (simp add: updateBestDescendant_def)
  then show ?thesis unfolding Head_def Let_def
    by (rule not_Diverge_obind) (simp_all add: head_def split: option.split prod.split)
qed

text \<open>
  \<^verbatim>\<open>TargetRootForEpoch\<close> follows roots, not links: the roots of the parent and the target of a stored node name these nodes, or are unknown
  by now. This holds in particular when no block was created twice.
\<close>
definition links_by_root :: "Store \<Rightarrow> bool" where
  "links_by_root s \<longleftrightarrow> (\<forall>r a b. gm_get (nodeByRoot s) r = Some a \<longrightarrow> n_target (nodes s a) = Some b \<or> n_parent (nodes s a) = Some b
     \<longrightarrow> gm_get (nodeByRoot s) (n_root (nodes s b)) \<in> {None, Some b})"

lemma created_once_links:
  assumes "wf_store s" "inj_on (\<lambda>a. n_root (nodes s a)) {..<nextAddr s}"
  shows "links_by_root s"
  unfolding links_by_root_def
proof (intro allI impI, goal_cases)
  case (1 r a b)
  have a: "a < nextAddr s" by (rule wf_lookup [OF assms(1) 1(1)])
  have b: "b < nextAddr s" using 1(2) wf_target [OF assms(1) a, of b] wf_parent [OF assms(1) a, of b] a by auto
  have "c = b" if "gm_get (nodeByRoot s) (n_root (nodes s b)) = Some c" for c
    using inj_onD [OF assms(2) wf_lookup_root [OF assms(1) that]] wf_lookup [OF assms(1) that] b by simp
  then show ?case by (cases "gm_get (nodeByRoot s) (n_root (nodes s b))") auto
qed

lemma TargetRootForEpoch_loop_returns:
  assumes "wf_store s" "links_by_root s" "\<forall>a. gm_get (nodeByRoot s) root = Some a \<longrightarrow> a < k" "0 < k"
  shows "\<exists>r. TargetRootForEpoch_loop k s root ep = Ret r"
  using assms(3,4)
proof (induction k arbitrary: root)
  case (Suc k)
  show ?case
  proof (cases "gm_get (nodeByRoot s) root")
    case (Some n)
    have n: "n < nextAddr s" by (rule wf_lookup [OF assms(1) Some])
    have loop: "\<exists>r. TargetRootForEpoch_loop k s (n_root (nodes s b)) ep = Ret r"
      if "gm_get (nodeByRoot s) (n_root (nodes s b)) \<in> {None, Some b}" "b < n" for b
      using Suc that Some by (intro Suc.IH) auto
    show ?thesis
    proof (cases "n_target (nodes s n)")
      case t: (Some t)
      have tn: "t \<le> n" by (rule wf_target [OF assms(1) n t])
      have tr: "gm_get (nodeByRoot s) (n_root (nodes s t)) \<in> {None, Some t}"
        using assms(2) Some t unfolding links_by_root_def by blast
      show ?thesis
      proof (cases "gm_get (nodeByRoot s) (n_root (nodes s t))")
        case None
        then show ?thesis using \<open>gm_get (nodeByRoot s) root = Some n\<close> t by (simp add: Let_def)
      next
        case (Some c)
        then have c: "gm_get (nodeByRoot s) (n_root (nodes s t)) = Some t" using tr by simp
        have "\<exists>r. TargetRootForEpoch_loop k s (n_root (nodes s p)) ep = Ret r" if "n_parent (nodes s t) = Some p" for p
        proof (rule loop)
          show "gm_get (nodeByRoot s) (n_root (nodes s p)) \<in> {None, Some p}"
            using assms(2) c that unfolding links_by_root_def by blast
          show "p < n" using wf_parent [OF assms(1) _ that] tn n by simp
        qed
        moreover have "\<exists>r. TargetRootForEpoch_loop k s (n_root (nodes s t)) ep = Ret r" if "t \<noteq> n"
          by (rule loop) (use tr tn that in auto)
        ultimately show ?thesis using \<open>gm_get (nodeByRoot s) root = Some n\<close> t c by (auto simp: Let_def split: option.split)
      qed
    qed (use Some in simp)
  qed simp
qed simp

lemma TargetRootForEpoch_no_diverge:
  assumes "wf_store s" "links_by_root s"
  shows "TargetRootForEpoch root ep s \<noteq> Diverge"
proof -
  have "\<forall>a. gm_get (nodeByRoot s) root = Some a \<longrightarrow> a < Suc (nextAddr s)" using wf_lookup [OF assms(1), of root] by fastforce
  then have "\<exists>r. TargetRootForEpoch root ep s = Ret r"
    unfolding TargetRootForEpoch_def by (rule TargetRootForEpoch_loop_returns [OF assms]) simp
  then show ?thesis by auto
qed

lemma ForkChoiceDump_no_diverge:
  assumes wf: "wf_store s"
  shows "ForkChoiceDump ctx s \<noteq> Diverge"
proof (cases "treeRootNode s")
  case (Some t)
  then have "\<exists>r. nodeTreeDump (Suc (nextAddr s)) ctx s t [] = Ret r"
    using wf_tree_root [OF wf Some] by (intro dump_returns(1) [OF wf]) auto
  then show ?thesis using Some by (auto simp: ForkChoiceDump_def Let_def simp del: nodeTreeDump.simps split: option.splits prod.split)
qed (simp add: ForkChoiceDump_def Let_def)

text \<open>
  (C12) No exported operation of the fork choice runs forever on a store reached from \<^verbatim>\<open>New\<close> by any
  sequence of operations: the writers and readers that loop or recurse either return or panic, for every context, clock and
  map order. \<^verbatim>\<open>TargetRootForEpoch\<close>, which follows roots, ends when the roots of the parents and targets still name these nodes.
\<close>
theorem fork_choice_terminates:
  assumes "fc_reach s"
  shows "Head iter ctx now el s \<noteq> Diverge \<and> InsertNode iter ctx clk st root s \<noteq> Diverge
    \<and> InsertChain iter ctx ck bs s \<noteq> Diverge \<and> NewSlot ctx sl s \<noteq> Diverge
    \<and> SetOptimisticToValid ctx root s \<noteq> Diverge \<and> SetOptimisticToInvalid ctx root pr lvh s \<noteq> Diverge
    \<and> IsCanonical root s \<noteq> Diverge \<and> AncestorRoot ctx root sl s \<noteq> Diverge \<and> LastRoot ep s \<noteq> Diverge
    \<and> CommonAncestor ctx root root' s \<noteq> Diverge \<and> ForkChoiceDump ctx s \<noteq> Diverge
    \<and> IsViableForCheckpoint cp s \<noteq> Diverge \<and> (links_by_root s \<longrightarrow> TargetRootForEpoch root ep s \<noteq> Diverge)"
proof (intro conjI impI)
  have wf: "wf_store s" by (rule reach_wf [OF assms])
  have lk: "\<forall>a. Some b = Some a \<longrightarrow> a < nextAddr s \<and> Suc a < Suc (Suc (nextAddr s))" if "b < nextAddr s" for b
    using that by simp
  have hd: "\<forall>a. headNode s = Some a \<longrightarrow> a < nextAddr s \<and> Suc a < Suc (Suc (nextAddr s))"
    using wf_head [OF wf] by auto
  note [simp del] = canonical_loop.simps ancestor_loop.simps lastRoot_loop.simps common_loop.simps nodeTreeDump.simps
  show "Head iter ctx now el s \<noteq> Diverge" by (rule Head_no_diverge [OF wf])
  show "InsertNode iter ctx clk st root s \<noteq> Diverge" using InsertNode_returns [OF wf, of iter ctx clk st root] by auto
  show "InsertChain iter ctx ck bs s \<noteq> Diverge" using InsertChain_returns [OF wf, of iter ctx ck bs] by auto
  show "NewSlot ctx sl s \<noteq> Diverge" by (rule prune_returns [OF wf, of ctx]) (simp add: NewSlot_def)
  show "SetOptimisticToValid ctx root s \<noteq> Diverge" using wf_SetOptimisticToValid [OF wf, of ctx root] by auto
  show "SetOptimisticToInvalid ctx root pr lvh s \<noteq> Diverge"
    using setOptimisticToInvalid_cases [OF wf, of ctx root pr lvh] by (auto simp: SetOptimisticToInvalid_def)
  show "IsCanonical root s \<noteq> Diverge"
    by (auto simp: IsCanonical_def canonical_loop_spec [OF wf hd] split: option.split)
  show "AncestorRoot ctx root sl s \<noteq> Diverge"
  proof (cases "gm_get (nodeByRoot s) root")
    case (Some b)
    obtain r where "ancestor_loop (Suc (Suc (nextAddr s))) ctx s sl (Some b) = Ret r"
      using ancestor_loop_returns [OF wf lk [OF wf_lookup [OF wf Some]], of ctx sl] by auto
    then show ?thesis using Some by (simp add: AncestorRoot_def split: option.split prod.split)
  qed (simp add: AncestorRoot_def)
  show "LastRoot ep s \<noteq> Diverge"
    using hd by (auto simp: LastRoot_def lastRoot_loop_spec [OF wf] split: option.split prod.split)
  show "CommonAncestor ctx root root' s \<noteq> Diverge"
    using common_loop_returns [OF wf] wf_lookup [OF wf]
    by (auto simp: CommonAncestor_def split: option.split)
       (metis (no_types, lifting) add_less_mono mult_2 less_Suc_eq outcome.distinct(3))
  show "ForkChoiceDump ctx s \<noteq> Diverge" by (rule ForkChoiceDump_no_diverge [OF wf])
  show "IsViableForCheckpoint cp s \<noteq> Diverge"
    by (simp add: IsViableForCheckpoint_def Let_def split: option.split prod.split)
  show "TargetRootForEpoch root ep s \<noteq> Diverge" if "links_by_root s" by (rule TargetRootForEpoch_no_diverge [OF wf that])
qed

lemma two_store_created_once: "inj_on (\<lambda>a. n_root (nodes two_store a)) {..<nextAddr two_store}"
proof -
  have "nextAddr two_store = 2" "n_root (nodes two_store 0) = 1" "n_root (nodes two_store 1) = 2" by (code_simp, code_simp, code_simp)
  then show ?thesis by (auto simp: inj_on_def less_2_cases_iff)
qed

theorem fork_choice_terminates_witness:
  "Head (map fst) background (time_Unix 5) 5 two_store \<noteq> Diverge \<and> NewSlot background 32 two_store \<noteq> Diverge
    \<and> CommonAncestor background 1 2 two_store \<noteq> Diverge \<and> TargetRootForEpoch 2 0 two_store \<noteq> Diverge"
proof -
  have r: "fc_reach two_store" by (rule reach_two_store) (simp add: any_ctx_def)
  have "links_by_root two_store" by (rule created_once_links [OF reach_wf [OF r] two_store_created_once])
  then show ?thesis using fork_choice_terminates [OF r] by blast
qed

subsection \<open>Queries against the ancestry\<close>

lemma takeWhile_sorted_slots:
  assumes "wf_store s" "slots_increase s" "\<forall>a. n = Some a \<longrightarrow> a < nextAddr s"
  shows "set (takeWhile (\<lambda>b. n_slot (nodes s b) \<ge> sl) (ancestry_opt s n))
    = {b \<in> set (ancestry_opt s n). n_slot (nodes s b) \<ge> sl}"
proof (rule walk_induct [OF assms(1), where k = "Suc (Suc (nextAddr s))"])
  show "\<forall>a. n = Some a \<longrightarrow> a < nextAddr s \<and> Suc a < Suc (Suc (nextAddr s))" using assms(3) by auto
next
  fix k :: nat and a assume a: "a < nextAddr s" and ih:
    "set (takeWhile (\<lambda>b. n_slot (nodes s b) \<ge> sl) (ancestry_opt s (n_parent (nodes s a))))
      = {b \<in> set (ancestry_opt s (n_parent (nodes s a))). n_slot (nodes s b) \<ge> sl}"
  have "\<not> n_slot (nodes s b) \<ge> sl" if "\<not> n_slot (nodes s a) \<ge> sl" "b \<in> set (ancestry s a)" for b
    using ancestry_slots [OF assms(1,2) a that(2)] that(1) by fastforce
  then show "set (takeWhile (\<lambda>b. n_slot (nodes s b) \<ge> sl) (ancestry_opt s (Some a)))
    = {b \<in> set (ancestry_opt s (Some a)). n_slot (nodes s b) \<ge> sl}"
    using ih ancestry_unfold [OF assms(1) a] by auto
qed simp_all

lemma slots_increase_all: "slots_increase s \<longleftrightarrow> list_all (\<lambda>a. case n_parent (nodes s a) of None \<Rightarrow> True
    | Some p \<Rightarrow> n_slot (nodes s p) < n_slot (nodes s a)) [0..<nextAddr s]"
  by (auto simp: slots_increase_def list_all_iff split: option.split)

lemma line_slots_increase: "slots_increase line_store"
  unfolding slots_increase_all by code_simp

lemma fork_slots_increase: "slots_increase fork_store"
  unfolding slots_increase_all by code_simp

text \<open>
  \<^verbatim>\<open>IsCanonical\<close> on a well-formed store whose slots grow along the chain returns, and answers
  true exactly for a known root that occurs, at a slot not before the known block's, on the path
  from the head up to the tree root.
\<close>
theorem IsCanonical_spec:
  assumes "wf_store s" "slots_increase s"
  shows "IsCanonical root s = Ret (case gm_get (nodeByRoot s) root of None \<Rightarrow> False
    | Some a \<Rightarrow> \<exists>b\<in>set (ancestry_opt s (headNode s)). n_root (nodes s b) = root \<and> n_slot (nodes s a) \<le> n_slot (nodes s b))"
proof (cases "gm_get (nodeByRoot s) root")
  case (Some a)
  let ?P = "\<lambda>b. n_slot (nodes s b) \<ge> n_slot (nodes s a)" and ?xs = "ancestry_opt s (headNode s)"
  have h: "\<forall>a. headNode s = Some a \<longrightarrow> a < nextAddr s \<and> Suc a < Suc (Suc (nextAddr s))"
    using wf_head [OF assms(1)] by auto
  have "set (takeWhile ?P ?xs) = {b \<in> set ?xs. ?P b}"
    by (rule takeWhile_sorted_slots [OF assms]) (use wf_head [OF assms(1)] in auto)
  then show ?thesis using Some canonical_loop_spec [OF assms(1) h, of root "n_slot (nodes s a)"]
    by (auto simp: IsCanonical_def simp del: canonical_loop.simps)
qed (simp add: IsCanonical_def)

theorem IsCanonical_spec_witness:
  "IsCanonical 2 line_store = Ret (case gm_get (nodeByRoot line_store) 2 of None \<Rightarrow> False
    | Some a \<Rightarrow> \<exists>b\<in>set (ancestry_opt line_store (headNode line_store)).
        n_root (nodes line_store b) = 2 \<and> n_slot (nodes line_store a) \<le> n_slot (nodes line_store b))
   \<and> IsCanonical 2 line_store = Ret True"
  using IsCanonical_spec [OF wf_line_store line_slots_increase, of 2] by code_simp

text \<open>
  \<^verbatim>\<open>AncestorRoot\<close> returns the root of the first block, walking up from the given one, whose
  slot is at most the given slot, and the unknown-node error when there is none or the start is
  unknown.
\<close>
theorem AncestorRoot_spec:
  assumes "wf_store s"
  shows "AncestorRoot background root sl s = Ret
    (case gm_get (nodeByRoot s) root of
       None \<Rightarrow> (0, Some (Wrap ''could not determine ancestor root'' ErrNilNode))
     | Some a \<Rightarrow> (case find (\<lambda>b. n_slot (nodes s b) \<le> sl) (ancestry s a) of
         None \<Rightarrow> (0, Some (Wrap ''could not determine ancestor root'' ErrNilNode))
       | Some b \<Rightarrow> (n_root (nodes s b), None)))"
proof (cases "gm_get (nodeByRoot s) root")
  case (Some a)
  have "\<forall>b. Some a = Some b \<longrightarrow> b < nextAddr s \<and> Suc b < Suc (Suc (nextAddr s))"
    using wf_lookup [OF assms Some] by auto
  from ancestor_loop_spec [OF assms this, of sl] show ?thesis
    using Some by (simp add: AncestorRoot_def del: ancestor_loop.simps split: option.split)
qed (simp add: AncestorRoot_def)

theorem AncestorRoot_spec_witness:
  "AncestorRoot background 3 1 line_store = Ret (2, None)"
  using AncestorRoot_spec [OF wf_line_store, of 3 1] by code_simp

text \<open>
  \<^verbatim>\<open>CommonAncestor\<close> of two known, different blocks on a store whose slots grow along the chain
  returns the first block on the path of one that also lies on the path of the other, with its
  slot, or \<^verbatim>\<open>ErrUnknownCommonAncestor\<close> when the paths do not meet.
\<close>
theorem CommonAncestor_spec:
  assumes "wf_store s" "slots_increase s" "gm_get (nodeByRoot s) r1 = Some n1" "gm_get (nodeByRoot s) r2 = Some n2"
    "r1 \<noteq> r2"
  shows "CommonAncestor background r1 r2 s = Ret
    (case find (\<lambda>b. b \<in> set (ancestry s n2)) (ancestry s n1) of
       None \<Rightarrow> (0, 0, Some ErrUnknownCommonAncestor)
     | Some b \<Rightarrow> (n_root (nodes s b), n_slot (nodes s b), None))"
proof -
  have n: "n1 < nextAddr s" "n2 < nextAddr s" "n1 \<noteq> n2"
    using wf_lookup [OF assms(1)] wf_lookup_inj [OF assms(1)] assms(3-5) by blast+
  then have "n1 + n2 < Suc (2 * nextAddr s)" by simp
  from common_loop_spec [OF assms(1,2) n this] show ?thesis
    using assms(3-5) by (simp add: CommonAncestor_def del: common_loop.simps)
qed

theorem CommonAncestor_spec_witness:
  "CommonAncestor background 2 3 fork_store = Ret (1, 0, None)"
  using CommonAncestor_spec [OF wf_fork_store fork_slots_increase fork_store_facts(6,7)] by code_simp

lemma EpochEnd_bound:
  assumes "EpochEnd ep = (ee, None)" "sl div 32 \<le> ep"
  shows "sl \<le> ee"
proof -
  have "unat ee + 1 = 32 * (unat ep + 1)" using assms(1) by (simp add: EpochEnd_ok)
  moreover have "unat sl div 32 \<le> unat ep" using assms(2) by (simp add: u64_nat)
  ultimately show ?thesis by (simp add: u64_nat)
qed

text \<open>
  \<^verbatim>\<open>LastRoot\<close> panics when there is no head; otherwise, for an epoch whose last slot is
  representable, it returns the root of the first block from the head upwards whose slot is at
  most that slot, or the zero hash when there is none.
\<close>
theorem LastRoot_spec:
  assumes "wf_store s" "EpochEnd ep = (ee, None)"
  shows "LastRoot ep s = (case headNode s of None \<Rightarrow> Panic
    | Some h \<Rightarrow> Ret (case find (\<lambda>b. n_slot (nodes s b) \<le> ee) (ancestry s h) of None \<Rightarrow> 0
        | Some b \<Rightarrow> n_root (nodes s b)))"
proof (cases "headNode s")
  case (Some h)
  have h: "h < nextAddr s" by (rule wf_head [OF assms(1) Some])
  then have w: "\<forall>a. Some h = Some a \<longrightarrow> a < nextAddr s \<and> Suc a < Suc (Suc (nextAddr s))" by simp
  have "n_slot (nodes s h) \<le> ee" if "n_slot (nodes s h) div 32 \<le> ep"
    using EpochEnd_bound [OF assms(2) that] .
  then show ?thesis
    using Some lastRoot_loop_spec [OF assms(1) w, of ee] assms(2) ancestry_unfold [OF assms(1) h]
    by (auto simp: LastRoot_def simp del: lastRoot_loop.simps)
qed (simp add: LastRoot_def)

theorem LastRoot_spec_witness:
  "LastRoot 0 line_store = Ret 3"
proof -
  have "EpochEnd 0 = (31, None)" by (simp add: EpochEnd_ok params_simps MaxSafeEpoch_def word_less_nat_alt)
  moreover have "(case find (\<lambda>b. n_slot (nodes line_store b) \<le> 31) (ancestry line_store 2) of None \<Rightarrow> 0
      | Some b \<Rightarrow> n_root (nodes line_store b)) = 3" by code_simp
  ultimately show ?thesis using LastRoot_spec [OF wf_line_store, of 0 31] by (simp add: line_store_facts)
qed

end
