(* ===== verification/ForkSync.thy ===== *)
theory ForkSync
  imports ForkVotes
begin

text \<open>
  Optimistic status, rejected insertions, checkpoints and pruning.
\<close>

subsection \<open>Blocks over time\<close>

lemma step_same_block:
  assumes "fc_reach s" "fc_step any_ctx s t" "a < nextAddr s"
  shows "a < nextAddr t \<and> same_block (nodes t a) (nodes s a) \<and> (n_optimistic (nodes t a) \<longrightarrow> n_optimistic (nodes s a))"
  using assms(2) reach_wf [OF assms(1)]
proof (cases rule: fc_step_cases)
  case evolves
  then show ?thesis using assms(3) by (simp add: evolves_def)
next
  case (vote vs r sl)
  then show ?thesis using assms(3)
    by (cases "gm_get (nodeByRoot s) r")
      (simp_all add: ProcessAttestation_unknown ProcessAttestation_nodes(3),
       simp add: ProcessAttestation_def Let_def split: prod.splits if_splits)
next
  case (valid ctx root e)
  then obtain A where "t = clear_optimistic A s"
    using wf_SetOptimisticToValid [OF reach_wf [OF assms(1)], of ctx root] by auto
  then show ?thesis using assms(3) by (simp add: same_block_def)
qed

text \<open>
  (C10) No operation changes a stored block: slot, root, payload hash, justified and finalized epoch,
  arrival time and stability stay as they were at insertion, and a validated block stays validated.
\<close>
theorem blocks_immutable:
  assumes "fc_reach s" "fc_step any_ctx s t" "a < nextAddr s"
  shows "a < nextAddr t \<and> same_block (nodes t a) (nodes s a) \<and> (n_optimistic (nodes t a) \<longrightarrow> n_optimistic (nodes s a))"
  using assms by (rule step_same_block)

theorem blocks_immutable_witness:
  "same_block (nodes quorum_store 1) (nodes two_store 1)"
proof -
  have "fc_reach two_store" by (rule reach_two_store) (simp add: any_ctx_def)
  moreover have "fc_step any_ctx two_store quorum_store" by (rule vote_step) (simp add: quorum_store_def)
  moreover have "1 < nextAddr two_store" by code_simp
  ultimately show ?thesis using blocks_immutable by blast
qed

subsection \<open>Optimistic status\<close>

text \<open>
  (C11) When contexts are never cancelled, every ancestor of a validated block is validated in every
  reachable store.
\<close>
theorem valid_ancestors:
  assumes "fc_reach_live s" "a < nextAddr s" "\<not> n_optimistic (nodes s a)" "b \<in> set (ancestry s a)"
  shows "\<not> n_optimistic (nodes s b)"
  by (rule opt_ok_ancestors [OF reach_wf [OF assms(1)] fc_opt.reach_inv [OF assms(1)] assms(2-4)])

text \<open>
  \<^verbatim>\<open>SetOptimisticToValid\<close> of a known block in such a store returns without error and clears the
  optimistic flag of exactly the block and its ancestors; nothing else changes.
\<close>
theorem SetOptimisticToValid_spec:
  assumes "fc_reach_live s" "gm_get (nodeByRoot s) root = Some a"
  shows "SetOptimisticToValid background root s = Ret (clear_optimistic (set (ancestry s a)) s, None)"
  by (rule SetOptimisticToValid_exact [OF reach_wf [OF assms(1)] fc_opt.reach_inv [OF assms(1)] assms(2)])

theorem SetOptimisticToValid_spec_witness:
  "SetOptimisticToValid background 2 two_store = Ret (clear_optimistic (set (ancestry two_store 1)) two_store, None)"
proof -
  have "fc_reach_live two_store" by (rule reach_two_store) (simp add: live_ctx_def)
  then show ?thesis using SetOptimisticToValid_spec two_store_facts(1) by blast
qed

definition valid_two_store :: Store where
  "valid_two_store = clear_optimistic (set (ancestry two_store 1)) two_store"

theorem valid_ancestors_witness:
  "\<not> n_optimistic (nodes valid_two_store 0)"
proof -
  have live: "live_ctx background" by (simp add: live_ctx_def)
  have r: "fc_reach_live two_store" by (rule reach_two_store [where adm = live_ctx, OF live])
  have "SetOptimisticToValid background 2 two_store = Ret (valid_two_store, None)"
    unfolding valid_two_store_def
    by (rule SetOptimisticToValid_exact [OF reach_wf [OF r] fc_opt.reach_inv [OF r] two_store_facts(1)])
  then have "fc_step live_ctx two_store valid_two_store" by (rule valid_step [where adm = live_ctx, OF live])
  then have "fc_reach_live valid_two_store" by (rule reach.move [OF r])
  moreover have "1 < nextAddr valid_two_store" "\<not> n_optimistic (nodes valid_two_store 1)"
    "0 \<in> set (ancestry valid_two_store 1)" by code_simp+
  ultimately show ?thesis using valid_ancestors by blast
qed

text \<open>The context that is cancelled when the walk stands at a node.\<close>
definition cancelled_at :: "addr \<Rightarrow> ctxt" where
  "cancelled_at a = (\<lambda>x. x = AtNode a)"

text \<open>
  A validation cancelled half way leaves a validated block with an optimistic parent, and
  validating the block again with a live context reports success without repairing the parent.
\<close>
theorem cancelled_validation_gap:
  "case SetOptimisticToValid (cancelled_at 1) 3 line_store of
     Ret (t, e) \<Rightarrow> e = Some CtxErr \<and> \<not> n_optimistic (nodes t 2) \<and> n_optimistic (nodes t 1)
       \<and> (case SetOptimisticToValid background 3 t of
            Ret (u, e') \<Rightarrow> e' = None \<and> n_optimistic (nodes u 1) | _ \<Rightarrow> False)
   | _ \<Rightarrow> False"
  by code_simp

text \<open>
  \<^verbatim>\<open>SetOptimisticToInvalid\<close> panics for a known block without parent, such as the tree root: it
  reads the root of the nil parent.
\<close>
theorem SetOptimisticToInvalid_root_panics:
  assumes "gm_get (nodeByRoot s) root = Some a" "n_parent (nodes s a) = None"
  shows "SetOptimisticToInvalid ctx root pr lvh s = Panic"
  using assms by (simp add: SetOptimisticToInvalid_def setOptimisticToInvalid_def)

theorem SetOptimisticToInvalid_root_panics_witness:
  "SetOptimisticToInvalid background 1 0 5 line_store = Panic"
  by (rule SetOptimisticToInvalid_root_panics [OF line_store_facts(7)]) code_simp

subsection \<open>Insertions that add no child\<close>

text \<open>
  A block with an unknown parent is rejected with \<^verbatim>\<open>errInvalidParentRoot\<close> once there is a tree
  root, but it stays in the store: the root is known afterwards and is reported among the tips.
\<close>
theorem orphan_stays:
  assumes "wf_store s" "iter_ok iter" "gm_get (nodeByRoot s) root = None" "gm_get (nodeByRoot s) parentRoot = None"
    "treeRootNode s \<noteq> None"
  shows "\<exists>t. insert_node iter ctx clk s slot root parentRoot ph je fe = Ret (t, nextAddr s, Some errInvalidParentRoot)
    \<and> HasNode root t \<and> root \<in> set (fst (Tips iter t))"
proof (rule insert_node_cases [where iter = iter and ctx = ctx and clk = clk and slot = slot
      and root = root and parentRoot = parentRoot and ph = ph and je = je and fe = fe, OF assms(1) refl], goal_cases)
  case (3 n tg)
  have n: "n_root n = root" "n_children n = []" by (simp_all add: 3(4) new_node_def)
  have g: "gm_get (nodeByRoot (with_node n ph s)) root = Some (nextAddr s)"
    "n_children (nodes (with_node n ph s) (nextAddr s)) = []"
    by (simp_all add: with_node_def n)
  have "gm_order (nodeByRoot (with_node n ph s)) (iter (nodeByRoot (with_node n ph s)))"
    using assms(2) wf_storeD(2) [OF 3(6)] by (simp add: iter_ok_def index_ok_def)
  then have "root \<in> set (iter (nodeByRoot (with_node n ph s)))" using g(1) gm_order_get by fastforce
  then show ?thesis using 3(5) g by (auto simp: HasNode_def Tips_def tips_def Let_def)
qed (use assms in auto)

theorem orphan_stays_witness:
  "\<exists>t. insert_node (map fst) background (\<lambda>_. 1000) line_store 5 8 77 8 0 0 = Ret (t, 3, Some errInvalidParentRoot)
    \<and> HasNode 8 t \<and> 8 \<in> set (fst (Tips (map fst) t))"
proof -
  have "gm_get (nodeByRoot line_store) 8 = None" "gm_get (nodeByRoot line_store) 77 = None" by code_simp+
  then show ?thesis
    using orphan_stays [OF wf_line_store iter_ok_fst, of 8 77] line_store_facts(1,2) by simp
qed

text \<open>
  \<^verbatim>\<open>updateCheckpoints\<close> on a well-formed store always returns, and moves the justified and the
  finalized epoch to the maximum of the old and the new one, so neither ever decreases.
\<close>
theorem updateCheckpoints_monotone:
  assumes "wf_store s"
  shows "\<exists>t e. updateCheckpoints ctx jc fc s = Ret (t, e)
    \<and> cpEpoch (justifiedCheckpoint t) = max (cpEpoch (justifiedCheckpoint s)) (cpEpoch jc)
    \<and> cpEpoch (finalizedCheckpoint t) = max (cpEpoch (finalizedCheckpoint s)) (cpEpoch fc)"
  by (rule updateCheckpoints_returns [OF assms]) blast

theorem updateCheckpoints_monotone_witness:
  "\<exists>t e. updateCheckpoints background \<lparr>cpEpoch = 2, cpRoot = 3\<rparr> \<lparr>cpEpoch = 1, cpRoot = 2\<rparr> line_store = Ret (t, e)
    \<and> cpEpoch (justifiedCheckpoint t) = 2 \<and> cpEpoch (finalizedCheckpoint t) = 1"
proof -
  have "cpEpoch (justifiedCheckpoint line_store) = 0" "cpEpoch (finalizedCheckpoint line_store) = 0" by code_simp+
  then show ?thesis
    using updateCheckpoints_monotone [OF wf_line_store, of background "\<lparr>cpEpoch = 2, cpRoot = 3\<rparr>" "\<lparr>cpEpoch = 1, cpRoot = 2\<rparr>"]
    by (simp add: max_def)
qed

end
