(* ===== verification/ForkPrune.thy ===== *)
theory ForkPrune
  imports ForkVotes
begin

text \<open>
  Pruning below the finalized block: the walk deletes only blocks that do not descend from it.
\<close>

lemma ancestry_cong: "(\<And>b. n_parent (nodes s' b) = n_parent (nodes s b)) \<Longrightarrow> ancestry s' a = ancestry s a"
proof (induction s' a rule: ancestry.induct)
  case (1 s' a)
  then show ?case by (subst (1 2) ancestry.simps) (auto split: option.split)
qed

text \<open>A stretch of the walk: parents stay, and every deleted root is that of a non-descendant.\<close>
definition walk_of :: "addr \<Rightarrow> Store \<Rightarrow> Store \<Rightarrow> bool" where
  "walk_of fin s s' \<longleftrightarrow> shrinks s s' \<and> (\<forall>a. n_parent (nodes s' a) = n_parent (nodes s a))
     \<and> (\<forall>r. gm_get (nodeByRoot s') r = gm_get (nodeByRoot s) r
          \<or> (\<exists>c<nextAddr s. n_root (nodes s c) = r \<and> fin \<notin> set (ancestry s c)))"

lemma walk_of_refl [simp]: "walk_of fin s s"
  by (simp add: walk_of_def)

lemma walk_of_trans:
  assumes "walk_of fin s s'" "walk_of fin s' s''"
  shows "walk_of fin s s''"
proof -
  have sh: "shrinks s s''" using assms shrinks_trans unfolding walk_of_def by blast
  have p: "n_parent (nodes s' a) = n_parent (nodes s a)" "n_parent (nodes s'' a) = n_parent (nodes s' a)" for a
    using assms unfolding walk_of_def by blast+
  have anc: "ancestry s' a = ancestry s a" for a by (rule ancestry_cong) (rule p)
  have r: "n_root (nodes s' a) = n_root (nodes s a)" for a
    using shrinksD(2) [of s s' a] assms(1) by (simp add: walk_of_def node_le_def same_block_def)
  have n: "nextAddr s' = nextAddr s" using assms(1) shrinksD(1) unfolding walk_of_def by blast
  have "gm_get (nodeByRoot s'') x = gm_get (nodeByRoot s) x
      \<or> (\<exists>c<nextAddr s. n_root (nodes s c) = x \<and> fin \<notin> set (ancestry s c))" for x
    using assms unfolding walk_of_def anc r n by metis
  then show ?thesis using sh p unfolding walk_of_def by metis
qed

lemma walk_of_shrinks: "walk_of fin s s' \<Longrightarrow> shrinks s s'"
  by (simp add: walk_of_def)

lemma walk_of_delete:
  assumes "node < nextAddr s" "fin \<notin> set (ancestry s node)"
  shows "walk_of fin s (delete_node node (upd_node node (\<lambda>x. x\<lparr>n_children := []\<rparr>) s))"
  using assms shrinks_trans [OF shrinks_clear_children shrinks_delete, of s node node]
  unfolding walk_of_def by auto

lemma walk_of_target: "walk_of fin s (upd_node a (\<lambda>x. x\<lparr>n_target := None\<rparr>) s)"
  using shrinks_clear_target by (simp add: walk_of_def)

definition apart :: "Store \<Rightarrow> addr \<Rightarrow> addr \<Rightarrow> bool" where
  "apart s fin c \<longleftrightarrow> c = fin \<or> fin \<notin> set (ancestry s c)"

lemma apart_walk: "walk_of fin s s' \<Longrightarrow> apart s' fin c = apart s fin c"
  unfolding apart_def walk_of_def by (metis ancestry_cong)

lemma apart_child:
  assumes "wf_store s" "a < nextAddr s" "c \<in> set (n_children (nodes s a))" "a \<noteq> fin" "apart s fin a"
  shows "apart s fin c"
proof -
  have c: "c < nextAddr s" using wf_child [OF assms(1-3)] by simp
  have "n_parent (nodes s c) = None \<or> n_parent (nodes s c) = Some a"
    using node_okE(3) [OF wf_node [OF assms(1,2)] assms(3)] by (cases "n_parent (nodes s c)") auto
  then show ?thesis using assms(4,5) ancestry_unfold [OF assms(1) c] by (auto simp: apart_def)
qed

lemma prune_walk:
  "wf_store s \<Longrightarrow> node < nextAddr s \<Longrightarrow> apart s fin node
     \<Longrightarrow> pruneFinalizedNodeByRootMap k ctx s node fin = Ret (s', e) \<Longrightarrow> walk_of fin s s'"
  "wf_store s \<Longrightarrow> \<forall>c\<in>set cs. c < nextAddr s \<and> apart s fin c
     \<Longrightarrow> prune_children k ctx s cs fin = Ret (s', e) \<Longrightarrow> walk_of fin s s'"
proof (induction k ctx s node fin and k ctx s cs fin arbitrary: s' e and s' e
    rule: pruneFinalizedNodeByRootMap_prune_children.induct)
  case (2 k ctx s node fin)
  show ?case
  proof (cases "ctx (AtNode node) \<or> node = fin")
    case True
    then show ?thesis using 2(5) walk_of_target by (auto split: if_splits)
  next
    case False
    then obtain s1 e1 where r: "prune_children k ctx s (n_children (nodes s node)) fin = Ret (s1, e1)"
      using 2(5) by (auto simp: go_simps)
    have w: "walk_of fin s s1"
      using 2(1) [OF _ _ 2(2) _ r] False apart_child [OF 2(2,3) _ _ 2(4)] wf_child [OF 2(2,3)] by auto
    have n: "node < nextAddr s1" "fin \<notin> set (ancestry s1 node)"
      using shrinksD(1) [OF walk_of_shrinks [OF w]] 2(3,4) apart_walk [OF w] False unfolding apart_def by auto
    show ?thesis using 2(5) False r w walk_of_trans [OF w walk_of_delete [OF n]]
      by (auto split: option.splits)
  qed
next
  case (4 k ctx s c cs fin)
  then obtain s1 e1 where r: "pruneFinalizedNodeByRootMap k ctx s c fin = Ret (s1, e1)"
    by (auto simp: go_simps)
  have w: "walk_of fin s s1" using 4(1) [OF 4(3) _ _ r] 4(4) by simp
  note sh = walk_of_shrinks [OF w]
  show ?case
  proof (cases e1)
    case None
    then have "prune_children k ctx s1 cs fin = Ret (s', e)" using r 4(5) by simp
    moreover have "\<forall>c\<in>set cs. c < nextAddr s1 \<and> apart s1 fin c"
      using 4(4) shrinksD(1) [OF sh] apart_walk [OF w] by simp
    ultimately have "walk_of fin s1 s'"
      using 4(2) [OF r _ None] wf_shrinks [OF 4(3) sh] by simp
    then show ?thesis by (rule walk_of_trans [OF w])
  next
    case (Some x)
    then show ?thesis using r 4(5) w by simp
  qed
qed auto

lemma prune_spine:
  assumes "wf_store s" "gm_get (nodeByRoot s) (cpRoot (finalizedCheckpoint s)) = Some fin"
    "n_parent (nodes s fin) \<noteq> None" "treeRootNode s = Some tr"
    "EpochStart (cpEpoch (finalizedCheckpoint s)) = (n_slot (nodes s fin), None)"
    "prune ctx s = Ret (t, None)"
  obtains s1 where "pruneFinalizedNodeByRootMap (Suc (nextAddr s)) ctx s tr fin = Ret (s1, None)"
    "t = (upd_node fin (\<lambda>x. x\<lparr>n_parent := None\<rparr>) s1)\<lparr>treeRootNode := Some fin\<rparr>"
proof -
  have tn: "tr < nextAddr s" using wf_tree_root [OF assms(1,4)] by simp
  obtain s1 e where r: "pruneFinalizedNodeByRootMap (Suc (nextAddr s)) ctx s tr fin = Ret (s1, e)" "shrinks s s1"
    using prune_shrinks(1) [OF assms(1) tn, of "Suc (nextAddr s)" ctx fin] tn by fastforce
  have sl: "n_slot (nodes s1 fin) = n_slot (nodes s fin)"
    using shrinksD(2) [OF r(2)] by (simp add: node_le_def same_block_def)
  have e: "e = None" using assms(2-4,6) r(1) by (cases e) (auto simp: prune_def simp del: pruneFinalizedNodeByRootMap.simps)
  show ?thesis
    by (rule that [of s1]) (use assms(2-6) r(1) sl e in \<open>auto simp: prune_def simp del: pruneFinalizedNodeByRootMap.simps\<close>)
qed

text \<open>
  A successful prune at a finalized block that lies exactly at its epoch's start makes it the
  parentless tree root and keeps every block that descends from it, provided no two stored blocks
  share a root.
\<close>
theorem prune_keeps_descendants:
  assumes "wf_store s" "inj_on (\<lambda>a. n_root (nodes s a)) {..<nextAddr s}"
    "gm_get (nodeByRoot s) (cpRoot (finalizedCheckpoint s)) = Some fin" "n_parent (nodes s fin) \<noteq> None"
    "EpochStart (cpEpoch (finalizedCheckpoint s)) = (n_slot (nodes s fin), None)"
    "prune ctx s = Ret (t, None)"
  shows "treeRootNode t = Some fin \<and> n_parent (nodes t fin) = None
    \<and> (\<forall>r b. gm_get (nodeByRoot s) r = Some b \<longrightarrow> fin \<in> set (ancestry s b) \<longrightarrow> gm_get (nodeByRoot t) r = Some b)"
proof -
  obtain tr where tr: "treeRootNode s = Some tr" using wf_lookup_tree [OF assms(1,3)] by blast
  note root = wf_tree_root [OF assms(1) tr]
  have "apart s fin tr" using ancestry_unfold [OF assms(1), of tr] root by (auto simp: apart_def)
  moreover obtain s1 where r: "pruneFinalizedNodeByRootMap (Suc (nextAddr s)) ctx s tr fin = Ret (s1, None)"
      "t = (upd_node fin (\<lambda>x. x\<lparr>n_parent := None\<rparr>) s1)\<lparr>treeRootNode := Some fin\<rparr>"
    using prune_spine [OF assms(1,3,4) tr assms(5,6)] by blast
  ultimately have w: "walk_of fin s s1" using prune_walk(1) [OF assms(1) _ _ r(1)] root by blast
  have "gm_get (nodeByRoot s1) x = Some b" if g: "gm_get (nodeByRoot s) x = Some b" "fin \<in> set (ancestry s b)" for x b
  proof (rule ccontr)
    assume "gm_get (nodeByRoot s1) x \<noteq> Some b"
    then obtain c where c: "c < nextAddr s" "n_root (nodes s c) = x" "fin \<notin> set (ancestry s c)"
      using w g(1) unfolding walk_of_def by metis
    have "c = b" using assms(2) c(1,2) wf_lookup [OF assms(1) g(1)] wf_lookup_root [OF assms(1) g(1)]
      by (auto simp: inj_on_def)
    then show False using c(3) g(2) by simp
  qed
  then show ?thesis unfolding r(2) by simp
qed

text \<open>The line of blocks at slots 0, 32 and 33, finalized at the second.\<close>
definition final_store :: Store where
  "final_store = (grow (grow (grow New_store 0 1 0) 32 2 1) 33 3 2)\<lparr>finalizedCheckpoint := \<lparr>cpEpoch = 1, cpRoot = 2\<rparr>\<rparr>"

lemma wf_final_store: "wf_store final_store"
  unfolding final_store_def by (intro wf_checkpoints wf_grow wf_New)

lemma final_store_facts:
  "nextAddr final_store = 3" "treeRootNode final_store = Some 0" "finalizedCheckpoint final_store = \<lparr>cpEpoch = 1, cpRoot = 2\<rparr>"
  "gm_get (nodeByRoot final_store) 2 = Some (Suc 0)" "n_parent (nodes final_store (Suc 0)) = Some 0"
  "n_slot (nodes final_store (Suc 0)) = 32" "n_root (nodes final_store 0) = 1"
  "n_root (nodes final_store (Suc 0)) = 2" "n_root (nodes final_store 2) = 3"
  "gm_get (nodeByRoot final_store) 3 = Some 2" "Suc 0 \<in> set (ancestry final_store 2)"
  by code_simp+

theorem prune_keeps_descendants_witness:
  "\<exists>t. prune background final_store = Ret (t, None) \<and> treeRootNode t = Some 1 \<and> gm_get (nodeByRoot t) 3 = Some 2"
proof -
  have "case pruneFinalizedNodeByRootMap (Suc 3) background final_store 0 1 of
      Ret (s1, e) \<Rightarrow> e = None \<and> n_slot (nodes s1 1) = 32 | _ \<Rightarrow> False" by code_simp
  then obtain s1 where s1: "pruneFinalizedNodeByRootMap (Suc 3) background final_store 0 1 = Ret (s1, None)"
    "n_slot (nodes s1 (Suc 0)) = 32" by (auto split: outcome.splits simp del: pruneFinalizedNodeByRootMap.simps)
  have es: "EpochStart 1 = (32, None)" by (simp add: EpochStart_ok)
  have t: "prune background final_store
      = Ret ((upd_node 1 (\<lambda>x. x\<lparr>n_parent := None\<rparr>) s1)\<lparr>treeRootNode := Some 1\<rparr>, None)" (is "_ = Ret (?t, None)")
    unfolding prune_def final_store_facts using s1 es
    by (simp add: final_store_facts Let_def del: pruneFinalizedNodeByRootMap.simps)
  have "inj_on (\<lambda>a. n_root (nodes final_store a)) {..<nextAddr final_store}"
  proof -
    have "{..<nextAddr final_store} = {0, Suc 0, 2}" by (auto simp: final_store_facts)
    then show ?thesis by (simp add: final_store_facts)
  qed
  then have "treeRootNode ?t = Some (Suc 0) \<and> n_parent (nodes ?t (Suc 0)) = None
    \<and> (\<forall>r b. gm_get (nodeByRoot final_store) r = Some b \<longrightarrow> Suc 0 \<in> set (ancestry final_store b) \<longrightarrow> gm_get (nodeByRoot ?t) r = Some b)"
    using es by (intro prune_keeps_descendants [OF wf_final_store _ _ _ _ t]) (simp_all add: final_store_facts)
  then have "gm_get (nodeByRoot ?t) 3 = Some 2" "treeRootNode ?t = Some 1"
    using final_store_facts(10,11) by (blast, simp)
  then show ?thesis using t by blast
qed

end
