(* ===== verification/BeaconState.thy ===== *)
theory BeaconState
  imports SlotTime
begin

text \<open>
  The part of the beacon state that epoch processing and the validator registry read and write
  (\<^verbatim>\<open>beacon-chain/state/state-native\<close>), its epochs (\<^verbatim>\<open>beacon-chain/core/time\<close>) and the recent
  block roots (\<^verbatim>\<open>beacon-chain/core/helpers/block.go\<close>).

  The state is a value: the reference counts and copy-on-write of the implementation make an update
  invisible to other holders, and its locks protect single reads and writes. A slice that the code
  tests for nil is an option. The multi-value slices of the experimental feature are off, as by
  default; entries of the validator slice are non-nil, and the
  entries of the root and mix slices, arrays of 32 bytes in Go, are lists of bytes.
\<close>

subsection \<open>State\<close>

record Validator =
  v_PublicKey :: "u8 list"
  v_WithdrawalCredentials :: "u8 list"
  v_EffectiveBalance :: u64
  v_Slashed :: bool
  v_ActivationEligibilityEpoch :: Epoch
  v_ActivationEpoch :: Epoch
  v_ExitEpoch :: Epoch
  v_WithdrawableEpoch :: Epoch

definition zero_validator :: Validator where
  "zero_validator = \<lparr>v_PublicKey = [], v_WithdrawalCredentials = [], v_EffectiveBalance = 0, v_Slashed = False, v_ActivationEligibilityEpoch = 0,
     v_ActivationEpoch = 0, v_ExitEpoch = 0, v_WithdrawableEpoch = 0\<rparr>"

text \<open>The checkpoint of the protocol buffer, whose root is a byte slice.\<close>
record CheckpointPB =
  c_Epoch :: Epoch
  c_Root :: "u8 list"

record AttestationData =
  ad_Slot :: Slot
  ad_CommitteeIndex :: u64
  ad_BeaconBlockRoot :: "u8 list"
  ad_Source :: CheckpointPB
  ad_Target :: CheckpointPB

record PendingAttestation =
  pa_AggregationBits :: "u8 list"
  pa_Data :: AttestationData
  pa_InclusionDelay :: Slot
  pa_ProposerIndex :: ValidatorIndex

record Eth1Data =
  e_DepositRoot :: "u8 list"
  e_DepositCount :: u64
  e_BlockHash :: "u8 list"

record SyncCommittee =
  sc_Pubkeys :: "u8 list list"
  sc_AggregatePubkey :: "u8 list"

record HistoricalSummary =
  hs_BlockSummaryRoot :: "u8 list"
  hs_StateSummaryRoot :: "u8 list"

record BeaconBlockHeader =
  bh_Slot :: Slot
  bh_ProposerIndex :: ValidatorIndex
  bh_ParentRoot :: "u8 list"
  bh_StateRoot :: "u8 list"
  bh_BodyRoot :: "u8 list"

record Fork =
  fk_PreviousVersion :: "u8 list"
  fk_CurrentVersion :: "u8 list"
  fk_Epoch :: Epoch

record ExecutionPayloadHeader =
  ph_ParentHash :: "u8 list"
  ph_FeeRecipient :: "u8 list"
  ph_StateRoot :: "u8 list"
  ph_ReceiptsRoot :: "u8 list"
  ph_LogsBloom :: "u8 list"
  ph_PrevRandao :: "u8 list"
  ph_BlockNumber :: u64
  ph_GasLimit :: u64
  ph_GasUsed :: u64
  ph_Timestamp :: u64
  ph_ExtraData :: "u8 list"
  ph_BaseFeePerGas :: "u8 list"
  ph_BlockHash :: "u8 list"
  ph_TransactionsRoot :: "u8 list"

record ExecutionPayloadHeaderCapella = ExecutionPayloadHeader +
  ph_WithdrawalsRoot :: "u8 list"

record ExecutionPayloadHeaderDeneb = ExecutionPayloadHeaderCapella +
  ph_BlobGasUsed :: u64
  ph_ExcessBlobGas :: u64

record BeaconState =
  bs_slot :: Slot
  bs_version :: int
  bs_eth1DataVotes :: "Eth1Data list"
  bs_validators :: "Validator list option"
  bs_balances :: "u64 list option"
  bs_slashings :: "u64 list"
  bs_blockRoots :: "u8 list list option"
  bs_stateRoots :: "u8 list list option"
  bs_randaoMixes :: "u8 list list option"
  bs_previousEpochAttestations :: "PendingAttestation list"
  bs_currentEpochAttestations :: "PendingAttestation list"
  bs_previousEpochParticipation :: "u8 list option"
  bs_currentEpochParticipation :: "u8 list option"
  bs_justificationBits :: "u8 list"
  bs_previousJustifiedCheckpoint :: CheckpointPB
  bs_currentJustifiedCheckpoint :: CheckpointPB
  bs_finalizedCheckpoint :: CheckpointPB
  bs_inactivityScores :: "u64 list"
  bs_currentSyncCommittee :: "SyncCommittee option"
  bs_nextSyncCommittee :: "SyncCommittee option"
  bs_historicalRoots :: "u8 list list"
  bs_historicalSummaries :: "HistoricalSummary list"
  bs_eth1Data :: "Eth1Data option"
  bs_eth1DepositIndex :: u64
  bs_nextWithdrawalIndex :: u64
  bs_nextWithdrawalValidatorIndex :: ValidatorIndex
  bs_latestBlockHeader :: "BeaconBlockHeader option"
  bs_genesisTime :: u64
  bs_genesisValidatorsRoot :: "u8 list"
  bs_fork :: "Fork option"
  bs_latestExecutionPayloadHeader :: "ExecutionPayloadHeader option"
  bs_latestExecutionPayloadHeaderCapella :: "ExecutionPayloadHeaderCapella option"
  bs_latestExecutionPayloadHeaderDeneb :: "ExecutionPayloadHeaderDeneb option"

text \<open>Versions of the state (\<^verbatim>\<open>runtime/version\<close>) and the mainnet configuration.\<close>
definition Phase0 :: int where "Phase0 = 0"
definition Altair :: int where "Altair = 1"
definition Bellatrix :: int where "Bellatrix = 2"
definition Capella :: int where "Capella = 3"
definition Deneb :: int where "Deneb = 4"

definition FarFutureEpoch :: Epoch where "FarFutureEpoch = - 1"
definition FarFutureSlot :: Slot where "FarFutureSlot = - 1"
definition AltairForkEpoch :: Epoch where "AltairForkEpoch = 74240"
definition BellatrixForkEpoch :: Epoch where "BellatrixForkEpoch = 144896"
definition CapellaForkEpoch :: Epoch where "CapellaForkEpoch = 194048"
definition DenebForkEpoch :: Epoch where "DenebForkEpoch = 269568"
definition SlotsPerHistoricalRoot :: Slot where "SlotsPerHistoricalRoot = 8192"
definition EpochsPerHistoricalVector :: Epoch where "EpochsPerHistoricalVector = 65536"
definition EpochsPerSlashingsVector :: Epoch where "EpochsPerSlashingsVector = 8192"
definition MaxSeedLookahead :: Epoch where "MaxSeedLookahead = 4"
definition MinSeedLookahead :: Epoch where "MinSeedLookahead = 1"
definition MinValidatorWithdrawabilityDelay :: Epoch where "MinValidatorWithdrawabilityDelay = 256"
definition MinEpochsToInactivityPenalty :: Epoch where "MinEpochsToInactivityPenalty = 4"
definition MinPerEpochChurnLimit :: u64 where "MinPerEpochChurnLimit = 4"
definition ChurnLimitQuotient :: u64 where "ChurnLimitQuotient = 65536"
definition MaxPerEpochActivationChurnLimit :: u64 where "MaxPerEpochActivationChurnLimit = 8"
definition EffectiveBalanceIncrement :: u64 where "EffectiveBalanceIncrement = 1000000000"
definition MaxEffectiveBalance :: u64 where "MaxEffectiveBalance = 32000000000"
definition EjectionBalance :: u64 where "EjectionBalance = 16000000000"
definition HysteresisQuotient :: u64 where "HysteresisQuotient = 4"
definition HysteresisDownwardMultiplier :: u64 where "HysteresisDownwardMultiplier = 1"
definition HysteresisUpwardMultiplier :: u64 where "HysteresisUpwardMultiplier = 5"
definition BaseRewardFactor :: u64 where "BaseRewardFactor = 64"
definition BaseRewardsPerEpoch :: u64 where "BaseRewardsPerEpoch = 4"
definition ProposerRewardQuotient :: u64 where "ProposerRewardQuotient = 8"
definition WhistleBlowerRewardQuotient :: u64 where "WhistleBlowerRewardQuotient = 512"
definition InactivityPenaltyQuotient :: u64 where "InactivityPenaltyQuotient = 67108864"
definition ProportionalSlashingMultiplier :: u64 where "ProportionalSlashingMultiplier = 1"

lemmas state_params = FarFutureEpoch_def FarFutureSlot_def SlotsPerHistoricalRoot_def
  EpochsPerHistoricalVector_def EpochsPerSlashingsVector_def MaxSeedLookahead_def MinSeedLookahead_def
  MinValidatorWithdrawabilityDelay_def MinEpochsToInactivityPenalty_def MinPerEpochChurnLimit_def
  ChurnLimitQuotient_def MaxPerEpochActivationChurnLimit_def EffectiveBalanceIncrement_def
  MaxEffectiveBalance_def EjectionBalance_def HysteresisQuotient_def HysteresisDownwardMultiplier_def
  HysteresisUpwardMultiplier_def BaseRewardFactor_def BaseRewardsPerEpoch_def ProposerRewardQuotient_def
  WhistleBlowerRewardQuotient_def InactivityPenaltyQuotient_def ProportionalSlashingMultiplier_def
  Phase0_def Altair_def Bellatrix_def Capella_def Deneb_def

definition ErrOutOfBounds :: go_error where "ErrOutOfBounds = Sentinel ''index out of bounds''"
definition ErrNilValidatorsInState :: go_error where
  "ErrNilValidatorsInState = Sentinel ''state has nil validator slice''"

definition vals :: "BeaconState \<Rightarrow> Validator list" where
  "vals s = (case bs_validators s of None \<Rightarrow> [] | Some v \<Rightarrow> v)"

definition bals :: "BeaconState \<Rightarrow> u64 list" where
  "bals s = (case bs_balances s of None \<Rightarrow> [] | Some b \<Rightarrow> b)"

subsection \<open>Reading\<close>

text \<open>\<^verbatim>\<open>uint64(len(xs)) <= uint64(idx)\<close>: the length of a slice always fits.\<close>
definition out_of_range :: "'a list \<Rightarrow> u64 \<Rightarrow> bool" where
  "out_of_range xs idx \<longleftrightarrow> length xs \<le> unat idx"

definition validatorAtIndex :: "BeaconState \<Rightarrow> ValidatorIndex \<Rightarrow> Validator option result" where
  "validatorAtIndex s idx = (case bs_validators s of
     None \<Rightarrow> (Some zero_validator, None)
   | Some v \<Rightarrow> if out_of_range v idx then (None, Some (Wrap ''validator index does not exist'' ErrOutOfBounds))
       else (Some (v ! unat idx), None))"

definition ValidatorAtIndex :: "BeaconState \<Rightarrow> ValidatorIndex \<Rightarrow> Validator option result" where
  "ValidatorAtIndex s idx = validatorAtIndex s idx"

definition ValidatorAtIndexReadOnly :: "BeaconState \<Rightarrow> ValidatorIndex \<Rightarrow> Validator option result" where
  "ValidatorAtIndexReadOnly s idx = (case bs_validators s of
     None \<Rightarrow> (None, Some ErrNilValidatorsInState)
   | Some v \<Rightarrow> if out_of_range v idx then (None, Some (Wrap ''validator index does not exist'' ErrOutOfBounds))
       else (Some (v ! unat idx), None))"

definition PubkeyAtIndex :: "BeaconState \<Rightarrow> ValidatorIndex \<Rightarrow> u8 list" where
  "PubkeyAtIndex s idx = (if out_of_range (vals s) idx then replicate 48 0
     else take 48 (v_PublicKey (vals s ! unat idx) @ replicate 48 0))"

definition PublicKeys :: "BeaconState \<Rightarrow> u8 list list" where
  "PublicKeys s = map (\<lambda>v. take 48 (v_PublicKey v @ replicate 48 0)) (vals s)"

definition NumValidators :: "BeaconState \<Rightarrow> int" where
  "NumValidators s = int (length (vals s))"

text \<open>The callback reads one validator and updates the variables it closes over.\<close>
fun read_every :: "(nat \<Rightarrow> Validator \<Rightarrow> 'x \<Rightarrow> 'x result) \<Rightarrow> nat \<Rightarrow> Validator list \<Rightarrow> 'x \<Rightarrow> 'x result" where
  "read_every f i [] x = (x, None)"
| "read_every f i (v # vs) x = (case f i v x of
     (x', Some err) \<Rightarrow> (x', Some err)
   | (x', None) \<Rightarrow> read_every f (Suc i) vs x')"

definition ReadFromEveryValidator ::
  "BeaconState \<Rightarrow> (nat \<Rightarrow> Validator \<Rightarrow> 'x \<Rightarrow> 'x result) \<Rightarrow> 'x \<Rightarrow> 'x result" where
  "ReadFromEveryValidator s f x = (case bs_validators s of
     None \<Rightarrow> (x, Some ErrNilValidatorsInState) | Some v \<Rightarrow> read_every f 0 v x)"

definition balanceAtIndex :: "BeaconState \<Rightarrow> ValidatorIndex \<Rightarrow> u64 result" where
  "balanceAtIndex s idx = (case bs_balances s of
     None \<Rightarrow> (0, None)
   | Some b \<Rightarrow> if out_of_range b idx then (0, Some (Wrap ''balance index does not exist'' ErrOutOfBounds))
       else (b ! unat idx, None))"

definition BalanceAtIndex :: "BeaconState \<Rightarrow> ValidatorIndex \<Rightarrow> u64 result" where
  "BalanceAtIndex s idx = balanceAtIndex s idx"

definition BalancesLength :: "BeaconState \<Rightarrow> int" where
  "BalancesLength s = int (length (bals s))"

definition BlockRootAtIndex :: "BeaconState \<Rightarrow> u64 \<Rightarrow> u8 list result" where
  "BlockRootAtIndex s idx = (case bs_blockRoots s of
     None \<Rightarrow> ([], None)
   | Some r \<Rightarrow> if out_of_range r idx then ([], Some (Wrap ''block root index does not exist'' ErrOutOfBounds))
       else (r ! unat idx, None))"

definition StateRootAtIndex :: "BeaconState \<Rightarrow> u64 \<Rightarrow> u8 list option result" where
  "StateRootAtIndex s idx = (case bs_stateRoots s of
     None \<Rightarrow> (None, None)
   | Some r \<Rightarrow> if out_of_range r idx then (None, Some (Wrap ''state root index does not exist'' ErrOutOfBounds))
       else (Some (r ! unat idx), None))"

definition MatchCurrentJustifiedCheckpoint :: "BeaconState \<Rightarrow> CheckpointPB \<Rightarrow> bool" where
  "MatchCurrentJustifiedCheckpoint s c \<longleftrightarrow>
     (if c_Epoch c \<noteq> c_Epoch (bs_currentJustifiedCheckpoint s) then False
      else c_Root c = c_Root (bs_currentJustifiedCheckpoint s))"

definition MatchPreviousJustifiedCheckpoint :: "BeaconState \<Rightarrow> CheckpointPB \<Rightarrow> bool" where
  "MatchPreviousJustifiedCheckpoint s c \<longleftrightarrow>
     (if c_Epoch c \<noteq> c_Epoch (bs_previousJustifiedCheckpoint s) then False
      else c_Root c = c_Root (bs_previousJustifiedCheckpoint s))"

definition RandaoMixAtIndex :: "BeaconState \<Rightarrow> u64 \<Rightarrow> u8 list result" where
  "RandaoMixAtIndex s idx = (case bs_randaoMixes s of
     None \<Rightarrow> ([], None)
   | Some r \<Rightarrow> if out_of_range r idx then ([], Some (Wrap ''randao mix index does not exist'' ErrOutOfBounds))
       else (r ! unat idx, None))"

definition RandaoMixesLength :: "BeaconState \<Rightarrow> int" where
  "RandaoMixesLength s = (case bs_randaoMixes s of None \<Rightarrow> 0 | Some r \<Rightarrow> int (length r))"

text \<open>Pending attestations exist in the first version of the state only.\<close>
definition errNotSupported :: "string \<Rightarrow> go_error" where
  "errNotSupported funcName = Fresh (funcName @ '' is not supported'')"

definition PreviousEpochAttestations :: "BeaconState \<Rightarrow> PendingAttestation list result" where
  "PreviousEpochAttestations s = (if bs_version s \<noteq> Phase0 then ([], Some (errNotSupported ''PreviousEpochAttestations''))
     else (bs_previousEpochAttestations s, None))"

definition CurrentEpochAttestations :: "BeaconState \<Rightarrow> PendingAttestation list result" where
  "CurrentEpochAttestations s = (if bs_version s \<noteq> Phase0 then ([], Some (errNotSupported ''CurrentEpochAttestations''))
     else (bs_currentEpochAttestations s, None))"

subsection \<open>Writing\<close>

definition UpdateValidatorAtIndex :: "ValidatorIndex \<Rightarrow> Validator \<Rightarrow> BeaconState \<Rightarrow> BeaconState \<times> go_error option" where
  "UpdateValidatorAtIndex idx v s =
    (if out_of_range (vals s) idx then (s, Some (Wrap ''validator index does not exist'' ErrOutOfBounds))
     else (s\<lparr>bs_validators := Some ((vals s)[unat idx := v])\<rparr>, None))"

definition UpdateBalancesAtIndex :: "ValidatorIndex \<Rightarrow> u64 \<Rightarrow> BeaconState \<Rightarrow> BeaconState \<times> go_error option" where
  "UpdateBalancesAtIndex idx b s =
    (if out_of_range (bals s) idx then (s, Some (Wrap ''balance index does not exist'' ErrOutOfBounds))
     else (s\<lparr>bs_balances := Some ((bals s)[unat idx := b])\<rparr>, None))"

definition UpdateSlashingsAtIndex :: "u64 \<Rightarrow> u64 \<Rightarrow> BeaconState \<Rightarrow> BeaconState \<times> go_error option" where
  "UpdateSlashingsAtIndex idx x s =
    (if out_of_range (bs_slashings s) idx then (s, Some (Fresh ''invalid index provided''))
     else (s\<lparr>bs_slashings := (bs_slashings s)[unat idx := x]\<rparr>, None))"

definition SetValidators :: "Validator list option \<Rightarrow> BeaconState \<Rightarrow> BeaconState" where
  "SetValidators v s = s\<lparr>bs_validators := v\<rparr>"
definition SetBalances :: "u64 list option \<Rightarrow> BeaconState \<Rightarrow> BeaconState" where
  "SetBalances b s = s\<lparr>bs_balances := b\<rparr>"
definition SetSlashings :: "u64 list \<Rightarrow> BeaconState \<Rightarrow> BeaconState" where
  "SetSlashings b s = s\<lparr>bs_slashings := b\<rparr>"
definition SetJustificationBits :: "u8 list \<Rightarrow> BeaconState \<Rightarrow> BeaconState" where
  "SetJustificationBits b s = s\<lparr>bs_justificationBits := b\<rparr>"
definition SetPreviousJustifiedCheckpoint :: "CheckpointPB \<Rightarrow> BeaconState \<Rightarrow> BeaconState" where
  "SetPreviousJustifiedCheckpoint c s = s\<lparr>bs_previousJustifiedCheckpoint := c\<rparr>"
definition SetCurrentJustifiedCheckpoint :: "CheckpointPB \<Rightarrow> BeaconState \<Rightarrow> BeaconState" where
  "SetCurrentJustifiedCheckpoint c s = s\<lparr>bs_currentJustifiedCheckpoint := c\<rparr>"
definition SetFinalizedCheckpoint :: "CheckpointPB \<Rightarrow> BeaconState \<Rightarrow> BeaconState" where
  "SetFinalizedCheckpoint c s = s\<lparr>bs_finalizedCheckpoint := c\<rparr>"

text \<open>
  Applies a function to every validator. The callback may also change other parts of the state. An error stops the loop before the slice is stored, but
  entries already changed are changed in the shared slice when nobody else holds it; the caller
  gets the state back in both cases, so the changed prefix is kept.
\<close>
fun apply_every ::
  "(nat \<Rightarrow> Validator \<Rightarrow> 'x \<Rightarrow> ((bool \<times> Validator) \<times> 'x) result) \<Rightarrow> nat \<Rightarrow> Validator list \<Rightarrow> 'x
    \<Rightarrow> (Validator list \<times> 'x) result" where
  "apply_every f i [] x = (([], x), None)"
| "apply_every f i (v # vs) x = (case f i v x of
     ((_, x'), Some err) \<Rightarrow> ((v # vs, x'), Some err)
   | (((changed, v'), x'), None) \<Rightarrow> (case apply_every f (Suc i) vs x' of
       ((vs', x''), err) \<Rightarrow> (((if changed then v' else v) # vs', x''), err)))"

definition ApplyToEveryValidator ::
  "(nat \<Rightarrow> Validator \<Rightarrow> BeaconState \<Rightarrow> ((bool \<times> Validator) \<times> BeaconState) result) \<Rightarrow> BeaconState \<Rightarrow> BeaconState \<times> go_error option" where
  "ApplyToEveryValidator f s = (case bs_validators s of
     None \<Rightarrow> (s, None)
   | Some v \<Rightarrow> (case apply_every f 0 v s of ((v', s'), err) \<Rightarrow> (s'\<lparr>bs_validators := Some v'\<rparr>, err)))"

definition UpdateRandaoMixesAtIndex :: "u64 \<Rightarrow> u8 list \<Rightarrow> BeaconState \<Rightarrow> BeaconState \<times> go_error option" where
  "UpdateRandaoMixesAtIndex idx x s = (case bs_randaoMixes s of
     None \<Rightarrow> (s, Some (Wrap ''randao mix index does not exist'' ErrOutOfBounds))
   | Some r \<Rightarrow> if out_of_range r idx then (s, Some (Wrap ''randao mix index does not exist'' ErrOutOfBounds))
       else (s\<lparr>bs_randaoMixes := Some (r[unat idx := x])\<rparr>, None))"

definition SetEth1DataVotes :: "Eth1Data list \<Rightarrow> BeaconState \<Rightarrow> BeaconState" where
  "SetEth1DataVotes v s = s\<lparr>bs_eth1DataVotes := v\<rparr>"

definition RotateAttestations :: "BeaconState \<Rightarrow> BeaconState \<times> go_error option" where
  "RotateAttestations s = (if bs_version s \<noteq> Phase0 then (s, Some (errNotSupported ''RotateAttestations''))
     else (s\<lparr>bs_previousEpochAttestations := bs_currentEpochAttestations s, bs_currentEpochAttestations := []\<rparr>, None))"

subsection \<open>Epochs\<close>

definition CurrentEpoch :: "BeaconState \<Rightarrow> Epoch" where
  "CurrentEpoch s = bs_slot s div SlotsPerEpoch"

definition PrevEpoch :: "BeaconState \<Rightarrow> Epoch" where
  "PrevEpoch s = (let currentEpoch = CurrentEpoch s in if currentEpoch = 0 then 0 else currentEpoch - 1)"

definition NextEpoch :: "BeaconState \<Rightarrow> Epoch" where
  "NextEpoch s = bs_slot s div SlotsPerEpoch + 1"

definition HigherEqualThanAltairVersionAndEpoch :: "BeaconState \<Rightarrow> Epoch \<Rightarrow> bool" where
  "HigherEqualThanAltairVersionAndEpoch s e \<longleftrightarrow> bs_version s \<ge> Altair \<and> e \<ge> AltairForkEpoch"

definition CanUpgradeToAltair :: "Slot \<Rightarrow> bool" where
  "CanUpgradeToAltair slot \<longleftrightarrow> IsEpochStart slot \<and> slot div SlotsPerEpoch = AltairForkEpoch"
definition CanUpgradeToBellatrix :: "Slot \<Rightarrow> bool" where
  "CanUpgradeToBellatrix slot \<longleftrightarrow> IsEpochStart slot \<and> slot div SlotsPerEpoch = BellatrixForkEpoch"
definition CanUpgradeToCapella :: "Slot \<Rightarrow> bool" where
  "CanUpgradeToCapella slot \<longleftrightarrow> IsEpochStart slot \<and> slot div SlotsPerEpoch = CapellaForkEpoch"
definition CanUpgradeToDeneb :: "Slot \<Rightarrow> bool" where
  "CanUpgradeToDeneb slot \<longleftrightarrow> IsEpochStart slot \<and> slot div SlotsPerEpoch = DenebForkEpoch"

definition CanProcessEpoch :: "BeaconState \<Rightarrow> bool" where
  "CanProcessEpoch s \<longleftrightarrow> (bs_slot s + 1) mod SlotsPerEpoch = 0"

subsection \<open>Recent roots and randao mixes\<close>

definition BlockRootAtSlot :: "BeaconState \<Rightarrow> Slot \<Rightarrow> u8 list result" where
  "BlockRootAtSlot s slot =
    (if - 1 - slot < SlotsPerHistoricalRoot then ([], Some (Fresh ''slot overflows uint64''))
     else if slot \<ge> bs_slot s \<or> bs_slot s > slot + SlotsPerHistoricalRoot
       then ([], Some (Fresh ''slot out of bounds''))
     else BlockRootAtIndex s (slot mod SlotsPerHistoricalRoot))"

definition StateRootAtSlot :: "BeaconState \<Rightarrow> Slot \<Rightarrow> u8 list option result" where
  "StateRootAtSlot s slot =
    (if slot \<ge> bs_slot s \<or> bs_slot s > slot + SlotsPerHistoricalRoot
       then (Some [], Some (Fresh ''slot out of bounds''))
     else StateRootAtIndex s (slot mod SlotsPerHistoricalRoot))"

definition BlockRoot :: "BeaconState \<Rightarrow> Epoch \<Rightarrow> u8 list result" where
  "BlockRoot s epoch = (case EpochStart epoch of
     (_, Some err) \<Rightarrow> ([], Some err) | (slot, None) \<Rightarrow> BlockRootAtSlot s slot)"

definition RandaoMix :: "BeaconState \<Rightarrow> Epoch \<Rightarrow> u8 list result" where
  "RandaoMix s epoch = RandaoMixAtIndex s (epoch mod EpochsPerHistoricalVector)"

text \<open>Little-endian bytes of a 64-bit value (\<^verbatim>\<open>bytesutil.Bytes8\<close>); the hash is a parameter.\<close>
definition Bytes8 :: "u64 \<Rightarrow> u8 list" where
  "Bytes8 x = map (\<lambda>i. ucast (drop_bit (8 * i) x)) [0..<8]"

definition Seed :: "(u8 list \<Rightarrow> u8 list) \<Rightarrow> BeaconState \<Rightarrow> Epoch \<Rightarrow> u8 list \<Rightarrow> u8 list result" where
  "Seed hash s epoch domain =
    (let lookAheadEpoch = epoch + EpochsPerHistoricalVector - MinSeedLookahead - 1
     in case RandaoMix s lookAheadEpoch of
          (_, Some err) \<Rightarrow> (replicate 32 0, Some err)
        | (randaoMix, None) \<Rightarrow> (hash (domain @ Bytes8 epoch @ randaoMix), None))"

subsection \<open>Facts\<close>

lemma CurrentEpoch_update [simp]:
  "CurrentEpoch (s\<lparr>bs_validators := v\<rparr>) = CurrentEpoch s" "CurrentEpoch (s\<lparr>bs_balances := b\<rparr>) = CurrentEpoch s"
  "CurrentEpoch (s\<lparr>bs_slashings := l\<rparr>) = CurrentEpoch s" "CurrentEpoch (s\<lparr>bs_eth1DataVotes := d\<rparr>) = CurrentEpoch s"
  "CurrentEpoch (s\<lparr>bs_randaoMixes := r\<rparr>) = CurrentEpoch s"
  by (simp_all add: CurrentEpoch_def)

lemma CurrentEpoch_nat: "unat (CurrentEpoch s) = unat (bs_slot s) div 32"
  by (simp add: CurrentEpoch_def SlotsPerEpoch_def unat_div)

lemma CurrentEpoch_bound: "unat (CurrentEpoch s) < 2 ^ 59"
  using unat_u64_lt [of "bs_slot s"] unfolding CurrentEpoch_nat by simp

lemma read_every_fold:
  "(\<And>i v x. snd (f i v x) = None) \<Longrightarrow>
   read_every f i vs x = (fold (\<lambda>(i, v) x. fst (f i v x)) (enumerate i vs) x, None)"
proof (induction vs arbitrary: i x)
  case (Cons v vs)
  obtain y where "f i v x = (y, None)" using Cons.prems [of i v x] by (metis prod.collapse)
  then show ?case using Cons.IH [OF Cons.prems] by simp
qed simp

lemma BlockRootAtSlot_ok:
  assumes "bs_blockRoots s = Some r" "length r = 8192"
  shows "snd (BlockRootAtSlot s slot) = None \<longleftrightarrow>
    unat slot + 8192 < 2 ^ 64 \<and> slot < bs_slot s \<and> unat (bs_slot s) \<le> unat slot + 8192"
proof -
  have b: "unat slot < 18446744073709551616" by (rule unat_u64_lt)
  have m: "unat (- 1 - slot) = 18446744073709551615 - unat slot"
    using unat_sub [of slot "- 1"] by (simp add: unsigned_minus_1_eq_mask mask_eq_exp_minus_1)
  have r: "unat (slot mod 8192) < 8192" by (simp add: unat_mod)
  have ok: "snd (BlockRootAtIndex s (slot mod 8192)) = None"
    using assms r by (simp add: BlockRootAtIndex_def out_of_range_def)
  have c: "- 1 - slot < 8192 \<longleftrightarrow> \<not> unat slot + 8192 < 2 ^ 64"
    using b by (simp add: word_less_nat_alt m) arith
  have a: "unat slot + 8192 < 2 ^ 64 \<Longrightarrow> unat (slot + 8192) = unat slot + 8192"
    using unat_add_no_wrap [of slot 8192] by simp
  show ?thesis
    unfolding BlockRootAtSlot_def SlotsPerHistoricalRoot_def c
    using a ok by (auto simp: word_less_nat_alt word_le_nat_alt)
qed

subsection \<open>Indexed fields\<close>

text \<open>
  The contract that the validators, balances and randao mixes of a state share: a getter and a setter by index, with an
  error, and no change, for an index out of range. A getter wraps what it returns (a pointer for validators); a slice that
  is nil is not present.
\<close>
locale indexed_field =
  fixes field :: "'s \<Rightarrow> 'v list"
    and present :: "'s \<Rightarrow> bool"
    and wrap :: "'v \<Rightarrow> 'r"
    and get :: "'s \<Rightarrow> u64 \<Rightarrow> 'r result"
    and put :: "u64 \<Rightarrow> 'v \<Rightarrow> 's \<Rightarrow> 's \<times> go_error option"
  assumes get_in: "present s \<Longrightarrow> unat i < length (field s) \<Longrightarrow> get s i = (wrap (field s ! unat i), None)"
    and get_out: "present s \<Longrightarrow> length (field s) \<le> unat i \<Longrightarrow> snd (get s i) \<noteq> None"
    and put_in: "unat i < length (field s) \<Longrightarrow>
      snd (put i v s) = None \<and> field (fst (put i v s)) = (field s)[unat i := v] \<and> present (fst (put i v s))"
    and put_out: "length (field s) \<le> unat i \<Longrightarrow> fst (put i v s) = s \<and> snd (put i v s) \<noteq> None"
begin

lemma put_ok_iff: "snd (put i v s) = None \<longleftrightarrow> unat i < length (field s)"
  using put_in [of i s v] put_out [of s i v] by (cases "unat i < length (field s)") auto

lemma get_ok_iff: "present s \<Longrightarrow> snd (get s i) = None \<longleftrightarrow> unat i < length (field s)"
  using get_in [of s i] get_out [of s i] by (cases "unat i < length (field s)") auto

lemma put_error_keeps: "put i v s = (t, Some err) \<Longrightarrow> t = s"
  using put_in [of i s v] put_out [of s i v] by (cases "unat i < length (field s)") auto

lemma put_length: "length (field (fst (put i v s))) = length (field s)"
  using put_in [of i s v] put_out [of s i v] by (cases "unat i < length (field s)") auto

lemma get_put:
  assumes "put i v s = (t, None)" "unat j < length (field s)"
  shows "get t j = (wrap (if j = i then v else field s ! unat j), None)"
proof -
  have i: "unat i < length (field s)" using assms(1) put_ok_iff [of i v s] by simp
  then have t: "field t = (field s)[unat i := v]" "present t" using put_in [OF i, of v] assms(1) by simp_all
  then show ?thesis using get_in [of t j] assms(2) by (auto simp: nth_list_update word_unat_eq_iff)
qed

lemma put_put:
  assumes "put i v s = (t, None)" "put i w t = (r, None)"
  shows "field r = field (fst (put i w s))"
proof -
  have "unat i < length (field s)" "unat i < length (field t)"
    using assms put_ok_iff [of i v s] put_ok_iff [of i w t] by simp_all
  then show ?thesis using put_in [of i s v] put_in [of i s w] put_in [of i t w] assms by simp
qed

end

interpretation validators: indexed_field vals "\<lambda>s. bs_validators s \<noteq> None" Some ValidatorAtIndex UpdateValidatorAtIndex
  by unfold_locales (auto simp: ValidatorAtIndex_def validatorAtIndex_def UpdateValidatorAtIndex_def vals_def out_of_range_def)

interpretation balances: indexed_field bals "\<lambda>s. bs_balances s \<noteq> None" "\<lambda>x. x" BalanceAtIndex UpdateBalancesAtIndex
  by unfold_locales (auto simp: BalanceAtIndex_def balanceAtIndex_def UpdateBalancesAtIndex_def bals_def out_of_range_def)

interpretation mixes: indexed_field "\<lambda>s. case bs_randaoMixes s of None \<Rightarrow> [] | Some r \<Rightarrow> r" "\<lambda>s. bs_randaoMixes s \<noteq> None" "\<lambda>x. x"
    RandaoMixAtIndex UpdateRandaoMixesAtIndex
  by unfold_locales (auto simp: RandaoMixAtIndex_def UpdateRandaoMixesAtIndex_def out_of_range_def split: option.splits)

end
