(* ===== verification/Slices.thy ===== *)
theory Slices
  imports Primitives
begin

text \<open>
  Set operations on slices, \<^verbatim>\<open>modified_prysm/container/slice/slice.go\<close>. The functions for
  \<^verbatim>\<open>uint64\<close>, \<^verbatim>\<open>int64\<close>, \<^verbatim>\<open>Slot\<close> and byte slices have the same body on different element types; each
  body is modelled once on any element type, and each function is its instance. A Go map is an
  association list (\<open>gomap\<close>); a byte slice used as a map key by \<^verbatim>\<open>string(k)\<close> is its content.
\<close>

subsection \<open>The functions\<close>

definition map_get0 :: "('a, u64) gomap \<Rightarrow> 'a \<Rightarrow> u64" where
  "map_get0 m v = (case gm_get m v of None \<Rightarrow> 0 | Some c \<Rightarrow> c)"

fun count_loop :: "('a, u64) gomap \<Rightarrow> 'a list \<Rightarrow> ('a, u64) gomap" where
  "count_loop m [] = m"
| "count_loop m (v # vs) = count_loop (gm_set v (map_get0 m v + 1) m) vs"

fun subset_loop :: "('a, u64) gomap \<Rightarrow> 'a list \<Rightarrow> bool" where
  "subset_loop m [] = True"
| "subset_loop m (v # vs) = (case gm_get m v of
     None \<Rightarrow> False
   | Some cnt \<Rightarrow> if cnt < 1 then False else subset_loop (gm_set v (cnt - 1) m) vs)"

definition SubsetUint64 :: "u64 list \<Rightarrow> u64 list \<Rightarrow> bool" where
  "SubsetUint64 a b = (if length a > length b then False else subset_loop (count_loop [] b) a)"

text \<open>One slice of the intersection: the \<open>i\<close>-th of \<open>num\<close>.\<close>
fun inter_slice :: "nat \<Rightarrow> nat \<Rightarrow> ('a, nat) gomap \<times> 'a list \<Rightarrow> 'a list \<Rightarrow> ('a, nat) gomap \<times> 'a list" where
  "inter_slice num i (m, acc) [] = (m, acc)"
| "inter_slice num i (m, acc) (k # ks) =
    (if gm_get m k = Some i
     then inter_slice num i (gm_set k (i + 1) m, if i + 1 = num then acc @ [k] else acc) ks
     else inter_slice num i (m, acc) ks)"

fun inter_slices :: "nat \<Rightarrow> nat \<Rightarrow> ('a, nat) gomap \<times> 'a list \<Rightarrow> 'a list list \<Rightarrow> ('a, nat) gomap \<times> 'a list" where
  "inter_slices num i st [] = st"
| "inter_slices num i st (s # ss) = inter_slices num (i + 1) (inter_slice num i st s) ss"

definition mark_all :: "'v \<Rightarrow> ('a, 'v) gomap \<Rightarrow> 'a list \<Rightarrow> ('a, 'v) gomap" where
  "mark_all x = foldl (\<lambda>m k. gm_set k x m)"

definition Intersection :: "'a list list \<Rightarrow> 'a list" where
  "Intersection s = (case s of [] \<Rightarrow> [] | [a] \<Rightarrow> a
     | a # ss \<Rightarrow> snd (inter_slices (length s) 1 (mark_all 1 [] a, []) ss))"

fun union_loop :: "('a, bool) gomap \<Rightarrow> 'a list \<Rightarrow> 'a list \<Rightarrow> 'a list list \<Rightarrow> 'a list" where
  "union_loop m acc a [] = acc"
| "union_loop m acc a (b # ss) =
    (let m' = mark_all True m a
     in union_loop m' (acc @ filter (\<lambda>x. gm_get m' x = None) b) b ss)"

definition Union_slices :: "'a list list \<Rightarrow> 'a list" where
  "Union_slices s = (case s of [] \<Rightarrow> [] | [a] \<Rightarrow> a | a # ss \<Rightarrow> union_loop [] a a ss)"

definition Not_slices :: "'a list \<Rightarrow> 'a list \<Rightarrow> 'a list" where
  "Not_slices a b = filter (\<lambda>x. gm_get (mark_all True [] a) x = None) b"

fun isIn_loop :: "'a \<Rightarrow> 'a list \<Rightarrow> bool" where
  "isIn_loop a [] = False"
| "isIn_loop a (v # vs) = (if a = v then True else isIn_loop a vs)"

definition IntersectionUint64 :: "u64 list list \<Rightarrow> u64 list" where "IntersectionUint64 = Intersection"
definition UnionUint64 :: "u64 list list \<Rightarrow> u64 list" where "UnionUint64 = Union_slices"
definition NotUint64 :: "u64 list \<Rightarrow> u64 list \<Rightarrow> u64 list" where "NotUint64 = Not_slices"
definition IsInUint64 :: "u64 \<Rightarrow> u64 list \<Rightarrow> bool" where "IsInUint64 = isIn_loop"
definition IntersectionInt64 :: "int list list \<Rightarrow> int list" where "IntersectionInt64 = Intersection"
definition UnionInt64 :: "int list list \<Rightarrow> int list" where "UnionInt64 = Union_slices"
definition NotInt64 :: "int list \<Rightarrow> int list \<Rightarrow> int list" where "NotInt64 = Not_slices"
definition IsInInt64 :: "int \<Rightarrow> int list \<Rightarrow> bool" where "IsInInt64 = isIn_loop"
definition UnionByteSlices :: "u8 list list list \<Rightarrow> u8 list list" where "UnionByteSlices = Union_slices"
definition IntersectionByteSlices :: "u8 list list list \<Rightarrow> u8 list list" where "IntersectionByteSlices = Intersection"
definition IntersectionSlot :: "Slot list list \<Rightarrow> Slot list" where "IntersectionSlot = Intersection"
definition NotSlot :: "Slot list \<Rightarrow> Slot list \<Rightarrow> Slot list" where "NotSlot = Not_slices"
definition IsInSlots :: "Slot \<Rightarrow> Slot list \<Rightarrow> bool" where "IsInSlots = isIn_loop"

fun set_loop :: "('a, bool) gomap \<Rightarrow> 'a list \<Rightarrow> 'a list \<Rightarrow> 'a list" where
  "set_loop m acc [] = acc"
| "set_loop m acc (x # xs) =
    (if gm_get m x = Some True then set_loop m acc xs
     else set_loop (gm_set x True m) (acc @ [x]) xs)"

definition SetUint64 :: "u64 list \<Rightarrow> u64 list" where
  "SetUint64 a = set_loop [] [] a"

text \<open>The result buffer of \<^verbatim>\<open>Unique\<close> has the input's length; \<open>end\<close> counts the entries in use.\<close>
fun unique_loop :: "('a, bool) gomap \<Rightarrow> 'a list \<Rightarrow> nat \<Rightarrow> 'a list \<Rightarrow> 'a list" where
  "unique_loop m buf e [] = take e buf"
| "unique_loop m buf e (x # xs) =
    (if gm_get m x = Some True then unique_loop m buf e xs
     else unique_loop (gm_set x True m) (buf[e := x]) (e + 1) xs)"

text \<open>The zero values of the buffer are given by \<open>z\<close>.\<close>
definition Unique :: "'a \<Rightarrow> 'a list \<Rightarrow> 'a list" where
  "Unique z a = (if length a \<le> 1 then a else unique_loop [] (replicate (length a) z) 0 a)"

fun sorted_loop :: "u64 list \<Rightarrow> nat \<Rightarrow> nat \<Rightarrow> bool" where
  "sorted_loop a i 0 = True"
| "sorted_loop a i (Suc n) = (if a ! (i - 1) > a ! i then False else sorted_loop a (i + 1) n)"

definition IsUint64Sorted :: "u64 list \<Rightarrow> bool" where
  "IsUint64Sorted a = (if length a = 0 \<or> length a = 1 then True else sorted_loop a 1 (length a - 1))"

function reverse_loop :: "'a list \<Rightarrow> nat \<Rightarrow> int \<Rightarrow> 'a list" where
  "reverse_loop s i j = (if int i < j
     then reverse_loop (s[i := s ! nat j, nat j := s ! i]) (i + 1) (j - 1) else s)"
  by auto
termination by (relation "measure (\<lambda>(s, i, j). nat (j - int i))") auto

declare reverse_loop.simps [simp del]

definition Reverse :: "'a list \<Rightarrow> 'a list" where
  "Reverse s = reverse_loop s 0 (int (length s) - 1)"

definition VerifyMaxLength :: "'a list \<Rightarrow> int \<Rightarrow> go_error option" where
  "VerifyMaxLength v mx = (if int (length v) > mx then Some (Fresh ''length exceeds max'') else None)"

text \<open>The division panics for zero chunks.\<close>
definition SplitOffset :: "u64 \<Rightarrow> u64 \<Rightarrow> u64 \<Rightarrow> u64 outcome" where
  "SplitOffset listSize chunks index = (if chunks = 0 then Panic else Ret ((listSize * index) div chunks))"

fun split_on :: "char \<Rightarrow> string \<Rightarrow> string \<Rightarrow> string list" where
  "split_on c cur [] = [cur]"
| "split_on c cur (x # xs) = (if x = c then cur # split_on c [] xs else split_on c (cur @ [x]) xs)"

definition SplitCommaSeparated :: "string list \<Rightarrow> string list" where
  "SplitCommaSeparated arr = concat (map (split_on CHR '','' []) arr)"

subsection \<open>Lemmas\<close>

lemma gm_get_mark_all: "gm_get (mark_all x m ks) k = (if k \<in> set ks then Some x else gm_get m k)"
  unfolding mark_all_def by (induction ks arbitrary: m) auto

lemma count_loop_get:
  "map_get0 (count_loop m vs) v = map_get0 m v + of_nat (count (mset vs) v)"
  "gm_get m v \<noteq> None \<or> v \<in> set vs \<Longrightarrow> gm_get (count_loop m vs) v \<noteq> None"
  by (induction vs arbitrary: m) (auto simp: map_get0_def)

lemma subset_loop_iff:
  assumes "\<And>v. unat (map_get0 m v) = count B v"
  shows "subset_loop m vs \<longleftrightarrow> mset vs \<subseteq># B"
  using assms
proof (induction vs arbitrary: m B)
  case (Cons v vs)
  show ?case
  proof (cases "map_get0 m v = 0")
    case True
    then have "v \<notin># B" using Cons.prems [of v] by (simp add: count_eq_zero_iff)
    then have "\<not> mset (v # vs) \<subseteq># B" by (metis list.set_intros(1) mset_subset_eqD set_mset_mset)
    then show ?thesis using True by (auto simp: map_get0_def split: option.splits)
  next
    case False
    then obtain c where c: "gm_get m v = Some c" "c \<noteq> 0" "unat c = count B v"
      using Cons.prems [of v] by (auto simp: map_get0_def split: option.splits)
    then have in_B: "v \<in># B" by (metis count_greater_zero_iff unat_gt_0)
    have "unat (c - 1) = unat c - 1" using c(2) by (metis unat_minus_one)
    then have "unat (map_get0 (gm_set v (c - 1) m) w) = count (B - {#v#}) w" for w
      using Cons.prems [of w] c by (auto simp: map_get0_def)
    from Cons.IH [OF this] show ?thesis
      using c in_B by (auto simp: insert_subset_eq_iff word_less_1)
  qed
qed simp

lemma set_loop_spec:
  assumes "\<And>x. gm_get m x = Some True \<longleftrightarrow> x \<in> set acc" "distinct acc"
  shows "distinct (set_loop m acc xs) \<and> set (set_loop m acc xs) = set acc \<union> set xs"
  using assms by (induction xs arbitrary: m acc) auto

lemma reverse_loop_rev:
  "reverse_loop (xs @ ys @ zs) (length xs) (int (length xs + length ys) - 1) = xs @ rev ys @ zs"
proof (induction "length ys" arbitrary: xs ys zs rule: less_induct)
  case less
  show ?case
  proof (cases ys)
    case Nil
    then show ?thesis by (subst reverse_loop.simps) simp
  next
    case (Cons y us)
    show ?thesis
    proof (cases us rule: rev_cases)
      case Nil
      then show ?thesis using Cons by (subst reverse_loop.simps) simp
    next
      case (snoc vs z)
      let ?s = "xs @ ys @ zs" and ?j = "length xs + length vs + 1"
      have ys: "ys = y # vs @ [z]" using Cons snoc by simp
      have sw: "?s[length xs := ?s ! ?j, ?j := ?s ! length xs] = (xs @ [z]) @ vs @ y # zs"
        by (simp add: ys nth_append list_update_append)
      have j: "int (length xs + length ys) - 1 = int ?j" by (simp add: ys)
      have "reverse_loop ?s (length xs) (int ?j) = reverse_loop ((xs @ [z]) @ vs @ y # zs) (length xs + 1) (int ?j - 1)"
        unfolding sw [symmetric] by (subst reverse_loop.simps) (simp only: nat_int, simp)
      also have "\<dots> = (xs @ [z]) @ rev vs @ y # zs"
        using less [of vs "xs @ [z]" "y # zs"] by (simp add: ys)
      finally show ?thesis unfolding j by (simp add: ys)
    qed
  qed
qed

lemma inter_slice_spec:
  assumes "inter_slice num i (m, acc) ks = (m', acc')" "0 < i"
  shows "gm_get m' k = (if k \<in> set ks \<and> gm_get m k = Some i then Some (i + 1) else gm_get m k)"
    and "\<exists>new. acc' = acc @ new \<and> distinct new
      \<and> set new = (if i + 1 = num then {k \<in> set ks. gm_get m k = Some i} else {})"
  using assms
proof (induction ks arbitrary: m acc)
  case (Cons x ks)
  { case 1
    show ?case using Cons(1) [of _ _] 1 by (cases "gm_get m x = Some i") (auto split: if_splits)
  next
    case 2
    show ?case
    proof (cases "gm_get m x = Some i")
      case True
      let ?acc = "if i + 1 = num then acc @ [x] else acc"
      have r: "inter_slice num i (gm_set x (i + 1) m, ?acc) ks = (m', acc')" using 2 True by simp
      obtain new where new: "acc' = ?acc @ new" "distinct new"
        "set new = (if i + 1 = num then {k \<in> set ks. gm_get (gm_set x (i + 1) m) k = Some i} else {})"
        using Cons(2) [OF r assms(2)] by blast
      show ?thesis
        by (rule exI [of _ "(if i + 1 = num then [x] else []) @ new"]) (use new True in auto)
    next
      case False
      then show ?thesis using Cons(2) [of m acc] 2 by auto
    qed }
qed simp_all

text \<open>After the slices \<open>ps\<close>, an element's mark is the length of the longest prefix of them that contain it.\<close>
definition inter_inv :: "nat \<Rightarrow> 'a list list \<Rightarrow> ('a, nat) gomap \<Rightarrow> bool" where
  "inter_inv i ps m \<longleftrightarrow> i = length ps
     \<and> (\<forall>k. gm_get m k = Some i \<longleftrightarrow> (\<forall>p\<in>set ps. k \<in> set p)) \<and> (\<forall>k c. gm_get m k = Some c \<longrightarrow> c \<le> i)"

lemma inter_slices_spec:
  assumes "inter_inv i ps m" "ps \<noteq> []" "num = i + length ss"
    "acc = [] \<or> ss = []" "distinct acc" "ss = [] \<Longrightarrow> set acc = {k. \<forall>p\<in>set ps. k \<in> set p}"
  shows "distinct (snd (inter_slices num i (m, acc) ss))
    \<and> set (snd (inter_slices num i (m, acc) ss)) = {k. \<forall>p\<in>set (ps @ ss). k \<in> set p}"
  using assms
proof (induction ss arbitrary: i ps m acc)
  case (Cons s ss)
  have i0: "0 < i" using Cons.prems(1,2) by (auto simp: inter_inv_def)
  obtain m' acc' where r: "inter_slice num i (m, acc) s = (m', acc')" by force
  note g = inter_slice_spec(1) [OF r i0]
  obtain new where new: "acc' = acc @ new" "distinct new"
    "set new = (if i + 1 = num then {k \<in> set s. gm_get m k = Some i} else {})"
    using inter_slice_spec(2) [OF r i0] by blast
  have acc: "acc = []" using Cons.prems(4) by simp
  have inv: "gm_get m k = Some i \<longleftrightarrow> (\<forall>p\<in>set ps. k \<in> set p)" "gm_get m k = Some c \<Longrightarrow> c \<le> i" for k c
    using Cons.prems(1) by (auto simp: inter_inv_def)
  have inv': "inter_inv (i + 1) (ps @ [s]) m'"
    unfolding inter_inv_def
  proof (intro conjI allI impI)
    show "i + 1 = length (ps @ [s])" using Cons.prems(1) by (simp add: inter_inv_def)
    fix k
    have ne: "gm_get m k \<noteq> Some (i + 1)" using inv(2) [of k "i + 1"] by auto
    show "(gm_get m' k = Some (i + 1)) = (\<forall>p\<in>set (ps @ [s]). k \<in> set p)" using g [of k] inv(1) [of k] ne by auto
    show "c \<le> i + 1" if "gm_get m' k = Some c" for c
      using that g [of k] inv(2) [of k c] by (auto split: if_splits)
  qed
  have "distinct (snd (inter_slices num (i + 1) (m', acc') ss))
    \<and> set (snd (inter_slices num (i + 1) (m', acc') ss)) = {k. \<forall>p\<in>set ((ps @ [s]) @ ss). k \<in> set p}"
  proof (rule Cons.IH [OF inv'])
    show "acc' = [] \<or> ss = []" using new acc Cons.prems(3) by (cases ss) auto
    show "set acc' = {k. \<forall>p\<in>set (ps @ [s]). k \<in> set p}" if "ss = []"
      using that new acc Cons.prems(3) inv(1) by auto
  qed (use Cons.prems new acc in auto)
  then show ?case by (simp add: r)
qed simp

lemma union_loop_spec:
  assumes "\<And>x. gm_get m x \<noteq> None \<Longrightarrow> x \<in> set acc" "set a \<subseteq> set acc"
  shows "set (union_loop m acc a ss) = set acc \<union> \<Union> (set ` set ss)"
  using assms
proof (induction ss arbitrary: m acc a)
  case (Cons b ss)
  let ?m = "mark_all True m a" and ?acc = "acc @ filter (\<lambda>x. gm_get (mark_all True m a) x = None) b"
  have "gm_get m x = None" if "x \<notin> set acc" for x using Cons.prems(1) that by blast
  then have acc: "set ?acc = set acc \<union> set b" using Cons.prems(2) by (auto simp: gm_get_mark_all split: if_splits)
  have "set (union_loop ?m ?acc b ss) = set ?acc \<union> \<Union> (set ` set ss)"
    using Cons.prems acc by (intro Cons.IH) (auto simp: gm_get_mark_all split: if_splits)
  then show ?case using acc by (auto simp: Let_def)
qed simp

lemma isIn_loop_iff: "isIn_loop a b \<longleftrightarrow> a \<in> set b"
  by (induction b) auto

lemma sorted_loop_iff:
  assumes "i + n = length a" "0 < i"
  shows "sorted_loop a i n \<longleftrightarrow> (\<forall>j. i \<le> j \<longrightarrow> j < length a \<longrightarrow> a ! (j - 1) \<le> a ! j)"
  using assms
proof (induction n arbitrary: i)
  case (Suc n)
  then have "sorted_loop a (i + 1) n \<longleftrightarrow> (\<forall>j. i + 1 \<le> j \<longrightarrow> j < length a \<longrightarrow> a ! (j - 1) \<le> a ! j)" by simp
  moreover have "i < length a" using Suc.prems by simp
  ultimately show ?case by (auto simp: not_less) (metis Suc_leI le_neq_implies_less)
qed auto

subsection \<open>Properties\<close>

text \<open>
  For slices of possible length, \<^verbatim>\<open>SubsetUint64\<close> decides inclusion of multisets: every element
  of the first occurs in the second at least as often.
\<close>
theorem SubsetUint64_multiset:
  assumes "length b < 2 ^ 64"
  shows "SubsetUint64 a b \<longleftrightarrow> mset a \<subseteq># mset b"
proof -
  have "count (mset b) v < 2 ^ 64" for v
    using count_le_size [of "mset b" v] assms by (simp only: size_mset)
  then have "unat (map_get0 (count_loop [] b) v) = count (mset b) v" for v
    unfolding count_loop_get(1) by (simp add: map_get0_def unat_of_nat)
  from subset_loop_iff [OF this] show ?thesis
    using size_mset_mono [of "mset a" "mset b"] by (auto simp: SubsetUint64_def)
qed

theorem SubsetUint64_multiset_witness:
  "SubsetUint64 [3, 5] [5, 4, 3] \<longleftrightarrow> mset [3, 5] \<subseteq># mset [5, 4, 3 :: u64]"
  by (rule SubsetUint64_multiset) simp

text \<open>
  The intersection of two or more slices lists, without repetition, exactly the elements that
  occur in all of them.
\<close>
theorem Intersection_spec:
  assumes "2 \<le> length s"
  shows "distinct (IntersectionUint64 s) \<and> set (IntersectionUint64 s) = {k. \<forall>p\<in>set s. k \<in> set p}"
proof -
  obtain a b ss where s: "s = a # b # ss"
    using assms by (metis (no_types) One_nat_def Suc_1 Suc_le_length_iff)
  have "inter_inv 1 [a] (mark_all 1 [] a)" by (auto simp: inter_inv_def gm_get_mark_all split: if_splits)
  from inter_slices_spec [OF this, of "length s" "b # ss" "[]"] show ?thesis
    by (simp add: IntersectionUint64_def Intersection_def s)
qed

theorem Intersection_spec_witness:
  "distinct (IntersectionUint64 [[1, 2, 2], [2, 2, 3]])
    \<and> set (IntersectionUint64 [[1, 2, 2], [2, 2, 3]]) = {k. \<forall>p\<in>set [[1, 2, 2], [2, 2, 3]]. k \<in> set p}"
  by (rule Intersection_spec) simp

text \<open>
  The union has exactly the elements of all slices; repetitions inside the later slices are
  kept, contrary to what the name of a set union suggests.
\<close>
theorem Union_elements:
  "set (UnionUint64 s) = \<Union> (set ` set s)"
proof (cases s)
  case (Cons a ss)
  then show ?thesis
    using union_loop_spec [of "[]" a a ss]
    by (cases ss) (auto simp: UnionUint64_def Union_slices_def simp del: union_loop.simps)
qed (simp add: UnionUint64_def Union_slices_def)

text \<open>\<^verbatim>\<open>Reverse\<close>, swapping in place from both ends, reverses every slice.\<close>
theorem Reverse_rev: "Reverse s = rev s"
  using reverse_loop_rev [of "[]" s "[]"] by (simp add: Reverse_def)

lemma unique_loop_set_loop:
  assumes "length buf = e + n" "length xs \<le> n" "take e buf = acc"
  shows "unique_loop m buf e xs = set_loop m acc xs"
  using assms
proof (induction xs arbitrary: m buf e n acc)
  case (Cons x xs)
  then obtain k where n: "n = Suc k" by (cases n) auto
  show ?case
  proof (cases "gm_get m x = Some True")
    case False
    have "unique_loop (gm_set x True m) (buf[e := x]) (e + 1) xs = set_loop (gm_set x True m) (acc @ [x]) xs"
      using Cons n by (intro Cons.IH [of _ _ k]) (auto simp: take_Suc_conv_app_nth)
    then show ?thesis using False by simp
  qed (use Cons in auto)
qed simp

lemma SetUint64_set: "distinct (SetUint64 a) \<and> set (SetUint64 a) = set a"
  using set_loop_spec [of "[]" "[]" a] by (simp add: SetUint64_def)

lemma Unique_set: "distinct (Unique z a) \<and> set (Unique z a) = set a"
proof (cases "length a \<le> 1")
  case True
  then show ?thesis by (cases a) (auto simp: Unique_def)
next
  case False
  have "unique_loop [] (replicate (length a) z) 0 a = set_loop [] [] a"
    by (rule unique_loop_set_loop [of _ 0 "length a"]) auto
  then show ?thesis using False set_loop_spec [of "[]" "[]" a] by (simp add: Unique_def)
qed

lemma Not_filter: "Not_slices a b = filter (\<lambda>x. x \<notin> set a) b"
  unfolding Not_slices_def by (rule filter_cong) (auto simp: gm_get_mark_all)

lemma IsUint64Sorted_iff: "IsUint64Sorted a \<longleftrightarrow> sorted a"
proof (cases "length a \<le> 1")
  case True
  then show ?thesis by (cases a) (auto simp: IsUint64Sorted_def)
next
  case False
  have "sorted_loop a 1 (length a - 1) \<longleftrightarrow> (\<forall>j. 1 \<le> j \<longrightarrow> j < length a \<longrightarrow> a ! (j - 1) \<le> a ! j)"
    using False by (intro sorted_loop_iff) auto
  also have "\<dots> \<longleftrightarrow> sorted a"
    unfolding sorted_iff_nth_Suc by (metis Suc_leI diff_Suc_1 not_less_eq_eq One_nat_def Suc_le_D zero_less_Suc)
  finally show ?thesis using False by (auto simp: IsUint64Sorted_def)
qed

text \<open>
  Splitting a list of \<open>n\<close> elements into \<open>k\<close> chunks: as long as the products fit in 64 bits, the
  offsets are the exact quotients, start at 0, end at \<open>n\<close> and never decrease.
\<close>
theorem SplitOffset_partition:
  assumes "k \<noteq> 0" "unat n * unat k < 2 ^ 64" "i \<le> j" "j \<le> k"
  shows "\<exists>x y. SplitOffset n k i = Ret x \<and> SplitOffset n k j = Ret y \<and> x \<le> y \<and> y \<le> n
    \<and> unat x = unat n * unat i div unat k \<and> SplitOffset n k 0 = Ret 0 \<and> SplitOffset n k k = Ret n"
proof -
  have u: "unat (n * l div k) = unat n * unat l div unat k" if "l \<le> k" for l
  proof -
    have "unat n * unat l \<le> unat n * unat k" using that by (simp add: word_le_nat_alt)
    then have "unat n * unat l < 2 ^ 64" using assms(2) by (rule order_le_less_trans)
    then show ?thesis using unat_mult_no_wrap by (simp add: unat_div)
  qed
  have k: "0 < unat k" using assms(1) by (simp add: unat_gt_0)
  have ij: "unat i \<le> unat j" "unat j \<le> unat k" using assms(3,4) by (simp_all add: word_le_nat_alt)
  have "unat n * unat i div unat k \<le> unat n * unat j div unat k" using ij by (intro div_le_mono mult_le_mono) auto
  moreover have "unat n * unat j div unat k \<le> unat n"
    using ij k by (metis div_le_mono mult_le_mono2 nonzero_mult_div_cancel_right less_not_refl2)
  ultimately show ?thesis
    using u [of i] u [of j] u [of k] assms(1,3,4) k
    by (intro exI [of _ "n * i div k"] exI [of _ "n * j div k"])
      (auto simp: SplitOffset_def word_le_nat_alt word_unat_eq_iff)
qed

theorem SplitOffset_partition_witness:
  "\<exists>x y. SplitOffset 10 4 1 = Ret x \<and> SplitOffset 10 4 2 = Ret y \<and> x \<le> y \<and> y \<le> 10
    \<and> unat x = unat (10 :: u64) * unat (1 :: u64) div unat (4 :: u64) \<and> SplitOffset 10 4 0 = Ret 0 \<and> SplitOffset 10 4 4 = Ret 10"
  by (rule SplitOffset_partition) simp_all

end
