(* ===== verification/Shuffle.thy ===== *)
theory Shuffle
  imports Slices
begin

text \<open>
  The swap-or-not shuffle, \<^verbatim>\<open>modified_prysm/beacon-chain/core/helpers/shuffle.go\<close>. The hash
  (SHA-256, from a package outside the repository) is a parameter \<open>hash\<close> on byte lists. The
  buffer \<^verbatim>\<open>buf\<close> holds the seed, the round and four position bytes; the latter are written right
  before each hash of the whole buffer, so the hashed lists are written out instead.
\<close>

unbundle bit_operations_syntax

lemma unat_pred_less: "x \<noteq> 0 \<Longrightarrow> unat (x - 1) < unat (x :: 'a :: len word)"
  by (simp add: unat_minus_one unat_gt_0)

subsection \<open>The functions\<close>

definition ShuffleRoundCount :: u64 where "ShuffleRoundCount = 90"
definition maxShuffleListSize :: u64 where "maxShuffleListSize = 2 ^ 40"

text \<open>Little-endian reading of bytes and writing of a 32-bit value.\<close>
fun le64 :: "u8 list \<Rightarrow> u64" where
  "le64 [] = 0"
| "le64 (b # bs) = ucast b + 256 * le64 bs"

definition put32 :: "u64 \<Rightarrow> u8 list" where
  "put32 x = [ucast x, ucast (drop_bit 8 x), ucast (drop_bit 16 x), ucast (drop_bit 24 x)]"

definition pivot_of :: "(u8 list \<Rightarrow> u8 list) \<Rightarrow> u8 list \<Rightarrow> u64 \<Rightarrow> u8 \<Rightarrow> u64" where
  "pivot_of hash seed n r = le64 (take 8 (hash (seed @ [r]))) mod n"

definition source_of :: "(u8 list \<Rightarrow> u8 list) \<Rightarrow> u8 list \<Rightarrow> u8 \<Rightarrow> u64 \<Rightarrow> u8 list" where
  "source_of hash seed r position = hash (seed @ [r] @ put32 (drop_bit 8 position))"

definition byte_of :: "u8 list \<Rightarrow> u64 \<Rightarrow> u8" where
  "byte_of source position = source ! unat (drop_bit 3 (position AND 0xff))"

definition bit_of :: "u8 \<Rightarrow> u64 \<Rightarrow> bool" where
  "bit_of byteV position \<longleftrightarrow> drop_bit (unat (position AND 7)) byteV AND 1 = 1"

definition shuffle_step :: "(u8 list \<Rightarrow> u8 list) \<Rightarrow> u8 list \<Rightarrow> u64 \<Rightarrow> u8 \<Rightarrow> ValidatorIndex \<Rightarrow> ValidatorIndex" where
  "shuffle_step hash seed n r index =
    (let pivot = pivot_of hash seed n r;
         flip = (pivot + n - index) mod n;
         position = (if flip > index then flip else index);
         source = source_of hash seed r position;
         byteV = byte_of source position
     in if bit_of byteV position then flip else index)"

text \<open>The loop over the rounds, on an 8-bit counter, upwards or downwards.\<close>
function rounds_loop :: "(u8 \<Rightarrow> 'a \<Rightarrow> 'a) \<Rightarrow> u8 \<Rightarrow> bool \<Rightarrow> u8 \<Rightarrow> 'a \<Rightarrow> 'a" where
  "rounds_loop f rounds shuffle r x =
    (let y = f r x in
     if shuffle then (if r + 1 = rounds then y else rounds_loop f rounds shuffle (r + 1) y)
     else if r = 0 then y else rounds_loop f rounds shuffle (r - 1) y)"
  by auto
termination
proof (relation "measure (\<lambda>(f, rounds, shuffle, r, x). if shuffle then unat (rounds - r - 1) else unat r)", goal_cases)
  case (2 f rounds shuffle r x y)
  then have "rounds - r - 1 \<noteq> 0" by (metis add.commute diff_add_cancel diff_diff_add right_minus_eq)
  then have "unat (rounds - r - 1 - 1) < unat (rounds - r - 1)" by (rule unat_pred_less)
  moreover have "rounds - (r + 1) - 1 = rounds - r - 1 - 1" by simp
  ultimately show ?case using 2 by (simp only: in_measure prod.case if_True)
next
  case (3 f rounds shuffle r x y)
  then show ?case using unat_pred_less [of r] by simp
qed simp

declare rounds_loop.simps [simp del]

definition start_round :: "u8 \<Rightarrow> bool \<Rightarrow> u8" where
  "start_round rounds shuffle = (if shuffle then 0 else rounds - 1)"

definition ComputeShuffledIndex ::
  "(u8 list \<Rightarrow> u8 list) \<Rightarrow> ValidatorIndex \<Rightarrow> u64 \<Rightarrow> u8 list \<Rightarrow> bool \<Rightarrow> ValidatorIndex result" where
  "ComputeShuffledIndex hash index indexCount seed shuffle =
    (if ShuffleRoundCount = 0 then (index, None)
     else if index \<ge> indexCount then (0, Some (Fresh ''input index out of bounds''))
     else if indexCount > maxShuffleListSize then (0, Some (Fresh ''list size out of bounds''))
     else let rounds = ucast ShuffleRoundCount :: u8
          in (rounds_loop (shuffle_step hash seed indexCount) rounds shuffle (start_round rounds shuffle) index, None))"

definition ShuffledIndex :: "(u8 list \<Rightarrow> u8 list) \<Rightarrow> ValidatorIndex \<Rightarrow> u64 \<Rightarrow> u8 list \<Rightarrow> ValidatorIndex result" where
  "ShuffledIndex hash index indexCount seed = ComputeShuffledIndex hash index indexCount seed True"

definition UnShuffledIndex :: "(u8 list \<Rightarrow> u8 list) \<Rightarrow> ValidatorIndex \<Rightarrow> u64 \<Rightarrow> u8 list \<Rightarrow> ValidatorIndex result" where
  "UnShuffledIndex hash index indexCount seed = ComputeShuffledIndex hash index indexCount seed False"

text \<open>
  One exchange of the list shuffle. The hash of the current block of 256 positions and its current
  byte are carried along and renewed when the position enters a new block or byte from above.
\<close>
definition swapOrNot ::
  "(u8 list \<Rightarrow> u8 list) \<Rightarrow> u8 list \<Rightarrow> u8 \<Rightarrow> u8 \<Rightarrow> ValidatorIndex \<Rightarrow> ValidatorIndex list \<Rightarrow> ValidatorIndex
    \<Rightarrow> u8 list \<Rightarrow> ValidatorIndex list \<times> u8 \<times> u8 list" where
  "swapOrNot hash seed r byteV i input j source =
    (let source' = (if j AND 0xff = 0xff then source_of hash seed r j else source);
         byteV' = (if j AND 7 = 7 then byte_of source' j else byteV)
     in (if bit_of byteV' j then input[unat i := input ! unat j, unat j := input ! unat i] else input,
         byteV', source'))"

function pair_loop ::
  "(u8 list \<Rightarrow> u8 list) \<Rightarrow> u8 list \<Rightarrow> u8 \<Rightarrow> u64 \<Rightarrow> u64 \<Rightarrow> u64 \<Rightarrow> ValidatorIndex list \<times> u8 \<times> u8 list
    \<Rightarrow> ValidatorIndex list" where
  "pair_loop hash seed r mirror i j (input, byteV, source) =
    (if i < mirror
     then pair_loop hash seed r mirror (i + 1) (j - 1) (swapOrNot hash seed r byteV i input j source)
     else input)"
  by auto
termination
proof (relation "measure (\<lambda>(hash, seed, r, mirror, i, j, st). unat (mirror - i))", goal_cases)
  case (2 hash seed r mirror i j input byteV source)
  then have "mirror - i \<noteq> 0" by auto
  then have "unat (mirror - i - 1) < unat (mirror - i)" by (rule unat_pred_less)
  moreover have "mirror - (i + 1) = mirror - i - 1" by simp
  ultimately show ?case by (simp only: in_measure prod.case)
qed simp

declare pair_loop.simps [simp del]

definition list_round ::
  "(u8 list \<Rightarrow> u8 list) \<Rightarrow> u8 list \<Rightarrow> u8 \<Rightarrow> ValidatorIndex list \<Rightarrow> ValidatorIndex list" where
  "list_round hash seed r input =
    (let listSize = of_nat (length input) :: u64;
         pivot = pivot_of hash seed listSize r;
         source = source_of hash seed r pivot;
         input1 = pair_loop hash seed r (drop_bit 1 (pivot + 1)) 0 pivot (input, byte_of source pivot, source);
         e = listSize - 1;
         source2 = source_of hash seed r e
     in pair_loop hash seed r (drop_bit 1 (pivot + listSize + 1)) (pivot + 1) e
          (input1, byte_of source2 e, source2))"

definition innerShuffleList ::
  "(u8 list \<Rightarrow> u8 list) \<Rightarrow> ValidatorIndex list \<Rightarrow> u8 list \<Rightarrow> bool \<Rightarrow> ValidatorIndex list result" where
  "innerShuffleList hash input seed shuffle =
    (if length input \<le> 1 then (input, None)
     else if of_nat (length input) > maxShuffleListSize then ([], Some (Fresh ''list size out of bounds''))
     else let rounds = ucast ShuffleRoundCount :: u8
          in if rounds = 0 then (input, None)
             else (rounds_loop (list_round hash seed) rounds shuffle (start_round rounds shuffle) input, None))"

definition ShuffleList :: "(u8 list \<Rightarrow> u8 list) \<Rightarrow> ValidatorIndex list \<Rightarrow> u8 list \<Rightarrow> ValidatorIndex list result" where
  "ShuffleList hash input seed = innerShuffleList hash input seed True"

definition UnshuffleList :: "(u8 list \<Rightarrow> u8 list) \<Rightarrow> ValidatorIndex list \<Rightarrow> u8 list \<Rightarrow> ValidatorIndex list result" where
  "UnshuffleList hash input seed = innerShuffleList hash input seed False"

text \<open>\<^verbatim>\<open>l[start:end]\<close> panics outside the slice.\<close>
definition go_slice :: "'a list \<Rightarrow> nat \<Rightarrow> nat \<Rightarrow> 'a list outcome" where
  "go_slice l s e = (if s \<le> e \<and> e \<le> length l then Ret (take (e - s) (drop s l)) else Panic)"

fun split_loop :: "u64 list \<Rightarrow> u64 \<Rightarrow> u64 list \<Rightarrow> u64 list list outcome" where
  "split_loop l n [] = Ret []"
| "split_loop l n (i # is) =
    obind (SplitOffset (of_nat (length l)) n i) (\<lambda>s. obind (SplitOffset (of_nat (length l)) n (i + 1)) (\<lambda>e.
    obind (go_slice l (unat s) (unat e)) (\<lambda>d. obind (split_loop l n is) (\<lambda>ds. Ret (d # ds)))))"

definition SplitIndices :: "u64 list \<Rightarrow> u64 \<Rightarrow> u64 list list outcome" where
  "SplitIndices l n = split_loop l n (map of_nat [0..<unat n])"

subsection \<open>Swap-or-not in the abstract\<close>

definition mirror_of :: "nat \<Rightarrow> nat \<Rightarrow> nat \<Rightarrow> nat" where
  "mirror_of n p i = (p + n - i) mod n"

definition son_round :: "nat \<Rightarrow> nat \<Rightarrow> (nat \<Rightarrow> bool) \<Rightarrow> nat \<Rightarrow> nat" where
  "son_round n p b i = (if b (max i (mirror_of n p i)) then mirror_of n p i else i)"

lemma mirror_of_eq: "p < n \<Longrightarrow> i < n \<Longrightarrow> mirror_of n p i = (if i \<le> p then p - i else p + n - i)"
  unfolding mirror_of_def by (cases "i \<le> p") (auto simp: mod_if)

text \<open>
  The contract of one family of rounds on \<open>n\<close> positions: a pivot below \<open>n\<close> for each round and a
  bit for each round and position. Every round is then an involution, and running the rounds
  backwards undoes them.
\<close>
locale swap_or_not =
  fixes n :: nat and pivot :: "'r \<Rightarrow> nat" and bit :: "'r \<Rightarrow> nat \<Rightarrow> bool"
  assumes pivot_less: "0 < n \<Longrightarrow> pivot r < n"
begin

lemma round_less: "i < n \<Longrightarrow> son_round n (pivot r) (bit r) i < n"
  using pivot_less [of r] by (auto simp: son_round_def mirror_of_def)

lemma mirror_mirror: "i < n \<Longrightarrow> mirror_of n (pivot r) (mirror_of n (pivot r) i) = i"
  using pivot_less [of r] by (auto simp: mirror_of_eq split: if_splits)

lemma round_round: "i < n \<Longrightarrow> son_round n (pivot r) (bit r) (son_round n (pivot r) (bit r) i) = i"
  using mirror_mirror [of i r] by (simp add: son_round_def max.commute)

lemma rounds_less: "i < n \<Longrightarrow> fold (\<lambda>r. son_round n (pivot r) (bit r)) rs i < n"
  by (induction rs arbitrary: i) (simp_all add: round_less)

lemma rounds_inverse:
  "i < n \<Longrightarrow> fold (\<lambda>r. son_round n (pivot r) (bit r)) (rev rs) (fold (\<lambda>r. son_round n (pivot r) (bit r)) rs i) = i"
proof (induction rs arbitrary: i)
  case (Cons r rs)
  have "fold (\<lambda>r. son_round n (pivot r) (bit r)) (rev rs)
      (fold (\<lambda>r. son_round n (pivot r) (bit r)) rs (son_round n (pivot r) (bit r) i)) = son_round n (pivot r) (bit r) i"
    using Cons round_less by simp
  then show ?case using round_round [OF Cons.prems] by simp
qed simp

end

definition bit_at :: "(u8 list \<Rightarrow> u8 list) \<Rightarrow> u8 list \<Rightarrow> u8 \<Rightarrow> nat \<Rightarrow> bool" where
  "bit_at hash seed r p = bit_of (byte_of (source_of hash seed r (of_nat p)) (of_nat p)) (of_nat p)"

interpretation shuf: swap_or_not "unat n" "\<lambda>r. unat (pivot_of hash seed n r)" "bit_at hash seed"
  for hash :: "u8 list \<Rightarrow> u8 list" and seed :: "u8 list" and n :: u64
  by unfold_locales (simp add: pivot_of_def unat_mod)

abbreviation model_round :: "(u8 list \<Rightarrow> u8 list) \<Rightarrow> u8 list \<Rightarrow> u64 \<Rightarrow> u8 \<Rightarrow> nat \<Rightarrow> nat" where
  "model_round hash seed n r \<equiv> son_round (unat n) (unat (pivot_of hash seed n r)) (bit_at hash seed r)"

subsection \<open>The index shuffle\<close>

lemma shuffle_step_refines:
  assumes "unat n \<le> 2 ^ 40" "index < n"
  shows "unat (shuffle_step hash seed n r index) = model_round hash seed n r (unat index)"
proof -
  let ?p = "pivot_of hash seed n r"
  have n0: "n \<noteq> 0" using assms(2) by auto
  have i: "unat index < unat n" using assms(2) by (simp add: word_less_nat_alt)
  have p: "unat ?p < unat n" using n0 by (simp add: pivot_of_def unat_mod unat_gt_0)
  have "unat (?p + n) = unat ?p + unat n" using p assms(1) by (intro unat_add_no_wrap) simp
  moreover from this have "unat (?p + n - index) = unat ?p + unat n - unat index"
    using i by (subst unat_sub) (auto simp: word_le_nat_alt)
  ultimately have f: "unat ((?p + n - index) mod n) = mirror_of (unat n) (unat ?p) (unat index)"
    by (simp add: mirror_of_def unat_mod)
  have m: "of_nat (max (unat index) (unat ((?p + n - index) mod n)))
      = (if (?p + n - index) mod n > index then (?p + n - index) mod n else index)"
    by (simp add: max_def word_less_nat_alt)
  show ?thesis
    unfolding son_round_def f [symmetric] bit_at_def m
    by (simp add: shuffle_step_def Let_def)
qed

lemma rounds_up:
  assumes "k < R" "R < 256"
  shows "rounds_loop f (of_nat R) True (of_nat k) x = fold f (map of_nat [k..<R]) x"
  using assms
proof (induction "R - k" arbitrary: k x)
  case (Suc d)
  have "((of_nat (Suc k) :: u8) = of_nat R) = (Suc k = R)"
    using Suc.prems by (simp add: word_unat_eq_iff unat_of_nat del: of_nat_Suc)
  then have eq: "((of_nat k :: u8) + 1 = of_nat R) = (Suc k = R)" by (simp add: add.commute)
  show ?case
  proof (cases "Suc k = R")
    case True
    then show ?thesis using eq by (subst rounds_loop.simps) (simp add: Let_def upt_rec)
  next
    case False
    then have "rounds_loop f (of_nat R) True (of_nat (Suc k)) (f (of_nat k) x)
        = fold f (map of_nat [Suc k..<R]) (f (of_nat k) x)"
      using Suc by (intro Suc.hyps(1)) auto
    then show ?thesis using eq False Suc.prems
      by (subst rounds_loop.simps) (simp add: Let_def upt_conv_Cons add.commute)
  qed
qed simp

lemma rounds_down:
  assumes "k < 256"
  shows "rounds_loop f R False (of_nat k) x = fold f (rev (map of_nat [0..<Suc k])) x"
  using assms
proof (induction k arbitrary: x)
  case 0
  then show ?case by (subst rounds_loop.simps) simp
next
  case (Suc k)
  have "(of_nat (Suc k) :: u8) \<noteq> 0" using Suc.prems by (auto simp: word_unat_eq_iff unat_of_nat simp del: of_nat_Suc)
  moreover have "(of_nat (Suc k) :: u8) - 1 = of_nat k" by simp
  ultimately show ?case using Suc
    by (subst rounds_loop.simps) (simp add: Let_def del: of_nat_Suc)
qed

definition all_rounds :: "u8 list" where "all_rounds = map of_nat [0..<90]"

lemma rounds_loop_all:
  "rounds_loop f (ucast ShuffleRoundCount) True (start_round (ucast ShuffleRoundCount) True) x = fold f all_rounds x"
  "rounds_loop f (ucast ShuffleRoundCount) False (start_round (ucast ShuffleRoundCount) False) x = fold f (rev all_rounds) x"
  using rounds_up [of 0 90 f x] rounds_down [of 89 f 90 x]
  by (simp_all add: ShuffleRoundCount_def start_round_def all_rounds_def)

lemma fold_refines:
  assumes "unat n \<le> 2 ^ 40" "index < n"
  shows "unat (fold (shuffle_step hash seed n) rs index) = fold (model_round hash seed n) rs (unat index)"
    and "fold (shuffle_step hash seed n) rs index < n"
proof -
  have "unat (fold (shuffle_step hash seed n) rs index) = fold (model_round hash seed n) rs (unat index)
    \<and> fold (shuffle_step hash seed n) rs index < n"
    using assms(2)
  proof (induction rs arbitrary: index)
    case (Cons r rs)
    have "shuffle_step hash seed n r index < n"
      using shuffle_step_refines [OF assms(1) Cons.prems] shuf.round_less [of "unat index" n] Cons.prems
      by (simp add: word_less_nat_alt)
    then show ?case using Cons.IH shuffle_step_refines [OF assms(1) Cons.prems] by simp
  qed simp
  then show "unat (fold (shuffle_step hash seed n) rs index) = fold (model_round hash seed n) rs (unat index)"
    "fold (shuffle_step hash seed n) rs index < n" by blast+
qed

lemma maxShuffle_nat: "n \<le> maxShuffleListSize \<longleftrightarrow> unat n \<le> 2 ^ 40"
  by (simp add: maxShuffleListSize_def word_le_nat_alt)

lemma ComputeShuffledIndex_eq:
  "ComputeShuffledIndex hash index n seed shuffle =
    (if index \<ge> n then (0, Some (Fresh ''input index out of bounds''))
     else if n > maxShuffleListSize then (0, Some (Fresh ''list size out of bounds''))
     else (fold (shuffle_step hash seed n) (if shuffle then all_rounds else rev all_rounds) index, None))"
  by (cases shuffle)
    (simp_all add: ComputeShuffledIndex_def rounds_loop_all Let_def, simp_all add: ShuffleRoundCount_def)

text \<open>
  (C24) Un-shuffling undoes shuffling: for every hash function, seed, list size up to \<open>2 ^ 40\<close> and index
  below it, \<^verbatim>\<open>ShuffledIndex\<close> succeeds with an index in range that \<^verbatim>\<open>UnShuffledIndex\<close> maps back.
\<close>
theorem UnShuffledIndex_inverse:
  assumes "index < n" "n \<le> maxShuffleListSize"
  shows "\<exists>k. ShuffledIndex hash index n seed = (k, None) \<and> k < n \<and> UnShuffledIndex hash k n seed = (index, None)"
proof -
  have n: "unat n \<le> 2 ^ 40" using assms(2) by (simp only: maxShuffle_nat)
  let ?k = "fold (shuffle_step hash seed n) all_rounds index"
  have k: "?k < n" by (rule fold_refines(2) [OF n assms(1)])
  have i: "unat index < unat n" using assms(1) by (simp add: word_less_nat_alt)
  have "unat (fold (shuffle_step hash seed n) (rev all_rounds) ?k) = unat index"
    unfolding fold_refines(1) [OF n k] fold_refines(1) [OF n assms(1)] by (rule shuf.rounds_inverse [OF i])
  then have "fold (shuffle_step hash seed n) (rev all_rounds) ?k = index" by (rule unat_eqI)
  then show ?thesis
    using assms k by (auto simp: ShuffledIndex_def UnShuffledIndex_def ComputeShuffledIndex_eq not_le)
qed

theorem UnShuffledIndex_inverse_witness:
  "\<exists>k. ShuffledIndex (\<lambda>xs. replicate 32 (last xs)) 3 10 (replicate 32 7) = (k, None) \<and> k < 10
    \<and> UnShuffledIndex (\<lambda>xs. replicate 32 (last xs)) k 10 (replicate 32 7) = (3, None)"
  by (rule UnShuffledIndex_inverse) (simp_all add: maxShuffleListSize_def word_le_nat_alt)

subsection \<open>The list shuffle\<close>

text \<open>What a round does to a list, read off the round on positions.\<close>
definition apply_round :: "(nat \<Rightarrow> nat) \<Rightarrow> 'a list \<Rightarrow> 'a list" where
  "apply_round f l = map (\<lambda>i. l ! f i) [0..<length l]"

lemma unat_and_255: "unat ((x :: u64) AND 0xff) = unat x mod 256"
proof -
  have "unat x AND 255 = take_bit 8 (unat x)" by (simp add: take_bit_eq_mask mask_eq_exp_minus_1)
  then show ?thesis unfolding unsigned_and_eq by (simp add: take_bit_eq_mod)
qed

lemma unat_and_7: "unat ((x :: u64) AND 7) = unat x mod 8"
proof -
  have "unat x AND 7 = take_bit 3 (unat x)" by (simp add: take_bit_eq_mask mask_eq_exp_minus_1)
  then show ?thesis unfolding unsigned_and_eq by (simp add: take_bit_eq_mod)
qed

lemma unat_255: "unat (0xff :: u64) = 255" and unat_7: "unat (7 :: u64) = 7"
  by simp_all

lemma unat_drop_bit: "unat (drop_bit k (x :: u64)) = unat x div 2 ^ k"
  unfolding unsigned_drop_bit_eq by (simp add: drop_bit_eq_div take_bit_eq_mod unat_u64_lt)

text \<open>The carried hash and byte are the right ones for the next position, or about to be renewed.\<close>
definition carried :: "(u8 list \<Rightarrow> u8 list) \<Rightarrow> u8 list \<Rightarrow> u8 \<Rightarrow> u64 \<Rightarrow> u8 \<Rightarrow> u8 list \<Rightarrow> bool" where
  "carried hash seed r j byteV source \<longleftrightarrow>
     (j AND 0xff \<noteq> 0xff \<longrightarrow> source = source_of hash seed r j) \<and>
     (j AND 7 \<noteq> 7 \<longrightarrow> byteV = byte_of (source_of hash seed r j) j)"

lemma mod_256_8: "(d :: nat) mod 256 mod 8 = d mod 8"
  by (simp add: mod_mod_cancel)

lemma Suc_div_same: "d mod n \<noteq> n - 1 \<Longrightarrow> 0 < n \<Longrightarrow> Suc d div n = d div n"
  by (auto simp: div_Suc mod_Suc split: if_splits)

lemma Suc_mod_256_div_8: "d mod 8 \<noteq> 7 \<Longrightarrow> Suc d mod 256 div 8 = d mod 256 div 8"
proof -
  assume d: "d mod 8 \<noteq> 7"
  then have "d mod 256 \<noteq> 255" using mod_256_8 [of d] by auto
  then have "Suc d mod 256 = Suc (d mod 256)" by (auto simp: mod_Suc)
  then show ?thesis using Suc_div_same [of "d mod 256" 8] d mod_256_8 [of d] by simp
qed

lemma and_7_of_255: "(j :: u64) AND 0xff = 0xff \<Longrightarrow> j AND 7 = 7"
proof -
  assume "j AND 0xff = 0xff"
  then have "unat j mod 256 = 255" using unat_and_255 [of j] by simp
  then have "unat j mod 8 = 7" using mod_256_8 [of "unat j"] by simp
  then show ?thesis using unat_and_7 [of j] by (intro unat_eqI) simp
qed

lemma swapOrNot_eq:
  assumes "carried hash seed r j byteV source"
  shows "swapOrNot hash seed r byteV i input j source =
    (if bit_at hash seed r (unat j) then input[unat i := input ! unat j, unat j := input ! unat i] else input,
     byte_of (source_of hash seed r j) j, source_of hash seed r j)"
  using assms and_7_of_255 [of j]
  by (cases "j AND 0xff = 0xff"; cases "j AND 7 = 7") (simp_all add: swapOrNot_def carried_def bit_at_def Let_def)

lemma carried_pred:
  assumes "j \<noteq> 0"
  shows "carried hash seed r (j - 1) (byte_of (source_of hash seed r j) j) (source_of hash seed r j)"
proof -
  have j: "unat j = Suc (unat (j - 1))" using assms unat_pred_less [of j] by (simp add: unat_minus_one)
  have d8: "drop_bit 8 (j - 1) = drop_bit 8 j" if "unat (j - 1) mod 256 \<noteq> 255"
  proof (rule unat_eqI)
    show "unat (drop_bit 8 (j - 1)) = unat (drop_bit 8 j)"
      unfolding unat_drop_bit j using Suc_div_same [of "unat (j - 1)" 256] that by simp
  qed
  have d3: "drop_bit 3 ((j - 1) AND 0xff) = drop_bit 3 (j AND 0xff)" if "unat (j - 1) mod 8 \<noteq> 7"
  proof (rule unat_eqI)
    show "unat (drop_bit 3 ((j - 1) AND 0xff)) = unat (drop_bit 3 (j AND 0xff))"
      unfolding unat_drop_bit unat_and_255 j using Suc_mod_256_div_8 [OF that] by simp
  qed
  have n255: "unat (j - 1) mod 256 \<noteq> 255" if "(j - 1) AND 0xff \<noteq> 0xff"
    using that unat_and_255 [of "j - 1"] by (metis unat_eqI unat_255)
  have n7: "unat (j - 1) mod 8 \<noteq> 7" if "(j - 1) AND 7 \<noteq> 7"
    using that unat_and_7 [of "j - 1"] by (metis unat_eqI unat_7)
  have "unat (j - 1) mod 256 \<noteq> 255" if "unat (j - 1) mod 8 \<noteq> 7" using that mod_256_8 [of "unat (j - 1)"] by auto
  then show ?thesis
    unfolding carried_def source_of_def byte_of_def using d8 d3 n255 n7 by metis
qed

text \<open>Exchanging the pairs \<open>(i + t, j - t)\<close> for \<open>t < k\<close>, position by position.\<close>
definition swapped :: "(nat \<Rightarrow> bool) \<Rightarrow> nat \<Rightarrow> nat \<Rightarrow> nat \<Rightarrow> nat \<Rightarrow> nat" where
  "swapped b i j k x =
    (if i \<le> x \<and> x < i + k then (if b (i + j - x) then i + j - x else x)
     else if j < x + k \<and> x \<le> j then (if b x then i + j - x else x)
     else x)"

lemma pair_loop_swapped:
  assumes "k = unat mirror - unat i" "unat i + 2 * k \<le> unat j + 1" "unat j < length input"
    "k = 0 \<or> carried hash seed r j byteV source" "x < length input"
  shows "length (pair_loop hash seed r mirror i j (input, byteV, source)) = length input"
    and "pair_loop hash seed r mirror i j (input, byteV, source) ! x
      = input ! swapped (bit_at hash seed r) (unat i) (unat j) k x"
proof -
  have "length (pair_loop hash seed r mirror i j (input, byteV, source)) = length input \<and>
    (\<forall>x<length input. pair_loop hash seed r mirror i j (input, byteV, source) ! x
      = input ! swapped (bit_at hash seed r) (unat i) (unat j) k x)"
    using assms(1-4)
  proof (induction k arbitrary: i j input byteV source)
    case 0
    then have "\<not> i < mirror" by (simp add: word_less_nat_alt)
    then show ?case by (subst (1 2) pair_loop.simps) (auto simp: swapped_def)
  next
    case (Suc k)
    let ?b = "bit_at hash seed r" and ?i = "unat i" and ?j = "unat j"
    let ?L = "if ?b ?j then input[?i := input ! ?j, ?j := input ! ?i] else input"
    let ?src = "source_of hash seed r j"
    have im: "i < mirror" using Suc.prems(1) by (simp add: word_less_nat_alt)
    have j0: "j \<noteq> 0" using Suc.prems(2) by auto
    have ij: "?i < ?j" using Suc.prems(2) by simp
    have i1: "unat (i + 1) = ?i + 1"
      using ij unat_u64_bound [of j] unat_add_no_wrap [of i 1] by simp
    have j1: "unat (j - 1) = ?j - 1" using j0 by (simp add: unat_minus_one)
    have step: "pair_loop hash seed r mirror i j (input, byteV, source)
        = pair_loop hash seed r mirror (i + 1) (j - 1) (?L, byte_of ?src j, ?src)"
      using im swapOrNot_eq [of hash seed r j byteV source i input] Suc.prems(4)
      by (subst pair_loop.simps) simp
    have ih: "length (pair_loop hash seed r mirror (i + 1) (j - 1) (?L, byte_of ?src j, ?src)) = length ?L \<and>
      (\<forall>x<length ?L. pair_loop hash seed r mirror (i + 1) (j - 1) (?L, byte_of ?src j, ?src) ! x
        = ?L ! swapped ?b (unat (i + 1)) (unat (j - 1)) k x)"
      using Suc.prems(1-3) carried_pred [OF j0] i1 j1 ij by (intro Suc.IH) auto
    have pos: "?L ! swapped ?b (?i + 1) (?j - 1) k x = input ! swapped ?b ?i ?j (Suc k) x" if "x < length input" for x
    proof -
      have s: "?i + 1 + (?j - 1) = ?i + ?j" using ij by simp
      consider "x = ?i" | "x = ?j" | "x \<noteq> ?i" "x \<noteq> ?j" by blast
      then show ?thesis
      proof cases
        case 3
        let ?y = "swapped ?b (?i + 1) (?j - 1) k x"
        have "?y = swapped ?b ?i ?j (Suc k) x" "?y \<noteq> ?i" "?y \<noteq> ?j"
          using 3 ij Suc.prems(2) unfolding swapped_def s by auto
        then show ?thesis by simp
      qed (use ij Suc.prems(2,3) in \<open>auto simp: swapped_def\<close>)
    qed
    show ?case using ih pos unfolding step i1 j1 by simp
  qed
  then show "length (pair_loop hash seed r mirror i j (input, byteV, source)) = length input"
    "pair_loop hash seed r mirror i j (input, byteV, source) ! x
      = input ! swapped (bit_at hash seed r) (unat i) (unat j) k x" using assms(5) by blast+
qed

lemma swapped_low:
  assumes "x \<le> p" "p < n" "2 * k \<le> p + 1" "p + 1 < 2 * k + 2"
  shows "swapped b 0 p k x = son_round n p b x"
proof -
  have m: "mirror_of n p x = p - x" using assms by (simp add: mirror_of_eq)
  consider "x < k" | "p < x + k" | "x + x = p" using assms by linarith
  then show ?thesis
    by cases (use assms in \<open>auto simp: swapped_def son_round_def m max_def\<close>)
qed

lemma swapped_high:
  assumes "p < x" "x < n" "2 * (p + 1 + k) \<le> p + n + 1" "p + n + 1 < 2 * (p + 1 + k) + 2"
  shows "swapped b (p + 1) (n - 1) k x = son_round n p b x \<and> p < son_round n p b x"
proof -
  have m: "mirror_of n p x = p + n - x" using assms by (simp add: mirror_of_eq)
  have s: "p + 1 + (n - 1) - x = p + n - x" using assms by simp
  consider (low) "x < p + 1 + k" | (high) "\<not> x < p + 1 + k" "n - 1 < x + k" | (mid) "\<not> x < p + 1 + k" "\<not> n - 1 < x + k"
    by blast
  then show ?thesis
  proof cases
    case low
    then have "x + x \<le> p + n" using assms by simp
    then have "x \<le> p + n - x" by linarith
    then show ?thesis using low assms by (auto simp: swapped_def son_round_def m s max_def)
  next
    case high
    then have "p + n \<le> x + x" using assms by simp
    then have "p + n - x \<le> x" by linarith
    then show ?thesis using high assms by (auto simp: swapped_def son_round_def m s max_def)
  next
    case mid
    then have "p + n = x + x" using assms by simp
    then have "p + n - x = x" by linarith
    then show ?thesis using mid assms by (auto simp: swapped_def son_round_def m s max_def)
  qed
qed

lemma son_round_le: "x \<le> p \<Longrightarrow> p < n \<Longrightarrow> son_round n p b x \<le> p"
  by (simp add: son_round_def mirror_of_eq)

lemma two_swaps:
  assumes "p < n" "x < n" "k1 = (p + 1) div 2" "k2 = (p + n + 1) div 2 - (p + 1)"
  shows "swapped b 0 p k1 (swapped b (p + 1) (n - 1) k2 x) = son_round n p b x"
proof -
  have k2: "2 * (p + 1 + k2) \<le> p + n + 1" "p + n + 1 < 2 * (p + 1 + k2) + 2" using assms by presburger+
  have k1: "2 * k1 \<le> p + 1" "p + 1 < 2 * k1 + 2" using assms(3) by presburger+
  show ?thesis
  proof (cases "x \<le> p")
    case True
    then have "swapped b (p + 1) (n - 1) k2 x = x" using k2 assms(1) by (auto simp: swapped_def)
    then show ?thesis using swapped_low [OF True assms(1) k1] by simp
  next
    case False
    then have h: "swapped b (p + 1) (n - 1) k2 x = son_round n p b x" "p < son_round n p b x"
      using swapped_high [OF _ assms(2) k2] by auto
    have "swapped b 0 p k1 y = y" if "p < y" for y using that k1 by (auto simp: swapped_def)
    then show ?thesis using h by simp
  qed
qed

lemma list_round_apply:
  assumes "2 \<le> length input" "length input \<le> 2 ^ 40"
  shows "list_round hash seed r input = apply_round (model_round hash seed (of_nat (length input)) r) input"
proof -
  let ?N = "of_nat (length input) :: u64" and ?n = "length input"
  let ?p = "pivot_of hash seed ?N r"
  have n: "unat ?N = ?n" using assms(2) by (simp add: unat_of_nat)
  then have "?N \<noteq> 0" using assms(1) by auto
  then have p: "unat ?p < ?n" unfolding pivot_of_def unat_mod n using assms(1) by (intro mod_less_divisor) linarith
  have p1: "unat (?p + 1) = unat ?p + 1" using p assms(2) unat_add_no_wrap [of ?p 1] by simp
  have pN: "unat (?p + ?N) = unat ?p + ?n" using p assms(2) n unat_add_no_wrap [of ?p ?N] by simp
  have "unat (?p + ?N + 1) = unat ?p + ?n + 1" using p assms(2) pN unat_add_no_wrap [of "?p + ?N" 1] by simp
  then have m2: "unat (drop_bit 1 (?p + ?N + 1)) = (unat ?p + ?n + 1) div 2" by (simp add: unat_drop_bit)
  have m1: "unat (drop_bit 1 (?p + 1)) = (unat ?p + 1) div 2" using p1 by (simp add: unat_drop_bit)
  have e: "unat (?N - 1) = ?n - 1" using \<open>?N \<noteq> 0\<close> n by (simp add: unat_minus_one)
  let ?b = "bit_at hash seed r" and ?k1 = "(unat ?p + 1) div 2" and ?k2 = "(unat ?p + ?n + 1) div 2 - (unat ?p + 1)"
  let ?L1 = "pair_loop hash seed r (drop_bit 1 (?p + 1)) 0 ?p (input, byte_of (source_of hash seed r ?p) ?p, source_of hash seed r ?p)"
  have l1: "length ?L1 = ?n" "\<And>x. x < ?n \<Longrightarrow> ?L1 ! x = input ! swapped ?b 0 (unat ?p) ?k1 x"
    using pair_loop_swapped [of ?k1 "drop_bit 1 (?p + 1)" 0 ?p input hash seed r _ _] m1 p assms(1)
    by (fastforce simp: carried_def)+
  let ?L2 = "pair_loop hash seed r (drop_bit 1 (?p + ?N + 1)) (?p + 1) (?N - 1)
    (?L1, byte_of (source_of hash seed r (?N - 1)) (?N - 1), source_of hash seed r (?N - 1))"
  have l2: "length ?L2 = ?n" "\<And>x. x < ?n \<Longrightarrow> ?L2 ! x = ?L1 ! swapped ?b (unat ?p + 1) (?n - 1) ?k2 x"
    using pair_loop_swapped [of ?k2 "drop_bit 1 (?p + ?N + 1)" "?p + 1" "?N - 1" ?L1 hash seed r _ _] m2 p1 e p assms(1) l1(1)
    by (fastforce simp: carried_def)+
  have "?L2 ! x = input ! son_round ?n (unat ?p) ?b x" if x: "x < ?n" for x
  proof -
    have "swapped ?b (unat ?p + 1) (?n - 1) ?k2 x < ?n" using x p by (auto simp: swapped_def)
    then show ?thesis using l1(2) l2(2) [OF x] two_swaps [OF p x refl refl, of ?b] by simp
  qed
  then have "?L2 = apply_round (model_round hash seed ?N r) input"
    using l2(1) n by (intro nth_equalityI) (simp_all add: apply_round_def)
  then show ?thesis by (simp add: list_round_def Let_def)
qed

lemma length_apply_round [simp]: "length (apply_round f l) = length l"
  by (simp add: apply_round_def)

lemma fold_list_round:
  assumes "2 \<le> length input" "length input \<le> 2 ^ 40"
  shows "length (fold (list_round hash seed) rs input) = length input
    \<and> (\<forall>i<length input. fold (list_round hash seed) rs input ! i
        = input ! fold (model_round hash seed (of_nat (length input))) (rev rs) i)"
  using assms
proof (induction rs arbitrary: input)
  case (Cons r rs)
  let ?N = "of_nat (length input) :: u64"
  have n: "unat ?N = length input" using Cons.prems(2) by (simp add: unat_of_nat)
  let ?L = "apply_round (model_round hash seed ?N r) input"
  have r: "list_round hash seed r input = ?L" by (rule list_round_apply [OF Cons.prems])
  have "fold (list_round hash seed) rs ?L ! i = ?L ! fold (model_round hash seed ?N) (rev rs) i"
    if "i < length input" for i using Cons.IH [of ?L] Cons.prems that by simp
  moreover have "fold (model_round hash seed ?N) (rev rs) i < length input" if "i < length input" for i
    using shuf.rounds_less [of i ?N] that n by simp
  ultimately show ?case using Cons.IH [of ?L] Cons.prems by (simp add: r apply_round_def)
qed simp

lemma innerShuffleList_eq:
  assumes "2 \<le> length input" "length input \<le> 2 ^ 40"
  shows "innerShuffleList hash input seed shuffle =
    (fold (list_round hash seed) (if shuffle then all_rounds else rev all_rounds) input, None)"
proof -
  have "unat (of_nat (length input) :: u64) = length input" using assms(2) by (simp add: unat_of_nat)
  then have "\<not> of_nat (length input) > maxShuffleListSize"
    using assms(2) by (simp add: maxShuffleListSize_def word_less_nat_alt)
  then show ?thesis using assms(1)
    by (cases shuffle) (simp_all add: innerShuffleList_def rounds_loop_all Let_def, simp_all add: ShuffleRoundCount_def)
qed

text \<open>
  (C23) The optimised list shuffles agree with the index shuffle of the specification: for every list
  of 2 to \<open>2 ^ 40\<close> entries, \<^verbatim>\<open>UnshuffleList\<close> puts at position \<open>i\<close> the entry at
  \<^verbatim>\<open>ShuffledIndex(i)\<close>, and \<^verbatim>\<open>ShuffleList\<close> the entry at \<^verbatim>\<open>UnShuffledIndex(i)\<close>.
\<close>
theorem list_shuffle_agrees:
  assumes "2 \<le> length input" "length input \<le> 2 ^ 40" "i < length input"
  shows "\<exists>un sh k k'. UnshuffleList hash input seed = (un, None) \<and> ShuffleList hash input seed = (sh, None)
    \<and> ShuffledIndex hash (of_nat i) (of_nat (length input)) seed = (k, None) \<and> un ! i = input ! unat k
    \<and> UnShuffledIndex hash (of_nat i) (of_nat (length input)) seed = (k', None) \<and> sh ! i = input ! unat k'"
proof -
  let ?N = "of_nat (length input) :: u64" and ?i = "of_nat i :: u64"
  have n: "unat ?N = length input" and i: "unat ?i = i" using assms(2,3) by (simp_all add: unat_of_nat)
  have lt: "?i < ?N" using n i assms(3) by (simp add: word_less_nat_alt)
  have mx: "\<not> maxShuffleListSize < ?N" using n assms(2) maxShuffle_nat [of ?N] by (simp add: not_less)
  have n40: "unat ?N \<le> 2 ^ 40" using n assms(2) by simp
  have idx: "unat (fold (shuffle_step hash seed ?N) rs ?i) = fold (model_round hash seed ?N) rs i" for rs
    using fold_refines(1) [OF n40 lt] i by simp
  note lst = fold_list_round [OF assms(1,2), THEN conjunct2, rule_format, OF assms(3)]
  show ?thesis
    using lst [of hash seed all_rounds] lst [of hash seed "rev all_rounds"] idx [of all_rounds] idx [of "rev all_rounds"] lt mx
    by (simp add: UnshuffleList_def ShuffleList_def ShuffledIndex_def UnShuffledIndex_def
        innerShuffleList_eq [OF assms(1,2)] ComputeShuffledIndex_eq not_le)
qed

theorem list_shuffle_agrees_witness:
  "\<exists>un sh k k'. UnshuffleList (\<lambda>xs. replicate 32 (last xs)) [10, 11, 12] (replicate 32 7) = (un, None)
    \<and> ShuffleList (\<lambda>xs. replicate 32 (last xs)) [10, 11, 12] (replicate 32 7) = (sh, None)
    \<and> ShuffledIndex (\<lambda>xs. replicate 32 (last xs)) (of_nat 1) (of_nat (length [10, 11, 12 :: u64])) (replicate 32 7) = (k, None)
    \<and> un ! 1 = [10, 11, 12] ! unat k
    \<and> UnShuffledIndex (\<lambda>xs. replicate 32 (last xs)) (of_nat 1) (of_nat (length [10, 11, 12 :: u64])) (replicate 32 7) = (k', None)
    \<and> sh ! 1 = [10, 11, 12] ! unat k'"
  by (rule list_shuffle_agrees) simp_all

subsection \<open>Splitting\<close>

lemma concat_slices:
  assumes "\<And>i. i < k \<Longrightarrow> f i \<le> f (Suc i)" "f k \<le> length l"
  shows "concat (map (\<lambda>i. take (f (Suc i) - f i) (drop (f i) l)) [0..<k]) = take (f k - f 0) (drop (f 0) l)"
  using assms
proof (induction k)
  case (Suc k)
  have mono: "f 0 \<le> f k" using Suc.prems(1) by (induction k) (auto intro: order_trans)
  have le: "f k \<le> f (Suc k)" using Suc.prems(1) by simp
  have "take (f (Suc k) - f 0) (drop (f 0) l) = take (f k - f 0) (drop (f 0) l) @ take (f (Suc k) - f k) (drop (f k) l)"
    using mono le take_add [of "f k - f 0" "f (Suc k) - f k" "drop (f 0) l"] by simp
  then show ?case using Suc le by simp
qed simp

lemma SplitOffset_nat:
  assumes "n \<noteq> 0" "length l * unat n < 2 ^ 64" "i \<le> unat n"
  shows "SplitOffset (of_nat (length l)) n (of_nat i) = Ret (of_nat (length l * i div unat n))"
    and "unat (of_nat (length l * i div unat n) :: u64) = length l * i div unat n"
proof -
  have le: "length l * i \<le> length l * unat n" using assms(3) by simp
  have "length l * i div unat n \<le> length l * i" by (rule div_le_dividend)
  then have b: "length l * i div unat n < 2 ^ 64" using le assms(2) by linarith
  then show u: "unat (of_nat (length l * i div unat n) :: u64) = length l * i div unat n" by (simp add: unat_of_nat)
  have "length l * i < 2 ^ 64" using le assms(2) by linarith
  then have "unat (of_nat (length l * i) :: u64) = length l * i" by (simp add: unat_of_nat del: of_nat_mult)
  then have "of_nat (length l * i) div n = (of_nat (length l * i div unat n) :: u64)"
    using u by (intro unat_eqI) (simp add: unat_div)
  then show "SplitOffset (of_nat (length l)) n (of_nat i) = Ret (of_nat (length l * i div unat n))"
    using assms(1) by (simp add: SplitOffset_def)
qed

text \<open>
  \<^verbatim>\<open>SplitIndices\<close> cuts a list into as many consecutive pieces as asked for, without losing,
  repeating or reordering an element, as long as the products fit in 64 bits.
\<close>
theorem SplitIndices_concat:
  assumes "n \<noteq> 0" "length l * unat n < 2 ^ 64"
  shows "\<exists>ds. SplitIndices l n = Ret ds \<and> length ds = unat n \<and> concat ds = l"
proof -
  let ?f = "\<lambda>i. length l * i div unat n"
  have n: "0 < unat n" using assms(1) by (simp add: unat_gt_0)
  have le: "?f i \<le> length l" if "i \<le> unat n" for i
    using that n by (metis div_le_mono mult_le_mono2 nonzero_mult_div_cancel_right less_not_refl2)
  have mono: "?f i \<le> ?f (Suc i)" for i by (intro div_le_mono) simp
  have loop: "split_loop l n (map of_nat [k..<m]) = Ret (map (\<lambda>i. take (?f (Suc i) - ?f i) (drop (?f i) l)) [k..<m])"
    if "m \<le> unat n" for k m
    using that
  proof (induction "m - k" arbitrary: k)
    case (Suc d)
    then have k: "k < m" by simp
    have s: "SplitOffset (of_nat (length l)) n (of_nat k + 1) = Ret (of_nat (?f (Suc k)))"
      using SplitOffset_nat(1) [OF assms, of "Suc k"] k Suc.prems by (simp add: add.commute)
    have "split_loop l n (map of_nat [Suc k..<m]) = Ret (map (\<lambda>i. take (?f (Suc i) - ?f i) (drop (?f i) l)) [Suc k..<m])"
      using Suc by simp
    then show ?case
      using s k Suc.prems SplitOffset_nat(1) [OF assms, of k] SplitOffset_nat(2) [OF assms, of k]
        SplitOffset_nat(2) [OF assms, of "Suc k"] mono [of k] le [of "Suc k"]
      by (simp add: upt_conv_Cons go_slice_def)
  qed simp
  have "concat (map (\<lambda>i. take (?f (Suc i) - ?f i) (drop (?f i) l)) [0..<unat n]) = l"
    using concat_slices [of "unat n" ?f l] mono le n by simp
  then show ?thesis using loop [of "unat n" 0] by (simp add: SplitIndices_def)
qed

theorem SplitIndices_concat_witness:
  "\<exists>ds. SplitIndices [1, 2, 3, 4, 5] 2 = Ret ds \<and> length ds = unat (2 :: u64) \<and> concat ds = [1, 2, 3, 4, 5]"
  by (rule SplitIndices_concat) simp_all

end
