(* ===== verification/Registry.thy ===== *)
theory Registry
  imports BeaconState Shuffle
begin

text \<open>
  The validator helpers of \<^verbatim>\<open>beacon-chain/core/helpers\<close>: \<^verbatim>\<open>validators.go\<close> (status, churn limits,
  proposer selection, activation queue) and \<^verbatim>\<open>rewards_penalties.go\<close> (balances, finality delay).

  Two process-wide caches, filled by every goroutine, are read along the way. What they answer to the
  calls of one execution is an argument, the record \<open>cache_view\<close>; a fact about a result needs the
  answers to be right only where the code returns them unchecked.
\<close>

unbundle bit_operations_syntax

record cache_view =
  cv_ActiveIndices :: "u8 list \<Rightarrow> ValidatorIndex list option result"
  cv_ActiveIndices_again :: "u8 list \<Rightarrow> ValidatorIndex list option result"
  cv_ActiveIndicesCount :: "u8 list \<Rightarrow> nat result"
  cv_ActiveIndicesCount_again :: "u8 list \<Rightarrow> nat result"
  cv_MarkInProgress :: "u8 list \<Rightarrow> go_error option"
  cv_UpdateCommitteeCache :: "BeaconState \<Rightarrow> Epoch \<Rightarrow> go_error option"
  cv_Committee :: "Slot \<Rightarrow> u8 list \<Rightarrow> u64 \<Rightarrow> ValidatorIndex list option result"
  cv_Committee_again :: "Slot \<Rightarrow> u8 list \<Rightarrow> u64 \<Rightarrow> ValidatorIndex list option result"
  cv_balance :: "BeaconState \<Rightarrow> u64 result"
  cv_AddTotalEffectiveBalance :: "BeaconState \<Rightarrow> u64 \<Rightarrow> go_error option"
  cv_ProposerIndices :: "Epoch \<Rightarrow> u8 list \<Rightarrow> ValidatorIndex list option"
  cv_ProposerIndices_again :: "Epoch \<Rightarrow> u8 list \<Rightarrow> ValidatorIndex list option"
  cv_UpdateProposerIndicesInCache :: "BeaconState \<Rightarrow> Epoch \<Rightarrow> go_error option"

definition ErrAlreadyInProgress :: go_error where "ErrAlreadyInProgress = Sentinel ''already in progress''"
definition ErrNotFound :: go_error where "ErrNotFound = Sentinel ''not found in cache''"
definition errProposerIndexMiss :: go_error where
  "errProposerIndexMiss = Sentinel ''propoposer index not found in cache''"

text \<open>Empty caches.\<close>
definition cold_caches :: cache_view where
  "cold_caches = \<lparr>cv_ActiveIndices = (\<lambda>_. (None, None)), cv_ActiveIndices_again = (\<lambda>_. (None, None)),
     cv_ActiveIndicesCount = (\<lambda>_. (0, None)), cv_ActiveIndicesCount_again = (\<lambda>_. (0, None)),
     cv_MarkInProgress = (\<lambda>_. None), cv_UpdateCommitteeCache = (\<lambda>_ _. None),
     cv_Committee = (\<lambda>_ _ _. (None, None)), cv_Committee_again = (\<lambda>_ _ _. (None, None)),
     cv_balance = (\<lambda>_. (0, Some ErrNotFound)), cv_AddTotalEffectiveBalance = (\<lambda>_ _. None),
     cv_ProposerIndices = (\<lambda>_ _. None), cv_ProposerIndices_again = (\<lambda>_ _. None),
     cv_UpdateProposerIndicesInCache = (\<lambda>_ _. None)\<rparr>"

definition DomainBeaconProposer :: "u8 list" where "DomainBeaconProposer = [0, 0, 0, 0]"
definition DomainBeaconAttester :: "u8 list" where "DomainBeaconAttester = [1, 0, 0, 0]"

subsection \<open>Status of a validator\<close>

definition checkValidatorActiveStatus :: "Epoch \<Rightarrow> Epoch \<Rightarrow> Epoch \<Rightarrow> bool" where
  "checkValidatorActiveStatus activationEpoch exitEpoch epoch \<longleftrightarrow> activationEpoch \<le> epoch \<and> epoch < exitEpoch"

definition IsActiveValidator :: "Validator \<Rightarrow> Epoch \<Rightarrow> bool" where
  "IsActiveValidator v epoch = checkValidatorActiveStatus (v_ActivationEpoch v) (v_ExitEpoch v) epoch"

definition IsActiveValidatorUsingTrie :: "Validator \<Rightarrow> Epoch \<Rightarrow> bool" where
  "IsActiveValidatorUsingTrie v epoch = checkValidatorActiveStatus (v_ActivationEpoch v) (v_ExitEpoch v) epoch"

definition IsActiveNonSlashedValidatorUsingTrie :: "Validator \<Rightarrow> Epoch \<Rightarrow> bool" where
  "IsActiveNonSlashedValidatorUsingTrie v epoch \<longleftrightarrow>
     checkValidatorActiveStatus (v_ActivationEpoch v) (v_ExitEpoch v) epoch \<and> \<not> v_Slashed v"

definition checkValidatorSlashable :: "Epoch \<Rightarrow> Epoch \<Rightarrow> bool \<Rightarrow> Epoch \<Rightarrow> bool" where
  "checkValidatorSlashable activationEpoch withdrawableEpoch slashed epoch \<longleftrightarrow>
     epoch < withdrawableEpoch \<and> activationEpoch \<le> epoch \<and> \<not> slashed"

definition IsSlashableValidator :: "Epoch \<Rightarrow> Epoch \<Rightarrow> bool \<Rightarrow> Epoch \<Rightarrow> bool" where
  "IsSlashableValidator activationEpoch withdrawableEpoch slashed epoch =
     checkValidatorSlashable activationEpoch withdrawableEpoch slashed epoch"

definition IsSlashableValidatorUsingTrie :: "Validator \<Rightarrow> Epoch \<Rightarrow> bool" where
  "IsSlashableValidatorUsingTrie v epoch =
     checkValidatorSlashable (v_ActivationEpoch v) (v_WithdrawableEpoch v) (v_Slashed v) epoch"

definition isEligibileForActivationQueue :: "Epoch \<Rightarrow> u64 \<Rightarrow> bool" where
  "isEligibileForActivationQueue activationEligibilityEpoch effectiveBalance \<longleftrightarrow>
     activationEligibilityEpoch = FarFutureEpoch \<and> effectiveBalance = MaxEffectiveBalance"

definition IsEligibleForActivationQueue :: "Validator \<Rightarrow> bool" where
  "IsEligibleForActivationQueue v =
     isEligibileForActivationQueue (v_ActivationEligibilityEpoch v) (v_EffectiveBalance v)"

definition isEligibleForActivation :: "Epoch \<Rightarrow> Epoch \<Rightarrow> Epoch \<Rightarrow> bool" where
  "isEligibleForActivation activationEligibilityEpoch activationEpoch finalizedEpoch \<longleftrightarrow>
     activationEligibilityEpoch \<le> finalizedEpoch \<and> activationEpoch = FarFutureEpoch"

definition IsEligibleForActivation :: "BeaconState \<Rightarrow> Validator \<Rightarrow> bool" where
  "IsEligibleForActivation s v = isEligibleForActivation (v_ActivationEligibilityEpoch v) (v_ActivationEpoch v)
     (c_Epoch (bs_finalizedCheckpoint s))"

definition ActivationExitEpoch :: "Epoch \<Rightarrow> Epoch" where
  "ActivationExitEpoch epoch = epoch + 1 + MaxSeedLookahead"

subsection \<open>Active validators\<close>

definition ActiveValidatorIndices ::
  "(u8 list \<Rightarrow> u8 list) \<Rightarrow> cache_view \<Rightarrow> BeaconState \<Rightarrow> Epoch \<Rightarrow> ValidatorIndex list result" where
  "ActiveValidatorIndices hash cv s epoch = (case Seed hash s epoch DomainBeaconAttester of
     (_, Some err) \<Rightarrow> ([], Some (Wrap ''could not get seed'' err))
   | (seed, None) \<Rightarrow> (case cv_ActiveIndices cv seed of
       (_, Some err) \<Rightarrow> ([], Some (Wrap ''could not interface with committee cache'' err))
     | (Some activeIndices, None) \<Rightarrow> (activeIndices, None)
     | (None, None) \<Rightarrow> (case cv_MarkInProgress cv seed of
         Some err \<Rightarrow> if errors_Is err ErrAlreadyInProgress then
             (case cv_ActiveIndices_again cv seed of
                (_, Some err) \<Rightarrow> ([], Some err)
              | (None, None) \<Rightarrow> ([], Some (Fresh ''nil active indices''))
              | (Some activeIndices, None) \<Rightarrow> (activeIndices, None))
           else ([], Some (Wrap ''could not mark committee cache as in progress'' err))
       | None \<Rightarrow> (case ReadFromEveryValidator s (\<lambda>idx val indices.
             (if IsActiveValidatorUsingTrie val epoch then indices @ [of_nat idx] else indices, None)) [] of
           (_, Some err) \<Rightarrow> ([], Some err)
         | (indices, None) \<Rightarrow>
             if indices = [] then ([], Some (Fresh ''no active validator indices''))
             else (case cv_UpdateCommitteeCache cv s epoch of
                 Some err \<Rightarrow> ([], Some (Wrap ''could not update committee cache'' err))
               | None \<Rightarrow> (indices, None))))))"

definition ActiveValidatorCount ::
  "(u8 list \<Rightarrow> u8 list) \<Rightarrow> cache_view \<Rightarrow> BeaconState \<Rightarrow> Epoch \<Rightarrow> u64 result" where
  "ActiveValidatorCount hash cv s epoch = (case Seed hash s epoch DomainBeaconAttester of
     (_, Some err) \<Rightarrow> (0, Some (Wrap ''could not get seed'' err))
   | (seed, None) \<Rightarrow> (case cv_ActiveIndicesCount cv seed of
       (_, Some err) \<Rightarrow> (0, Some (Wrap ''could not interface with committee cache'' err))
     | (activeCount, None) \<Rightarrow>
         if activeCount \<noteq> 0 \<and> bs_slot s \<noteq> 0 then (of_nat activeCount, None)
         else (case cv_MarkInProgress cv seed of
           Some err \<Rightarrow> if errors_Is err ErrAlreadyInProgress then
               (case cv_ActiveIndicesCount_again cv seed of
                  (_, Some err) \<Rightarrow> (0, Some err)
                | (activeCount, None) \<Rightarrow> (of_nat activeCount, None))
             else (0, Some (Wrap ''could not mark committee cache as in progress'' err))
         | None \<Rightarrow> (case ReadFromEveryValidator s (\<lambda>idx val cnt.
               (if IsActiveValidatorUsingTrie val epoch then cnt + 1 else cnt, None)) 0 of
             (_, Some err) \<Rightarrow> (0, Some err)
           | (cnt, None) \<Rightarrow> (case cv_UpdateCommitteeCache cv s epoch of
                 Some err \<Rightarrow> (0, Some (Wrap ''could not update committee cache'' err))
               | None \<Rightarrow> (cnt, None))))))"

fun last_active :: "BeaconState \<Rightarrow> nat \<Rightarrow> ValidatorIndex result" where
  "last_active s 0 = (0, None)"
| "last_active s (Suc j) = (case ValidatorAtIndexReadOnly s (of_nat j) of
     (Some val, None) \<Rightarrow> if IsActiveValidatorUsingTrie val (CurrentEpoch s) then (of_nat j, None)
       else last_active s j
   | (_, err) \<Rightarrow> (0, err))"

definition LastActivatedValidatorIndex :: "BeaconState \<Rightarrow> ValidatorIndex result" where
  "LastActivatedValidatorIndex s = last_active s (nat (NumValidators s))"

subsection \<open>Churn limits\<close>

definition calculateChurnLimit :: "u64 \<Rightarrow> u64" where
  "calculateChurnLimit activeValidatorCount =
    (let churnLimit = activeValidatorCount div ChurnLimitQuotient
     in if churnLimit < MinPerEpochChurnLimit then MinPerEpochChurnLimit else churnLimit)"

definition ValidatorActivationChurnLimit :: "u64 \<Rightarrow> u64" where
  "ValidatorActivationChurnLimit activeValidatorCount = calculateChurnLimit activeValidatorCount"

definition ValidatorExitChurnLimit :: "u64 \<Rightarrow> u64" where
  "ValidatorExitChurnLimit activeValidatorCount = calculateChurnLimit activeValidatorCount"

definition ValidatorActivationChurnLimitDeneb :: "u64 \<Rightarrow> u64" where
  "ValidatorActivationChurnLimitDeneb activeValidatorCount =
    (let limit = calculateChurnLimit activeValidatorCount
     in if limit > MaxPerEpochActivationChurnLimit then MaxPerEpochActivationChurnLimit else limit)"

subsection \<open>Proposer\<close>

text \<open>
  The loop \<^verbatim>\<open>for i := uint64(0); ; i++\<close>: a round depends on \<open>i\<close> only, and \<open>i\<close> wraps, so a run
  that has not returned after the largest value of \<open>i\<close> never returns.
\<close>
definition proposer_round ::
  "(u8 list \<Rightarrow> u8 list) \<Rightarrow> BeaconState \<Rightarrow> ValidatorIndex list \<Rightarrow> u8 list \<Rightarrow> u64 \<Rightarrow> ValidatorIndex result option" where
  "proposer_round hash s activeIndices seed i =
    (let len = of_nat (length activeIndices) :: u64
     in case ComputeShuffledIndex hash (i mod len) len seed True of
          (_, Some err) \<Rightarrow> Some (0, Some err)
        | (shuffled, None) \<Rightarrow>
            let candidateIndex = activeIndices ! unat shuffled
            in if unat candidateIndex \<ge> nat (NumValidators s) then Some (0, Some (Fresh ''active index out of range''))
               else let randomByte = hash (seed @ Bytes8 (i div 32)) ! unat (i mod 32)
                    in case ValidatorAtIndexReadOnly s candidateIndex of
                         (Some v, None) \<Rightarrow>
                           if v_EffectiveBalance v * 255 \<ge> MaxEffectiveBalance * ucast randomByte
                           then Some (candidateIndex, None) else None
                       | (_, err) \<Rightarrow> Some (0, err))"

function proposer_loop ::
  "(u8 list \<Rightarrow> u8 list) \<Rightarrow> BeaconState \<Rightarrow> ValidatorIndex list \<Rightarrow> u8 list \<Rightarrow> u64 \<Rightarrow> ValidatorIndex result outcome" where
  "proposer_loop hash s activeIndices seed i = (case proposer_round hash s activeIndices seed i of
     Some r \<Rightarrow> Ret r
   | None \<Rightarrow> if i = - 1 then Diverge else proposer_loop hash s activeIndices seed (i + 1))"
  by auto
termination
proof (relation "measure (\<lambda>(hash, s, activeIndices, seed, i). unat (- 1 - i))", goal_cases)
  case (2 hash s activeIndices seed i)
  then have "- 1 - i \<noteq> 0" by auto
  then have "unat (- 1 - i - 1) < unat (- 1 - i)" by (rule unat_pred_less)
  moreover have "- 1 - (i + 1) = - 1 - i - 1" by simp
  ultimately show ?case by (simp only: in_measure prod.case)
qed simp

declare proposer_loop.simps [simp del]

definition ComputeProposerIndex ::
  "(u8 list \<Rightarrow> u8 list) \<Rightarrow> BeaconState \<Rightarrow> ValidatorIndex list \<Rightarrow> u8 list \<Rightarrow> ValidatorIndex result outcome" where
  "ComputeProposerIndex hash s activeIndices seed =
    (if length activeIndices = 0 then Ret (0, Some (Fresh ''empty active indices list''))
     else proposer_loop hash s activeIndices seed 0)"

definition cachedProposerIndexAtSlot ::
  "(Epoch \<Rightarrow> u8 list \<Rightarrow> ValidatorIndex list option) \<Rightarrow> Slot \<Rightarrow> u8 list \<Rightarrow> ValidatorIndex result" where
  "cachedProposerIndexAtSlot lookup slot root = (case lookup (slot div SlotsPerEpoch) root of
     None \<Rightarrow> (0, Some errProposerIndexMiss)
   | Some proposerIndices \<Rightarrow>
       if length proposerIndices \<noteq> unat SlotsPerEpoch then (0, Some errProposerIndexMiss)
       else (proposerIndices ! unat (slot mod SlotsPerEpoch), None))"

text \<open>The lookup without the cache.\<close>
definition proposer_from_state ::
  "(u8 list \<Rightarrow> u8 list) \<Rightarrow> cache_view \<Rightarrow> BeaconState \<Rightarrow> Slot \<Rightarrow> ValidatorIndex result outcome" where
  "proposer_from_state hash cv s slot =
    (let e = slot div SlotsPerEpoch
     in case Seed hash s e DomainBeaconProposer of
          (_, Some err) \<Rightarrow> Ret (0, Some (Wrap ''could not generate seed'' err))
        | (seed, None) \<Rightarrow>
            let seedWithSlotHash = hash (seed @ Bytes8 slot)
            in case ActiveValidatorIndices hash cv s e of
                 (_, Some err) \<Rightarrow> Ret (0, Some (Wrap ''could not get active indices'' err))
               | (indices, None) \<Rightarrow> ComputeProposerIndex hash s indices seedWithSlotHash)"

definition BeaconProposerIndexAtSlot ::
  "(u8 list \<Rightarrow> u8 list) \<Rightarrow> cache_view \<Rightarrow> BeaconState \<Rightarrow> Slot \<Rightarrow> ValidatorIndex result outcome" where
  "BeaconProposerIndexAtSlot hash cv s slot =
    (let e = slot div SlotsPerEpoch
     in if e > GenesisEpoch + MinSeedLookahead then
          (case EpochEnd (e - 1) of
             (_, Some err) \<Rightarrow> Ret (0, Some err)
           | (sl, None) \<Rightarrow> (case StateRootAtSlot s sl of
               (_, Some err) \<Rightarrow> Ret (0, Some err)
             | (None, None) \<Rightarrow> proposer_from_state hash cv s slot
             | (Some r, None) \<Rightarrow>
                 if r \<noteq> replicate 32 0 then
                   (case cachedProposerIndexAtSlot (cv_ProposerIndices cv) slot r of
                      (pid, None) \<Rightarrow> Ret (pid, None)
                    | (_, Some _) \<Rightarrow> (case cv_UpdateProposerIndicesInCache cv s e of
                        Some err \<Rightarrow> Ret (0, Some (Wrap ''could not update proposer index cache'' err))
                      | None \<Rightarrow> (case cachedProposerIndexAtSlot (cv_ProposerIndices_again cv) slot r of
                          (pid, None) \<Rightarrow> Ret (pid, None)
                        | (_, Some _) \<Rightarrow> proposer_from_state hash cv s slot)))
                 else proposer_from_state hash cv s slot))
        else proposer_from_state hash cv s slot)"

definition BeaconProposerIndex ::
  "(u8 list \<Rightarrow> u8 list) \<Rightarrow> cache_view \<Rightarrow> BeaconState \<Rightarrow> ValidatorIndex result outcome" where
  "BeaconProposerIndex hash cv s = BeaconProposerIndexAtSlot hash cv s (bs_slot s)"

subsection \<open>Balances\<close>

fun total_loop :: "BeaconState \<Rightarrow> ValidatorIndex list \<Rightarrow> u64 \<Rightarrow> u64" where
  "total_loop s [] tot = tot"
| "total_loop s (idx # idxs) tot = (case ValidatorAtIndexReadOnly s idx of
     (Some val, None) \<Rightarrow> total_loop s idxs (tot + v_EffectiveBalance val)
   | _ \<Rightarrow> total_loop s idxs tot)"

definition TotalBalance :: "BeaconState \<Rightarrow> ValidatorIndex list \<Rightarrow> u64" where
  "TotalBalance s indices =
    (let tot = total_loop s indices 0
     in if tot < EffectiveBalanceIncrement then EffectiveBalanceIncrement else tot)"

definition TotalActiveBalance :: "cache_view \<Rightarrow> BeaconState \<Rightarrow> u64 result" where
  "TotalActiveBalance cv s = (case cv_balance cv s of
     (bal, None) \<Rightarrow> (bal, None)
   | (_, Some err) \<Rightarrow> if \<not> errors_Is err ErrNotFound then (0, Some err)
       else (case ReadFromEveryValidator s (\<lambda>idx val tot.
               (if IsActiveValidatorUsingTrie val (bs_slot s div SlotsPerEpoch) then tot + v_EffectiveBalance val
                else tot, None)) 0 of
           (_, Some err) \<Rightarrow> (0, Some err)
         | (t, None) \<Rightarrow>
             let tot = math_Max EffectiveBalanceIncrement t
             in case cv_AddTotalEffectiveBalance cv s tot of
                  Some err \<Rightarrow> (0, Some err) | None \<Rightarrow> (tot, None)))"

definition IncreaseBalanceWithVal :: "u64 \<Rightarrow> u64 \<Rightarrow> u64 result" where
  "IncreaseBalanceWithVal currBalance delta = Add64 currBalance delta"

definition IncreaseBalance :: "ValidatorIndex \<Rightarrow> u64 \<Rightarrow> BeaconState \<Rightarrow> BeaconState \<times> go_error option" where
  "IncreaseBalance idx delta s = (case BalanceAtIndex s idx of
     (_, Some err) \<Rightarrow> (s, Some err)
   | (balAtIdx, None) \<Rightarrow> (case IncreaseBalanceWithVal balAtIdx delta of
       (_, Some err) \<Rightarrow> (s, Some err)
     | (newBal, None) \<Rightarrow> UpdateBalancesAtIndex idx newBal s))"

definition DecreaseBalanceWithVal :: "u64 \<Rightarrow> u64 \<Rightarrow> u64" where
  "DecreaseBalanceWithVal currBalance delta = (if delta > currBalance then 0 else currBalance - delta)"

definition DecreaseBalance :: "ValidatorIndex \<Rightarrow> u64 \<Rightarrow> BeaconState \<Rightarrow> BeaconState \<times> go_error option" where
  "DecreaseBalance idx delta s = (case BalanceAtIndex s idx of
     (_, Some err) \<Rightarrow> (s, Some err)
   | (balAtIdx, None) \<Rightarrow> UpdateBalancesAtIndex idx (DecreaseBalanceWithVal balAtIdx delta) s)"

definition FinalityDelay :: "Epoch \<Rightarrow> Epoch \<Rightarrow> Epoch" where
  "FinalityDelay prevEpoch finalizedEpoch = prevEpoch - finalizedEpoch"

definition IsInInactivityLeak :: "Epoch \<Rightarrow> Epoch \<Rightarrow> bool" where
  "IsInInactivityLeak prevEpoch finalizedEpoch \<longleftrightarrow>
     FinalityDelay prevEpoch finalizedEpoch > MinEpochsToInactivityPenalty"

subsection \<open>Facts\<close>

lemma fold_active_count:
  "fold (\<lambda>(i, v) x. if P v then x + 1 else x) (enumerate k vs) (c :: u64)
    = c + of_nat (length (filter P vs))"
  by (induction vs arbitrary: k c) auto

lemma fold_active_indices:
  "fold (\<lambda>(i, v) x. if P v then x @ [of_nat i] else x) (enumerate k vs) (is :: u64 list)
    = is @ map (\<lambda>(i, v). of_nat i) (filter (\<lambda>(i, v). P v) (enumerate k vs))"
  by (induction vs arbitrary: k "is") auto

text \<open>The number of validators active in an epoch.\<close>
definition active_count :: "BeaconState \<Rightarrow> Epoch \<Rightarrow> nat" where
  "active_count s e = length (filter (\<lambda>v. IsActiveValidator v e) (vals s))"

lemma ActiveValidatorCount_cold:
  assumes "bs_validators s = Some vs" "snd (Seed hash s e DomainBeaconAttester) = None"
  shows "ActiveValidatorCount hash cold_caches s e = (of_nat (active_count s e), None)"
proof -
  obtain seed where "Seed hash s e DomainBeaconAttester = (seed, None)"
    using assms(2) by (metis prod.collapse)
  then show ?thesis
    by (simp add: ActiveValidatorCount_def cold_caches_def ReadFromEveryValidator_def assms(1)
        read_every_fold fold_active_count active_count_def vals_def IsActiveValidator_def
        IsActiveValidatorUsingTrie_def)
qed

lemma calculateChurnLimit_ge: "4 \<le> unat (calculateChurnLimit n)"
  by (simp add: calculateChurnLimit_def Let_def state_params word_less_nat_alt)

lemma calculateChurnLimit_nat: "unat (calculateChurnLimit n) = max 4 (unat n div 65536)"
  by (simp add: calculateChurnLimit_def Let_def state_params word_less_nat_alt unat_div)

lemma shuffle_onto:
  assumes "unat n \<le> 2 ^ 40" "k < n"
  shows "\<exists>index < n. fold (shuffle_step hash seed n) all_rounds index = k"
proof -
  let ?i = "fold (shuffle_step hash seed n) (rev all_rounds) k"
  have i: "?i < n" by (rule fold_refines(2) [OF assms])
  have "unat k < unat n" using assms(2) by (simp add: word_less_nat_alt)
  then have "unat (fold (shuffle_step hash seed n) all_rounds ?i) = unat k"
    unfolding fold_refines(1) [OF assms(1) i] fold_refines(1) [OF assms]
    using shuf.rounds_inverse [of "unat k" n hash seed "rev all_rounds"] by simp
  with i show ?thesis using unat_eqI by blast
qed

lemma proposer_loop_finds:
  assumes "\<And>i. proposer_round hash s ai seed i = None \<or> (\<exists>x \<in> S. proposer_round hash s ai seed i = Some (x, None))"
    and "proposer_round hash s ai seed k \<noteq> None"
  shows "i \<le> k \<Longrightarrow> \<exists>x \<in> S. proposer_loop hash s ai seed i = Ret (x, None)"
proof (induction "unat (k - i)" arbitrary: i rule: less_induct)
  case less
  show ?case
  proof (cases "proposer_round hash s ai seed i")
    case None
    then have ne: "i < k" using assms(2) less.prems by (metis order_le_less)
    then have m: "i \<noteq> - 1" by auto
    have "k - i \<noteq> 0" using ne by auto
    then have "unat (k - i - 1) < unat (k - i)" by (rule unat_pred_less)
    then have "unat (k - (i + 1)) < unat (k - i)" by (simp only: diff_diff_add)
    then show ?thesis using less.hyps [of "i + 1"] ne None m
      by (subst proposer_loop.simps) (simp add: inc_le)
  next
    case (Some r)
    then show ?thesis using assms(1) [of i] by (subst proposer_loop.simps) auto
  qed
qed

lemma proposer_round_ok:
  assumes "bs_validators s = Some vs" "ai \<noteq> []" "length ai \<le> 2 ^ 40" "\<forall>i \<in> set ai. unat i < length vs"
  defines "n \<equiv> of_nat (length ai) :: u64"
  shows "proposer_round hash s ai seed i =
    (let c = ai ! unat (fold (shuffle_step hash seed n) all_rounds (i mod n))
     in if v_EffectiveBalance (vs ! unat c) * 255
          \<ge> MaxEffectiveBalance * ucast (hash (seed @ Bytes8 (i div 32)) ! unat (i mod 32))
        then Some (c, None) else None)"
    and "ai ! unat (fold (shuffle_step hash seed n) all_rounds (i mod n)) \<in> set ai"
proof -
  have n: "unat n = length ai" using assms(3) by (simp add: n_def unat_of_nat)
  have n40: "unat n \<le> 2 ^ 40" using n assms(3) by simp
  have "n \<noteq> 0" using n assms(2) by auto
  then have i: "i mod n < n" by (simp add: word_less_nat_alt unat_mod unat_gt_0)
  have lt: "fold (shuffle_step hash seed n) all_rounds (i mod n) < n" by (rule fold_refines(2) [OF n40 i])
  then show c: "ai ! unat (fold (shuffle_step hash seed n) all_rounds (i mod n)) \<in> set ai"
    using n by (simp add: word_less_nat_alt)
  have sh: "ComputeShuffledIndex hash (i mod n) n seed True = (fold (shuffle_step hash seed n) all_rounds (i mod n), None)"
    using i n40 by (simp add: ComputeShuffledIndex_eq maxShuffle_nat not_le [symmetric])
  show "proposer_round hash s ai seed i =
    (let c = ai ! unat (fold (shuffle_step hash seed n) all_rounds (i mod n))
     in if v_EffectiveBalance (vs ! unat c) * 255
          \<ge> MaxEffectiveBalance * ucast (hash (seed @ Bytes8 (i div 32)) ! unat (i mod 32))
        then Some (c, None) else None)"
    using bspec [OF assms(4) c]
    unfolding proposer_round_def n_def [symmetric] Let_def sh
    by (simp add: NumValidators_def vals_def assms(1) ValidatorAtIndexReadOnly_def out_of_range_def)
qed

lemma full_balance_accepted: "MaxEffectiveBalance * ucast (b :: u8) \<le> MaxEffectiveBalance * 255"
proof -
  have b: "unat (ucast b :: u64) \<le> 255" 
    using unsigned_less [where 'a = nat, of b] by (simp add: unsigned_ucast_eq take_bit_nat_eq_self)
  then have "unat (MaxEffectiveBalance * ucast b) = 32000000000 * unat (ucast b :: u64)"
    using unat_mult_no_wrap [of MaxEffectiveBalance "ucast b"] by (simp add: MaxEffectiveBalance_def)
  moreover have "unat (MaxEffectiveBalance * 255) = 32000000000 * 255" by (simp add: MaxEffectiveBalance_def)
  ultimately show ?thesis using b by (simp add: word_le_nat_alt)
qed

text \<open>
  Proposer selection returns: if the active list is within the shuffle's bound, its indices are in
  the registry and one of its validators has the full effective balance, then
  \<^verbatim>\<open>ComputeProposerIndex\<close> leaves its unbounded loop, for every hash function and seed, with no error and
  with one of the active indices.
\<close>
theorem ComputeProposerIndex_returns:
  assumes "bs_validators s = Some vs" "length ai \<le> 2 ^ 40" "\<forall>i \<in> set ai. unat i < length vs"
    and "full \<in> set ai" "v_EffectiveBalance (vs ! unat full) = MaxEffectiveBalance"
  shows "\<exists>idx \<in> set ai. ComputeProposerIndex hash s ai seed = Ret (idx, None)"
proof -
  have ne: "ai \<noteq> []" using assms(4) by auto
  let ?n = "of_nat (length ai) :: u64"
  have n: "unat ?n = length ai" using assms(2) by (simp add: unat_of_nat)
  obtain p where p: "p < length ai" "ai ! p = full" using assms(4) by (metis in_set_conv_nth)
  have pn: "unat (of_nat p :: u64) = p" using p(1) assms(2) by (simp add: unat_of_nat)
  have "(of_nat p :: u64) < ?n" using p(1) by (simp add: word_less_nat_alt pn n)
  then obtain k where k: "k < ?n" "fold (shuffle_step hash seed ?n) all_rounds k = of_nat p"
    using shuffle_onto [of ?n "of_nat p" hash seed] n assms(2) by auto
  note round = proposer_round_ok [OF assms(1) ne assms(2,3), where hash = hash and seed = seed]
  have "k mod ?n = k" using k(1) by (simp add: u64_nat)
  then have "proposer_round hash s ai seed k \<noteq> None"
    unfolding round(1) [where i = k] using p pn k(2) assms(5) full_balance_accepted
    by (simp add: Let_def)
  moreover have "proposer_round hash s ai seed i = None
      \<or> (\<exists>x \<in> set ai. proposer_round hash s ai seed i = Some (x, None))" for i
    unfolding round(1) [where i = i] Let_def using round(2) [where i = i] by auto
  ultimately have "\<exists>x \<in> set ai. proposer_loop hash s ai seed 0 = Ret (x, None)"
    by (intro proposer_loop_finds [where k = k]) auto
  then show ?thesis using ne by (simp add: ComputeProposerIndex_def)
qed

text \<open>A registry with one poor and one full validator.\<close>
definition full_validator :: Validator where
  "full_validator = \<lparr>v_PublicKey = replicate 48 1, v_WithdrawalCredentials = replicate 32 1, v_EffectiveBalance = 32000000000, v_Slashed = False, v_ActivationEligibilityEpoch = 0,
     v_ActivationEpoch = 0, v_ExitEpoch = - 1, v_WithdrawableEpoch = - 1\<rparr>"

definition genesis_checkpoint :: CheckpointPB where
  "genesis_checkpoint = \<lparr>c_Epoch = 0, c_Root = replicate 32 0\<rparr>"

definition small_state :: "Validator list \<Rightarrow> u64 list \<Rightarrow> BeaconState" where
  "small_state vs bs = \<lparr>bs_slot = 320, bs_version = Phase0, bs_eth1DataVotes = [], bs_validators = Some vs, bs_balances = Some bs,
     bs_slashings = replicate 8192 0, bs_blockRoots = Some (replicate 8192 (replicate 32 7)),
     bs_stateRoots = Some (replicate 8192 (replicate 32 9)), bs_randaoMixes = Some (replicate 65536 (replicate 32 5)),
     bs_previousEpochAttestations = [], bs_currentEpochAttestations = [],
     bs_previousEpochParticipation = None, bs_currentEpochParticipation = None, bs_justificationBits = [0], bs_previousJustifiedCheckpoint = genesis_checkpoint,
     bs_currentJustifiedCheckpoint = genesis_checkpoint, bs_finalizedCheckpoint = genesis_checkpoint, bs_inactivityScores = [],
     bs_currentSyncCommittee = None, bs_nextSyncCommittee = None, bs_historicalRoots = [], bs_historicalSummaries = [],
     bs_eth1Data = None, bs_eth1DepositIndex = 0, bs_nextWithdrawalIndex = 0, bs_nextWithdrawalValidatorIndex = 0,
     bs_latestBlockHeader = Some \<lparr>bh_Slot = 319, bh_ProposerIndex = 0, bh_ParentRoot = replicate 32 1, bh_StateRoot = replicate 32 0, bh_BodyRoot = replicate 32 2\<rparr>,
     bs_genesisTime = 0, bs_genesisValidatorsRoot = replicate 32 3, bs_fork = None,
     bs_latestExecutionPayloadHeader = None, bs_latestExecutionPayloadHeaderCapella = None, bs_latestExecutionPayloadHeaderDeneb = None\<rparr>"

lemma small_state_sel [simp]:
  "bs_slot (small_state vs bs) = 320" "bs_validators (small_state vs bs) = Some vs"
  "bs_balances (small_state vs bs) = Some bs" "bs_slashings (small_state vs bs) = replicate 8192 0"
  "bs_randaoMixes (small_state vs bs) = Some (replicate 65536 (replicate 32 5))"
  "bs_stateRoots (small_state vs bs) = Some (replicate 8192 (replicate 32 9))"
  "bs_blockRoots (small_state vs bs) = Some (replicate 8192 (replicate 32 7))"
  "bs_version (small_state vs bs) = Phase0" "bs_justificationBits (small_state vs bs) = [0]"
  "bs_previousJustifiedCheckpoint (small_state vs bs) = genesis_checkpoint"
  "bs_currentJustifiedCheckpoint (small_state vs bs) = genesis_checkpoint"
  "bs_finalizedCheckpoint (small_state vs bs) = genesis_checkpoint"
  "bs_previousEpochAttestations (small_state vs bs) = []" "bs_currentEpochAttestations (small_state vs bs) = []"
  "bs_eth1DataVotes (small_state vs bs) = []"
  by (simp_all add: small_state_def)

theorem ComputeProposerIndex_returns_witness:
  "\<exists>idx \<in> set [0, 1]. ComputeProposerIndex (\<lambda>xs. replicate 32 (last xs))
     (small_state [full_validator\<lparr>v_EffectiveBalance := 0\<rparr>, full_validator] [0, 32000000000]) [0, 1] (replicate 32 3)
     = Ret (idx, None)"
  by (rule ComputeProposerIndex_returns [where full = 1, OF small_state_sel(2)])
    (simp_all add: full_validator_def MaxEffectiveBalance_def)

lemma DecreaseBalanceWithVal_nat: "unat (DecreaseBalanceWithVal b d) = unat b - unat d"
  by (auto simp: DecreaseBalanceWithVal_def unat_sub word_le_nat_alt word_less_nat_alt not_less)

lemma IncreaseBalance_ok:
  assumes "bs_balances s = Some bs"
  shows "IncreaseBalance idx delta s = (t, None) \<longleftrightarrow>
    unat idx < length bs \<and> unat (bs ! unat idx) + unat delta < 2 ^ 64
    \<and> t = s\<lparr>bs_balances := Some (bs[unat idx := bs ! unat idx + delta])\<rparr>"
  using assms by (auto simp: IncreaseBalance_def BalanceAtIndex_def balanceAtIndex_def out_of_range_def
      IncreaseBalanceWithVal_def Add64_def UpdateBalancesAtIndex_def bals_def)

lemma DecreaseBalance_ok:
  assumes "bs_balances s = Some bs"
  shows "DecreaseBalance idx delta s = (t, None) \<longleftrightarrow> unat idx < length bs
    \<and> t = s\<lparr>bs_balances := Some (bs[unat idx := DecreaseBalanceWithVal (bs ! unat idx) delta])\<rparr>"
  using assms by (auto simp: DecreaseBalance_def BalanceAtIndex_def balanceAtIndex_def out_of_range_def
      UpdateBalancesAtIndex_def bals_def)

lemma balance_errors_keep:
  "IncreaseBalance idx delta s = (t, Some err) \<Longrightarrow> t = s" "DecreaseBalance idx delta s = (t, Some err) \<Longrightarrow> t = s"
  by (auto simp: IncreaseBalance_def DecreaseBalance_def dest: balances.put_error_keeps
      split: prod.splits option.splits)

end
