(* ===== verification/Justification.thy ===== *)
theory Justification
  imports Registry
begin

text \<open>
  Justification and finalization of checkpoints,
  \<^verbatim>\<open>beacon-chain/core/epoch/precompute/justification_finalization.go\<close>, and the target balances it is
  given between epochs, \<^verbatim>\<open>beacon-chain/state/stateutil/unrealized_justification.go\<close>.

  The four justification bits are a \<^verbatim>\<open>bitfield.Bitvector4\<close> of the package go-bitfield, which is not part
  of the repository: its operations are the record \<open>bv4\<close>, and \<open>bv4_laws\<close> is what its documentation
  says of a vector of one byte.
\<close>

unbundle bit_operations_syntax

subsection \<open>Bit vectors\<close>

record bv4 =
  bv_Shift :: "int \<Rightarrow> u8 list \<Rightarrow> u8 list"
  bv_SetBitAt :: "nat \<Rightarrow> bool \<Rightarrow> u8 list \<Rightarrow> u8 list"
  bv_BitAt :: "u8 list \<Rightarrow> nat \<Rightarrow> bool"
  bv_Bytes :: "u8 list \<Rightarrow> u8 list"

definition bv4_laws :: "bv4 \<Rightarrow> bool" where
  "bv4_laws bv \<longleftrightarrow>
    (\<forall>b. length b = 1 \<longrightarrow> length (bv_Shift bv 1 b) = 1
      \<and> (\<forall>i < 4. bv_BitAt bv (bv_Shift bv 1 b) i = (0 < i \<and> bv_BitAt bv b (i - 1))))
  \<and> (\<forall>b k v. length b = 1 \<and> k < 4 \<longrightarrow> length (bv_SetBitAt bv k v b) = 1
      \<and> (\<forall>i < 4. bv_BitAt bv (bv_SetBitAt bv k v b) i = (if i = k then v else bv_BitAt bv b i)))
  \<and> (\<forall>b. length b = 1 \<longrightarrow> length (bv_Bytes bv b) = 1 \<and> (\<forall>i < 4. bit (hd (bv_Bytes bv b)) i = bv_BitAt bv b i))"

text \<open>An implementation, for the examples.\<close>
definition byte_bv4 :: bv4 where
  "byte_bv4 = \<lparr>bv_Shift = (\<lambda>n b. map (\<lambda>x. push_bit (nat n) x AND 15) b),
     bv_SetBitAt = (\<lambda>k v b. map (\<lambda>x. if v then set_bit k x else unset_bit k x) b),
     bv_BitAt = (\<lambda>b i. b \<noteq> [] \<and> bit (hd b) i), bv_Bytes = id\<rparr>"

lemma bv4_laws_byte: "bv4_laws byte_bv4"
proof -
  have "bit (push_bit 1 x AND 15 :: u8) i = (0 < i \<and> bit x (i - 1))" if "i < 4" for x i
  proof -
    have "bit (15 :: u8) i" using that by (auto simp: less_Suc_eq numeral_eq_Suc bit_simps)
    then show ?thesis using that unfolding bit_and_iff bit_push_bit_iff by auto
  qed
  moreover have "bit (set_bit k x) i = (i = k \<or> bit x i)" "bit (unset_bit k x) i = (i \<noteq> k \<and> bit x i)"
    if "i < 4" for x :: u8 and i k using that by (auto simp: bit_set_bit_iff bit_unset_bit_iff)
  ultimately show ?thesis by (auto simp: bv4_laws_def byte_bv4_def length_Suc_conv split: if_splits)
qed

subsection \<open>Target balances\<close>

definition TimelyTargetFlagIndex :: nat where "TimelyTargetFlagIndex = 1"
definition ErrNilParticipation :: go_error where
  "ErrNilParticipation = Sentinel ''nil epoch participation in state''"

definition has_target :: "u8 \<Rightarrow> bool" where
  "has_target flags \<longleftrightarrow> drop_bit TimelyTargetFlagIndex flags AND 1 = 1"

fun unrealized_loop ::
  "Epoch \<Rightarrow> u8 list \<Rightarrow> u8 list \<Rightarrow> Validator list \<Rightarrow> u64 \<times> u64 \<times> u64 \<Rightarrow> (u64 \<times> u64 \<times> u64) result" where
  "unrealized_loop currentEpoch (c # cp) (p # pp) (v # validators) (activeBalance, prevTarget, currentTarget) =
    (let activeCurrent = v_ActivationEpoch v \<le> currentEpoch \<and> currentEpoch < v_ExitEpoch v
     in case (if activeCurrent then Add64 activeBalance (v_EffectiveBalance v) else (activeBalance, None)) of
          (_, Some err) \<Rightarrow> ((0, 0, 0), Some err)
        | (activeBalance, None) \<Rightarrow>
            if v_Slashed v then unrealized_loop currentEpoch cp pp validators (activeBalance, prevTarget, currentTarget)
            else (case (if activeCurrent \<and> has_target c then Add64 currentTarget (v_EffectiveBalance v)
                        else (currentTarget, None)) of
                (_, Some err) \<Rightarrow> ((0, 0, 0), Some err)
              | (currentTarget, None) \<Rightarrow>
                  let activePrevious = v_ActivationEpoch v + 1 \<le> currentEpoch \<and> currentEpoch \<le> v_ExitEpoch v
                  in case (if activePrevious \<and> has_target p then Add64 prevTarget (v_EffectiveBalance v)
                           else (prevTarget, None)) of
                       (_, Some err) \<Rightarrow> ((0, 0, 0), Some err)
                     | (prevTarget, None) \<Rightarrow>
                         unrealized_loop currentEpoch cp pp validators (activeBalance, prevTarget, currentTarget)))"
| "unrealized_loop currentEpoch _ _ _ acc = (acc, None)"

definition UnrealizedCheckpointBalances_util ::
  "u8 list \<Rightarrow> u8 list \<Rightarrow> Validator list \<Rightarrow> Epoch \<Rightarrow> (u64 \<times> u64 \<times> u64) result" where
  "UnrealizedCheckpointBalances_util cp pp validators currentEpoch =
    (if length cp < length validators \<or> length pp < length validators
     then ((0, 0, 0), Some (Fresh ''participation does not match validator set''))
     else unrealized_loop currentEpoch cp pp validators (0, 0, 0))"

definition UnrealizedCheckpointBalances :: "BeaconState \<Rightarrow> (u64 \<times> u64 \<times> u64) result" where
  "UnrealizedCheckpointBalances s =
    (if bs_version s = Phase0 then ((0, 0, 0), Some (errNotSupported ''UnrealizedCheckpointBalances''))
     else case (bs_currentEpochParticipation s, bs_previousEpochParticipation s) of
            (Some cp, Some pp) \<Rightarrow> UnrealizedCheckpointBalances_util cp pp (vals s) (CurrentEpoch s)
          | _ \<Rightarrow> ((0, 0, 0), Some ErrNilParticipation))"

subsection \<open>Checkpoints\<close>

definition processJustificationBits :: "bv4 \<Rightarrow> BeaconState \<Rightarrow> u64 \<Rightarrow> u64 \<Rightarrow> u64 \<Rightarrow> u8 list" where
  "processJustificationBits bv s totalActiveBalance prevEpochTargetBalance currEpochTargetBalance =
    (let newBits = bv_Shift bv 1 (bs_justificationBits s);
         newBits = (if 3 * prevEpochTargetBalance \<ge> 2 * totalActiveBalance then bv_SetBitAt bv 1 True newBits else newBits);
         newBits = (if 3 * currEpochTargetBalance \<ge> 2 * totalActiveBalance then bv_SetBitAt bv 0 True newBits else newBits)
     in newBits)"

definition new_justified :: "bv4 \<Rightarrow> BeaconState \<Rightarrow> u8 list \<Rightarrow> CheckpointPB result" where
  "new_justified bv s newBits =
    (let prevEpoch = PrevEpoch s; currentEpoch = CurrentEpoch s; justifiedCheckpoint = bs_currentJustifiedCheckpoint s
     in if bv_BitAt bv newBits 0 \<and> currentEpoch \<ge> c_Epoch justifiedCheckpoint then
          (case BlockRoot s currentEpoch of
             (_, Some err) \<Rightarrow> (justifiedCheckpoint, Some (Wrap ''could not get block root for current epoch'' err))
           | (blockRoot, None) \<Rightarrow> (\<lparr>c_Epoch = currentEpoch, c_Root = blockRoot\<rparr>, None))
        else if bv_BitAt bv newBits 1 \<and> prevEpoch \<ge> c_Epoch justifiedCheckpoint then
          (case BlockRoot s prevEpoch of
             (_, Some err) \<Rightarrow> (justifiedCheckpoint, Some (Wrap ''could not get block root for previous epoch'' err))
           | (blockRoot, None) \<Rightarrow> (\<lparr>c_Epoch = prevEpoch, c_Root = blockRoot\<rparr>, None))
        else (justifiedCheckpoint, None))"

definition new_finalized :: "BeaconState \<Rightarrow> u8 \<Rightarrow> CheckpointPB" where
  "new_finalized s justification =
    (let currentEpoch = CurrentEpoch s;
         oldPrev = bs_previousJustifiedCheckpoint s;
         oldCurr = bs_currentJustifiedCheckpoint s;
         fc = bs_finalizedCheckpoint s;
         fc = (if justification AND 0x0E = 0x0E \<and> c_Epoch oldPrev + 3 = currentEpoch then oldPrev else fc);
         fc = (if justification AND 0x06 = 0x06 \<and> c_Epoch oldPrev + 2 = currentEpoch then oldPrev else fc);
         fc = (if justification AND 0x07 = 0x07 \<and> c_Epoch oldCurr + 2 = currentEpoch then oldCurr else fc)
     in if justification AND 0x03 = 0x03 \<and> c_Epoch oldCurr + 1 = currentEpoch then oldCurr else fc)"

definition computeCheckpoints :: "bv4 \<Rightarrow> BeaconState \<Rightarrow> u8 list \<Rightarrow> (CheckpointPB \<times> CheckpointPB) option result" where
  "computeCheckpoints bv s newBits = (case new_justified bv s newBits of
     (_, Some err) \<Rightarrow> (None, Some err)
   | (justifiedCheckpoint, None) \<Rightarrow>
       if length newBits = 0 then (None, Some (Fresh ''empty justification bits''))
       else (Some (justifiedCheckpoint, new_finalized s (bv_Bytes bv newBits ! 0)), None))"

definition weighJustificationAndFinalization :: "bv4 \<Rightarrow> u8 list \<Rightarrow> BeaconState \<Rightarrow> BeaconState \<times> go_error option" where
  "weighJustificationAndFinalization bv newBits s = (case computeCheckpoints bv s newBits of
     (Some (jc, fc), None) \<Rightarrow>
       (SetFinalizedCheckpoint fc (SetJustificationBits newBits (SetCurrentJustifiedCheckpoint jc
          (SetPreviousJustifiedCheckpoint (bs_currentJustifiedCheckpoint s) s))), None)
   | (_, err) \<Rightarrow> (s, err))"

text \<open>The balances computed for an epoch (\<^verbatim>\<open>precompute/type.go\<close>).\<close>
record Balance =
  pb_ActiveCurrentEpoch :: u64
  pb_ActivePrevEpoch :: u64
  pb_CurrentEpochAttested :: u64
  pb_CurrentEpochTargetAttested :: u64
  pb_PrevEpochAttested :: u64
  pb_PrevEpochTargetAttested :: u64
  pb_PrevEpochHeadAttested :: u64

definition ProcessJustificationAndFinalizationPreCompute ::
  "bv4 \<Rightarrow> Balance \<Rightarrow> BeaconState \<Rightarrow> BeaconState \<times> go_error option" where
  "ProcessJustificationAndFinalizationPreCompute bv pBal s = (case EpochStart 2 of
     (_, Some err) \<Rightarrow> (s, Some err)
   | (canProcessSlot, None) \<Rightarrow>
       if bs_slot s \<le> canProcessSlot then (s, None)
       else weighJustificationAndFinalization bv (processJustificationBits bv s (pb_ActiveCurrentEpoch pBal)
              (pb_PrevEpochTargetAttested pBal) (pb_CurrentEpochTargetAttested pBal)) s)"

definition UnrealizedCheckpoints :: "bv4 \<Rightarrow> BeaconState \<Rightarrow> (CheckpointPB \<times> CheckpointPB) option result" where
  "UnrealizedCheckpoints bv s =
    (if CurrentEpoch s \<le> GenesisEpoch + 1 then (Some (bs_currentJustifiedCheckpoint s, bs_finalizedCheckpoint s), None)
     else case UnrealizedCheckpointBalances s of
            (_, Some err) \<Rightarrow> (None, Some err)
          | ((activeBalance, prevTarget, currentTarget), None) \<Rightarrow>
              computeCheckpoints bv s (processJustificationBits bv s activeBalance prevTarget currentTarget))"

subsection \<open>Order of the checkpoints\<close>

definition ffg_ok :: "BeaconState \<Rightarrow> bool" where
  "ffg_ok s \<longleftrightarrow> c_Epoch (bs_finalizedCheckpoint s) \<le> c_Epoch (bs_previousJustifiedCheckpoint s)
     \<and> c_Epoch (bs_previousJustifiedCheckpoint s) \<le> c_Epoch (bs_currentJustifiedCheckpoint s)
     \<and> c_Epoch (bs_currentJustifiedCheckpoint s) \<le> CurrentEpoch s"

lemma previous_epoch_le: "PrevEpoch s \<le> CurrentEpoch s"
  by (auto simp: PrevEpoch_def Let_def word_le_nat_alt unat_minus_one)

lemmas weigh_simps = weighJustificationAndFinalization_def SetFinalizedCheckpoint_def SetJustificationBits_def
  SetCurrentJustifiedCheckpoint_def SetPreviousJustifiedCheckpoint_def

lemma new_justified_ge:
  "new_justified bv s b = (jc, None) \<Longrightarrow> c_Epoch (bs_currentJustifiedCheckpoint s) \<le> c_Epoch jc"
  by (auto simp: new_justified_def Let_def split: if_splits prod.splits option.splits)

lemma new_justified_root:
  "new_justified bv s b = (jc, None) \<Longrightarrow> jc = bs_currentJustifiedCheckpoint s
    \<or> (c_Epoch jc \<in> {CurrentEpoch s, PrevEpoch s} \<and> BlockRoot s (c_Epoch jc) = (c_Root jc, None))"
  by (auto simp: new_justified_def Let_def split: if_splits prod.splits option.splits)

lemma computeCheckpoints_ok:
  "computeCheckpoints bv s b = (Some (jc, fc), None) \<Longrightarrow> new_justified bv s b = (jc, None)
    \<and> fc \<in> {bs_finalizedCheckpoint s, bs_previousJustifiedCheckpoint s, bs_currentJustifiedCheckpoint s}"
  by (auto simp: computeCheckpoints_def new_finalized_def Let_def split: prod.splits option.splits if_splits)

lemma weigh_cases:
  "weighJustificationAndFinalization bv b s = (t, None) \<Longrightarrow> \<exists>jc fc. computeCheckpoints bv s b = (Some (jc, fc), None)
    \<and> t = s\<lparr>bs_previousJustifiedCheckpoint := bs_currentJustifiedCheckpoint s, bs_currentJustifiedCheckpoint := jc,
        bs_justificationBits := b, bs_finalizedCheckpoint := fc\<rparr>"
proof -
  assume w: "weighJustificationAndFinalization bv b s = (t, None)"
  obtain r e where c: "computeCheckpoints bv s b = (r, e)" by fastforce
  then have "e = None \<longleftrightarrow> r \<noteq> None"
    by (auto simp: computeCheckpoints_def split: prod.splits option.splits if_splits)
  then obtain jc fc where r: "r = Some (jc, fc)" "e = None"
    using w c by (cases r; cases e) (auto simp: weighJustificationAndFinalization_def)
  show ?thesis using w c r by (intro exI [of _ jc] exI [of _ fc]) (simp add: weigh_simps)
qed

lemma weigh_error: "weighJustificationAndFinalization bv b s = (t, Some err) \<Longrightarrow> t = s"
  by (auto simp: weigh_simps split: prod.splits option.splits if_splits)

lemma process_cases:
  "ProcessJustificationAndFinalizationPreCompute bv pBal s =
    (if bs_slot s \<le> 64 then (s, None)
     else weighJustificationAndFinalization bv (processJustificationBits bv s (pb_ActiveCurrentEpoch pBal)
       (pb_PrevEpochTargetAttested pBal) (pb_CurrentEpochTargetAttested pBal)) s)"
  by (simp add: ProcessJustificationAndFinalizationPreCompute_def EpochStart_def Slot_SafeMul_def Mul64_def
      SlotsPerEpoch_def)

text \<open>
  (C27) Finality is never reverted: when the finalized, previous justified, current justified and current epochs of
  a state are in order, \<^verbatim>\<open>ProcessJustificationAndFinalizationPreCompute\<close> keeps them in order, lowers
  neither the justified nor the finalized epoch, finalizes only a checkpoint that was finalized or
  justified before, justifies only the current or the previous epoch with the block root the state
  records for it, and leaves the state alone when it fails; whatever the balances and the bit vectors.
\<close>
theorem finality_monotone:
  assumes "ffg_ok s" and "ProcessJustificationAndFinalizationPreCompute bv pBal s = (t, err)"
  shows "ffg_ok t \<and> c_Epoch (bs_finalizedCheckpoint s) \<le> c_Epoch (bs_finalizedCheckpoint t)
    \<and> c_Epoch (bs_currentJustifiedCheckpoint s) \<le> c_Epoch (bs_currentJustifiedCheckpoint t)
    \<and> bs_finalizedCheckpoint t
        \<in> {bs_finalizedCheckpoint s, bs_previousJustifiedCheckpoint s, bs_currentJustifiedCheckpoint s}
    \<and> (bs_currentJustifiedCheckpoint t = bs_currentJustifiedCheckpoint s
       \<or> (c_Epoch (bs_currentJustifiedCheckpoint t) \<in> {CurrentEpoch s, PrevEpoch s}
          \<and> BlockRoot s (c_Epoch (bs_currentJustifiedCheckpoint t)) = (c_Root (bs_currentJustifiedCheckpoint t), None)))
    \<and> (err \<noteq> None \<longrightarrow> t = s)"
proof (cases "bs_slot s \<le> 64 \<or> err \<noteq> None")
  case True
  then have "t = s" using assms(2) weigh_error by (auto simp: process_cases split: if_splits)
  then show ?thesis using assms(1) by simp
next
  case False
  then obtain jc fc b where c: "computeCheckpoints bv s b = (Some (jc, fc), None)"
    and t: "t = s\<lparr>bs_previousJustifiedCheckpoint := bs_currentJustifiedCheckpoint s, bs_currentJustifiedCheckpoint := jc,
        bs_justificationBits := b, bs_finalizedCheckpoint := fc\<rparr>"
    using assms(2) weigh_cases [of bv "processJustificationBits bv s (pb_ActiveCurrentEpoch pBal)
       (pb_PrevEpochTargetAttested pBal) (pb_CurrentEpochTargetAttested pBal)" s t]
    by (auto simp: process_cases split: if_splits)
  show ?thesis
    using computeCheckpoints_ok [OF c] new_justified_ge [of bv s b jc] new_justified_root [of bv s b jc] assms(1) False previous_epoch_le [of s]
    by (auto simp: t ffg_ok_def CurrentEpoch_def)
qed

theorem finality_monotone_witness:
  "\<exists>t err. ProcessJustificationAndFinalizationPreCompute byte_bv4
      \<lparr>pb_ActiveCurrentEpoch = 90, pb_ActivePrevEpoch = 90, pb_CurrentEpochAttested = 60, pb_CurrentEpochTargetAttested = 60,
       pb_PrevEpochAttested = 60, pb_PrevEpochTargetAttested = 60, pb_PrevEpochHeadAttested = 60\<rparr>
      (small_state [] []) = (t, err) \<and> ffg_ok t"
proof -
  have "ffg_ok (small_state [] [])" by (simp add: ffg_ok_def genesis_checkpoint_def)
  from finality_monotone [OF this surjective_pairing] show ?thesis by (metis surjective_pairing)
qed

subsection \<open>Agreement with the consensus specification\<close>

text \<open>
  The bits as the list of booleans of the specification, most recent epoch first, and the two steps of
  \<^verbatim>\<open>weigh_justification_and_finalization\<close> quoted in the source.
\<close>
definition bit_list :: "bv4 \<Rightarrow> u8 list \<Rightarrow> bool list" where
  "bit_list bv b = map (bv_BitAt bv b) [0..<4]"

definition spec_bits :: "bool list \<Rightarrow> bool \<Rightarrow> bool \<Rightarrow> bool list" where
  "spec_bits old prev_justified curr_justified =
    (let bits = False # take 3 old;
         bits = (if prev_justified then bits[1 := True] else bits)
     in if curr_justified then bits[0 := True] else bits)"

definition spec_finalized ::
  "bool list \<Rightarrow> CheckpointPB \<Rightarrow> CheckpointPB \<Rightarrow> CheckpointPB \<Rightarrow> Epoch \<Rightarrow> CheckpointPB" where
  "spec_finalized bits old_prev old_curr fin current_epoch =
    (let fin = (if list_all id (take 3 (drop 1 bits)) \<and> c_Epoch old_prev + 3 = current_epoch then old_prev else fin);
         fin = (if list_all id (take 2 (drop 1 bits)) \<and> c_Epoch old_prev + 2 = current_epoch then old_prev else fin);
         fin = (if list_all id (take 3 bits) \<and> c_Epoch old_curr + 2 = current_epoch then old_curr else fin)
     in if list_all id (take 2 bits) \<and> c_Epoch old_curr + 1 = current_epoch then old_curr else fin)"

definition spec_justified :: "BeaconState \<Rightarrow> bool \<Rightarrow> bool \<Rightarrow> CheckpointPB" where
  "spec_justified s prev_justified curr_justified =
    (let cp = bs_currentJustifiedCheckpoint s;
         cp = (if prev_justified then \<lparr>c_Epoch = PrevEpoch s, c_Root = fst (BlockRoot s (PrevEpoch s))\<rparr> else cp)
     in if curr_justified then \<lparr>c_Epoch = CurrentEpoch s, c_Root = fst (BlockRoot s (CurrentEpoch s))\<rparr> else cp)"

text \<open>
  What the bits of a state before the epoch processing say about the justified checkpoint: it is not newer than the previous epoch, and when the bit of
  the previous epoch is set it is that epoch's.
\<close>
definition bits_match :: "bv4 \<Rightarrow> BeaconState \<Rightarrow> bool" where
  "bits_match bv s \<longleftrightarrow> c_Epoch (bs_currentJustifiedCheckpoint s) \<le> PrevEpoch s
     \<and> (bv_BitAt bv (bs_justificationBits s) 0 \<longrightarrow>
          bs_currentJustifiedCheckpoint s = \<lparr>c_Epoch = PrevEpoch s, c_Root = fst (BlockRoot s (PrevEpoch s))\<rparr>)"

lemma and_mask_bits: "(x :: u8) AND m = m \<longleftrightarrow> (\<forall>i < 8. bit m i \<longrightarrow> bit x i)"
  by (auto simp: bit_eq_iff bit_and_iff dest: bit_imp_le_length)

lemma byte_masks:
  "(x :: u8) AND 0x0E = 0x0E \<longleftrightarrow> bit x 1 \<and> bit x 2 \<and> bit x 3" "(x :: u8) AND 0x06 = 0x06 \<longleftrightarrow> bit x 1 \<and> bit x 2"
  "(x :: u8) AND 0x07 = 0x07 \<longleftrightarrow> bit x 0 \<and> bit x 1 \<and> bit x 2" "(x :: u8) AND 0x03 = 0x03 \<longleftrightarrow> bit x 0 \<and> bit x 1"
  unfolding and_mask_bits by (auto simp: numeral_eq_Suc less_Suc_eq bit_simps)

lemma upt_4: "[0..<4] = [0, 1, 2, 3 :: nat]"
  by (simp add: upt_rec)

lemma new_finalized_spec:
  assumes "bv4_laws bv" "length b = 1"
  shows "new_finalized s (bv_Bytes bv b ! 0) = spec_finalized (bit_list bv b) (bs_previousJustifiedCheckpoint s)
    (bs_currentJustifiedCheckpoint s) (bs_finalizedCheckpoint s) (CurrentEpoch s)"
proof -
  have "length (bv_Bytes bv b) = 1 \<and> (\<forall>i < 4. bit (hd (bv_Bytes bv b)) i = bv_BitAt bv b i)"
    using assms by (simp add: bv4_laws_def)
  then have "bit (bv_Bytes bv b ! 0) i = bv_BitAt bv b i" if "i < 4" for i
    using that by (auto simp: length_Suc_conv)
  then have "bit (bv_Bytes bv b ! 0) 0 = bv_BitAt bv b 0" "bit (bv_Bytes bv b ! 0) 1 = bv_BitAt bv b 1"
    "bit (bv_Bytes bv b ! 0) 2 = bv_BitAt bv b 2" "bit (bv_Bytes bv b ! 0) 3 = bv_BitAt bv b 3" by simp_all
  note bits = this
  have "list_all id (take 3 (drop 1 (bit_list bv b))) \<longleftrightarrow> bv_BitAt bv b 1 \<and> bv_BitAt bv b 2 \<and> bv_BitAt bv b 3"
    "list_all id (take 2 (drop 1 (bit_list bv b))) \<longleftrightarrow> bv_BitAt bv b 1 \<and> bv_BitAt bv b 2"
    "list_all id (take 3 (bit_list bv b)) \<longleftrightarrow> bv_BitAt bv b 0 \<and> bv_BitAt bv b 1 \<and> bv_BitAt bv b 2"
    "list_all id (take 2 (bit_list bv b)) \<longleftrightarrow> bv_BitAt bv b 0 \<and> bv_BitAt bv b 1"
    by (simp_all add: bit_list_def upt_4)
  then show ?thesis by (simp only: new_finalized_def spec_finalized_def Let_def byte_masks bits)
qed

lemma processJustificationBits_spec:
  fixes a p c :: u64
  assumes "bv4_laws bv" "length (bs_justificationBits s) = 1"
  defines "b \<equiv> processJustificationBits bv s a p c"
  shows "length b = 1 \<and> bit_list bv b
    = spec_bits (bit_list bv (bs_justificationBits s)) (2 * a \<le> 3 * p) (2 * a \<le> 3 * c)"
  using assms
  by (simp add: b_def processJustificationBits_def bv4_laws_def Let_def bit_list_def upt_4 spec_bits_def)

lemma new_justified_spec:
  assumes "bits_match bv s" "length (bs_justificationBits s) = 1" "bit_list bv b = spec_bits (bit_list bv (bs_justificationBits s)) pm cm"
    "new_justified bv s b = (jc, None)"
  shows "jc = spec_justified s pm cm"
proof -
  let ?old = "bs_justificationBits s"
  have b: "bv_BitAt bv b 0 = cm" "bv_BitAt bv b 1 = (pm \<or> bv_BitAt bv ?old 0)"
    using assms(3) by (auto simp: bit_list_def upt_4 spec_bits_def Let_def split: if_splits)
  have e: "c_Epoch (bs_currentJustifiedCheckpoint s) \<le> PrevEpoch s" using assms(1) by (simp add: bits_match_def)
  then have e': "c_Epoch (bs_currentJustifiedCheckpoint s) \<le> CurrentEpoch s" using previous_epoch_le order_trans by blast
  show ?thesis
  proof (cases "cm \<or> pm")
    case True
    then show ?thesis using assms(4) b e e'
      by (auto simp: new_justified_def spec_justified_def Let_def split: prod.splits option.splits if_splits)
  next
    case False
    then show ?thesis using assms(1,4) b e e'
      by (auto simp: new_justified_def spec_justified_def bits_match_def Let_def split: prod.splits option.splits if_splits)
  qed
qed

lemma supermajority_nat:
  "2 * unat tot < 2 ^ 64 \<Longrightarrow> 3 * unat x < 2 ^ 64 \<Longrightarrow> (2 * tot \<le> 3 * (x :: u64)) = (2 * unat tot \<le> 3 * unat x)"
  using unat_mult_no_wrap [of 2 tot] unat_mult_no_wrap [of 3 x] by (simp add: word_le_nat_alt)

text \<open>
  (C28) The code computes what the specification quoted beside it does: after the second epoch, if the
  balances are small enough not to wrap, the new bits are the shifted old ones with the two bits set by
  exact two-thirds majorities of the previous and current target balances, the finalized checkpoint is
  the one the specification's four rules give for these bits, and the old current justified checkpoint
  becomes the previous one. When the old bits match the old justified checkpoint, the new justified checkpoint is the specification's too:
  the current epoch's on a majority for it, else the previous epoch's on a majority for that, else the old one.
\<close>
theorem justification_refines_spec:
  assumes "bv4_laws bv" "length (bs_justificationBits s) = 1" "64 < bs_slot s"
    and "2 * unat (pb_ActiveCurrentEpoch pBal) < 2 ^ 64" "3 * unat (pb_PrevEpochTargetAttested pBal) < 2 ^ 64"
      "3 * unat (pb_CurrentEpochTargetAttested pBal) < 2 ^ 64"
    and "ProcessJustificationAndFinalizationPreCompute bv pBal s = (t, None)"
  shows "bit_list bv (bs_justificationBits t) = spec_bits (bit_list bv (bs_justificationBits s))
      (2 * unat (pb_ActiveCurrentEpoch pBal) \<le> 3 * unat (pb_PrevEpochTargetAttested pBal))
      (2 * unat (pb_ActiveCurrentEpoch pBal) \<le> 3 * unat (pb_CurrentEpochTargetAttested pBal))
    \<and> bs_finalizedCheckpoint t = spec_finalized (bit_list bv (bs_justificationBits t)) (bs_previousJustifiedCheckpoint s)
      (bs_currentJustifiedCheckpoint s) (bs_finalizedCheckpoint s) (CurrentEpoch s)
    \<and> bs_previousJustifiedCheckpoint t = bs_currentJustifiedCheckpoint s
    \<and> (bits_match bv s \<longrightarrow> bs_currentJustifiedCheckpoint t = spec_justified s
      (2 * unat (pb_ActiveCurrentEpoch pBal) \<le> 3 * unat (pb_PrevEpochTargetAttested pBal))
      (2 * unat (pb_ActiveCurrentEpoch pBal) \<le> 3 * unat (pb_CurrentEpochTargetAttested pBal)))"
proof -
  let ?b = "processJustificationBits bv s (pb_ActiveCurrentEpoch pBal) (pb_PrevEpochTargetAttested pBal)
    (pb_CurrentEpochTargetAttested pBal)"
  have b: "length ?b = 1 \<and> bit_list bv ?b = spec_bits (bit_list bv (bs_justificationBits s))
      (2 * unat (pb_ActiveCurrentEpoch pBal) \<le> 3 * unat (pb_PrevEpochTargetAttested pBal))
      (2 * unat (pb_ActiveCurrentEpoch pBal) \<le> 3 * unat (pb_CurrentEpochTargetAttested pBal))"
    using processJustificationBits_spec [OF assms(1,2)] supermajority_nat [OF assms(4) assms(5)]
      supermajority_nat [OF assms(4) assms(6)] by simp
  obtain jc fc where c: "computeCheckpoints bv s ?b = (Some (jc, fc), None)"
    and t: "t = s\<lparr>bs_previousJustifiedCheckpoint := bs_currentJustifiedCheckpoint s, bs_currentJustifiedCheckpoint := jc,
        bs_justificationBits := ?b, bs_finalizedCheckpoint := fc\<rparr>"
    using assms(3,7) weigh_cases [of bv ?b s t] by (auto simp: process_cases not_le [symmetric])
  have "fc = new_finalized s (bv_Bytes bv ?b ! 0)"
    using c by (auto simp: computeCheckpoints_def split: prod.splits option.splits if_splits)
  moreover have "new_justified bv s ?b = (jc, None)" using computeCheckpoints_ok [OF c] by blast
  ultimately show ?thesis using b new_finalized_spec [OF assms(1), of ?b s] new_justified_spec [OF _ assms(2), of bv ?b] by (simp add: t)
qed

theorem justification_refines_spec_witness:
  "\<exists>t. ProcessJustificationAndFinalizationPreCompute byte_bv4
      \<lparr>pb_ActiveCurrentEpoch = 90, pb_ActivePrevEpoch = 90, pb_CurrentEpochAttested = 60, pb_CurrentEpochTargetAttested = 60,
       pb_PrevEpochAttested = 60, pb_PrevEpochTargetAttested = 59, pb_PrevEpochHeadAttested = 60\<rparr>
      ((small_state [] [])\<lparr>bs_slot := 321\<rparr>) = (t, None)
    \<and> bit_list byte_bv4 (bs_justificationBits t) = [True, False, False, False]
    \<and> bs_currentJustifiedCheckpoint t = \<lparr>c_Epoch = 10, c_Root = replicate 32 7\<rparr>"
proof -
  let ?s = "(small_state [] [])\<lparr>bs_slot := 321\<rparr>"
  let ?p = "\<lparr>pb_ActiveCurrentEpoch = 90, pb_ActivePrevEpoch = 90, pb_CurrentEpochAttested = 60, pb_CurrentEpochTargetAttested = 60,
       pb_PrevEpochAttested = 60, pb_PrevEpochTargetAttested = 59, pb_PrevEpochHeadAttested = 60\<rparr>"
  have j: "bs_justificationBits ?s = [0]" by simp
  have i: "bit_list byte_bv4 [0] = [False, False, False, False]" by (simp add: bit_list_def upt_4 byte_bv4_def)
  have r: "BlockRoot ?s 10 = (replicate 32 7, None)"
    by (simp add: BlockRoot_def EpochStart_def Slot_SafeMul_def Mul64_def SlotsPerEpoch_def BlockRootAtSlot_def
        SlotsPerHistoricalRoot_def BlockRootAtIndex_def out_of_range_def)
  have "\<exists>t. ProcessJustificationAndFinalizationPreCompute byte_bv4 ?p ?s = (t, None)"
    by (simp add: process_cases processJustificationBits_def j byte_bv4_def weighJustificationAndFinalization_def
        computeCheckpoints_def new_justified_def CurrentEpoch_def SlotsPerEpoch_def r genesis_checkpoint_def)
  then obtain t where t: "ProcessJustificationAndFinalizationPreCompute byte_bv4 ?p ?s = (t, None)" by blast
  have m: "bits_match byte_bv4 ?s" by (simp add: bits_match_def byte_bv4_def genesis_checkpoint_def)
  have e: "CurrentEpoch ?s = 10" by (simp add: CurrentEpoch_def SlotsPerEpoch_def)
  have "bit_list byte_bv4 (bs_justificationBits t) = [True, False, False, False]"
    "bs_currentJustifiedCheckpoint t = \<lparr>c_Epoch = 10, c_Root = replicate 32 7\<rparr>"
    using justification_refines_spec [OF bv4_laws_byte _ _ _ _ _ t] m i by (simp_all add: j spec_bits_def spec_justified_def e r)
  then show ?thesis using t by blast
qed

text \<open>
  A validator that has never been activated counts towards the previous epoch's target balance if
  its participation flags say so: its activation epoch \<^verbatim>\<open>FAR_FUTURE_EPOCH\<close> plus one wraps around to zero
  and passes the test that it was active. In the specification only active validators count.
\<close>
theorem pending_validator_counted:
  "UnrealizedCheckpointBalances_util [0] [2] [full_validator\<lparr>v_ActivationEpoch := FarFutureEpoch\<rparr>] 10
    = ((0, 32000000000, 0), None)
   \<and> \<not> IsActiveValidator (full_validator\<lparr>v_ActivationEpoch := FarFutureEpoch\<rparr>) 9"
  by (simp add: UnrealizedCheckpointBalances_util_def full_validator_def FarFutureEpoch_def has_target_def
      TimelyTargetFlagIndex_def Add64_def IsActiveValidator_def checkValidatorActiveStatus_def,
    simp add: word_le_nat_alt unsigned_minus_1_eq_mask mask_eq_exp_minus_1)

end
