(* ===== verification/Committees.thy ===== *)
theory Committees
  imports Registry
begin

text \<open>
  Beacon committees, \<^verbatim>\<open>beacon-chain/core/helpers/beacon_committee.go\<close>, and the cache in front of them,
  \<^verbatim>\<open>beacon-chain/cache/committee.go\<close>.

  The cache is a bounded map of the package golang-lru, which is not part of the repository. Its content
  is a Go map; what adding an entry does to it is the parameter \<open>lru_add\<close>, and \<open>lru_laws\<close> says that
  the new entry can be found and that other entries are kept or evicted, never invented.
\<close>

definition TargetCommitteeSize :: u64 where "TargetCommitteeSize = 128"
definition MaxCommitteesPerSlot :: u64 where "MaxCommitteesPerSlot = 64"

subsection \<open>The committee cache\<close>

record Committees =
  cm_CommitteeCount :: u64
  cm_Seed :: "u8 list"
  cm_ShuffledIndices :: "ValidatorIndex list"
  cm_SortedIndices :: "ValidatorIndex list"

record CommitteeCache =
  cc_entries :: "(u8 list, Committees) gomap"
  cc_inProgress :: "(u8 list, bool) gomap"

type_synonym lru_adder = "u8 list \<Rightarrow> Committees \<Rightarrow> (u8 list, Committees) gomap \<Rightarrow> (u8 list, Committees) gomap"

definition lru_laws :: "lru_adder \<Rightarrow> bool" where
  "lru_laws lru_add \<longleftrightarrow> (\<forall>k v m. gm_get (lru_add k v m) k = Some v
     \<and> (\<forall>k'. k' \<noteq> k \<longrightarrow> gm_get (lru_add k v m) k' = None \<or> gm_get (lru_add k v m) k' = gm_get m k'))"

definition NewCommitteesCache :: CommitteeCache where
  "NewCommitteesCache = \<lparr>cc_entries = [], cc_inProgress = []\<rparr>"

definition ClearCommittees :: "CommitteeCache \<Rightarrow> CommitteeCache" where
  "ClearCommittees c = c\<lparr>cc_entries := [], cc_inProgress := []\<rparr>"

text \<open>
  What each turn of the waiting loop sees: the error of the context and whether the seed is in progress.
  A run of observations that is used up before the loop ends is a call that is still waiting.
\<close>
fun checkInProgress :: "(go_error option \<times> bool) list \<Rightarrow> go_error option outcome" where
  "checkInProgress [] = Diverge"
| "checkInProgress ((Some err, _) # obs) = Ret (Some err)"
| "checkInProgress ((None, False) # obs) = Ret None"
| "checkInProgress ((None, True) # obs) = checkInProgress obs"

definition startEndIndices :: "Committees \<Rightarrow> u64 \<Rightarrow> (u64 \<times> u64) outcome" where
  "startEndIndices c index =
    (let validatorCount = of_nat (length (cm_ShuffledIndices c))
     in obind (SplitOffset validatorCount (cm_CommitteeCount c) index) (\<lambda>start.
        obind (SplitOffset validatorCount (cm_CommitteeCount c) (index + 1)) (\<lambda>end'. Ret (start, end'))))"

text \<open>The part of \<^verbatim>\<open>Committee\<close> after the entry has been found.\<close>
definition committee_of :: "Committees \<Rightarrow> Slot \<Rightarrow> u64 \<Rightarrow> ValidatorIndex list option result outcome" where
  "committee_of item slot index =
    (let q = cm_CommitteeCount item div SlotsPerEpoch;
         committeeCountPerSlot = (if q > 1 then q else 1)
     in obind (Slot_ModSlot slot SlotsPerEpoch) (\<lambda>m. obind (Slot_Mul m committeeCountPerSlot) (\<lambda>off.
        case Add64 index off of
          (_, Some err) \<Rightarrow> Ret (None, Some err)
        | (indexOffSet, None) \<Rightarrow> obind (startEndIndices item indexOffSet) (\<lambda>(start, end').
            if unat end' > length (cm_ShuffledIndices item) \<or> end' < start
            then Ret (None, Some (Fresh ''requested index out of bound''))
            else obind (go_slice (cm_ShuffledIndices item) (unat start) (unat end')) (\<lambda>l. Ret (Some l, None))))))"

definition Committee ::
  "(go_error option \<times> bool) list \<Rightarrow> CommitteeCache \<Rightarrow> Slot \<Rightarrow> u8 list \<Rightarrow> u64 \<Rightarrow> ValidatorIndex list option result outcome" where
  "Committee obs c slot seed index = obind (checkInProgress obs) (\<lambda>e. case e of
     Some err \<Rightarrow> Ret (None, Some err)
   | None \<Rightarrow> (case gm_get (cc_entries c) seed of
       None \<Rightarrow> Ret (None, None)
     | Some item \<Rightarrow> committee_of item slot index))"

definition AddCommitteeShuffledList ::
  "lru_adder \<Rightarrow> go_error option \<Rightarrow> Committees \<Rightarrow> CommitteeCache \<Rightarrow> CommitteeCache \<times> go_error option" where
  "AddCommitteeShuffledList lru_add ctx committees c = (case ctx of
     Some err \<Rightarrow> (c, Some err)
   | None \<Rightarrow> (c\<lparr>cc_entries := lru_add (cm_Seed committees) committees (cc_entries c)\<rparr>, None))"

definition ActiveIndices ::
  "(go_error option \<times> bool) list \<Rightarrow> CommitteeCache \<Rightarrow> u8 list \<Rightarrow> ValidatorIndex list option result outcome" where
  "ActiveIndices obs c seed = obind (checkInProgress obs) (\<lambda>e. case e of
     Some err \<Rightarrow> Ret (None, Some err)
   | None \<Rightarrow> Ret (map_option cm_SortedIndices (gm_get (cc_entries c) seed), None))"

definition ActiveIndicesCount ::
  "(go_error option \<times> bool) list \<Rightarrow> CommitteeCache \<Rightarrow> u8 list \<Rightarrow> nat result outcome" where
  "ActiveIndicesCount obs c seed = obind (checkInProgress obs) (\<lambda>e. case e of
     Some err \<Rightarrow> Ret (0, Some err)
   | None \<Rightarrow> (case gm_get (cc_entries c) seed of
       None \<Rightarrow> Ret (0, None) | Some item \<Rightarrow> Ret (length (cm_SortedIndices item), None)))"

definition HasEntry :: "CommitteeCache \<Rightarrow> u8 list \<Rightarrow> bool" where
  "HasEntry c seed \<longleftrightarrow> gm_get (cc_entries c) seed \<noteq> None"

definition MarkInProgress :: "u8 list \<Rightarrow> CommitteeCache \<Rightarrow> CommitteeCache \<times> go_error option" where
  "MarkInProgress seed c = (if gm_get (cc_inProgress c) seed = Some True then (c, Some ErrAlreadyInProgress)
     else (c\<lparr>cc_inProgress := gm_set seed True (cc_inProgress c)\<rparr>, None))"

definition MarkNotInProgress :: "u8 list \<Rightarrow> CommitteeCache \<Rightarrow> CommitteeCache \<times> go_error option" where
  "MarkNotInProgress seed c = (c\<lparr>cc_inProgress := gm_del seed (cc_inProgress c)\<rparr>, None)"

subsection \<open>Committees\<close>

definition SlotCommitteeCount :: "u64 \<Rightarrow> u64" where
  "SlotCommitteeCount activeValidatorCount =
    (let committeesPerSlot = activeValidatorCount div SlotsPerEpoch div TargetCommitteeSize
     in if committeesPerSlot > MaxCommitteesPerSlot then MaxCommitteesPerSlot
        else if committeesPerSlot = 0 then 1 else committeesPerSlot)"

definition computeCommittee ::
  "(u8 list \<Rightarrow> u8 list) \<Rightarrow> ValidatorIndex list \<Rightarrow> u8 list \<Rightarrow> u64 \<Rightarrow> u64 \<Rightarrow> ValidatorIndex list result outcome" where
  "computeCommittee hash indices seed index cnt =
    (let validatorCount = of_nat (length indices) :: u64
     in obind (SplitOffset validatorCount cnt index) (\<lambda>start.
        obind (SplitOffset validatorCount cnt (index + 1)) (\<lambda>end'.
        if start > validatorCount \<or> end' > validatorCount then Ret ([], Some (Fresh ''index out of range''))
        else case UnshuffleList hash indices seed of
               (_, Some err) \<Rightarrow> Ret ([], Some err)
             | (shuffledList, None) \<Rightarrow> obind (go_slice shuffledList (unat start) (unat end')) (\<lambda>l. Ret (l, None)))))"

definition BeaconCommittee ::
  "(u8 list \<Rightarrow> u8 list) \<Rightarrow> (Slot \<Rightarrow> u8 list \<Rightarrow> u64 \<Rightarrow> ValidatorIndex list option result) \<Rightarrow> ValidatorIndex list \<Rightarrow> u8 list
    \<Rightarrow> Slot \<Rightarrow> u64 \<Rightarrow> ValidatorIndex list result outcome" where
  "BeaconCommittee hash cached validatorIndices seed slot committeeIndex = (case cached slot seed committeeIndex of
     (_, Some err) \<Rightarrow> Ret ([], Some (Wrap ''could not interface with committee cache'' err))
   | (Some committee, None) \<Rightarrow> Ret (committee, None)
   | (None, None) \<Rightarrow>
       let committeesPerSlot = SlotCommitteeCount (of_nat (length validatorIndices))
       in obind (Slot_ModSlot slot SlotsPerEpoch) (\<lambda>m. obind (Slot_Mul m committeesPerSlot) (\<lambda>off.
          case Add64 committeeIndex off of
            (_, Some err) \<Rightarrow> Ret ([], Some (Wrap ''could not add calculate index offset'' err))
          | (indexOffset, None) \<Rightarrow>
              computeCommittee hash validatorIndices seed indexOffset (committeesPerSlot * SlotsPerEpoch))))"

definition BeaconCommitteeFromState ::
  "(u8 list \<Rightarrow> u8 list) \<Rightarrow> cache_view \<Rightarrow> BeaconState \<Rightarrow> Slot \<Rightarrow> u64 \<Rightarrow> ValidatorIndex list result outcome" where
  "BeaconCommitteeFromState hash cv s slot committeeIndex =
    (let epoch = slot div SlotsPerEpoch
     in case Seed hash s epoch DomainBeaconAttester of
          (_, Some err) \<Rightarrow> Ret ([], Some (Wrap ''could not get seed'' err))
        | (seed, None) \<Rightarrow> (case cv_Committee cv slot seed committeeIndex of
            (_, Some err) \<Rightarrow> Ret ([], Some (Wrap ''could not interface with committee cache'' err))
          | (Some committee, None) \<Rightarrow> Ret (committee, None)
          | (None, None) \<Rightarrow> (case ActiveValidatorIndices hash cv s epoch of
              (_, Some err) \<Rightarrow> Ret ([], Some (Wrap ''could not get active indices'' err))
            | (activeIndices, None) \<Rightarrow>
                BeaconCommittee hash (cv_Committee_again cv) activeIndices seed slot committeeIndex)))"

text \<open>The length of the bit field, from the package go-bitfield, is an argument.\<close>
definition VerifyBitfieldLength :: "u64 \<Rightarrow> u64 \<Rightarrow> go_error option" where
  "VerifyBitfieldLength bfLen committeeSize =
    (if bfLen \<noteq> committeeSize then Some (Fresh ''wanted participants bitfield length'') else None)"

definition ShuffledIndices :: "(u8 list \<Rightarrow> u8 list) \<Rightarrow> BeaconState \<Rightarrow> Epoch \<Rightarrow> ValidatorIndex list result" where
  "ShuffledIndices hash s epoch = (case Seed hash s epoch DomainBeaconAttester of
     (_, Some err) \<Rightarrow> ([], Some (Wrap ''could not get seed for epoch'' err))
   | (seed, None) \<Rightarrow> (case ReadFromEveryValidator s (\<lambda>idx val indices.
         (if IsActiveValidatorUsingTrie val epoch then indices @ [of_nat idx] else indices, None)) [] of
       (_, Some err) \<Rightarrow> ([], Some err)
     | (indices, None) \<Rightarrow> UnshuffleList hash indices seed))"

definition UpdateCommitteeCache ::
  "(u8 list \<Rightarrow> u8 list) \<Rightarrow> lru_adder \<Rightarrow> go_error option \<Rightarrow> BeaconState \<Rightarrow> Epoch \<Rightarrow> CommitteeCache
    \<Rightarrow> (CommitteeCache \<times> go_error option) outcome" where
  "UpdateCommitteeCache hash lru_add ctx s e c = (case Seed hash s e DomainBeaconAttester of
     (_, Some err) \<Rightarrow> Ret (c, Some err)
   | (seed, None) \<Rightarrow>
       if HasEntry c seed then Ret (c, None)
       else (case ShuffledIndices hash s e of
           (_, Some err) \<Rightarrow> Ret (c, Some err)
         | (shuffledIndices, None) \<Rightarrow>
             let cnt = SlotCommitteeCount (of_nat (length shuffledIndices))
             in obind (Slot_Mul SlotsPerEpoch cnt) (\<lambda>committeeCount.
                Ret (AddCommitteeShuffledList lru_add ctx
                  \<lparr>cm_CommitteeCount = committeeCount, cm_Seed = seed, cm_ShuffledIndices = shuffledIndices,
                   cm_SortedIndices = sort shuffledIndices\<rparr> c))))"

fun proposers_loop ::
  "(u8 list \<Rightarrow> u8 list) \<Rightarrow> BeaconState \<Rightarrow> ValidatorIndex list \<Rightarrow> u8 list \<Rightarrow> Slot \<Rightarrow> u64 list \<Rightarrow> ValidatorIndex list result outcome" where
  "proposers_loop hash s activeIndices seed slot [] = Ret ([], None)"
| "proposers_loop hash s activeIndices seed slot (i # is) =
    obind (ComputeProposerIndex hash s activeIndices (hash (seed @ Bytes8 (slot + i)))) (\<lambda>r. case r of
      (_, Some err) \<Rightarrow> Ret ([], Some err)
    | (index, None) \<Rightarrow> obind (proposers_loop hash s activeIndices seed slot is) (\<lambda>r. case r of
        (_, Some err) \<Rightarrow> Ret ([], Some err) | (indices, None) \<Rightarrow> Ret (index # indices, None)))"

definition precomputeProposerIndices ::
  "(u8 list \<Rightarrow> u8 list) \<Rightarrow> BeaconState \<Rightarrow> ValidatorIndex list \<Rightarrow> Epoch \<Rightarrow> ValidatorIndex list result outcome" where
  "precomputeProposerIndices hash s activeIndices e = (case Seed hash s e DomainBeaconProposer of
     (_, Some err) \<Rightarrow> Ret ([], Some (Wrap ''could not generate seed'' err))
   | (seed, None) \<Rightarrow> (case EpochStart e of
       (_, Some err) \<Rightarrow> Ret ([], Some err)
     | (slot, None) \<Rightarrow> proposers_loop hash s activeIndices seed slot (map of_nat [0..<unat SlotsPerEpoch])))"

subsection \<open>Shuffled lists\<close>

text \<open>The position that \<^verbatim>\<open>compute_shuffled_index\<close> of the specification reads.\<close>
definition shuffled_pos :: "(u8 list \<Rightarrow> u8 list) \<Rightarrow> u8 list \<Rightarrow> nat \<Rightarrow> nat \<Rightarrow> nat" where
  "shuffled_pos hash seed n i = unat (fst (ShuffledIndex hash (of_nat i) (of_nat n) seed))"

lemma shuffled_pos_model:
  assumes "n \<le> 2 ^ 40" "i < n"
  shows "shuffled_pos hash seed n i = fold (model_round hash seed (of_nat n)) all_rounds i"
    and "shuffled_pos hash seed n i < n"
proof -
  let ?N = "of_nat n :: u64" and ?i = "of_nat i :: u64"
  have n: "unat ?N = n" and i: "unat ?i = i" using assms by (simp_all add: unat_of_nat)
  have lt: "?i < ?N" using n i assms(2) by (simp add: word_less_nat_alt)
  have n40: "unat ?N \<le> 2 ^ 40" using n assms(1) by simp
  have "ShuffledIndex hash ?i ?N seed = (fold (shuffle_step hash seed ?N) all_rounds ?i, None)"
    using lt n40 maxShuffle_nat [of ?N] by (simp add: ShuffledIndex_def ComputeShuffledIndex_eq not_le [symmetric])
  then show "shuffled_pos hash seed n i = fold (model_round hash seed ?N) all_rounds i"
    using fold_refines(1) [OF n40 lt] i by (simp add: shuffled_pos_def)
  then show "shuffled_pos hash seed n i < n" using shuf.rounds_less [of i ?N] n assms(2) by simp
qed

lemma shuffled_pos_perm:
  assumes "n \<le> 2 ^ 40"
  shows "shuffled_pos hash seed n ` {..<n} = {..<n}" "inj_on (shuffled_pos hash seed n) {..<n}"
proof -
  let ?N = "of_nat n :: u64"
  have n: "unat ?N = n" using assms by (simp add: unat_of_nat)
  show inj: "inj_on (shuffled_pos hash seed n) {..<n}"
  proof (rule inj_onI)
    fix i j assume a: "i \<in> {..<n}" "j \<in> {..<n}" "shuffled_pos hash seed n i = shuffled_pos hash seed n j"
    then have eq: "fold (model_round hash seed ?N) all_rounds i = fold (model_round hash seed ?N) all_rounds j"
      using shuffled_pos_model(1) [OF assms] by simp
    have inv: "fold (model_round hash seed ?N) (rev all_rounds) (fold (model_round hash seed ?N) all_rounds k) = k"
      if "k < n" for k by (rule shuf.rounds_inverse) (use that n in simp)
    show "i = j" using inv [of i] inv [of j] a(1,2) unfolding eq by simp
  qed
  have "shuffled_pos hash seed n ` {..<n} \<subseteq> {..<n}" using shuffled_pos_model(2) [OF assms] by auto
  then show "shuffled_pos hash seed n ` {..<n} = {..<n}" using inj by (intro endo_inj_surj) auto
qed

lemma UnshuffleList_eq:
  assumes "length l \<le> 2 ^ 40"
  shows "UnshuffleList hash l seed = (map (\<lambda>i. l ! shuffled_pos hash seed (length l) i) [0..<length l], None)"
proof (cases "2 \<le> length l")
  case True
  let ?un = "fold (list_round hash seed) (rev all_rounds) l"
  have "length ?un = length l \<and> (\<forall>i < length l. ?un ! i = l ! shuffled_pos hash seed (length l) i)"
    using fold_list_round [OF True assms, of hash seed "rev all_rounds"] shuffled_pos_model(1) [OF assms] by simp
  then have "?un = map (\<lambda>i. l ! shuffled_pos hash seed (length l) i) [0..<length l]" by (intro nth_equalityI) auto
  then show ?thesis by (simp add: UnshuffleList_def innerShuffleList_eq [OF True assms])
next
  case False
  then have "l = [] \<or> (\<exists>x. l = [x])" by (cases l; cases "tl l") auto
  moreover have "shuffled_pos hash seed 1 0 = 0" using shuffled_pos_model(2) [of 1 0 hash seed] by simp
  ultimately show ?thesis by (auto simp: UnshuffleList_def innerShuffleList_def)
qed

lemma UnshuffleList_mset:
  assumes "length l \<le> 2 ^ 40"
  shows "mset (fst (UnshuffleList hash l seed)) = mset l"
proof -
  let ?p = "shuffled_pos hash seed (length l)"
  have "image_mset (\<lambda>i. l ! ?p i) (mset_set {..<length l}) = image_mset ((!) l) (image_mset ?p (mset_set {..<length l}))"
    by (simp add: image_mset.compositionality comp_def)
  also have "\<dots> = image_mset ((!) l) (mset_set {..<length l})"
    using shuffled_pos_perm [OF assms, of hash seed] by (simp add: image_mset_mset_set)
  also have "\<dots> = mset (map ((!) l) [0..<length l])" by (simp add: atLeast0LessThan)
  finally show ?thesis by (simp add: UnshuffleList_eq [OF assms] atLeast0LessThan map_nth)
qed

lemma UnshuffleList_length: "length l \<le> 2 ^ 40 \<Longrightarrow> length (fst (UnshuffleList hash l seed)) = length l"
  by (simp add: UnshuffleList_eq)

subsection \<open>Committees cut the shuffled list\<close>

lemma SlotCommitteeCount_range: "1 \<le> unat (SlotCommitteeCount n) \<and> unat (SlotCommitteeCount n) \<le> 64"
proof -
  have "x \<noteq> 0 \<Longrightarrow> 1 \<le> unat (x :: u64)" for x by (simp add: Suc_le_eq unat_gt_0)
  then show ?thesis
    by (simp add: SlotCommitteeCount_def Let_def MaxCommitteesPerSlot_def word_less_nat_alt)
qed

lemma split_le: "i \<le> k \<Longrightarrow> 0 < k \<Longrightarrow> n * i div k \<le> (n :: nat)"
  by (metis div_le_mono mult_le_mono2 nonzero_mult_div_cancel_right less_not_refl2)

lemma computeCommittee_slice:
  assumes "length l \<le> 2 ^ 40" "length l * unat cnt < 2 ^ 64" "i < unat cnt"
  defines "f \<equiv> \<lambda>i. length l * i div unat cnt"
  shows "computeCommittee hash l seed (of_nat i) cnt
    = Ret (take (f (Suc i) - f i) (drop (f i) (fst (UnshuffleList hash l seed))), None)"
proof -
  have c: "cnt \<noteq> 0" "0 < unat cnt" using assms(3) by (auto simp: unat_gt_0)
  have n: "unat (of_nat (length l) :: u64) = length l" using assms(1) by (simp add: unat_of_nat)
  have s: "SplitOffset (of_nat (length l)) cnt (of_nat i) = Ret (of_nat (f i))" "unat (of_nat (f i) :: u64) = f i"
    "SplitOffset (of_nat (length l)) cnt (of_nat i + 1) = Ret (of_nat (f (Suc i)))" "unat (of_nat (f (Suc i)) :: u64) = f (Suc i)"
    using SplitOffset_nat [OF c(1) assms(2), of i] SplitOffset_nat [OF c(1) assms(2), of "Suc i"] assms(3)
    by (simp_all add: f_def add.commute)
  have le: "f i \<le> f (Suc i)" "f (Suc i) \<le> length l" "f i \<le> length l"
    using split_le [of "Suc i" "unat cnt" "length l"] split_le [of i "unat cnt" "length l"] c assms(3)
    by (auto simp: f_def intro: div_le_mono)
  obtain un where un: "UnshuffleList hash l seed = (un, None)" "length un = length l"
    using UnshuffleList_eq [OF assms(1)] by simp
  have nb: "\<not> of_nat (f i) > (of_nat (length l) :: u64)" "\<not> of_nat (f (Suc i)) > (of_nat (length l) :: u64)"
    using le by (simp_all only: word_less_nat_alt s n not_less)
  show ?thesis
    unfolding computeCommittee_def Let_def s(1,3) un(1) obind.simps using nb le un(2)
    by (simp add: s go_slice_def)
qed

lemma Slot_Mul_small:
  assumes "unat c \<le> 64"
  shows "Slot_Mul (slot mod 32) c = Ret ((slot mod 32) * c)" "unat ((slot mod 32) * c) = (unat slot mod 32) * unat c"
    "unat slot mod 32 * unat c \<le> 31 * 64"
proof -
  have m: "unat (slot mod 32) = unat slot mod 32" "unat slot mod 32 \<le> 31" by (simp_all add: unat_mod)
  then show b: "unat slot mod 32 * unat c \<le> 31 * 64" using assms by (intro mult_le_mono) auto
  then show u: "unat ((slot mod 32) * c) = (unat slot mod 32) * unat c"
    using unat_mult_no_wrap [of "slot mod 32" c] m by simp
  show "Slot_Mul (slot mod 32) c = Ret ((slot mod 32) * c)"
    using b m by (simp add: Slot_Mul_def Slot_SafeMul_def Mul64_def must_def)
qed

lemma Slot_ModSlot_32: "Slot_ModSlot slot 32 = Ret (slot mod 32)"
  by (simp add: Slot_ModSlot_nz)

text \<open>The place of a committee among those of its epoch.\<close>
lemma committee_offset:
  assumes "unat c \<le> 64" "j < unat c"
  shows "Add64 (of_nat j) (slot mod 32 * c) = (of_nat (j + unat slot mod 32 * unat c), None)"
    and "j + unat slot mod 32 * unat c < unat c * 32"
proof -
  note m = Slot_Mul_small [OF assms(1), of slot]
  have j: "unat (of_nat j :: u64) = j" using assms by (simp add: unat_of_nat)
  show "j + unat slot mod 32 * unat c < unat c * 32"
  proof -
    have "j + unat slot mod 32 * unat c < Suc (unat slot mod 32) * unat c" using assms(2) by simp
    also have "\<dots> \<le> 32 * unat c" by (intro mult_le_mono1) simp
    finally show ?thesis by (simp add: mult.commute)
  qed
  have "(of_nat j :: u64) + slot mod 32 * c = of_nat (j + unat slot mod 32 * unat c)"
    using arg_cong [OF m(2), of "of_nat :: nat \<Rightarrow> u64"] by (simp del: of_nat_mult)
  then show "Add64 (of_nat j) (slot mod 32 * c) = (of_nat (j + unat slot mod 32 * unat c), None)"
    using m j assms by (simp add: Add64_def)
qed

lemma committee_total:
  fixes c :: u64
  assumes "unat c \<le> 64" "n \<le> 2 ^ 40"
  shows "unat (c * 32) = unat c * 32" "n * unat (c * 32) < 2 ^ 64"
proof -
  show u: "unat (c * 32) = unat c * 32" using unat_mult_no_wrap [of c 32] assms(1) by simp
  have "n * (unat c * 32) \<le> 2 ^ 40 * (64 * 32)" using assms by (intro mult_le_mono) auto
  then show "n * unat (c * 32) < 2 ^ 64" unfolding u by simp
qed

lemma BeaconCommittee_slice:
  assumes "length l \<le> 2 ^ 40" "j < unat (SlotCommitteeCount (of_nat (length l)))" "cached slot seed (of_nat j) = (None, None)"
  defines "c \<equiv> SlotCommitteeCount (of_nat (length l))"
  defines "f \<equiv> \<lambda>i. length l * i div (unat c * 32)" and "k \<equiv> j + unat slot mod 32 * unat c"
  shows "BeaconCommittee hash cached l seed slot (of_nat j)
    = Ret (take (f (Suc k) - f k) (drop (f k) (fst (UnshuffleList hash l seed))), None)"
proof -
  have c: "unat c \<le> 64" "j < unat c" using SlotCommitteeCount_range assms(2) by (auto simp: c_def)
  have k: "k < unat (c * 32)" using committee_offset(2) [OF c] committee_total(1) [OF c(1), of 0] by (simp add: k_def)
  show ?thesis
    using computeCommittee_slice [OF assms(1) committee_total(2) [OF c(1) assms(1)] k, of hash seed]
      committee_offset(1) [OF c, of slot] Slot_Mul_small(1) [OF c(1), of slot]
    by (simp add: BeaconCommittee_def assms(3) c_def [symmetric] Let_def Slot_ModSlot_32 k_def f_def
        committee_total(1) [OF c(1), of 0] SlotsPerEpoch_def)
qed

text \<open>
  (C29) Committees are those of the specification: for at most \<open>2 ^ 40\<close> active validators,
  \<^verbatim>\<open>BeaconCommittee\<close> returns, for a slot and a committee index below the committee count, the list
  \<^verbatim>\<open>[indices[compute_shuffled_index(i)] for i in range(start, end)]\<close> with the start and end that the
  specification gives, although the code cuts it out of a list shuffled as a whole.
\<close>
theorem BeaconCommittee_spec:
  assumes "length l \<le> 2 ^ 40" "j < unat (SlotCommitteeCount (of_nat (length l)))" "cached slot seed (of_nat j) = (None, None)"
  defines "c \<equiv> unat (SlotCommitteeCount (of_nat (length l)))"
  defines "k \<equiv> unat slot mod 32 * c + j"
  shows "BeaconCommittee hash cached l seed slot (of_nat j) = Ret (map (\<lambda>i. l ! shuffled_pos hash seed (length l) i)
    [length l * k div (c * 32)..<length l * (k + 1) div (c * 32)], None)"
proof -
  have c: "0 < c" "k < c * 32"
    using SlotCommitteeCount_range [of "of_nat (length l)"] committee_offset(2) [of "SlotCommitteeCount (of_nat (length l))" j slot] assms(2)
    by (auto simp: c_def k_def add.commute)
  have "length l * (k + 1) div (c * 32) \<le> length l" using c by (intro split_le) auto
  moreover have "length l * k div (c * 32) \<le> length l * (k + 1) div (c * 32)" by (intro div_le_mono) simp
  ultimately show ?thesis
    using BeaconCommittee_slice [OF assms(1,2), of cached slot seed hash, OF assms(3)] UnshuffleList_eq [OF assms(1), of hash seed]
    by (simp add: c_def [symmetric] k_def [symmetric] add.commute [of j] drop_map take_map take_upt)
qed

lemma concat_grid:
  "concat (map (\<lambda>i. map (\<lambda>j. g (j + i * m)) [0..<m]) [0..<k]) = map g [0..<k * m]"
proof (induction k)
  case (Suc k)
  have "map (\<lambda>j. g (j + k * m)) [0..<m] = map g [k * m..<k * m + m]"
    by (rule nth_equalityI) (auto simp: add.commute)
  moreover have "[0..<m + k * m] = [0..<k * m] @ [k * m..<m + k * m]"
    using upt_add_eq_append [of 0 "k * m" m] by (simp add: add.commute)
  ultimately show ?case using Suc by (simp add: add.commute)
qed simp

lemma slot_in_epoch:
  fixes start :: u64
  assumes "unat start mod 32 = 0" "i < 32"
  shows "unat (start + of_nat i) mod 32 = i"
proof -
  obtain q where q: "unat start = 32 * q" using assms(1) by (auto simp: mod_eq_0_iff_dvd)
  have i: "unat (of_nat i :: u64) = i" using assms(2) by (simp add: unat_of_nat)
  have "32 * q + i < 2 ^ 64" using unat_u64_lt [of start] assms(2) q by simp
  then have "unat (start + of_nat i) = 32 * q + i" using unat_add_no_wrap [of start "of_nat i"] q i by simp
  then show ?thesis using assms(2) by simp
qed

text \<open>
  (C30) Every active validator is in exactly one committee of an epoch: for an epoch starting at a multiple
  of 32, all its committees are computed without error or panic, and together they contain every entry
  of the active list exactly as often as the list does.
\<close>
theorem committees_partition:
  assumes "length l \<le> 2 ^ 40" "unat start mod 32 = 0"
  defines "c \<equiv> unat (SlotCommitteeCount (of_nat (length l)))"
  shows "\<exists>C. (\<forall>i < 32. \<forall>j < c. BeaconCommittee hash (\<lambda>_ _ _. (None, None)) l seed (start + of_nat i) (of_nat j) = Ret (C i j, None))
    \<and> mset (concat (concat (map (\<lambda>i. map (C i) [0..<c]) [0..<32]))) = mset l"
proof -
  let ?un = "fst (UnshuffleList hash l seed)"
  let ?f = "\<lambda>i. length l * i div (c * 32)"
  let ?g = "\<lambda>k. take (?f (Suc k) - ?f k) (drop (?f k) ?un)"
  have c: "0 < c" using SlotCommitteeCount_range [of "of_nat (length l)"] by (simp add: c_def)
  have slot: "unat (start + of_nat i) mod 32 = i" if "i < 32" for i
    by (rule slot_in_epoch [OF assms(2) that])
  have each: "BeaconCommittee hash (\<lambda>_ _ _. (None, None)) l seed (start + of_nat i) (of_nat j) = Ret (?g (j + i * c), None)"
    if "i < 32" "j < c" for i j
    using BeaconCommittee_slice [OF assms(1), of j "\<lambda>_ _ _. (None, None)" "start + of_nat i" seed hash] that slot [OF that(1)]
    by (simp add: c_def)
  have "concat (map ?g [0..<32 * c]) = take (?f (32 * c) - ?f 0) (drop (?f 0) ?un)"
  proof (rule concat_slices)
    show "?f i \<le> ?f (Suc i)" for i by (intro div_le_mono) simp
    show "?f (32 * c) \<le> length ?un"
      using UnshuffleList_length [OF assms(1), of hash seed] c by (simp add: mult.commute)
  qed
  then have "concat (map ?g [0..<32 * c]) = ?un"
    using UnshuffleList_length [OF assms(1), of hash seed] c by (simp add: mult.commute)
  then have "mset (concat (concat (map (\<lambda>i. map (\<lambda>j. ?g (j + i * c)) [0..<c]) [0..<32]))) = mset l"
    unfolding concat_grid [of ?g c 32] by (simp only: UnshuffleList_mset [OF assms(1)])
  then show ?thesis using each by (intro exI [of _ "\<lambda>i j. ?g (j + i * c)"]) simp
qed

theorem committees_partition_witness:
  "\<exists>C. (\<forall>i < 32. \<forall>j < unat (SlotCommitteeCount (of_nat (length [5, 6, 7 :: u64]))).
      BeaconCommittee (\<lambda>xs. replicate 32 (last xs)) (\<lambda>_ _ _. (None, None)) [5, 6, 7] (replicate 32 1) (64 + of_nat i) (of_nat j)
        = Ret (C i j, None))
    \<and> mset (concat (concat (map (\<lambda>i. map (C i) [0..<unat (SlotCommitteeCount (of_nat (length [5, 6, 7 :: u64])))]) [0..<32])))
        = mset [5, 6, 7]"
  by (rule committees_partition) simp_all

lemma SlotCommitteeCount_3: "SlotCommitteeCount 3 = 1"
  by (simp add: SlotCommitteeCount_def SlotsPerEpoch_def TargetCommitteeSize_def MaxCommitteesPerSlot_def Let_def)

theorem BeaconCommittee_spec_witness:
  "BeaconCommittee (\<lambda>xs. replicate 32 (last xs)) (\<lambda>_ _ _. (None, None)) [5, 6, 7] (replicate 32 1) 42 (of_nat 0)
    = Ret (map (\<lambda>i. [5, 6, 7] ! shuffled_pos (\<lambda>xs. replicate 32 (last xs)) (replicate 32 1) 3 i) [0..<1], None)"
  using BeaconCommittee_spec [of "[5, 6, 7]" 0 "\<lambda>_ _ _. (None, None)" 42 "replicate 32 1" "\<lambda>xs. replicate 32 (last xs)"]
  by (simp add: SlotCommitteeCount_3 numeral_3_eq_3)

subsection \<open>The cache is transparent\<close>

definition active_indices :: "BeaconState \<Rightarrow> Epoch \<Rightarrow> ValidatorIndex list" where
  "active_indices s e = map (\<lambda>(i, v). of_nat i) (filter (\<lambda>(i, v). IsActiveValidator v e) (enumerate 0 (vals s)))"

lemma read_active:
  assumes "bs_validators s = Some vs"
  shows "ReadFromEveryValidator s (\<lambda>idx val indices.
      (if IsActiveValidatorUsingTrie val e then indices @ [of_nat idx] else indices, None)) [] = (active_indices s e, None)"
  by (simp add: ReadFromEveryValidator_def assms read_every_fold fold_active_indices active_indices_def vals_def
      IsActiveValidator_def IsActiveValidatorUsingTrie_def)

lemma committee_of_slice:
  fixes slot :: Slot
  assumes "length l \<le> 2 ^ 40" "j < unat (SlotCommitteeCount (of_nat (length l)))"
  defines "c \<equiv> SlotCommitteeCount (of_nat (length l))"
  defines "f \<equiv> \<lambda>i. length l * i div (unat c * 32)" and "k \<equiv> j + unat slot mod 32 * unat c"
  shows "committee_of \<lparr>cm_CommitteeCount = c * 32, cm_Seed = seed, cm_ShuffledIndices = fst (UnshuffleList hash l seed),
      cm_SortedIndices = so\<rparr> slot (of_nat j)
    = Ret (Some (take (f (Suc k) - f k) (drop (f k) (fst (UnshuffleList hash l seed)))), None)"
proof -
  have c: "1 \<le> unat c" "unat c \<le> 64" "j < unat c" using SlotCommitteeCount_range assms(2) by (auto simp: c_def)
  note tot = committee_total [OF c(2) assms(1)]
  have n: "unat (of_nat (length l) :: u64) = length l" using assms(1) by (simp add: unat_of_nat)
  have q: "c * 32 div 32 = c" using tot(1) by (intro unat_eqI) (simp add: unat_div)
  have q1: "(if c > 1 then c else 1) = c"
    using c(1) by (auto simp: word_less_nat_alt word_unat_eq_iff)
  have k: "k < unat c * 32" using committee_offset(2) [OF c(2,3)] by (simp add: k_def)
  have c0: "c * 32 \<noteq> 0" using tot(1) c(1) by auto
  have len: "length (fst (UnshuffleList hash l seed)) = length l" by (rule UnshuffleList_length [OF assms(1)])
  have s: "SplitOffset (of_nat (length l)) (c * 32) (of_nat k) = Ret (of_nat (f k))" "unat (of_nat (f k) :: u64) = f k"
    "SplitOffset (of_nat (length l)) (c * 32) (of_nat k + 1) = Ret (of_nat (f (Suc k)))"
    "unat (of_nat (f (Suc k)) :: u64) = f (Suc k)"
    using SplitOffset_nat [OF c0 tot(2), of k] SplitOffset_nat [OF c0 tot(2), of "Suc k"] k
    unfolding tot(1) f_def by (simp_all add: add.commute)
  have le: "f k \<le> f (Suc k)" "f (Suc k) \<le> length l"
    using split_le [of "Suc k" "unat c * 32" "length l"] k by (auto simp: f_def intro: div_le_mono)
  have "\<not> (of_nat (f (Suc k)) :: u64) < of_nat (f k)" using le by (simp only: word_less_nat_alt s not_less)
  then show ?thesis
    using le q q1 Slot_Mul_small(1) [OF c(2), of slot] committee_offset(1) [OF c(2,3), of slot, folded k_def]
    by (simp add: committee_of_def startEndIndices_def SlotsPerEpoch_def Slot_ModSlot_32 s go_slice_def len
        split: if_splits)
qed

text \<open>
  (C31) The committee cache is transparent: after \<^verbatim>\<open>UpdateCommitteeCache\<close> has stored the committees of an
  epoch, a lookup that does not have to wait gives, for every slot of the epoch and every committee
  index below the count, the committee that \<^verbatim>\<open>BeaconCommittee\<close> computes from the active validators.
\<close>
theorem committee_cache_transparent:
  assumes "lru_laws lru_add" "bs_validators s = Some vs" "length vs \<le> 2 ^ 40"
    and "Seed hash s e DomainBeaconAttester = (seed, None)" "\<not> HasEntry c seed"
    and "j < unat (SlotCommitteeCount (of_nat (length (active_indices s e))))"
  shows "\<exists>c' l. UpdateCommitteeCache hash lru_add None s e c = Ret (c', None)
    \<and> Committee [(None, False)] c' slot seed (of_nat j) = Ret (Some l, None)
    \<and> BeaconCommittee hash (\<lambda>_ _ _. (None, None)) (active_indices s e) seed slot (of_nat j) = Ret (l, None)"
proof -
  let ?a = "active_indices s e"
  let ?cnt = "SlotCommitteeCount (of_nat (length ?a))"
  have a: "length ?a \<le> 2 ^ 40"
    using assms(3) length_filter_le [of "\<lambda>(i, v). IsActiveValidator v e" "enumerate 0 vs"]
    by (simp add: active_indices_def vals_def assms(2))
  obtain un where un: "UnshuffleList hash ?a seed = (un, None)" using UnshuffleList_eq [OF a, of hash seed] by blast
  have len: "length un = length ?a" using UnshuffleList_length [OF a, of hash seed] by (simp add: un)
  have sh: "ShuffledIndices hash s e = (un, None)"
    by (simp add: ShuffledIndices_def assms(4) read_active [OF assms(2)] un)
  have r: "unat ?cnt \<le> 64" using SlotCommitteeCount_range by blast
  have m: "Slot_Mul 32 ?cnt = Ret (?cnt * 32)"
    using r by (simp add: Slot_Mul_def Slot_SafeMul_def Mul64_def must_def mult.commute [of 32])
  let ?item = "\<lparr>cm_CommitteeCount = ?cnt * 32, cm_Seed = seed, cm_ShuffledIndices = un, cm_SortedIndices = sort un\<rparr>"
  let ?c = "c\<lparr>cc_entries := lru_add seed ?item (cc_entries c)\<rparr>"
  have "UpdateCommitteeCache hash lru_add None s e c = Ret (?c, None)"
    using assms(5) by (simp add: UpdateCommitteeCache_def assms(4) sh len m SlotsPerEpoch_def AddCommitteeShuffledList_def Let_def)
  moreover have "gm_get (cc_entries ?c) seed = Some ?item" using assms(1) by (simp add: lru_laws_def)
  ultimately show ?thesis
    using committee_of_slice [OF a assms(6), of seed hash "sort un" slot]
      BeaconCommittee_slice [OF a assms(6), of "\<lambda>_ _ _. (None, None)" slot seed hash]
    by (simp add: Committee_def un)
qed

abbreviation three_state :: BeaconState where
  "three_state \<equiv> small_state (replicate 3 full_validator) [0, 0, 0]"

lemma active_indices_three: "active_indices three_state 10 = [0, 1, 2]"
  by (simp add: active_indices_def vals_def IsActiveValidator_def full_validator_def enumerate_replicate_eq numeral_3_eq_3 checkValidatorActiveStatus_def)

lemma Seed_three: "Seed (\<lambda>_. replicate 32 1) three_state 10 DomainBeaconAttester = (replicate 32 1, None)"
  by (simp add: Seed_def RandaoMix_def RandaoMixAtIndex_def Let_def EpochsPerHistoricalVector_def MinSeedLookahead_def
      out_of_range_def)

theorem committee_cache_transparent_witness:
  "\<exists>c' l. UpdateCommitteeCache (\<lambda>_. replicate 32 1) gm_set None three_state 10 NewCommitteesCache = Ret (c', None)
    \<and> Committee [(None, False)] c' 330 (replicate 32 1) (of_nat 0) = Ret (Some l, None)
    \<and> BeaconCommittee (\<lambda>_. replicate 32 1) (\<lambda>_ _ _. (None, None)) (active_indices three_state 10) (replicate 32 1) 330 (of_nat 0)
      = Ret (l, None)"
  by (rule committee_cache_transparent [where vs = "replicate 3 full_validator"])
    (simp_all add: lru_laws_def Seed_three NewCommitteesCache_def HasEntry_def active_indices_three SlotCommitteeCount_3)

end
