(* ===== verification/Precompute.thy ===== *)
theory Precompute
  imports Justification Committees
begin

text \<open>
  Rewards and penalties of an epoch from precomputed records, \<^verbatim>\<open>beacon-chain/core/epoch/precompute\<close>:
  \<^verbatim>\<open>new.go\<close> builds a record per validator, \<^verbatim>\<open>attestation.go\<close> marks in it what the attestations of
  the epoch say, \<^verbatim>\<open>reward_penalty.go\<close> turns the records into balance changes and \<^verbatim>\<open>slashing.go\<close> applies
  the penalties of slashed validators.

  The bit lists of go-bitfield are a parameter: their length and the positions of the bits that are set.
  Divisions by zero and slice indices out of range are panics; 64-bit sums and products wrap around.
\<close>

subsection \<open>Records\<close>

record PValidator =
  pv_IsSlashed :: bool
  pv_IsWithdrawableCurrentEpoch :: bool
  pv_IsActiveCurrentEpoch :: bool
  pv_IsActivePrevEpoch :: bool
  pv_IsCurrentEpochAttester :: bool
  pv_IsCurrentEpochTargetAttester :: bool
  pv_IsPrevEpochAttester :: bool
  pv_IsPrevEpochSourceAttester :: bool
  pv_IsPrevEpochTargetAttester :: bool
  pv_IsPrevEpochHeadAttester :: bool
  pv_CurrentEpochEffectiveBalance :: u64
  pv_InclusionSlot :: Slot
  pv_InclusionDistance :: Slot
  pv_ProposerIndex :: ValidatorIndex
  pv_BeforeEpochTransitionBalance :: u64
  pv_AfterEpochTransitionBalance :: u64
  pv_InactivityScore :: u64

definition zero_pvalidator :: PValidator where
  "zero_pvalidator = \<lparr>pv_IsSlashed = False, pv_IsWithdrawableCurrentEpoch = False, pv_IsActiveCurrentEpoch = False,
     pv_IsActivePrevEpoch = False, pv_IsCurrentEpochAttester = False, pv_IsCurrentEpochTargetAttester = False,
     pv_IsPrevEpochAttester = False, pv_IsPrevEpochSourceAttester = False, pv_IsPrevEpochTargetAttester = False,
     pv_IsPrevEpochHeadAttester = False, pv_CurrentEpochEffectiveBalance = 0, pv_InclusionSlot = 0,
     pv_InclusionDistance = 0, pv_ProposerIndex = 0, pv_BeforeEpochTransitionBalance = 0,
     pv_AfterEpochTransitionBalance = 0, pv_InactivityScore = 0\<rparr>"

definition zero_balance :: Balance where
  "zero_balance = \<lparr>pb_ActiveCurrentEpoch = 0, pb_ActivePrevEpoch = 0, pb_CurrentEpochAttested = 0,
     pb_CurrentEpochTargetAttested = 0, pb_PrevEpochAttested = 0, pb_PrevEpochTargetAttested = 0,
     pb_PrevEpochHeadAttested = 0\<rparr>"

subsection \<open>New records\<close>

definition new_record :: "Epoch \<Rightarrow> Epoch \<Rightarrow> Validator \<Rightarrow> PValidator" where
  "new_record currentEpoch prevEpoch val = zero_pvalidator
    \<lparr>pv_IsSlashed := v_Slashed val, pv_IsWithdrawableCurrentEpoch := (prevEpoch + 1 \<ge> v_WithdrawableEpoch val),
     pv_CurrentEpochEffectiveBalance := v_EffectiveBalance val,
     pv_IsActiveCurrentEpoch := IsActiveValidatorUsingTrie val currentEpoch,
     pv_IsActivePrevEpoch := IsActiveValidatorUsingTrie val prevEpoch,
     pv_InclusionSlot := FarFutureSlot, pv_InclusionDistance := FarFutureSlot\<rparr>"

definition new_step :: "Epoch \<Rightarrow> Epoch \<Rightarrow> nat \<Rightarrow> Validator \<Rightarrow> PValidator list \<times> Balance \<Rightarrow> (PValidator list \<times> Balance) result" where
  "new_step currentEpoch prevEpoch idx val = (\<lambda>(pValidators, pBal).
    (let pBal = (if IsActiveValidatorUsingTrie val currentEpoch
           then pBal\<lparr>pb_ActiveCurrentEpoch := pb_ActiveCurrentEpoch pBal + v_EffectiveBalance val\<rparr> else pBal);
         pBal = (if IsActiveValidatorUsingTrie val prevEpoch
           then pBal\<lparr>pb_ActivePrevEpoch := pb_ActivePrevEpoch pBal + v_EffectiveBalance val\<rparr> else pBal)
     in (pValidators[idx := new_record currentEpoch prevEpoch val], pBal), None))"

text \<open>The slice is made with nil entries; the loop sets every entry before the slice is returned.\<close>
definition New_precompute :: "BeaconState \<Rightarrow> (PValidator list \<times> Balance) option result" where
  "New_precompute s = (case ReadFromEveryValidator s (new_step (CurrentEpoch s) (PrevEpoch s))
        (replicate (nat (NumValidators s)) zero_pvalidator, zero_balance) of
     (_, Some err) \<Rightarrow> (None, Some (Wrap ''failed to initialize precompute'' err))
   | (r, None) \<Rightarrow> (Some r, None))"

subsection \<open>Attestations\<close>

record bitlist =
  bl_Len :: "u8 list \<Rightarrow> u64"
  bl_BitIndices :: "u8 list \<Rightarrow> nat list"

definition AttestingIndices :: "bitlist \<Rightarrow> u8 list \<Rightarrow> ValidatorIndex list \<Rightarrow> u64 list result" where
  "AttestingIndices bl bf committee =
    (if bl_Len bl bf \<noteq> of_nat (length committee) then ([], Some (Fresh ''bitfield length is not equal to committee length''))
     else (map (\<lambda>idx. committee ! idx) (filter (\<lambda>idx. idx < length committee) (bl_BitIndices bl bf)), None))"

definition SameTarget :: "BeaconState \<Rightarrow> PendingAttestation \<Rightarrow> Epoch \<Rightarrow> bool result" where
  "SameTarget s a e = (case BlockRoot s e of
     (_, Some err) \<Rightarrow> (False, Some err)
   | (r, None) \<Rightarrow> (c_Root (ad_Target (pa_Data a)) = r, None))"

definition SameHead :: "BeaconState \<Rightarrow> PendingAttestation \<Rightarrow> bool result" where
  "SameHead s a = (case BlockRootAtSlot s (ad_Slot (pa_Data a)) of
     (_, Some err) \<Rightarrow> (False, Some err)
   | (r, None) \<Rightarrow> (ad_BeaconBlockRoot (pa_Data a) = r, None))"

definition AttestedCurrentEpoch :: "BeaconState \<Rightarrow> PendingAttestation \<Rightarrow> (bool \<times> bool) result" where
  "AttestedCurrentEpoch s a =
    (let currentEpoch = CurrentEpoch s
     in if c_Epoch (ad_Target (pa_Data a)) = currentEpoch then
          (case SameTarget s a currentEpoch of
             (_, Some err) \<Rightarrow> ((False, False), Some err)
           | (same, None) \<Rightarrow> ((True, same), None))
        else ((False, False), None))"

definition AttestedPrevEpoch :: "BeaconState \<Rightarrow> PendingAttestation \<Rightarrow> (bool \<times> bool \<times> bool) result" where
  "AttestedPrevEpoch s a =
    (let prevEpoch = PrevEpoch s
     in if c_Epoch (ad_Target (pa_Data a)) = prevEpoch then
          (case SameTarget s a prevEpoch of
             (_, Some err) \<Rightarrow> ((False, False, False), Some (Wrap ''could not check same target'' err))
           | (False, None) \<Rightarrow> ((True, False, False), None)
           | (True, None) \<Rightarrow> (case SameHead s a of
               (_, Some err) \<Rightarrow> ((False, False, False), Some (Wrap ''could not check same head'' err))
             | (same, None) \<Rightarrow> ((True, True, same), None)))
        else ((False, False, False), None))"

text \<open>One turn of the loop of \<^verbatim>\<open>UpdateValidator\<close>, on the record of one attester.\<close>
definition mark_record :: "PValidator \<Rightarrow> PendingAttestation \<Rightarrow> Slot \<Rightarrow> PValidator \<Rightarrow> PValidator" where
  "mark_record record a aSlot v =
    (let inclusionSlot = aSlot + pa_InclusionDelay a;
         v = (if pv_IsCurrentEpochAttester record then v\<lparr>pv_IsCurrentEpochAttester := True\<rparr> else v);
         v = (if pv_IsCurrentEpochTargetAttester record then v\<lparr>pv_IsCurrentEpochTargetAttester := True\<rparr> else v);
         v = (if pv_IsPrevEpochAttester record then
                (let v = v\<lparr>pv_IsPrevEpochAttester := True\<rparr>
                 in if inclusionSlot < pv_InclusionSlot v
                    then v\<lparr>pv_InclusionSlot := aSlot + pa_InclusionDelay a, pv_InclusionDistance := pa_InclusionDelay a,
                           pv_ProposerIndex := pa_ProposerIndex a\<rparr>
                    else v)
              else v);
         v = (if pv_IsPrevEpochTargetAttester record then v\<lparr>pv_IsPrevEpochTargetAttester := True\<rparr> else v)
     in if pv_IsPrevEpochHeadAttester record then v\<lparr>pv_IsPrevEpochHeadAttester := True\<rparr> else v)"

text \<open>An index out of range is only used, and then panics, when some flag of the record is set.\<close>
definition record_any :: "PValidator \<Rightarrow> bool" where
  "record_any record \<longleftrightarrow> pv_IsCurrentEpochAttester record \<or> pv_IsCurrentEpochTargetAttester record
     \<or> pv_IsPrevEpochAttester record \<or> pv_IsPrevEpochTargetAttester record \<or> pv_IsPrevEpochHeadAttester record"

fun UpdateValidator ::
  "PValidator list \<Rightarrow> PValidator \<Rightarrow> u64 list \<Rightarrow> PendingAttestation \<Rightarrow> Slot \<Rightarrow> PValidator list outcome" where
  "UpdateValidator vp record [] a aSlot = Ret vp"
| "UpdateValidator vp record (i # indices) a aSlot =
    (if out_of_range vp i then (if record_any record then Panic else UpdateValidator vp record indices a aSlot)
     else UpdateValidator (vp[unat i := mark_record record a aSlot (vp ! unat i)]) record indices a aSlot)"

definition EnsureBalancesLowerBound :: "Balance \<Rightarrow> Balance" where
  "EnsureBalancesLowerBound bBal =
    (let ebi = EffectiveBalanceIncrement;
         b = (if ebi > pb_ActiveCurrentEpoch bBal then bBal\<lparr>pb_ActiveCurrentEpoch := ebi\<rparr> else bBal);
         b = (if ebi > pb_ActivePrevEpoch b then b\<lparr>pb_ActivePrevEpoch := ebi\<rparr> else b);
         b = (if ebi > pb_CurrentEpochAttested b then b\<lparr>pb_CurrentEpochAttested := ebi\<rparr> else b);
         b = (if ebi > pb_CurrentEpochTargetAttested b then b\<lparr>pb_CurrentEpochTargetAttested := ebi\<rparr> else b);
         b = (if ebi > pb_PrevEpochAttested b then b\<lparr>pb_PrevEpochAttested := ebi\<rparr> else b);
         b = (if ebi > pb_PrevEpochTargetAttested b then b\<lparr>pb_PrevEpochTargetAttested := ebi\<rparr> else b)
     in if ebi > pb_PrevEpochHeadAttested b then b\<lparr>pb_PrevEpochHeadAttested := ebi\<rparr> else b)"

definition add_balances :: "int \<Rightarrow> PValidator \<Rightarrow> Balance \<Rightarrow> Balance" where
  "add_balances stateVersion v b =
    (if pv_IsSlashed v then b else
      (let e = pv_CurrentEpochEffectiveBalance v;
           b = (if pv_IsCurrentEpochAttester v then b\<lparr>pb_CurrentEpochAttested := pb_CurrentEpochAttested b + e\<rparr> else b);
           b = (if pv_IsCurrentEpochTargetAttester v
                then b\<lparr>pb_CurrentEpochTargetAttested := pb_CurrentEpochTargetAttested b + e\<rparr> else b);
           b = (if stateVersion = Phase0 \<and> pv_IsPrevEpochAttester v
                then b\<lparr>pb_PrevEpochAttested := pb_PrevEpochAttested b + e\<rparr> else b);
           b = (if stateVersion \<ge> Altair \<and> pv_IsPrevEpochSourceAttester v
                then b\<lparr>pb_PrevEpochAttested := pb_PrevEpochAttested b + e\<rparr> else b);
           b = (if pv_IsPrevEpochTargetAttester v
                then b\<lparr>pb_PrevEpochTargetAttested := pb_PrevEpochTargetAttested b + e\<rparr> else b)
       in if pv_IsPrevEpochHeadAttester v then b\<lparr>pb_PrevEpochHeadAttested := pb_PrevEpochHeadAttested b + e\<rparr> else b))"

definition UpdateBalance :: "PValidator list \<Rightarrow> Balance \<Rightarrow> int \<Rightarrow> Balance" where
  "UpdateBalance vp bBal stateVersion = EnsureBalancesLowerBound (fold (add_balances stateVersion) vp bBal)"

fun attestations_loop ::
  "(u8 list \<Rightarrow> u8 list) \<Rightarrow> cache_view \<Rightarrow> bitlist \<Rightarrow> BeaconState \<Rightarrow> PendingAttestation list \<Rightarrow> PValidator list
    \<Rightarrow> PValidator list option result outcome" where
  "attestations_loop hash cv bl s [] vp = Ret (Some vp, None)"
| "attestations_loop hash cv bl s (a # atts) vp =
    (if pa_InclusionDelay a = 0 then Ret (None, Some (Fresh ''attestation with inclusion delay of 0''))
     else case AttestedCurrentEpoch s a of
       (_, Some err) \<Rightarrow> Ret (None, Some (Wrap ''could not check validator attested current epoch'' err))
     | ((currAtt, currTarget), None) \<Rightarrow> (case AttestedPrevEpoch s a of
         (_, Some err) \<Rightarrow> Ret (None, Some (Wrap ''could not check validator attested previous epoch'' err))
       | ((prevAtt, prevTarget, prevHead), None) \<Rightarrow>
           obind (BeaconCommitteeFromState hash cv s (ad_Slot (pa_Data a)) (ad_CommitteeIndex (pa_Data a))) (\<lambda>r. case r of
             (_, Some err) \<Rightarrow> Ret (None, Some err)
           | (committee, None) \<Rightarrow> (case AttestingIndices bl (pa_AggregationBits a) committee of
               (_, Some err) \<Rightarrow> Ret (None, Some err)
             | (indices, None) \<Rightarrow>
                 obind (UpdateValidator vp (zero_pvalidator\<lparr>pv_IsCurrentEpochAttester := currAtt,
                     pv_IsCurrentEpochTargetAttester := currTarget, pv_IsPrevEpochAttester := prevAtt,
                     pv_IsPrevEpochTargetAttester := prevTarget, pv_IsPrevEpochHeadAttester := prevHead\<rparr>)
                     indices a (ad_Slot (pa_Data a)))
                   (attestations_loop hash cv bl s atts)))))"

definition ProcessAttestations ::
  "(u8 list \<Rightarrow> u8 list) \<Rightarrow> cache_view \<Rightarrow> bitlist \<Rightarrow> BeaconState \<Rightarrow> PValidator list \<Rightarrow> Balance
    \<Rightarrow> (PValidator list \<times> Balance) option result outcome" where
  "ProcessAttestations hash cv bl s vp pBal = (case PreviousEpochAttestations s of
     (_, Some err) \<Rightarrow> Ret (None, Some err)
   | (prevAtt, None) \<Rightarrow> (case CurrentEpochAttestations s of
       (_, Some err) \<Rightarrow> Ret (None, Some err)
     | (curAtt, None) \<Rightarrow> obind (attestations_loop hash cv bl s (prevAtt @ curAtt) vp) (\<lambda>r. case r of
         (Some vp, None) \<Rightarrow> Ret (Some (vp, UpdateBalance vp pBal (bs_version s)), None)
       | (_, err) \<Rightarrow> Ret (None, err))))"

subsection \<open>Rewards and penalties\<close>

definition EligibleForRewards :: "PValidator \<Rightarrow> bool" where
  "EligibleForRewards v \<longleftrightarrow> pv_IsActivePrevEpoch v \<or> pv_IsSlashed v \<and> \<not> pv_IsWithdrawableCurrentEpoch v"

text \<open>
  The reward for one of the three votes: the base reward during an inactivity leak, and otherwise
  its share by the balance that voted the same way.
\<close>
definition vote_reward :: "u64 \<Rightarrow> u64 \<Rightarrow> u64 \<Rightarrow> bool \<Rightarrow> u64 outcome" where
  "vote_reward br attested currentEpochBalance leak =
    (if leak then Ret br
     else let rewardNumerator = br * (attested div EffectiveBalanceIncrement)
          in if currentEpochBalance = 0 then Panic else Ret (rewardNumerator div currentEpochBalance))"

text \<open>The finality delay penalty.\<close>
definition leak_penalty :: "u64 \<Rightarrow> PValidator \<Rightarrow> Epoch \<Rightarrow> Epoch \<Rightarrow> u64" where
  "leak_penalty br v prevEpoch finalizedEpoch =
    (if IsInInactivityLeak prevEpoch finalizedEpoch then
       (let proposerReward = br div ProposerRewardQuotient;
            p = BaseRewardsPerEpoch * br - proposerReward
        in if \<not> pv_IsPrevEpochTargetAttester v \<or> pv_IsSlashed v
           then p + pv_CurrentEpochEffectiveBalance v * FinalityDelay prevEpoch finalizedEpoch div InactivityPenaltyQuotient
           else p)
     else 0)"

definition attestationDelta :: "Balance \<Rightarrow> u64 \<Rightarrow> PValidator \<Rightarrow> Epoch \<Rightarrow> Epoch \<Rightarrow> (u64 \<times> u64) outcome" where
  "attestationDelta pBal sqrtActiveCurrentEpoch v prevEpoch finalizedEpoch =
    (if \<not> EligibleForRewards v \<or> pb_ActiveCurrentEpoch pBal = 0 then Ret (0, 0)
     else if sqrtActiveCurrentEpoch = 0 then Panic
     else
       let vb = pv_CurrentEpochEffectiveBalance v;
           br = vb * BaseRewardFactor div sqrtActiveCurrentEpoch div BaseRewardsPerEpoch;
           currentEpochBalance = pb_ActiveCurrentEpoch pBal div EffectiveBalanceIncrement;
           leak = IsInInactivityLeak prevEpoch finalizedEpoch
       in obind (if pv_IsPrevEpochAttester v \<and> \<not> pv_IsSlashed v then
              (let proposerReward = br div ProposerRewardQuotient;
                   maxAttesterReward = br - proposerReward
               in if pv_InclusionDistance v = 0 then Panic
                  else obind (vote_reward br (pb_PrevEpochAttested pBal) currentEpochBalance leak) (\<lambda>x.
                    Ret (maxAttesterReward div pv_InclusionDistance v + x, 0)))
            else Ret (0, br)) (\<lambda>(r, p).
          obind (if pv_IsPrevEpochTargetAttester v \<and> \<not> pv_IsSlashed v then
              obind (vote_reward br (pb_PrevEpochTargetAttested pBal) currentEpochBalance leak) (\<lambda>x. Ret (r + x, p))
            else Ret (r, p + br)) (\<lambda>(r, p).
          obind (if pv_IsPrevEpochHeadAttester v \<and> \<not> pv_IsSlashed v then
              obind (vote_reward br (pb_PrevEpochHeadAttested pBal) currentEpochBalance leak) (\<lambda>x. Ret (r + x, p))
            else Ret (r, p + br)) (\<lambda>(r, p).
          Ret (r, p + leak_penalty br v prevEpoch finalizedEpoch)))))"

fun deltas_loop ::
  "Balance \<Rightarrow> u64 \<Rightarrow> Epoch \<Rightarrow> Epoch \<Rightarrow> nat \<Rightarrow> PValidator list \<Rightarrow> u64 list \<times> u64 list \<Rightarrow> (u64 list \<times> u64 list) outcome" where
  "deltas_loop pBal sq prevEpoch finalizedEpoch i [] rp = Ret rp"
| "deltas_loop pBal sq prevEpoch finalizedEpoch i (v # vp) (rewards, penalties) =
    obind (attestationDelta pBal sq v prevEpoch finalizedEpoch) (\<lambda>(r, p).
      if length rewards \<le> i then Panic
      else deltas_loop pBal sq prevEpoch finalizedEpoch (Suc i) vp (rewards[i := r], penalties[i := p]))"

text \<open>The square root is cached in a variable of the package, which is threaded through.\<close>
type_synonym attesterRewardsFunc =
  "sqrt_cache \<Rightarrow> BeaconState \<Rightarrow> Balance \<Rightarrow> PValidator list \<Rightarrow> (sqrt_cache \<times> (u64 list \<times> u64 list) result) outcome"
type_synonym proposerRewardsFunc =
  "sqrt_cache \<Rightarrow> BeaconState \<Rightarrow> Balance \<Rightarrow> PValidator list \<Rightarrow> (sqrt_cache \<times> u64 list result) outcome"

definition AttestationsDelta :: attesterRewardsFunc where
  "AttestationsDelta c s pBal vp =
    (let numOfVals = nat (NumValidators s)
     in obind (CachedSquareRoot c (pb_ActiveCurrentEpoch pBal)) (\<lambda>(c, sq).
        obind (deltas_loop pBal sq (PrevEpoch s) (c_Epoch (bs_finalizedCheckpoint s)) 0 vp
            (replicate numOfVals 0, replicate numOfVals 0)) (\<lambda>rp. Ret (c, rp, None))))"

fun proposers_delta_loop :: "u64 \<Rightarrow> PValidator list \<Rightarrow> u64 list \<Rightarrow> u64 list result" where
  "proposers_delta_loop balanceSqrt [] rewards = (rewards, None)"
| "proposers_delta_loop balanceSqrt (v # vp) rewards =
    (if out_of_range rewards (pv_ProposerIndex v) then ([], Some (Fresh ''proposer index out of range''))
     else if pv_IsPrevEpochAttester v \<and> \<not> pv_IsSlashed v then
       (let baseReward = pv_CurrentEpochEffectiveBalance v * BaseRewardFactor div balanceSqrt div BaseRewardsPerEpoch;
            proposerReward = baseReward div ProposerRewardQuotient;
            j = unat (pv_ProposerIndex v)
        in proposers_delta_loop balanceSqrt vp (rewards[j := rewards ! j + proposerReward]))
     else proposers_delta_loop balanceSqrt vp rewards)"

definition ProposersDelta :: proposerRewardsFunc where
  "ProposersDelta c s pBal vp =
    obind (CachedSquareRoot c (pb_ActiveCurrentEpoch pBal)) (\<lambda>(c, balanceSqrt).
      let balanceSqrt = (if balanceSqrt = 0 then 1 else balanceSqrt)
      in Ret (c, proposers_delta_loop balanceSqrt vp (replicate (nat (NumValidators s)) 0)))"

fun rewards_loop ::
  "u64 list \<Rightarrow> u64 list \<Rightarrow> u64 list \<Rightarrow> nat list \<Rightarrow> u64 list \<times> PValidator list \<Rightarrow> (u64 list \<times> PValidator list) result outcome" where
  "rewards_loop attsRewards attsPenalties proposerRewards [] (validatorBals, vp) = Ret ((validatorBals, vp), None)"
| "rewards_loop attsRewards attsPenalties proposerRewards (i # is) (validatorBals, vp) =
    (let b = validatorBals ! i; vp = vp[i := (vp ! i)\<lparr>pv_BeforeEpochTransitionBalance := b\<rparr>]
     in if length attsRewards \<le> i \<or> length proposerRewards \<le> i then Panic
        else case IncreaseBalanceWithVal b (attsRewards ! i + proposerRewards ! i) of
          (b, Some err) \<Rightarrow> Ret ((validatorBals[i := b], vp), Some err)
        | (b, None) \<Rightarrow>
            if length attsPenalties \<le> i then Panic
            else let b = DecreaseBalanceWithVal b (attsPenalties ! i)
                 in rewards_loop attsRewards attsPenalties proposerRewards is
                      (validatorBals[i := b], vp[i := (vp ! i)\<lparr>pv_AfterEpochTransitionBalance := b\<rparr>]))"

text \<open>Results: the square root cache, the records, and the state.\<close>
definition ProcessRewardsAndPenaltiesPrecompute ::
  "sqrt_cache \<Rightarrow> BeaconState \<Rightarrow> Balance \<Rightarrow> PValidator list \<Rightarrow> attesterRewardsFunc \<Rightarrow> proposerRewardsFunc
    \<Rightarrow> (sqrt_cache \<times> PValidator list \<times> BeaconState \<times> go_error option) outcome" where
  "ProcessRewardsAndPenaltiesPrecompute c s pBal vp attRewardsFunc proRewardsFunc =
    (if CurrentEpoch s = 0 then Ret (c, vp, s, None)
     else let numOfVals = NumValidators s
       in if int (length vp) \<noteq> numOfVals \<or> int (length vp) \<noteq> BalancesLength s
          then Ret (c, vp, s, Some (Fresh ''precomputed registries not the same length as state registries''))
          else obind (attRewardsFunc c s pBal vp) (\<lambda>r. case r of
            (c, _, Some err) \<Rightarrow> Ret (c, vp, s, Some (Wrap ''could not get attester attestation delta'' err))
          | (c, (attsRewards, attsPenalties), None) \<Rightarrow> obind (proRewardsFunc c s pBal vp) (\<lambda>r. case r of
              (c, _, Some err) \<Rightarrow> Ret (c, vp, s, Some (Wrap ''could not get proposer attestation delta'' err))
            | (c, proposerRewards, None) \<Rightarrow>
                obind (rewards_loop attsRewards attsPenalties proposerRewards [0..<nat numOfVals] (bals s, vp)) (\<lambda>r. case r of
                  ((_, vp), Some err) \<Rightarrow> Ret (c, vp, s, Some err)
                | ((validatorBals, vp), None) \<Rightarrow> Ret (c, vp, SetBalances (Some validatorBals) s, None)))))"

subsection \<open>Slashings\<close>

definition to_slash :: "Epoch \<Rightarrow> Validator \<Rightarrow> bool" where
  "to_slash epochToWithdraw val \<longleftrightarrow> v_Slashed val \<and> epochToWithdraw = v_WithdrawableEpoch val"

text \<open>The callback of both slashing functions, for a total balance that is not zero.\<close>
definition slashing_func ::
  "Epoch \<Rightarrow> u64 \<Rightarrow> u64 \<Rightarrow> nat \<Rightarrow> Validator \<Rightarrow> BeaconState \<Rightarrow> ((bool \<times> Validator) \<times> BeaconState) result" where
  "slashing_func epochToWithdraw minSlashing totalBalance idx val s =
    (if to_slash epochToWithdraw val then
       (let penaltyNumerator = v_EffectiveBalance val div EffectiveBalanceIncrement * minSlashing;
            penalty = penaltyNumerator div totalBalance * EffectiveBalanceIncrement
        in case DecreaseBalance (of_nat idx) penalty s of
             (s, Some err) \<Rightarrow> (((False, val), s), Some err)
           | (s, None) \<Rightarrow> (((True, val), s), None))
     else (((False, val), s), None))"

text \<open>A zero total balance makes the first division, at the first validator to slash, panic.\<close>
definition ProcessSlashingsPrecompute :: "Balance \<Rightarrow> BeaconState \<Rightarrow> (BeaconState \<times> go_error option) outcome" where
  "ProcessSlashingsPrecompute pBal s =
    (let totalSlashing = fold (\<lambda>slashing t. t + slashing) (bs_slashings s) 0;
         minSlashing = math_Min (totalSlashing * ProportionalSlashingMultiplier) (pb_ActiveCurrentEpoch pBal);
         epochToWithdraw = CurrentEpoch s + EpochsPerSlashingsVector div 2
     in case ReadFromEveryValidator s (\<lambda>idx val h. (h \<or> to_slash epochToWithdraw val, None)) False of
          (_, Some err) \<Rightarrow> Ret (s, Some err)
        | (False, None) \<Rightarrow> Ret (s, None)
        | (True, None) \<Rightarrow>
            if pb_ActiveCurrentEpoch pBal = 0 then Panic
            else Ret (ApplyToEveryValidator (slashing_func epochToWithdraw minSlashing (pb_ActiveCurrentEpoch pBal)) s))"

subsection \<open>Facts about the records\<close>

definition dist_ok :: "PValidator list \<Rightarrow> bool" where
  "dist_ok vp \<longleftrightarrow> (\<forall>v \<in> set vp. pv_InclusionDistance v \<noteq> 0)"

lemma dist_ok_update: "dist_ok vp \<Longrightarrow> pv_InclusionDistance v \<noteq> 0 \<Longrightarrow> dist_ok (vp[i := v])"
  using set_update_subset_insert [of vp i v] by (auto simp: dist_ok_def)

lemma mark_record_dist:
  "pa_InclusionDelay a \<noteq> 0 \<Longrightarrow> pv_InclusionDistance v \<noteq> 0 \<Longrightarrow> pv_InclusionDistance (mark_record r a sl v) \<noteq> 0"
  by (simp add: mark_record_def Let_def)

lemma UpdateValidator_keeps:
  "UpdateValidator vp r indices a sl = Ret vp' \<Longrightarrow> dist_ok vp \<Longrightarrow> pa_InclusionDelay a \<noteq> 0 \<Longrightarrow>
   dist_ok vp' \<and> length vp' = length vp"
proof (induction vp r indices a sl rule: UpdateValidator.induct)
  case (2 vp r i indices a sl)
  show ?case
  proof (cases "out_of_range vp i")
    case False
    then have "vp ! unat i \<in> set vp" by (simp add: out_of_range_def)
    then have "dist_ok (vp[unat i := mark_record r a sl (vp ! unat i)])"
      using 2(4,5) by (intro dist_ok_update mark_record_dist) (auto simp: dist_ok_def)
    then show ?thesis using 2 False by simp
  qed (use 2 in \<open>simp split: if_splits\<close>)
qed simp

lemma attestations_loop_keeps:
  "attestations_loop hash cv bl s atts vp = Ret (Some vp', None) \<Longrightarrow> dist_ok vp \<Longrightarrow>
   dist_ok vp' \<and> length vp' = length vp"
proof (induction atts arbitrary: vp)
  case (Cons a atts)
  from Cons.prems(1) have d: "pa_InclusionDelay a \<noteq> 0" by auto
  obtain r indices vp1 where u: "UpdateValidator vp r indices a (ad_Slot (pa_Data a)) = Ret vp1"
    and l: "attestations_loop hash cv bl s atts vp1 = Ret (Some vp', None)"
    using Cons.prems(1) d
    by (cases "AttestedCurrentEpoch s a"; cases "AttestedPrevEpoch s a")
      (auto simp: obind_Ret_iff split: prod.split_asm option.split_asm if_split_asm, metis option.distinct(1) surj_pair)
  show ?case using UpdateValidator_keeps [OF u Cons.prems(2) d] Cons.IH [OF l] by simp
qed simp

lemma EnsureBalancesLowerBound_active:
  "pb_ActiveCurrentEpoch (EnsureBalancesLowerBound b) = math_Max EffectiveBalanceIncrement (pb_ActiveCurrentEpoch b)"
  by (simp add: EnsureBalancesLowerBound_def math_Max_def Let_def)

lemma add_balances_active [simp]: "pb_ActiveCurrentEpoch (fold (add_balances ver) vp b) = pb_ActiveCurrentEpoch b"
  by (induction vp arbitrary: b) (simp_all add: add_balances_def Let_def)

lemma UpdateBalance_active:
  "pb_ActiveCurrentEpoch (UpdateBalance vp b ver) = math_Max EffectiveBalanceIncrement (pb_ActiveCurrentEpoch b)"
  by (simp add: UpdateBalance_def EnsureBalancesLowerBound_active)

lemma ProcessAttestations_keeps:
  assumes "ProcessAttestations hash cv bl s vp b = Ret (Some (vp', b'), None)" "dist_ok vp"
  shows "dist_ok vp'" "length vp' = length vp"
    "pb_ActiveCurrentEpoch b' = math_Max EffectiveBalanceIncrement (pb_ActiveCurrentEpoch b)"
proof -
  obtain atts where l: "attestations_loop hash cv bl s atts vp = Ret (Some vp', None)"
    and b: "b' = UpdateBalance vp' b (bs_version s)"
    using assms(1) by (auto simp: ProcessAttestations_def obind_Ret_iff split: prod.splits option.splits)
  show "dist_ok vp'" "length vp' = length vp" using attestations_loop_keeps [OF l assms(2)] by simp_all
  show "pb_ActiveCurrentEpoch b' = math_Max EffectiveBalanceIncrement (pb_ActiveCurrentEpoch b)"
    by (simp add: b UpdateBalance_active)
qed

lemma new_fold:
  "length vs \<le> length p - k \<Longrightarrow>
   fst (fold (\<lambda>(i, v) x. fst (new_step ce pe i v x)) (enumerate k vs) (p, b))
     = take k p @ map (new_record ce pe) vs @ drop (k + length vs) p"
proof (induction vs arbitrary: k p b)
  case (Cons v vs)
  have k: "k < length p" using Cons.prems by simp
  obtain b' where b': "fst (new_step ce pe k v (p, b)) = (p[k := new_record ce pe v], b')"
    by (simp add: new_step_def Let_def)
  have t: "take (Suc k) (p[k := x]) = take k p @ [x]" for x using k by (simp add: take_Suc_conv_app_nth)
  show ?case using Cons.IH [of "p[k := new_record ce pe v]" "Suc k" b'] Cons.prems k
    by (simp add: b' t)
qed simp

lemma new_fold_active:
  "pb_ActiveCurrentEpoch (snd (fold (\<lambda>(i, v) x. fst (new_step ce pe i v x)) (enumerate k vs) (p, b)))
    = fold (\<lambda>(i, v) t. if IsActiveValidatorUsingTrie v ce then t + v_EffectiveBalance v else t) (enumerate k vs)
        (pb_ActiveCurrentEpoch b)"
proof (induction vs arbitrary: k p b)
  case (Cons v vs)
  obtain p' b' where b': "fst (new_step ce pe k v (p, b)) = (p', b')" by fastforce
  then have "pb_ActiveCurrentEpoch b' = (if IsActiveValidatorUsingTrie v ce then pb_ActiveCurrentEpoch b + v_EffectiveBalance v
    else pb_ActiveCurrentEpoch b)" by (auto simp: new_step_def Let_def split: if_splits)
  then show ?case using Cons.IH [of "Suc k" p' b'] by (simp add: b')
qed simp

lemma New_precompute_eq:
  assumes "bs_validators s = Some vs"
  obtains b where "New_precompute s = (Some (map (new_record (CurrentEpoch s) (PrevEpoch s)) vs, b), None)"
    and "pb_ActiveCurrentEpoch b = fold (\<lambda>(i, v) t. if IsActiveValidatorUsingTrie v (CurrentEpoch s)
        then t + v_EffectiveBalance v else t) (enumerate 0 vs) 0"
proof -
  let ?f = "new_step (CurrentEpoch s) (PrevEpoch s)"
  let ?r = "fold (\<lambda>(i, v) x. fst (?f i v x)) (enumerate 0 vs) (replicate (length vs) zero_pvalidator, zero_balance)"
  have "read_every ?f 0 vs (replicate (length vs) zero_pvalidator, zero_balance) = (?r, None)"
    by (intro read_every_fold) (simp add: new_step_def split: prod.splits)
  then have n: "New_precompute s = (Some ?r, None)"
    by (simp add: New_precompute_def ReadFromEveryValidator_def assms NumValidators_def vals_def)
  have "fst ?r = map (new_record (CurrentEpoch s) (PrevEpoch s)) vs"
    using new_fold [of vs "replicate (length vs) zero_pvalidator" 0] by simp
  then have "?r = (map (new_record (CurrentEpoch s) (PrevEpoch s)) vs, snd ?r)" by (metis prod.collapse)
  with n show thesis using new_fold_active [of "CurrentEpoch s" "PrevEpoch s" 0 vs "replicate (length vs) zero_pvalidator" zero_balance]
    that [of "snd ?r"] by (simp add: zero_balance_def)
qed

lemma New_precompute_ok:
  assumes "New_precompute s = (Some (vp, b), None)"
  shows "dist_ok vp" "length vp = length (vals s)"
proof -
  obtain vs where vs: "bs_validators s = Some vs"
    using assms by (cases "bs_validators s") (auto simp: New_precompute_def ReadFromEveryValidator_def)
  obtain b' where "New_precompute s = (Some (map (new_record (CurrentEpoch s) (PrevEpoch s)) vs, b'), None)"
    by (rule New_precompute_eq [OF vs])
  then have "vp = map (new_record (CurrentEpoch s) (PrevEpoch s)) vs" using assms by simp
  then show "dist_ok vp" "length vp = length (vals s)"
    by (auto simp: dist_ok_def new_record_def FarFutureSlot_def vals_def vs)
qed

subsection \<open>No panic\<close>

lemma vote_reward_eq:
  "q \<noteq> 0 \<Longrightarrow> vote_reward br a q l = Ret (if l then br else br * (a div EffectiveBalanceIncrement) div q)"
  by (simp add: vote_reward_def Let_def)

lemma active_increments: "EffectiveBalanceIncrement \<le> a \<Longrightarrow> a div EffectiveBalanceIncrement \<noteq> 0"
  by (simp add: EffectiveBalanceIncrement_def unat_div word_unat_eq_iff word_le_nat_alt div_eq_0_iff)

lemma attestationDelta_returns:
  assumes "pv_InclusionDistance v \<noteq> 0" "sq \<noteq> 0" "EffectiveBalanceIncrement \<le> pb_ActiveCurrentEpoch b"
  shows "\<exists>rp. attestationDelta b sq v pe fe = Ret rp"
  unfolding attestationDelta_def Let_def
  using assms(1,2) by (simp add: vote_reward_eq active_increments [OF assms(3)])

lemma deltas_loop_returns:
  assumes "dist_ok vp" "sq \<noteq> 0" "EffectiveBalanceIncrement \<le> pb_ActiveCurrentEpoch b"
    and "i + length vp \<le> length rs" "length ps = length rs"
  shows "\<exists>rs' ps'. deltas_loop b sq pe fe i vp (rs, ps) = Ret (rs', ps') \<and> length rs' = length rs \<and> length ps' = length rs"
  using assms(1,4,5)
proof (induction vp arbitrary: i rs ps)
  case (Cons v vp)
  have "pv_InclusionDistance v \<noteq> 0" using Cons.prems(1) by (simp add: dist_ok_def)
  then obtain r p where "attestationDelta b sq v pe fe = Ret (r, p)"
    using attestationDelta_returns [OF _ assms(2,3)] by (metis prod.exhaust)
  moreover have "dist_ok vp" using Cons.prems(1) by (simp add: dist_ok_def)
  ultimately show ?case using Cons.IH [of "Suc i" "rs[i := r]" "ps[i := p]"] Cons.prems by simp
qed simp

lemma proposers_delta_loop_length: "proposers_delta_loop sq vp rs = (rs', None) \<Longrightarrow> length rs' = length rs"
  by (induction vp arbitrary: rs) (auto simp: Let_def split: if_splits)

lemma rewards_loop_returns:
  assumes "\<forall>i \<in> set is. i < length rs \<and> i < length qs \<and> i < length ps"
  shows "\<exists>r. rewards_loop rs ps qs is (bs, vp) = Ret r"
  using assms by (induction "is" arbitrary: bs vp) (auto simp: Let_def split: option.split prod.split)

text \<open>The balance of one validator after the epoch.\<close>
abbreviation settled :: "u64 \<Rightarrow> u64 \<Rightarrow> u64 \<Rightarrow> u64 \<Rightarrow> nat" where
  "settled b r q p \<equiv> unat b + unat (r + q) - unat p"

lemma Add64_nat: "Add64 a b = (c, None) \<Longrightarrow> unat c = unat a + unat b"
  by (auto simp: Add64_def unat_add_no_wrap split: if_splits)

lemma rewards_loop_ok:
  assumes "rewards_loop rs ps qs is (bs, vp) = Ret ((bs', vp'), None)" "distinct is" "\<forall>i \<in> set is. i < length bs"
  shows "length bs' = length bs \<and> length vp' = length vp
    \<and> (\<forall>i < length bs. unat (bs' ! i) = (if i \<in> set is then settled (bs ! i) (rs ! i) (qs ! i) (ps ! i) else unat (bs ! i)))"
  using assms
proof (induction "is" arbitrary: bs vp)
  case (Cons j js)
  obtain b vp1 where b: "Add64 (bs ! j) (rs ! j + qs ! j) = (b, None)" and v: "length vp1 = length vp"
    and l: "rewards_loop rs ps qs js (bs[j := DecreaseBalanceWithVal b (ps ! j)], vp1) = Ret ((bs', vp'), None)"
    using Cons.prems(1) by (cases "Add64 (bs ! j) (rs ! j + qs ! j)"; cases "snd (Add64 (bs ! j) (rs ! j + qs ! j))")
      (auto simp: IncreaseBalanceWithVal_def Let_def split: if_splits, metis length_list_update)
  show ?case using Cons.IH [OF l] Cons.prems(2,3) Add64_nat [OF b] v by (auto simp: DecreaseBalanceWithVal_nat nth_list_update)
qed simp

lemma CachedSquareRoot_squareRoot: "CachedSquareRoot c b = Ret (c', r) \<Longrightarrow> b \<noteq> 0 \<Longrightarrow> squareRoot c' = r"
  by (auto simp: CachedSquareRoot_def obind_Ret_iff split: if_splits)

text \<open>A cache in which the first Newton step cannot wrap around.\<close>
definition sqrt_ready :: "sqrt_cache \<Rightarrow> bool" where
  "sqrt_ready c \<longleftrightarrow> sqrt_cache_ok c \<and> squareRoot c \<noteq> 1"

lemma CachedSquareRoot_ready:
  assumes "sqrt_ready c" "EffectiveBalanceIncrement \<le> b"
  obtains c' r where "CachedSquareRoot c b = Ret (c', r)" "sqrt_ready c'" "r \<noteq> 0" "is_isqrt (unat b) (unat r)"
proof -
  obtain c' r where r: "CachedSquareRoot c b = Ret (c', r)" "is_isqrt (unat b) (unat r)" "sqrt_cache_ok c'"
    using CachedSquareRoot_ok [of c b] assms(1) by (auto simp: sqrt_ready_def)
  have b: "1000000000 \<le> unat b" using assms(2) by (simp add: EffectiveBalanceIncrement_def word_le_nat_alt)
  have r2: "2 \<le> unat r"
  proof (rule ccontr)
    assume "\<not> 2 \<le> unat r"
    then have "unat r = 0 \<or> unat r = 1" by auto
    then show False using r(2) b by (auto simp: is_isqrt_def)
  qed
  then have "r \<noteq> 0" "r \<noteq> 1" by auto
  moreover have "squareRoot c' = r" using CachedSquareRoot_squareRoot [OF r(1)] b by (cases "b = 0") auto
  ultimately show thesis using that r by (auto simp: sqrt_ready_def)
qed

lemma AttestationsDelta_returns:
  assumes "dist_ok vp" "length vp = length (vals s)" "EffectiveBalanceIncrement \<le> pb_ActiveCurrentEpoch b" "sqrt_ready c"
  obtains c' rs ps where "AttestationsDelta c s b vp = Ret (c', (rs, ps), None)" "sqrt_ready c'"
    "length rs = length (vals s)" "length ps = length (vals s)"
proof -
  let ?z = "replicate (length (vals s)) 0"
  obtain c' sq where c: "CachedSquareRoot c (pb_ActiveCurrentEpoch b) = Ret (c', sq)" "sqrt_ready c'" "sq \<noteq> 0"
    using CachedSquareRoot_ready [OF assms(4,3)] by metis
  obtain rs ps where "deltas_loop b sq (PrevEpoch s) (c_Epoch (bs_finalizedCheckpoint s)) 0 vp (?z, ?z) = Ret (rs, ps)"
    "length rs = length (vals s)" "length ps = length (vals s)"
    using deltas_loop_returns [OF assms(1) c(3) assms(3), of 0 ?z ?z] assms(2) by force
  then show thesis using that c by (simp add: AttestationsDelta_def NumValidators_def)
qed

lemma ProposersDelta_returns:
  assumes "EffectiveBalanceIncrement \<le> pb_ActiveCurrentEpoch b" "sqrt_ready c"
  obtains c' qs e where "ProposersDelta c s b vp = Ret (c', qs, e)" "sqrt_ready c'" "e = None \<longrightarrow> length qs = length (vals s)"
proof -
  obtain c' sq where c: "CachedSquareRoot c (pb_ActiveCurrentEpoch b) = Ret (c', sq)" "sqrt_ready c'" "sq \<noteq> 0"
    using CachedSquareRoot_ready [OF assms(2,1)] by metis
  obtain qs e where p: "proposers_delta_loop sq vp (replicate (length (vals s)) 0) = (qs, e)" by fastforce
  then have "e = None \<longrightarrow> length qs = length (vals s)" using proposers_delta_loop_length by fastforce
  then show thesis using that c p by (simp add: ProposersDelta_def NumValidators_def)
qed

lemma le_math_Max: "a \<le> math_Max a b"
  by (auto simp: math_Max_def)

text \<open>
  Rewards and penalties never panic: on the records made by \<^verbatim>\<open>New\<close> and marked by
  \<^verbatim>\<open>ProcessAttestations\<close>, for any attestations, committees and bit lists, with a square root cache as it is
  after any earlier call, \<^verbatim>\<open>ProcessRewardsAndPenaltiesPrecompute\<close> returns: none of its divisions is by zero
  and no slice index is out of range. When it reports no error after the first epoch, every balance has
  become the old balance plus rewards minus penalty, and zero if that is negative; nothing else of the state
  has changed.
\<close>
theorem rewards_never_panic:
  assumes "New_precompute s = (Some (vp0, b0), None)"
    and "ProcessAttestations hash cv bl s vp0 b0 = Ret (Some (vp, pBal), None)" and "sqrt_ready c"
  shows "\<exists>c' vp' s' err. ProcessRewardsAndPenaltiesPrecompute c s pBal vp AttestationsDelta ProposersDelta = Ret (c', vp', s', err)
    \<and> sqrt_ready c' \<and> s' = s\<lparr>bs_balances := bs_balances s'\<rparr>
    \<and> (err = None \<and> CurrentEpoch s \<noteq> 0 \<longrightarrow> (\<exists>c1 c2 rs ps qs. AttestationsDelta c s pBal vp = Ret (c1, (rs, ps), None)
        \<and> ProposersDelta c1 s pBal vp = Ret (c2, qs, None) \<and> length (bals s') = length (bals s)
        \<and> (\<forall>i < length (bals s). unat (bals s' ! i) = unat (bals s ! i) + unat (rs ! i + qs ! i) - unat (ps ! i))))"
proof (cases "CurrentEpoch s = 0 \<or> length vp \<noteq> length (vals s) \<or> length vp \<noteq> length (bals s)")
  case True
  then show ?thesis
    using assms(3) by (auto simp: ProcessRewardsAndPenaltiesPrecompute_def NumValidators_def BalancesLength_def)
next
  case False
  have v: "dist_ok vp" "length vp = length (vals s)" and b: "EffectiveBalanceIncrement \<le> pb_ActiveCurrentEpoch pBal"
    using ProcessAttestations_keeps [OF assms(2)] New_precompute_ok [OF assms(1)] le_math_Max by simp_all
  let ?n = "length (vals s)"
  obtain c1 rs ps where att: "AttestationsDelta c s pBal vp = Ret (c1, (rs, ps), None)" and c1: "sqrt_ready c1"
    and l: "length rs = ?n" "length ps = ?n"
    by (rule AttestationsDelta_returns [OF v b assms(3)])
  obtain c2 qs e where pro: "ProposersDelta c1 s pBal vp = Ret (c2, qs, e)" and c2: "sqrt_ready c2"
    and lq: "e = None \<longrightarrow> length qs = ?n"
    by (rule ProposersDelta_returns [OF b c1, of s vp])
  note run = ProcessRewardsAndPenaltiesPrecompute_def NumValidators_def BalancesLength_def att pro
  show ?thesis
  proof (cases e)
    case (Some err)
    then show ?thesis using False c2 by (simp add: run)
  next
    case None
    then obtain bs' vp' e' where r: "rewards_loop rs ps qs [0..<?n] (bals s, vp) = Ret ((bs', vp'), e')"
      using rewards_loop_returns [of "[0..<?n]" rs qs ps "bals s" vp] l lq by auto
    show ?thesis
    proof (cases e')
      case (Some err)
      then show ?thesis using False c2 None r by (simp add: run)
    next
      case None
      then have "ProcessRewardsAndPenaltiesPrecompute c s pBal vp AttestationsDelta ProposersDelta
          = Ret (c2, vp', SetBalances (Some bs') s, None)"
        using False \<open>e = None\<close> r by (simp add: run)
      then show ?thesis
        using rewards_loop_ok [OF r [unfolded None]] False c2 att pro \<open>e = None\<close>
        by (simp add: SetBalances_def bals_def) 
    qed
  qed
qed

subsection \<open>The specification of the deltas\<close>

text \<open>
  The deltas of the phase 0 specification, on natural numbers: the base reward, and for one eligible
  validator its rewards and its penalties.
\<close>
definition spec_base_reward :: "nat \<Rightarrow> nat \<Rightarrow> nat" where
  "spec_base_reward eff sq = eff * 64 div sq div 4"

definition spec_vote_reward :: "nat \<Rightarrow> nat \<Rightarrow> nat \<Rightarrow> bool \<Rightarrow> nat" where
  "spec_vote_reward br attested tot leak =
    (if leak then br else br * (attested div 1000000000) div (tot div 1000000000))"

definition spec_reward :: "nat \<Rightarrow> nat \<Rightarrow> PValidator \<Rightarrow> Balance \<Rightarrow> bool \<Rightarrow> nat" where
  "spec_reward br tot v b leak =
    (let ok = \<not> pv_IsSlashed v
     in (if ok \<and> pv_IsPrevEpochAttester v
         then (br - br div 8) div unat (pv_InclusionDistance v) + spec_vote_reward br (unat (pb_PrevEpochAttested b)) tot leak else 0)
      + (if ok \<and> pv_IsPrevEpochTargetAttester v then spec_vote_reward br (unat (pb_PrevEpochTargetAttested b)) tot leak else 0)
      + (if ok \<and> pv_IsPrevEpochHeadAttester v then spec_vote_reward br (unat (pb_PrevEpochHeadAttested b)) tot leak else 0))"

definition spec_penalty :: "nat \<Rightarrow> PValidator \<Rightarrow> bool \<Rightarrow> nat \<Rightarrow> nat" where
  "spec_penalty br v leak delay =
    (let ok = \<not> pv_IsSlashed v; miss = (\<lambda>x. if ok \<and> x then 0 else br)
     in miss (pv_IsPrevEpochAttester v) + miss (pv_IsPrevEpochTargetAttester v) + miss (pv_IsPrevEpochHeadAttester v)
      + (if leak then 4 * br - br div 8
           + (if ok \<and> pv_IsPrevEpochTargetAttester v then 0
              else unat (pv_CurrentEpochEffectiveBalance v) * delay div 67108864)
         else 0))"

lemma base_reward_nat:
  fixes eff sq :: u64
  assumes "unat eff \<le> 32000000000" "31622 \<le> unat sq"
  shows "unat (eff * BaseRewardFactor div sq div BaseRewardsPerEpoch) = spec_base_reward (unat eff) (unat sq)"
    and "spec_base_reward (unat eff) (unat sq) \<le> 16191259"
proof -
  have m: "unat (eff * 64) = unat eff * 64" using assms(1) by (simp add: unat_mult_no_wrap)
  then show "unat (eff * BaseRewardFactor div sq div BaseRewardsPerEpoch) = spec_base_reward (unat eff) (unat sq)"
    by (simp add: BaseRewardFactor_def BaseRewardsPerEpoch_def spec_base_reward_def unat_div)
  have "unat eff * 64 div unat sq \<le> 2048000000000 div 31622"
    using assms by (intro order.trans [OF div_le_mono2 [of 31622] div_le_mono]) auto
  then have "unat eff * 64 div unat sq div 4 \<le> 2048000000000 div 31622 div 4" by (rule div_le_mono)
  then show "spec_base_reward (unat eff) (unat sq) \<le> 16191259" by (simp add: spec_base_reward_def)
qed

lemma vote_reward_nat:
  fixes br a t :: u64
  assumes "unat br \<le> 16191259" "EffectiveBalanceIncrement \<le> t"
  obtains x where "vote_reward br a (t div EffectiveBalanceIncrement) l = Ret x"
    "unat x = spec_vote_reward (unat br) (unat a) (unat t) l" "unat x \<le> 2 ^ 60"
proof -
  have a: "unat a div 1000000000 \<le> 18446744073" using unat_u64_lt [of a] by linarith
  have p: "unat br * (unat a div 1000000000) \<le> 16191259 * 18446744073" using assms(1) a by (rule mult_le_mono)
  have m: "unat (br * (a div 1000000000)) = unat br * (unat a div 1000000000)"
    using p by (subst unat_mult_no_wrap) (simp_all add: unat_div)
  let ?x = "if l then br else br * (a div EffectiveBalanceIncrement) div (t div EffectiveBalanceIncrement)"
  have "unat ?x = spec_vote_reward (unat br) (unat a) (unat t) l"
    by (simp add: spec_vote_reward_def EffectiveBalanceIncrement_def unat_div m)
  moreover have "unat br * (unat a div 1000000000) div (unat t div 1000000000) \<le> 16191259 * 18446744073"
    using p by (rule order.trans [OF div_le_dividend])
  then have "spec_vote_reward (unat br) (unat a) (unat t) l \<le> 2 ^ 60" using assms(1) by (simp add: spec_vote_reward_def)
  ultimately show thesis using that [of ?x] vote_reward_eq [OF active_increments [OF assms(2)]] by simp
qed

lemma isqrt_increment:
  assumes "EffectiveBalanceIncrement \<le> b" "is_isqrt (unat b) (unat sq)"
  shows "31622 \<le> unat sq"
proof (rule ccontr)
  assume "\<not> 31622 \<le> unat sq"
  then have "(unat sq + 1) * (unat sq + 1) \<le> 31622 * 31622" by (intro mult_le_mono) auto
  then show False using assms by (simp add: is_isqrt_def EffectiveBalanceIncrement_def word_le_nat_alt)
qed

lemma inclusion_reward_nat:
  fixes br d :: u64
  assumes "unat br \<le> 16191259"
  shows "unat ((br - br div ProposerRewardQuotient) div d) = (unat br - unat br div 8) div unat d"
    and "unat ((br - br div ProposerRewardQuotient) div d) \<le> 2 ^ 58"
proof -
  show e: "unat ((br - br div ProposerRewardQuotient) div d) = (unat br - unat br div 8) div unat d"
    unfolding ProposerRewardQuotient_def by (subst unat_div, subst unat_sub) (simp_all add: word_le_nat_alt unat_div)
  show "unat ((br - br div ProposerRewardQuotient) div d) \<le> 2 ^ 58"
    unfolding e using assms by (intro order.trans [OF div_le_dividend]) simp
qed

lemma sum4_nat:
  fixes a b c d :: u64
  assumes "unat a \<le> 2 ^ 60" "unat b \<le> 2 ^ 60" "unat c \<le> 2 ^ 60" "unat d \<le> 2 ^ 61"
  shows "unat (a + b + c + d) = unat a + unat b + unat c + unat d"
  using assms by (simp add: unat_add_no_wrap)

lemma leak_penalty_nat:
  fixes br :: u64
  assumes "unat br \<le> 16191259" "unat (pv_CurrentEpochEffectiveBalance v) \<le> 32000000000" "unat (FinalityDelay pe fe) \<le> 2 ^ 29"
  shows "unat (leak_penalty br v pe fe) = (if IsInInactivityLeak pe fe then 4 * unat br - unat br div 8
           + (if \<not> pv_IsSlashed v \<and> pv_IsPrevEpochTargetAttester v then 0
              else unat (pv_CurrentEpochEffectiveBalance v) * unat (FinalityDelay pe fe) div 67108864)
         else 0)" (is "_ = ?r")
    and "unat (leak_penalty br v pe fe) \<le> 2 ^ 61"
proof -
  let ?e = "pv_CurrentEpochEffectiveBalance v" and ?d = "FinalityDelay pe fe"
  have m: "unat (4 * br) = 4 * unat br" using assms(1) by (simp add: unat_mult_no_wrap)
  have s: "unat (4 * br - br div 8) = 4 * unat br - unat br div 8"
    by (subst unat_sub) (simp_all add: word_le_nat_alt m unat_div)
  have p: "unat ?e * unat ?d \<le> 32000000000 * 2 ^ 29" using assms(2,3) by (rule mult_le_mono)
  have e: "unat (?e * ?d div 67108864) = unat ?e * unat ?d div 67108864"
    using p by (simp add: unat_div unat_mult_no_wrap)
  have q: "unat ?e * unat ?d div 67108864 \<le> 32000000000 * 2 ^ 29 div 67108864" using p by (rule div_le_mono)
  have "unat (4 * br - br div 8 + ?e * ?d div 67108864) = 4 * unat br - unat br div 8 + unat ?e * unat ?d div 67108864"
    using q assms(1) by (subst unat_add_no_wrap) (simp_all add: s e)
  then show r: "unat (leak_penalty br v pe fe) = ?r"
    by (simp add: leak_penalty_def Let_def ProposerRewardQuotient_def BaseRewardsPerEpoch_def InactivityPenaltyQuotient_def s)
  show "unat (leak_penalty br v pe fe) \<le> 2 ^ 61" unfolding r using q assms(1) by auto
qed

text \<open>
  The reward arithmetic is that of the specification and never wraps: for an eligible validator with an
  effective balance of at most 32 ETH, a total active balance of at least one increment whose integer square root is
  \<open>sq\<close>, and a finality delay of at most \<open>2 ^ 29\<close> epochs, \<^verbatim>\<open>attestationDelta\<close> on 64-bit words returns
  exactly the rewards and penalties that the specification defines on unbounded numbers, whatever the
  attested balances.
\<close>
theorem attestationDelta_spec:
  assumes "EligibleForRewards v" "pv_InclusionDistance v \<noteq> 0" "unat (pv_CurrentEpochEffectiveBalance v) \<le> 32000000000"
    and "EffectiveBalanceIncrement \<le> pb_ActiveCurrentEpoch b" "is_isqrt (unat (pb_ActiveCurrentEpoch b)) (unat sq)"
    and "unat (FinalityDelay pe fe) \<le> 2 ^ 29"
  shows "\<exists>r p. attestationDelta b sq v pe fe = Ret (r, p)
    \<and> unat r = spec_reward (spec_base_reward (unat (pv_CurrentEpochEffectiveBalance v)) (unat sq)) (unat (pb_ActiveCurrentEpoch b)) v b
        (IsInInactivityLeak pe fe)
    \<and> unat p = spec_penalty (spec_base_reward (unat (pv_CurrentEpochEffectiveBalance v)) (unat sq)) v
        (IsInInactivityLeak pe fe) (unat (FinalityDelay pe fe))"
proof -
  let ?T = "pb_ActiveCurrentEpoch b" and ?l = "IsInInactivityLeak pe fe"
  note sq = isqrt_increment [OF assms(4,5)]
  define br where "br = pv_CurrentEpochEffectiveBalance v * BaseRewardFactor div sq div BaseRewardsPerEpoch"
  have br: "spec_base_reward (unat (pv_CurrentEpochEffectiveBalance v)) (unat sq) = unat br" "unat br \<le> 16191259"
    using base_reward_nat [OF assms(3) sq] by (simp_all add: br_def)
  obtain x where x: "vote_reward br (pb_PrevEpochAttested b) (?T div EffectiveBalanceIncrement) ?l = Ret x"
    "unat x = spec_vote_reward (unat br) (unat (pb_PrevEpochAttested b)) (unat ?T) ?l" "unat x \<le> 2 ^ 60"
    by (rule vote_reward_nat [OF br(2) assms(4)])
  obtain y where y: "vote_reward br (pb_PrevEpochTargetAttested b) (?T div EffectiveBalanceIncrement) ?l = Ret y"
    "unat y = spec_vote_reward (unat br) (unat (pb_PrevEpochTargetAttested b)) (unat ?T) ?l" "unat y \<le> 2 ^ 60"
    by (rule vote_reward_nat [OF br(2) assms(4)])
  obtain z where z: "vote_reward br (pb_PrevEpochHeadAttested b) (?T div EffectiveBalanceIncrement) ?l = Ret z"
    "unat z = spec_vote_reward (unat br) (unat (pb_PrevEpochHeadAttested b)) (unat ?T) ?l" "unat z \<le> 2 ^ 60"
    by (rule vote_reward_nat [OF br(2) assms(4)])
  define w where "w = (br - br div ProposerRewardQuotient) div pv_InclusionDistance v"
  note w = inclusion_reward_nat [OF br(2), of "pv_InclusionDistance v", folded w_def]
  have ne: "?T \<noteq> 0" "sq \<noteq> 0" using active_increments [OF assms(4)] sq by auto
  let ?ok = "\<not> pv_IsSlashed v"
  let ?r1 = "if ?ok \<and> pv_IsPrevEpochAttester v then w + x else 0" and ?r2 = "if ?ok \<and> pv_IsPrevEpochTargetAttester v then y else 0"
    and ?r3 = "if ?ok \<and> pv_IsPrevEpochHeadAttester v then z else 0"
  let ?m = "\<lambda>c. if ?ok \<and> c then 0 else br"
  let ?p = "?m (pv_IsPrevEpochAttester v) + ?m (pv_IsPrevEpochTargetAttester v) + ?m (pv_IsPrevEpochHeadAttester v)"
  have "attestationDelta b sq v pe fe = Ret (?r1 + ?r2 + ?r3, ?p + leak_penalty br v pe fe)"
    unfolding attestationDelta_def Let_def br_def [symmetric] w_def [symmetric] using assms(1,2) ne by (simp add: x(1) y(1) z(1))
  moreover have "unat (?r1 + ?r2 + ?r3) = spec_reward (unat br) (unat ?T) v b ?l"
    using x(2,3) y(2,3) z(2,3) w by (simp add: spec_reward_def unat_add_no_wrap)
  moreover have "unat (?p + leak_penalty br v pe fe) = spec_penalty (unat br) v ?l (unat (FinalityDelay pe fe))"
  proof -
    have m: "unat (?m c) = (if ?ok \<and> c then 0 else unat br)" and le: "unat (?m c) \<le> 2 ^ 60" for c using br(2) by auto
    note lp = leak_penalty_nat [OF br(2) assms(3,6)]
    show ?thesis unfolding sum4_nat [OF le le le lp(2)] m lp(1) spec_penalty_def Let_def ..
  qed
  ultimately show ?thesis unfolding br(1) by blast
qed

text \<open>A validator that attested in the previous epoch, for the wrong target.\<close>
definition one_record :: PValidator where
  "one_record = (new_record 10 9 full_validator)\<lparr>pv_IsPrevEpochAttester := True, pv_InclusionDistance := 1\<rparr>"

theorem attestationDelta_spec_witness:
  "\<exists>r p. attestationDelta (zero_balance\<lparr>pb_ActiveCurrentEpoch := 1000000000\<rparr>) 31622 one_record 9 8 = Ret (r, p)
    \<and> unat r = 14167352 \<and> unat p = 32382518"
proof -
  have i: "is_isqrt 1000000000 31622" by (simp add: is_isqrt_def)
  have l: "\<not> IsInInactivityLeak 9 8" by (simp add: IsInInactivityLeak_def FinalityDelay_def MinEpochsToInactivityPenalty_def)
  have a: "EligibleForRewards one_record"
    by (simp add: EligibleForRewards_def one_record_def new_record_def zero_pvalidator_def IsActiveValidatorUsingTrie_def
        full_validator_def checkValidatorActiveStatus_def)
  show ?thesis
    using attestationDelta_spec [OF a, of "zero_balance\<lparr>pb_ActiveCurrentEpoch := 1000000000\<rparr>" 31622 9 8] i l
    by (simp add: one_record_def new_record_def zero_pvalidator_def full_validator_def FinalityDelay_def zero_balance_def
        EffectiveBalanceIncrement_def spec_reward_def spec_penalty_def spec_base_reward_def spec_vote_reward_def)
qed

theorem rewards_never_panic_witness:
  "\<exists>vp b c' vp' s' err. New_precompute three_state = (Some (vp, b), None)
    \<and> ProcessRewardsAndPenaltiesPrecompute cachedSquareRoot three_state (UpdateBalance vp b Phase0) vp AttestationsDelta ProposersDelta
      = Ret (c', vp', s', err)
    \<and> sqrt_ready c'"
proof -
  obtain vp b where n: "New_precompute three_state = (Some (vp, b), None)" by (rule New_precompute_eq [of three_state]) simp_all
  have "ProcessAttestations id cold_caches \<lparr>bl_Len = (\<lambda>_. 0), bl_BitIndices = (\<lambda>_. [])\<rparr> three_state vp b
      = Ret (Some (vp, UpdateBalance vp b Phase0), None)"
    by (simp add: ProcessAttestations_def PreviousEpochAttestations_def CurrentEpochAttestations_def)
  moreover have "sqrt_ready cachedSquareRoot" using sqrt_cache_ok_init by (simp add: sqrt_ready_def cachedSquareRoot_def)
  ultimately show ?thesis using rewards_never_panic [OF n] n by metis
qed

end
