(* ===== verification/ExitQueue.thy ===== *)
theory ExitQueue
  imports Registry
begin

text \<open>
  Exits and slashings of validators, \<^verbatim>\<open>beacon-chain/core/validators/validator.go\<close>. A call returns
  the state it leaves behind together with its result: the code returns a nil state with every
  error except \<open>ErrValidatorAlreadyExited\<close>, but the object the caller passed in keeps the changes
  made before the error.
\<close>

subsection \<open>The functions\<close>

definition ErrValidatorAlreadyExited :: go_error where
  "ErrValidatorAlreadyExited = Sentinel ''validator already exited''"

definition churn_step :: "nat \<Rightarrow> Validator \<Rightarrow> Epoch \<times> u64 \<Rightarrow> (Epoch \<times> u64) result" where
  "churn_step idx val = (\<lambda>(maxExitEpoch, churn).
    (let e = v_ExitEpoch val
     in if e \<noteq> FarFutureEpoch then
          (if e > maxExitEpoch then (e, 1) else if e = maxExitEpoch then (maxExitEpoch, churn + 1)
           else (maxExitEpoch, churn))
        else (maxExitEpoch, churn), None))"

definition MaxExitEpochAndChurn :: "BeaconState \<Rightarrow> Epoch \<times> u64" where
  "MaxExitEpochAndChurn s = fst (ReadFromEveryValidator s churn_step (0, 0))"

definition InitiateValidatorExit ::
  "(u8 list \<Rightarrow> u8 list) \<Rightarrow> cache_view \<Rightarrow> ValidatorIndex \<Rightarrow> Epoch \<Rightarrow> u64 \<Rightarrow> BeaconState \<Rightarrow> BeaconState \<times> Epoch result" where
  "InitiateValidatorExit hash cv idx exitQueueEpoch churn s =
    (let exitableEpoch = ActivationExitEpoch (CurrentEpoch s);
         (exitQueueEpoch, churn) = (if exitableEpoch > exitQueueEpoch then (exitableEpoch, 0) else (exitQueueEpoch, churn))
     in case ValidatorAtIndex s idx of
          (Some validator, None) \<Rightarrow>
            if v_ExitEpoch validator \<noteq> FarFutureEpoch then (s, v_ExitEpoch validator, Some ErrValidatorAlreadyExited)
            else (case ActiveValidatorCount hash cv s (CurrentEpoch s) of
                (_, Some err) \<Rightarrow> (s, 0, Some (Wrap ''could not get active validator count'' err))
              | (activeValidatorCount, None) \<Rightarrow>
                  let currentChurn = ValidatorExitChurnLimit activeValidatorCount
                  in case (if churn \<ge> currentChurn then Epoch_SafeAdd exitQueueEpoch 1 else (exitQueueEpoch, None)) of
                       (_, Some err) \<Rightarrow> (s, 0, Some err)
                     | (exitQueueEpoch, None) \<Rightarrow>
                         (case Epoch_SafeAddEpoch exitQueueEpoch MinValidatorWithdrawabilityDelay of
                            (_, Some err) \<Rightarrow> (s, 0, Some err)
                          | (withdrawableEpoch, None) \<Rightarrow>
                              (case UpdateValidatorAtIndex idx
                                  (validator\<lparr>v_ExitEpoch := exitQueueEpoch, v_WithdrawableEpoch := withdrawableEpoch\<rparr>) s of
                                 (s', Some err) \<Rightarrow> (s', 0, Some err)
                               | (s', None) \<Rightarrow> (s', exitQueueEpoch, None))))
        | (_, err) \<Rightarrow> (s, 0, err))"

text \<open>The rewards at the end of a slashing, after the proposer is known.\<close>
definition whistleblow :: "u64 \<Rightarrow> u64 \<Rightarrow> ValidatorIndex \<Rightarrow> BeaconState \<Rightarrow> BeaconState \<times> go_error option" where
  "whistleblow effectiveBalance proposerRewardQuotient proposerIdx s =
    (let whistleblowerReward = effectiveBalance div WhistleBlowerRewardQuotient;
         proposerReward = whistleblowerReward div proposerRewardQuotient
     in case IncreaseBalance proposerIdx proposerReward s of
          (s', Some err) \<Rightarrow> (s', Some err)
        | (s', None) \<Rightarrow> IncreaseBalance proposerIdx (whistleblowerReward - proposerReward) s')"

text \<open>
  The part of \<^verbatim>\<open>SlashValidator\<close> after the exit has been initiated. Indexing the slashings out of range
  and a zero quotient panic. In \<^verbatim>\<open>SlashValidator\<close> an error that wraps \<open>ErrValidatorAlreadyExited\<close> would
  pass the test with \<^verbatim>\<open>errors.Is\<close> together with a nil state, which is dereferenced next.
\<close>
definition slash_exited ::
  "(u8 list \<Rightarrow> u8 list) \<Rightarrow> cache_view \<Rightarrow> ValidatorIndex \<Rightarrow> u64 \<Rightarrow> u64 \<Rightarrow> BeaconState
    \<Rightarrow> (BeaconState \<times> go_error option) outcome" where
  "slash_exited hash cv slashedIdx penaltyQuotient proposerRewardQuotient s =
    (let currentEpoch = CurrentEpoch s
     in case ValidatorAtIndex s slashedIdx of
          (Some validator, None) \<Rightarrow>
            let validator = validator\<lparr>v_Slashed := True, v_WithdrawableEpoch :=
                  MaxEpoch (v_WithdrawableEpoch validator) (currentEpoch + EpochsPerSlashingsVector)\<rparr>;
                slot_idx = currentEpoch mod EpochsPerSlashingsVector
            in (case UpdateValidatorAtIndex slashedIdx validator s of
                 (s, Some err) \<Rightarrow> Ret (s, Some err)
               | (s, None) \<Rightarrow>
                  if out_of_range (bs_slashings s) slot_idx then Panic
                  else (case UpdateSlashingsAtIndex slot_idx
                          (bs_slashings s ! unat slot_idx + v_EffectiveBalance validator) s of
                      (s, Some err) \<Rightarrow> Ret (s, Some err)
                    | (s, None) \<Rightarrow>
                       if penaltyQuotient = 0 then Panic
                       else (case DecreaseBalance slashedIdx (v_EffectiveBalance validator div penaltyQuotient) s of
                           (s, Some err) \<Rightarrow> Ret (s, Some err)
                         | (s, None) \<Rightarrow> obind (BeaconProposerIndex hash cv s) (\<lambda>p. case p of
                               (_, Some err) \<Rightarrow> Ret (s, Some (Wrap ''could not get proposer idx'' err))
                             | (proposerIdx, None) \<Rightarrow>
                                 if proposerRewardQuotient = 0 then Panic
                                 else Ret (whistleblow (v_EffectiveBalance validator) proposerRewardQuotient proposerIdx s)))))
        | (_, err) \<Rightarrow> Ret (s, err))"

definition SlashValidator ::
  "(u8 list \<Rightarrow> u8 list) \<Rightarrow> cache_view \<Rightarrow> ValidatorIndex \<Rightarrow> u64 \<Rightarrow> u64 \<Rightarrow> BeaconState
    \<Rightarrow> (BeaconState \<times> go_error option) outcome" where
  "SlashValidator hash cv slashedIdx penaltyQuotient proposerRewardQuotient s =
    (let (maxExitEpoch, churn) = MaxExitEpochAndChurn s
     in case InitiateValidatorExit hash cv slashedIdx maxExitEpoch churn s of
          (s', _, Some err) \<Rightarrow>
            if err = ErrValidatorAlreadyExited
            then slash_exited hash cv slashedIdx penaltyQuotient proposerRewardQuotient s'
            else if errors_Is err ErrValidatorAlreadyExited then Panic
            else Ret (s', Some (Wrap ''could not initiate validator exit'' err))
        | (s', _, None) \<Rightarrow> slash_exited hash cv slashedIdx penaltyQuotient proposerRewardQuotient s')"

text \<open>The index lists built by loops that append the positions passing a test.\<close>
definition indices_where :: "(Validator \<Rightarrow> bool) \<Rightarrow> Validator list \<Rightarrow> ValidatorIndex list" where
  "indices_where P validators = map of_nat (filter (\<lambda>i. P (validators ! i)) [0..<length validators])"

definition ActivatedValidatorIndices :: "Epoch \<Rightarrow> Validator list \<Rightarrow> ValidatorIndex list" where
  "ActivatedValidatorIndices epoch validators =
     indices_where (\<lambda>val. v_ActivationEpoch val \<le> epoch \<and> epoch < v_ExitEpoch val) validators"

definition SlashedValidatorIndices :: "Epoch \<Rightarrow> Validator list \<Rightarrow> ValidatorIndex list" where
  "SlashedValidatorIndices epoch validators = indices_where (\<lambda>val.
     let maxWithdrawableEpoch = MaxEpoch (v_WithdrawableEpoch val) (epoch + EpochsPerSlashingsVector)
     in v_WithdrawableEpoch val = maxWithdrawableEpoch \<and> v_Slashed val) validators"

text \<open>The withdrawable epoch of the end of the exit queue, as the two functions below compute it.\<close>
definition queue_withdrawable :: "Validator list \<Rightarrow> u64 \<Rightarrow> Epoch" where
  "queue_withdrawable validators activeValidatorCount =
    (let exitEpochs = map v_ExitEpoch (filter (\<lambda>val. v_ExitEpoch val \<noteq> FarFutureEpoch) validators);
         exitQueueEpoch = fold (\<lambda>i q. if q < i then i else q) exitEpochs 0;
         exitQueueChurn = fold (\<lambda>val c. if v_ExitEpoch val = exitQueueEpoch then c + 1 else c) validators (0 :: u64);
         churn = ValidatorExitChurnLimit activeValidatorCount;
         exitQueueEpoch = (if churn < exitQueueChurn then exitQueueEpoch + 1 else exitQueueEpoch)
     in exitQueueEpoch + MinValidatorWithdrawabilityDelay)"

definition ExitedValidatorIndices :: "Epoch \<Rightarrow> Validator list \<Rightarrow> u64 \<Rightarrow> ValidatorIndex list result" where
  "ExitedValidatorIndices epoch validators activeValidatorCount =
    (let withdrawableEpoch = queue_withdrawable validators activeValidatorCount
     in (indices_where (\<lambda>val. v_ExitEpoch val = epoch \<and> v_WithdrawableEpoch val = withdrawableEpoch
           \<and> v_EffectiveBalance val > EjectionBalance) validators, None))"

definition EjectedValidatorIndices :: "Epoch \<Rightarrow> Validator list \<Rightarrow> u64 \<Rightarrow> ValidatorIndex list result" where
  "EjectedValidatorIndices epoch validators activeValidatorCount =
    (let withdrawableEpoch = queue_withdrawable validators activeValidatorCount
     in (indices_where (\<lambda>val. v_ExitEpoch val = epoch \<and> v_WithdrawableEpoch val = withdrawableEpoch
           \<and> v_EffectiveBalance val \<le> EjectionBalance) validators, None))"

subsection \<open>The exit queue\<close>

definition exits_at :: "Validator list \<Rightarrow> Epoch \<Rightarrow> nat" where
  "exits_at vs e = length (filter (\<lambda>v. v_ExitEpoch v = e) vs)"

definition exit_epochs :: "Validator list \<Rightarrow> Epoch set" where
  "exit_epochs vs = set (filter (\<lambda>e. e \<noteq> FarFutureEpoch) (map v_ExitEpoch vs))"

text \<open>What the scan has found after a prefix of the registry.\<close>
definition scan_ok :: "Validator list \<Rightarrow> Epoch \<times> u64 \<Rightarrow> bool" where
  "scan_ok vs p \<longleftrightarrow> (\<forall>e \<in> exit_epochs vs. e \<le> fst p) \<and> (fst p = 0 \<or> fst p \<in> exit_epochs vs)
     \<and> fst p \<noteq> FarFutureEpoch \<and> snd p = of_nat (exits_at vs (fst p))"

lemma exit_epochs_snoc:
  "exit_epochs (vs @ [v]) = (if v_ExitEpoch v = FarFutureEpoch then exit_epochs vs else insert (v_ExitEpoch v) (exit_epochs vs))"
  by (auto simp: exit_epochs_def)

lemma exits_at_snoc: "exits_at (vs @ [v]) e = exits_at vs e + (if v_ExitEpoch v = e then 1 else 0)"
  by (simp add: exits_at_def)

lemma exits_at_zero: "e \<notin> exit_epochs vs \<Longrightarrow> e \<noteq> FarFutureEpoch \<Longrightarrow> exits_at vs e = 0"
  by (auto simp: exits_at_def exit_epochs_def filter_empty_conv)

lemma scan_ok_step: "scan_ok vs p \<Longrightarrow> scan_ok (vs @ [v]) (fst (churn_step i v p))"
proof -
  assume ok: "scan_ok vs p"
  obtain m c where p: "p = (m, c)" by fastforce
  consider "v_ExitEpoch v = FarFutureEpoch" | "v_ExitEpoch v \<noteq> FarFutureEpoch" "v_ExitEpoch v > m"
    | "v_ExitEpoch v \<noteq> FarFutureEpoch" "v_ExitEpoch v \<le> m" by fastforce
  then show ?thesis
  proof cases
    case 2
    then have "v_ExitEpoch v \<notin> exit_epochs vs" using ok p by (auto simp: scan_ok_def)
    then show ?thesis using ok p 2
      by (auto simp: scan_ok_def churn_step_def Let_def exit_epochs_snoc exits_at_snoc exits_at_zero)
  qed (use ok p in \<open>auto simp: scan_ok_def churn_step_def Let_def exit_epochs_snoc exits_at_snoc\<close>)
qed

lemma scan_fold:
  "scan_ok ws p \<Longrightarrow> scan_ok (ws @ vs) (fold (\<lambda>(i, v) x. fst (churn_step i v x)) (enumerate k vs) p)"
proof (induction vs arbitrary: ws p k)
  case (Cons v vs)
  then show ?case using Cons.IH [OF scan_ok_step [OF Cons.prems]] by simp
qed simp

lemma MaxExitEpochAndChurn_scan:
  assumes "bs_validators s = Some vs"
  shows "scan_ok vs (MaxExitEpochAndChurn s)"
proof -
  have "snd (churn_step i v x) = None" for i v x by (simp add: churn_step_def split_def)
  then have "MaxExitEpochAndChurn s = fold (\<lambda>(i, v) x. fst (churn_step i v x)) (enumerate 0 vs) (0, 0)"
    by (simp add: MaxExitEpochAndChurn_def ReadFromEveryValidator_def assms read_every_fold)
  moreover have "scan_ok [] (0, 0)" by (simp add: scan_ok_def exit_epochs_def exits_at_def FarFutureEpoch_def)
  ultimately show ?thesis using scan_fold [of "[]" "(0, 0)" vs 0] by simp
qed

text \<open>
  \<^verbatim>\<open>MaxExitEpochAndChurn\<close> finds the end of the exit queue: the largest exit epoch other than
  \<^verbatim>\<open>FAR_FUTURE_EPOCH\<close> (zero if there is none) and how many validators leave in that epoch.
\<close>
theorem MaxExitEpochAndChurn_spec:
  assumes "bs_validators s = Some vs"
  shows "MaxExitEpochAndChurn s =
    (Max (insert 0 (exit_epochs vs)), of_nat (exits_at vs (Max (insert 0 (exit_epochs vs)))))"
proof -
  have fin: "finite (exit_epochs vs)" by (simp add: exit_epochs_def)
  obtain m c where mc: "MaxExitEpochAndChurn s = (m, c)" by fastforce
  then have ok: "scan_ok vs (m, c)" using MaxExitEpochAndChurn_scan [OF assms] by simp
  then have "Max (insert 0 (exit_epochs vs)) = m"
    by (intro Max_eqI) (auto simp: scan_ok_def fin)
  then show ?thesis using mc ok by (simp add: scan_ok_def)
qed

theorem MaxExitEpochAndChurn_spec_witness:
  "MaxExitEpochAndChurn (small_state [full_validator, full_validator\<lparr>v_ExitEpoch := 20\<rparr>] []) = (20, 1)"
proof -
  have "exit_epochs [full_validator, full_validator\<lparr>v_ExitEpoch := 20\<rparr>] = {20}"
    by (auto simp: exit_epochs_def full_validator_def FarFutureEpoch_def)
  then show ?thesis
    using MaxExitEpochAndChurn_spec [of "small_state [full_validator, full_validator\<lparr>v_ExitEpoch := 20\<rparr>] []"
        "[full_validator, full_validator\<lparr>v_ExitEpoch := 20\<rparr>]"]
    by (simp add: exits_at_def full_validator_def)
qed

text \<open>The state after an exit at epoch \<open>e\<close>.\<close>
definition exited :: "BeaconState \<Rightarrow> ValidatorIndex \<Rightarrow> Epoch \<Rightarrow> BeaconState" where
  "exited s idx e = s\<lparr>bs_validators := Some ((vals s)[unat idx :=
     (vals s ! unat idx)\<lparr>v_ExitEpoch := e, v_WithdrawableEpoch := e + MinValidatorWithdrawabilityDelay\<rparr>])\<rparr>"

lemma Epoch_SafeAdd_ok: "Epoch_SafeAdd e x = (r, None) \<longleftrightarrow> unat e + unat x < 2 ^ 64 \<and> r = e + x"
  by (auto simp: Epoch_SafeAdd_def Add64_def)

lemma Epoch_SafeAdd_cases: "Epoch_SafeAdd e x = (if unat e + unat x < 2 ^ 64 then (e + x, None) else (0, Some (Fresh ''addition overflows'')))"
  by (simp add: Epoch_SafeAdd_def Add64_def)

lemma InitiateValidatorExit_ok:
  assumes "bs_validators s = Some vs"
    and "InitiateValidatorExit hash cv idx q c s = (t, e, None)"
  defines "x \<equiv> ActivationExitEpoch (CurrentEpoch s)"
  shows "\<exists>n. ActiveValidatorCount hash cv s (CurrentEpoch s) = (n, None) \<and> unat idx < length vs
    \<and> v_ExitEpoch (vs ! unat idx) = FarFutureEpoch \<and> t = exited s idx e \<and> unat e + 256 < 2 ^ 64
    \<and> (let (q', c') = if x > q then (x, 0) else (q, c)
       in if c' \<ge> ValidatorExitChurnLimit n then unat e = unat q' + 1 else e = q')"
  using assms(2)
  by (auto simp: InitiateValidatorExit_def Let_def x_def [symmetric] ValidatorAtIndex_def validatorAtIndex_def assms(1)
      out_of_range_def UpdateValidatorAtIndex_def vals_def exited_def Epoch_SafeAddEpoch_def Epoch_SafeAdd_cases
      MinValidatorWithdrawabilityDelay_def unat_add_no_wrap
      split: prod.splits option.splits if_splits)

lemma exits_at_update:
  "i < length vs \<Longrightarrow> v_ExitEpoch (vs ! i) \<noteq> e \<Longrightarrow> v_ExitEpoch v = e \<Longrightarrow> exits_at (vs[i := v]) e = Suc (exits_at vs e)"
proof (induction vs arbitrary: i)
  case (Cons w vs)
  then show ?case by (cases i) (auto simp: exits_at_def)
qed simp

lemma ActivationExitEpoch_nat: "unat (ActivationExitEpoch (CurrentEpoch s)) = unat (CurrentEpoch s) + 5"
proof -
  have "ActivationExitEpoch (CurrentEpoch s) = CurrentEpoch s + 5"
    by (simp add: ActivationExitEpoch_def MaxSeedLookahead_def)
  then show ?thesis using unat_add_no_wrap [of "CurrentEpoch s" 5] CurrentEpoch_bound [of s] by simp
qed

lemma not_far: "unat e + 256 < 2 ^ 64 \<Longrightarrow> e \<noteq> FarFutureEpoch"
  by (auto simp: FarFutureEpoch_def unsigned_minus_1_eq_mask mask_eq_exp_minus_1)

lemma exit_queue_step:
  assumes "bs_validators s = Some vs" "length vs < 2 ^ 64" "scan_ok vs (m, k)"
    and "ActiveValidatorCount hash cv s (CurrentEpoch s) = (n, None)"
    and "InitiateValidatorExit hash cv idx m k s = (t, e, None)"
  shows "t = exited s idx e" "unat idx < length vs" "v_ExitEpoch (vs ! unat idx) = FarFutureEpoch" "unat e + 256 < 2 ^ 64"
    and "m \<le> e" "unat (CurrentEpoch s) + 5 \<le> unat e" "exits_at (vals t) e \<le> unat (ValidatorExitChurnLimit n)"
    and "exits_at (vals t) e = Suc (exits_at vs e)"
proof -
  let ?x = "ActivationExitEpoch (CurrentEpoch s)"
  note ok = InitiateValidatorExit_ok [OF assms(1), of hash cv idx m k t e]
  show t: "t = exited s idx e" and idx: "unat idx < length vs" and far: "v_ExitEpoch (vs ! unat idx) = FarFutureEpoch"
    and e: "unat e + 256 < 2 ^ 64"
    using ok assms(4,5) by auto
  have q: "let (q', c') = if ?x > m then (?x, 0) else (m, k)
       in if c' \<ge> ValidatorExitChurnLimit n then unat e = unat q' + 1 else e = q'"
    using ok assms(4,5) by auto
  have lim: "4 \<le> unat (ValidatorExitChurnLimit n)"
    unfolding ValidatorExitChurnLimit_def by (rule calculateChurnLimit_ge)
  have k: "unat k = exits_at vs m"
    using assms(3) le_less_trans [OF length_filter_le assms(2)] by (simp add: scan_ok_def exits_at_def unat_of_nat)
  have above: "exits_at vs y = 0" if "m < y" "y \<noteq> FarFutureEpoch" for y
    using assms(3) that by (intro exits_at_zero) (auto simp: scan_ok_def)
  show s: "exits_at (vals t) e = Suc (exits_at vs e)"
    using idx far not_far [OF e] by (auto simp: t exited_def vals_def assms(1) intro!: exits_at_update)
  have "m \<le> e \<and> ?x \<le> e \<and> exits_at vs e < unat (ValidatorExitChurnLimit n)"
    using q lim k above [of e] not_far [OF e]
    by (auto simp: Let_def word_less_nat_alt word_le_nat_alt not_le not_less split: if_splits)
  then show "m \<le> e" "unat (CurrentEpoch s) + 5 \<le> unat e" "exits_at (vals t) e \<le> unat (ValidatorExitChurnLimit n)"
    using ActivationExitEpoch_nat [of s] s by (auto simp: word_le_nat_alt)
qed

lemma exit_epochs_update:
  "i < length vs \<Longrightarrow> v_ExitEpoch (vs ! i) = FarFutureEpoch \<Longrightarrow> v_ExitEpoch v \<noteq> FarFutureEpoch \<Longrightarrow>
    exit_epochs (vs[i := v]) = insert (v_ExitEpoch v) (exit_epochs vs)"
proof (induction vs arbitrary: i)
  case (Cons w vs)
  then show ?case by (cases i) (auto simp: exit_epochs_def)
qed simp

text \<open>An exit at the end of the queue moves the end of the queue as the callers that process several exits assume.\<close>
lemma exit_queue_end:
  assumes "scan_ok vs (m, k)" "i < length vs" "v_ExitEpoch (vs ! i) = FarFutureEpoch" "v_ExitEpoch v = e" "e \<noteq> FarFutureEpoch" "m \<le> e"
  shows "scan_ok (vs[i := v]) (if e > m then (e, 1) else if e = m then (m, k + 1) else (m, k))"
proof -
  have x: "exit_epochs (vs[i := v]) = insert e (exit_epochs vs)"
    using exit_epochs_update [OF assms(2,3), of v] assms(4,5) by simp
  have n: "exits_at (vs[i := v]) e = Suc (exits_at vs e)" using assms(2-5) by (intro exits_at_update) auto
  have "exits_at vs e = 0" if "m < e" using assms(1,5) that by (intro exits_at_zero) (auto simp: scan_ok_def)
  then show ?thesis using assms(1,5,6) x n by (auto simp: scan_ok_def)
qed

text \<open>
  (C25) The exit queue respects the churn limit: when \<^verbatim>\<open>InitiateValidatorExit\<close> succeeds at the end of
  the queue, the validator gets an exit epoch that is no earlier than any exit already queued and than
  five epochs from now, at most as many validators leave in that epoch as the churn limit allows, only
  that validator's exit and withdrawable epochs change, the delay between the two does not wrap around,
  and a second attempt reports that the validator has exited and changes nothing.
\<close>
theorem InitiateValidatorExit_churn:
  assumes "bs_validators s = Some vs" "length vs < 2 ^ 64"
    and "ActiveValidatorCount hash cv s (CurrentEpoch s) = (n, None)"
    and "InitiateValidatorExit hash cv idx (fst (MaxExitEpochAndChurn s)) (snd (MaxExitEpochAndChurn s)) s = (t, e, None)"
  shows "(\<forall>e' \<in> exit_epochs vs. e' \<le> e) \<and> unat (CurrentEpoch s) + 5 \<le> unat e
    \<and> exits_at (vals t) e \<le> unat (ValidatorExitChurnLimit n)
    \<and> t = exited s idx e \<and> unat (v_WithdrawableEpoch (vals t ! unat idx)) = unat e + 256
    \<and> InitiateValidatorExit hash cv' idx q c t = (t, e, Some ErrValidatorAlreadyExited)"
proof -
  obtain m k where mk: "MaxExitEpochAndChurn s = (m, k)" by fastforce
  have scan: "scan_ok vs (m, k)" using MaxExitEpochAndChurn_scan [OF assms(1)] mk by simp
  note st = exit_queue_step [OF assms(1,2) scan assms(3) assms(4) [unfolded mk fst_conv snd_conv]]
  have vt: "vals (exited s idx e) = vs[unat idx := (vs ! unat idx)\<lparr>v_ExitEpoch := e, v_WithdrawableEpoch := e + 256\<rparr>]"
    by (simp add: exited_def vals_def assms(1) MinValidatorWithdrawabilityDelay_def)
  have "unat (v_WithdrawableEpoch (vals t ! unat idx)) = unat e + 256"
    using unat_add_no_wrap [of e 256] st(2,4) by (simp add: vt st(1))
  moreover have "InitiateValidatorExit hash cv' idx q c t = (t, e, Some ErrValidatorAlreadyExited)"
    using st(2) not_far [OF st(4)]
    by (simp add: InitiateValidatorExit_def Let_def ValidatorAtIndex_def validatorAtIndex_def out_of_range_def
        st(1) exited_def vals_def assms(1) MinValidatorWithdrawabilityDelay_def split_def)
  moreover have "\<forall>e' \<in> exit_epochs vs. e' \<le> e" using scan st(5) by (auto simp: scan_ok_def)
  ultimately show ?thesis using st(1,6,7) by simp
qed

lemma small_seed: "snd (Seed hash (small_state vs bs) e d) = None"
proof -
  have "unat ((65534 + e) mod 65536) < 65536" by (simp add: unat_mod)
  then show ?thesis
    by (simp add: Seed_def RandaoMix_def RandaoMixAtIndex_def out_of_range_def Let_def
        EpochsPerHistoricalVector_def MinSeedLookahead_def not_le split: prod.split)
qed

lemma small_count:
  "ActiveValidatorCount hash cold_caches (small_state vs bs) 10
    = (of_nat (length (filter (\<lambda>v. IsActiveValidator v 10) vs)), None)"
  using ActiveValidatorCount_cold [of "small_state vs bs" vs hash 10] small_seed
  by (simp add: active_count_def vals_def)

lemma small_epoch: "CurrentEpoch (small_state vs bs) = 10"
  by (simp add: CurrentEpoch_def SlotsPerEpoch_def)

lemma small_exit:
  assumes "ActiveValidatorCount hash cv (small_state (full_validator # vs) bs) 10 = (n, None)"
  shows "InitiateValidatorExit hash cv 0 0 0 (small_state (full_validator # vs) bs)
    = (exited (small_state (full_validator # vs) bs) 0 15, 15, None)"
proof -
  have l: "0 < ValidatorExitChurnLimit n"
    using calculateChurnLimit_ge [of n] by (simp add: ValidatorExitChurnLimit_def word_less_nat_alt)
  show ?thesis
    unfolding InitiateValidatorExit_def small_epoch using l assms [unfolded full_validator_def]
    by (simp add: ActivationExitEpoch_def MaxSeedLookahead_def ValidatorAtIndex_def validatorAtIndex_def
        out_of_range_def full_validator_def FarFutureEpoch_def MinValidatorWithdrawabilityDelay_def
        Epoch_SafeAddEpoch_def Epoch_SafeAdd_def Add64_def UpdateValidatorAtIndex_def vals_def exited_def)
qed

theorem InitiateValidatorExit_churn_witness:
  "let s = small_state [full_validator] [32000000000]
   in unat (CurrentEpoch s) + 5 \<le> unat (15 :: u64) \<and> exits_at (vals (exited s 0 15)) 15 \<le> 4"
proof -
  let ?s = "small_state [full_validator] [32000000000]"
  have c: "ActiveValidatorCount id cold_caches ?s 10 = (1, None)"
    by (simp add: small_count IsActiveValidator_def checkValidatorActiveStatus_def full_validator_def)
  have m: "MaxExitEpochAndChurn ?s = (0, 0)"
    by (simp add: MaxExitEpochAndChurn_def ReadFromEveryValidator_def churn_step_def
        full_validator_def FarFutureEpoch_def)
  have "InitiateValidatorExit id cold_caches 0 (fst (MaxExitEpochAndChurn ?s)) (snd (MaxExitEpochAndChurn ?s)) ?s
    = (exited ?s 0 15, 15, None)" using small_exit [OF c] by (simp add: m)
  from InitiateValidatorExit_churn [OF _ _ _ this, of "[full_validator]" 1]
  show ?thesis using c small_epoch
    by (simp add: ValidatorExitChurnLimit_def calculateChurnLimit_def state_params)
qed

subsection \<open>Slashing\<close>

abbreviation total_of :: "u64 list \<Rightarrow> nat" where
  "total_of bs \<equiv> sum_list (map unat bs)"

lemma total_of_update:
  assumes "i < length bs"
  shows "total_of (bs[i := x]) + unat (bs ! i) = total_of bs + unat x"
proof -
  have "unat (bs ! i) \<le> total_of bs"
    using assms by (intro member_le_sum_list) auto
  then show ?thesis using assms by (simp add: map_update sum_list_update)
qed

lemma total_of_increase:
  "i < length bs \<Longrightarrow> unat (bs ! i) + unat x < 2 ^ 64 \<Longrightarrow> total_of (bs[i := bs ! i + x]) = total_of bs + unat x"
  using total_of_update [of i bs "bs ! i + x"] by (simp add: unat_add_no_wrap)

lemma whistleblow_ok:
  assumes "bs_balances s = Some bs" "whistleblow eff q p s = (t, None)"
  shows "\<exists>bs'. t = s\<lparr>bs_balances := Some bs'\<rparr> \<and> total_of bs' = total_of bs + unat (eff div 512)"
proof -
  let ?w = "eff div 512"
  let ?r = "?w div q"
  obtain s1 where 1: "IncreaseBalance p ?r s = (s1, None)" "IncreaseBalance p (?w - ?r) s1 = (t, None)"
    using assms(2) by (auto simp: whistleblow_def Let_def WhistleBlowerRewardQuotient_def split: prod.splits option.splits)
  have a: "unat p < length bs" "unat (bs ! unat p) + unat ?r < 2 ^ 64"
      "s1 = s\<lparr>bs_balances := Some (bs[unat p := bs ! unat p + ?r])\<rparr>"
    using IncreaseBalance_ok [OF assms(1)] 1(1) by auto
  let ?b = "bs[unat p := bs ! unat p + ?r]"
  have b: "unat (?b ! unat p) + unat (?w - ?r) < 2 ^ 64"
      "t = s1\<lparr>bs_balances := Some (?b[unat p := ?b ! unat p + (?w - ?r)])\<rparr>"
    using IncreaseBalance_ok [of s1 ?b] 1(2) a(3) by auto
  have "?r \<le> ?w" by (simp add: word_le_nat_alt unat_div)
  then have "unat ?r + unat (?w - ?r) = unat ?w" by (simp add: unat_sub word_le_nat_alt)
  then have "total_of (?b[unat p := ?b ! unat p + (?w - ?r)]) = total_of bs + unat ?w"
    using total_of_increase [OF a(1,2)] total_of_increase [of "unat p" ?b "?w - ?r"] a(1) b(1) by simp
  then show ?thesis using a(3) b(2) by (intro exI [of _ "?b[unat p := ?b ! unat p + (?w - ?r)]"]) simp
qed

definition slashed_validator :: "BeaconState \<Rightarrow> Validator \<Rightarrow> Validator" where
  "slashed_validator s v = v\<lparr>v_Slashed := True,
     v_WithdrawableEpoch := MaxEpoch (v_WithdrawableEpoch v) (CurrentEpoch s + EpochsPerSlashingsVector)\<rparr>"

lemma slash_exited_ok:
  assumes "bs_validators s = Some vs" "bs_balances s = Some bs"
    and "slash_exited hash cv idx pq prq s = Ret (t, None)"
  defines "k \<equiv> unat (CurrentEpoch s mod 8192)" and "eff \<equiv> v_EffectiveBalance (vs ! unat idx)"
  shows "\<exists>bs'. unat idx < length vs
    \<and> t = s\<lparr>bs_validators := Some (vs[unat idx := slashed_validator s (vs ! unat idx)]),
        bs_slashings := (bs_slashings s)[k := bs_slashings s ! k + eff], bs_balances := Some bs'\<rparr>
    \<and> total_of bs' + min (unat (bs ! unat idx)) (unat eff div unat pq) = total_of bs + unat eff div 512"
proof -
  let ?v = "slashed_validator s (vs ! unat idx)"
  let ?s1 = "s\<lparr>bs_validators := Some (vs[unat idx := ?v]), bs_slashings := (bs_slashings s)[k := bs_slashings s ! k + eff]\<rparr>"
  let ?d = "DecreaseBalanceWithVal (bs ! unat idx) (eff div pq)"
  obtain s2 p where idx: "unat idx < length vs" and d: "DecreaseBalance idx (eff div pq) ?s1 = (s2, None)"
    and w: "whistleblow eff prq p s2 = (t, None)"
    using assms(3)
    by (auto simp: slash_exited_def Let_def ValidatorAtIndex_def validatorAtIndex_def assms(1) out_of_range_def
        UpdateValidatorAtIndex_def UpdateSlashingsAtIndex_def vals_def slashed_validator_def k_def eff_def
        EpochsPerSlashingsVector_def obind_Ret_iff split: if_splits prod.splits option.splits)
  have s2: "unat idx < length bs" "s2 = ?s1\<lparr>bs_balances := Some (bs[unat idx := ?d])\<rparr>"
    using DecreaseBalance_ok [of ?s1 bs idx "eff div pq" s2] d assms(2) by auto
  obtain bs' where t: "t = s2\<lparr>bs_balances := Some bs'\<rparr>"
    and b: "total_of bs' = total_of (bs[unat idx := ?d]) + unat (eff div 512)"
    using whistleblow_ok [of s2 "bs[unat idx := ?d]", OF _ w] s2(2) by auto
  have "total_of (bs[unat idx := ?d]) + min (unat (bs ! unat idx)) (unat eff div unat pq) = total_of bs"
    using total_of_update [OF s2(1), of ?d] by (simp add: DecreaseBalanceWithVal_nat unat_div)
  then show ?thesis using idx t s2(2) b by (intro exI [of _ bs']) (simp add: unat_div)
qed

lemma slashed_validator_withdrawable:
  "unat (CurrentEpoch s) + 8192 \<le> unat (v_WithdrawableEpoch (slashed_validator s v))"
  using unat_add_no_wrap [of "CurrentEpoch s" 8192] CurrentEpoch_bound [of s]
  by (auto simp: slashed_validator_def MaxEpoch_def EpochsPerSlashingsVector_def word_less_nat_alt)

lemma InitiateValidatorExit_already:
  assumes "bs_validators s = Some vs" "InitiateValidatorExit hash cv idx m c s = (t, e, Some ErrValidatorAlreadyExited)"
  shows "t = s \<and> v_ExitEpoch (vs ! unat idx) \<noteq> FarFutureEpoch \<and> unat idx < length vs"
  using assms by (auto simp: InitiateValidatorExit_def Let_def ValidatorAtIndex_def validatorAtIndex_def
    out_of_range_def ErrValidatorAlreadyExited_def ErrOutOfBounds_def Epoch_SafeAddEpoch_def Epoch_SafeAdd_def Add64_def
    UpdateValidatorAtIndex_def vals_def split: if_splits prod.splits option.splits)

text \<open>Whether it succeeds or reports an earlier exit, the validator has an exit epoch afterwards.\<close>
lemma InitiateValidatorExit_exits:
  assumes "bs_validators s = Some vs" "InitiateValidatorExit hash cv idx m c s = (t, e, err)"
    and "err = None \<or> err = Some ErrValidatorAlreadyExited"
  shows "\<exists>v. t = s\<lparr>bs_validators := Some (vs[unat idx := v])\<rparr> \<and> v_ExitEpoch v \<noteq> FarFutureEpoch
    \<and> v_EffectiveBalance v = v_EffectiveBalance (vs ! unat idx) \<and> unat idx < length vs"
proof (cases err)
  case None
  let ?v = "(vs ! unat idx)\<lparr>v_ExitEpoch := e, v_WithdrawableEpoch := e + MinValidatorWithdrawabilityDelay\<rparr>"
  show ?thesis
    using None InitiateValidatorExit_ok [OF assms(1), of hash cv idx m c t e] assms(2) not_far [of e]
    by (intro exI [of _ ?v]) (auto simp: exited_def vals_def assms(1))
next
  case (Some a)
  then have "t = s \<and> v_ExitEpoch (vs ! unat idx) \<noteq> FarFutureEpoch \<and> unat idx < length vs"
    using InitiateValidatorExit_already [OF assms(1)] assms(2,3) by auto
  then show ?thesis using assms(1) by (intro exI [of _ "vs ! unat idx"]) simp
qed

lemma SlashValidator_ok:
  assumes "bs_validators s = Some vs" "bs_balances s = Some bs"
    and "SlashValidator hash cv idx pq prq s = Ret (t, None)"
  defines "k \<equiv> unat (CurrentEpoch s mod 8192)" and "eff \<equiv> v_EffectiveBalance (vs ! unat idx)"
  obtains v bs' where "t = s\<lparr>bs_validators := Some (vs[unat idx := v]), bs_slashings := (bs_slashings s)[k := bs_slashings s ! k + eff],
      bs_balances := Some bs'\<rparr>" "unat idx < length vs"
    "v_Slashed v" "v_ExitEpoch v \<noteq> FarFutureEpoch" "unat (CurrentEpoch s) + 8192 \<le> unat (v_WithdrawableEpoch v)"
    "total_of bs' + min (unat (bs ! unat idx)) (unat eff div unat pq) = total_of bs + unat eff div 512"
proof -
  obtain m c where mc: "MaxExitEpochAndChurn s = (m, c)" by fastforce
  obtain s1 e err where i: "InitiateValidatorExit hash cv idx m c s = (s1, e, err)" by (metis prod_cases3)
  have sl: "slash_exited hash cv idx pq prq s1 = Ret (t, None)" and err: "err = None \<or> err = Some ErrValidatorAlreadyExited"
    using assms(3) mc i by (auto simp: SlashValidator_def split: option.splits if_splits)
  obtain v1 where s1: "s1 = s\<lparr>bs_validators := Some (vs[unat idx := v1])\<rparr>" "v_ExitEpoch v1 \<noteq> FarFutureEpoch"
      "v_EffectiveBalance v1 = eff" "unat idx < length vs"
    using InitiateValidatorExit_exits [OF assms(1) i err] unfolding eff_def by blast
  let ?v = "slashed_validator s1 v1"
  have "v_Slashed ?v \<and> v_ExitEpoch ?v \<noteq> FarFutureEpoch" using s1(2) by (simp add: slashed_validator_def)
  then show thesis
    using slash_exited_ok [of s1 "vs[unat idx := v1]" bs hash cv idx pq prq t] sl s1 assms(2)
      slashed_validator_withdrawable [of s1 v1] that
    by (auto simp: k_def)
qed

text \<open>
  (C26) A successful \<^verbatim>\<open>SlashValidator\<close> marks exactly the offender as slashed, with an exit epoch set and
  at least 8192 epochs until it can withdraw; it leaves every other validator alone, adds the offender's
  effective balance to the slashings of the current epoch, and accounts exactly for the balances: the
  penalty taken from the offender (never below zero) and the whistleblower reward paid to the proposer
  are the only change of their sum, with no overflow.
\<close>
theorem SlashValidator_effect:
  assumes "bs_validators s = Some vs" "bs_balances s = Some bs"
    and "SlashValidator hash cv idx pq prq s = Ret (t, None)"
  defines "k \<equiv> unat (CurrentEpoch s mod 8192)" and "eff \<equiv> v_EffectiveBalance (vs ! unat idx)"
  shows "(\<exists>v. vals t = vs[unat idx := v] \<and> v_Slashed v \<and> v_ExitEpoch v \<noteq> FarFutureEpoch
      \<and> unat (CurrentEpoch s) + 8192 \<le> unat (v_WithdrawableEpoch v))
    \<and> bs_slashings t = (bs_slashings s)[k := bs_slashings s ! k + eff]
    \<and> total_of (bals t) + min (unat (bs ! unat idx)) (unat eff div unat pq) = total_of bs + unat eff div 512"
  using assms(1-3) by (rule SlashValidator_ok) (auto simp: k_def eff_def vals_def bals_def)

lemma ActiveValidatorCount_proposers:
  "ActiveValidatorCount hash (cv\<lparr>cv_ProposerIndices := f\<rparr>) s e = ActiveValidatorCount hash cv s e"
  by (cases cv) (simp only: ActiveValidatorCount_def cache_view.simps)

abbreviation slash_caches :: cache_view where
  "slash_caches \<equiv> cold_caches\<lparr>cv_ProposerIndices := \<lambda>_ _. Some (replicate 32 1)\<rparr>"

lemma small_slash:
  "\<exists>t. SlashValidator id slash_caches 0 128 8 (small_state [full_validator, full_validator] [32000000000, 32000000000]) = Ret (t, None)"
proof -
  let ?vs = "[full_validator, full_validator]"
  let ?s = "small_state ?vs [32000000000, 32000000000]"
  have m: "MaxExitEpochAndChurn ?s = (0, 0)"
    by (simp add: MaxExitEpochAndChurn_def ReadFromEveryValidator_def churn_step_def
        full_validator_def FarFutureEpoch_def)
  have c: "ActiveValidatorCount id slash_caches ?s 10 = (2, None)"
    by (simp add: small_count ActiveValidatorCount_proposers IsActiveValidator_def checkValidatorActiveStatus_def
        full_validator_def)
  have p: "BeaconProposerIndex id slash_caches t = Ret (1, None)"
    if "bs_slot t = 320" "bs_stateRoots t = Some (replicate 8192 (replicate 32 9))" for t
    using that by (simp add: BeaconProposerIndex_def BeaconProposerIndexAtSlot_def SlotsPerEpoch_def GenesisEpoch_def
        MinSeedLookahead_def EpochEnd_def EpochStart_def Slot_SafeMul_def Mul64_def StateRootAtSlot_def
        SlotsPerHistoricalRoot_def StateRootAtIndex_def out_of_range_def cachedProposerIndexAtSlot_def)
  show ?thesis
    unfolding SlashValidator_def m using small_exit [OF c]
    by (simp add: slash_exited_def exited_def ValidatorAtIndex_def validatorAtIndex_def out_of_range_def
        UpdateValidatorAtIndex_def UpdateSlashingsAtIndex_def small_epoch EpochsPerSlashingsVector_def p vals_def
        DecreaseBalance_def BalanceAtIndex_def balanceAtIndex_def UpdateBalancesAtIndex_def bals_def whistleblow_def
        IncreaseBalance_def IncreaseBalanceWithVal_def Add64_def WhistleBlowerRewardQuotient_def full_validator_def)
qed

theorem SlashValidator_effect_witness:
  "let s = small_state [full_validator, full_validator] [32000000000, 32000000000]
   in \<exists>t. SlashValidator id slash_caches 0 128 8 s = Ret (t, None) \<and> total_of (bals t) + 250000000 = 64000000000 + 62500000"
proof -
  let ?vs = "[full_validator, full_validator]"
  obtain t where t: "SlashValidator id slash_caches 0 128 8 (small_state ?vs [32000000000, 32000000000]) = Ret (t, None)"
    using small_slash by blast
  have "total_of (bals t) + 250000000 = 64000000000 + 62500000"
    using SlashValidator_effect [OF _ _ t, of ?vs "[32000000000, 32000000000]"] by (simp add: full_validator_def)
  then show ?thesis using t by auto
qed

end
