(* ===== verification/EpochProcessing.thy ===== *)
theory EpochProcessing
  imports Precompute ExitQueue "HOL-Library.Product_Lexorder"
begin

text \<open>
  Epoch processing, \<^verbatim>\<open>beacon-chain/core/epoch/epoch_processing.go\<close>: the activation queue and ejections, the
  penalties of slashed validators, effective balances, and the rotation of votes, slashings, randao mixes and
  attestations. The two functions that hash the historical roots are not part of the model.

  On an error the code returns a nil state; here the state is returned as it then is.
\<close>

subsection \<open>Activation queue and ejections\<close>

text \<open>
  One turn of the first loop: the validator of the copied list, with its changed eligibility, and the state.
  An error that wraps \<open>ErrValidatorAlreadyExited\<close> without being it comes with a nil state and is not
  reported; the next use of the state panics.
\<close>
definition registry_step ::
  "(u8 list \<Rightarrow> u8 list) \<Rightarrow> cache_view \<Rightarrow> Epoch \<Rightarrow> nat \<Rightarrow> Validator \<Rightarrow> BeaconState \<Rightarrow> ((Validator \<times> BeaconState) result) outcome" where
  "registry_step hash cv currentEpoch idx validator s =
    (let eligible = IsEligibleForActivationQueue validator;
         validator = (if eligible then validator\<lparr>v_ActivationEligibilityEpoch := currentEpoch + 1\<rparr> else validator)
     in case (if eligible then UpdateValidatorAtIndex (of_nat idx) validator s else (s, None)) of
          (s, Some err) \<Rightarrow> Ret ((validator, s), Some err)
        | (s, None) \<Rightarrow>
            if IsActiveValidator validator currentEpoch \<and> v_EffectiveBalance validator \<le> EjectionBalance then
              (let (maxExitEpoch, churn) = MaxExitEpochAndChurn s
               in case InitiateValidatorExit hash cv (of_nat idx) maxExitEpoch churn s of
                    (s, _, None) \<Rightarrow> Ret ((validator, s), None)
                  | (s, _, Some err) \<Rightarrow>
                      if err = ErrValidatorAlreadyExited then Ret ((validator, s), None)
                      else if errors_Is err ErrValidatorAlreadyExited then Panic
                      else Ret ((validator, s), Some (Wrap ''could not initiate exit for validator'' err)))
            else Ret ((validator, s), None))"

fun registry_loop ::
  "(u8 list \<Rightarrow> u8 list) \<Rightarrow> cache_view \<Rightarrow> Epoch \<Rightarrow> nat \<Rightarrow> Validator list \<Rightarrow> BeaconState \<Rightarrow> ((Validator list \<times> BeaconState) result) outcome" where
  "registry_loop hash cv currentEpoch idx [] s = Ret (([], s), None)"
| "registry_loop hash cv currentEpoch idx (validator # validators) s =
    obind (registry_step hash cv currentEpoch idx validator s) (\<lambda>r. case r of
      ((validator, s), Some err) \<Rightarrow> Ret ((validator # validators, s), Some err)
    | ((validator, s), None) \<Rightarrow>
        obind (registry_loop hash cv currentEpoch (Suc idx) validators s) (\<lambda>((validators, s), err).
          Ret ((validator # validators, s), err)))"

text \<open>\<^verbatim>\<open>sort.Sort\<close> with the order of \<^verbatim>\<open>sortableIndices.Less\<close>, which is total on distinct indices.\<close>
definition queue_key :: "Validator list \<Rightarrow> ValidatorIndex \<Rightarrow> Epoch \<times> ValidatorIndex" where
  "queue_key validators i = (v_ActivationEligibilityEpoch (validators ! unat i), i)"

definition Less :: "Validator list \<Rightarrow> ValidatorIndex list \<Rightarrow> nat \<Rightarrow> nat \<Rightarrow> bool" where
  "Less validators indices i j =
    (if v_ActivationEligibilityEpoch (validators ! unat (indices ! i)) = v_ActivationEligibilityEpoch (validators ! unat (indices ! j))
     then indices ! i < indices ! j
     else v_ActivationEligibilityEpoch (validators ! unat (indices ! i)) < v_ActivationEligibilityEpoch (validators ! unat (indices ! j)))"

definition activation_queue :: "BeaconState \<Rightarrow> Validator list \<Rightarrow> ValidatorIndex list" where
  "activation_queue s validators = sort_key (queue_key validators) (indices_where (IsEligibleForActivation s) validators)"

fun activation_loop :: "Epoch \<Rightarrow> ValidatorIndex list \<Rightarrow> BeaconState \<Rightarrow> BeaconState \<times> go_error option" where
  "activation_loop activationExitEpoch [] s = (s, None)"
| "activation_loop activationExitEpoch (index # indices) s = (case ValidatorAtIndex s index of
     (Some validator, None) \<Rightarrow>
       (case UpdateValidatorAtIndex index (validator\<lparr>v_ActivationEpoch := activationExitEpoch\<rparr>) s of
          (s, Some err) \<Rightarrow> (s, Some err)
        | (s, None) \<Rightarrow> activation_loop activationExitEpoch indices s)
   | (_, err) \<Rightarrow> (s, err))"

definition ProcessRegistryUpdates ::
  "(u8 list \<Rightarrow> u8 list) \<Rightarrow> cache_view \<Rightarrow> BeaconState \<Rightarrow> (BeaconState \<times> go_error option) outcome" where
  "ProcessRegistryUpdates hash cv s =
    (let currentEpoch = CurrentEpoch s
     in obind (registry_loop hash cv currentEpoch 0 (vals s) s) (\<lambda>r. case r of
          ((_, s), Some err) \<Rightarrow> Ret (s, Some err)
        | ((validators, s), None) \<Rightarrow>
            let activationQ = activation_queue s validators
            in case ActiveValidatorCount hash cv s currentEpoch of
                 (_, Some err) \<Rightarrow> Ret (s, Some (Wrap ''could not get active validator count'' err))
               | (activeValidatorCount, None) \<Rightarrow>
                   let churnLimit = (if bs_version s \<ge> Deneb then ValidatorActivationChurnLimitDeneb activeValidatorCount
                         else ValidatorActivationChurnLimit activeValidatorCount);
                       lim = of_nat (length activationQ);
                       lim = (if churnLimit < lim then churnLimit else lim)
                   in Ret (activation_loop (ActivationExitEpoch currentEpoch) (take (unat lim) activationQ) s)))"

subsection \<open>Slashings\<close>

fun sum_slashings :: "u64 list \<Rightarrow> u64 \<Rightarrow> u64 result" where
  "sum_slashings [] totalSlashing = (totalSlashing, None)"
| "sum_slashings (slashing # slashings) totalSlashing = (case Add64 totalSlashing slashing of
     (_, Some err) \<Rightarrow> (0, Some err) | (t, None) \<Rightarrow> sum_slashings slashings t)"

definition ProcessSlashings :: "cache_view \<Rightarrow> u64 \<Rightarrow> BeaconState \<Rightarrow> (BeaconState \<times> go_error option) outcome" where
  "ProcessSlashings cv slashingMultiplier s =
    (let currentEpoch = CurrentEpoch s
     in case TotalActiveBalance cv s of
          (_, Some err) \<Rightarrow> Ret (s, Some (Wrap ''could not get total active balance'' err))
        | (totalBalance, None) \<Rightarrow> (case sum_slashings (bs_slashings s) 0 of
            (_, Some err) \<Rightarrow> Ret (s, Some err)
          | (totalSlashing, None) \<Rightarrow>
              let minSlashing = math_Min (totalSlashing * slashingMultiplier) totalBalance;
                  epochToWithdraw = currentEpoch + EpochsPerSlashingsVector div 2
              in if totalBalance = 0 \<and> (\<exists>val \<in> set (vals s). to_slash epochToWithdraw val) then Panic
                 else Ret (ApplyToEveryValidator (slashing_func epochToWithdraw minSlashing totalBalance) s)))"

subsection \<open>Balances and rotations\<close>

definition ProcessEth1DataReset :: "BeaconState \<Rightarrow> BeaconState \<times> go_error option" where
  "ProcessEth1DataReset s =
    (let nextEpoch = CurrentEpoch s + 1
     in if nextEpoch mod EpochsPerEth1VotingPeriod = 0 then (SetEth1DataVotes [] s, None) else (s, None))"

definition hysteresis :: "u64 \<Rightarrow> Validator \<Rightarrow> bool \<times> Validator" where
  "hysteresis balance val =
    (let hysteresisInc = EffectiveBalanceIncrement div HysteresisQuotient;
         downwardThreshold = hysteresisInc * HysteresisDownwardMultiplier;
         upwardThreshold = hysteresisInc * HysteresisUpwardMultiplier
     in if balance + downwardThreshold < v_EffectiveBalance val \<or> v_EffectiveBalance val + upwardThreshold < balance then
          (let rounded = balance - balance mod EffectiveBalanceIncrement;
               effectiveBal = (if MaxEffectiveBalance > rounded then rounded else MaxEffectiveBalance)
           in if effectiveBal \<noteq> v_EffectiveBalance val then (True, val\<lparr>v_EffectiveBalance := effectiveBal\<rparr>)
              else (False, val))
        else (False, val))"

definition ProcessEffectiveBalanceUpdates :: "BeaconState \<Rightarrow> BeaconState \<times> go_error option" where
  "ProcessEffectiveBalanceUpdates s =
    (let balances = bals s
     in ApplyToEveryValidator (\<lambda>idx val s.
          if length balances \<le> idx then (((False, val), s), Some (Fresh ''validator index exceeds validator length in state''))
          else ((hysteresis (balances ! idx) val, s), None)) s)"

definition ProcessSlashingsReset :: "BeaconState \<Rightarrow> BeaconState \<times> go_error option" where
  "ProcessSlashingsReset s =
    (let nextEpoch = CurrentEpoch s + 1;
         slashedEpoch = nextEpoch mod EpochsPerSlashingsVector
     in if (of_nat (length (bs_slashings s)) :: u64) \<noteq> EpochsPerSlashingsVector
        then (s, Some (Fresh ''state slashing length different than EpochsPerHistoricalVector''))
        else UpdateSlashingsAtIndex slashedEpoch 0 s)"

text \<open>The conversion of a slice to an array of 32 bytes panics when the slice is shorter.\<close>
definition ProcessRandaoMixesReset :: "BeaconState \<Rightarrow> (BeaconState \<times> go_error option) outcome" where
  "ProcessRandaoMixesReset s =
    (let currentEpoch = CurrentEpoch s; nextEpoch = currentEpoch + 1
     in if (of_int (RandaoMixesLength s) :: u64) \<noteq> EpochsPerHistoricalVector
        then Ret (s, Some (Fresh ''state randao length different than EpochsPerHistoricalVector''))
        else case RandaoMix s currentEpoch of
          (_, Some err) \<Rightarrow> Ret (s, Some err)
        | (mix, None) \<Rightarrow> if length mix < 32 then Panic
            else Ret (UpdateRandaoMixesAtIndex (nextEpoch mod EpochsPerHistoricalVector) (take 32 mix) s))"

definition ProcessParticipationRecordUpdates :: "BeaconState \<Rightarrow> BeaconState \<times> go_error option" where
  "ProcessParticipationRecordUpdates s = RotateAttestations s"

subsection \<open>Attesting indices\<close>

fun add_unseen :: "u64 list \<Rightarrow> (u64, bool) gomap \<Rightarrow> ValidatorIndex list \<Rightarrow> (u64, bool) gomap \<times> ValidatorIndex list" where
  "add_unseen [] seen setIndices = (seen, setIndices)"
| "add_unseen (index # indices) seen setIndices =
    add_unseen indices (gm_set index True seen)
      (if gm_get seen index = Some True then setIndices else setIndices @ [index])"

fun attesting_loop ::
  "(u8 list \<Rightarrow> u8 list) \<Rightarrow> cache_view \<Rightarrow> bitlist \<Rightarrow> BeaconState \<Rightarrow> PendingAttestation list \<Rightarrow> (u64, bool) gomap
    \<Rightarrow> ValidatorIndex list \<Rightarrow> ValidatorIndex list result outcome" where
  "attesting_loop hash cv bl s [] seen setIndices = Ret (setIndices, None)"
| "attesting_loop hash cv bl s (att # atts) seen setIndices =
    obind (BeaconCommitteeFromState hash cv s (ad_Slot (pa_Data att)) (ad_CommitteeIndex (pa_Data att))) (\<lambda>r. case r of
      (_, Some err) \<Rightarrow> Ret ([], Some err)
    | (committee, None) \<Rightarrow> (case AttestingIndices bl (pa_AggregationBits att) committee of
        (_, Some err) \<Rightarrow> Ret ([], Some err)
      | (attestingIndices, None) \<Rightarrow>
          let (seen, setIndices) = add_unseen attestingIndices seen setIndices
          in attesting_loop hash cv bl s atts seen setIndices))"

text \<open>The loop that removes slashed validators: the position advances also after a removal.\<close>
function remove_slashed :: "BeaconState \<Rightarrow> nat \<Rightarrow> ValidatorIndex list \<Rightarrow> ValidatorIndex list result" where
  "remove_slashed s i setIndices =
    (if i < length setIndices then
       (case ValidatorAtIndexReadOnly s (setIndices ! i) of
          (_, Some err) \<Rightarrow> ([], Some (Wrap ''failed to look up validator'' err))
        | (v, None) \<Rightarrow>
            remove_slashed s (Suc i)
              (if v \<noteq> None \<and> v_Slashed (the v) then take i setIndices @ drop (Suc i) setIndices else setIndices))
     else (setIndices, None))"
  by pat_completeness auto
termination
  by (relation "measure (\<lambda>(s, i, xs). length xs - i)") auto

declare remove_slashed.simps [simp del]

definition UnslashedAttestingIndices ::
  "(u8 list \<Rightarrow> u8 list) \<Rightarrow> cache_view \<Rightarrow> bitlist \<Rightarrow> BeaconState \<Rightarrow> PendingAttestation list \<Rightarrow> ValidatorIndex list result outcome" where
  "UnslashedAttestingIndices hash cv bl s atts = obind (attesting_loop hash cv bl s atts [] []) (\<lambda>r. case r of
     (_, Some err) \<Rightarrow> Ret ([], Some err)
   | (setIndices, None) \<Rightarrow> Ret (remove_slashed s 0 (sort setIndices)))"

definition AttestingBalance ::
  "(u8 list \<Rightarrow> u8 list) \<Rightarrow> cache_view \<Rightarrow> bitlist \<Rightarrow> BeaconState \<Rightarrow> PendingAttestation list \<Rightarrow> u64 result outcome" where
  "AttestingBalance hash cv bl s atts = obind (UnslashedAttestingIndices hash cv bl s atts) (\<lambda>r. case r of
     (_, Some err) \<Rightarrow> Ret (0, Some (Wrap ''could not get attesting indices'' err))
   | (indices, None) \<Rightarrow> Ret (TotalBalance s indices, None))"

subsection \<open>Slashings: the optimised function\<close>

lemma sum_slashings_ok:
  "unat t + sum_list (map unat l) < 2 ^ 64 \<Longrightarrow> sum_slashings l t = (fold (\<lambda>x t. t + x) l t, None)"
  by (induction l arbitrary: t) (auto simp: Add64_def unat_add_no_wrap)

lemma read_every_or: "read_every (\<lambda>i v h. (h \<or> P v, None)) i vs h = (h \<or> (\<exists>v \<in> set vs. P v), None)"
  by (induction vs arbitrary: i h) auto

lemma slashing_none:
  "\<forall>v \<in> set vs. \<not> to_slash e v \<Longrightarrow> apply_every (slashing_func e m t) i vs x = ((vs, x), None)"
  by (induction vs arbitrary: i) (auto simp: slashing_func_def)

lemma TotalActiveBalance_cold:
  assumes "bs_validators s = Some vs"
  shows "TotalActiveBalance cold_caches s = (math_Max EffectiveBalanceIncrement
    (fold (\<lambda>(i, v) t. if IsActiveValidatorUsingTrie v (CurrentEpoch s) then t + v_EffectiveBalance v else t) (enumerate 0 vs) 0), None)"
  by (simp add: TotalActiveBalance_def cold_caches_def ErrNotFound_def ReadFromEveryValidator_def assms read_every_fold
      CurrentEpoch_def)

text \<open>
  The optimised slashing function agrees with the plain one: with the balances that \<^verbatim>\<open>New\<close> and
  \<^verbatim>\<open>ProcessAttestations\<close> have computed, \<^verbatim>\<open>ProcessSlashingsPrecompute\<close> does what \<^verbatim>\<open>ProcessSlashings\<close> does
  with the phase 0 multiplier, as long as the sum of the slashings fits in 64 bits (where the plain one
  would report an error and the optimised one wrap around).
\<close>
theorem slashings_agree:
  assumes "New_precompute s = (Some (vp0, b0), None)"
    and "ProcessAttestations hash cv bl s vp0 b0 = Ret (Some (vp, pBal), None)"
    and "sum_list (map unat (bs_slashings s)) < 2 ^ 64"
  shows "ProcessSlashingsPrecompute pBal s = ProcessSlashings cold_caches ProportionalSlashingMultiplier s"
proof -
  obtain vs where vs: "bs_validators s = Some vs"
    using assms(1) by (cases "bs_validators s") (auto simp: New_precompute_def ReadFromEveryValidator_def)
  obtain b where "New_precompute s = (Some (map (new_record (CurrentEpoch s) (PrevEpoch s)) vs, b), None)"
    and b: "pb_ActiveCurrentEpoch b = fold (\<lambda>(i, v) t. if IsActiveValidatorUsingTrie v (CurrentEpoch s)
        then t + v_EffectiveBalance v else t) (enumerate 0 vs) 0"
    by (rule New_precompute_eq [OF vs])
  then have "b0 = b" using assms(1) by simp
  then have t: "TotalActiveBalance cold_caches s = (pb_ActiveCurrentEpoch pBal, None)"
    using ProcessAttestations_keeps(3) [OF assms(2) New_precompute_ok(1) [OF assms(1)]] b
    by (simp add: TotalActiveBalance_cold [OF vs])
  have "EffectiveBalanceIncrement \<le> pb_ActiveCurrentEpoch pBal"
    using ProcessAttestations_keeps(3) [OF assms(2) New_precompute_ok(1) [OF assms(1)]] le_math_Max by simp
  then have z: "pb_ActiveCurrentEpoch pBal \<noteq> 0" by (auto simp: EffectiveBalanceIncrement_def)
  have s: "sum_slashings (bs_slashings s) 0 = (fold (\<lambda>x t. t + x) (bs_slashings s) 0, None)"
    using sum_slashings_ok [of 0] assms(3) by simp
  have "s\<lparr>bs_validators := Some vs\<rparr> = s" using vs by simp
  then show ?thesis
    using z by (cases "\<exists>v \<in> set vs. to_slash (CurrentEpoch s + EpochsPerSlashingsVector div 2) v")
      (simp_all add: ProcessSlashingsPrecompute_def ProcessSlashings_def t s ReadFromEveryValidator_def vs read_every_or
        ApplyToEveryValidator_def slashing_none Let_def)
qed

subsection \<open>Effective balances\<close>

definition eff_update :: "u64 \<Rightarrow> Validator \<Rightarrow> Validator" where
  "eff_update b v = (if fst (hysteresis b v) then snd (hysteresis b v) else v)"

lemma apply_every_pure:
  assumes "\<And>j v x. j < n \<Longrightarrow> f j v x = ((g j v, x), None)" "i + length vs \<le> n"
  shows "apply_every f i vs x = ((map (\<lambda>(j, v). if fst (g j v) then snd (g j v) else v) (enumerate i vs), x), None)"
  using assms(2) by (induction vs arbitrary: i) (auto simp: assms(1) split: prod.split)

lemma eff_update_thresholds:
  assumes "unat b < 2 ^ 63" "unat (v_EffectiveBalance v) \<le> 32000000000" "unat (v_EffectiveBalance v) mod 1000000000 = 0"
  defines "e \<equiv> unat (v_EffectiveBalance (eff_update b v))"
  shows "e \<le> 32000000000" "e mod 1000000000 = 0" "e \<le> unat b + 250000000" "e = 32000000000 \<or> unat b \<le> e + 1250000000"
    and "eff_update b (eff_update b v) = eff_update b v"
    and "eff_update b v = v\<lparr>v_EffectiveBalance := v_EffectiveBalance (eff_update b v)\<rparr>"
proof -
  have b: "unat (b + 250000000) = unat b + 250000000" using assms(1) by (simp add: unat_add_no_wrap)
  have e: "unat (x + 1250000000) = unat x + 1250000000" if "unat x \<le> 32000000000" for x :: u64
    using that by (simp add: unat_add_no_wrap)
  define r where "r = b - b mod 1000000000"
  have r: "unat r = unat b - unat b mod 1000000000"
    unfolding r_def by (subst unat_sub) (simp_all add: word_le_nat_alt unat_mod)
  define m where "m = (if 32000000000 > r then r else 32000000000)"
  have m: "unat m = min (unat b - unat b mod 1000000000) 32000000000"
    by (simp add: m_def word_less_nat_alt r)
  let ?trig = "\<lambda>x. unat b + 250000000 < unat x \<or> unat x + 1250000000 < unat b"
  have u: "eff_update b w = (if ?trig (v_EffectiveBalance w) then w\<lparr>v_EffectiveBalance := m\<rparr> else w)"
    if "unat (v_EffectiveBalance w) \<le> 32000000000" for w
    using e [OF that] by (cases w) (auto simp: eff_update_def hysteresis_def Let_def state_params word_less_nat_alt b
        r_def [symmetric] m_def)
  show "e \<le> 32000000000" "e mod 1000000000 = 0" "e \<le> unat b + 250000000" "e = 32000000000 \<or> unat b \<le> e + 1250000000"
    using assms(2,3) by (auto simp: e_def u m min_def minus_mod_eq_mult_div split: if_splits) 
  show "eff_update b v = v\<lparr>v_EffectiveBalance := v_EffectiveBalance (eff_update b v)\<rparr>" using assms(2) by (simp add: u)
  show "eff_update b (eff_update b v) = eff_update b v"
    using assms(2) m by (auto simp: u)
qed

lemma ProcessEffectiveBalanceUpdates_map:
  assumes "bs_validators s = Some vs" "bs_balances s = Some bs" "length bs = length vs"
  shows "ProcessEffectiveBalanceUpdates s = (s\<lparr>bs_validators := Some (map2 eff_update bs vs)\<rparr>, None)"
proof -
  let ?f = "\<lambda>idx val (s :: BeaconState). if length bs \<le> idx
      then (((False, val), s), Some (Fresh ''validator index exceeds validator length in state''))
      else ((hysteresis (bs ! idx) val, s), None)"
  have "map (\<lambda>(j, v). if fst (hysteresis (bs ! j) v) then snd (hysteresis (bs ! j) v) else v) (enumerate 0 vs) = map2 eff_update bs vs"
    by (rule nth_equalityI) (simp_all add: assms(3) nth_enumerate_eq eff_update_def)
  then have "apply_every ?f 0 vs s = ((map2 eff_update bs vs, s), None)"
    using apply_every_pure [of "length bs" ?f "\<lambda>j. hysteresis (bs ! j)" 0 vs s] assms(3) by simp
  then show ?thesis
    by (simp add: ProcessEffectiveBalanceUpdates_def bals_def assms(1,2) ApplyToEveryValidator_def)
qed

text \<open>
  (C33) Effective balances follow the balances with hysteresis: for balances below \<open>2 ^ 63\<close> Gwei and effective
  balances that are multiples of an increment up to 32 ETH, the update succeeds, keeps these bounds, changes no
  other field, and leaves each effective balance at most a quarter of an increment above the balance and, unless it
  is 32 ETH, at most one and a quarter below. A second update changes nothing.
\<close>
theorem effective_balances_spec:
  assumes "bs_validators s = Some vs" "bs_balances s = Some bs" "length bs = length vs" "\<forall>b \<in> set bs. unat b < 2 ^ 63"
    and "\<forall>v \<in> set vs. unat (v_EffectiveBalance v) \<le> 32000000000 \<and> unat (v_EffectiveBalance v) mod 1000000000 = 0"
  shows "\<exists>vs'. ProcessEffectiveBalanceUpdates s = (s\<lparr>bs_validators := Some vs'\<rparr>, None) \<and> length vs' = length vs
    \<and> (\<forall>i < length vs. vs' ! i = (vs ! i)\<lparr>v_EffectiveBalance := v_EffectiveBalance (vs' ! i)\<rparr>
        \<and> (let e = unat (v_EffectiveBalance (vs' ! i)); b = unat (bs ! i)
           in e \<le> 32000000000 \<and> e mod 1000000000 = 0 \<and> e \<le> b + 250000000 \<and> (e = 32000000000 \<or> b \<le> e + 1250000000)))
    \<and> ProcessEffectiveBalanceUpdates (s\<lparr>bs_validators := Some vs'\<rparr>) = (s\<lparr>bs_validators := Some vs'\<rparr>, None)"
proof -
  let ?vs = "map2 eff_update bs vs"
  have at: "unat (bs ! i) < 2 ^ 63" "unat (v_EffectiveBalance (vs ! i)) \<le> 32000000000"
    "unat (v_EffectiveBalance (vs ! i)) mod 1000000000 = 0" if "i < length vs" for i
    using assms(3,4,5) that by simp_all
  have "map2 eff_update bs ?vs = ?vs"
    using eff_update_thresholds(5) [OF at] by (intro nth_equalityI) (simp_all add: assms(3))
  moreover have "\<forall>i < length vs. ?vs ! i = eff_update (bs ! i) (vs ! i)" by (simp add: assms(3))
  ultimately show ?thesis
    using eff_update_thresholds(1-4,6) [OF at] ProcessEffectiveBalanceUpdates_map [OF assms(1-3)]
      ProcessEffectiveBalanceUpdates_map [of "s\<lparr>bs_validators := Some ?vs\<rparr>" ?vs bs] assms(2,3)
    by (intro exI [of _ ?vs]) (simp add: Let_def)
qed

subsection \<open>Randao mixes\<close>

text \<open>The mix of the current epoch is carried over to the next one, and no other epoch's mix changes.\<close>
lemma ProcessRandaoMixesReset_carries:
  assumes "ProcessRandaoMixesReset s = Ret (t, None)"
  shows "RandaoMix t (CurrentEpoch s + 1) = (take 32 (fst (RandaoMix s (CurrentEpoch s))), None)"
    and "e mod EpochsPerHistoricalVector \<noteq> (CurrentEpoch s + 1) mod EpochsPerHistoricalVector \<Longrightarrow>
      snd (RandaoMix s e) = None \<Longrightarrow> RandaoMix t e = RandaoMix s e"
proof -
  let ?i = "(CurrentEpoch s + 1) mod EpochsPerHistoricalVector"
  have p: "UpdateRandaoMixesAtIndex ?i (take 32 (fst (RandaoMix s (CurrentEpoch s)))) s = (t, None)"
    and ne: "bs_randaoMixes s \<noteq> None"
    using assms by (auto simp: ProcessRandaoMixesReset_def Let_def RandaoMixesLength_def EpochsPerHistoricalVector_def
        split: if_splits prod.splits option.splits)
  note put = mixes.get_put [OF p]
  have "snd (UpdateRandaoMixesAtIndex ?i (take 32 (fst (RandaoMix s (CurrentEpoch s)))) s) = None" using p by simp
  then show "RandaoMix t (CurrentEpoch s + 1) = (take 32 (fst (RandaoMix s (CurrentEpoch s))), None)"
    unfolding mixes.put_ok_iff using put [of ?i] by (simp add: RandaoMix_def)
  assume e: "e mod EpochsPerHistoricalVector \<noteq> ?i" "snd (RandaoMix s e) = None"
  then show "RandaoMix t e = RandaoMix s e"
    using put [of "e mod EpochsPerHistoricalVector"] mixes.get_ok_iff [of s "e mod EpochsPerHistoricalVector"]
      mixes.get_in [of s "e mod EpochsPerHistoricalVector"] ne by (simp add: RandaoMix_def)
qed

subsection \<open>Slashed attesters\<close>

text \<open>Two slashed validators and one that is not, an attestation by all three, and a cache with their committee.\<close>
definition slashed_state :: BeaconState where
  "slashed_state = small_state [full_validator\<lparr>v_Slashed := True\<rparr>, full_validator\<lparr>v_Slashed := True\<rparr>, full_validator] [0, 0, 0]"

definition all_attest :: PendingAttestation where
  "all_attest = \<lparr>pa_AggregationBits = [15], pa_Data = \<lparr>ad_Slot = 300, ad_CommitteeIndex = 0, ad_BeaconBlockRoot = [],
     ad_Source = genesis_checkpoint, ad_Target = genesis_checkpoint\<rparr>, pa_InclusionDelay = 1, pa_ProposerIndex = 0\<rparr>"

text \<open>
  Of two slashed attesters that follow each other in the sorted list, the second is kept: the loop of
  \<^verbatim>\<open>UnslashedAttestingIndices\<close> advances past the element that moved into the removed place. The result contains a
  slashed validator, and \<^verbatim>\<open>AttestingBalance\<close> counts its effective balance.
\<close>
theorem slashed_attester_kept:
  "UnslashedAttestingIndices id (cold_caches\<lparr>cv_Committee := \<lambda>_ _ _. (Some [0, 1, 2], None)\<rparr>)
      \<lparr>bl_Len = \<lambda>_. 3, bl_BitIndices = \<lambda>_. [0, 1, 2]\<rparr> slashed_state [all_attest] = Ret ([1, 2], None)
   \<and> v_Slashed (vals slashed_state ! 1)
   \<and> AttestingBalance id (cold_caches\<lparr>cv_Committee := \<lambda>_ _ _. (Some [0, 1, 2], None)\<rparr>)
      \<lparr>bl_Len = \<lambda>_. 3, bl_BitIndices = \<lambda>_. [0, 1, 2]\<rparr> slashed_state [all_attest] = Ret (64000000000, None)"
proof -
  have u: "unat (1 :: u64) = 1" "unat (2 :: u64) = 2" by simp_all
  have c: "BeaconCommitteeFromState id (cold_caches\<lparr>cv_Committee := \<lambda>_ _ _. (Some [0, 1, 2], None)\<rparr>) slashed_state 300 0
      = Ret ([0, 1, 2], None)"
    using small_seed [of id]
    by (auto simp: BeaconCommitteeFromState_def slashed_state_def Let_def split: prod.split option.split) (metis option.distinct(1) snd_conv)
  have r: "remove_slashed slashed_state 0 [0, 1, 2] = ([1, 2], None)"
    by (simp add: remove_slashed.simps ValidatorAtIndexReadOnly_def slashed_state_def out_of_range_def full_validator_def)
  have i: "UnslashedAttestingIndices id (cold_caches\<lparr>cv_Committee := \<lambda>_ _ _. (Some [0, 1, 2], None)\<rparr>)
      \<lparr>bl_Len = \<lambda>_. 3, bl_BitIndices = \<lambda>_. [0, 1, 2]\<rparr> slashed_state [all_attest] = Ret ([1, 2], None)"
    by (simp add: UnslashedAttestingIndices_def all_attest_def c AttestingIndices_def gm_get_def gm_set_def r)
  moreover have "TotalBalance slashed_state [1, 2] = 64000000000"
    by (simp add: TotalBalance_def ValidatorAtIndexReadOnly_def slashed_state_def out_of_range_def full_validator_def
        EffectiveBalanceIncrement_def)
  moreover have "v_Slashed (vals slashed_state ! 1)" by (simp add: vals_def slashed_state_def)
  ultimately show ?thesis by (simp add: AttestingBalance_def)
qed

theorem slashings_agree_witness:
  "\<exists>vp b. New_precompute three_state = (Some (vp, b), None)
    \<and> ProcessSlashingsPrecompute (UpdateBalance vp b Phase0) three_state = ProcessSlashings cold_caches ProportionalSlashingMultiplier three_state"
proof -
  obtain vp b where n: "New_precompute three_state = (Some (vp, b), None)" by (rule New_precompute_eq [of three_state]) simp_all
  have "ProcessAttestations id cold_caches \<lparr>bl_Len = (\<lambda>_. 0), bl_BitIndices = (\<lambda>_. [])\<rparr> three_state vp b
      = Ret (Some (vp, UpdateBalance vp b Phase0), None)"
    by (simp add: ProcessAttestations_def PreviousEpochAttestations_def CurrentEpochAttestations_def)
  then show ?thesis using slashings_agree [OF n] n by (auto simp: sum_list_replicate)
qed

theorem effective_balances_spec_witness:
  "\<exists>vs'. ProcessEffectiveBalanceUpdates (small_state [full_validator] [31000000000])
      = ((small_state [full_validator] [31000000000])\<lparr>bs_validators := Some vs'\<rparr>, None)
    \<and> unat (v_EffectiveBalance (vs' ! 0)) \<le> 31250000000"
  using effective_balances_spec [of "small_state [full_validator] [31000000000]" "[full_validator]" "[31000000000]"]
  by (auto simp: full_validator_def Let_def)

subsection \<open>Activations\<close>

lemma InitiateValidatorExit_update:
  assumes "InitiateValidatorExit hash cv idx q c s = (s', r)" "unat idx < length (vals s)"
  shows "\<exists>w. s' = s\<lparr>bs_validators := Some ((vals s)[unat idx := w])\<rparr> \<and> v_ActivationEpoch w = v_ActivationEpoch (vals s ! unat idx)
    \<and> v_ActivationEligibilityEpoch w = v_ActivationEligibilityEpoch (vals s ! unat idx)"
proof -
  obtain vs where vs: "bs_validators s = Some vs" using assms(2) by (cases "bs_validators s") (auto simp: vals_def)
  have id: "s = s\<lparr>bs_validators := Some ((vals s)[unat idx := vals s ! unat idx])\<rparr>" by (simp add: vals_def vs)
  show ?thesis
  proof (cases "s' = s")
    case True
    then show ?thesis using id by metis
  next
    case False
    then obtain x y where "s' = s\<lparr>bs_validators := Some ((vals s)[unat idx := (vals s ! unat idx)\<lparr>v_ExitEpoch := x, v_WithdrawableEpoch := y\<rparr>])\<rparr>"
      using assms by (auto simp: InitiateValidatorExit_def Let_def ValidatorAtIndex_def validatorAtIndex_def UpdateValidatorAtIndex_def vs vals_def
          out_of_range_def split: prod.splits option.splits if_splits)
    then show ?thesis by (intro exI) auto
  qed
qed

lemma registry_step_ok:
  assumes "registry_step hash cv e idx v s = Ret ((v', s'), None)" "idx < length (vals s)" "length (vals s) \<le> 2 ^ 40" "vals s ! idx = v"
  shows "\<exists>w. s' = s\<lparr>bs_validators := Some ((vals s)[idx := w])\<rparr> \<and> v_ActivationEpoch w = v_ActivationEpoch v
    \<and> v_ActivationEpoch v' = v_ActivationEpoch v \<and> v_ActivationEligibilityEpoch w = v_ActivationEligibilityEpoch v'"
proof -
  have u: "unat (of_nat idx :: u64) = idx" using assms(2,3) by (simp add: unat_of_nat)
  let ?v = "if IsEligibleForActivationQueue v then v\<lparr>v_ActivationEligibilityEpoch := e + 1\<rparr> else v"
  define s1 where "s1 = s\<lparr>bs_validators := Some ((vals s)[idx := ?v])\<rparr>"
  have s1: "vals s1 = (vals s)[idx := ?v]" by (simp add: s1_def vals_def)
  have id: "s1 = s" if "\<not> IsEligibleForActivationQueue v"
    using that assms(2,4) by (cases "bs_validators s") (auto simp: s1_def vals_def)
  have "(if IsEligibleForActivationQueue v then UpdateValidatorAtIndex (of_nat idx) ?v s else (s, None)) = (s1, None)"
    using id assms(2) by (simp add: UpdateValidatorAtIndex_def out_of_range_def u s1_def)
  then consider "v' = ?v" "s' = s1"
    | q c r where "v' = ?v" "InitiateValidatorExit hash cv (of_nat idx) q c s1 = (s', r)"
    using assms(1) by (auto simp: registry_step_def Let_def split: prod.splits option.splits if_splits)
  then show ?thesis
  proof cases
    case 1
    then show ?thesis by (intro exI [of _ ?v]) (simp add: s1_def)
  next
    case 2
    obtain w where "s' = s1\<lparr>bs_validators := Some ((vals s1)[idx := w])\<rparr>" "v_ActivationEpoch w = v_ActivationEpoch (vals s1 ! idx)"
      "v_ActivationEligibilityEpoch w = v_ActivationEligibilityEpoch (vals s1 ! idx)"
      using InitiateValidatorExit_update [OF 2(2)] assms(2) by (auto simp: u s1)
    then show ?thesis using 2(1) assms(2) s1 by (intro exI [of _ w]) (simp add: s1_def)
  qed
qed

lemma registry_loop_ok:
  assumes "registry_loop hash cv e idx rest s = Ret ((rest', s'), None)" "drop idx (vals s) = rest" "length (vals s) \<le> 2 ^ 40"
    "idx \<le> length (vals s)"
  shows "s' = s\<lparr>bs_validators := bs_validators s'\<rparr> \<and> length (vals s') = length (vals s) \<and> take idx (vals s') = take idx (vals s)
    \<and> map v_ActivationEpoch (drop idx (vals s')) = map v_ActivationEpoch rest \<and> map v_ActivationEpoch rest' = map v_ActivationEpoch rest
    \<and> map v_ActivationEligibilityEpoch (drop idx (vals s')) = map v_ActivationEligibilityEpoch rest'"
  using assms
proof (induction rest arbitrary: idx s rest')
  case (Cons v rest)
  have lt: "idx < length (vals s)" using Cons.prems(2) by (metis drop_eq_Nil2 linorder_not_le list.distinct(1))
  then have v: "vals s ! idx = v" "drop (Suc idx) (vals s) = rest"
    using Cons.prems(2) by (auto simp: Cons_nth_drop_Suc [symmetric])
  obtain v' s1 rest1 where st: "registry_step hash cv e idx v s = Ret ((v', s1), None)"
    and l: "registry_loop hash cv e (Suc idx) rest s1 = Ret ((rest1, s'), None)" and r: "rest' = v' # rest1"
    using Cons.prems(1) by (auto simp: obind_Ret_iff split: prod.splits option.splits)
  obtain w where w: "s1 = s\<lparr>bs_validators := Some ((vals s)[idx := w])\<rparr>" "v_ActivationEpoch w = v_ActivationEpoch v"
    "v_ActivationEpoch v' = v_ActivationEpoch v" "v_ActivationEligibilityEpoch w = v_ActivationEligibilityEpoch v'"
    using registry_step_ok [OF st lt Cons.prems(3) v(1)] by blast
  have s1: "vals s1 = (vals s)[idx := w]" by (simp add: w(1) vals_def)
  note ih = Cons.IH [OF l]
  have ih: "s' = s1\<lparr>bs_validators := bs_validators s'\<rparr>" "length (vals s') = length (vals s)"
    "take (Suc idx) (vals s') = take (Suc idx) ((vals s)[idx := w])"
    "map v_ActivationEpoch (drop (Suc idx) (vals s')) = map v_ActivationEpoch rest"
    "map v_ActivationEpoch rest1 = map v_ActivationEpoch rest"
    "map v_ActivationEligibilityEpoch (drop (Suc idx) (vals s')) = map v_ActivationEligibilityEpoch rest1"
    using ih lt v(2) Cons.prems(3) by (simp_all add: s1)
  have t: "take idx (vals s') = take idx (vals s)" and n: "vals s' ! idx = w"
    using arg_cong [OF ih(3), of "take idx"] arg_cong [OF ih(3), of "\<lambda>l. l ! idx"] lt ih(2) by (simp_all add: min_def)
  have d: "drop idx (vals s') = w # drop (Suc idx) (vals s')" using lt ih(2) n by (simp add: Cons_nth_drop_Suc [symmetric])
  show ?case using ih t w by (simp add: d r) 
qed simp

lemma activation_loop_ok:
  assumes "activation_loop a is s = (s', None)" "bs_validators s = Some vs"
  shows "\<exists>vs'. s' = s\<lparr>bs_validators := Some vs'\<rparr> \<and> length vs' = length vs
    \<and> (\<forall>i < length vs. vs' ! i = (if i \<in> unat ` set is then (vs ! i)\<lparr>v_ActivationEpoch := a\<rparr> else vs ! i))"
  using assms
proof (induction "is" arbitrary: s vs)
  case (Cons i "is")
  let ?vs = "vs[unat i := (vs ! unat i)\<lparr>v_ActivationEpoch := a\<rparr>]"
  have l: "activation_loop a is (s\<lparr>bs_validators := Some ?vs\<rparr>) = (s', None)"
    using Cons.prems by (auto simp: ValidatorAtIndex_def validatorAtIndex_def UpdateValidatorAtIndex_def vals_def
        split: if_splits)
  obtain vs' where "s' = s\<lparr>bs_validators := Some vs'\<rparr>" "length vs' = length vs"
    "\<forall>j < length vs. vs' ! j = (if j \<in> unat ` set is then (?vs ! j)\<lparr>v_ActivationEpoch := a\<rparr> else ?vs ! j)"
    using Cons.IH [OF l] by auto
  then show ?case by (cases "unat i < length vs"; intro exI [of _ vs']) (auto simp: nth_list_update)
next
  case Nil
  then show ?case by (intro exI [of _ vs]) auto
qed

lemma activation_queue_set:
  assumes "length vs \<le> 2 ^ 40"
  shows "unat ` set (activation_queue s vs) = {i. i < length vs \<and> IsEligibleForActivation s (vs ! i)}"
    and "distinct (map unat (activation_queue s vs))"
proof -
  let ?q = "indices_where (IsEligibleForActivation s) vs"
  have u: "map unat ?q = filter (\<lambda>i. IsEligibleForActivation s (vs ! i)) [0..<length vs]"
    using assms by (auto simp: indices_where_def unat_of_nat intro!: map_idI)
  have "set (map unat (activation_queue s vs)) = set (map unat ?q)" by (simp add: activation_queue_def)
  then show "unat ` set (activation_queue s vs) = {i. i < length vs \<and> IsEligibleForActivation s (vs ! i)}"
    unfolding u by (auto simp: activation_queue_def)
  have "distinct (map unat ?q)" unfolding u by simp
  then show "distinct (map unat (activation_queue s vs))" by (simp add: activation_queue_def distinct_map)
qed

lemma queue_key_less:
  "i < length q \<Longrightarrow> j < length q \<Longrightarrow> Less vs q i j \<longleftrightarrow> queue_key vs (q ! i) < queue_key vs (q ! j)"
  by (auto simp: Less_def queue_key_def less_prod_def)

lemma activation_queue_sorted:
  "i < j \<Longrightarrow> j < length (activation_queue s vs) \<Longrightarrow> distinct (map unat (activation_queue s vs)) \<Longrightarrow>
   Less vs (activation_queue s vs) i j"
proof -
  let ?q = "activation_queue s vs"
  assume a: "i < j" "j < length ?q" "distinct (map unat ?q)"
  have "sorted (map (queue_key vs) ?q)" by (simp add: activation_queue_def)
  then have "queue_key vs (?q ! i) \<le> queue_key vs (?q ! j)" using a(1,2) by (auto simp: sorted_iff_nth_mono_less)
  moreover have "?q ! i \<noteq> ?q ! j" using a by (auto simp: distinct_map nth_eq_iff_index_eq)
  ultimately show ?thesis using a(1,2) by (auto simp: queue_key_less queue_key_def)
qed

text \<open>The churn limit for activations; who was activated between two states; and who still waits.\<close>
definition activation_limit :: "BeaconState \<Rightarrow> u64 \<Rightarrow> u64" where
  "activation_limit s n = (if bs_version s \<ge> Deneb then ValidatorActivationChurnLimitDeneb n else ValidatorActivationChurnLimit n)"

definition activated :: "BeaconState \<Rightarrow> BeaconState \<Rightarrow> nat set" where
  "activated s s' = {i. i < length (vals s) \<and> v_ActivationEpoch (vals s' ! i) \<noteq> v_ActivationEpoch (vals s ! i)}"

definition waiting :: "BeaconState \<Rightarrow> nat set" where
  "waiting s = {j. j < length (vals s) \<and> IsEligibleForActivation s (vals s ! j)}"

lemma registry_phases:
  assumes "ProcessRegistryUpdates hash cv s = Ret (s', None)" "\<forall>seed. cv_ActiveIndicesCount cv seed = (n, None)" "n \<noteq> 0" "bs_slot s \<noteq> 0"
    and "length (vals s) \<le> 2 ^ 40"
  obtains vl t where "registry_loop hash cv (CurrentEpoch s) 0 (vals s) s = Ret ((vl, t), None)"
    and "activation_loop (ActivationExitEpoch (CurrentEpoch s))
      (take (unat (activation_limit s (of_nat n))) (activation_queue t vl)) t = (s', None)"
proof -
  let ?L = "activation_limit s (of_nat n)"
  obtain vl t where l: "registry_loop hash cv (CurrentEpoch s) 0 (vals s) s = Ret ((vl, t), None)"
    using assms(1) by (auto simp: ProcessRegistryUpdates_def Let_def obind_Ret_iff split: prod.splits option.splits)
  note ok = registry_loop_ok [OF l]
  have t: "bs_version t = bs_version s" "bs_slot t = bs_slot s" "length vl = length (vals s)"
  proof -
    have e: "t = s\<lparr>bs_validators := bs_validators t\<rparr>" and m: "map v_ActivationEpoch vl = map v_ActivationEpoch (vals s)"
      using ok assms(5) by simp_all
    show "bs_version t = bs_version s" "bs_slot t = bs_slot s" by (subst e, simp)+
    show "length vl = length (vals s)" using map_eq_imp_length_eq [OF m] .
  qed
  define q where "q = activation_queue t vl"
  have "length q \<le> length vl" using length_filter_le [of _ "[0..<length vl]"] by (simp add: q_def activation_queue_def indices_where_def)
  then have u: "unat (of_nat (length q) :: u64) = length q" using t(3) assms(5) by (simp add: unat_of_nat)
  have c: "ActiveValidatorCount hash cv t (CurrentEpoch s) = (m, None) \<Longrightarrow> m = of_nat n" for m
    using assms(2-4) t(2) by (auto simp: ActiveValidatorCount_def split: prod.splits option.splits)
  have "activation_loop (ActivationExitEpoch (CurrentEpoch s)) (take (unat (if ?L < of_nat (length q) then ?L else of_nat (length q))) q) t
      = (s', None)"
    using assms(1) l c by (auto simp: ProcessRegistryUpdates_def Let_def activation_limit_def t(1) q_def
        split: prod.splits option.splits if_splits)
  moreover have "take (unat (if ?L < of_nat (length q) then ?L else of_nat (length q))) q = take (unat ?L) q"
    by (auto simp: word_less_nat_alt u)
  ultimately show thesis using that l by (simp add: q_def)
qed

lemma ActivationExitEpoch_not_far: "ActivationExitEpoch (CurrentEpoch s) \<noteq> FarFutureEpoch"
  using not_far [of "ActivationExitEpoch (CurrentEpoch s)"] ActivationExitEpoch_nat [of s] CurrentEpoch_bound [of s] by simp

text \<open>What the two phases make of the state: the queue of the middle state, and the validators at its head.\<close>
lemma registry_result:
  assumes "registry_loop hash cv (CurrentEpoch s) 0 (vals s) s = Ret ((vl, t), None)" "length (vals s) \<le> 2 ^ 40"
    and "activation_loop (ActivationExitEpoch (CurrentEpoch s)) (take k (activation_queue t vl)) t = (s', None)" "vals s \<noteq> []"
  defines "Q \<equiv> map unat (activation_queue t vl)"
  shows "activated s s' = set (take k Q)" "waiting s' = set (drop k Q)" "distinct Q" "length (vals s') = length (vals s)"
    and "\<And>i. i < length (vals s) \<Longrightarrow> i \<in> set Q \<longleftrightarrow> IsEligibleForActivation s (vl ! i)"
    and "\<And>i. i < length (vals s) \<Longrightarrow> v_ActivationEligibilityEpoch (vals s' ! i) = v_ActivationEligibilityEpoch (vl ! i)
      \<and> v_ActivationEpoch (vl ! i) = v_ActivationEpoch (vals s ! i)
      \<and> v_ActivationEpoch (vals s' ! i) = (if i \<in> set (take k Q) then ActivationExitEpoch (CurrentEpoch s) else v_ActivationEpoch (vals s ! i))"
proof -
  let ?a = "ActivationExitEpoch (CurrentEpoch s)" and ?n = "length (vals s)"
  have ok: "t = s\<lparr>bs_validators := bs_validators t\<rparr>" "length (vals t) = ?n" "map v_ActivationEpoch (vals t) = map v_ActivationEpoch (vals s)"
    "map v_ActivationEpoch vl = map v_ActivationEpoch (vals s)" "map v_ActivationEligibilityEpoch (vals t) = map v_ActivationEligibilityEpoch vl"
    using registry_loop_ok [OF assms(1)] assms(2) by simp_all
  have lv: "length vl = ?n" using ok(4) map_eq_imp_length_eq by blast
  have at: "v_ActivationEpoch (vals t ! i) = v_ActivationEpoch (vals s ! i)" "v_ActivationEpoch (vl ! i) = v_ActivationEpoch (vals s ! i)"
    "v_ActivationEligibilityEpoch (vals t ! i) = v_ActivationEligibilityEpoch (vl ! i)" if "i < ?n" for i
    using that arg_cong [OF ok(3), of "\<lambda>l. l ! i"] arg_cong [OF ok(4), of "\<lambda>l. l ! i"] arg_cong [OF ok(5), of "\<lambda>l. l ! i"]
    by (simp_all add: lv ok(2))
  have fin: "bs_finalizedCheckpoint t = bs_finalizedCheckpoint s" by (subst ok(1)) simp
  then have el: "IsEligibleForActivation t v = IsEligibleForActivation s v" for v by (simp add: IsEligibleForActivation_def)
  obtain vs where vs: "bs_validators t = Some vs" using ok(2) assms(4) by (cases "bs_validators t") (auto simp: vals_def)
  then have vt: "vals t = vs" by (simp add: vals_def)
  obtain vs' where s': "s' = t\<lparr>bs_validators := Some vs'\<rparr>" "length vs' = ?n"
    and nth: "\<forall>i < ?n. vs' ! i = (if i \<in> set (take k Q) then (vals t ! i)\<lparr>v_ActivationEpoch := ?a\<rparr> else vals t ! i)"
    using activation_loop_ok [OF assms(3) vs] ok(2) by (auto simp: Q_def vt take_map)
  have v': "vals s' = vs'" by (simp add: s'(1) vals_def)
  have fin': "bs_finalizedCheckpoint s' = bs_finalizedCheckpoint s" by (simp add: s'(1) fin)
  show d: "distinct Q" using activation_queue_set(2) lv assms(2) by (simp add: Q_def)
  have Q: "set Q = {i. i < ?n \<and> IsEligibleForActivation s (vl ! i)}"
    using activation_queue_set(1) [of vl t] lv assms(2) by (simp add: Q_def el)
  then show "\<And>i. i < ?n \<Longrightarrow> i \<in> set Q \<longleftrightarrow> IsEligibleForActivation s (vl ! i)" by simp
  show len: "length (vals s') = ?n" by (simp add: v' s'(2))
  show all: "v_ActivationEligibilityEpoch (vals s' ! i) = v_ActivationEligibilityEpoch (vl ! i)
      \<and> v_ActivationEpoch (vl ! i) = v_ActivationEpoch (vals s ! i)
      \<and> v_ActivationEpoch (vals s' ! i) = (if i \<in> set (take k Q) then ?a else v_ActivationEpoch (vals s ! i))" if "i < ?n" for i
    using nth at that by (simp add: v')
  have far: "v_ActivationEpoch (vals s ! i) = FarFutureEpoch" if "i \<in> set Q" for i
    using that at(2) [of i] by (simp add: Q IsEligibleForActivation_def isEligibleForActivation_def)
  have sub: "set (take k Q) \<subseteq> set Q" by (rule set_take_subset)
  show "activated s s' = set (take k Q)"
  proof (rule set_eqI)
    fix i
    show "i \<in> activated s s' \<longleftrightarrow> i \<in> set (take k Q)"
      using all [of i] far [of i] sub Q ActivationExitEpoch_not_far [of s] by (auto simp: activated_def)
  qed
  have dr: "set (drop k Q) = set Q - set (take k Q)"
  proof -
    have "set Q = set (take k Q) \<union> set (drop k Q)" "set (take k Q) \<inter> set (drop k Q) = {}"
      using d distinct_append [of "take k Q" "drop k Q"] set_append [of "take k Q" "drop k Q"] by simp_all
    then show ?thesis by blast
  qed
  show "waiting s' = set (drop k Q)"
  proof (rule set_eqI)
    fix i
    show "i \<in> waiting s' \<longleftrightarrow> i \<in> set (drop k Q)"
    proof (cases "i < ?n")
      case True
      then show ?thesis using all [OF True] ActivationExitEpoch_not_far [of s]
        by (simp add: waiting_def dr len fin' Q IsEligibleForActivation_def isEligibleForActivation_def)
    qed (simp add: waiting_def dr len Q)
  qed
qed

text \<open>
  (C32) Activations respect the churn limit and the order of the queue: when \<^verbatim>\<open>ProcessRegistryUpdates\<close> succeeds
  with \<open>n\<close> active validators in the cached committees, at most as many validators get an activation epoch as
  the churn limit for \<open>n\<close> allows; each of them had none, was eligible no later than the finalized epoch, and will be
  active from the epoch after the look-ahead. If the limit is not used up no eligible validator is left
  waiting, and whoever is left waiting became eligible later than each that was activated, or at the same
  time with a higher index.
\<close>
theorem registry_activations:
  assumes "ProcessRegistryUpdates hash cv s = Ret (s', None)" "\<forall>seed. cv_ActiveIndicesCount cv seed = (n, None)" "n \<noteq> 0" "bs_slot s \<noteq> 0"
    and "vals s \<noteq> []" "length (vals s) \<le> 2 ^ 40"
  shows "card (activated s s') \<le> unat (activation_limit s (of_nat n))
    \<and> (card (activated s s') < unat (activation_limit s (of_nat n)) \<longrightarrow> waiting s' = {})
    \<and> (\<forall>i \<in> activated s s'. v_ActivationEpoch (vals s ! i) = FarFutureEpoch
        \<and> v_ActivationEpoch (vals s' ! i) = ActivationExitEpoch (CurrentEpoch s)
        \<and> v_ActivationEligibilityEpoch (vals s' ! i) \<le> c_Epoch (bs_finalizedCheckpoint s)
        \<and> (\<forall>j \<in> waiting s'. v_ActivationEligibilityEpoch (vals s' ! i) < v_ActivationEligibilityEpoch (vals s' ! j)
            \<or> v_ActivationEligibilityEpoch (vals s' ! i) = v_ActivationEligibilityEpoch (vals s' ! j) \<and> i < j))"
proof -
  let ?k = "unat (activation_limit s (of_nat n))"
  obtain vl t where l: "registry_loop hash cv (CurrentEpoch s) 0 (vals s) s = Ret ((vl, t), None)"
    and a: "activation_loop (ActivationExitEpoch (CurrentEpoch s)) (take ?k (activation_queue t vl)) t = (s', None)"
    by (rule registry_phases [OF assms(1-4,6)])
  define Q where "Q = map unat (activation_queue t vl)"
  note r = registry_result [OF l assms(6) a assms(5), folded Q_def]
  have q: "i < length (vals s) \<and> v_ActivationEligibilityEpoch (vl ! i) \<le> c_Epoch (bs_finalizedCheckpoint s)
      \<and> v_ActivationEpoch (vals s ! i) = FarFutureEpoch" if "i \<in> set Q" for i
  proof -
    have "i < length (vals s)" using that r(1,2,4) set_append [of "take ?k Q" "drop ?k Q"]
      by (auto simp: activated_def waiting_def)
    then show ?thesis using r(5) [of i] r(6) [of i] that by (simp add: IsEligibleForActivation_def isEligibleForActivation_def)
  qed
  have lim: "card (activated s s') = min (length Q) ?k" using r(3) by (simp add: r(1) distinct_card)
  have ord: "v_ActivationEligibilityEpoch (vals s' ! i) < v_ActivationEligibilityEpoch (vals s' ! j)
      \<or> v_ActivationEligibilityEpoch (vals s' ! i) = v_ActivationEligibilityEpoch (vals s' ! j) \<and> i < j"
    if i: "i \<in> set (take ?k Q)" and j: "j \<in> set (drop ?k Q)" for i j
  proof -
    obtain x where "x < length (take ?k Q)" "take ?k Q ! x = i" using i by (auto simp: in_set_conv_nth)
    then have x: "x < ?k" "x < length Q" "i = Q ! x" by auto
    obtain y where "y < length (drop ?k Q)" "drop ?k Q ! y = j" using j by (auto simp: in_set_conv_nth)
    then have y: "?k + y < length Q" "j = Q ! (?k + y)" by auto
    have "Less vl (activation_queue t vl) x (?k + y)"
      using x y r(3) by (intro activation_queue_sorted) (simp_all add: Q_def)
    moreover have "i \<in> set Q" "j \<in> set Q" using i j by (auto dest: in_set_takeD in_set_dropD)
    ultimately show ?thesis using r(6) [of i] r(6) [of j] q [of i] q [of j] x y
      by (auto simp: Less_def Q_def word_less_nat_alt split: if_splits)
  qed
  have act: "v_ActivationEpoch (vals s ! i) = FarFutureEpoch \<and> v_ActivationEpoch (vals s' ! i) = ActivationExitEpoch (CurrentEpoch s)
      \<and> v_ActivationEligibilityEpoch (vals s' ! i) \<le> c_Epoch (bs_finalizedCheckpoint s)" if "i \<in> set (take ?k Q)" for i
    using q [OF in_set_takeD [OF that]] r(6) [of i] that by simp
  show ?thesis using lim ord act by (auto simp: r(1,2))
qed

lemma registry_loop_single:
  assumes "\<not> IsEligibleForActivationQueue v" "\<not> IsActiveValidator v e"
  shows "registry_loop hash cv e 0 [v] s = Ret (([v], s), None)"
  using assms by (simp add: registry_step_def Let_def)

text \<open>One validator in the queue, eligible since genesis.\<close>
theorem registry_activations_witness:
  "\<exists>s'. ProcessRegistryUpdates id (cold_caches\<lparr>cv_ActiveIndicesCount := \<lambda>_. (70000, None)\<rparr>)
        (small_state [full_validator\<lparr>v_ActivationEpoch := FarFutureEpoch\<rparr>] [0]) = Ret (s', None)
    \<and> card (activated (small_state [full_validator\<lparr>v_ActivationEpoch := FarFutureEpoch\<rparr>] [0]) s') \<le> 4"
proof -
  let ?v = "full_validator\<lparr>v_ActivationEpoch := FarFutureEpoch\<rparr>"
  let ?s = "small_state [?v] [0]" and ?cv = "cold_caches\<lparr>cv_ActiveIndicesCount := \<lambda>_. (70000, None)\<rparr>"
  have v: "vals ?s = [?v]" by (simp add: vals_def)
  have l: "registry_loop id ?cv 10 0 [?v] ?s = Ret (([?v], ?s), None)"
    by (rule registry_loop_single) (simp_all add: IsEligibleForActivationQueue_def isEligibileForActivationQueue_def IsActiveValidator_def
        checkValidatorActiveStatus_def full_validator_def FarFutureEpoch_def not_le word_less_nat_alt
        unsigned_minus_1_eq_mask mask_eq_exp_minus_1)
  have q: "activation_queue ?s [?v] = [0]"
    by (simp add: activation_queue_def indices_where_def IsEligibleForActivation_def isEligibleForActivation_def full_validator_def
        genesis_checkpoint_def)
  have c: "ActiveValidatorCount id ?cv ?s 10 = (70000, None)"
    using small_seed [of id] by (auto simp: ActiveValidatorCount_def split: prod.split option.split) (metis option.distinct(1) snd_conv)
  have lim: "activation_limit ?s 70000 = 4" by (simp add: activation_limit_def state_params ValidatorActivationChurnLimit_def calculateChurnLimit_def)
  then have "ValidatorActivationChurnLimit 70000 = 4" by (simp add: activation_limit_def state_params)
  then have "ProcessRegistryUpdates id ?cv ?s = Ret (activation_loop (ActivationExitEpoch 10) [0] ?s)"
    by (simp add: ProcessRegistryUpdates_def Let_def small_epoch v l q c Deneb_def Phase0_def del: registry_loop.simps activation_loop.simps)
  moreover obtain s' where "activation_loop (ActivationExitEpoch 10) [0] ?s = (s', None)"
    by (simp add: ValidatorAtIndex_def validatorAtIndex_def out_of_range_def UpdateValidatorAtIndex_def v)
  ultimately have p: "ProcessRegistryUpdates id ?cv ?s = Ret (s', None)" by simp
  show ?thesis using registry_activations [OF p, of 70000] p by (auto simp: v lim)
qed

end
