(* ===== verification/BlockAttestations.thy ===== *)
theory BlockAttestations
  imports Precompute ExitQueue
begin

text \<open>
  Attestations of a block: their verification without signatures and what they write into the state, before Altair
  (\<^verbatim>\<open>beacon-chain/core/blocks/attestation.go\<close>, pending attestations) and since Altair
  (\<^verbatim>\<open>beacon-chain/core/altair/attestation.go\<close> and \<^verbatim>\<open>reward.go\<close>, participation flags and the reward of the proposer),
  with the helpers of \<^verbatim>\<open>proto/prysm/v1alpha1/attestation/attestation_utils.go\<close>.

  Attestations and their fields are not nil, and during one call the caches give the same answers. On an error the code
  returns a nil state; here the state is returned as it then is, apart from participation bytes that an interrupted
  loop may have changed in place.
\<close>

unbundle bit_operations_syntax

definition MinAttestationInclusionDelay :: Slot where "MinAttestationInclusionDelay = 1"
definition SqrRootSlotsPerEpoch :: Slot where "SqrRootSlotsPerEpoch = 5"
definition MaxValidatorsPerCommittee :: u64 where "MaxValidatorsPerCommittee = 2048"
definition MaxAttestations :: u64 where "MaxAttestations = 128"
definition CurrentEpochAttestationsLength :: u64 where "CurrentEpochAttestationsLength = SlotsPerEpoch * MaxAttestations"
definition PreviousEpochAttestationsLength :: u64 where "PreviousEpochAttestationsLength = SlotsPerEpoch * MaxAttestations"
definition TimelySourceFlagIndex :: u8 where "TimelySourceFlagIndex = 0"
definition TimelyHeadFlagIndex :: u8 where "TimelyHeadFlagIndex = 2"
definition TimelySourceWeight :: u64 where "TimelySourceWeight = 14"
definition TimelyTargetWeight :: u64 where "TimelyTargetWeight = 26"
definition TimelyHeadWeight :: u64 where "TimelyHeadWeight = 14"
definition ProposerWeight :: u64 where "ProposerWeight = 8"
definition WeightDenominator :: u64 where "WeightDenominator = 64"

text \<open>The target flag as the byte the flag functions take.\<close>
abbreviation TargetFlag :: u8 where "TargetFlag \<equiv> of_nat TimelyTargetFlagIndex"

record Attestation =
  at_AggregationBits :: "u8 list"
  at_Data :: AttestationData
  at_Signature :: "u8 list"

record IndexedAttestation =
  ia_AttestingIndices :: "u64 list"
  ia_Data :: AttestationData
  ia_Signature :: "u8 list"

subsection \<open>Verification\<close>

definition ConvertToIndexed :: "bitlist \<Rightarrow> Attestation \<Rightarrow> ValidatorIndex list \<Rightarrow> IndexedAttestation option result" where
  "ConvertToIndexed bl att committee = (case AttestingIndices bl (at_AggregationBits att) committee of
     (_, Some err) \<Rightarrow> (None, Some err)
   | (attIndices, None) \<Rightarrow>
       (Some \<lparr>ia_AttestingIndices = sort attIndices, ia_Data = at_Data att, ia_Signature = at_Signature att\<rparr>, None))"

fun unique_sorted_loop :: "u64 list \<Rightarrow> go_error option" where
  "unique_sorted_loop (x # y # indices) =
    (if x \<ge> y then Some (Fresh ''attesting indices is not uniquely sorted'') else unique_sorted_loop (y # indices))"
| "unique_sorted_loop _ = None"

definition IsValidAttestationIndices :: "IndexedAttestation \<Rightarrow> go_error option" where
  "IsValidAttestationIndices indexedAttestation =
    (let indices = ia_AttestingIndices indexedAttestation
     in if length indices = 0 then Some (Fresh ''expected non-empty attesting indices'')
        else if of_nat (length indices) > MaxValidatorsPerCommittee
          then Some (Fresh ''validator indices count exceeds MAX_VALIDATORS_PER_COMMITTEE'')
        else unique_sorted_loop indices)"

definition CheckPointIsEqual :: "CheckpointPB \<Rightarrow> CheckpointPB \<Rightarrow> bool" where
  "CheckPointIsEqual checkPt1 checkPt2 =
    (if c_Epoch checkPt1 \<noteq> c_Epoch checkPt2 then False else c_Root checkPt1 = c_Root checkPt2)"

definition ValidateSlotTargetEpoch :: "AttestationData \<Rightarrow> go_error option" where
  "ValidateSlotTargetEpoch d =
    (if ad_Slot d div SlotsPerEpoch \<noteq> c_Epoch (ad_Target d) then Some (Fresh ''slot does not match target epoch'') else None)"

text \<open>A committee is never nil when there is no error.\<close>
definition VerifyAttestationBitfieldLengths ::
  "(u8 list \<Rightarrow> u8 list) \<Rightarrow> cache_view \<Rightarrow> bitlist \<Rightarrow> BeaconState \<Rightarrow> Attestation \<Rightarrow> go_error option outcome" where
  "VerifyAttestationBitfieldLengths hash cv bl s att =
    obind (BeaconCommitteeFromState hash cv s (ad_Slot (at_Data att)) (ad_CommitteeIndex (at_Data att))) (\<lambda>r. case r of
      (_, Some err) \<Rightarrow> Ret (Some (Wrap ''could not retrieve beacon committees'' err))
    | (committee, None) \<Rightarrow> (case VerifyBitfieldLength (bl_Len bl (at_AggregationBits att)) (of_nat (length committee)) of
        Some err \<Rightarrow> Ret (Some (Wrap ''failed to verify aggregation bitfield'' err))
      | None \<Rightarrow> Ret None))"

text \<open>The checks of the slots and epochs, and those of the committee.\<close>
definition verify_slots :: "BeaconState \<Rightarrow> AttestationData \<Rightarrow> go_error option" where
  "verify_slots st d =
    (let currEpoch = CurrentEpoch st; prevEpoch = PrevEpoch st; s = ad_Slot d
     in if c_Epoch (ad_Target d) \<noteq> prevEpoch \<and> c_Epoch (ad_Target d) \<noteq> currEpoch
          then Some (Fresh ''expected target epoch to be the previous epoch or the current epoch'')
        else if c_Epoch (ad_Target d) = currEpoch \<and> \<not> MatchCurrentJustifiedCheckpoint st (ad_Source d)
          then Some (Fresh ''source check point not equal to current justified checkpoint'')
        else if c_Epoch (ad_Target d) \<noteq> currEpoch \<and> \<not> MatchPreviousJustifiedCheckpoint st (ad_Source d)
          then Some (Fresh ''source check point not equal to previous justified checkpoint'')
        else case ValidateSlotTargetEpoch d of
          Some err \<Rightarrow> Some err
        | None \<Rightarrow>
            if \<not> s + MinAttestationInclusionDelay \<le> bs_slot st then Some (Fresh ''attestation slot + inclusion delay > state slot'')
            else if bs_version st < Deneb \<and> \<not> bs_slot st \<le> s + SlotsPerEpoch
              then Some (Fresh ''state slot > attestation slot + SLOTS_PER_EPOCH'')
            else None)"

definition VerifyAttestationNoVerifySignature ::
  "(u8 list \<Rightarrow> u8 list) \<Rightarrow> cache_view \<Rightarrow> bitlist \<Rightarrow> BeaconState \<Rightarrow> Attestation \<Rightarrow> go_error option outcome" where
  "VerifyAttestationNoVerifySignature hash cv bl st att =
    (let d = at_Data att
     in case verify_slots st d of
          Some err \<Rightarrow> Ret (Some err)
        | None \<Rightarrow> (case ActiveValidatorCount hash cv st (c_Epoch (ad_Target d)) of
            (_, Some err) \<Rightarrow> Ret (Some err)
          | (activeValidatorCount, None) \<Rightarrow>
              let c = SlotCommitteeCount activeValidatorCount
              in if ad_CommitteeIndex d \<ge> c then Ret (Some (Fresh ''committee index >= committee count''))
                 else obind (VerifyAttestationBitfieldLengths hash cv bl st att) (\<lambda>e. case e of
                   Some err \<Rightarrow> Ret (Some (Wrap ''could not verify attestation bitfields'' err))
                 | None \<Rightarrow> obind (BeaconCommitteeFromState hash cv st (ad_Slot d) (ad_CommitteeIndex d)) (\<lambda>r. case r of
                     (_, Some err) \<Rightarrow> Ret (Some err)
                   | (committee, None) \<Rightarrow> (case ConvertToIndexed bl att committee of
                       (Some indexedAtt, None) \<Rightarrow> Ret (IsValidAttestationIndices indexedAtt)
                     | (_, err) \<Rightarrow> Ret err)))))"

subsection \<open>Before Altair\<close>

definition AppendCurrentEpochAttestations :: "PendingAttestation \<Rightarrow> BeaconState \<Rightarrow> BeaconState \<times> go_error option" where
  "AppendCurrentEpochAttestations a s =
    (if bs_version s \<noteq> Phase0 then (s, Some (errNotSupported ''AppendCurrentEpochAttestations''))
     else if unat CurrentEpochAttestationsLength \<le> length (bs_currentEpochAttestations s)
       then (s, Some (Fresh ''current pending attestation exceeds max length''))
     else (s\<lparr>bs_currentEpochAttestations := bs_currentEpochAttestations s @ [a]\<rparr>, None))"

definition AppendPreviousEpochAttestations :: "PendingAttestation \<Rightarrow> BeaconState \<Rightarrow> BeaconState \<times> go_error option" where
  "AppendPreviousEpochAttestations a s =
    (if bs_version s \<noteq> Phase0 then (s, Some (errNotSupported ''AppendPreviousEpochAttestations''))
     else if unat PreviousEpochAttestationsLength \<le> length (bs_previousEpochAttestations s)
       then (s, Some (Fresh ''previous pending attestation exceeds max length''))
     else (s\<lparr>bs_previousEpochAttestations := bs_previousEpochAttestations s @ [a]\<rparr>, None))"

definition ProcessAttestationNoVerifySignature ::
  "(u8 list \<Rightarrow> u8 list) \<Rightarrow> cache_view \<Rightarrow> bitlist \<Rightarrow> Attestation \<Rightarrow> BeaconState \<Rightarrow> (BeaconState \<times> go_error option) outcome" where
  "ProcessAttestationNoVerifySignature hash cv bl att st =
    obind (VerifyAttestationNoVerifySignature hash cv bl st att) (\<lambda>e. case e of
      Some err \<Rightarrow> Ret (st, Some err)
    | None \<Rightarrow> obind (BeaconProposerIndex hash cv st) (\<lambda>r. case r of
        (_, Some err) \<Rightarrow> Ret (st, Some err)
      | (proposerIndex, None) \<Rightarrow>
          let d = at_Data att;
              pendingAtt = \<lparr>pa_AggregationBits = at_AggregationBits att, pa_Data = d,
                pa_InclusionDelay = bs_slot st - ad_Slot d, pa_ProposerIndex = proposerIndex\<rparr>
          in Ret (if c_Epoch (ad_Target d) = CurrentEpoch st then AppendCurrentEpochAttestations pendingAtt st
                  else AppendPreviousEpochAttestations pendingAtt st)))"

fun ProcessAttestationsNoVerifySignature ::
  "(u8 list \<Rightarrow> u8 list) \<Rightarrow> cache_view \<Rightarrow> bitlist \<Rightarrow> Attestation list \<Rightarrow> BeaconState \<Rightarrow> (BeaconState \<times> go_error option) outcome" where
  "ProcessAttestationsNoVerifySignature hash cv bl [] st = Ret (st, None)"
| "ProcessAttestationsNoVerifySignature hash cv bl (att # atts) st =
    obind (ProcessAttestationNoVerifySignature hash cv bl att st) (\<lambda>r. case r of
      (st, Some err) \<Rightarrow> Ret (st, Some (Wrap ''could not verify attestation at index in block'' err))
    | (st, None) \<Rightarrow> ProcessAttestationsNoVerifySignature hash cv bl atts st)"

subsection \<open>Since Altair\<close>

definition HasValidatorFlag :: "u8 \<Rightarrow> u8 \<Rightarrow> bool result" where
  "HasValidatorFlag flag flagPosition =
    (if flagPosition > 7 then (False, Some (Fresh ''flag position exceeds length''))
     else (drop_bit (unat flagPosition) flag AND 1 = 1, None))"

definition AddValidatorFlag :: "u8 \<Rightarrow> u8 \<Rightarrow> u8 result" where
  "AddValidatorFlag flag flagPosition =
    (if flagPosition > 7 then (flag, Some (Fresh ''flag position exceeds length''))
     else (flag OR push_bit (unat flagPosition) 1, None))"

text \<open>The cache of the square root is threaded through; a zero root panics.\<close>
definition BaseRewardPerIncrement :: "sqrt_cache \<Rightarrow> u64 \<Rightarrow> (sqrt_cache \<times> u64 result) outcome" where
  "BaseRewardPerIncrement c activeBalance =
    (if activeBalance = 0 then Ret (c, 0, Some (Fresh ''active balance can't be 0''))
     else obind (CachedSquareRoot c activeBalance) (\<lambda>(c, r).
       if r = 0 then Panic else Ret (c, EffectiveBalanceIncrement * BaseRewardFactor div r, None)))"

definition BaseRewardWithTotalBalance ::
  "sqrt_cache \<Rightarrow> BeaconState \<Rightarrow> ValidatorIndex \<Rightarrow> u64 \<Rightarrow> (sqrt_cache \<times> u64 result) outcome" where
  "BaseRewardWithTotalBalance c s index totalBalance = (case ValidatorAtIndexReadOnly s index of
     (Some val, None) \<Rightarrow>
       (let increments = v_EffectiveBalance val div EffectiveBalanceIncrement
        in obind (BaseRewardPerIncrement c totalBalance) (\<lambda>r. case r of
          (c, _, Some err) \<Rightarrow> Ret (c, 0, Some err)
        | (c, baseRewardPerInc, None) \<Rightarrow> Ret (c, increments * baseRewardPerInc, None)))
   | (_, err) \<Rightarrow> Ret (c, 0, err))"

definition BaseReward :: "cache_view \<Rightarrow> sqrt_cache \<Rightarrow> BeaconState \<Rightarrow> ValidatorIndex \<Rightarrow> (sqrt_cache \<times> u64 result) outcome" where
  "BaseReward cv c s index = (case TotalActiveBalance cv s of
     (_, Some err) \<Rightarrow> Ret (c, 0, Some (Wrap ''could not calculate active balance'' err))
   | (totalBalance, None) \<Rightarrow> BaseRewardWithTotalBalance c s index totalBalance)"

text \<open>One of the three blocks in the loop of \<^verbatim>\<open>EpochParticipation\<close>: a flag of one validator, and its share of the reward.\<close>
definition flag_step :: "(u8, bool) gomap \<Rightarrow> u64 \<Rightarrow> u8 \<Rightarrow> u64 \<Rightarrow> u64 \<times> u8 \<Rightarrow> (u64 \<times> u8) result" where
  "flag_step participatedFlags br pos weight = (\<lambda>(num, b). case HasValidatorFlag b pos of
     (_, Some err) \<Rightarrow> ((0, b), Some err)
   | (has, None) \<Rightarrow>
       if gm_get participatedFlags pos = Some True \<and> \<not> has then
         (case AddValidatorFlag b pos of
            (_, Some err) \<Rightarrow> ((0, b), Some err)
          | (b, None) \<Rightarrow> ((num + br * weight, b), None))
       else ((num, b), None))"

definition flags_of :: "(u8, bool) gomap \<Rightarrow> u64 \<Rightarrow> u64 \<times> u8 \<Rightarrow> (u64 \<times> u8) result" where
  "flags_of participatedFlags br x = (case flag_step participatedFlags br TimelySourceFlagIndex TimelySourceWeight x of
     (x, Some err) \<Rightarrow> (x, Some err)
   | (x, None) \<Rightarrow> (case flag_step participatedFlags br TargetFlag TimelyTargetWeight x of
       (x, Some err) \<Rightarrow> (x, Some err)
     | (x, None) \<Rightarrow> flag_step participatedFlags br TimelyHeadFlagIndex TimelyHeadWeight x))"

fun participation_loop ::
  "BeaconState \<Rightarrow> (u8, bool) gomap \<Rightarrow> u64 \<Rightarrow> u64 list \<Rightarrow> sqrt_cache \<Rightarrow> u64 \<times> u8 list
    \<Rightarrow> (sqrt_cache \<times> (u64 \<times> u8 list) result) outcome" where
  "participation_loop s participatedFlags totalBalance [] c x = Ret (c, x, None)"
| "participation_loop s participatedFlags totalBalance (index # indices) c (num, epochParticipation) =
    (if out_of_range epochParticipation index then Ret (c, (0, []), Some (Fresh ''index exceeds participation length''))
     else obind (BaseRewardWithTotalBalance c s index totalBalance) (\<lambda>r. case r of
       (c, _, Some err) \<Rightarrow> Ret (c, (0, []), Some err)
     | (c, br, None) \<Rightarrow> (case flags_of participatedFlags br (num, epochParticipation ! unat index) of
         (_, Some err) \<Rightarrow> Ret (c, (0, []), Some err)
       | ((num, b), None) \<Rightarrow>
           participation_loop s participatedFlags totalBalance indices c (num, epochParticipation[unat index := b]))))"

definition EpochParticipation ::
  "sqrt_cache \<Rightarrow> BeaconState \<Rightarrow> u64 list \<Rightarrow> u8 list \<Rightarrow> (u8, bool) gomap \<Rightarrow> u64 \<Rightarrow> (sqrt_cache \<times> (u64 \<times> u8 list) result) outcome" where
  "EpochParticipation c s indices epochParticipation participatedFlags totalBalance =
     participation_loop s participatedFlags totalBalance indices c (0, epochParticipation)"

definition RewardProposer ::
  "(u8 list \<Rightarrow> u8 list) \<Rightarrow> cache_view \<Rightarrow> u64 \<Rightarrow> BeaconState \<Rightarrow> (BeaconState \<times> go_error option) outcome" where
  "RewardProposer hash cv proposerRewardNumerator s =
    (let d = (WeightDenominator - ProposerWeight) * WeightDenominator div ProposerWeight;
         proposerReward = proposerRewardNumerator div d
     in obind (BeaconProposerIndex hash cv s) (\<lambda>r. case r of
          (_, Some err) \<Rightarrow> Ret (s, Some err)
        | (i, None) \<Rightarrow> Ret (IncreaseBalance i proposerReward s)))"

text \<open>
  \<^verbatim>\<open>ModifyCurrentParticipationBits\<close> and \<^verbatim>\<open>ModifyPreviousParticipationBits\<close> with a mutator that keeps the length, so that nil
  stays nil.
\<close>
definition ModifyCurrentParticipationBits ::
  "(u8 list \<Rightarrow> (sqrt_cache \<times> (u64 \<times> u8 list) result) outcome) \<Rightarrow> BeaconState
    \<Rightarrow> (sqrt_cache option \<times> u64 \<times> BeaconState \<times> go_error option) outcome" where
  "ModifyCurrentParticipationBits mutator s =
    (if bs_version s = Phase0 then Ret (None, 0, s, Some (errNotSupported ''ModifyCurrentParticipationBits''))
     else obind (mutator (case bs_currentEpochParticipation s of None \<Rightarrow> [] | Some p \<Rightarrow> p)) (\<lambda>r. case r of
       (c, _, Some err) \<Rightarrow> Ret (Some c, 0, s, Some err)
     | (c, (num, participation), None) \<Rightarrow>
         Ret (Some c, num, s\<lparr>bs_currentEpochParticipation := map_option (\<lambda>_. participation) (bs_currentEpochParticipation s)\<rparr>, None)))"

definition ModifyPreviousParticipationBits ::
  "(u8 list \<Rightarrow> (sqrt_cache \<times> (u64 \<times> u8 list) result) outcome) \<Rightarrow> BeaconState
    \<Rightarrow> (sqrt_cache option \<times> u64 \<times> BeaconState \<times> go_error option) outcome" where
  "ModifyPreviousParticipationBits mutator s =
    (if bs_version s = Phase0 then Ret (None, 0, s, Some (errNotSupported ''ModifyPreviousParticipationBits''))
     else obind (mutator (case bs_previousEpochParticipation s of None \<Rightarrow> [] | Some p \<Rightarrow> p)) (\<lambda>r. case r of
       (c, _, Some err) \<Rightarrow> Ret (Some c, 0, s, Some err)
     | (c, (num, participation), None) \<Rightarrow>
         Ret (Some c, num, s\<lparr>bs_previousEpochParticipation := map_option (\<lambda>_. participation) (bs_previousEpochParticipation s)\<rparr>, None)))"

definition SetParticipationAndRewardProposer ::
  "(u8 list \<Rightarrow> u8 list) \<Rightarrow> cache_view \<Rightarrow> sqrt_cache \<Rightarrow> Epoch \<Rightarrow> u64 list \<Rightarrow> (u8, bool) gomap \<Rightarrow> u64 \<Rightarrow> BeaconState
    \<Rightarrow> (sqrt_cache \<times> BeaconState \<times> go_error option) outcome" where
  "SetParticipationAndRewardProposer hash cv c targetEpoch indices participatedFlags totalBalance s =
    (let mutator = (\<lambda>val. EpochParticipation c s indices val participatedFlags totalBalance)
     in obind (if targetEpoch = CurrentEpoch s then ModifyCurrentParticipationBits mutator s
               else ModifyPreviousParticipationBits mutator s) (\<lambda>(c', proposerRewardNumerator, s, stateErr).
        let c = (case c' of None \<Rightarrow> c | Some c \<Rightarrow> c)
        in case stateErr of
             Some err \<Rightarrow> Ret (c, s, Some err)
           | None \<Rightarrow> obind (RewardProposer hash cv proposerRewardNumerator s) (\<lambda>(s, err). Ret (c, s, err))))"

definition MatchingStatus :: "BeaconState \<Rightarrow> AttestationData \<Rightarrow> CheckpointPB \<Rightarrow> (bool \<times> bool \<times> bool) result" where
  "MatchingStatus s d cp =
    (let matchedSrc = CheckPointIsEqual (ad_Source d) cp
     in case BlockRoot s (c_Epoch (ad_Target d)) of
          (_, Some err) \<Rightarrow> ((False, False, False), Some err)
        | (r, None) \<Rightarrow>
            (let matchedTgt = (r = c_Root (ad_Target d))
             in case BlockRootAtSlot s (ad_Slot d) of
                  (_, Some err) \<Rightarrow> ((False, False, False), Some err)
                | (r, None) \<Rightarrow> ((matchedSrc, matchedTgt, r = ad_BeaconBlockRoot d), None)))"

definition AttestationParticipationFlagIndices :: "BeaconState \<Rightarrow> AttestationData \<Rightarrow> Slot \<Rightarrow> (u8, bool) gomap result" where
  "AttestationParticipationFlagIndices s d delay =
    (let justifiedCheckpt = (if c_Epoch (ad_Target d) = CurrentEpoch s then bs_currentJustifiedCheckpoint s
           else bs_previousJustifiedCheckpoint s)
     in case MatchingStatus s d justifiedCheckpt of
          (_, Some err) \<Rightarrow> ([], Some err)
        | ((matchedSrc, matchedTgt, matchedHead), None) \<Rightarrow>
            if \<not> matchedSrc then ([], Some (Fresh ''source epoch does not match''))
            else
              let flags = (if matchedSrc \<and> delay \<le> SqrRootSlotsPerEpoch then gm_set TimelySourceFlagIndex True [] else []);
                  matchedSrcTgt = (matchedSrc \<and> matchedTgt);
                  flags = (if matchedSrcTgt then gm_set TargetFlag True flags else flags);
                  matchedSrcTgtHead = (matchedHead \<and> matchedSrcTgt);
                  flags = (if matchedSrcTgtHead \<and> delay = MinAttestationInclusionDelay then gm_set TimelyHeadFlagIndex True flags else flags)
              in (flags, None))"

definition ProcessAttestationNoVerifySignature_altair ::
  "(u8 list \<Rightarrow> u8 list) \<Rightarrow> cache_view \<Rightarrow> bitlist \<Rightarrow> Attestation \<Rightarrow> u64 \<Rightarrow> sqrt_cache \<Rightarrow> BeaconState
    \<Rightarrow> (sqrt_cache \<times> BeaconState \<times> go_error option) outcome" where
  "ProcessAttestationNoVerifySignature_altair hash cv bl att totalBalance c s =
    obind (VerifyAttestationNoVerifySignature hash cv bl s att) (\<lambda>e. case e of
      Some err \<Rightarrow> Ret (c, s, Some err)
    | None \<Rightarrow>
        let d = at_Data att
        in case Slot_SafeSubSlot (bs_slot s) (ad_Slot d) of
             (_, Some err) \<Rightarrow> Ret (c, s, Some (Fresh ''att slot can't be greater than state slot''))
           | (delay, None) \<Rightarrow> (case AttestationParticipationFlagIndices s d delay of
               (_, Some err) \<Rightarrow> Ret (c, s, Some err)
             | (participatedFlags, None) \<Rightarrow>
                 obind (BeaconCommitteeFromState hash cv s (ad_Slot d) (ad_CommitteeIndex d)) (\<lambda>r. case r of
                   (_, Some err) \<Rightarrow> Ret (c, s, Some err)
                 | (committee, None) \<Rightarrow> (case AttestingIndices bl (at_AggregationBits att) committee of
                     (_, Some err) \<Rightarrow> Ret (c, s, Some err)
                   | (indices, None) \<Rightarrow>
                       SetParticipationAndRewardProposer hash cv c (c_Epoch (ad_Target d)) indices participatedFlags totalBalance s))))"

fun attestations_altair_loop ::
  "(u8 list \<Rightarrow> u8 list) \<Rightarrow> cache_view \<Rightarrow> bitlist \<Rightarrow> u64 \<Rightarrow> Attestation list \<Rightarrow> sqrt_cache \<Rightarrow> BeaconState
    \<Rightarrow> (sqrt_cache \<times> BeaconState \<times> go_error option) outcome" where
  "attestations_altair_loop hash cv bl totalBalance [] c s = Ret (c, s, None)"
| "attestations_altair_loop hash cv bl totalBalance (att # atts) c s =
    obind (ProcessAttestationNoVerifySignature_altair hash cv bl att totalBalance c s) (\<lambda>r. case r of
      (c, s, Some err) \<Rightarrow> Ret (c, s, Some (Wrap ''could not verify attestation at index in block'' err))
    | (c, s, None) \<Rightarrow> attestations_altair_loop hash cv bl totalBalance atts c s)"

definition ProcessAttestationsNoVerifySignature_altair ::
  "(u8 list \<Rightarrow> u8 list) \<Rightarrow> cache_view \<Rightarrow> bitlist \<Rightarrow> Attestation list \<Rightarrow> sqrt_cache \<Rightarrow> BeaconState
    \<Rightarrow> (sqrt_cache \<times> BeaconState \<times> go_error option) outcome" where
  "ProcessAttestationsNoVerifySignature_altair hash cv bl atts c s = (case TotalActiveBalance cv s of
     (_, Some err) \<Rightarrow> Ret (c, s, Some err)
   | (totalBalance, None) \<Rightarrow> attestations_altair_loop hash cv bl totalBalance atts c s)"

subsection \<open>Participation flags\<close>

lemma HasValidatorFlag_bit: "unat pos \<le> 7 \<Longrightarrow> HasValidatorFlag b pos = (bit b (unat pos), None)"
  by (simp add: HasValidatorFlag_def word_less_nat_alt bit_iff_and_drop_bit_eq_1)

lemma AddValidatorFlag_bit: "unat pos \<le> 7 \<Longrightarrow> AddValidatorFlag b pos = (b OR push_bit (unat pos) 1, None)"
  by (simp add: AddValidatorFlag_def word_less_nat_alt)

text \<open>The bits that a set of flags stands for.\<close>
definition flag_mask :: "(u8, bool) gomap \<Rightarrow> u8" where
  "flag_mask flags = (if gm_get flags 0 = Some True then 1 else 0) OR (if gm_get flags 1 = Some True then 2 else 0)
     OR (if gm_get flags 2 = Some True then 4 else 0)"

lemma flag_step_eq:
  assumes "unat pos \<le> 7"
  shows "flag_step F br pos w (num, b) = ((if gm_get F pos = Some True \<and> \<not> bit b (unat pos) then num + br * w else num,
    if gm_get F pos = Some True then b OR push_bit (unat pos) 1 else b), None)"
proof -
  have "bit b (unat pos) \<Longrightarrow> b OR push_bit (unat pos) 1 = b"
    by (rule bit_eqI) (auto simp: bit_or_iff bit_exp_iff)
  then show ?thesis by (simp add: flag_step_def HasValidatorFlag_bit AddValidatorFlag_bit assms)
qed

lemma flags_of_eq:
  obtains num' where "flags_of F br (num, b) = ((num', b OR flag_mask F), None)" "b OR flag_mask F = b \<longrightarrow> num' = num"
proof -
  have p: "push_bit 1 (1 :: u8) = 2" "push_bit 2 (1 :: u8) = 4" by simp_all
  let ?f = "\<lambda>i. gm_get F i = Some True"
  define b1 where "b1 = (if ?f 0 then b OR 1 else b)"
  define b2 where "b2 = (if ?f 1 then b1 OR 2 else b1)"
  define n1 where "n1 = (if ?f 0 \<and> \<not> bit b 0 then num + br * TimelySourceWeight else num)"
  define n2 where "n2 = (if ?f 1 \<and> \<not> bit b1 1 then n1 + br * TimelyTargetWeight else n1)"
  define n3 where "n3 = (if ?f 2 \<and> \<not> bit b2 2 then n2 + br * TimelyHeadWeight else n2)"
  have m: "(if ?f 2 then b2 OR 4 else b2) = b OR flag_mask F" by (simp add: b1_def b2_def flag_mask_def or.assoc)
  have "flags_of F br (num, b) = ((n3, b OR flag_mask F), None)"
    unfolding m [symmetric] n3_def n2_def n1_def b2_def b1_def
    by (simp add: flags_of_def flag_step_eq TimelySourceFlagIndex_def TimelyTargetFlagIndex_def TimelyHeadFlagIndex_def p)
  moreover have "n3 = num" if e: "b OR flag_mask F = b"
  proof -
    have bits: "bit b i" if "bit (flag_mask F) i" for i using arg_cong [OF e, of "\<lambda>x. bit x i"] that by (simp add: bit_or_iff)
    have "?f 0 \<Longrightarrow> bit b 0" "?f 1 \<Longrightarrow> bit b 1" "?f 2 \<Longrightarrow> bit b 2"
      using bits [of 0] bits [of 1] bits [of 2] by (auto simp: flag_mask_def bit_or_iff bit_simps)
    then show ?thesis by (auto simp: n1_def n2_def n3_def b1_def b2_def bit_or_iff)
  qed
  ultimately show thesis using that by blast
qed

lemma BaseReward_ok:
  assumes "BaseRewardWithTotalBalance c s i tot = Ret (c', br, None)"
  shows "unat i < length (vals s)" "tot \<noteq> 0" "squareRoot c' \<noteq> 0" "sqBalance c' = tot"
proof -
  obtain v where v: "ValidatorAtIndexReadOnly s i = (Some v, None)"
    using assms by (cases "ValidatorAtIndexReadOnly s i")
      (auto simp: BaseRewardWithTotalBalance_def ValidatorAtIndexReadOnly_def split: option.splits if_splits)
  then show "unat i < length (vals s)"
    by (auto simp: ValidatorAtIndexReadOnly_def vals_def out_of_range_def split: option.splits if_splits)
  obtain r where r: "BaseRewardPerIncrement c tot = Ret (c', r, None)"
    using assms by (auto simp: BaseRewardWithTotalBalance_def v Let_def obind_Ret_iff split: prod.splits option.splits)
  then show "tot \<noteq> 0" "squareRoot c' \<noteq> 0" "sqBalance c' = tot"
    by (auto simp: BaseRewardPerIncrement_def CachedSquareRoot_def obind_Ret_iff split: if_splits)
qed

lemma BaseReward_cached:
  assumes "bs_validators s = Some vs" "unat i < length vs" "tot \<noteq> 0" "squareRoot c \<noteq> 0" "sqBalance c = tot"
  shows "\<exists>br. BaseRewardWithTotalBalance c s i tot = Ret (c, br, None)"
  using assms by (simp add: BaseRewardWithTotalBalance_def ValidatorAtIndexReadOnly_def out_of_range_def BaseRewardPerIncrement_def
      CachedSquareRoot_def)

lemma participation_loop_ok:
  assumes "participation_loop s F tot is c (num, ep) = Ret (c', (num', ep'), None)"
  shows "length ep' = length ep"
    and "i < length ep \<Longrightarrow> ep' ! i = (if i \<in> unat ` set is then ep ! i OR flag_mask F else ep ! i)"
    and "j \<in> set is \<Longrightarrow> unat j < length ep \<and> unat j < length (vals s)"
    and "is \<noteq> [] \<Longrightarrow> tot \<noteq> 0 \<and> squareRoot c' \<noteq> 0 \<and> sqBalance c' = tot"
proof -
  have "length ep' = length ep \<and> (\<forall>i < length ep. ep' ! i = (if i \<in> unat ` set is then ep ! i OR flag_mask F else ep ! i))
    \<and> (\<forall>j \<in> set is. unat j < length ep \<and> unat j < length (vals s))
    \<and> (is \<noteq> [] \<longrightarrow> tot \<noteq> 0 \<and> squareRoot c' \<noteq> 0 \<and> sqBalance c' = tot)"
    using assms
  proof (induction "is" arbitrary: c num ep)
    case (Cons j js)
    then have j: "unat j < length ep" by (auto simp: out_of_range_def split: if_splits)
    obtain c1 br where br: "BaseRewardWithTotalBalance c s j tot = Ret (c1, br, None)"
    proof -
      obtain r where "BaseRewardWithTotalBalance c s j tot = Ret r" "snd (snd r) = None"
        using Cons.prems j by (auto simp: out_of_range_def obind_Ret_iff split: option.splits)
      then show thesis using that by (cases r) auto
    qed
    obtain n where fl: "flags_of F br (num, ep ! unat j) = ((n, ep ! unat j OR flag_mask F), None)" by (rule flags_of_eq)
    have l: "participation_loop s F tot js c1 (n, ep[unat j := ep ! unat j OR flag_mask F]) = Ret (c', (num', ep'), None)"
      using Cons.prems j by (simp add: out_of_range_def br fl)
    have c': "tot \<noteq> 0 \<and> squareRoot c' \<noteq> 0 \<and> sqBalance c' = tot"
      using Cons.IH [OF l] l BaseReward_ok [OF br] by (cases js) auto
    have e: "(ep[unat j := ep ! unat j OR flag_mask F]) ! i = (if i = unat j then ep ! i OR flag_mask F else ep ! i)"
      if "i < length ep" for i using that by (simp add: nth_list_update)
    show ?case using Cons.IH [OF l] c' j BaseReward_ok(1) [OF br] by (auto simp: e or.assoc)
  qed simp
  then show "length ep' = length ep"
    and "i < length ep \<Longrightarrow> ep' ! i = (if i \<in> unat ` set is then ep ! i OR flag_mask F else ep ! i)"
    and "j \<in> set is \<Longrightarrow> unat j < length ep \<and> unat j < length (vals s)"
    and "is \<noteq> [] \<Longrightarrow> tot \<noteq> 0 \<and> squareRoot c' \<noteq> 0 \<and> sqBalance c' = tot" by auto
qed

lemma participation_loop_again:
  assumes "bs_validators s = Some vs" "tot \<noteq> 0" "squareRoot c \<noteq> 0" "sqBalance c = tot"
    and "\<forall>j \<in> set is. unat j < length ep \<and> unat j < length vs \<and> ep ! unat j OR flag_mask F = ep ! unat j"
  shows "participation_loop s F tot is c (num, ep) = Ret (c, (num, ep), None)"
  using assms(5)
proof (induction "is")
  case (Cons j js)
  obtain br where br: "BaseRewardWithTotalBalance c s j tot = Ret (c, br, None)"
    using BaseReward_cached [OF assms(1) _ assms(2-4)] Cons.prems by auto
  have b: "ep ! unat j OR flag_mask F = ep ! unat j" using Cons.prems by simp
  obtain n where "flags_of F br (num, ep ! unat j) = ((n, ep ! unat j OR flag_mask F), None)" "n = num"
    using flags_of_eq [of F br num "ep ! unat j"] b by metis
  then show ?case using Cons by (simp add: out_of_range_def br b)
qed simp

text \<open>
  Participation is recorded once: \<^verbatim>\<open>EpochParticipation\<close> sets exactly the flags of the attestation for exactly its
  indices, clears none, and a second run with the same indices and flags changes nothing and earns the
  proposer nothing.
\<close>
theorem participation_once:
  assumes "EpochParticipation c s is ep F tot = Ret (c', (num, ep'), None)"
  shows "length ep' = length ep \<and> (\<forall>i < length ep. ep' ! i = (if i \<in> unat ` set is then ep ! i OR flag_mask F else ep ! i))
    \<and> EpochParticipation c' s is ep' F tot = Ret (c', (0, ep'), None)"
proof -
  note ok = participation_loop_ok [OF assms [unfolded EpochParticipation_def]]
  have "EpochParticipation c' s is ep' F tot = Ret (c', (0, ep'), None)"
  proof (cases "is")
    case (Cons j js)
    obtain vs where vs: "bs_validators s = Some vs" using ok(3) [of j] Cons by (cases "bs_validators s") (auto simp: vals_def)
    show ?thesis unfolding EpochParticipation_def
      by (rule participation_loop_again [OF vs]) (use ok Cons in \<open>auto simp: vals_def vs or.assoc\<close>)
  qed (simp add: EpochParticipation_def)
  then show ?thesis using ok(1,2) by simp
qed

text \<open>Bits, caches and an attestation of slot 319 for a state with one validator.\<close>
definition demo_bits :: bitlist where
  "demo_bits = \<lparr>bl_Len = (\<lambda>_. 1), bl_BitIndices = (\<lambda>_. [0])\<rparr>"

definition demo_caches :: cache_view where
  "demo_caches = cold_caches\<lparr>cv_ActiveIndicesCount := (\<lambda>_. (1, None)), cv_Committee := (\<lambda>_ _ _. (Some [0], None)),
     cv_ProposerIndices := (\<lambda>_ _. Some (replicate 32 0))\<rparr>"

definition demo_attestation :: Attestation where
  "demo_attestation = \<lparr>at_AggregationBits = [3], at_Data = \<lparr>ad_Slot = 319, ad_CommitteeIndex = 0, ad_BeaconBlockRoot = replicate 32 7,
     ad_Source = genesis_checkpoint, ad_Target = \<lparr>c_Epoch = 9, c_Root = replicate 32 7\<rparr>\<rparr>, at_Signature = []\<rparr>"

abbreviation demo_state :: BeaconState where
  "demo_state \<equiv> small_state [full_validator] [0]"

theorem participation_once_witness:
  "let c = \<lparr>squareRoot = 178885, sqBalance = 32000000000\<rparr>
   in (\<exists>num. EpochParticipation c demo_state [0] [0] [(0, True)] 32000000000 = Ret (c, (num, [1]), None))
    \<and> EpochParticipation c demo_state [0] [1] [(0, True)] 32000000000 = Ret (c, (0, [1]), None)"
proof -
  define c where "c = \<lparr>squareRoot = 178885, sqBalance = 32000000000\<rparr>"
  obtain br where "BaseRewardWithTotalBalance c demo_state 0 32000000000 = Ret (c, br, None)"
    using BaseReward_cached [of demo_state "[full_validator]" 0 32000000000 c] by (auto simp: c_def)
  moreover obtain num where "flags_of [(0, True)] br (0, 0) = ((num, 1), None)"
    by (rule flags_of_eq [of "[(0, True)]" br 0 0]) (simp add: flag_mask_def gm_get_def)
  ultimately have e: "EpochParticipation c demo_state [0] [0] [(0, True)] 32000000000 = Ret (c, (num, [1]), None)"
    by (simp add: EpochParticipation_def out_of_range_def)
  then show ?thesis using participation_once [OF e] unfolding c_def [symmetric] by auto
qed

subsection \<open>Verified attestations\<close>

lemma unique_sorted_loop_iff: "unique_sorted_loop xs = None \<longleftrightarrow> sorted_wrt (<) xs"
  by (induction xs rule: unique_sorted_loop.induct) (auto simp: not_le intro: less_trans)

lemma PrevEpoch_le: "PrevEpoch s \<le> CurrentEpoch s"
  by (auto simp: PrevEpoch_def Let_def word_le_nat_alt unat_minus_one)

lemma slot_epoch_bound:
  fixes s t :: Slot
  assumes "s div 32 \<le> t div 32" "unat t + 32 < 2 ^ 64"
  shows "unat s + 1 < 2 ^ 64" "unat s + 32 < 2 ^ 64 + 32"
  using assms by (simp_all add: word_le_nat_alt unat_div)

lemma verify_slots_ok:
  assumes "verify_slots st d = None" "unat (bs_slot st) + 32 < 2 ^ 64"
  shows "c_Epoch (ad_Target d) = ad_Slot d div SlotsPerEpoch"
    and "c_Epoch (ad_Target d) \<in> {CurrentEpoch st, PrevEpoch st}"
    and "ad_Slot d < bs_slot st"
    and "bs_version st < Deneb \<Longrightarrow> unat (bs_slot st) \<le> unat (ad_Slot d) + 32"
proof -
  have v: "c_Epoch (ad_Target d) = ad_Slot d div 32" "c_Epoch (ad_Target d) \<in> {CurrentEpoch st, PrevEpoch st}"
      "ad_Slot d + 1 \<le> bs_slot st" "bs_version st < Deneb \<longrightarrow> bs_slot st \<le> ad_Slot d + 32"
    using assms(1) by (auto simp: verify_slots_def ValidateSlotTargetEpoch_def MinAttestationInclusionDelay_def SlotsPerEpoch_def Let_def
        split: if_splits)
  then show "c_Epoch (ad_Target d) = ad_Slot d div SlotsPerEpoch" "c_Epoch (ad_Target d) \<in> {CurrentEpoch st, PrevEpoch st}"
    by (simp_all add: SlotsPerEpoch_def)
  have "ad_Slot d div 32 \<le> bs_slot st div 32"
    using v(1,2) PrevEpoch_le [of st] by (auto simp: CurrentEpoch_def SlotsPerEpoch_def)
  then have b: "unat (ad_Slot d) + 1 < 2 ^ 64" using slot_epoch_bound(1) assms(2) by blast
  have "unat (ad_Slot d + 1) = unat (ad_Slot d) + 1" using b by (simp add: unat_word_ariths)
  then show lt: "ad_Slot d < bs_slot st" using v(3) by (simp add: word_le_nat_alt word_less_nat_alt)
  then have "unat (ad_Slot d + 32) = unat (ad_Slot d) + 32"
    using assms(2) by (simp add: word_less_nat_alt unat_word_ariths)
  then show "bs_version st < Deneb \<Longrightarrow> unat (bs_slot st) \<le> unat (ad_Slot d) + 32" using v(4) by (simp add: word_le_nat_alt)
qed

text \<open>Success of the verification, taken apart.\<close>
lemma Verify_ok:
  assumes "VerifyAttestationNoVerifySignature hash cv bl st att = Ret None"
  obtains committee indices where "verify_slots st (at_Data att) = None"
    "BeaconCommitteeFromState hash cv st (ad_Slot (at_Data att)) (ad_CommitteeIndex (at_Data att)) = Ret (committee, None)"
    "AttestingIndices bl (at_AggregationBits att) committee = (indices, None)"
    "indices \<noteq> []" "distinct indices" "set indices \<subseteq> set committee"
proof -
  have v: "verify_slots st (at_Data att) = None"
    using assms by (auto simp: VerifyAttestationNoVerifySignature_def Let_def split: option.splits)
  obtain r where r: "BeaconCommitteeFromState hash cv st (ad_Slot (at_Data att)) (ad_CommitteeIndex (at_Data att)) = Ret r"
      "(case r of (_, Some err) \<Rightarrow> Ret (Some err)
        | (committee, None) \<Rightarrow> (case ConvertToIndexed bl att committee of
            (Some indexedAtt, None) \<Rightarrow> Ret (IsValidAttestationIndices indexedAtt) | (_, err) \<Rightarrow> Ret err)) = Ret None"
    using assms v by (auto simp: VerifyAttestationNoVerifySignature_def Let_def obind_Ret_iff
        split: option.splits if_splits prod.split_asm)
  then obtain committee where c: "r = (committee, None)" by (cases r) (auto split: option.splits)
  obtain indices where i: "AttestingIndices bl (at_AggregationBits att) committee = (indices, None)"
    using r(2) by (cases "AttestingIndices bl (at_AggregationBits att) committee")
      (auto simp: c ConvertToIndexed_def split: option.splits)
  have "indices \<noteq> []" "unique_sorted_loop (sort indices) = None"
    using r(2) by (auto simp: c i ConvertToIndexed_def IsValidAttestationIndices_def Let_def split: if_splits)
  moreover then have "distinct indices" by (metis unique_sorted_loop_iff strict_sorted_iff distinct_sort)
  moreover have "set indices \<subseteq> set committee" using i by (auto simp: AttestingIndices_def split: if_splits)
  ultimately show thesis using that v r(1) i by (auto simp: c)
qed

text \<open>
  (C36) What verification guarantees: an attestation that passes it is of a slot before the state's, its target is
  the epoch of that slot and is the current or the previous epoch, before Deneb it is at most one epoch old, and its
  bits name at least one and pairwise different members of the committee of its slot.
\<close>
theorem verified_attestation:
  assumes "VerifyAttestationNoVerifySignature hash cv bl st att = Ret None" "unat (bs_slot st) + 32 < 2 ^ 64"
  shows "let d = at_Data att
    in ad_Slot d < bs_slot st \<and> c_Epoch (ad_Target d) = ad_Slot d div SlotsPerEpoch
      \<and> c_Epoch (ad_Target d) \<in> {CurrentEpoch st, PrevEpoch st}
      \<and> (bs_version st < Deneb \<longrightarrow> unat (bs_slot st) \<le> unat (ad_Slot d) + 32)
      \<and> (\<exists>committee indices. BeaconCommitteeFromState hash cv st (ad_Slot d) (ad_CommitteeIndex d) = Ret (committee, None)
          \<and> AttestingIndices bl (at_AggregationBits att) committee = (indices, None)
          \<and> indices \<noteq> [] \<and> distinct indices \<and> set indices \<subseteq> set committee)"
  using Verify_ok [OF assms(1)] verify_slots_ok [OF _ assms(2)] unfolding Let_def by metis

lemma demo_verified: "VerifyAttestationNoVerifySignature hash demo_caches demo_bits demo_state demo_attestation = Ret None"
proof -
  have v: "verify_slots demo_state (at_Data demo_attestation) = None"
    by (simp add: verify_slots_def demo_attestation_def PrevEpoch_def CurrentEpoch_def SlotsPerEpoch_def MatchPreviousJustifiedCheckpoint_def
        ValidateSlotTargetEpoch_def MinAttestationInclusionDelay_def)
  obtain seed where s: "Seed hash demo_state 9 DomainBeaconAttester = (seed, None)"
    using small_seed by (metis prod.collapse)
  have c: "ActiveValidatorCount hash demo_caches demo_state 9 = (1, None)"
    by (simp add: ActiveValidatorCount_def s demo_caches_def)
  have b: "BeaconCommitteeFromState hash demo_caches demo_state 319 0 = Ret ([0], None)"
    by (simp add: BeaconCommitteeFromState_def SlotsPerEpoch_def s demo_caches_def)
  show ?thesis using v
    by (simp add: VerifyAttestationNoVerifySignature_def demo_attestation_def c b SlotCommitteeCount_def VerifyAttestationBitfieldLengths_def
      VerifyBitfieldLength_def demo_bits_def ConvertToIndexed_def AttestingIndices_def IsValidAttestationIndices_def
      MaxValidatorsPerCommittee_def SlotsPerEpoch_def MaxCommitteesPerSlot_def TargetCommitteeSize_def)
qed

theorem verified_attestation_witness:
  "ad_Slot (at_Data demo_attestation) < bs_slot demo_state \<and> PrevEpoch demo_state = 319 div SlotsPerEpoch"
  using verified_attestation [OF demo_verified] by (simp add: Let_def demo_attestation_def PrevEpoch_def CurrentEpoch_def SlotsPerEpoch_def)

subsection \<open>Pending attestations\<close>

text \<open>The pending attestation of a block's attestation, and the state with it.\<close>
definition pending_of :: "Attestation \<Rightarrow> Slot \<Rightarrow> ValidatorIndex \<Rightarrow> PendingAttestation" where
  "pending_of att sl proposer = \<lparr>pa_AggregationBits = at_AggregationBits att, pa_Data = at_Data att,
     pa_InclusionDelay = sl - ad_Slot (at_Data att), pa_ProposerIndex = proposer\<rparr>"

definition with_pending :: "Attestation \<Rightarrow> ValidatorIndex \<Rightarrow> BeaconState \<Rightarrow> BeaconState" where
  "with_pending att proposer st =
    (if c_Epoch (ad_Target (at_Data att)) = CurrentEpoch st
     then st\<lparr>bs_currentEpochAttestations := bs_currentEpochAttestations st @ [pending_of att (bs_slot st) proposer]\<rparr>
     else st\<lparr>bs_previousEpochAttestations := bs_previousEpochAttestations st @ [pending_of att (bs_slot st) proposer]\<rparr>)"

text \<open>What the lists of a Phase 0 state satisfy between blocks: their lengths are bounded and every delay is from 1 to 32 slots.\<close>
definition pending_ok :: "BeaconState \<Rightarrow> bool" where
  "pending_ok st \<longleftrightarrow> length (bs_currentEpochAttestations st) \<le> 4096 \<and> length (bs_previousEpochAttestations st) \<le> 4096
    \<and> (\<forall>a \<in> set (bs_currentEpochAttestations st) \<union> set (bs_previousEpochAttestations st). unat (pa_InclusionDelay a) \<in> {1..32})"

lemma ProcessAttestation_ok:
  assumes "ProcessAttestationNoVerifySignature hash cv bl att st = Ret (st', None)"
  obtains proposer where "VerifyAttestationNoVerifySignature hash cv bl st att = Ret None"
    "BeaconProposerIndex hash cv st = Ret (proposer, None)" "st' = with_pending att proposer st" "bs_version st = Phase0"
    "c_Epoch (ad_Target (at_Data att)) = CurrentEpoch st \<longrightarrow> length (bs_currentEpochAttestations st) < 4096"
    "c_Epoch (ad_Target (at_Data att)) \<noteq> CurrentEpoch st \<longrightarrow> length (bs_previousEpochAttestations st) < 4096"
proof -
  have v: "VerifyAttestationNoVerifySignature hash cv bl st att = Ret None"
    using assms by (auto simp: ProcessAttestationNoVerifySignature_def obind_Ret_iff split: option.splits)
  obtain proposer where p: "BeaconProposerIndex hash cv st = Ret (proposer, None)"
    using assms v by (auto simp: ProcessAttestationNoVerifySignature_def obind_Ret_iff split: prod.splits option.splits)
  show thesis
    using assms v p that by (auto simp: ProcessAttestationNoVerifySignature_def Let_def with_pending_def pending_of_def
        AppendCurrentEpochAttestations_def AppendPreviousEpochAttestations_def CurrentEpochAttestationsLength_def
        PreviousEpochAttestationsLength_def SlotsPerEpoch_def MaxAttestations_def split: if_splits)
qed

lemma pending_of_delay:
  assumes "VerifyAttestationNoVerifySignature hash cv bl st att = Ret None" "unat (bs_slot st) + 32 < 2 ^ 64" "bs_version st < Deneb"
  shows "unat (pa_InclusionDelay (pending_of att (bs_slot st) proposer)) \<in> {1..32}"
proof -
  obtain x y where "verify_slots st (at_Data att) = None" using Verify_ok [OF assms(1)] by metis
  note ok = verify_slots_ok [OF this assms(2)]
  show ?thesis using ok(3) ok(4) [OF assms(3)] by (auto simp: pending_of_def unat_sub word_less_nat_alt word_le_nat_alt)
qed

text \<open>
  The attestations of a Phase 0 block: when all are accepted, the pending lists keep their bounds and every delay
  stays from 1 to 32 slots, so that the later division by the delay is safe; nothing but the two lists changes,
  and they only grow, by as many entries as the block has attestations.
\<close>
theorem block_attestations_pending:
  assumes "ProcessAttestationsNoVerifySignature hash cv bl atts st = Ret (st', None)" "pending_ok st" "unat (bs_slot st) + 32 < 2 ^ 64"
  shows "pending_ok st' \<and> (\<exists>cur prev. st' = st\<lparr>bs_currentEpochAttestations := bs_currentEpochAttestations st @ cur,
      bs_previousEpochAttestations := bs_previousEpochAttestations st @ prev\<rparr> \<and> length cur + length prev = length atts
      \<and> pa_Data ` set (cur @ prev) = at_Data ` set atts)"
  using assms
proof (induction atts arbitrary: st)
  case (Cons att atts)
  obtain st1 where p: "ProcessAttestationNoVerifySignature hash cv bl att st = Ret (st1, None)"
      "ProcessAttestationsNoVerifySignature hash cv bl atts st1 = Ret (st', None)"
    using Cons.prems(1) by (auto simp: obind_Ret_iff split: prod.splits option.splits)
  obtain proposer where q: "VerifyAttestationNoVerifySignature hash cv bl st att = Ret None" "st1 = with_pending att proposer st"
      "bs_version st = Phase0"
      "c_Epoch (ad_Target (at_Data att)) = CurrentEpoch st \<longrightarrow> length (bs_currentEpochAttestations st) < 4096"
      "c_Epoch (ad_Target (at_Data att)) \<noteq> CurrentEpoch st \<longrightarrow> length (bs_previousEpochAttestations st) < 4096"
    using ProcessAttestation_ok [OF p(1)] by metis
  let ?p = "pending_of att (bs_slot st) proposer"
  have d: "unat (pa_InclusionDelay ?p) \<in> {1..32}"
    using pending_of_delay [OF q(1) Cons.prems(3)] q(3) by (simp add: Phase0_def Deneb_def)
  have "pending_ok st1" using Cons.prems(2) q(4,5) d by (auto simp: pending_ok_def q(2) with_pending_def)
  moreover have "unat (bs_slot st1) + 32 < 2 ^ 64" using Cons.prems(3) by (simp add: q(2) with_pending_def)
  ultimately obtain cur prev where st': "pending_ok st'"
      "st' = st1\<lparr>bs_currentEpochAttestations := bs_currentEpochAttestations st1 @ cur,
        bs_previousEpochAttestations := bs_previousEpochAttestations st1 @ prev\<rparr>"
      "length cur + length prev = length atts" "pa_Data ` set (cur @ prev) = at_Data ` set atts"
    using Cons.IH [OF p(2)] by blast
  show ?case
  proof (cases "c_Epoch (ad_Target (at_Data att)) = CurrentEpoch st")
    case True
    then show ?thesis using st' by (intro conjI exI [of _ "?p # cur"] exI [of _ prev]) (auto simp: q(2) with_pending_def pending_of_def)
  next
    case False
    then show ?thesis using st' by (intro conjI exI [of _ cur] exI [of _ "?p # prev"]) (auto simp: q(2) with_pending_def pending_of_def)
  qed
qed simp

lemma demo_proposer: "BeaconProposerIndex hash demo_caches demo_state = Ret (0, None)"
proof -
  have "EpochEnd 9 = (319, None)" by (simp add: EpochEnd_ok MaxSafeEpoch_def SlotsPerEpoch_def word_less_nat_alt unat_div)
  moreover have "StateRootAtSlot demo_state 319 = (Some (replicate 32 9), None)"
    by (simp add: StateRootAtSlot_def StateRootAtIndex_def out_of_range_def SlotsPerHistoricalRoot_def)
  moreover have "replicate 32 (9 :: u8) \<noteq> replicate 32 0" by simp
  ultimately show ?thesis
    by (simp add: BeaconProposerIndex_def BeaconProposerIndexAtSlot_def SlotsPerEpoch_def GenesisEpoch_def MinSeedLookahead_def
      cachedProposerIndexAtSlot_def demo_caches_def)
qed

theorem block_attestations_pending_witness:
  "\<exists>st'. ProcessAttestationsNoVerifySignature id demo_caches demo_bits [demo_attestation] demo_state = Ret (st', None) \<and> pending_ok st'"
proof -
  have "pending_ok demo_state" by (simp add: pending_ok_def)
  moreover obtain st' where p: "ProcessAttestationsNoVerifySignature id demo_caches demo_bits [demo_attestation] demo_state = Ret (st', None)"
    by (simp add: ProcessAttestationNoVerifySignature_def demo_verified [unfolded demo_attestation_def] demo_proposer demo_attestation_def Let_def
        CurrentEpoch_def SlotsPerEpoch_def AppendPreviousEpochAttestations_def PreviousEpochAttestationsLength_def MaxAttestations_def)
  ultimately show ?thesis using block_attestations_pending [OF p] p by auto
qed

end
