(* ===== verification/BlockOperations.thy ===== *)
theory BlockOperations
  imports BlockAttestations
begin

text \<open>
  Slashings, voluntary exits and the randao reveal of a block: \<^verbatim>\<open>beacon-chain/core/blocks/attester_slashing.go\<close>,
  \<^verbatim>\<open>proposer_slashing.go\<close>, \<^verbatim>\<open>exit.go\<close> and \<^verbatim>\<open>randao.go\<close>, and \<^verbatim>\<open>VerifyIndexedAttestation\<close> of \<^verbatim>\<open>attestation.go\<close>.

  The functions return what the code returns: no state (\<open>None\<close>) with an error. Messages and their fields are not nil. The checks
  of signatures rest on BLS and on generated hash tree roots and are arguments (\<open>crypto\<close>); the statements hold
  for every choice of them.
\<close>

unbundle bit_operations_syntax

definition MinSlashingPenaltyQuotient :: u64 where "MinSlashingPenaltyQuotient = 128"
definition MinSlashingPenaltyQuotientAltair :: u64 where "MinSlashingPenaltyQuotientAltair = 64"
definition MinSlashingPenaltyQuotientBellatrix :: u64 where "MinSlashingPenaltyQuotientBellatrix = 32"
definition ShardCommitteePeriod :: Epoch where "ShardCommitteePeriod = 256"

record SignedBeaconBlockHeader =
  sh_Header :: BeaconBlockHeader
  sh_Signature :: "u8 list"

record ProposerSlashing =
  ps_Header_1 :: SignedBeaconBlockHeader
  ps_Header_2 :: SignedBeaconBlockHeader

record AttesterSlashing =
  as_Attestation_1 :: IndexedAttestation
  as_Attestation_2 :: IndexedAttestation

record VoluntaryExit =
  ve_Epoch :: Epoch
  ve_ValidatorIndex :: ValidatorIndex

record SignedVoluntaryExit =
  sv_Exit :: VoluntaryExit
  sv_Signature :: "u8 list"

text \<open>
  The parts of the package \<^verbatim>\<open>core/signing\<close> and of BLS that are used: the domain under the fork of a state and under the fixed Capella
  fork, the decoding of a public key, and the three checks of a signature.
\<close>
record crypto =
  cr_Domain :: "BeaconState \<Rightarrow> Epoch \<Rightarrow> u8 list \<Rightarrow> u8 list result"
  cr_CapellaDomain :: "BeaconState \<Rightarrow> Epoch \<Rightarrow> u8 list \<Rightarrow> u8 list result"
  cr_PublicKeyFromBytes :: "u8 list \<Rightarrow> u8 list result"
  cr_VerifyIndexedAttestationSig :: "IndexedAttestation \<Rightarrow> u8 list list \<Rightarrow> u8 list \<Rightarrow> go_error option"
  cr_ComputeDomainVerifySigningRoot ::
    "BeaconState \<Rightarrow> ValidatorIndex \<Rightarrow> Epoch \<Rightarrow> BeaconBlockHeader \<Rightarrow> u8 list \<Rightarrow> u8 list \<Rightarrow> go_error option"
  cr_VerifySigningRoot :: "VoluntaryExit \<Rightarrow> u8 list \<Rightarrow> u8 list \<Rightarrow> u8 list \<Rightarrow> go_error option"

definition ErrSigFailedToVerify :: go_error where
  "ErrSigFailedToVerify = Sentinel ''signature did not verify''"

definition DomainVoluntaryExit :: "u8 list" where "DomainVoluntaryExit = [4, 0, 0, 0]"

subsection \<open>Slashings\<close>

definition AttDataIsEqual :: "AttestationData \<Rightarrow> AttestationData \<Rightarrow> bool" where
  "AttDataIsEqual attData1 attData2 =
    (if ad_Slot attData1 \<noteq> ad_Slot attData2 then False
     else if ad_CommitteeIndex attData1 \<noteq> ad_CommitteeIndex attData2 then False
     else if ad_BeaconBlockRoot attData1 \<noteq> ad_BeaconBlockRoot attData2 then False
     else if c_Epoch (ad_Source attData1) \<noteq> c_Epoch (ad_Source attData2) then False
     else if c_Root (ad_Source attData1) \<noteq> c_Root (ad_Source attData2) then False
     else if c_Epoch (ad_Target attData1) \<noteq> c_Epoch (ad_Target attData2) then False
     else if c_Root (ad_Target attData1) \<noteq> c_Root (ad_Target attData2) then False
     else True)"

definition IsSurround :: "IndexedAttestation \<Rightarrow> IndexedAttestation \<Rightarrow> bool" where
  "IsSurround a b \<longleftrightarrow> c_Epoch (ad_Source (ia_Data a)) < c_Epoch (ad_Source (ia_Data b))
     \<and> c_Epoch (ad_Target (ia_Data b)) < c_Epoch (ad_Target (ia_Data a))"

definition IsSlashableAttestationData :: "AttestationData \<Rightarrow> AttestationData \<Rightarrow> bool" where
  "IsSlashableAttestationData data1 data2 =
    (let isDoubleVote = (\<not> AttDataIsEqual data1 data2 \<and> c_Epoch (ad_Target data1) = c_Epoch (ad_Target data2));
         att1 = \<lparr>ia_AttestingIndices = [], ia_Data = data1, ia_Signature = []\<rparr>;
         att2 = \<lparr>ia_AttestingIndices = [], ia_Data = data2, ia_Signature = []\<rparr>;
         isSurroundVote = IsSurround att1 att2
     in isDoubleVote \<or> isSurroundVote)"

definition SlashableAttesterIndices :: "AttesterSlashing \<Rightarrow> u64 list" where
  "SlashableAttesterIndices slashing =
     IntersectionUint64 [ia_AttestingIndices (as_Attestation_1 slashing), ia_AttestingIndices (as_Attestation_2 slashing)]"

fun pubkeys_loop :: "crypto \<Rightarrow> BeaconState \<Rightarrow> u64 list \<Rightarrow> u8 list list \<Rightarrow> u8 list list result" where
  "pubkeys_loop cr s [] pubkeys = (pubkeys, None)"
| "pubkeys_loop cr s (index # indices) pubkeys = (case cr_PublicKeyFromBytes cr (PubkeyAtIndex s index) of
     (_, Some err) \<Rightarrow> ([], Some (Wrap ''could not deserialize validator public key'' err))
   | (pk, None) \<Rightarrow> pubkeys_loop cr s indices (pubkeys @ [pk]))"

definition VerifyIndexedAttestation :: "crypto \<Rightarrow> BeaconState \<Rightarrow> IndexedAttestation \<Rightarrow> go_error option" where
  "VerifyIndexedAttestation cr s indexedAtt = (case IsValidAttestationIndices indexedAtt of
     Some err \<Rightarrow> Some err
   | None \<Rightarrow> (case cr_Domain cr s (c_Epoch (ad_Target (ia_Data indexedAtt))) DomainBeaconAttester of
       (_, Some err) \<Rightarrow> Some err
     | (dm, None) \<Rightarrow> (case pubkeys_loop cr s (ia_AttestingIndices indexedAtt) [] of
         (_, Some err) \<Rightarrow> Some err
       | (pubkeys, None) \<Rightarrow> cr_VerifyIndexedAttestationSig cr indexedAtt pubkeys dm)))"

definition VerifyAttesterSlashing :: "crypto \<Rightarrow> BeaconState \<Rightarrow> AttesterSlashing \<Rightarrow> go_error option" where
  "VerifyAttesterSlashing cr s slashing =
    (let att1 = as_Attestation_1 slashing; att2 = as_Attestation_2 slashing; data1 = ia_Data att1; data2 = ia_Data att2
     in if \<not> IsSlashableAttestationData data1 data2 then Some (Fresh ''attestations are not slashable'')
        else case VerifyIndexedAttestation cr s att1 of
          Some err \<Rightarrow> Some (Wrap ''could not validate indexed attestation'' err)
        | None \<Rightarrow> (case VerifyIndexedAttestation cr s att2 of
            Some err \<Rightarrow> Some (Wrap ''could not validate indexed attestation'' err)
          | None \<Rightarrow> None))"

text \<open>The switch on the version of the state, in both kinds of slashing.\<close>
definition slashing_quotient :: "BeaconState \<Rightarrow> u64 result" where
  "slashing_quotient s =
    (if bs_version s = Phase0 then (MinSlashingPenaltyQuotient, None)
     else if bs_version s = Altair then (MinSlashingPenaltyQuotientAltair, None)
     else if bs_version s \<ge> Bellatrix then (MinSlashingPenaltyQuotientBellatrix, None)
     else (0, Some (Fresh ''unknown state version'')))"

type_synonym slashValidatorFunc =
  "ValidatorIndex \<Rightarrow> u64 \<Rightarrow> u64 \<Rightarrow> BeaconState \<Rightarrow> (BeaconState \<times> go_error option) outcome"

fun slash_loop ::
  "slashValidatorFunc \<Rightarrow> Epoch \<Rightarrow> u64 list \<Rightarrow> bool \<Rightarrow> BeaconState \<Rightarrow> (BeaconState option \<times> go_error option) outcome" where
  "slash_loop slashFunc currentEpoch [] slashedAny s =
    Ret (if \<not> slashedAny then (None, Some (Fresh ''unable to slash any validator despite confirmed attester slashing''))
         else (Some s, None))"
| "slash_loop slashFunc currentEpoch (validatorIndex # indices) slashedAny s =
    (case ValidatorAtIndexReadOnly s validatorIndex of
       (Some val, None) \<Rightarrow>
         if IsSlashableValidator (v_ActivationEpoch val) (v_WithdrawableEpoch val) (v_Slashed val) currentEpoch then
           (case slashing_quotient s of
              (_, Some err) \<Rightarrow> Ret (None, Some err)
            | (slashingQuotient, None) \<Rightarrow> obind (slashFunc validatorIndex slashingQuotient ProposerRewardQuotient s) (\<lambda>r. case r of
                (_, Some err) \<Rightarrow> Ret (None, Some (Wrap ''could not slash validator index'' err))
              | (s, None) \<Rightarrow> slash_loop slashFunc currentEpoch indices True s))
         else slash_loop slashFunc currentEpoch indices slashedAny s
     | (_, err) \<Rightarrow> Ret (None, err))"

definition ProcessAttesterSlashing ::
  "crypto \<Rightarrow> slashValidatorFunc \<Rightarrow> AttesterSlashing \<Rightarrow> BeaconState \<Rightarrow> (BeaconState option \<times> go_error option) outcome" where
  "ProcessAttesterSlashing cr slashFunc slashing s = (case VerifyAttesterSlashing cr s slashing of
     Some err \<Rightarrow> Ret (None, Some (Wrap ''could not verify attester slashing'' err))
   | None \<Rightarrow>
       let slashableIndices = sort (SlashableAttesterIndices slashing);
           currentEpoch = bs_slot s div SlotsPerEpoch
       in slash_loop slashFunc currentEpoch slashableIndices False s)"

text \<open>The loop over the operations of one kind: the first error ends it, and a nil state is not used.\<close>
fun operations_loop ::
  "('a \<Rightarrow> BeaconState \<Rightarrow> (BeaconState option \<times> go_error option) outcome) \<Rightarrow> 'a list \<Rightarrow> BeaconState
    \<Rightarrow> (BeaconState option \<times> go_error option) outcome" where
  "operations_loop process [] s = Ret (Some s, None)"
| "operations_loop process (x # xs) s = obind (process x s) (\<lambda>r. case r of
     (_, Some err) \<Rightarrow> Ret (None, Some err)
   | (Some s, None) \<Rightarrow> operations_loop process xs s
   | (None, None) \<Rightarrow> (if xs = [] then Ret (None, None) else Panic))"

definition ProcessAttesterSlashings ::
  "crypto \<Rightarrow> slashValidatorFunc \<Rightarrow> AttesterSlashing list \<Rightarrow> BeaconState \<Rightarrow> (BeaconState option \<times> go_error option) outcome" where
  "ProcessAttesterSlashings cr slashFunc slashings s = operations_loop (ProcessAttesterSlashing cr slashFunc) slashings s"

definition VerifyProposerSlashing :: "crypto \<Rightarrow> BeaconState \<Rightarrow> ProposerSlashing \<Rightarrow> go_error option" where
  "VerifyProposerSlashing cr s slashing =
    (let header_1 = sh_Header (ps_Header_1 slashing); header_2 = sh_Header (ps_Header_2 slashing);
         hSlot = bh_Slot header_1; pIdx = bh_ProposerIndex header_1
     in if hSlot \<noteq> bh_Slot header_2 then Some (Fresh ''mismatched header slots'')
        else if pIdx \<noteq> bh_ProposerIndex header_2 then Some (Fresh ''mismatched indices'')
        else if header_1 = header_2 then Some (Fresh ''expected slashing headers to differ'')
        else case ValidatorAtIndexReadOnly s pIdx of
          (Some proposer, None) \<Rightarrow>
            if \<not> IsSlashableValidatorUsingTrie proposer (CurrentEpoch s) then Some (Fresh ''validator is not slashable'')
            else (case cr_ComputeDomainVerifySigningRoot cr s pIdx (hSlot div SlotsPerEpoch) header_1 DomainBeaconProposer
                (sh_Signature (ps_Header_1 slashing)) of
              Some err \<Rightarrow> Some (Wrap ''could not verify beacon block header'' err)
            | None \<Rightarrow> (case cr_ComputeDomainVerifySigningRoot cr s pIdx (hSlot div SlotsPerEpoch) header_2 DomainBeaconProposer
                (sh_Signature (ps_Header_2 slashing)) of
                Some err \<Rightarrow> Some (Wrap ''could not verify beacon block header'' err)
              | None \<Rightarrow> None))
        | (_, err) \<Rightarrow> err)"

definition ProcessProposerSlashing ::
  "crypto \<Rightarrow> slashValidatorFunc \<Rightarrow> ProposerSlashing \<Rightarrow> BeaconState \<Rightarrow> (BeaconState option \<times> go_error option) outcome" where
  "ProcessProposerSlashing cr slashFunc slashing s = (case VerifyProposerSlashing cr s slashing of
     Some err \<Rightarrow> Ret (None, Some (Wrap ''could not verify proposer slashing'' err))
   | None \<Rightarrow> (case slashing_quotient s of
       (_, Some err) \<Rightarrow> Ret (None, Some err)
     | (slashingQuotient, None) \<Rightarrow>
         obind (slashFunc (bh_ProposerIndex (sh_Header (ps_Header_1 slashing))) slashingQuotient ProposerRewardQuotient s) (\<lambda>r. case r of
           (_, Some err) \<Rightarrow> Ret (None, Some (Wrap ''could not slash proposer index'' err))
         | (s, None) \<Rightarrow> Ret (Some s, None))))"

definition ProcessProposerSlashings ::
  "crypto \<Rightarrow> slashValidatorFunc \<Rightarrow> ProposerSlashing list \<Rightarrow> BeaconState \<Rightarrow> (BeaconState option \<times> go_error option) outcome" where
  "ProcessProposerSlashings cr slashFunc slashings s = operations_loop (ProcessProposerSlashing cr slashFunc) slashings s"

subsection \<open>Voluntary exits\<close>

definition verifyExitConditions :: "Validator \<Rightarrow> Slot \<Rightarrow> VoluntaryExit \<Rightarrow> go_error option" where
  "verifyExitConditions validator currentSlot exit =
    (let currentEpoch = currentSlot div SlotsPerEpoch
     in if \<not> IsActiveValidatorUsingTrie validator currentEpoch then Some (Fresh ''non-active validator cannot exit'')
        else if v_ExitEpoch validator \<noteq> FarFutureEpoch then Some (Fresh ''validator has already submitted an exit'')
        else if currentEpoch < ve_Epoch exit then Some (Fresh ''expected current epoch >= exit epoch'')
        else if currentEpoch < v_ActivationEpoch validator + ShardCommitteePeriod
          then Some (Fresh ''validator has not been active long enough to exit'')
        else None)"

definition VerifyExitAndSignature :: "crypto \<Rightarrow> Validator \<Rightarrow> BeaconState \<Rightarrow> SignedVoluntaryExit \<Rightarrow> go_error option" where
  "VerifyExitAndSignature cr validator s signedExit =
    (let exit = sv_Exit signedExit
     in case verifyExitConditions validator (bs_slot s) exit of
          Some err \<Rightarrow> Some err
        | None \<Rightarrow> (case (if bs_version s \<ge> Deneb then cr_CapellaDomain else cr_Domain) cr s (ve_Epoch exit) DomainVoluntaryExit of
            (_, Some err) \<Rightarrow> Some err
          | (dm, None) \<Rightarrow> (case cr_VerifySigningRoot cr exit (take 48 (v_PublicKey validator @ replicate 48 0)) (sv_Signature signedExit) dm of
              Some err \<Rightarrow> Some ErrSigFailedToVerify
            | None \<Rightarrow> None)))"

text \<open>
  The loop over the exits, with the end of the exit queue and its churn kept up to date. When the error of
  \<^verbatim>\<open>InitiateValidatorExit\<close> wraps \<^verbatim>\<open>ErrValidatorAlreadyExited\<close>, the state is nil and the loop goes on.
\<close>
fun exits_loop ::
  "(u8 list \<Rightarrow> u8 list) \<Rightarrow> cache_view \<Rightarrow> crypto \<Rightarrow> SignedVoluntaryExit list \<Rightarrow> Epoch \<Rightarrow> u64 \<Rightarrow> BeaconState
    \<Rightarrow> (BeaconState option \<times> go_error option) outcome" where
  "exits_loop hash cv cr [] maxExitEpoch churn s = Ret (Some s, None)"
| "exits_loop hash cv cr (exit # exits) maxExitEpoch churn s = (case ValidatorAtIndexReadOnly s (ve_ValidatorIndex (sv_Exit exit)) of
     (Some val, None) \<Rightarrow> (case VerifyExitAndSignature cr val s exit of
         Some err \<Rightarrow> Ret (None, Some (Wrap ''could not verify exit'' err))
       | None \<Rightarrow> (case InitiateValidatorExit hash cv (ve_ValidatorIndex (sv_Exit exit)) maxExitEpoch churn s of
           (s, exitEpoch, None) \<Rightarrow>
             let (maxExitEpoch, churn) = (if exitEpoch > maxExitEpoch then (exitEpoch, 1)
                   else if exitEpoch = maxExitEpoch then (maxExitEpoch, churn + 1) else (maxExitEpoch, churn))
             in exits_loop hash cv cr exits maxExitEpoch churn s
         | (s, _, Some err) \<Rightarrow>
             if err = ErrValidatorAlreadyExited then exits_loop hash cv cr exits maxExitEpoch churn s
             else if errors_Is err ErrValidatorAlreadyExited then (if exits = [] then Ret (None, None) else Panic)
             else Ret (None, Some err)))
   | (_, err) \<Rightarrow> Ret (None, err))"

definition ProcessVoluntaryExits ::
  "(u8 list \<Rightarrow> u8 list) \<Rightarrow> cache_view \<Rightarrow> crypto \<Rightarrow> SignedVoluntaryExit list \<Rightarrow> BeaconState
    \<Rightarrow> (BeaconState option \<times> go_error option) outcome" where
  "ProcessVoluntaryExits hash cv cr exits s =
    (if length exits = 0 then Ret (Some s, None)
     else let (maxExitEpoch, churn) = MaxExitEpochAndChurn s in exits_loop hash cv cr exits maxExitEpoch churn s)"

subsection \<open>Randao\<close>

definition ProcessRandaoNoVerify :: "(u8 list \<Rightarrow> u8 list) \<Rightarrow> u8 list \<Rightarrow> BeaconState \<Rightarrow> BeaconState option \<times> go_error option" where
  "ProcessRandaoNoVerify hash randaoReveal s =
    (let currentEpoch = bs_slot s div SlotsPerEpoch; latestMixesLength = EpochsPerHistoricalVector
     in case RandaoMixAtIndex s (currentEpoch mod latestMixesLength) of
          (_, Some err) \<Rightarrow> (None, Some err)
        | (latestMixSlice, None) \<Rightarrow>
            let blockRandaoReveal = hash randaoReveal
            in if length blockRandaoReveal \<noteq> length latestMixSlice
               then (None, Some (Fresh ''blockRandaoReveal length doesn't match latestMixSlice length''))
               else (case UpdateRandaoMixesAtIndex (currentEpoch mod latestMixesLength) (map2 (XOR) latestMixSlice blockRandaoReveal) s of
                   (_, Some err) \<Rightarrow> (None, Some err)
                 | (s, None) \<Rightarrow> (Some s, None)))"

subsection \<open>What is slashable\<close>

lemma AttDataIsEqual_iff: "AttDataIsEqual d1 d2 \<longleftrightarrow> d1 = d2"
  by (auto simp: AttDataIsEqual_def intro!: AttestationData.equality CheckpointPB.equality)

text \<open>
  The conditions of Casper FFG: two votes are slashable exactly if they are different votes for the same target epoch or the first
  surrounds the second; and no two different votes of a validator whose target epochs increase and whose source
  epochs do not decrease are slashable, in either order.
\<close>
theorem slashable_votes:
  "(IsSlashableAttestationData d1 d2 \<longleftrightarrow>
      (d1 \<noteq> d2 \<and> c_Epoch (ad_Target d1) = c_Epoch (ad_Target d2))
      \<or> (c_Epoch (ad_Source d1) < c_Epoch (ad_Source d2) \<and> c_Epoch (ad_Target d2) < c_Epoch (ad_Target d1)))
    \<and> (c_Epoch (ad_Target d1) < c_Epoch (ad_Target d2) \<and> c_Epoch (ad_Source d1) \<le> c_Epoch (ad_Source d2) \<longrightarrow>
      \<not> IsSlashableAttestationData d1 d2 \<and> \<not> IsSlashableAttestationData d2 d1)"
  by (auto simp: IsSlashableAttestationData_def IsSurround_def AttDataIsEqual_iff Let_def)

theorem slashable_votes_witness:
  "let d1 = at_Data demo_attestation; d2 = d1\<lparr>ad_Target := \<lparr>c_Epoch = 10, c_Root = []\<rparr>\<rparr>; d3 = d1\<lparr>ad_Slot := 318\<rparr>
   in \<not> IsSlashableAttestationData d1 d2 \<and> \<not> IsSlashableAttestationData d2 d1 \<and> IsSlashableAttestationData d1 d3"
  using slashable_votes [of "at_Data demo_attestation" "(at_Data demo_attestation)\<lparr>ad_Target := \<lparr>c_Epoch = 10, c_Root = []\<rparr>\<rparr>"]
    slashable_votes [of "at_Data demo_attestation" "(at_Data demo_attestation)\<lparr>ad_Slot := 318\<rparr>"]
  by (simp add: demo_attestation_def Let_def)

text \<open>The validators that a list of indices can still slash.\<close>
definition slashable_in :: "Validator list \<Rightarrow> Epoch \<Rightarrow> u64 list \<Rightarrow> nat set" where
  "slashable_in vs e is = {i. i \<in> unat ` set is \<and> IsSlashableValidatorUsingTrie (vs ! i) e}"

lemma slash_loop_ok:
  assumes "slash_loop (SlashValidator hash cv) e is any s = Ret (r, None)"
    and "bs_validators s = Some vs" "bs_balances s = Some bs" "distinct is"
  shows "\<exists>t vs'. r = Some t \<and> bs_validators t = Some vs' \<and> length vs' = length vs \<and> (\<forall>j \<in> set is. unat j < length vs)
    \<and> (\<forall>i < length vs. if i \<in> slashable_in vs e is then v_Slashed (vs' ! i) else vs' ! i = vs ! i)
    \<and> (any \<or> slashable_in vs e is \<noteq> {})"
  using assms
proof (induction "is" arbitrary: any s vs bs)
  case Nil
  then show ?case by (auto simp: slashable_in_def split: if_splits)
next
  case (Cons j js)
  have j: "unat j < length vs"
    using Cons.prems(1,2) by (auto simp: ValidatorAtIndexReadOnly_def out_of_range_def split: if_splits)
  have v: "ValidatorAtIndexReadOnly s j = (Some (vs ! unat j), None)"
    using Cons.prems(2) j by (simp add: ValidatorAtIndexReadOnly_def out_of_range_def)
  have split: "slashable_in ws e (j # js) = (if IsSlashableValidatorUsingTrie (ws ! unat j) e then insert (unat j) (slashable_in ws e js)
      else slashable_in ws e js)" for ws by (auto simp: slashable_in_def)
  have nj: "unat j \<notin> unat ` set js" using Cons.prems(4) by (auto simp flip: word_unat_eq_iff)
  show ?case
  proof (cases "IsSlashableValidatorUsingTrie (vs ! unat j) e")
    case False
    then have "slash_loop (SlashValidator hash cv) e js any s = Ret (r, None)"
      using Cons.prems(1) by (simp add: v IsSlashableValidator_def IsSlashableValidatorUsingTrie_def)
    from Cons.IH [OF this Cons.prems(2,3)] show ?thesis using Cons.prems(4) j False by (simp add: split)
  next
    case True
    then obtain q s1 where s1: "SlashValidator hash cv j q ProposerRewardQuotient s = Ret (s1, None)"
        "slash_loop (SlashValidator hash cv) e js True s1 = Ret (r, None)"
      using Cons.prems(1) by (auto simp: v IsSlashableValidator_def IsSlashableValidatorUsingTrie_def obind_Ret_iff
          split: prod.splits option.splits)
    obtain w bs' where w: "bs_validators s1 = Some (vs[unat j := w])" "bs_balances s1 = Some bs'" "v_Slashed w"
      by (rule SlashValidator_ok [OF Cons.prems(2,3) s1(1)]) simp
    have same: "slashable_in (vs[unat j := w]) e js = slashable_in vs e js"
      unfolding slashable_in_def using nj by (intro Collect_cong) (auto simp: image_iff nth_list_update_neq)
    have "unat j \<notin> slashable_in vs e js" using nj by (simp add: slashable_in_def)
    then show ?thesis
      using Cons.IH [OF s1(2) w(1,2)] Cons.prems(4) j True w(3) by (auto simp: split same nth_list_update)
  qed
qed

text \<open>
  (C34) An attester slashing that is accepted rests on two slashable votes; the validators that it slashes are exactly those that
  signed both and could still be slashed, at least one, and no other validator changes.
\<close>
theorem attester_slashing_exact:
  assumes "ProcessAttesterSlashing cr (SlashValidator hash cv) sl s = Ret (r, None)"
    and "bs_validators s = Some vs" "bs_balances s = Some bs"
  defines "both \<equiv> unat ` (set (ia_AttestingIndices (as_Attestation_1 sl)) \<inter> set (ia_AttestingIndices (as_Attestation_2 sl)))"
  shows "IsSlashableAttestationData (ia_Data (as_Attestation_1 sl)) (ia_Data (as_Attestation_2 sl))
    \<and> both \<subseteq> {..<length vs} \<and> (\<exists>i \<in> both. IsSlashableValidatorUsingTrie (vs ! i) (CurrentEpoch s))
    \<and> (\<exists>t vs'. r = Some t \<and> bs_validators t = Some vs' \<and> length vs' = length vs
      \<and> (\<forall>i < length vs. if i \<in> both \<and> IsSlashableValidatorUsingTrie (vs ! i) (CurrentEpoch s) then v_Slashed (vs' ! i)
          else vs' ! i = vs ! i))"
proof -
  let ?is = "sort (SlashableAttesterIndices sl)"
  have v: "VerifyAttesterSlashing cr s sl = None" and l: "slash_loop (SlashValidator hash cv) (CurrentEpoch s) ?is False s = Ret (r, None)"
    using assms(1) by (auto simp: ProcessAttesterSlashing_def Let_def CurrentEpoch_def split: option.splits)
  have "distinct ?is" and m: "set ?is = set (ia_AttestingIndices (as_Attestation_1 sl)) \<inter> set (ia_AttestingIndices (as_Attestation_2 sl))"
    using Intersection_spec [of "[ia_AttestingIndices (as_Attestation_1 sl), ia_AttestingIndices (as_Attestation_2 sl)]"]
    by (auto simp: SlashableAttesterIndices_def)
  have s: "IsSlashableAttestationData (ia_Data (as_Attestation_1 sl)) (ia_Data (as_Attestation_2 sl))"
    using v by (auto simp: VerifyAttesterSlashing_def Let_def split: if_splits)
  have b: "slashable_in vs (CurrentEpoch s) ?is = {i \<in> both. IsSlashableValidatorUsingTrie (vs ! i) (CurrentEpoch s)}"
    unfolding slashable_in_def m both_def by auto
  show ?thesis using slash_loop_ok [OF l assms(2,3) \<open>distinct ?is\<close>] s unfolding b m both_def by auto
qed

text \<open>
  An accepted proposer slashing shows two different headers of one proposer for one slot; it slashes that proposer, who could still
  be slashed, and no other validator.
\<close>
theorem proposer_slashing_exact:
  assumes "ProcessProposerSlashing cr (SlashValidator hash cv) sl s = Ret (r, None)"
    and "bs_validators s = Some vs" "bs_balances s = Some bs"
  defines "h1 \<equiv> sh_Header (ps_Header_1 sl)" and "h2 \<equiv> sh_Header (ps_Header_2 sl)"
  shows "h1 \<noteq> h2 \<and> bh_Slot h1 = bh_Slot h2 \<and> bh_ProposerIndex h1 = bh_ProposerIndex h2
    \<and> IsSlashableValidatorUsingTrie (vs ! unat (bh_ProposerIndex h1)) (CurrentEpoch s)
    \<and> (\<exists>t w. r = Some t \<and> bs_validators t = Some (vs[unat (bh_ProposerIndex h1) := w]) \<and> v_Slashed w)"
proof -
  obtain q t where v: "VerifyProposerSlashing cr s sl = None" and r: "r = Some t"
    and t: "SlashValidator hash cv (bh_ProposerIndex h1) q ProposerRewardQuotient s = Ret (t, None)"
    using assms(1) by (auto simp: ProcessProposerSlashing_def h1_def obind_Ret_iff split: option.splits prod.splits)
  obtain w where "bs_validators t = Some (vs[unat (bh_ProposerIndex h1) := w])" "v_Slashed w"
    by (rule SlashValidator_ok [OF assms(2,3) t]) simp
  then show ?thesis
    using v r assms(2) by (auto simp: VerifyProposerSlashing_def Let_def h1_def h2_def ValidatorAtIndexReadOnly_def
        split: if_splits option.splits)
qed

subsection \<open>Mixing\<close>

lemma map2_xor_cancel: "length a = length b \<Longrightarrow> map2 (XOR) (map2 (XOR) a b) b = (a :: u8 list)"
  by (induction a b rule: list_induct2) (simp_all add: xor.assoc)

text \<open>Mixing in a reveal changes the mix of the current epoch and nothing else, and mixing it in again undoes it.\<close>
theorem randao_mix_involution:
  assumes "ProcessRandaoNoVerify hash x s = (Some t, None)"
  shows "ProcessRandaoNoVerify hash x t = (Some s, None)"
proof -
  let ?k = "CurrentEpoch s mod EpochsPerHistoricalVector"
  obtain r where r: "bs_randaoMixes s = Some r" using assms
    by (auto simp: ProcessRandaoNoVerify_def Let_def UpdateRandaoMixesAtIndex_def split: option.splits if_splits prod.splits)
  have k: "unat ?k < length r" "length (r ! unat ?k) = length (hash x)"
      "t = s\<lparr>bs_randaoMixes := Some (r[unat ?k := map2 (XOR) (r ! unat ?k) (hash x)])\<rparr>"
    using assms by (auto simp: ProcessRandaoNoVerify_def Let_def UpdateRandaoMixesAtIndex_def RandaoMixAtIndex_def r CurrentEpoch_def
        out_of_range_def split: if_splits)
  have "s\<lparr>bs_randaoMixes := Some r\<rparr> = s" using r by (auto intro: BeaconState.equality)
  then show ?thesis using k(1,2)
    by (simp add: k(3) ProcessRandaoNoVerify_def Let_def UpdateRandaoMixesAtIndex_def RandaoMixAtIndex_def r CurrentEpoch_def
        out_of_range_def map2_xor_cancel)
qed

subsection \<open>Exits one by one\<close>

text \<open>
  The specification quoted in \<^verbatim>\<open>exit.go\<close>: every exit is checked and queued on its own, and looks for the end of the exit
  queue in the registry it finds.
\<close>
fun spec_exits ::
  "(u8 list \<Rightarrow> u8 list) \<Rightarrow> cache_view \<Rightarrow> crypto \<Rightarrow> SignedVoluntaryExit list \<Rightarrow> BeaconState
    \<Rightarrow> (BeaconState option \<times> go_error option) outcome" where
  "spec_exits hash cv cr [] s = Ret (Some s, None)"
| "spec_exits hash cv cr (exit # exits) s = (case ValidatorAtIndexReadOnly s (ve_ValidatorIndex (sv_Exit exit)) of
     (Some val, None) \<Rightarrow> (case VerifyExitAndSignature cr val s exit of
         Some err \<Rightarrow> Ret (None, Some (Wrap ''could not verify exit'' err))
       | None \<Rightarrow> (case InitiateValidatorExit hash cv (ve_ValidatorIndex (sv_Exit exit))
             (fst (MaxExitEpochAndChurn s)) (snd (MaxExitEpochAndChurn s)) s of
           (s, _, None) \<Rightarrow> spec_exits hash cv cr exits s
         | (s, _, Some err) \<Rightarrow>
             if errors_Is err ErrValidatorAlreadyExited then (if exits = [] then Ret (None, None) else Panic) else Ret (None, Some err)))
   | (_, err) \<Rightarrow> Ret (None, err))"

lemma scan_ok_unique:
  assumes "bs_validators s = Some vs" "scan_ok vs p"
  shows "p = MaxExitEpochAndChurn s"
proof -
  obtain m c where p: "p = (m, c)" by fastforce
  have "finite (exit_epochs vs)" by (simp add: exit_epochs_def)
  then have "Max (insert 0 (exit_epochs vs)) = m" using assms(2) by (intro Max_eqI) (auto simp: p scan_ok_def)
  then show ?thesis using MaxExitEpochAndChurn_spec [OF assms(1)] assms(2) by (simp add: p scan_ok_def)
qed

lemma VerifyExit_ok:
  assumes "VerifyExitAndSignature cr v s exit = None"
  shows "v_ExitEpoch v = FarFutureEpoch" "IsActiveValidatorUsingTrie v (CurrentEpoch s)" "ve_Epoch (sv_Exit exit) \<le> CurrentEpoch s"
    "v_ActivationEpoch v + 256 \<le> CurrentEpoch s"
  using assms by (auto simp: VerifyExitAndSignature_def verifyExitConditions_def Let_def CurrentEpoch_def ShardCommitteePeriod_def
      not_less split: option.splits if_splits)

lemma exits_loop_spec:
  assumes "bs_validators s = Some vs" "length vs < 2 ^ 64" "scan_ok vs (m, c)"
  shows "exits_loop hash cv cr exits m c s = spec_exits hash cv cr exits s"
  using assms
proof (induction exits arbitrary: s vs m c)
  case (Cons exit exits)
  let ?i = "ve_ValidatorIndex (sv_Exit exit)"
  have mc: "MaxExitEpochAndChurn s = (m, c)" using scan_ok_unique [OF Cons.prems(1,3)] by simp
  obtain t e err where i: "InitiateValidatorExit hash cv ?i m c s = (t, e, err)" by (metis prod_cases3)
  show ?case
  proof (cases "unat ?i < length vs \<and> VerifyExitAndSignature cr (vs ! unat ?i) s exit = None \<and> err = None")
    case True
    then obtain n where n: "ActiveValidatorCount hash cv s (CurrentEpoch s) = (n, None)"
      using InitiateValidatorExit_ok [OF Cons.prems(1)] i by blast
    note st = exit_queue_step [OF Cons.prems n i [unfolded conjunct2 [OF conjunct2 [OF True]]]]
    let ?w = "(vs ! unat ?i)\<lparr>v_ExitEpoch := e, v_WithdrawableEpoch := e + MinValidatorWithdrawabilityDelay\<rparr>"
    have t: "bs_validators t = Some (vs[unat ?i := ?w])" using st(1) by (simp add: exited_def vals_def Cons.prems(1))
    have "scan_ok (vs[unat ?i := ?w]) (if e > m then (e, 1) else if e = m then (m, c + 1) else (m, c))"
      using not_far [OF st(4)] by (intro exit_queue_end [OF Cons.prems(3) st(2,3)] st(5)) simp_all
    then show ?thesis using True Cons.IH [OF t] Cons.prems(1,2) i
      by (auto simp: ValidatorAtIndexReadOnly_def out_of_range_def mc)
  next
    case False
    have "err \<noteq> Some ErrValidatorAlreadyExited" if "VerifyExitAndSignature cr (vs ! unat ?i) s exit = None"
      using InitiateValidatorExit_already [OF Cons.prems(1)] i VerifyExit_ok(1) [OF that] by auto
    then show ?thesis using False Cons.prems(1) i
      by (auto simp: ValidatorAtIndexReadOnly_def out_of_range_def mc split: option.splits)
  qed
qed simp

lemma ProcessVoluntaryExits_spec:
  assumes "bs_validators s = Some vs" "length vs < 2 ^ 64"
  shows "ProcessVoluntaryExits hash cv cr exits s = spec_exits hash cv cr exits s"
proof -
  obtain m c where mc: "MaxExitEpochAndChurn s = (m, c)" by fastforce
  then show ?thesis
    using exits_loop_spec [OF assms, of m c] MaxExitEpochAndChurn_scan [OF assms(1)]
    by (cases exits) (simp_all add: ProcessVoluntaryExits_def del: exits_loop.simps(2) spec_exits.simps(2))
qed

text \<open>
  (C35) Voluntary exits of a block: the code scans the registry once and then keeps the end of the exit queue and its churn in two
  variables, and this does, for every block, exactly what the specification does, which scans the registry again for
  every exit; the branch for a validator that has exited already is never taken.
\<close>
theorem voluntary_exits_spec:
  assumes "bs_validators s = Some vs" "length vs < 2 ^ 64"
  shows "ProcessVoluntaryExits hash cv cr exits s = spec_exits hash cv cr exits s"
  using assms by (rule ProcessVoluntaryExits_spec)

text \<open>A validator that may exit, and what an exit makes of it.\<close>
definition may_exit :: "BeaconState \<Rightarrow> Validator \<Rightarrow> bool" where
  "may_exit s v \<longleftrightarrow> IsActiveValidatorUsingTrie v (CurrentEpoch s) \<and> v_ExitEpoch v = FarFutureEpoch
     \<and> unat (v_ActivationEpoch v) + 256 \<le> unat (CurrentEpoch s)"

definition leaves :: "BeaconState \<Rightarrow> Validator \<Rightarrow> Validator \<Rightarrow> bool" where
  "leaves s v w \<longleftrightarrow> (\<exists>e. w = v\<lparr>v_ExitEpoch := e, v_WithdrawableEpoch := e + 256\<rparr>
     \<and> unat (CurrentEpoch s) + 5 \<le> unat e \<and> unat e + 256 < 2 ^ 64)"

lemma VerifyExit_may_exit:
  assumes "VerifyExitAndSignature cr v s exit = None"
  shows "may_exit s v"
proof -
  note ok = VerifyExit_ok [OF assms]
  have "v_ActivationEpoch v \<le> CurrentEpoch s"
    using ok(2) by (auto simp: IsActiveValidatorUsingTrie_def checkValidatorActiveStatus_def)
  then have "unat (v_ActivationEpoch v + 256) = unat (v_ActivationEpoch v) + 256"
    using CurrentEpoch_bound [of s] unat_add_no_wrap [of "v_ActivationEpoch v" 256] by (simp add: word_le_nat_alt)
  then show ?thesis using ok by (simp add: may_exit_def word_le_nat_alt)
qed

abbreviation exit_index :: "SignedVoluntaryExit \<Rightarrow> ValidatorIndex" where
  "exit_index x \<equiv> ve_ValidatorIndex (sv_Exit x)"

lemma spec_exits_ok:
  assumes "spec_exits hash cv cr exits s = Ret (Some t, None)" "bs_validators s = Some vs" "length vs < 2 ^ 64"
  shows "\<exists>vs'. t = s\<lparr>bs_validators := Some vs'\<rparr> \<and> length vs' = length vs \<and> distinct (map exit_index exits)
    \<and> (\<forall>x \<in> set exits. unat (exit_index x) < length vs \<and> ve_Epoch (sv_Exit x) \<le> CurrentEpoch s \<and> may_exit s (vs ! unat (exit_index x)))
    \<and> (\<forall>i < length vs. if i \<in> unat ` exit_index ` set exits then leaves s (vs ! i) (vs' ! i) else vs' ! i = vs ! i)"
  using assms
proof (induction exits arbitrary: s vs)
  case (Cons x exits)
  let ?i = "exit_index x"
  let ?m = "fst (MaxExitEpochAndChurn s)" and ?c = "snd (MaxExitEpochAndChurn s)"
  have i: "unat ?i < length vs"
    using Cons.prems(1,2) by (auto simp: ValidatorAtIndexReadOnly_def out_of_range_def split: if_splits)
  have v: "VerifyExitAndSignature cr (vs ! unat ?i) s x = None"
    using Cons.prems(1,2) i by (auto simp: ValidatorAtIndexReadOnly_def out_of_range_def split: option.splits)
  obtain s1 e where s1: "InitiateValidatorExit hash cv ?i ?m ?c s = (s1, e, None)" "spec_exits hash cv cr exits s1 = Ret (Some t, None)"
    using Cons.prems(1,2) i v by (auto simp: ValidatorAtIndexReadOnly_def out_of_range_def split: prod.splits option.splits if_splits)
  obtain n where n: "ActiveValidatorCount hash cv s (CurrentEpoch s) = (n, None)"
    using InitiateValidatorExit_ok [OF Cons.prems(2) s1(1)] by blast
  have "scan_ok vs (?m, ?c)" using MaxExitEpochAndChurn_scan [OF Cons.prems(2)] by simp
  note st = exit_queue_step [OF Cons.prems(2,3) this n s1(1)]
  let ?w = "(vs ! unat ?i)\<lparr>v_ExitEpoch := e, v_WithdrawableEpoch := e + 256\<rparr>"
  have eq: "s1 = s\<lparr>bs_validators := Some (vs[unat ?i := ?w])\<rparr>"
    using st(1) by (simp add: exited_def vals_def Cons.prems(2) MinValidatorWithdrawabilityDelay_def)
  have epoch: "CurrentEpoch s1 = CurrentEpoch s" "may_exit s1 = may_exit s" "leaves s1 = leaves s"
    by (simp_all add: eq CurrentEpoch_def may_exit_def leaves_def fun_eq_iff)
  obtain vs' where vs': "t = s1\<lparr>bs_validators := Some vs'\<rparr>" "length vs' = length vs" "distinct (map exit_index exits)"
      "\<forall>y \<in> set exits. unat (exit_index y) < length vs \<and> ve_Epoch (sv_Exit y) \<le> CurrentEpoch s
        \<and> may_exit s (vs[unat ?i := ?w] ! unat (exit_index y))"
      "\<forall>k < length vs. if k \<in> unat ` exit_index ` set exits then leaves s (vs[unat ?i := ?w] ! k) (vs' ! k)
        else vs' ! k = vs[unat ?i := ?w] ! k"
    using Cons.IH [OF s1(2), of "vs[unat ?i := ?w]", unfolded epoch length_list_update] Cons.prems(3) eq by auto
  have new: "unat (exit_index y) \<noteq> unat ?i" if "y \<in> set exits" for y
    using vs'(4) that i not_far [OF st(4)] by (auto simp: may_exit_def)
  have l: "leaves s (vs ! unat ?i) ?w" using st(4,6) by (auto simp: leaves_def)
  have ni: "unat ?i \<notin> unat ` exit_index ` set exits" using new by fastforce
  then have "distinct (map exit_index (x # exits))" using vs'(3) by auto
  moreover have "unat (exit_index y) < length vs \<and> ve_Epoch (sv_Exit y) \<le> CurrentEpoch s \<and> may_exit s (vs ! unat (exit_index y))"
    if "y \<in> set (x # exits)" for y
    using that vs'(4) new [of y] i VerifyExit_may_exit [OF v] VerifyExit_ok(3) [OF v] by (auto simp: nth_list_update)
  moreover have "if k \<in> unat ` exit_index ` set (x # exits) then leaves s (vs ! k) (vs' ! k) else vs' ! k = vs ! k"
    if "k < length vs" for k
    using that vs'(5) ni i l by (cases "k = unat ?i") auto
  ultimately show ?case using vs'(1,2) eq by (intro exI [of _ vs']) auto
next
  case Nil
  then show ?case by (intro exI [of _ vs]) (auto intro: BeaconState.equality)
qed

text \<open>
  Accepted voluntary exits are of pairwise different validators, each active for at least 256 epochs and
  without an exit before; each gets an exit epoch at least five epochs ahead and can withdraw 256 epochs later, with no
  wrap-around; no other validator and nothing else in the state changes.
\<close>
theorem voluntary_exits_effect:
  assumes "ProcessVoluntaryExits hash cv cr exits s = Ret (Some t, None)" "bs_validators s = Some vs" "length vs < 2 ^ 64"
  shows "\<exists>vs'. t = s\<lparr>bs_validators := Some vs'\<rparr> \<and> length vs' = length vs \<and> distinct (map exit_index exits)
    \<and> (\<forall>x \<in> set exits. unat (exit_index x) < length vs \<and> ve_Epoch (sv_Exit x) \<le> CurrentEpoch s \<and> may_exit s (vs ! unat (exit_index x)))
    \<and> (\<forall>i < length vs. if i \<in> unat ` exit_index ` set exits then leaves s (vs ! i) (vs' ! i) else vs' ! i = vs ! i)"
  using spec_exits_ok [OF _ assms(2,3)] ProcessVoluntaryExits_spec [OF assms(2,3)] assms(1) by simp

subsection \<open>Examples\<close>

definition accept_all :: crypto where
  "accept_all = \<lparr>cr_Domain = (\<lambda>_ _ _. ([], None)), cr_CapellaDomain = (\<lambda>_ _ _. ([], None)), cr_PublicKeyFromBytes = (\<lambda>k. (k, None)),
     cr_VerifyIndexedAttestationSig = (\<lambda>_ _ _. None), cr_ComputeDomainVerifySigningRoot = (\<lambda>_ _ _ _ _ _. None),
     cr_VerifySigningRoot = (\<lambda>_ _ _ _. None)\<rparr>"

definition double_vote :: AttesterSlashing where
  "double_vote = \<lparr>as_Attestation_1 = \<lparr>ia_AttestingIndices = [0], ia_Data = at_Data demo_attestation, ia_Signature = []\<rparr>,
     as_Attestation_2 = \<lparr>ia_AttestingIndices = [0], ia_Data = (at_Data demo_attestation)\<lparr>ad_Slot := 318\<rparr>, ia_Signature = []\<rparr>\<rparr>"

abbreviation two_state :: BeaconState where
  "two_state \<equiv> small_state [full_validator, full_validator] [32000000000, 32000000000]"

theorem attester_slashing_exact_witness:
  "\<exists>t vs'. ProcessAttesterSlashing accept_all (SlashValidator id slash_caches) double_vote two_state = Ret (Some t, None)
    \<and> bs_validators t = Some vs' \<and> v_Slashed (vs' ! 0) \<and> vs' ! 1 = full_validator"
proof -
  have i: "SlashableAttesterIndices double_vote = [0]"
    by (simp add: SlashableAttesterIndices_def double_vote_def) code_simp
  have v: "VerifyAttesterSlashing accept_all two_state double_vote = None"
    by (simp add: VerifyAttesterSlashing_def double_vote_def IsSlashableAttestationData_def AttDataIsEqual_iff demo_attestation_def
        VerifyIndexedAttestation_def IsValidAttestationIndices_def MaxValidatorsPerCommittee_def accept_all_def)
  have sl: "IsSlashableValidator (v_ActivationEpoch full_validator) (v_WithdrawableEpoch full_validator) (v_Slashed full_validator) 10"
      "IsSlashableValidatorUsingTrie full_validator 10"
    by (simp_all add: IsSlashableValidator_def IsSlashableValidatorUsingTrie_def checkValidatorSlashable_def full_validator_def)
  obtain t where "SlashValidator id slash_caches 0 128 8 two_state = Ret (t, None)" using small_slash by blast
  then have p: "ProcessAttesterSlashing accept_all (SlashValidator id slash_caches) double_vote two_state = Ret (Some t, None)"
    by (simp add: ProcessAttesterSlashing_def v i ValidatorAtIndexReadOnly_def out_of_range_def sl SlotsPerEpoch_def slashing_quotient_def MinSlashingPenaltyQuotient_def ProposerRewardQuotient_def)
  show ?thesis
    using attester_slashing_exact [OF p] p
    by (fastforce simp: double_vote_def sl small_epoch)
qed

definition first_exit :: SignedVoluntaryExit where
  "first_exit = \<lparr>sv_Exit = \<lparr>ve_Epoch = 0, ve_ValidatorIndex = 0\<rparr>, sv_Signature = []\<rparr>"

theorem voluntary_exits_spec_witness:
  "ProcessVoluntaryExits id cold_caches accept_all [first_exit] two_state = spec_exits id cold_caches accept_all [first_exit] two_state"
  by (rule voluntary_exits_spec [OF small_state_sel(2)]) simp

text \<open>A validator that has been active for 300 epochs.\<close>
abbreviation late_state :: BeaconState where
  "late_state \<equiv> demo_state\<lparr>bs_slot := 9600\<rparr>"

lemma late_seed: "Seed hash (s\<lparr>bs_slot := x\<rparr>) e d = Seed hash s e d"
  by (simp add: Seed_def RandaoMix_def RandaoMixAtIndex_def)

theorem voluntary_exits_effect_witness:
  "\<exists>t vs'. ProcessVoluntaryExits id demo_caches accept_all [first_exit] late_state = Ret (Some t, None)
    \<and> bs_validators t = Some vs' \<and> leaves late_state full_validator (vs' ! 0)"
proof -
  have v: "VerifyExitAndSignature accept_all full_validator late_state first_exit = None"
    by (simp add: VerifyExitAndSignature_def verifyExitConditions_def accept_all_def first_exit_def full_validator_def SlotsPerEpoch_def
        IsActiveValidatorUsingTrie_def checkValidatorActiveStatus_def ShardCommitteePeriod_def FarFutureEpoch_def Deneb_def Phase0_def)
  have m: "MaxExitEpochAndChurn late_state = (0, 0)"
    by (simp add: MaxExitEpochAndChurn_def ReadFromEveryValidator_def churn_step_def full_validator_def FarFutureEpoch_def)
  have e: "CurrentEpoch late_state = 300" by (simp add: CurrentEpoch_def SlotsPerEpoch_def)
  obtain seed where "Seed id late_state 300 DomainBeaconAttester = (seed, None)"
    using small_seed [of id "[full_validator]" "[0]" 300 DomainBeaconAttester] late_seed [where s = demo_state and x = 9600]
    by (cases "Seed id late_state 300 DomainBeaconAttester") simp
  then have c: "ActiveValidatorCount id demo_caches late_state 300 = (1, None)"
    by (simp add: ActiveValidatorCount_def demo_caches_def)
  have "0 < ValidatorExitChurnLimit 1"
    using calculateChurnLimit_ge [of 1] by (simp add: ValidatorExitChurnLimit_def word_less_nat_alt)
  then have "InitiateValidatorExit id demo_caches 0 0 0 late_state = (exited late_state 0 305, 305, None)"
    using c unfolding InitiateValidatorExit_def e
    by (simp add: ActivationExitEpoch_def MaxSeedLookahead_def ValidatorAtIndex_def validatorAtIndex_def
        out_of_range_def full_validator_def FarFutureEpoch_def MinValidatorWithdrawabilityDelay_def
        Epoch_SafeAddEpoch_def Epoch_SafeAdd_def Add64_def UpdateValidatorAtIndex_def vals_def exited_def)
  then have p: "ProcessVoluntaryExits id demo_caches accept_all [first_exit] late_state = Ret (Some (exited late_state 0 305), None)"
    using v by (simp add: ProcessVoluntaryExits_def m ValidatorAtIndexReadOnly_def out_of_range_def first_exit_def)
  show ?thesis using voluntary_exits_effect [OF p, of "[full_validator]"] p by (auto simp: first_exit_def)
qed

end
