(* ===== verification/MaxCover.thy ===== *)
theory MaxCover
  imports Prelude
begin

text \<open>
  Maximum coverage: \<^verbatim>\<open>proto/prysm/v1alpha1/attestation/aggregation/maxcover.go\<close>, the function \<^verbatim>\<open>MaxCover\<close> that picks the attestations
  to be aggregated.

  Bit lists are those of go-bitfield. They are values of a type variable here, with the operations the code calls in the record
  \<open>bitlist64\<close>; an operation that writes its result into an argument returns it. The documented behaviour of the
  operations is \<open>bitlist64_laws\<close>, relative to the set of positions of a bit list.
\<close>

subsection \<open>Bit lists\<close>

record 'b bitlist64 =
  b_New :: "u64 \<Rightarrow> 'b"
  b_Len :: "'b \<Rightarrow> u64"
  b_Count :: "'b \<Rightarrow> u64"
  b_Not :: "'b \<Rightarrow> 'b"
  b_Or :: "'b \<Rightarrow> 'b \<Rightarrow> 'b result"
  b_And :: "'b \<Rightarrow> 'b \<Rightarrow> 'b result"
  b_AndCount :: "'b \<Rightarrow> 'b \<Rightarrow> u64 result"
  b_XorCount :: "'b \<Rightarrow> 'b \<Rightarrow> u64 result"
  b_Overlaps :: "'b \<Rightarrow> 'b \<Rightarrow> bool result"
  b_SetBitAt :: "u64 \<Rightarrow> bool \<Rightarrow> 'b \<Rightarrow> 'b"
  b_BitIndices :: "'b \<Rightarrow> nat list"

definition bitlist64_laws :: "('b, 'z) bitlist64_scheme \<Rightarrow> ('b \<Rightarrow> nat set) \<Rightarrow> bool" where
  "bitlist64_laws bf \<alpha> \<longleftrightarrow>
    (\<forall>b. \<alpha> b \<subseteq> {..<unat (b_Len bf b)} \<and> b_Count bf b = of_nat (card (\<alpha> b)) \<and> b_BitIndices bf b = sorted_list_of_set (\<alpha> b)
      \<and> b_Len bf (b_Not bf b) = b_Len bf b \<and> \<alpha> (b_Not bf b) = {..<unat (b_Len bf b)} - \<alpha> b)
    \<and> (\<forall>n. b_Len bf (b_New bf n) = n \<and> \<alpha> (b_New bf n) = {})
    \<and> (\<forall>b i v. b_Len bf (b_SetBitAt bf i v b) = b_Len bf b
        \<and> (i < b_Len bf b \<longrightarrow> \<alpha> (b_SetBitAt bf i v b) = (if v then insert (unat i) (\<alpha> b) else \<alpha> b - {unat i})))
    \<and> (\<forall>a b. b_Len bf a = b_Len bf b \<longrightarrow>
        (\<exists>c. b_Or bf a b = (c, None) \<and> b_Len bf c = b_Len bf a \<and> \<alpha> c = \<alpha> a \<union> \<alpha> b)
        \<and> (\<exists>c. b_And bf a b = (c, None) \<and> b_Len bf c = b_Len bf a \<and> \<alpha> c = \<alpha> a \<inter> \<alpha> b)
        \<and> b_AndCount bf a b = (of_nat (card (\<alpha> a \<inter> \<alpha> b)), None)
        \<and> b_XorCount bf a b = (of_nat (card ((\<alpha> a - \<alpha> b) \<union> (\<alpha> b - \<alpha> a))), None)
        \<and> b_Overlaps bf a b = (\<alpha> a \<inter> \<alpha> b \<noteq> {}, None))"

subsection \<open>The greedy cover\<close>

definition ErrInvalidMaxCoverProblem :: go_error where "ErrInvalidMaxCoverProblem = Sentinel ''invalid max_cover problem''"

fun union_bits_loop :: "('b, 'z) bitlist64_scheme \<Rightarrow> 'b list \<Rightarrow> 'b \<Rightarrow> 'b option result" where
  "union_bits_loop bf [] ret = (Some ret, None)"
| "union_bits_loop bf (bl # candidates) ret =
    (if b_Len bf ret = b_Len bf bl then (case b_Or bf ret bl of
       (_, Some err) \<Rightarrow> (None, Some err)
     | (ret, None) \<Rightarrow> union_bits_loop bf candidates ret)
     else union_bits_loop bf candidates ret)"

definition union :: "('b, 'z) bitlist64_scheme \<Rightarrow> 'b list \<Rightarrow> 'b option result" where
  "union bf candidates =
    (if length candidates = 0 \<or> b_Len bf (candidates ! 0) = 0 then (None, None)
     else union_bits_loop bf candidates (b_New bf (b_Len bf (candidates ! 0))))"

text \<open>One pass over the usable candidates; \<open>usable\<close> loses those that are of no use any more.\<close>
fun score_loop ::
  "('b, 'z) bitlist64_scheme \<Rightarrow> 'b list \<Rightarrow> bool \<Rightarrow> 'b \<Rightarrow> 'b \<Rightarrow> nat list \<Rightarrow> 'b \<Rightarrow> u64 \<Rightarrow> u64 \<Rightarrow> ('b \<times> u64 \<times> u64) result outcome" where
  "score_loop bf candidates allowOverlaps coveredBits remainingBits [] usable maxScore bestIdx = Ret ((usable, maxScore, bestIdx), None)"
| "score_loop bf candidates allowOverlaps coveredBits remainingBits (idx # indices) usable maxScore bestIdx =
    (if \<not> idx < length candidates then Panic
     else
       let c = candidates ! idx;
           skip = score_loop bf candidates allowOverlaps coveredBits remainingBits indices (b_SetBitAt bf (of_nat idx) False usable) maxScore bestIdx
       in case if b_Len bf c = b_Len bf remainingBits then b_AndCount bf c remainingBits else (0, None) of
            (_, Some err) \<Rightarrow> Ret ((usable, maxScore, bestIdx), Some err)
          | (score, None) \<Rightarrow>
              if score = 0 then skip
              else if b_Len bf coveredBits \<noteq> b_Len bf c then skip
              else (case b_Overlaps bf coveredBits c of
                  (_, Some err) \<Rightarrow> Ret ((usable, maxScore, bestIdx), Some err)
                | (overlap, None) \<Rightarrow>
                    if \<not> allowOverlaps \<and> overlap then skip
                    else if score > maxScore
                      then score_loop bf candidates allowOverlaps coveredBits remainingBits indices usable score (of_nat idx)
                    else score_loop bf candidates allowOverlaps coveredBits remainingBits indices usable maxScore bestIdx))"

text \<open>What is done with the best candidate: the selected and usable candidates, the covered and the remaining bits.\<close>
definition select_best ::
  "('b, 'z) bitlist64_scheme \<Rightarrow> 'b list \<Rightarrow> u64 \<Rightarrow> 'b \<Rightarrow> 'b \<Rightarrow> 'b \<Rightarrow> 'b \<Rightarrow> ('b \<times> 'b \<times> 'b \<times> 'b) result outcome" where
  "select_best bf candidates bestIdx selected usable coveredBits remainingBits =
    (if \<not> unat bestIdx < length candidates then Panic
     else
       let c = candidates ! unat bestIdx
       in case b_Or bf coveredBits c of
            (_, Some err) \<Rightarrow> Ret ((selected, usable, coveredBits, remainingBits), Some err)
          | (coveredBits, None) \<Rightarrow>
              let selected = b_SetBitAt bf bestIdx True selected
              in case b_And bf remainingBits (b_Not bf c) of
                   (_, Some err) \<Rightarrow> Ret ((selected, usable, coveredBits, remainingBits), Some err)
                 | (remainingBits, None) \<Rightarrow> Ret ((selected, b_SetBitAt bf bestIdx False usable, coveredBits, remainingBits), None))"

function cover_loop ::
  "('b, 'z) bitlist64_scheme \<Rightarrow> 'b list \<Rightarrow> nat \<Rightarrow> bool \<Rightarrow> nat \<Rightarrow> 'b \<Rightarrow> 'b \<Rightarrow> 'b \<Rightarrow> 'b \<Rightarrow> ('b \<times> 'b) option result outcome" where
  "cover_loop bf candidates k allowOverlaps attempts selected usable coveredBits remainingBits =
    (if \<not> (b_Count bf selected < of_nat k \<and> b_Count bf usable > 0) \<or> attempts > k then Ret (Some (selected, coveredBits), None)
     else obind (score_loop bf candidates allowOverlaps coveredBits remainingBits (b_BitIndices bf usable) usable 0 0) (\<lambda>r. case r of
       (_, Some err) \<Rightarrow> Ret (None, Some err)
     | ((usable, maxScore, bestIdx), None) \<Rightarrow>
         if maxScore > 0 then obind (select_best bf candidates bestIdx selected usable coveredBits remainingBits) (\<lambda>r. case r of
           (_, Some err) \<Rightarrow> Ret (None, Some err)
         | ((selected, usable, coveredBits, remainingBits), None) \<Rightarrow>
             cover_loop bf candidates k allowOverlaps (Suc attempts) selected usable coveredBits remainingBits)
         else cover_loop bf candidates k allowOverlaps (Suc attempts) selected usable coveredBits remainingBits))"
  by pat_completeness auto
termination
  by (relation "measure (\<lambda>(bf, candidates, k, allowOverlaps, attempts, _). Suc k - attempts)") auto

definition MaxCover :: "('b, 'z) bitlist64_scheme \<Rightarrow> 'b list \<Rightarrow> nat \<Rightarrow> bool \<Rightarrow> ('b \<times> 'b) option result outcome" where
  "MaxCover bf candidates k allowOverlaps =
    (if length candidates = 0 then Ret (None, Some (Wrap ''cannot calculate set coverage'' ErrInvalidMaxCoverProblem))
     else
       let k = (if length candidates < k then length candidates else k);
           selected = b_New bf (of_nat (length candidates));
           usable = b_Not bf (b_New bf (of_nat (length candidates)));
           coveredBits = b_New bf (b_Len bf (candidates ! 0))
       in case union bf candidates of
            (_, Some err) \<Rightarrow> Ret (None, Some err)
          | (None, None) \<Rightarrow> Ret (None, Some (Wrap ''empty bitlists'' ErrInvalidMaxCoverProblem))
          | (Some remainingBits, None) \<Rightarrow> cover_loop bf candidates k allowOverlaps 0 selected usable coveredBits remainingBits)"

declare cover_loop.simps [simp del]


subsection \<open>The laws of bit lists, one by one\<close>

lemma bitlist64_facts:
  assumes "bitlist64_laws bf \<alpha>"
  shows bits_below: "\<alpha> b \<subseteq> {..<unat (b_Len bf b)}"
    and b_Count: "b_Count bf b = of_nat (card (\<alpha> b))"
    and b_BitIndices: "b_BitIndices bf b = sorted_list_of_set (\<alpha> b)"
    and b_Len_Not: "b_Len bf (b_Not bf b) = b_Len bf b"
    and bits_Not: "\<alpha> (b_Not bf b) = {..<unat (b_Len bf b)} - \<alpha> b"
    and b_Len_New: "b_Len bf (b_New bf n) = n"
    and bits_New: "\<alpha> (b_New bf n) = {}"
    and b_Len_Set: "b_Len bf (b_SetBitAt bf i v b) = b_Len bf b"
    and bits_Set: "i < b_Len bf b \<Longrightarrow> \<alpha> (b_SetBitAt bf i v b) = (if v then insert (unat i) (\<alpha> b) else \<alpha> b - {unat i})"
    and b_Or: "b_Len bf a = b_Len bf b \<Longrightarrow> \<exists>c. b_Or bf a b = (c, None) \<and> b_Len bf c = b_Len bf a \<and> \<alpha> c = \<alpha> a \<union> \<alpha> b"
    and b_And: "b_Len bf a = b_Len bf b \<Longrightarrow> \<exists>c. b_And bf a b = (c, None) \<and> b_Len bf c = b_Len bf a \<and> \<alpha> c = \<alpha> a \<inter> \<alpha> b"
    and b_AndCount: "b_Len bf a = b_Len bf b \<Longrightarrow> b_AndCount bf a b = (of_nat (card (\<alpha> a \<inter> \<alpha> b)), None)"
    and b_XorCount: "b_Len bf a = b_Len bf b \<Longrightarrow> b_XorCount bf a b = (of_nat (card ((\<alpha> a - \<alpha> b) \<union> (\<alpha> b - \<alpha> a))), None)"
    and b_Overlaps: "b_Len bf a = b_Len bf b \<Longrightarrow> b_Overlaps bf a b = (\<alpha> a \<inter> \<alpha> b \<noteq> {}, None)"
  using assms unfolding bitlist64_laws_def by simp_all

lemma bits_finite: "bitlist64_laws bf \<alpha> \<Longrightarrow> finite (\<alpha> b)"
  using finite_subset [OF bits_below [of bf \<alpha> b]] by simp

lemma bits_card:
  assumes "bitlist64_laws bf \<alpha>" "S \<subseteq> \<alpha> b"
  shows "card S < 2 ^ 64"
proof -
  have "S \<subseteq> {..<unat (b_Len bf b)}" using bits_below [OF assms(1), of b] assms(2) by simp
  then have "card S \<le> card {..<unat (b_Len bf b)}" by (intro card_mono) simp_all
  then show ?thesis using unat_u64_bound [of "b_Len bf b"] by simp
qed

lemma bits_card_unat:
  assumes "bitlist64_laws bf \<alpha>" "S \<subseteq> \<alpha> b"
  shows "unat (of_nat (card S) :: u64) = card S"
  using bits_card [OF assms] by (simp add: unat_of_nat)

lemma bits_count_zero:
  assumes "bitlist64_laws bf \<alpha>" "S \<subseteq> \<alpha> b"
  shows "of_nat (card S) = (0 :: u64) \<longleftrightarrow> S = {}"
proof -
  have "finite S" using assms(2) bits_finite [OF assms(1), of b] by (rule finite_subset)
  then have "card S = 0 \<longleftrightarrow> S = {}" by simp
  then show ?thesis using bits_card_unat [OF assms] by (simp add: word_unat_eq_iff)
qed

subsection \<open>One pass\<close>

text \<open>The candidates that a pass keeps: of the length of the covered bits, with something to add and nothing covered already.\<close>
definition keeps :: "('b, 'z) bitlist64_scheme \<Rightarrow> ('b \<Rightarrow> nat set) \<Rightarrow> 'b list \<Rightarrow> 'b \<Rightarrow> 'b \<Rightarrow> nat \<Rightarrow> bool" where
  "keeps bf \<alpha> candidates coveredBits remainingBits i \<longleftrightarrow>
    b_Len bf (candidates ! i) = b_Len bf coveredBits \<and> \<alpha> (candidates ! i) \<inter> \<alpha> remainingBits \<noteq> {} \<and> \<alpha> (candidates ! i) \<inter> \<alpha> coveredBits = {}"

text \<open>The number of candidates as the code has it, in 64 bits.\<close>
definition cand_count :: "'b list \<Rightarrow> nat" where
  "cand_count candidates = unat (of_nat (length candidates) :: u64)"

lemma cand_count_le: "cand_count candidates \<le> length candidates"
  by (simp add: cand_count_def unat_of_nat)

lemma cand_count:
  assumes "i < cand_count candidates"
  shows "i < length candidates" "unat (of_nat i :: u64) = i" "(of_nat i :: u64) < of_nat (length candidates)"
proof -
  show "i < length candidates" using assms cand_count_le less_le_trans by blast
  have "i < 2 ^ 64" using assms unat_u64_bound less_trans unfolding cand_count_def by blast
  then show u: "unat (of_nat i :: u64) = i" by (simp add: unat_of_nat)
  show "(of_nat i :: u64) < of_nat (length candidates)" using assms u by (simp add: cand_count_def word_less_nat_alt)
qed

definition score_of :: "('b \<Rightarrow> nat set) \<Rightarrow> 'b list \<Rightarrow> 'b \<Rightarrow> nat \<Rightarrow> nat" where
  "score_of \<alpha> candidates remainingBits i = card (\<alpha> (candidates ! i) \<inter> \<alpha> remainingBits)"

lemma score_loop_ok:
  assumes "bitlist64_laws bf \<alpha>" "b_Len bf remainingBits = b_Len bf coveredBits"
    "\<forall>i \<in> set indices. i < cand_count candidates" "b_Len bf usable = of_nat (length candidates)"
  shows "\<exists>usable' m b. score_loop bf candidates False coveredBits remainingBits indices usable maxScore bestIdx = Ret ((usable', m, b), None)
    \<and> b_Len bf usable' = b_Len bf usable
    \<and> \<alpha> usable' = \<alpha> usable - {i \<in> set indices. \<not> keeps bf \<alpha> candidates coveredBits remainingBits i}
    \<and> maxScore \<le> m
    \<and> (\<forall>i \<in> set indices. keeps bf \<alpha> candidates coveredBits remainingBits i \<longrightarrow> score_of \<alpha> candidates remainingBits i \<le> unat m)
    \<and> (m = maxScore \<and> b = bestIdx \<or> (\<exists>i \<in> set indices. keeps bf \<alpha> candidates coveredBits remainingBits i \<and> b = of_nat i
          \<and> unat m = score_of \<alpha> candidates remainingBits i))"
  using assms(3,4)
proof (induction indices arbitrary: usable maxScore bestIdx)
  case Nil
  then show ?case by simp
next
  case (Cons idx indices)
  let ?c = "candidates ! idx" and ?K = "keeps bf \<alpha> candidates coveredBits remainingBits"
  let ?u = "b_SetBitAt bf (of_nat idx) False usable"
  have c: "idx < cand_count candidates" using Cons.prems(1) by simp
  note i = cand_count(1) [OF c] and un = cand_count(2) [OF c]
  have lt: "(of_nat idx :: u64) < b_Len bf usable" using cand_count(3) [OF c] Cons.prems(2) by simp
  have u: "\<alpha> ?u = \<alpha> usable - {idx}" "b_Len bf ?u = b_Len bf usable"
    using bits_Set [OF assms(1) lt, of False] b_Len_Set [OF assms(1)] un by simp_all
  show ?case
  proof (cases "?K idx")
    case False
    have ac: "b_Len bf ?c = b_Len bf remainingBits \<Longrightarrow> b_AndCount bf ?c remainingBits = (of_nat (card (\<alpha> ?c \<inter> \<alpha> remainingBits)), None)"
      by (rule b_AndCount [OF assms(1)])
    have z: "of_nat (card (\<alpha> ?c \<inter> \<alpha> remainingBits)) = (0 :: u64) \<longleftrightarrow> \<alpha> ?c \<inter> \<alpha> remainingBits = {}"
      by (rule bits_count_zero [OF assms(1) Int_lower1])
    have ov: "b_Len bf coveredBits = b_Len bf ?c \<Longrightarrow> b_Overlaps bf coveredBits ?c = (\<alpha> coveredBits \<inter> \<alpha> ?c \<noteq> {}, None)"
      by (rule b_Overlaps [OF assms(1)])
    have s: "score_loop bf candidates False coveredBits remainingBits (idx # indices) usable maxScore bestIdx
        = score_loop bf candidates False coveredBits remainingBits indices ?u maxScore bestIdx"
    proof (cases "b_Len bf ?c = b_Len bf remainingBits")
      case True
      then show ?thesis using i assms(2) False ac ov z by (auto simp: Let_def keeps_def Int_commute)
    next
      case f: False
      then show ?thesis using i by (simp add: Let_def)
    qed
    have p: "\<forall>i \<in> set indices. i < cand_count candidates" "b_Len bf ?u = of_nat (length candidates)" using Cons.prems u by simp_all
    have e: "\<alpha> usable - {idx} - {i \<in> set indices. \<not> ?K i} = \<alpha> usable - {i \<in> set (idx # indices). \<not> ?K i}" using False by auto
    show ?thesis using Cons.IH [OF p, of maxScore bestIdx] False by (simp only: s u e) auto
  next
    case True
    have nz: "of_nat (card (\<alpha> ?c \<inter> \<alpha> remainingBits)) \<noteq> (0 :: u64)"
      using True bits_count_zero [OF assms(1) Int_lower1, of ?c "\<alpha> remainingBits"] by (simp add: keeps_def)
    have sc: "unat (of_nat (card (\<alpha> ?c \<inter> \<alpha> remainingBits)) :: u64) = score_of \<alpha> candidates remainingBits idx"
      using bits_card_unat [OF assms(1) Int_lower1, of ?c "\<alpha> remainingBits"] by (simp add: score_of_def)
    let ?s = "of_nat (card (\<alpha> ?c \<inter> \<alpha> remainingBits)) :: u64"
    have s: "score_loop bf candidates False coveredBits remainingBits (idx # indices) usable maxScore bestIdx
        = (if ?s > maxScore then score_loop bf candidates False coveredBits remainingBits indices usable ?s (of_nat idx)
           else score_loop bf candidates False coveredBits remainingBits indices usable maxScore bestIdx)"
      using i assms(2) True nz by (simp add: Let_def keeps_def b_AndCount [OF assms(1)] b_Overlaps [OF assms(1)] Int_commute)
    show ?thesis
    proof (cases "?s > maxScore")
      case t: True
      show ?thesis unfolding s using Cons.IH [of usable ?s "of_nat idx"] Cons.prems t True sc
        by (auto simp: word_le_nat_alt word_less_nat_alt)
    next
      case f: False
      show ?thesis unfolding s using Cons.IH [of usable maxScore bestIdx] Cons.prems f True sc
        by (auto simp: word_le_nat_alt word_less_nat_alt)
    qed
  qed
qed


subsection \<open>The greedy loop\<close>

lemma select_best_ok:
  assumes "bitlist64_laws bf \<alpha>" "i < cand_count candidates"
    "b_Len bf selected = of_nat (length candidates)" "b_Len bf usable = of_nat (length candidates)"
    "b_Len bf (candidates ! i) = b_Len bf coveredBits" "b_Len bf remainingBits = b_Len bf coveredBits"
  shows "\<exists>selected' usable' coveredBits' remainingBits'.
    select_best bf candidates (of_nat i) selected usable coveredBits remainingBits = Ret ((selected', usable', coveredBits', remainingBits'), None)
    \<and> b_Len bf selected' = b_Len bf selected \<and> \<alpha> selected' = insert i (\<alpha> selected)
    \<and> b_Len bf usable' = b_Len bf usable \<and> \<alpha> usable' = \<alpha> usable - {i}
    \<and> b_Len bf coveredBits' = b_Len bf coveredBits \<and> \<alpha> coveredBits' = \<alpha> coveredBits \<union> \<alpha> (candidates ! i)
    \<and> b_Len bf remainingBits' = b_Len bf coveredBits \<and> \<alpha> remainingBits' = \<alpha> remainingBits - \<alpha> (candidates ! i)"
proof -
  let ?c = "candidates ! i"
  note il = cand_count(1) [OF assms(2)] and un = cand_count(2) [OF assms(2)] and lt = cand_count(3) [OF assms(2)]
  obtain cov where c: "b_Or bf coveredBits ?c = (cov, None)" "b_Len bf cov = b_Len bf coveredBits" "\<alpha> cov = \<alpha> coveredBits \<union> \<alpha> ?c"
    using b_Or [OF assms(1)] assms(5) by metis
  obtain rem where r: "b_And bf remainingBits (b_Not bf ?c) = (rem, None)" "b_Len bf rem = b_Len bf remainingBits"
      "\<alpha> rem = \<alpha> remainingBits \<inter> \<alpha> (b_Not bf ?c)"
    using b_And [OF assms(1)] assms(5,6) b_Len_Not [OF assms(1)] by metis
  have "\<alpha> rem = \<alpha> remainingBits - \<alpha> ?c"
    using r(3) bits_Not [OF assms(1), of ?c] bits_below [OF assms(1), of remainingBits] assms(5,6) by auto
  then show ?thesis
    using c r un lt il assms bits_Set [OF assms(1), of "of_nat i" selected True] bits_Set [OF assms(1), of "of_nat i" usable False]
    by (simp add: select_best_def b_Len_Set [OF assms(1)])
qed

text \<open>
  Candidates of one length that pairwise share no bit; and what a selection that cannot be extended means: every other candidate of
  that length is empty or shares a bit with the cover.
\<close>
definition disjoint_selection :: "('b, 'z) bitlist64_scheme \<Rightarrow> ('b \<Rightarrow> nat set) \<Rightarrow> 'b list \<Rightarrow> nat set \<Rightarrow> bool" where
  "disjoint_selection bf \<alpha> candidates S \<longleftrightarrow>
    S \<subseteq> {..<cand_count candidates}
    \<and> (\<forall>i \<in> S. b_Len bf (candidates ! i) = b_Len bf (candidates ! 0) \<and> \<alpha> (candidates ! i) \<noteq> {})
    \<and> (\<forall>i \<in> S. \<forall>j \<in> S. i \<noteq> j \<longrightarrow> \<alpha> (candidates ! i) \<inter> \<alpha> (candidates ! j) = {})"

definition fits :: "('b, 'z) bitlist64_scheme \<Rightarrow> ('b \<Rightarrow> nat set) \<Rightarrow> 'b list \<Rightarrow> nat set \<Rightarrow> nat \<Rightarrow> bool" where
  "fits bf \<alpha> candidates cover i \<longleftrightarrow>
    i < cand_count candidates \<and> b_Len bf (candidates ! i) = b_Len bf (candidates ! 0) \<and> \<alpha> (candidates ! i) \<noteq> {} \<and> \<alpha> (candidates ! i) \<inter> cover = {}"

text \<open>The largest candidate of the right length is in a greedy selection.\<close>
definition has_largest :: "('b, 'z) bitlist64_scheme \<Rightarrow> ('b \<Rightarrow> nat set) \<Rightarrow> 'b list \<Rightarrow> nat set \<Rightarrow> bool" where
  "has_largest bf \<alpha> candidates S \<longleftrightarrow>
    (\<exists>i \<in> S. \<forall>j < cand_count candidates. b_Len bf (candidates ! j) = b_Len bf (candidates ! 0) \<longrightarrow> card (\<alpha> (candidates ! j)) \<le> card (\<alpha> (candidates ! i)))"

definition all_bits :: "('b, 'z) bitlist64_scheme \<Rightarrow> ('b \<Rightarrow> nat set) \<Rightarrow> 'b list \<Rightarrow> nat set" where
  "all_bits bf \<alpha> candidates = (\<Union>i \<in> {i. i < length candidates \<and> b_Len bf (candidates ! i) = b_Len bf (candidates ! 0)}. \<alpha> (candidates ! i))"

definition cover_inv ::
  "('b, 'z) bitlist64_scheme \<Rightarrow> ('b \<Rightarrow> nat set) \<Rightarrow> 'b list \<Rightarrow> nat \<Rightarrow> 'b \<Rightarrow> 'b \<Rightarrow> 'b \<Rightarrow> 'b \<Rightarrow> bool" where
  "cover_inv bf \<alpha> candidates attempts selected usable coveredBits remainingBits \<longleftrightarrow>
    b_Len bf selected = of_nat (length candidates) \<and> b_Len bf usable = of_nat (length candidates)
    \<and> b_Len bf coveredBits = b_Len bf (candidates ! 0) \<and> b_Len bf remainingBits = b_Len bf (candidates ! 0)
    \<and> \<alpha> usable \<subseteq> {..<cand_count candidates} \<and> \<alpha> selected \<inter> \<alpha> usable = {}
    \<and> disjoint_selection bf \<alpha> candidates (\<alpha> selected)
    \<and> \<alpha> coveredBits = (\<Union>i \<in> \<alpha> selected. \<alpha> (candidates ! i))
    \<and> \<alpha> remainingBits = all_bits bf \<alpha> candidates - \<alpha> coveredBits
    \<and> (\<forall>i. fits bf \<alpha> candidates (\<alpha> coveredBits) i \<longrightarrow> i \<in> \<alpha> usable)
    \<and> (attempts = card (\<alpha> selected) \<or> \<alpha> usable = {})
    \<and> (if \<alpha> selected = {} then \<alpha> usable = {..<cand_count candidates} \<or> \<alpha> usable = {} else has_largest bf \<alpha> candidates (\<alpha> selected))"


lemma bits_all_bits:
  "i < length candidates \<Longrightarrow> b_Len bf (candidates ! i) = b_Len bf (candidates ! 0) \<Longrightarrow> \<alpha> (candidates ! i) \<subseteq> all_bits bf \<alpha> candidates"
  by (auto simp: all_bits_def)

lemma keeps_fits:
  assumes "cover_inv bf \<alpha> candidates attempts selected usable coveredBits remainingBits" "i < cand_count candidates"
  shows "keeps bf \<alpha> candidates coveredBits remainingBits i \<longleftrightarrow> fits bf \<alpha> candidates (\<alpha> coveredBits) i"
    and "fits bf \<alpha> candidates (\<alpha> coveredBits) i \<Longrightarrow> \<alpha> (candidates ! i) \<inter> \<alpha> remainingBits = \<alpha> (candidates ! i)"
proof -
  have l: "b_Len bf coveredBits = b_Len bf (candidates ! 0)" and r: "\<alpha> remainingBits = all_bits bf \<alpha> candidates - \<alpha> coveredBits"
    using assms(1) by (simp_all add: cover_inv_def)
  have e: "\<alpha> (candidates ! i) \<inter> \<alpha> remainingBits = \<alpha> (candidates ! i)"
    if "b_Len bf (candidates ! i) = b_Len bf (candidates ! 0)" "\<alpha> (candidates ! i) \<inter> \<alpha> coveredBits = {}"
    using bits_all_bits [of i candidates bf \<alpha>] that cand_count(1) [OF assms(2)] unfolding r by blast
  show "keeps bf \<alpha> candidates coveredBits remainingBits i \<longleftrightarrow> fits bf \<alpha> candidates (\<alpha> coveredBits) i"
    using e l assms(2) by (auto simp: keeps_def fits_def)
  show "fits bf \<alpha> candidates (\<alpha> coveredBits) i \<Longrightarrow> \<alpha> (candidates ! i) \<inter> \<alpha> remainingBits = \<alpha> (candidates ! i)"
    using e by (simp add: fits_def)
qed

lemma cover_pass:
  assumes "bitlist64_laws bf \<alpha>"
    and inv: "cover_inv bf \<alpha> candidates attempts selected usable coveredBits remainingBits"
  shows "\<exists>usable' m b. score_loop bf candidates False coveredBits remainingBits (b_BitIndices bf usable) usable 0 0 = Ret ((usable', m, b), None)
    \<and> b_Len bf usable' = of_nat (length candidates)
    \<and> \<alpha> usable' = {i. fits bf \<alpha> candidates (\<alpha> coveredBits) i}
    \<and> (if m = 0 then \<alpha> usable' = {}
       else \<exists>i. fits bf \<alpha> candidates (\<alpha> coveredBits) i \<and> b = of_nat i
         \<and> (\<forall>j. fits bf \<alpha> candidates (\<alpha> coveredBits) j \<longrightarrow> card (\<alpha> (candidates ! j)) \<le> card (\<alpha> (candidates ! i))))"
proof -
  let ?F = "fits bf \<alpha> candidates (\<alpha> coveredBits)" and ?K = "keeps bf \<alpha> candidates coveredBits remainingBits"
  have ind: "set (b_BitIndices bf usable) = \<alpha> usable"
    by (simp add: b_BitIndices [OF assms(1)] bits_finite [OF assms(1)])
  have us: "\<alpha> usable \<subseteq> {..<cand_count candidates}" and FU: "\<And>i. ?F i \<Longrightarrow> i \<in> \<alpha> usable"
    and len: "b_Len bf remainingBits = b_Len bf coveredBits" "b_Len bf usable = of_nat (length candidates)"
    using inv by (auto simp: cover_inv_def)
  obtain usable' m b where
    s: "score_loop bf candidates False coveredBits remainingBits (b_BitIndices bf usable) usable 0 0 = Ret ((usable', m, b), None)"
    and l: "b_Len bf usable' = b_Len bf usable" and u: "\<alpha> usable' = \<alpha> usable - {i \<in> \<alpha> usable. \<not> ?K i}"
    and max: "\<forall>i \<in> \<alpha> usable. ?K i \<longrightarrow> score_of \<alpha> candidates remainingBits i \<le> unat m"
    and best: "m = 0 \<and> b = 0 \<or> (\<exists>i \<in> \<alpha> usable. ?K i \<and> b = of_nat i \<and> unat m = score_of \<alpha> candidates remainingBits i)"
    using score_loop_ok [OF assms(1) len(1) _ len(2), of "b_BitIndices bf usable" 0 0] us unfolding ind by (auto simp: subset_iff)
  have KF: "?K i \<longleftrightarrow> ?F i" if "i \<in> \<alpha> usable" for i using keeps_fits(1) [OF inv] us that by blast
  have sc: "score_of \<alpha> candidates remainingBits i = card (\<alpha> (candidates ! i))" if "?F i" for i
    using keeps_fits(2) [OF inv] us FU that by (auto simp: score_of_def subset_iff)
  have U: "\<alpha> usable' = {i. ?F i}" using u KF FU by auto
  have pos: "card (\<alpha> (candidates ! i)) \<noteq> 0" if "?F i" for i
    using that bits_finite [OF assms(1), of "candidates ! i"] by (simp add: fits_def)
  have le: "card (\<alpha> (candidates ! j)) \<le> unat m" if "?F j" for j using max KF [OF FU [OF that]] FU [OF that] sc [OF that] that by auto
  have "if m = 0 then \<alpha> usable' = {} else \<exists>i. ?F i \<and> b = of_nat i \<and> (\<forall>j. ?F j \<longrightarrow> card (\<alpha> (candidates ! j)) \<le> card (\<alpha> (candidates ! i)))"
  proof (cases "m = 0")
    case True
    then have "\<not> ?F j" for j using le [of j] pos [of j] by auto
    then show ?thesis using True U by simp
  next
    case False
    then obtain i where i: "i \<in> \<alpha> usable" "?K i" "b = of_nat i" "unat m = score_of \<alpha> candidates remainingBits i" using best by blast
    then have "?F i" using KF by blast
    then show ?thesis using False i le sc by auto
  qed
  then show ?thesis using s l len U by auto
qed

lemma cover_inv_select:
  assumes "bitlist64_laws bf \<alpha>"
    and inv: "cover_inv bf \<alpha> candidates attempts selected usable coveredBits remainingBits" and "\<alpha> usable \<noteq> {}"
    and i: "fits bf \<alpha> candidates (\<alpha> coveredBits) i"
    and max: "\<forall>j. fits bf \<alpha> candidates (\<alpha> coveredBits) j \<longrightarrow> card (\<alpha> (candidates ! j)) \<le> card (\<alpha> (candidates ! i))"
    and u: "\<alpha> usable' = {i. fits bf \<alpha> candidates (\<alpha> coveredBits) i}"
    and new: "b_Len bf selected' = of_nat (length candidates)" "\<alpha> selected' = insert i (\<alpha> selected)"
      "b_Len bf usable'' = of_nat (length candidates)" "\<alpha> usable'' = \<alpha> usable' - {i}"
      "b_Len bf coveredBits' = b_Len bf (candidates ! 0)" "\<alpha> coveredBits' = \<alpha> coveredBits \<union> \<alpha> (candidates ! i)"
      "b_Len bf remainingBits' = b_Len bf (candidates ! 0)" "\<alpha> remainingBits' = \<alpha> remainingBits - \<alpha> (candidates ! i)"
  shows "cover_inv bf \<alpha> candidates (Suc attempts) selected' usable'' coveredBits' remainingBits'"
proof -
  have ds: "disjoint_selection bf \<alpha> candidates (\<alpha> selected)" and cov: "\<alpha> coveredBits = (\<Union>i \<in> \<alpha> selected. \<alpha> (candidates ! i))"
    and rem: "\<alpha> remainingBits = all_bits bf \<alpha> candidates - \<alpha> coveredBits" and att: "attempts = card (\<alpha> selected)"
    and sel: "if \<alpha> selected = {} then \<alpha> usable = {..<cand_count candidates} \<or> \<alpha> usable = {} else has_largest bf \<alpha> candidates (\<alpha> selected)"
    and fu: "\<And>j. fits bf \<alpha> candidates (\<alpha> coveredBits) j \<Longrightarrow> j \<in> \<alpha> usable" and dis: "\<alpha> selected \<inter> \<alpha> usable = {}"
    using inv \<open>\<alpha> usable \<noteq> {}\<close> by (auto simp: cover_inv_def)
  have ni: "i \<notin> \<alpha> selected" using fu [OF i] dis by blast
  have "disjoint_selection bf \<alpha> candidates (\<alpha> selected')"
    using ds i cov new(2) by (auto simp: disjoint_selection_def fits_def)
  moreover have "has_largest bf \<alpha> candidates (\<alpha> selected')"
  proof (cases "\<alpha> selected = {}")
    case True
    have "card (\<alpha> (candidates ! j)) \<le> card (\<alpha> (candidates ! i))"
      if "j < cand_count candidates" "b_Len bf (candidates ! j) = b_Len bf (candidates ! 0)" for j
      using max that cov True by (cases "\<alpha> (candidates ! j) = {}") (auto simp: fits_def)
    then show ?thesis using new(2) by (auto simp: has_largest_def)
  next
    case False
    then show ?thesis using sel new(2) by (auto simp: has_largest_def)
  qed
  moreover have "Suc attempts = card (\<alpha> selected')" using att ni new(2) bits_finite [OF assms(1)] by simp
  moreover have "\<forall>j. fits bf \<alpha> candidates (\<alpha> coveredBits') j \<longrightarrow> j \<in> \<alpha> usable''"
    using new(4,6) u i by (auto simp: fits_def)
  moreover have "\<alpha> selected' \<inter> \<alpha> usable'' = {}" using new(2,4) u fu dis by auto
  ultimately show ?thesis using new cov rem u by (auto simp: cover_inv_def fits_def)
qed


text \<open>What a call promises of the selected candidates and the covered bits.\<close>
definition max_cover :: "('b, 'z) bitlist64_scheme \<Rightarrow> ('b \<Rightarrow> nat set) \<Rightarrow> 'b list \<Rightarrow> 'b \<Rightarrow> 'b \<Rightarrow> bool" where
  "max_cover bf \<alpha> candidates selected cover \<longleftrightarrow>
    disjoint_selection bf \<alpha> candidates (\<alpha> selected)
    \<and> b_Len bf cover = b_Len bf (candidates ! 0)
    \<and> \<alpha> cover = (\<Union>i \<in> \<alpha> selected. \<alpha> (candidates ! i))
    \<and> (\<forall>i. \<not> fits bf \<alpha> candidates (\<alpha> cover) i)
    \<and> (\<alpha> selected \<noteq> {} \<longrightarrow> has_largest bf \<alpha> candidates (\<alpha> selected))"

lemma cover_inv_final:
  assumes "cover_inv bf \<alpha> candidates attempts selected usable coveredBits remainingBits" "\<alpha> usable = {}"
  shows "max_cover bf \<alpha> candidates selected coveredBits"
  using assms by (auto simp: cover_inv_def max_cover_def)

lemma cover_loop_exit:
  assumes "bitlist64_laws bf \<alpha>"
    and inv: "cover_inv bf \<alpha> candidates attempts selected usable coveredBits remainingBits"
    and exit: "\<not> (b_Count bf selected < of_nat (length candidates) \<and> b_Count bf usable > 0) \<or> attempts > length candidates"
  shows "\<alpha> usable = {}"
proof (rule ccontr)
  assume ne: "\<alpha> usable \<noteq> {}"
  have sub: "\<alpha> selected \<subseteq> {..<cand_count candidates}" and us: "\<alpha> usable \<subseteq> {..<cand_count candidates}" "\<alpha> selected \<inter> \<alpha> usable = {}"
    and att: "attempts = card (\<alpha> selected)"
    using inv ne by (auto simp: cover_inv_def disjoint_selection_def)
  have "\<alpha> selected \<subset> {..<cand_count candidates}" using sub us ne by blast
  then have lt: "card (\<alpha> selected) < cand_count candidates" using psubset_card_mono [of "{..<cand_count candidates}" "\<alpha> selected"] by simp
  have "b_Count bf selected < of_nat (length candidates)"
    using cand_count(3) [OF lt] by (simp add: b_Count [OF assms(1)])
  moreover have "b_Count bf usable > 0"
    using ne bits_count_zero [OF assms(1) order_refl, of usable] by (simp add: b_Count [OF assms(1)] word_gt_0)
  ultimately show False using exit cand_count(1) [OF lt] att by simp
qed

lemma cover_loop_ok:
  assumes "bitlist64_laws bf \<alpha>"
    and "cover_inv bf \<alpha> candidates attempts selected usable coveredBits remainingBits"
  shows "\<exists>selected' cover. cover_loop bf candidates (length candidates) False attempts selected usable coveredBits remainingBits
      = Ret (Some (selected', cover), None) \<and> max_cover bf \<alpha> candidates selected' cover"
  using assms(2)
proof (induction "Suc (length candidates) - attempts" arbitrary: attempts selected usable coveredBits remainingBits rule: less_induct)
  case less
  let ?exit = "\<not> (b_Count bf selected < of_nat (length candidates) \<and> b_Count bf usable > 0) \<or> attempts > length candidates"
  note inv = less.prems
  show ?case
  proof (cases ?exit)
    case True
    then show ?thesis
      using cover_inv_final [OF inv cover_loop_exit [OF assms(1) inv]] by (simp add: cover_loop.simps [of bf candidates "length candidates"])
  next
    case False
    have ne: "\<alpha> usable \<noteq> {}"
      using False bits_count_zero [OF assms(1) order_refl, of usable] by (auto simp: b_Count [OF assms(1)])
    have dec: "Suc (length candidates) - Suc attempts < Suc (length candidates) - attempts" using False by auto
    obtain usable' m b where
      s: "score_loop bf candidates False coveredBits remainingBits (b_BitIndices bf usable) usable 0 0 = Ret ((usable', m, b), None)"
      and l: "b_Len bf usable' = of_nat (length candidates)" and u: "\<alpha> usable' = {i. fits bf \<alpha> candidates (\<alpha> coveredBits) i}"
      and best: "if m = 0 then \<alpha> usable' = {}
       else \<exists>i. fits bf \<alpha> candidates (\<alpha> coveredBits) i \<and> b = of_nat i
         \<and> (\<forall>j. fits bf \<alpha> candidates (\<alpha> coveredBits) j \<longrightarrow> card (\<alpha> (candidates ! j)) \<le> card (\<alpha> (candidates ! i)))"
      using cover_pass [OF assms(1) inv] by blast
    show ?thesis
    proof (cases "m = 0")
      case True
      have "cover_inv bf \<alpha> candidates (Suc attempts) selected usable' coveredBits remainingBits"
        using inv l best u True by (auto simp: cover_inv_def)
      from less.hyps [OF dec this] show ?thesis
        using False True s by (simp add: cover_loop.simps [of bf candidates "length candidates" False attempts])
    next
      case m: False
      then obtain i where i: "fits bf \<alpha> candidates (\<alpha> coveredBits) i" "b = of_nat i"
        "\<forall>j. fits bf \<alpha> candidates (\<alpha> coveredBits) j \<longrightarrow> card (\<alpha> (candidates ! j)) \<le> card (\<alpha> (candidates ! i))"
        using best by auto
      have L: "b_Len bf selected = of_nat (length candidates)" "b_Len bf coveredBits = b_Len bf (candidates ! 0)"
        "b_Len bf remainingBits = b_Len bf (candidates ! 0)" and ii: "i < cand_count candidates" "b_Len bf (candidates ! i) = b_Len bf (candidates ! 0)"
        using inv i by (simp_all add: cover_inv_def fits_def)
      obtain selected' usable'' coveredBits' remainingBits' where
        sb: "select_best bf candidates (of_nat i) selected usable' coveredBits remainingBits
          = Ret ((selected', usable'', coveredBits', remainingBits'), None)"
        and new: "b_Len bf selected' = of_nat (length candidates)" "\<alpha> selected' = insert i (\<alpha> selected)"
          "b_Len bf usable'' = of_nat (length candidates)" "\<alpha> usable'' = \<alpha> usable' - {i}"
          "b_Len bf coveredBits' = b_Len bf (candidates ! 0)" "\<alpha> coveredBits' = \<alpha> coveredBits \<union> \<alpha> (candidates ! i)"
          "b_Len bf remainingBits' = b_Len bf (candidates ! 0)" "\<alpha> remainingBits' = \<alpha> remainingBits - \<alpha> (candidates ! i)"
        using select_best_ok [OF assms(1) ii(1) L(1) l, of coveredBits remainingBits] ii(2) L l by auto
      from less.hyps [OF dec cover_inv_select [OF assms(1) inv ne i(1,3) u new]] show ?thesis
        using False m s sb i(2) by (simp add: cover_loop.simps [of bf candidates "length candidates" False attempts] word_gt_0)
    qed
  qed
qed

lemma union_bits_loop_ok:
  assumes "bitlist64_laws bf \<alpha>"
  shows "\<exists>r. union_bits_loop bf candidates ret = (Some r, None) \<and> b_Len bf r = b_Len bf ret
    \<and> \<alpha> r = \<alpha> ret \<union> (\<Union>c \<in> {c \<in> set candidates. b_Len bf c = b_Len bf ret}. \<alpha> c)"
proof (induction candidates arbitrary: ret)
  case Nil
  then show ?case by simp
next
  case (Cons c candidates)
  show ?case
  proof (cases "b_Len bf ret = b_Len bf c")
    case True
    then obtain d where d: "b_Or bf ret c = (d, None)" "b_Len bf d = b_Len bf ret" "\<alpha> d = \<alpha> ret \<union> \<alpha> c"
      using b_Or [OF assms] by blast
    have e: "{x. (x = c \<or> x \<in> set candidates) \<and> b_Len bf x = b_Len bf c} = insert c {x \<in> set candidates. b_Len bf x = b_Len bf c}" by auto
    show ?thesis using True d Cons.IH [of d] by (auto simp: e)
  next
    case False
    then have e: "{x. (x = c \<or> x \<in> set candidates) \<and> b_Len bf x = b_Len bf ret} = {x \<in> set candidates. b_Len bf x = b_Len bf ret}" by auto
    show ?thesis using False Cons.IH [of ret] by (simp add: e)
  qed
qed

lemma MaxCover_ok:
  assumes "bitlist64_laws bf \<alpha>" "candidates \<noteq> []" "b_Len bf (candidates ! 0) \<noteq> 0"
  shows "\<exists>selected cover. MaxCover bf candidates (length candidates) False = Ret (Some (selected, cover), None)
    \<and> max_cover bf \<alpha> candidates selected cover"
proof -
  let ?n = "of_nat (length candidates) :: u64" and ?l = "b_Len bf (candidates ! 0)"
  obtain r where r: "union bf candidates = (Some r, None)" "b_Len bf r = ?l" "\<alpha> r = (\<Union>c \<in> {c \<in> set candidates. b_Len bf c = ?l}. \<alpha> c)"
    using union_bits_loop_ok [OF assms(1), of candidates "b_New bf ?l"] assms(2,3)
    by (auto simp: union_def b_Len_New [OF assms(1)] bits_New [OF assms(1)])
  have all: "\<alpha> r = all_bits bf \<alpha> candidates" unfolding r(3) all_bits_def by (auto simp: set_conv_nth)
  have un: "unat ?n = cand_count candidates" by (simp add: cand_count_def)
  have "cover_inv bf \<alpha> candidates 0 (b_New bf ?n) (b_Not bf (b_New bf ?n)) (b_New bf ?l) r"
    using r all un by (auto simp: cover_inv_def disjoint_selection_def fits_def b_Len_New [OF assms(1)] bits_New [OF assms(1)]
        b_Len_Not [OF assms(1)] bits_Not [OF assms(1)])
  from cover_loop_ok [OF assms(1) this] show ?thesis using assms(2) r by (simp add: MaxCover_def Let_def)
qed


subsection \<open>Properties\<close>

text \<open>
  On candidates whose first one is not of length zero, \<^verbatim>\<open>MaxCover\<close> without overlaps returns: the selected candidates have the length of the
  first one, are not empty and pairwise share no bit; the cover is their union; no other candidate could be added, that is each one that is not
  empty and of that length shares a bit with the cover; and a candidate with most bits is among them. The safeguard on the number of
  attempts never cuts the search short.
\<close>
theorem MaxCover_greedy:
  assumes "bitlist64_laws bf \<alpha>" "candidates \<noteq> []" "length candidates < 2 ^ 64" "b_Len bf (candidates ! 0) \<noteq> 0"
  shows "\<exists>selected cover. MaxCover bf candidates (length candidates) False = Ret (Some (selected, cover), None)
    \<and> disjoint_selection bf \<alpha> candidates (\<alpha> selected)
    \<and> \<alpha> cover = (\<Union>i \<in> \<alpha> selected. \<alpha> (candidates ! i))
    \<and> (\<forall>i < length candidates. b_Len bf (candidates ! i) = b_Len bf (candidates ! 0) \<and> \<alpha> (candidates ! i) \<noteq> {}
        \<longrightarrow> \<alpha> (candidates ! i) \<inter> \<alpha> cover \<noteq> {})
    \<and> (\<alpha> selected \<noteq> {} \<longrightarrow> has_largest bf \<alpha> candidates (\<alpha> selected))"
proof -
  obtain selected cover where m: "MaxCover bf candidates (length candidates) False = Ret (Some (selected, cover), None)"
    "max_cover bf \<alpha> candidates selected cover" using MaxCover_ok [OF assms(1,2,4)] by blast
  have n: "cand_count candidates = length candidates" using assms(3) by (simp add: cand_count_def unat_of_nat)
  have "\<forall>i < length candidates. b_Len bf (candidates ! i) = b_Len bf (candidates ! 0) \<and> \<alpha> (candidates ! i) \<noteq> {}
    \<longrightarrow> \<alpha> (candidates ! i) \<inter> \<alpha> cover \<noteq> {}"
  proof -
    have "\<not> fits bf \<alpha> candidates (\<alpha> cover) i" for i using m(2) unfolding max_cover_def by blast
    then show ?thesis unfolding fits_def n by blast
  qed
  then show ?thesis using m by (auto simp: max_cover_def)
qed

text \<open>Bit lists as a length and a list of positions.\<close>
definition lb_bits :: "u64 \<times> nat list \<Rightarrow> nat set" where
  "lb_bits b = set (filter (\<lambda>i. i < unat (fst b)) (snd b))"

definition lb_count :: "u64 \<Rightarrow> nat list \<Rightarrow> u64" where
  "lb_count n xs = of_nat (length (remdups (filter (\<lambda>i. i < unat n) xs)))"

definition same_len :: "u64 \<times> nat list \<Rightarrow> u64 \<times> nat list \<Rightarrow> 'a \<Rightarrow> 'a result" where
  "same_len a b x = (x, if fst a = fst b then None else Some (Fresh ''bitlists are different lengths''))"

definition list_bits :: "(u64 \<times> nat list) bitlist64" where
  "list_bits = \<lparr>b_New = (\<lambda>n. (n, [])), b_Len = fst, b_Count = (\<lambda>(n, is). lb_count n is),
    b_Not = (\<lambda>(n, is). (n, filter (\<lambda>i. i \<notin> set is) [0..<unat n])),
    b_Or = (\<lambda>a b. same_len a b (fst a, snd a @ snd b)),
    b_And = (\<lambda>a b. same_len a b (fst a, filter (\<lambda>i. i \<in> set (snd b)) (snd a))),
    b_AndCount = (\<lambda>a b. same_len a b (lb_count (fst a) (filter (\<lambda>i. i \<in> set (snd b)) (snd a)))),
    b_XorCount = (\<lambda>a b. same_len a b
      (lb_count (fst a) (filter (\<lambda>i. i \<notin> set (snd b)) (snd a) @ filter (\<lambda>i. i \<notin> set (snd a)) (snd b)))),
    b_Overlaps = (\<lambda>a b. same_len a b (\<exists>i \<in> set (snd a). i < unat (fst a) \<and> i \<in> set (snd b))),
    b_SetBitAt = (\<lambda>i v (n, is). (n, if v then unat i # is else filter (\<lambda>j. j \<noteq> unat i) is)),
    b_BitIndices = (\<lambda>(n, is). sort (remdups (filter (\<lambda>i. i < unat n) is)))\<rparr>"

lemma lb_count_card: "lb_count n xs = of_nat (card {i \<in> set xs. i < unat n})"
proof -
  have "{i \<in> set xs. i < unat n} = set (filter (\<lambda>i. i < unat n) xs)" by auto
  then show ?thesis by (simp add: lb_count_def length_remdups_card_conv)
qed

lemma list_bits_laws: "bitlist64_laws list_bits lb_bits"
proof -
  have "sort (remdups (filter (\<lambda>i. i < unat n) is)) = sorted_list_of_set {i \<in> set is. i < unat (n :: u64)}" for n "is"
    using sorted_list_of_set_sort_remdups [of "filter (\<lambda>i. i < unat n) is"] by (simp only: set_filter)
  then show ?thesis
    unfolding bitlist64_laws_def
    by (auto simp: list_bits_def lb_bits_def lb_count_card same_len_def word_less_nat_alt intro!: arg_cong [where f = card] arg_cong [where f = of_nat])
qed

theorem MaxCover_greedy_witness:
  "\<exists>selected cover. MaxCover list_bits [(4, [0]), (4, [1, 2, 3]), (4, [0, 1])] 3 False = Ret (Some (selected, cover), None)
    \<and> {0} \<inter> lb_bits cover \<noteq> {}"
proof -
  let ?cs = "[(4, [0]), (4, [1, 2, 3]), (4, [0, 1])] :: (u64 \<times> nat list) list"
  have "b_Len list_bits (?cs ! 0) = 4" by (simp add: list_bits_def)
  moreover have "lb_bits (?cs ! 0) = {0}" by (simp add: lb_bits_def)
  ultimately show ?thesis using MaxCover_greedy [OF list_bits_laws, of ?cs] by (auto simp: numeral_3_eq_3)
qed

end
