(* ===== verification/Aggregation.thy ===== *)
theory Aggregation
  imports BlockAttestations MaxCover
begin

text \<open>
  Aggregation of attestations: \<^verbatim>\<open>proto/prysm/v1alpha1/attestation/aggregation/attestations\<close>, \<^verbatim>\<open>attestations.go\<close> and \<^verbatim>\<open>maxcover.go\<close>.

  The code works in place: the aggregated attestations are a prefix of the array of the input, those still to be aggregated follow, and
  the processed ones are set to nil and moved to the end. The array is a list of options here, \<open>None\<close> being nil, and the two slices are
  their lengths. Bit lists and signatures are a record of answers; a signature is represented by bytes. \<^verbatim>\<open>sort.Slice\<close> does not say how it orders
  equal elements, so the sorting function is an argument as well. The helpers of \<^verbatim>\<open>attList\<close> that only tests call are left out.
\<close>

record 'b agg_env = "'b bitlist64" +
  ae_ToBitlist64 :: "u8 list \<Rightarrow> 'b result"
  ae_ToBitlist :: "'b \<Rightarrow> u8 list"
  ae_Len :: "u8 list \<Rightarrow> u64"
  ae_Count :: "u8 list \<Rightarrow> u64"
  ae_Contains :: "u8 list \<Rightarrow> u8 list \<Rightarrow> bool result"
  ae_Overlaps :: "u8 list \<Rightarrow> u8 list \<Rightarrow> bool result"
  ae_BitsOr :: "u8 list \<Rightarrow> u8 list \<Rightarrow> u8 list result"
  ae_signatureFromBytes :: "u8 list \<Rightarrow> u8 list result"
  ae_aggregateSignatures :: "u8 list list \<Rightarrow> u8 list"
  ae_sortSlice :: "(Attestation \<Rightarrow> Attestation \<Rightarrow> bool) \<Rightarrow> Attestation list \<Rightarrow> Attestation list"

subsection \<open>Operations\<close>

definition ErrInvalidAttestationCount :: go_error where "ErrInvalidAttestationCount = Sentinel ''invalid number of attestations''"
definition ErrBitsOverlap :: go_error where "ErrBitsOverlap = Sentinel ''overlapping aggregation bits''"

definition AggregatePair :: "('b, 'z) agg_env_scheme \<Rightarrow> Attestation \<Rightarrow> Attestation \<Rightarrow> Attestation option result" where
  "AggregatePair env a1 a2 = (case ae_Overlaps env (at_AggregationBits a1) (at_AggregationBits a2) of
     (_, Some err) \<Rightarrow> (None, Some err)
   | (True, None) \<Rightarrow> (None, Some ErrBitsOverlap)
   | (False, None) \<Rightarrow>
       let swapped = ae_Count env (at_AggregationBits a2) > ae_Count env (at_AggregationBits a1);
           baseAtt = (if swapped then a2 else a1); newAtt = (if swapped then a1 else a2)
       in case ae_Contains env (at_AggregationBits baseAtt) (at_AggregationBits newAtt) of
            (_, Some err) \<Rightarrow> (None, Some err)
          | (True, None) \<Rightarrow> (Some baseAtt, None)
          | (False, None) \<Rightarrow> (case ae_BitsOr env (at_AggregationBits baseAtt) (at_AggregationBits newAtt) of
              (_, Some err) \<Rightarrow> (None, Some err)
            | (newBits, None) \<Rightarrow> (case ae_signatureFromBytes env (at_Signature newAtt) of
                (_, Some err) \<Rightarrow> (None, Some err)
              | (newSig, None) \<Rightarrow> (case ae_signatureFromBytes env (at_Signature baseAtt) of
                  (_, Some err) \<Rightarrow> (None, Some err)
                | (baseSig, None) \<Rightarrow>
                    (Some (baseAtt\<lparr>at_Signature := ae_aggregateSignatures env [baseSig, newSig], at_AggregationBits := newBits\<rparr>), None)))))"

text \<open>The loop over the selected keys; the first key is the target and gives the data. A nil attestation is dereferenced and panics.\<close>
fun sign_loop ::
  "('b, 'z) agg_env_scheme \<Rightarrow> Attestation option list \<Rightarrow> nat list \<Rightarrow> (nat \<times> AttestationData) option \<Rightarrow> u8 list list
    \<Rightarrow> ((nat \<times> AttestationData) option \<times> u8 list list) result outcome" where
  "sign_loop env atts [] target signs = Ret ((target, signs), None)"
| "sign_loop env atts (idx # keys) target signs =
    (if \<not> idx < length atts then Panic
     else case atts ! idx of
       None \<Rightarrow> Panic
     | Some a \<Rightarrow> (case ae_signatureFromBytes env (at_Signature a) of
         (_, Some err) \<Rightarrow> Ret ((target, signs), Some err)
       | (sig, None) \<Rightarrow> sign_loop env atts keys (case target of None \<Rightarrow> Some (idx, at_Data a) | Some _ \<Rightarrow> target) (signs @ [sig])))"

text \<open>The array after the call and the position of the aggregate.\<close>
definition aggregateAttestations ::
  "('b, 'z) agg_env_scheme \<Rightarrow> Attestation option list \<Rightarrow> nat list \<Rightarrow> 'b \<Rightarrow> (Attestation option list \<times> nat) result outcome" where
  "aggregateAttestations env atts keys coverage =
    (if length keys < 2 \<or> length atts < 2 then Ret ((atts, 0), Some (Wrap ''cannot aggregate'' ErrInvalidAttestationCount))
     else if b_Count env coverage = 0 then Ret ((atts, 0), Some (Fresh ''invalid or empty coverage''))
     else obind (sign_loop env atts keys None []) (\<lambda>r. case r of
       ((target, signs), e) \<Rightarrow>
         let targetIdx = (case target of None \<Rightarrow> 0 | Some (idx, _) \<Rightarrow> idx)
         in case (e, target) of
              (Some err, _) \<Rightarrow> Ret ((atts, targetIdx), Some err)
            | (None, None) \<Rightarrow> Panic
            | (None, Some (_, data)) \<Rightarrow>
                Ret ((atts[targetIdx := Some \<lparr>at_AggregationBits = ae_ToBitlist env coverage, at_Data = data,
                        at_Signature = ae_aggregateSignatures env signs\<rparr>], targetIdx), None)))"

fun coverage_loop :: "('b, 'z) agg_env_scheme \<Rightarrow> Attestation list \<Rightarrow> 'b \<Rightarrow> 'b option result" where
  "coverage_loop env [] coverage = (Some coverage, None)"
| "coverage_loop env (att # atts) coverage = (case ae_ToBitlist64 env (at_AggregationBits att) of
     (_, Some err) \<Rightarrow> (None, Some (Wrap ''could not get aggregation bits'' err))
   | (bits, None) \<Rightarrow> (case b_Or env coverage bits of
       (_, Some err) \<Rightarrow> (None, Some (Wrap ''could not get aggregation bits'' err))
     | (coverage, None) \<Rightarrow> coverage_loop env atts coverage))"

definition AggregateDisjointOneBitAtts :: "('b, 'z) agg_env_scheme \<Rightarrow> Attestation list \<Rightarrow> Attestation option result outcome" where
  "AggregateDisjointOneBitAtts env atts =
    (if length atts = 0 then Ret (None, None)
     else if length atts = 1 then Ret (Some (atts ! 0), None)
     else case ae_ToBitlist64 env (at_AggregationBits (atts ! 0)) of
       (_, Some err) \<Rightarrow> Ret (None, Some (Wrap ''could not get aggregation bits'' err))
     | (coverage, None) \<Rightarrow> (case coverage_loop env (tl atts) coverage of
         (Some coverage, None) \<Rightarrow>
           obind (aggregateAttestations env (map Some atts) [0..<length atts] coverage) (\<lambda>r. case r of
             (_, Some err) \<Rightarrow> Ret (None, Some (Wrap ''could not aggregate attestations'' err))
           | ((arr, idx), None) \<Rightarrow>
               if idx \<noteq> 0 then Ret (None, Some (Fresh ''could not aggregate attestations, obtained non zero index''))
               else Ret (arr ! 0, None))
       | (_, err) \<Rightarrow> Ret (None, err)))"

definition swap_at :: "nat \<Rightarrow> nat \<Rightarrow> 'a list \<Rightarrow> 'a list" where
  "swap_at i j xs = xs[i := xs ! j, j := xs ! i]"

fun clear_loop :: "nat list \<Rightarrow> Attestation option list \<Rightarrow> 'b option list \<Rightarrow> (Attestation option list \<times> 'b option list) outcome" where
  "clear_loop [] atts candidates = Ret (atts, candidates)"
| "clear_loop (idx # keys) atts candidates =
    (if idx < length atts \<and> idx < length candidates then clear_loop keys (atts[idx := None]) (candidates[idx := None]) else Panic)"

text \<open>The search for the last attestation that is not nil.\<close>
fun last_live :: "'a option list \<Rightarrow> nat \<Rightarrow> nat \<Rightarrow> nat" where
  "last_live atts idx0 0 = 0"
| "last_live atts idx0 (Suc lastIdx) =
    (if Suc lastIdx > idx0 \<and> atts ! Suc lastIdx = None then last_live atts idx0 lastIdx else Suc lastIdx)"

fun rearrange_loop :: "nat list \<Rightarrow> 'a option list \<Rightarrow> 'b option list \<Rightarrow> nat \<Rightarrow> 'a option list \<times> 'b option list" where
  "rearrange_loop [] atts candidates lastIdx = (atts, candidates)"
| "rearrange_loop (idx0 # keys) atts candidates lastIdx =
    (let l = last_live atts idx0 lastIdx
     in if idx0 = l then (atts, candidates) else rearrange_loop keys (swap_at idx0 l atts) (swap_at idx0 l candidates) l)"

definition rearrangeProcessedAttestations ::
  "Attestation option list \<Rightarrow> 'b option list \<Rightarrow> nat list \<Rightarrow> (Attestation option list \<times> 'b option list) outcome" where
  "rearrangeProcessedAttestations atts candidates processedKeys =
    obind (clear_loop processedKeys atts candidates) (\<lambda>(atts, candidates).
      Ret (rearrange_loop (sort processedKeys) atts candidates (length atts - 1)))"

fun filter_contained_loop :: "('b, 'z) agg_env_scheme \<Rightarrow> Attestation list \<Rightarrow> Attestation list \<Rightarrow> Attestation list result" where
  "filter_contained_loop env [] filtered = (filtered, None)"
| "filter_contained_loop env (a # al) filtered = (case ae_Contains env (at_AggregationBits (last filtered)) (at_AggregationBits a) of
     (_, Some err) \<Rightarrow> ([], Some err)
   | (True, None) \<Rightarrow> filter_contained_loop env al filtered
   | (False, None) \<Rightarrow> filter_contained_loop env al (filtered @ [a]))"

definition filterContained :: "('b, 'z) agg_env_scheme \<Rightarrow> Attestation list \<Rightarrow> Attestation list result" where
  "filterContained env al =
    (if length al < 2 then (al, None)
     else let al = ae_sortSlice env (\<lambda>a b. ae_Count env (at_AggregationBits a) > ae_Count env (at_AggregationBits b)) al
       in filter_contained_loop env (tl al) [hd al])"

text \<open>A nil bit list has no bytes here; the list of attestations is never nil.\<close>
definition validate_atts :: "('b, 'z) agg_env_scheme \<Rightarrow> Attestation list \<Rightarrow> go_error option" where
  "validate_atts env al =
    (if length al = 0 then Some (Wrap ''empty list'' ErrInvalidMaxCoverProblem)
     else if \<exists>a \<in> set al. at_AggregationBits a = [] \<or> ae_Len env (at_AggregationBits a) = 0
       then Some (Wrap ''bitlist cannot be nil or empty'' ErrInvalidMaxCoverProblem)
     else None)"

fun candidates_loop :: "('b, 'z) agg_env_scheme \<Rightarrow> Attestation list \<Rightarrow> 'b list \<Rightarrow> 'b list result" where
  "candidates_loop env [] candidates = (candidates, None)"
| "candidates_loop env (a # atts) candidates = (case ae_ToBitlist64 env (at_AggregationBits a) of
     (_, Some err) \<Rightarrow> ([], Some err)
   | (c, None) \<Rightarrow> candidates_loop env atts (candidates @ [c]))"

text \<open>
  The array, the candidates, the number of aggregated and of unaggregated attestations and the covered bits.
\<close>
record 'b agg_state =
  ag_atts :: "Attestation option list"
  ag_candidates :: "'b option list"
  ag_aggregated :: nat
  ag_unaggregated :: nat
  ag_covered :: 'b

text \<open>A call that fails returns a list of attestations with its error.\<close>
type_synonym 'b agg_result = "((Attestation list \<times> go_error) + 'b) outcome"

text \<open>The attestations of a slice of the array; a nil one would be handed on by the code and is a panic here.\<close>
definition live_slice :: "'a option list \<Rightarrow> nat \<Rightarrow> nat \<Rightarrow> 'a list outcome" where
  "live_slice xs start len =
    (let ys = take len (drop start xs)
     in if start + len \<le> length xs \<and> None \<notin> set ys then Ret (map the ys) else Panic)"

text \<open>The aggregated and the unaggregated attestations, which are returned with an error.\<close>
definition fail_with :: "'b agg_state \<Rightarrow> go_error \<Rightarrow> 'c agg_result" where
  "fail_with s err = obind (live_slice (ag_atts s) 0 (ag_aggregated s + ag_unaggregated s)) (\<lambda>atts. Ret (Inl (atts, err)))"

text \<open>The part of a round that makes an aggregate, puts it behind the aggregated ones and marks its bits as covered.\<close>
definition aggregate_step :: "('b, 'z) agg_env_scheme \<Rightarrow> nat list \<Rightarrow> 'b \<Rightarrow> 'b agg_state \<Rightarrow> 'b agg_state agg_result" where
  "aggregate_step env keys coverage s =
    obind (aggregateAttestations env (ag_atts s) keys coverage) (\<lambda>r. case r of
      ((atts, _), Some err) \<Rightarrow> fail_with (s\<lparr>ag_atts := atts\<rparr>) err
    | ((atts, aggIdx), None) \<Rightarrow>
        let idx0 = ag_aggregated s;
            s = s\<lparr>ag_atts := if idx0 < aggIdx then swap_at idx0 aggIdx atts else atts,
                  ag_candidates := if idx0 < aggIdx then swap_at idx0 aggIdx (ag_candidates s) else ag_candidates s,
                  ag_aggregated := idx0 + 1, ag_unaggregated := ag_unaggregated s - 1\<rparr>
        in case b_Or env (ag_covered s) coverage of
             (_, Some err) \<Rightarrow> Ret (Inl ([], err))
           | (covered, None) \<Rightarrow> Ret (Inr (s\<lparr>ag_covered := covered\<rparr>)))"

definition remove_step :: "nat list \<Rightarrow> 'b agg_state \<Rightarrow> 'b agg_state outcome" where
  "remove_step keys s =
    obind (rearrangeProcessedAttestations (ag_atts s) (ag_candidates s) keys) (\<lambda>(atts, candidates).
      if length keys > ag_unaggregated s then Panic
      else Ret (s\<lparr>ag_atts := atts, ag_candidates := candidates, ag_unaggregated := ag_unaggregated s - length keys\<rparr>))"

text \<open>One round; the flag says that the loop goes on.\<close>
definition aggregation_round :: "('b, 'z) agg_env_scheme \<Rightarrow> 'b agg_state \<Rightarrow> (bool \<times> 'b agg_state) agg_result" where
  "aggregation_round env s =
    (if ag_unaggregated s < 2 then Ret (Inr (False, s))
     else obind (live_slice (ag_candidates s) (ag_aggregated s) (ag_unaggregated s)) (\<lambda>roundCandidates.
       obind (MaxCover env roundCandidates (length roundCandidates) False) (\<lambda>r. case r of
         (_, Some err) \<Rightarrow> fail_with s err
       | (None, None) \<Rightarrow> Panic
       | (Some (selectedKeys, coverage), None) \<Rightarrow>
           if b_Count env selectedKeys < 2 then Ret (Inr (False, s))
           else
             let keys = map (\<lambda>key. key + ag_aggregated s) (b_BitIndices env selectedKeys)
             in case b_XorCount env (ag_covered s) coverage of
                  (_, Some err) \<Rightarrow> Ret (Inl ([], err))
                | (xc, None) \<Rightarrow>
                    obind (if xc > 0 then aggregate_step env keys coverage s else Ret (Inr s)) (\<lambda>r. case r of
                      Inl failure \<Rightarrow> Ret (Inl failure)
                    | Inr s \<Rightarrow> obind (remove_step (if xc > 0 then tl keys else keys) s) (\<lambda>s. Ret (Inr (True, s)))))))"

fun aggregation_loop :: "('b, 'z) agg_env_scheme \<Rightarrow> nat \<Rightarrow> 'b agg_state \<Rightarrow> 'b agg_state agg_result" where
  "aggregation_loop env 0 s = Ret (Inr s)"
| "aggregation_loop env (Suc n) s = obind (aggregation_round env s) (\<lambda>r. case r of
     Inl failure \<Rightarrow> Ret (Inl failure)
   | Inr (True, s) \<Rightarrow> aggregation_loop env n s
   | Inr (False, s) \<Rightarrow> Ret (Inr s))"

definition MaxCoverAttestationAggregation :: "('b, 'z) agg_env_scheme \<Rightarrow> Attestation list \<Rightarrow> Attestation list result outcome" where
  "MaxCoverAttestationAggregation env atts =
    (if length atts < 2 then Ret (atts, None)
     else case validate_atts env atts of
       Some err \<Rightarrow> Ret ([], Some err)
     | None \<Rightarrow> (case candidates_loop env atts [] of
         (_, Some err) \<Rightarrow> Ret ([], Some err)
       | (candidates, None) \<Rightarrow>
           let s = \<lparr>ag_atts = map Some atts, ag_candidates = map Some candidates, ag_aggregated = 0, ag_unaggregated = length atts,
                    ag_covered = b_New env (b_Len env (candidates ! 0))\<rparr>
           in obind (aggregation_loop env (length atts div 2) s) (\<lambda>r. case r of
                Inl (out, err) \<Rightarrow> Ret (out, Some err)
              | Inr s \<Rightarrow>
                  obind (live_slice (ag_atts s) 0 (ag_aggregated s)) (\<lambda>aggregated.
                  obind (live_slice (ag_atts s) (ag_aggregated s) (ag_unaggregated s)) (\<lambda>unaggregated.
                    case filterContained env unaggregated of
                      (_, Some err) \<Rightarrow> Ret ([], Some err)
                    | (filtered, None) \<Rightarrow> Ret (aggregated @ filtered, None))))))"

definition Aggregate :: "('b, 'z) agg_env_scheme \<Rightarrow> Attestation list \<Rightarrow> Attestation list result outcome" where
  "Aggregate env atts = MaxCoverAttestationAggregation env atts"


subsection \<open>Moving the processed attestations to the end\<close>

lemma last_live_ok:
  "last_live xs idx0 l \<le> l"
  "idx0 \<le> l \<Longrightarrow> idx0 \<le> last_live xs idx0 l"
  "l < idx0 \<Longrightarrow> last_live xs idx0 l = l"
  "last_live xs idx0 l < j \<Longrightarrow> j \<le> l \<Longrightarrow> xs ! j = None"
  "idx0 < last_live xs idx0 l \<Longrightarrow> xs ! last_live xs idx0 l \<noteq> None"
  by (induction l) (auto split: if_splits simp: le_Suc_eq)

lemma last_live_ge: "a \<le> idx0 \<Longrightarrow> a \<le> l \<Longrightarrow> a \<le> last_live xs idx0 l"
  using last_live_ok(2,3) [where xs = xs and ?idx0.0 = idx0 and l = l] by (cases "idx0 \<le> l") auto

lemma swap_at_length [simp]: "length (swap_at i j xs) = length xs"
  by (simp add: swap_at_def)

lemma swap_at_nth: "i < length xs \<Longrightarrow> j < length xs \<Longrightarrow> k < length xs \<Longrightarrow>
    swap_at i j xs ! k = (if k = i then xs ! j else if k = j then xs ! i else xs ! k)"
  by (auto simp: swap_at_def nth_list_update)

lemma swap_at_zip: "length xs = length ys \<Longrightarrow> i < length xs \<Longrightarrow> j < length xs \<Longrightarrow>
    zip (swap_at i j xs) (swap_at i j ys) = swap_at i j (zip xs ys)"
  by (simp add: swap_at_def update_zip)

lemma swap_at_mset: "i < length xs \<Longrightarrow> j < length xs \<Longrightarrow> mset (swap_at i j xs) = mset xs"
  using mset_swap [of j xs i] by (simp add: swap_at_def)

lemma swap_at_take: "a \<le> i \<Longrightarrow> a \<le> j \<Longrightarrow> take a (swap_at i j xs) = take a xs"
  by (simp add: swap_at_def)

text \<open>The entries that are not nil are the first \<open>m\<close>.\<close>
definition live_below :: "'a option list \<Rightarrow> nat \<Rightarrow> bool" where
  "live_below xs m \<longleftrightarrow> (\<forall>i < length xs. xs ! i \<noteq> None \<longleftrightarrow> i < m)"

definition nil_from :: "'a option list \<Rightarrow> nat \<Rightarrow> bool" where
  "nil_from xs i \<longleftrightarrow> (\<forall>j < length xs. i \<le> j \<longrightarrow> xs ! j = None)"

lemma live_belowI:
  assumes "\<And>i. i < length xs \<Longrightarrow> xs ! i = None \<Longrightarrow> nil_from xs i"
  shows "\<exists>m. live_below xs m"
proof -
  let ?P = "\<lambda>i. i < length xs \<and> xs ! i = None" and ?m = "LEAST i. i < length xs \<and> xs ! i = None"
  show ?thesis
  proof (cases "\<exists>i. ?P i")
    case True
    then have m: "?P ?m" by (rule LeastI_ex)
    have "nil_from xs ?m" using m assms by blast
    moreover have "xs ! i \<noteq> None" if "i < ?m" for i using that m not_less_Least [OF that] by auto
    ultimately have "live_below xs ?m" unfolding live_below_def nil_from_def by (metis leI)
    then show ?thesis ..
  next
    case False
    then have "live_below xs (length xs)" by (auto simp: live_below_def)
    then show ?thesis ..
  qed
qed

text \<open>
  The state of the loop: the keys still to be handled are nil, behind \<open>lastIdx\<close> everything is nil, and before it only those keys and
  entries with nothing but nil behind them.
\<close>
definition rearranging :: "nat \<Rightarrow> nat list \<Rightarrow> 'a option list \<Rightarrow> nat \<Rightarrow> bool" where
  "rearranging a keys atts lastIdx \<longleftrightarrow>
    sorted_wrt (<) keys \<and> (\<forall>k \<in> set keys. a \<le> k \<and> k < length atts \<and> atts ! k = None)
    \<and> a \<le> lastIdx \<and> lastIdx < length atts
    \<and> (\<forall>i < length atts. lastIdx < i \<longrightarrow> atts ! i = None)
    \<and> (\<forall>i < lastIdx. atts ! i = None \<longrightarrow> i \<in> set keys \<or> nil_from atts i)
    \<and> ((\<forall>k \<in> set keys. k \<le> lastIdx) \<or> atts ! lastIdx = None)"

lemma rearranging_swap:
  assumes r: "rearranging a (idx0 # keys) atts lastIdx" and l: "l = last_live atts idx0 lastIdx" and ne: "idx0 \<noteq> l"
  shows "rearranging a keys (swap_at idx0 l atts) l"
proof -
  have b: "idx0 < length atts" "l < length atts" "lastIdx < length atts" "atts ! idx0 = None" "a \<le> idx0" "a \<le> l"
    using r last_live_ok(1) [where xs = atts and ?idx0.0 = idx0 and l = lastIdx] last_live_ge [of a idx0 lastIdx atts] l
    unfolding rearranging_def by auto
  have keys: "\<forall>k \<in> set keys. idx0 < k \<and> k < length atts \<and> atts ! k = None" "sorted_wrt (<) keys"
    using r by (auto simp: rearranging_def)
  have behind: "atts ! i = None" if "l < i" "i < length atts" for i
    using that r last_live_ok(4) [where xs = atts and ?idx0.0 = idx0 and l = lastIdx and j = i] l by (cases "i \<le> lastIdx") (auto simp: rearranging_def not_le)
  have before: "i = idx0 \<or> i \<in> set keys \<or> nil_from atts i" if "i < l" "atts ! i = None" for i
    using that r last_live_ok(1) [where xs = atts and ?idx0.0 = idx0 and l = lastIdx] l by (auto simp: rearranging_def)
  have sw: "swap_at idx0 l atts ! k = (if k = idx0 then atts ! l else if k = l then None else atts ! k)" if "k < length atts" for k
    using swap_at_nth [of idx0 atts l k] b that by auto
  have live: "idx0 < l \<Longrightarrow> atts ! l \<noteq> None" using last_live_ok(5) [where xs = atts and ?idx0.0 = idx0 and l = lastIdx] l by simp
  have nil: "atts ! l = None" if "l < idx0"
  proof -
    have "lastIdx < idx0" using that l last_live_ok(2) [of idx0 lastIdx atts] by (cases "lastIdx < idx0") auto
    then show ?thesis using r l last_live_ok(3) [of lastIdx idx0 atts] by (auto simp: rearranging_def)
  qed
  have "i \<in> set keys \<or> nil_from (swap_at idx0 l atts) i" if i: "i < l" "swap_at idx0 l atts ! i = None" for i
  proof (cases "idx0 < l")
    case True
    then have "\<not> nil_from atts i" using live i(1) b(2) by (auto simp: nil_from_def)
    then show ?thesis using i sw [of i] b before [of i] live True by (auto split: if_splits)
  next
    case False
    then have "atts ! l = atts ! idx0" using nil ne b(4) by simp
    then have "swap_at idx0 l atts = atts" unfolding swap_at_def by (metis list_update_id)
    then show ?thesis using i before [of i] False ne by auto
  qed
  moreover have "swap_at idx0 l atts ! i = None" if "l < i" "i < length atts" for i
    using that sw [of i] behind [of i] nil by (auto split: if_splits)
  moreover have "swap_at idx0 l atts ! k = None" if "k \<in> set keys" for k
    using that keys(1) sw [of k] by auto
  moreover have "swap_at idx0 l atts ! l = None" using sw [OF b(2)] ne by auto
  ultimately show ?thesis using keys b unfolding rearranging_def by auto
qed

lemma rearrange_loop_ok:
  assumes "length cs = length atts" "rearranging a keys atts lastIdx" "rearrange_loop keys atts cs lastIdx = (atts', cs')"
  shows "length atts' = length atts \<and> length cs' = length atts \<and> take a atts' = take a atts \<and> take a cs' = take a cs
    \<and> mset (zip atts' cs') = mset (zip atts cs) \<and> (\<exists>m. live_below atts' m)"
  using assms
proof (induction keys arbitrary: atts cs lastIdx)
  case Nil
  have "\<exists>m. live_below atts m"
  proof (rule live_belowI)
    fix i assume i: "i < length atts" "atts ! i = None"
    have last: "\<forall>j < length atts. lastIdx < j \<longrightarrow> atts ! j = None" using Nil.prems(2) by (simp add: rearranging_def)
    show "nil_from atts i"
    proof (cases "i < lastIdx")
      case True
      then show ?thesis using Nil.prems(2) i(2) by (simp add: rearranging_def)
    next
      case False
      then have "i \<le> j \<Longrightarrow> j = i \<or> lastIdx < j" for j by auto
      then show ?thesis using last i(2) unfolding nil_from_def by blast
    qed
  qed
  then show ?case using Nil.prems by auto
next
  case (Cons idx0 keys)
  let ?l = "last_live atts idx0 lastIdx"
  show ?case
  proof (cases "idx0 = ?l")
    case True
    have behind: "nil_from atts idx0"
      unfolding nil_from_def
    proof (intro allI impI)
      fix j assume j: "j < length atts" "idx0 \<le> j"
      show "atts ! j = None"
        using j True Cons.prems(2) last_live_ok(4) [where xs = atts and ?idx0.0 = idx0 and l = lastIdx and j = j]
        by (cases "j = idx0"; cases "j \<le> lastIdx") (auto simp: rearranging_def)
    qed
    have "\<exists>m. live_below atts m"
    proof (rule live_belowI)
      fix i assume i: "i < length atts" "atts ! i = None"
      show "nil_from atts i"
      proof (cases "i < idx0")
        case i0: True
        then have "i < lastIdx" "i \<notin> set (idx0 # keys)"
          using True last_live_ok(1) [where xs = atts and ?idx0.0 = idx0 and l = lastIdx] Cons.prems(2) by (auto simp: rearranging_def)
        then show ?thesis using Cons.prems(2) i by (auto simp: rearranging_def)
      next
        case False
        then show ?thesis using behind by (auto simp: nil_from_def)
      qed
    qed
    then show ?thesis using Cons.prems True by (auto simp: Let_def)
  next
    case False
    have b: "idx0 < length atts" "?l < length atts" "a \<le> idx0" "a \<le> ?l"
      using Cons.prems(2) last_live_ok(1) [where xs = atts and ?idx0.0 = idx0 and l = lastIdx] last_live_ge [of a idx0 lastIdx atts]
      unfolding rearranging_def by auto
    have eq: "rearrange_loop keys (swap_at idx0 ?l atts) (swap_at idx0 ?l cs) ?l = (atts', cs')"
      using Cons.prems(3) False by (simp add: Let_def)
    have l: "length (swap_at idx0 ?l cs) = length (swap_at idx0 ?l atts)" using Cons.prems(1) by simp
    show ?thesis
      using Cons.IH [OF l rearranging_swap [OF Cons.prems(2) refl False] eq] b Cons.prems(1)
      by (simp add: swap_at_take swap_at_zip swap_at_mset)
  qed
qed


lemma clear_loop_ok:
  assumes "\<forall>k \<in> set keys. k < length atts" "length cs = length atts"
  shows "\<exists>atts' cs'. clear_loop keys atts cs = Ret (atts', cs') \<and> length atts' = length atts \<and> length cs' = length atts
    \<and> (\<forall>i < length atts. atts' ! i = (if i \<in> set keys then None else atts ! i) \<and> cs' ! i = (if i \<in> set keys then None else cs ! i))"
  using assms
proof (induction keys arbitrary: atts cs)
  case (Cons idx keys)
  then show ?case using Cons.IH [of "atts[idx := None]" "cs[idx := None]"] by (auto simp: nth_list_update)
qed simp

lemma live_below_count:
  assumes "length cs = length xs" "live_below xs m" "m \<le> length xs"
  shows "length (filter (\<lambda>p. fst p \<noteq> None) (zip xs cs)) = m"
proof -
  have "{i. i < length xs \<and> xs ! i \<noteq> None} = {..<m}" using assms(2,3) by (auto simp: live_below_def)
  then show ?thesis using assms(1) by (simp add: length_filter_conv_card cong: conj_cong)
qed

lemma live_below_min: "live_below xs m \<Longrightarrow> \<exists>m' \<le> length xs. live_below xs m'"
  by (rule exI [of _ "min m (length xs)"]) (auto simp: live_below_def)

text \<open>The entries of two arrays in a range of positions.\<close>
definition entries :: "'a list \<Rightarrow> 'b list \<Rightarrow> nat set \<Rightarrow> ('a \<times> 'b) set" where
  "entries xs ys P = (\<lambda>i. (xs ! i, ys ! i)) ` P"

lemma live_entries:
  assumes "length cs = length xs" "live_below xs m" "m \<le> length xs"
  shows "entries xs cs {a..<m} = {p \<in> set (drop a (zip xs cs)). fst p \<noteq> None}"
proof (intro set_eqI iffI)
  fix p assume "p \<in> entries xs cs {a..<m}"
  then obtain i where i: "a \<le> i" "i < m" "p = (xs ! i, cs ! i)" by (auto simp: entries_def)
  then have "p = drop a (zip xs cs) ! (i - a)" "i - a < length (drop a (zip xs cs))" using assms by auto
  then have "p \<in> set (drop a (zip xs cs))" by (metis nth_mem)
  then show "p \<in> {p \<in> set (drop a (zip xs cs)). fst p \<noteq> None}" using i assms by (auto simp: live_below_def)
next
  fix p assume p: "p \<in> {p \<in> set (drop a (zip xs cs)). fst p \<noteq> None}"
  then obtain j where j: "j < length (drop a (zip xs cs))" "p = drop a (zip xs cs) ! j" by (auto simp: in_set_conv_nth)
  then have "p = (xs ! (a + j), cs ! (a + j))" "a + j < length xs" using assms(1) by auto
  moreover have "a + j < m" using calculation p assms(2) by (auto simp: live_below_def)
  ultimately show "p \<in> entries xs cs {a..<m}" by (auto simp: entries_def)
qed

text \<open>\<open>xs\<close> and \<open>ys\<close> are the arrays with nil at the processed keys.\<close>
definition cleared :: "nat list \<Rightarrow> 'a option list \<Rightarrow> 'b option list \<Rightarrow> 'a option list \<Rightarrow> 'b option list \<Rightarrow> bool" where
  "cleared keys atts cs xs ys \<longleftrightarrow> length xs = length atts \<and> length ys = length atts
    \<and> (\<forall>i < length atts. xs ! i = (if i \<in> set keys then None else atts ! i) \<and> ys ! i = (if i \<in> set keys then None else cs ! i))"

lemma cleared_rearranging:
  assumes c: "cleared keys atts cs xs ys" and live: "live_below atts n" "n \<le> length atts"
    and keys: "sorted_wrt (<) keys" "keys \<noteq> []" "\<forall>k \<in> set keys. a \<le> k \<and> k < n"
  shows "rearranging a keys xs (length xs - 1)"
  unfolding rearranging_def
proof (intro conjI ballI allI impI)
  fix i assume i: "i < length xs - 1" "xs ! i = None"
  show "i \<in> set keys \<or> nil_from xs i"
  proof (cases "i \<in> set keys")
    case False
    then have "atts ! i = None" "i < length atts" using i c by (auto simp: cleared_def)
    then have "n \<le> i" using live(1) unfolding live_below_def by (meson leI)
    then show ?thesis using c live(1) by (auto simp: cleared_def nil_from_def live_below_def)
  qed simp
next
  have "hd keys \<in> set keys" using keys(2) by simp
  then show "a \<le> length xs - 1" "length xs - 1 < length xs" using keys(3) live(2) c by (force simp: cleared_def)+
qed (use keys live c in \<open>auto simp: cleared_def\<close>)

lemma cleared_live:
  assumes c: "cleared keys atts cs xs ys" and live: "live_below atts n" "n \<le> length atts"
  shows "i < length xs \<and> xs ! i \<noteq> None \<longleftrightarrow> i < n \<and> i \<notin> set keys"
  using c live by (cases "i < length atts") (simp_all add: cleared_def live_below_def)

lemma cleared_count:
  assumes c: "cleared keys atts cs xs ys" and live: "live_below atts n" "n \<le> length atts"
    and keys: "distinct keys" "\<forall>k \<in> set keys. k < n"
  shows "length (filter (\<lambda>p. fst p \<noteq> None) (zip xs ys)) = n - length keys"
proof -
  have "{i. i < length xs \<and> xs ! i \<noteq> None} = {..<n} - set keys" unfolding cleared_live [OF c live] by auto
  moreover have "card ({..<n} - set keys) = n - length keys"
    using keys by (subst card_Diff_subset) (auto simp: distinct_card)
  ultimately show ?thesis using c by (simp add: length_filter_conv_card cleared_def cong: conj_cong)
qed

lemma cleared_entries:
  assumes c: "cleared keys atts cs xs ys" and live: "live_below atts n" "n \<le> length atts"
  shows "{p \<in> set (drop a (zip xs ys)). fst p \<noteq> None} = entries atts cs ({a..<n} - set keys)"
proof (intro set_eqI iffI)
  fix p assume p: "p \<in> {p \<in> set (drop a (zip xs ys)). fst p \<noteq> None}"
  then obtain j where j: "j < length (drop a (zip xs ys))" "p = drop a (zip xs ys) ! j" by (auto simp: in_set_conv_nth)
  then have q: "p = (xs ! (a + j), ys ! (a + j))" "a + j < length xs" using c by (auto simp: cleared_def)
  then have l: "a + j < n" "a + j \<notin> set keys" using p cleared_live [OF c live, of "a + j"] by auto
  moreover have "p = (atts ! (a + j), cs ! (a + j))" using q l c by (simp add: cleared_def)
  ultimately show "p \<in> entries atts cs ({a..<n} - set keys)" by (auto simp: entries_def)
next
  fix p assume "p \<in> entries atts cs ({a..<n} - set keys)"
  then obtain i where i: "a \<le> i" "i < n" "i \<notin> set keys" "p = (atts ! i, cs ! i)" by (auto simp: entries_def)
  then have "p = drop a (zip xs ys) ! (i - a)" "i - a < length (drop a (zip xs ys))" using c live by (auto simp: cleared_def)
  then have "p \<in> set (drop a (zip xs ys))" by (metis nth_mem)
  then show "p \<in> {p \<in> set (drop a (zip xs ys)). fst p \<noteq> None}" using i live by (auto simp: live_below_def)
qed

lemma rearrange_ok:
  assumes len: "length cs = length atts" and live: "live_below atts n" "n \<le> length atts"
    and keys: "sorted_wrt (<) keys" "keys \<noteq> []" "\<forall>k \<in> set keys. a \<le> k \<and> k < n"
  shows "\<exists>atts' cs'. rearrangeProcessedAttestations atts cs keys = Ret (atts', cs')
    \<and> length atts' = length atts \<and> length cs' = length atts \<and> take a atts' = take a atts \<and> take a cs' = take a cs
    \<and> live_below atts' (n - length keys) \<and> entries atts' cs' {a..<n - length keys} = entries atts cs ({a..<n} - set keys)"
proof -
  have k1: "\<forall>k \<in> set keys. k < length atts" "\<forall>k \<in> set keys. k < n" "distinct keys" "sort keys = keys"
    using keys live by (auto simp: strict_sorted_iff sorted_sort_id)
  obtain xs ys where cl: "clear_loop keys atts cs = Ret (xs, ys)" and c: "cleared keys atts cs xs ys"
    using clear_loop_ok [OF k1(1) len] unfolding cleared_def by blast
  have l: "length xs = length atts" "length ys = length xs" using c by (simp_all add: cleared_def)
  obtain atts' cs' where e: "rearrange_loop keys xs ys (length xs - 1) = (atts', cs')" by fastforce
  from rearrange_loop_ok [OF l(2) cleared_rearranging [OF c live keys] e] obtain m0 where R: "length atts' = length xs" "length cs' = length xs"
    "take a atts' = take a xs" "take a cs' = take a ys" "mset (zip atts' cs') = mset (zip xs ys)" "live_below atts' m0" by blast
  obtain m where m: "m \<le> length atts'" "live_below atts' m" using live_below_min [OF R(6)] by blast
  have nk: "i \<notin> set keys" if "i < a" for i using that keys(3) by auto
  have tk: "take a xs = take a atts" using c nk by (intro nth_equalityI) (auto simp: cleared_def)
  have tk': "take a ys = take a cs" using c nk len by (intro nth_equalityI) (auto simp: cleared_def)
  have "length (filter (\<lambda>p. fst p \<noteq> None) (zip atts' cs')) = length (filter (\<lambda>p. fst p \<noteq> None) (zip xs ys))"
    using R(5) by (metis mset_filter size_mset)
  then have mm: "m = n - length keys" using cleared_count [OF c live k1(3,2)] live_below_count [of cs' atts' m] m R(1,2) by simp
  have "take a (zip atts' cs') = take a (zip xs ys)" using R(3,4) by (simp add: take_zip)
  then have "mset (drop a (zip atts' cs')) = mset (drop a (zip xs ys))" using R(5) by (metis add_left_cancel append_take_drop_id mset_append)
  note d = mset_eq_setD [OF this]
  have "entries atts' cs' {a..<m} = {p \<in> set (drop a (zip xs ys)). fst p \<noteq> None}"
    using live_entries [of cs' atts' m a] m R(1,2) d by simp
  then show ?thesis
    using cleared_entries [OF c live, of a] cl l e R tk tk' m mm k1(4) by (simp add: rearrangeProcessedAttestations_def)
qed

end
