(* ===== verification/AggregateVotes.thy ===== *)
theory AggregateVotes
  imports Aggregation
begin

text \<open>
  What aggregation of attestations promises: the documented behaviour of bit lists and sorting, the invariant of the rounds of
  \<^verbatim>\<open>MaxCoverAttestationAggregation\<close>, and that \<^verbatim>\<open>Aggregate\<close> neither loses nor invents a vote.
\<close>

subsection \<open>What aggregation promises\<close>

text \<open>
  The documented behaviour of bit lists, relative to the positions \<open>\<beta> x\<close> of a bit list \<open>x\<close>, and of sorting.
\<close>
definition agg_laws :: "('b, 'z) agg_env_scheme \<Rightarrow> ('b \<Rightarrow> nat set) \<Rightarrow> (u8 list \<Rightarrow> nat set) \<Rightarrow> bool" where
  "agg_laws env \<alpha> \<beta> \<longleftrightarrow>
    bitlist64_laws env \<alpha>
    \<and> (\<forall>x c. ae_ToBitlist64 env x = (c, None) \<longrightarrow> b_Len env c = ae_Len env x \<and> \<alpha> c = \<beta> x)
    \<and> (\<forall>c. ae_Len env (ae_ToBitlist env c) = b_Len env c \<and> \<beta> (ae_ToBitlist env c) = \<alpha> c)
    \<and> (\<forall>a b. b_Len env a \<noteq> b_Len env b \<longrightarrow> snd (b_XorCount env a b) \<noteq> None \<and> snd (b_Or env a b) \<noteq> None)
    \<and> (\<forall>x y b. ae_Contains env x y = (b, None) \<longrightarrow> b = (\<beta> y \<subseteq> \<beta> x))
    \<and> (\<forall>x y. ae_Len env x = ae_Len env y \<longrightarrow> snd (ae_Contains env x y) = None)
    \<and> (\<forall>x y z. ae_BitsOr env x y = (z, None) \<longrightarrow> \<beta> z = \<beta> x \<union> \<beta> y)
    \<and> (\<forall>x. finite (\<beta> x) \<and> card (\<beta> x) < 2 ^ 64 \<and> ae_Count env x = of_nat (card (\<beta> x)))
    \<and> (\<forall>lt xs. mset (ae_sortSlice env lt xs) = mset xs)"

lemma agg_facts:
  assumes "agg_laws env \<alpha> \<beta>"
  shows agg_bitlist64: "bitlist64_laws env \<alpha>"
    and ToBitlist64: "ae_ToBitlist64 env x = (c, None) \<Longrightarrow> b_Len env c = ae_Len env x \<and> \<alpha> c = \<beta> x"
    and ToBitlist: "ae_Len env (ae_ToBitlist env c) = b_Len env c" "\<beta> (ae_ToBitlist env c) = \<alpha> c"
    and lengths_differ: "b_Len env c \<noteq> b_Len env d \<Longrightarrow> snd (b_XorCount env c d) \<noteq> None"
      "b_Len env c \<noteq> b_Len env d \<Longrightarrow> snd (b_Or env c d) \<noteq> None"
    and Contains: "ae_Contains env x y = (b, None) \<Longrightarrow> b = (\<beta> y \<subseteq> \<beta> x)" "ae_Len env x = ae_Len env y \<Longrightarrow> snd (ae_Contains env x y) = None"
    and BitsOr: "ae_BitsOr env x y = (z, None) \<Longrightarrow> \<beta> z = \<beta> x \<union> \<beta> y"
    and bits_Count: "finite (\<beta> x)" "card (\<beta> x) < 2 ^ 64" "ae_Count env x = of_nat (card (\<beta> x))"
    and sortSlice: "mset (ae_sortSlice env lt xs) = mset xs"
  using assms unfolding agg_laws_def by blast+

text \<open>The positions of the bits of an attestation.\<close>
abbreviation att_bits :: "(u8 list \<Rightarrow> nat set) \<Rightarrow> Attestation \<Rightarrow> nat set" where
  "att_bits \<beta> t \<equiv> \<beta> (at_AggregationBits t)"

text \<open>
  An attestation made of others: at least two of its length that are not empty and pairwise share no bit, with all their bits, the data of the first and
  the aggregate of their signatures.
\<close>
definition aggregate_of :: "('b, 'z) agg_env_scheme \<Rightarrow> (u8 list \<Rightarrow> nat set) \<Rightarrow> Attestation list \<Rightarrow> Attestation \<Rightarrow> bool" where
  "aggregate_of env \<beta> ins t \<longleftrightarrow> (\<exists>ts sigs. 2 \<le> length ts \<and> set ts \<subseteq> set ins
    \<and> (\<forall>x \<in> set ts. att_bits \<beta> x \<noteq> {} \<and> ae_Len env (at_AggregationBits x) = ae_Len env (at_AggregationBits t))
    \<and> (\<forall>i < length ts. \<forall>j < length ts. i \<noteq> j \<longrightarrow> att_bits \<beta> (ts ! i) \<inter> att_bits \<beta> (ts ! j) = {})
    \<and> att_bits \<beta> t = (\<Union>x \<in> set ts. att_bits \<beta> x) \<and> at_Data t = at_Data (hd ts)
    \<and> map (\<lambda>x. ae_signatureFromBytes env (at_Signature x)) ts = map (\<lambda>sig. (sig, None)) sigs
    \<and> at_Signature t = ae_aggregateSignatures env sigs)"

text \<open>Attestations that can be aggregated: one length, signatures and bits that can be read.\<close>
definition readable :: "('b, 'z) agg_env_scheme \<Rightarrow> Attestation list \<Rightarrow> bool" where
  "readable env ins \<longleftrightarrow> (\<forall>t \<in> set ins. ae_Len env (at_AggregationBits t) = ae_Len env (at_AggregationBits (hd ins))
    \<and> snd (ae_signatureFromBytes env (at_Signature t)) = None \<and> snd (ae_ToBitlist64 env (at_AggregationBits t)) = None)"

definition opt_bits :: "(u8 list \<Rightarrow> nat set) \<Rightarrow> Attestation option \<Rightarrow> nat set" where
  "opt_bits \<beta> x = (case x of None \<Rightarrow> {} | Some t \<Rightarrow> att_bits \<beta> t)"

definition input_entry :: "('b, 'z) agg_env_scheme \<Rightarrow> Attestation list \<Rightarrow> Attestation option \<times> 'b option \<Rightarrow> bool" where
  "input_entry env ins p \<longleftrightarrow> (\<exists>t c. p = (Some t, Some c) \<and> t \<in> set ins \<and> ae_ToBitlist64 env (at_AggregationBits t) = (c, None))"

text \<open>The invariant of the rounds: the slices hold aggregates and inputs, and no bit is lost.\<close>
definition agg_inv ::
  "('b, 'z) agg_env_scheme \<Rightarrow> ('b \<Rightarrow> nat set) \<Rightarrow> (u8 list \<Rightarrow> nat set) \<Rightarrow> Attestation list \<Rightarrow> 'b agg_state \<Rightarrow> bool" where
  "agg_inv env \<alpha> \<beta> ins s \<longleftrightarrow>
    (let a = ag_aggregated s; u = ag_unaggregated s; done = set (take a (ag_atts s)); rest = entries (ag_atts s) (ag_candidates s) {a..<a + u}
     in length (ag_atts s) = length ins \<and> length (ag_candidates s) = length ins \<and> 0 < a + u \<and> a + u \<le> length ins
        \<and> live_below (ag_atts s) (a + u) \<and> b_Len env (ag_covered s) = ae_Len env (at_AggregationBits (hd ins))
        \<and> (\<forall>x \<in> done. \<exists>t. x = Some t \<and> aggregate_of env \<beta> ins t) \<and> (\<forall>p \<in> rest. input_entry env ins p)
        \<and> \<alpha> (ag_covered s) \<subseteq> \<Union> (opt_bits \<beta> ` done)
        \<and> \<Union> (opt_bits \<beta> ` done) \<union> \<Union> (opt_bits \<beta> ` fst ` rest) = \<Union> (att_bits \<beta> ` set ins))"

lemma agg_invI:
  assumes "ag_aggregated s = a" "ag_unaggregated s = u" "take a (ag_atts s) = D" "entries (ag_atts s) (ag_candidates s) {a..<a + u} = E"
    "length (ag_atts s) = length ins" "length (ag_candidates s) = length ins" "0 < a + u" "a + u \<le> length ins" "live_below (ag_atts s) (a + u)"
    "b_Len env (ag_covered s) = ae_Len env (at_AggregationBits (hd ins))"
    "\<forall>x \<in> set D. \<exists>t. x = Some t \<and> aggregate_of env \<beta> ins t" "\<forall>p \<in> E. input_entry env ins p"
    "\<alpha> (ag_covered s) \<subseteq> \<Union> (opt_bits \<beta> ` set D)" "\<Union> (opt_bits \<beta> ` set D) \<union> \<Union> (opt_bits \<beta> ` fst ` E) = \<Union> (att_bits \<beta> ` set ins)"
  shows "agg_inv env \<alpha> \<beta> ins s"
  unfolding agg_inv_def Let_def assms(1,2) assms(3,4) using assms(5-14) by blast

lemma sign_loop_ok:
  assumes "\<forall>k \<in> set keys. k < length atts \<and> atts ! k \<noteq> None"
  shows "\<exists>target' signs' e. sign_loop env atts keys target signs = Ret ((target', signs'), e)
    \<and> (if e = None then \<exists>sigs. signs' = signs @ sigs \<and> map (\<lambda>k. ae_signatureFromBytes env (at_Signature (the (atts ! k)))) keys = map (\<lambda>sig. (sig, None)) sigs
         \<and> target' = (if target = None \<and> keys \<noteq> [] then Some (hd keys, at_Data (the (atts ! hd keys))) else target)
       else \<exists>k \<in> set keys. snd (ae_signatureFromBytes env (at_Signature (the (atts ! k)))) \<noteq> None)"
  using assms
proof (induction keys arbitrary: target signs)
  case Nil
  then show ?case by simp
next
  case (Cons k keys)
  then obtain t where t: "atts ! k = Some t" "k < length atts" by auto
  obtain sig e where s: "ae_signatureFromBytes env (at_Signature t) = (sig, e)" by fastforce
  show ?case
  proof (cases e)
    case None
    let ?tg = "case target of None \<Rightarrow> Some (k, at_Data t) | Some _ \<Rightarrow> target"
    obtain target' signs' e' where r: "sign_loop env atts keys ?tg (signs @ [sig]) = Ret ((target', signs'), e')"
      and c: "if e' = None then \<exists>sigs. signs' = (signs @ [sig]) @ sigs
           \<and> map (\<lambda>k. ae_signatureFromBytes env (at_Signature (the (atts ! k)))) keys = map (\<lambda>sig. (sig, None)) sigs
           \<and> target' = (if ?tg = None \<and> keys \<noteq> [] then Some (hd keys, at_Data (the (atts ! hd keys))) else ?tg)
         else \<exists>k \<in> set keys. snd (ae_signatureFromBytes env (at_Signature (the (atts ! k)))) \<noteq> None"
      using Cons.IH [of ?tg "signs @ [sig]"] Cons.prems by fastforce
    have st: "sign_loop env atts (k # keys) target signs = Ret ((target', signs'), e')" using t s None r by simp
    show ?thesis
    proof (cases e')
      case n: None
      then obtain sigs where "signs' = signs @ (sig # sigs)" "map (\<lambda>k. ae_signatureFromBytes env (at_Signature (the (atts ! k)))) keys = map (\<lambda>sig. (sig, None)) sigs"
        "target' = ?tg" using c by (auto split: option.splits)
      then have "signs' = signs @ (sig # sigs) \<and> map (\<lambda>k. ae_signatureFromBytes env (at_Signature (the (atts ! k)))) (k # keys) = map (\<lambda>sig. (sig, None)) (sig # sigs)
        \<and> target' = (if target = None \<and> k # keys \<noteq> [] then Some (hd (k # keys), at_Data (the (atts ! hd (k # keys)))) else target)"
        using t s None by (auto split: option.splits)
      then show ?thesis using st n by fastforce
    next
      case (Some err)
      then show ?thesis using st c by auto
    qed
  next
    case (Some err)
    then show ?thesis using t s by auto
  qed
qed


subsection \<open>One round\<close>

lemma live_slice_ok:
  assumes "live_below xs m" "start + len \<le> m" "m \<le> length xs"
  shows "live_slice xs start len = Ret (map the (take len (drop start xs)))"
proof -
  have "take len (drop start xs) ! i \<noteq> None" if "i < length (take len (drop start xs))" for i
    using that assms by (simp add: live_below_def)
  then have "None \<notin> set (take len (drop start xs))" by (metis in_set_conv_nth)
  then show ?thesis using assms(2,3) by (simp add: live_slice_def Let_def)
qed

lemma remove_step_ok:
  assumes "length (ag_candidates s) = length (ag_atts s)" "ag_aggregated s + ag_unaggregated s \<le> length (ag_atts s)"
    "live_below (ag_atts s) (ag_aggregated s + ag_unaggregated s)" "sorted_wrt (<) keys" "keys \<noteq> []"
    "\<forall>k \<in> set keys. ag_aggregated s \<le> k \<and> k < ag_aggregated s + ag_unaggregated s"
  shows "\<exists>s'. remove_step keys s = Ret s' \<and> ag_aggregated s' = ag_aggregated s \<and> ag_unaggregated s' = ag_unaggregated s - length keys
    \<and> ag_covered s' = ag_covered s \<and> length keys \<le> ag_unaggregated s
    \<and> length (ag_atts s') = length (ag_atts s) \<and> length (ag_candidates s') = length (ag_atts s)
    \<and> take (ag_aggregated s) (ag_atts s') = take (ag_aggregated s) (ag_atts s)
    \<and> live_below (ag_atts s') (ag_aggregated s + ag_unaggregated s - length keys)
    \<and> entries (ag_atts s') (ag_candidates s') {ag_aggregated s..<ag_aggregated s + (ag_unaggregated s - length keys)}
      = entries (ag_atts s) (ag_candidates s) ({ag_aggregated s..<ag_aggregated s + ag_unaggregated s} - set keys)"
proof -
  have d: "distinct keys" using assms(4) strict_sorted_iff by blast
  have "card (set keys) \<le> card {ag_aggregated s..<ag_aggregated s + ag_unaggregated s}"
    using assms(6) by (intro card_mono) auto
  then have l: "length keys \<le> ag_unaggregated s" using d by (simp add: distinct_card)
  show ?thesis
    using rearrange_ok [OF assms(1,3,2,4,5,6)] l by (auto simp: remove_step_def)
qed

lemma round_candidates:
  assumes "agg_inv env \<alpha> \<beta> ins s"
  shows "\<exists>rc. live_slice (ag_candidates s) (ag_aggregated s) (ag_unaggregated s) = Ret rc \<and> length rc = ag_unaggregated s
    \<and> (\<forall>k < ag_unaggregated s. \<exists>t. ag_atts s ! (ag_aggregated s + k) = Some t \<and> t \<in> set ins
        \<and> ae_ToBitlist64 env (at_AggregationBits t) = (rc ! k, None))"
proof -
  let ?a = "ag_aggregated s" and ?u = "ag_unaggregated s"
  let ?ys = "take ?u (drop ?a (ag_candidates s))"
  have len: "length (ag_candidates s) = length ins" "?a + ?u \<le> length ins"
    and rest: "\<forall>p \<in> entries (ag_atts s) (ag_candidates s) {?a..<?a + ?u}. input_entry env ins p"
    using assms by (simp_all add: agg_inv_def Let_def)
  have k: "\<exists>t c. ag_atts s ! (?a + k) = Some t \<and> ag_candidates s ! (?a + k) = Some c \<and> t \<in> set ins
      \<and> ae_ToBitlist64 env (at_AggregationBits t) = (c, None)" if "k < ?u" for k
  proof -
    have "(ag_atts s ! (?a + k), ag_candidates s ! (?a + k)) \<in> entries (ag_atts s) (ag_candidates s) {?a..<?a + ?u}"
      using that by (auto simp: entries_def)
    then show ?thesis using rest by (fastforce simp: input_entry_def)
  qed
  have ly: "length ?ys = ?u" using len by simp
  have nth: "?ys ! k = ag_candidates s ! (?a + k)" if "k < ?u" for k using that len by simp
  have "?ys ! k \<noteq> None" if "k < length ?ys" for k using that ly k [of k] nth [of k] by auto
  then have "None \<notin> set ?ys" by (metis in_set_conv_nth)
  then have "live_slice (ag_candidates s) ?a ?u = Ret (map the ?ys)" using len by (simp add: live_slice_def Let_def)
  moreover have "\<forall>j < ?u. \<exists>t. ag_atts s ! (?a + j) = Some t \<and> t \<in> set ins \<and> ae_ToBitlist64 env (at_AggregationBits t) = (map the ?ys ! j, None)"
  proof (intro allI impI)
    fix j assume j: "j < ?u"
    then have "map the ?ys ! j = the (ag_candidates s ! (?a + j))" using ly nth [OF j] by simp
    then show "\<exists>t. ag_atts s ! (?a + j) = Some t \<and> t \<in> set ins \<and> ae_ToBitlist64 env (at_AggregationBits t) = (map the ?ys ! j, None)"
      using k [OF j] by auto
  qed
  ultimately show ?thesis using ly by auto
qed

text \<open>What a round selects, as positions of the array.\<close>
definition selection ::
  "('b, 'z) agg_env_scheme \<Rightarrow> ('b \<Rightarrow> nat set) \<Rightarrow> (u8 list \<Rightarrow> nat set) \<Rightarrow> Attestation list \<Rightarrow> 'b agg_state \<Rightarrow> nat list \<Rightarrow> 'b \<Rightarrow> bool" where
  "selection env \<alpha> \<beta> ins s keys coverage \<longleftrightarrow>
    sorted_wrt (<) keys \<and> 2 \<le> length keys
    \<and> (\<forall>k \<in> set keys. ag_aggregated s \<le> k \<and> k < ag_aggregated s + ag_unaggregated s
        \<and> (\<exists>t \<in> set ins. ag_atts s ! k = Some t \<and> att_bits \<beta> t \<noteq> {} \<and> ae_Len env (at_AggregationBits t) = b_Len env coverage))
    \<and> (\<forall>j \<in> set keys. \<forall>k \<in> set keys. j \<noteq> k \<longrightarrow> opt_bits \<beta> (ag_atts s ! j) \<inter> opt_bits \<beta> (ag_atts s ! k) = {})
    \<and> \<alpha> coverage = (\<Union>k \<in> set keys. opt_bits \<beta> (ag_atts s ! k))
    \<and> (\<exists>t \<in> set ins. b_Len env coverage = ae_Len env (at_AggregationBits t))"

lemma round_selection:
  assumes L: "agg_laws env \<alpha> \<beta>" and "agg_inv env \<alpha> \<beta> ins s"
    and rc: "length rc = ag_unaggregated s"
      "\<forall>k < ag_unaggregated s. \<exists>t. ag_atts s ! (ag_aggregated s + k) = Some t \<and> t \<in> set ins \<and> ae_ToBitlist64 env (at_AggregationBits t) = (rc ! k, None)"
    and mc: "max_cover env \<alpha> rc selected coverage" and c: "\<not> b_Count env selected < 2"
  shows "selection env \<alpha> \<beta> ins s (map (\<lambda>key. key + ag_aggregated s) (b_BitIndices env selected)) coverage"
proof -
  let ?a = "ag_aggregated s" and ?S = "\<alpha> selected"
  note B = agg_bitlist64 [OF L]
  have ds: "disjoint_selection env \<alpha> rc ?S" and cov: "\<alpha> coverage = (\<Union>i \<in> ?S. \<alpha> (rc ! i))" "b_Len env coverage = b_Len env (rc ! 0)"
    using mc by (simp_all add: max_cover_def)
  have fin: "finite ?S" by (rule bits_finite [OF B])
  have n2: "2 \<le> card ?S"
  proof -
    have "unat (b_Count env selected) = card ?S" using bits_card_unat [OF B order_refl, of selected] by (simp add: b_Count [OF B])
    then show ?thesis using c by (simp add: word_less_nat_alt)
  qed
  let ?keys = "map (\<lambda>key. key + ?a) (b_BitIndices env selected)"
  have set: "set ?keys = (\<lambda>i. i + ?a) ` ?S" using fin by (simp add: b_BitIndices [OF B])
  have S: "i < ag_unaggregated s" if "i \<in> ?S" for i using that ds rc(1) cand_count(1) [of i rc] by (auto simp: disjoint_selection_def)
  have att: "\<exists>t \<in> set ins. ag_atts s ! (i + ?a) = Some t \<and> att_bits \<beta> t = \<alpha> (rc ! i) \<and> ae_Len env (at_AggregationBits t) = b_Len env (rc ! i)"
    if i: "i < ag_unaggregated s" for i
  proof -
    obtain t where t: "ag_atts s ! (?a + i) = Some t" "t \<in> set ins" "ae_ToBitlist64 env (at_AggregationBits t) = (rc ! i, None)"
      using rc(2) i by blast
    show ?thesis using t ToBitlist64 [OF L t(3)] by (auto simp: add.commute)
  qed
  have ob: "opt_bits \<beta> (ag_atts s ! (i + ?a)) = \<alpha> (rc ! i)" if i: "i \<in> ?S" for i
  proof -
    obtain t where "ag_atts s ! (i + ?a) = Some t" "att_bits \<beta> t = \<alpha> (rc ! i)" using att [OF S [OF i]] by blast
    then show ?thesis by (simp add: opt_bits_def)
  qed
  have ne: "?S \<noteq> {}" using n2 by auto
  then obtain i0 where "i0 \<in> ?S" by blast
  then have "0 < ag_unaggregated s" using S [of i0] by simp
  then have "\<exists>t \<in> set ins. b_Len env coverage = ae_Len env (at_AggregationBits t)" using att [of 0] cov(2) by metis
  moreover have "sorted_wrt (<) ?keys" by (simp add: sorted_wrt_map b_BitIndices [OF B])
  moreover have "2 \<le> length ?keys" using n2 by (simp add: b_BitIndices [OF B])
  moreover have "\<forall>k \<in> set ?keys. ?a \<le> k \<and> k < ?a + ag_unaggregated s
    \<and> (\<exists>t \<in> set ins. ag_atts s ! k = Some t \<and> att_bits \<beta> t \<noteq> {} \<and> ae_Len env (at_AggregationBits t) = b_Len env coverage)"
  proof
    fix k assume "k \<in> set ?keys"
    then obtain i where i: "i \<in> ?S" "k = i + ?a" unfolding set by blast
    moreover have "\<alpha> (rc ! i) \<noteq> {}" "b_Len env (rc ! i) = b_Len env coverage" using ds i(1) cov(2) by (simp_all add: disjoint_selection_def)
    ultimately show "?a \<le> k \<and> k < ?a + ag_unaggregated s
      \<and> (\<exists>t \<in> set ins. ag_atts s ! k = Some t \<and> att_bits \<beta> t \<noteq> {} \<and> ae_Len env (at_AggregationBits t) = b_Len env coverage)"
      using S [OF i(1)] att [OF S [OF i(1)]] by (metis add.commute le_add1 add_less_cancel_right)
  qed
  moreover have "\<forall>j \<in> set ?keys. \<forall>k \<in> set ?keys. j \<noteq> k \<longrightarrow> opt_bits \<beta> (ag_atts s ! j) \<inter> opt_bits \<beta> (ag_atts s ! k) = {}"
    using ds ob unfolding set disjoint_selection_def by (simp add: ball_simps)
  moreover have "\<alpha> coverage = (\<Union>k \<in> set ?keys. opt_bits \<beta> (ag_atts s ! k))" using cov(1) ob unfolding set by simp
  ultimately show ?thesis unfolding selection_def by (intro conjI)
qed


lemma hd_sorted_keys:
  assumes "sorted_wrt (<) keys" "(2 :: nat) \<le> length keys"
  shows "hd keys \<in> set keys" "sorted_wrt (<) (tl keys)" "tl keys \<noteq> []" "\<forall>k \<in> set (tl keys). (hd keys :: nat) < k"
    "set keys = insert (hd keys) (set (tl keys))"
  using assms by (cases keys; cases "tl keys"; auto)+

lemma sign_loop_start:
  assumes "\<forall>k \<in> set keys. k < length atts \<and> atts ! k \<noteq> None" "keys \<noteq> []"
  shows "\<exists>target signs e. sign_loop env atts keys None [] = Ret ((target, signs), e)
    \<and> (if e = None then map (\<lambda>k. ae_signatureFromBytes env (at_Signature (the (atts ! k)))) keys = map (\<lambda>sig. (sig, None)) signs
         \<and> target = Some (hd keys, at_Data (the (atts ! hd keys)))
       else \<exists>k \<in> set keys. snd (ae_signatureFromBytes env (at_Signature (the (atts ! k)))) \<noteq> None)"
proof -
  obtain target signs e where r: "sign_loop env atts keys None [] = Ret ((target, signs), e)"
    and c: "if e = None then \<exists>sigs. signs = [] @ sigs \<and> map (\<lambda>k. ae_signatureFromBytes env (at_Signature (the (atts ! k)))) keys = map (\<lambda>sig. (sig, None)) sigs
         \<and> target = (if (None :: (nat \<times> AttestationData) option) = None \<and> keys \<noteq> [] then Some (hd keys, at_Data (the (atts ! hd keys))) else None)
       else \<exists>k \<in> set keys. snd (ae_signatureFromBytes env (at_Signature (the (atts ! k)))) \<noteq> None"
    using sign_loop_ok [OF assms(1), of env None "[]"] by blast
  show ?thesis using r c assms(2) by (cases "e = None") auto
qed

text \<open>The new attestation is made of the selected ones.\<close>
lemma aggregateAttestations_ok:
  assumes L: "agg_laws env \<alpha> \<beta>" and sel: "selection env \<alpha> \<beta> ins s keys coverage"
    and len: "ag_aggregated s + ag_unaggregated s \<le> length (ag_atts s)"
  shows "\<exists>atts' e. aggregateAttestations env (ag_atts s) keys coverage = Ret (atts', e)
    \<and> (if e = None then \<exists>t. atts' = ((ag_atts s)[hd keys := Some t], hd keys) \<and> aggregate_of env \<beta> ins t \<and> att_bits \<beta> t = \<alpha> coverage
       else fst atts' = ag_atts s \<and> \<not> readable env ins)"
proof -
  let ?f = "\<lambda>k. the (ag_atts s ! k)"
  note B = agg_bitlist64 [OF L]
  have keys: "sorted_wrt (<) keys" "2 \<le> length keys" "\<forall>k \<in> set keys. k < length (ag_atts s) \<and> ag_atts s ! k \<noteq> None"
    and cov: "\<alpha> coverage = (\<Union>k \<in> set keys. opt_bits \<beta> (ag_atts s ! k))"
    and ins: "\<forall>k \<in> set keys. ?f k \<in> set ins \<and> opt_bits \<beta> (ag_atts s ! k) = att_bits \<beta> (?f k) \<and> att_bits \<beta> (?f k) \<noteq> {}"
    and lens: "\<forall>k \<in> set keys. ae_Len env (at_AggregationBits (?f k)) = b_Len env coverage"
    and dis: "\<forall>j \<in> set keys. \<forall>k \<in> set keys. j \<noteq> k \<longrightarrow> opt_bits \<beta> (ag_atts s ! j) \<inter> opt_bits \<beta> (ag_atts s ! k) = {}"
    using sel len by (auto simp: selection_def opt_bits_def)
  have n2: "\<not> (length keys < 2 \<or> length (ag_atts s) < 2)"
  proof -
    have "card (set keys) \<le> card {..<length (ag_atts s)}" using keys(3) by (intro card_mono) auto
    then show ?thesis using keys(1,2) by (simp add: strict_sorted_iff distinct_card)
  qed
  have "\<alpha> coverage \<noteq> {}" using cov ins hd_sorted_keys(1) [OF keys(1,2)] by fastforce
  then have c: "b_Count env coverage \<noteq> 0" using bits_count_zero [OF B order_refl, of coverage] by (simp add: b_Count [OF B])
  have ne: "keys \<noteq> []" using keys(2) by auto
  obtain target signs e where r: "sign_loop env (ag_atts s) keys None [] = Ret ((target, signs), e)"
    and e: "if e = None then map (\<lambda>k. ae_signatureFromBytes env (at_Signature (?f k))) keys = map (\<lambda>sig. (sig, None)) signs
         \<and> target = Some (hd keys, at_Data (?f (hd keys)))
       else \<exists>k \<in> set keys. snd (ae_signatureFromBytes env (at_Signature (?f k))) \<noteq> None"
    using sign_loop_start [OF keys(3) ne, of env] by blast
  show ?thesis
  proof (cases e)
    case (Some err)
    then have "\<not> readable env ins" using e ins by (auto simp: readable_def)
    then show ?thesis using Some r n2 c by (auto simp: aggregateAttestations_def Let_def)
  next
    case None
    then have t: "target = Some (hd keys, at_Data (?f (hd keys)))"
      and sg: "map (\<lambda>k. ae_signatureFromBytes env (at_Signature (?f k))) keys = map (\<lambda>sig. (sig, None)) signs"
      using e by simp_all
    let ?t = "\<lparr>at_AggregationBits = ae_ToBitlist env coverage, at_Data = at_Data (?f (hd keys)), at_Signature = ae_aggregateSignatures env signs\<rparr>"
    have bits: "att_bits \<beta> ?t = \<alpha> coverage" by (simp add: ToBitlist(2) [OF L])
    have "\<forall>i < length keys. \<forall>j < length keys. i \<noteq> j \<longrightarrow> att_bits \<beta> (map ?f keys ! i) \<inter> att_bits \<beta> (map ?f keys ! j) = {}"
    proof (intro allI impI)
      fix i j assume ij: "i < length keys" "j < length keys" "i \<noteq> j"
      then have "keys ! i \<noteq> keys ! j" using keys(1) by (simp add: nth_eq_iff_index_eq strict_sorted_iff)
      then show "att_bits \<beta> (map ?f keys ! i) \<inter> att_bits \<beta> (map ?f keys ! j) = {}" using dis ins ij by (metis nth_map nth_mem)
    qed
    moreover have "set (map ?f keys) \<subseteq> set ins" using ins by auto
    moreover have "\<forall>x \<in> set (map ?f keys). att_bits \<beta> x \<noteq> {} \<and> ae_Len env (at_AggregationBits x) = ae_Len env (at_AggregationBits ?t)"
      using ins lens by (simp add: ToBitlist(1) [OF L])
    moreover have "\<alpha> coverage = (\<Union>x \<in> set (map ?f keys). att_bits \<beta> x)" using cov ins by simp
    moreover have "at_Data ?t = at_Data (hd (map ?f keys))" using keys(2) by (cases keys) auto
    moreover have "map (\<lambda>x. ae_signatureFromBytes env (at_Signature x)) (map ?f keys) = map (\<lambda>sig. (sig, None)) signs" using sg by (simp add: comp_def)
    ultimately have "aggregate_of env \<beta> ins ?t"
      unfolding aggregate_of_def using keys(2) bits by (intro exI [of _ "map ?f keys"] exI [of _ signs]) simp
    then show ?thesis using None r t n2 c bits by (auto simp: aggregateAttestations_def Let_def)
  qed
qed

lemma swapped_entries:
  assumes "a \<le> k0" "k0 < n" "n \<le> length xs" "length cs = length xs" "\<forall>k \<in> set ks. k0 < (k :: nat)"
    and "xs' = (if a < k0 then swap_at a k0 (xs[k0 := t]) else xs[k0 := t])" "cs' = (if a < k0 then swap_at a k0 cs else cs)"
  shows "xs' ! a = t" "take a xs' = take a xs" "length xs' = length xs" "length cs' = length xs"
    "entries xs' cs' ({Suc a..<n} - set ks) = entries xs cs ({a..<n} - insert k0 (set ks))"
proof -
  have nth: "xs' ! i = (if i = a then t else if i = k0 then xs ! a else xs ! i)" if "i < length xs" for i
    using that assms(1,2,3,6) by (auto simp: swap_at_nth nth_list_update)
  have cth: "cs' ! i = (if i = a then cs ! k0 else if i = k0 then cs ! a else cs ! i)" if "i < length xs" for i
    using that assms(1,2,3,4,7) by (auto simp: swap_at_nth)
  show "xs' ! a = t" using nth [of a] assms by auto
  show "length xs' = length xs" "length cs' = length xs" using assms by auto
  show "take a xs' = take a xs" using assms by (auto simp: swap_at_take)
  let ?g = "\<lambda>i. (xs' ! i, cs' ! i)" and ?h = "\<lambda>i. (xs ! i, cs ! i)"
  show "entries xs' cs' ({Suc a..<n} - set ks) = entries xs cs ({a..<n} - insert k0 (set ks))"
  proof (cases "a = k0")
    case True
    have "?g ` ({Suc a..<n} - set ks) = ?h ` ({Suc a..<n} - set ks)" using nth cth assms True by (intro image_cong) auto
    moreover have "{a..<n} - insert k0 (set ks) = {Suc a..<n} - set ks" using True by auto
    ultimately show ?thesis by (simp add: entries_def)
  next
    case False
    let ?R = "{Suc a..<n} - {k0} - set ks"
    have "?g ` ?R = ?h ` ?R" using nth cth assms by (intro image_cong) auto
    moreover have "?g k0 = ?h a" using nth [of k0] cth [of k0] assms False by auto
    moreover have "{Suc a..<n} - set ks = insert k0 ?R" "{a..<n} - insert k0 (set ks) = insert a ?R" using assms False by auto
    ultimately show ?thesis by (simp add: entries_def)
  qed
qed


lemma fail_with_ok:
  assumes "live_below (ag_atts s) (ag_aggregated s + ag_unaggregated s)" "ag_aggregated s + ag_unaggregated s \<le> length (ag_atts s)"
  shows "\<exists>out. fail_with s err = Ret (Inl (out, err))"
  using live_slice_ok [OF assms(1) _ assms(2), of 0] by (simp add: fail_with_def)

lemma aggregate_step_ok:
  assumes L: "agg_laws env \<alpha> \<beta>" and inv: "agg_inv env \<alpha> \<beta> ins s" and sel: "selection env \<alpha> \<beta> ins s keys coverage"
    and len: "b_Len env (ag_covered s) = b_Len env coverage"
  shows "\<exists>r. aggregate_step env keys coverage s = Ret r \<and> (case r of Inl _ \<Rightarrow> \<not> readable env ins
    | Inr s' \<Rightarrow> \<exists>t. ag_aggregated s' = Suc (ag_aggregated s) \<and> ag_unaggregated s' = ag_unaggregated s - 1
        \<and> length (ag_atts s') = length ins \<and> length (ag_candidates s') = length ins
        \<and> live_below (ag_atts s') (ag_aggregated s + ag_unaggregated s)
        \<and> take (Suc (ag_aggregated s)) (ag_atts s') = take (ag_aggregated s) (ag_atts s) @ [Some t]
        \<and> aggregate_of env \<beta> ins t \<and> att_bits \<beta> t = \<alpha> coverage
        \<and> b_Len env (ag_covered s') = b_Len env (ag_covered s) \<and> \<alpha> (ag_covered s') = \<alpha> (ag_covered s) \<union> \<alpha> coverage
        \<and> entries (ag_atts s') (ag_candidates s') ({Suc (ag_aggregated s)..<ag_aggregated s + ag_unaggregated s} - set (tl keys))
          = entries (ag_atts s) (ag_candidates s) ({ag_aggregated s..<ag_aggregated s + ag_unaggregated s} - set keys))"
proof -
  let ?a = "ag_aggregated s" and ?n = "ag_aggregated s + ag_unaggregated s"
  have I: "length (ag_atts s) = length ins" "length (ag_candidates s) = length ins" "?n \<le> length ins" "live_below (ag_atts s) ?n"
    using inv by (simp_all add: agg_inv_def Let_def)
  have keys: "sorted_wrt (<) keys" "2 \<le> length keys" "\<forall>k \<in> set keys. ?a \<le> k \<and> k < ?n" using sel by (simp_all add: selection_def)
  note H = hd_sorted_keys [OF keys(1,2)]
  have k0: "?a \<le> hd keys" "hd keys < ?n" using H(1) keys(3) by blast+
  have n: "?n \<le> length (ag_atts s)" using I by simp
  obtain atts' e where r: "aggregateAttestations env (ag_atts s) keys coverage = Ret (atts', e)"
    and c: "if e = None then \<exists>t. atts' = ((ag_atts s)[hd keys := Some t], hd keys) \<and> aggregate_of env \<beta> ins t \<and> att_bits \<beta> t = \<alpha> coverage
       else fst atts' = ag_atts s \<and> \<not> readable env ins"
    using aggregateAttestations_ok [OF L sel n] by blast
  show ?thesis
  proof (cases e)
    case (Some err)
    then show ?thesis
      using r c fail_with_ok [of "s\<lparr>ag_atts := fst atts'\<rparr>" err] I
      by (auto simp: aggregate_step_def split: prod.splits)
  next
    case None
    then obtain t where t: "atts' = ((ag_atts s)[hd keys := Some t], hd keys)" "aggregate_of env \<beta> ins t" "att_bits \<beta> t = \<alpha> coverage"
      using c by auto
    obtain cov where cov: "b_Or env (ag_covered s) coverage = (cov, None)" "b_Len env cov = b_Len env (ag_covered s)"
        "\<alpha> cov = \<alpha> (ag_covered s) \<union> \<alpha> coverage"
      using b_Or [OF agg_bitlist64 [OF L] len] by blast
    define xs where xs: "xs = (if ?a < hd keys then swap_at ?a (hd keys) ((ag_atts s)[hd keys := Some t]) else (ag_atts s)[hd keys := Some t])"
    define cs where cs: "cs = (if ?a < hd keys then swap_at ?a (hd keys) (ag_candidates s) else ag_candidates s)"
    have "length (ag_candidates s) = length (ag_atts s)" using I by simp
    note E = swapped_entries [OF k0 n this H(4) xs cs]
    have live: "live_below xs ?n"
      using I(1,3,4) k0 unfolding live_below_def xs by (auto simp: swap_at_nth nth_list_update split: if_splits)
    have tk: "take (Suc ?a) xs = take ?a (ag_atts s) @ [Some t]"
      using E(1,2,3) k0 n by (simp add: take_Suc_conv_app_nth)
    show ?thesis
      using r None t cov tk live E(3,4,5) I unfolding xs [symmetric] cs [symmetric] H(5)
      by (auto simp: aggregate_step_def Let_def xs [symmetric] cs [symmetric])
  qed
qed

lemma entries_split: "fst ` entries xs cs P = (\<lambda>i. xs ! i) ` P"
  by (auto simp: entries_def image_iff)


lemma entries_bits: "K \<subseteq> P \<Longrightarrow> \<Union> (opt_bits \<beta> ` fst ` entries xs cs P)
    = (\<Union>k \<in> K. opt_bits \<beta> (xs ! k)) \<union> \<Union> (opt_bits \<beta> ` fst ` entries xs cs (P - K))"
  by (auto simp: entries_split)

lemma entries_mono: "P \<subseteq> Q \<Longrightarrow> entries xs cs P \<subseteq> entries xs cs Q"
  by (auto simp: entries_def)

lemma selection_bits:
  assumes sel: "selection env \<alpha> \<beta> ins s keys coverage"
  shows "\<alpha> coverage \<noteq> {}"
proof -
  have "keys \<noteq> []" using sel by (auto simp: selection_def)
  then have k: "hd keys \<in> set keys" by simp
  have "\<forall>k \<in> set keys. \<exists>t. ag_atts s ! k = Some t \<and> att_bits \<beta> t \<noteq> {}" and cov: "\<alpha> coverage = (\<Union>k \<in> set keys. opt_bits \<beta> (ag_atts s ! k))"
    using sel by (auto simp: selection_def)
  then obtain t where "ag_atts s ! hd keys = Some t" "att_bits \<beta> t \<noteq> {}" using k by blast
  then have "opt_bits \<beta> (ag_atts s ! hd keys) \<noteq> {}" by (simp add: opt_bits_def)
  then show ?thesis unfolding cov using k by blast
qed

lemma round_drop:
  assumes L: "agg_laws env \<alpha> \<beta>" and inv: "agg_inv env \<alpha> \<beta> ins s" and sel: "selection env \<alpha> \<beta> ins s keys coverage"
    and eq: "\<alpha> (ag_covered s) = \<alpha> coverage"
  shows "\<exists>s'. remove_step keys s = Ret s' \<and> agg_inv env \<alpha> \<beta> ins s'"
proof -
  let ?a = "ag_aggregated s" and ?u = "ag_unaggregated s"
  let ?R = "entries (ag_atts s) (ag_candidates s)" and ?done = "set (take ?a (ag_atts s))"
  have I: "length (ag_candidates s) = length (ag_atts s)" "?a + ?u \<le> length (ag_atts s)" "live_below (ag_atts s) (?a + ?u)"
    and J: "length (ag_atts s) = length ins" "\<forall>p \<in> ?R {?a..<?a + ?u}. input_entry env ins p" "\<alpha> (ag_covered s) \<subseteq> \<Union> (opt_bits \<beta> ` ?done)"
      "\<Union> (opt_bits \<beta> ` ?done) \<union> \<Union> (opt_bits \<beta> ` fst ` ?R {?a..<?a + ?u}) = \<Union> (att_bits \<beta> ` set ins)"
      "\<forall>x \<in> ?done. \<exists>t. x = Some t \<and> aggregate_of env \<beta> ins t" "b_Len env (ag_covered s) = ae_Len env (at_AggregationBits (hd ins))"
    using inv by (simp_all add: agg_inv_def Let_def)
  have keys: "sorted_wrt (<) keys" "keys \<noteq> []" "\<forall>k \<in> set keys. ?a \<le> k \<and> k < ?a + ?u" "set keys \<subseteq> {?a..<?a + ?u}"
    and cov: "\<alpha> coverage = (\<Union>k \<in> set keys. opt_bits \<beta> (ag_atts s ! k))"
    using sel by (auto simp: selection_def)
  have cov2: "\<alpha> coverage \<noteq> {}" by (rule selection_bits [OF sel])
  have a0: "?a \<noteq> 0" using J(3) eq cov2 by auto
  obtain s' where s': "remove_step keys s = Ret s'" "ag_aggregated s' = ?a" "ag_unaggregated s' = ?u - length keys" "ag_covered s' = ag_covered s"
    "length keys \<le> ?u" "length (ag_atts s') = length (ag_atts s)" "length (ag_candidates s') = length (ag_atts s)"
    "take ?a (ag_atts s') = take ?a (ag_atts s)" "live_below (ag_atts s') (?a + ?u - length keys)"
    and E: "entries (ag_atts s') (ag_candidates s') {?a..<?a + (?u - length keys)} = ?R ({?a..<?a + ?u} - set keys)"
    using remove_step_ok [OF I keys(1,2,3)] by blast
  have sub: "?R ({?a..<?a + ?u} - set keys) \<subseteq> ?R {?a..<?a + ?u}" by (rule entries_mono) auto
  have U: "\<Union> (opt_bits \<beta> ` ?done) \<union> \<Union> (opt_bits \<beta> ` fst ` ?R ({?a..<?a + ?u} - set keys)) = \<Union> (att_bits \<beta> ` set ins)"
    using J(3,4) unfolding eq entries_bits [OF keys(4)] cov [symmetric] by (simp add: Un_assoc [symmetric] Un_absorb2)
  have d: "?a + ?u - length keys = ?a + (?u - length keys)" using s'(5) by simp
  have "agg_inv env \<alpha> \<beta> ins s'"
  proof (rule agg_invI [OF s'(2,3,8) E])
    show "\<forall>p \<in> ?R ({?a..<?a + ?u} - set keys). input_entry env ins p" using J(2) sub by blast
    show "\<alpha> (ag_covered s') \<subseteq> \<Union> (opt_bits \<beta> ` ?done)" using J(3) s'(4) by simp
    show "0 < ?a + (?u - length keys)" "?a + (?u - length keys) \<le> length ins" using I(2) J(1) a0 by linarith+
  qed (use J(1,5,6) s'(4,6,7,9) d U in \<open>simp_all only:\<close>)
  then show ?thesis using s'(1) by blast
qed

lemma round_aggregate:
  assumes L: "agg_laws env \<alpha> \<beta>" and inv: "agg_inv env \<alpha> \<beta> ins s" and sel: "selection env \<alpha> \<beta> ins s keys coverage"
    and len: "b_Len env (ag_covered s) = b_Len env coverage"
  shows "\<exists>r. aggregate_step env keys coverage s = Ret r \<and> (case r of Inl _ \<Rightarrow> \<not> readable env ins
    | Inr s1 \<Rightarrow> \<exists>s'. remove_step (tl keys) s1 = Ret s' \<and> agg_inv env \<alpha> \<beta> ins s')"
proof -
  let ?a = "ag_aggregated s" and ?u = "ag_unaggregated s"
  let ?R = "entries (ag_atts s) (ag_candidates s)" and ?done = "set (take ?a (ag_atts s))"
  have J: "?a + ?u \<le> length ins" "\<forall>p \<in> ?R {?a..<?a + ?u}. input_entry env ins p" "\<alpha> (ag_covered s) \<subseteq> \<Union> (opt_bits \<beta> ` ?done)"
      "\<Union> (opt_bits \<beta> ` ?done) \<union> \<Union> (opt_bits \<beta> ` fst ` ?R {?a..<?a + ?u}) = \<Union> (att_bits \<beta> ` set ins)"
      "\<forall>x \<in> ?done. \<exists>t. x = Some t \<and> aggregate_of env \<beta> ins t" "b_Len env (ag_covered s) = ae_Len env (at_AggregationBits (hd ins))"
    using inv by (simp_all add: agg_inv_def Let_def)
  have keys: "sorted_wrt (<) keys" "2 \<le> length keys" "\<forall>k \<in> set keys. ?a \<le> k \<and> k < ?a + ?u" "set keys \<subseteq> {?a..<?a + ?u}"
    and cov: "\<alpha> coverage = (\<Union>k \<in> set keys. opt_bits \<beta> (ag_atts s ! k))"
    using sel by (auto simp: selection_def)
  note H = hd_sorted_keys [OF keys(1,2)]
  have u: "?u \<noteq> 0" using keys(3) H(1) by auto
  obtain r where r: "aggregate_step env keys coverage s = Ret r" and c: "case r of Inl _ \<Rightarrow> \<not> readable env ins
    | Inr s' \<Rightarrow> \<exists>t. ag_aggregated s' = Suc ?a \<and> ag_unaggregated s' = ?u - 1
        \<and> length (ag_atts s') = length ins \<and> length (ag_candidates s') = length ins \<and> live_below (ag_atts s') (?a + ?u)
        \<and> take (Suc ?a) (ag_atts s') = take ?a (ag_atts s) @ [Some t] \<and> aggregate_of env \<beta> ins t \<and> att_bits \<beta> t = \<alpha> coverage
        \<and> b_Len env (ag_covered s') = b_Len env (ag_covered s) \<and> \<alpha> (ag_covered s') = \<alpha> (ag_covered s) \<union> \<alpha> coverage
        \<and> entries (ag_atts s') (ag_candidates s') ({Suc ?a..<?a + ?u} - set (tl keys)) = ?R ({?a..<?a + ?u} - set keys)"
    using aggregate_step_ok [OF L inv sel len] by blast
  show ?thesis
  proof (cases r)
    case (Inl x)
    then show ?thesis using r c by auto
  next
    case (Inr s1)
    then obtain t where s1: "ag_aggregated s1 = Suc ?a" "ag_unaggregated s1 = ?u - 1" "length (ag_atts s1) = length ins"
        "length (ag_candidates s1) = length ins" "live_below (ag_atts s1) (?a + ?u)" "take (Suc ?a) (ag_atts s1) = take ?a (ag_atts s) @ [Some t]"
        "b_Len env (ag_covered s1) = b_Len env (ag_covered s)" "\<alpha> (ag_covered s1) = \<alpha> (ag_covered s) \<union> \<alpha> coverage"
        "entries (ag_atts s1) (ag_candidates s1) ({Suc ?a..<?a + ?u} - set (tl keys)) = ?R ({?a..<?a + ?u} - set keys)"
      and t: "aggregate_of env \<beta> ins t" "att_bits \<beta> t = \<alpha> coverage"
      using c by auto
    have n: "Suc ?a + (?u - 1) = ?a + ?u" using u by simp
    have kr: "\<forall>k \<in> set (tl keys). Suc ?a \<le> k \<and> k < ?a + ?u" using H(4,5) keys(3) by (metis insertCI le_trans not_less_eq_eq order_less_imp_le Suc_leI le_less_trans)
    obtain s' where s': "remove_step (tl keys) s1 = Ret s'" "ag_aggregated s' = Suc ?a" "ag_unaggregated s' = ?u - 1 - length (tl keys)"
      "ag_covered s' = ag_covered s1" "length (tl keys) \<le> ?u - 1" "length (ag_atts s') = length ins" "length (ag_candidates s') = length ins"
      "take (Suc ?a) (ag_atts s') = take ?a (ag_atts s) @ [Some t]" "live_below (ag_atts s') (?a + ?u - length (tl keys))"
      and E: "entries (ag_atts s') (ag_candidates s') {Suc ?a..<Suc ?a + (?u - 1 - length (tl keys))} = ?R ({?a..<?a + ?u} - set keys)"
      using remove_step_ok [of s1 "tl keys"] H(2,3) kr J(1) s1 n by (auto simp: n)
    have sub: "?R ({?a..<?a + ?u} - set keys) \<subseteq> ?R {?a..<?a + ?u}" by (rule entries_mono) auto
    have ob: "opt_bits \<beta> (Some t) = \<alpha> coverage" using t(2) by (simp add: opt_bits_def)
    have U: "\<Union> (opt_bits \<beta> ` set (take ?a (ag_atts s) @ [Some t])) \<union> \<Union> (opt_bits \<beta> ` fst ` ?R ({?a..<?a + ?u} - set keys)) = \<Union> (att_bits \<beta> ` set ins)"
      using J(4) ob cov entries_bits [OF keys(4), of \<beta> "ag_atts s" "ag_candidates s"] by auto
    have V: "\<alpha> (ag_covered s1) \<subseteq> \<Union> (opt_bits \<beta> ` set (take ?a (ag_atts s) @ [Some t]))" using J(3) ob s1(8) by auto
    have d: "?a + ?u - length (tl keys) = Suc ?a + (?u - 1 - length (tl keys))" using s'(5) u by simp
    have "agg_inv env \<alpha> \<beta> ins s'"
    proof (rule agg_invI [OF s'(2,3,8) E])
      show "\<forall>p \<in> ?R ({?a..<?a + ?u} - set keys). input_entry env ins p" using J(2) sub by blast
      show "\<forall>x \<in> set (take ?a (ag_atts s) @ [Some t]). \<exists>t. x = Some t \<and> aggregate_of env \<beta> ins t" using J(5) t(1) by auto
      show "\<alpha> (ag_covered s') \<subseteq> \<Union> (opt_bits \<beta> ` set (take ?a (ag_atts s) @ [Some t]))" using V s'(4) by simp
      show "0 < Suc ?a + (?u - 1 - length (tl keys))" "Suc ?a + (?u - 1 - length (tl keys)) \<le> length ins" using J(1) u by linarith+
    qed (use J(6) s1(7) s'(4,6,7,9) d U in \<open>simp_all only:\<close>)
    then show ?thesis using r Inr s'(1) by auto
  qed
qed


text \<open>Attestations whose bit lists are not empty, as \<^verbatim>\<open>validate\<close> demands.\<close>
definition nonempty_bits :: "('b, 'z) agg_env_scheme \<Rightarrow> Attestation list \<Rightarrow> bool" where
  "nonempty_bits env ins \<longleftrightarrow> (\<forall>t \<in> set ins. ae_Len env (at_AggregationBits t) \<noteq> 0)"

lemma aggregation_round_ok:
  assumes L: "agg_laws env \<alpha> \<beta>" and inv: "agg_inv env \<alpha> \<beta> ins s" and nz: "nonempty_bits env ins"
  shows "\<exists>r. aggregation_round env s = Ret r \<and> (case r of Inl _ \<Rightarrow> \<not> readable env ins | Inr (_, s') \<Rightarrow> agg_inv env \<alpha> \<beta> ins s')"
proof (cases "ag_unaggregated s < 2")
  case True
  then show ?thesis using inv by (simp add: aggregation_round_def)
next
  case False
  note B = agg_bitlist64 [OF L]
  obtain rc where rc: "live_slice (ag_candidates s) (ag_aggregated s) (ag_unaggregated s) = Ret rc" "length rc = ag_unaggregated s"
    and nth: "\<forall>k < ag_unaggregated s. \<exists>t. ag_atts s ! (ag_aggregated s + k) = Some t \<and> t \<in> set ins
        \<and> ae_ToBitlist64 env (at_AggregationBits t) = (rc ! k, None)"
    using round_candidates [OF inv] by blast
  have n: "rc \<noteq> []" using False rc(2) by auto
  have "0 < ag_unaggregated s" using False by simp
  then obtain t where "t \<in> set ins" "ae_ToBitlist64 env (at_AggregationBits t) = (rc ! 0, None)" using nth by blast
  then have "b_Len env (rc ! 0) \<noteq> 0" using nz ToBitlist64 [OF L] by (metis nonempty_bits_def)
  then obtain selected coverage where mc: "MaxCover env rc (length rc) False = Ret (Some (selected, coverage), None)"
    and M: "max_cover env \<alpha> rc selected coverage"
    using MaxCover_ok [OF B n] by blast
  show ?thesis
  proof (cases "b_Count env selected < 2")
    case True
    then show ?thesis using False rc(1) mc inv by (simp add: aggregation_round_def)
  next
    case c: False
    let ?keys = "map (\<lambda>key. key + ag_aggregated s) (b_BitIndices env selected)"
    have sel: "selection env \<alpha> \<beta> ins s ?keys coverage" by (rule round_selection [OF L inv rc(2) nth M c])
    show ?thesis
    proof (cases "b_Len env (ag_covered s) = b_Len env coverage")
      case ne: False
      have "b_Len env (ag_covered s) = ae_Len env (at_AggregationBits (hd ins))" using inv by (simp add: agg_inv_def Let_def)
      moreover obtain t where "t \<in> set ins" "b_Len env coverage = ae_Len env (at_AggregationBits t)" using sel by (auto simp: selection_def)
      ultimately have "\<not> readable env ins" using ne unfolding readable_def by metis
      moreover obtain err where "snd (b_XorCount env (ag_covered s) coverage) = Some err" using lengths_differ(1) [OF L ne] by auto
      ultimately show ?thesis
        using False c rc(1) mc by (cases "b_XorCount env (ag_covered s) coverage") (simp add: aggregation_round_def)
    next
      case eq: True
      let ?D = "(\<alpha> (ag_covered s) - \<alpha> coverage) \<union> (\<alpha> coverage - \<alpha> (ag_covered s))"
      note x = b_XorCount [OF B eq]
      show ?thesis
      proof (cases "(of_nat (card ?D) :: u64) = 0")
        case z: True
        have fin: "finite ?D" using bits_finite [OF B] by simp
        obtain cov where cov: "\<alpha> cov = \<alpha> (ag_covered s) \<union> \<alpha> coverage" using b_Or [OF B eq] by blast
        have "?D = {}" using bits_count_zero [OF B, of ?D cov] cov z by auto
        then have "\<alpha> (ag_covered s) = \<alpha> coverage" by blast
        then show ?thesis using round_drop [OF L inv sel] False c rc(1) mc x z by (auto simp: aggregation_round_def)
      next
        case nz: False
        obtain r where r: "aggregate_step env ?keys coverage s = Ret r" and R: "case r of Inl _ \<Rightarrow> \<not> readable env ins
            | Inr s1 \<Rightarrow> \<exists>s'. remove_step (tl ?keys) s1 = Ret s' \<and> agg_inv env \<alpha> \<beta> ins s'"
          using round_aggregate [OF L inv sel eq] by blast
        have st: "aggregation_round env s = (case r of Inl failure \<Rightarrow> Ret (Inl failure) | Inr s1 \<Rightarrow> obind (remove_step (tl ?keys) s1) (\<lambda>s. Ret (Inr (True, s))))"
          using False c rc(1) mc x nz r by (simp add: aggregation_round_def word_gt_0 Let_def)
        show ?thesis unfolding st using R by (cases r) auto
      qed
    qed
  qed
qed

lemma aggregation_loop_ok:
  assumes L: "agg_laws env \<alpha> \<beta>" and inv: "agg_inv env \<alpha> \<beta> ins s" and nz: "nonempty_bits env ins"
  shows "\<exists>r. aggregation_loop env n s = Ret r \<and> (case r of Inl _ \<Rightarrow> \<not> readable env ins | Inr s' \<Rightarrow> agg_inv env \<alpha> \<beta> ins s')"
  using inv
proof (induction n arbitrary: s)
  case 0
  then show ?case by simp
next
  case (Suc n)
  obtain r where r: "aggregation_round env s = Ret r"
    and c: "case r of Inl _ \<Rightarrow> \<not> readable env ins | Inr (_, s') \<Rightarrow> agg_inv env \<alpha> \<beta> ins s'"
    using aggregation_round_ok [OF L Suc.prems nz] by blast
  show ?case
  proof (cases r)
    case (Inl x)
    then show ?thesis using r c by simp
  next
    case (Inr p)
    then obtain go s' where "r = Inr (go, s')" "agg_inv env \<alpha> \<beta> ins s'" using c by (cases p) auto
    then show ?thesis using r Suc.IH [of s'] by (cases go) simp_all
  qed
qed

lemma filter_contained_loop_ok:
  assumes L: "agg_laws env \<alpha> \<beta>"
  shows "filtered \<noteq> [] \<Longrightarrow> filter_contained_loop env al filtered = (out, e) \<Longrightarrow>
    (if e = None then out \<noteq> [] \<and> set filtered \<subseteq> set out \<and> set out \<subseteq> set filtered \<union> set al
       \<and> \<Union> (att_bits \<beta> ` set out) = \<Union> (att_bits \<beta> ` (set filtered \<union> set al))
     else \<exists>x \<in> set filtered \<union> set al. \<exists>y \<in> set filtered \<union> set al. ae_Len env (at_AggregationBits x) \<noteq> ae_Len env (at_AggregationBits y))"
proof (induction al arbitrary: filtered)
  case Nil
  then show ?case by auto
next
  case (Cons a al)
  obtain b e' where c: "ae_Contains env (at_AggregationBits (last filtered)) (at_AggregationBits a) = (b, e')" by fastforce
  have l: "last filtered \<in> set filtered" using Cons.prems(1) by simp
  show ?case
  proof (cases e')
    case (Some err)
    then have "ae_Len env (at_AggregationBits (last filtered)) \<noteq> ae_Len env (at_AggregationBits a)"
      using c Contains(2) [OF L, of "at_AggregationBits (last filtered)" "at_AggregationBits a"] by auto
    then show ?thesis using Cons.prems(2) Some c l by (cases b) auto
  next
    case None
    then have b: "b = (att_bits \<beta> a \<subseteq> att_bits \<beta> (last filtered))" using c Contains(1) [OF L] by simp
    show ?thesis
    proof (cases b)
      case True
      have "att_bits \<beta> a \<subseteq> \<Union> (att_bits \<beta> ` (set filtered \<union> set al))" using True b l by blast
      then have e: "\<Union> (att_bits \<beta> ` (set filtered \<union> set (a # al))) = \<Union> (att_bits \<beta> ` (set filtered \<union> set al))" by auto
      have "filter_contained_loop env al filtered = (out, e)" using Cons.prems(2) True None c by simp
      note I = Cons.IH [OF Cons.prems(1) this]
      have m: "set filtered \<union> set al \<subseteq> set filtered \<union> set (a # al)" by auto
      show ?thesis
      proof (cases "e = None")
        case n: True
        then show ?thesis using I m unfolding e by (simp only: if_True refl simp_thms) blast
      next
        case f: False
        then show ?thesis using I m by (simp only: if_False) blast
      qed
    next
      case False
      then show ?thesis using Cons.IH [of "filtered @ [a]"] Cons.prems(2) None c by (auto split: if_splits)
    qed
  qed
qed

lemma filterContained_ok:
  assumes L: "agg_laws env \<alpha> \<beta>" and f: "filterContained env al = (out, e)"
  shows "if e = None then (out = [] \<longleftrightarrow> al = []) \<and> set out \<subseteq> set al \<and> \<Union> (att_bits \<beta> ` set out) = \<Union> (att_bits \<beta> ` set al)
     else \<exists>x \<in> set al. \<exists>y \<in> set al. ae_Len env (at_AggregationBits x) \<noteq> ae_Len env (at_AggregationBits y)"
proof (cases "length al < 2")
  case True
  then show ?thesis using f by (auto simp: filterContained_def)
next
  case False
  define xs where "xs = ae_sortSlice env (\<lambda>a b. ae_Count env (at_AggregationBits a) > ae_Count env (at_AggregationBits b)) al"
  have m: "mset xs = mset al" unfolding xs_def by (rule sortSlice [OF L])
  then have s: "set xs = set al" "length xs = length al" using mset_eq_setD mset_eq_length by blast+
  have "xs \<noteq> []" using s False by auto
  then have u: "set [hd xs] \<union> set (tl xs) = set al" using s(1) by (metis list.collapse list.set(1) list.simps(15) Un_insert_left sup_bot_left)
  have "filter_contained_loop env (tl xs) [hd xs] = (out, e)" using f False by (simp add: filterContained_def xs_def Let_def)
  from filter_contained_loop_ok [OF L _ this] show ?thesis unfolding u using False by (auto split: if_splits)
qed


subsection \<open>Aggregation\<close>

lemma candidates_loop_ok:
  "candidates_loop env atts acc = (cs, e) \<Longrightarrow>
    (if e = None then \<exists>cs'. cs = acc @ cs' \<and> list_all2 (\<lambda>t c. ae_ToBitlist64 env (at_AggregationBits t) = (c, None)) atts cs'
     else \<exists>t \<in> set atts. snd (ae_ToBitlist64 env (at_AggregationBits t)) \<noteq> None)"
proof (induction atts arbitrary: acc)
  case (Cons a atts)
  obtain c e' where c: "ae_ToBitlist64 env (at_AggregationBits a) = (c, e')" by fastforce
  show ?case
  proof (cases e')
    case None
    then have "candidates_loop env atts (acc @ [c]) = (cs, e)" using Cons.prems c by simp
    note I = Cons.IH [OF this]
    show ?thesis
    proof (cases "e = None")
      case True
      then obtain cs' where "cs = (acc @ [c]) @ cs'" "list_all2 (\<lambda>t c. ae_ToBitlist64 env (at_AggregationBits t) = (c, None)) atts cs'"
        using I by auto
      then show ?thesis using True c None by (auto intro!: exI [of _ "c # cs'"])
    qed (use I in auto)
  qed (use Cons.prems c in auto)
qed auto

lemma set_slice: "start + len \<le> length xs \<Longrightarrow> set (take len (drop start xs)) = (\<lambda>i. xs ! i) ` {start..<start + len}"
proof (intro set_eqI iffI)
  fix x assume a: "start + len \<le> length xs" "x \<in> set (take len (drop start xs))"
  then obtain j where "j < len" "x = xs ! (start + j)" by (auto simp: in_set_conv_nth)
  then show "x \<in> (\<lambda>i. xs ! i) ` {start..<start + len}" by auto
next
  fix x assume a: "start + len \<le> length xs" "x \<in> (\<lambda>i. xs ! i) ` {start..<start + len}"
  then obtain i where i: "start \<le> i" "i < start + len" "x = xs ! i" by auto
  then have "x = take len (drop start xs) ! (i - start)" "i - start < length (take len (drop start xs))" using a(1) by auto
  then show "x \<in> set (take len (drop start xs))" by (metis nth_mem)
qed

lemma agg_inv_start:
  assumes L: "agg_laws env \<alpha> \<beta>" and cs: "list_all2 (\<lambda>t c. ae_ToBitlist64 env (at_AggregationBits t) = (c, None)) atts cs" and ne: "atts \<noteq> []"
    and s: "s = \<lparr>ag_atts = map Some atts, ag_candidates = map Some cs, ag_aggregated = 0, ag_unaggregated = length atts,
      ag_covered = b_New env (b_Len env (cs ! 0))\<rparr>"
  shows "agg_inv env \<alpha> \<beta> atts s"
proof -
  have l: "length cs = length atts" using cs list_all2_lengthD by fastforce
  have nth: "ae_ToBitlist64 env (at_AggregationBits (atts ! i)) = (cs ! i, None)" if "i < length atts" for i using cs that list_all2_nthD by blast
  have len: "b_Len env (cs ! 0) = ae_Len env (at_AggregationBits (hd atts))"
    using ToBitlist64 [OF L nth [of 0]] ne by (simp add: hd_conv_nth)
  let ?E = "(\<lambda>i. (Some (atts ! i), Some (cs ! i))) ` {0..<length atts}"
  have E: "entries (ag_atts s) (ag_candidates s) {0..<0 + length atts} = ?E" using l by (auto simp: entries_def s)
  have e: "\<forall>p \<in> ?E. input_entry env atts p" using nth by (auto simp: input_entry_def)
  have "set atts = (\<lambda>i. atts ! i) ` {0..<length atts}" using set_slice [of 0 "length atts" atts] by simp
  then have "fst ` ?E = Some ` set atts" by (simp add: image_image)
  then have u: "\<Union> (opt_bits \<beta> ` set []) \<union> \<Union> (opt_bits \<beta> ` fst ` ?E) = \<Union> (att_bits \<beta> ` set atts)"
    by (simp only: image_image opt_bits_def) (simp add: opt_bits_def)
  show ?thesis
    by (rule agg_invI [OF _ _ _ E _ _ _ _ _ _ _ e _ u])
      (use ne l len in \<open>simp_all add: s live_below_def b_Len_New [OF agg_bitlist64 [OF L]] bits_New [OF agg_bitlist64 [OF L]]\<close>)
qed

lemma agg_inv_slices:
  assumes "agg_inv env \<alpha> \<beta> ins s"
  shows "\<exists>as us. live_slice (ag_atts s) 0 (ag_aggregated s) = Ret as \<and> live_slice (ag_atts s) (ag_aggregated s) (ag_unaggregated s) = Ret us
    \<and> as @ us \<noteq> [] \<and> (\<forall>t \<in> set as. aggregate_of env \<beta> ins t) \<and> set us \<subseteq> set ins
    \<and> \<Union> (att_bits \<beta> ` set as) \<union> \<Union> (att_bits \<beta> ` set us) = \<Union> (att_bits \<beta> ` set ins)"
proof -
  let ?a = "ag_aggregated s" and ?u = "ag_unaggregated s"
  let ?as = "take ?a (ag_atts s)" and ?us = "take ?u (drop ?a (ag_atts s))"
  let ?rest = "entries (ag_atts s) (ag_candidates s) {?a..<?a + ?u}"
  have I: "length (ag_atts s) = length ins" "0 < ?a + ?u" "?a + ?u \<le> length ins" "live_below (ag_atts s) (?a + ?u)"
    "\<forall>x \<in> set ?as. \<exists>t. x = Some t \<and> aggregate_of env \<beta> ins t" "\<forall>p \<in> ?rest. input_entry env ins p"
    "\<Union> (opt_bits \<beta> ` set ?as) \<union> \<Union> (opt_bits \<beta> ` fst ` ?rest) = \<Union> (att_bits \<beta> ` set ins)"
    using assms by (simp_all add: agg_inv_def Let_def)
  have n: "?a + ?u \<le> length (ag_atts s)" using I by simp
  have r: "fst ` ?rest = set ?us" using set_slice [OF n] by (simp add: entries_split)
  have us: "\<exists>t \<in> set ins. x = Some t" if "x \<in> set ?us" for x
  proof -
    obtain p where "p \<in> ?rest" "x = fst p" using \<open>x \<in> set ?us\<close> unfolding r [symmetric] by blast
    then show ?thesis using I(6) by (auto simp: input_entry_def)
  qed
  have bits: "\<Union> (opt_bits \<beta> ` X) = \<Union> (att_bits \<beta> ` the ` X)" if "\<forall>x \<in> X. x \<noteq> None" for X
  proof -
    have "opt_bits \<beta> ` X = (\<lambda>x. att_bits \<beta> (the x)) ` X" by (rule image_cong [OF refl]) (use that in \<open>auto simp: opt_bits_def\<close>)
    then show ?thesis by (simp add: image_image)
  qed
  have "\<Union> (att_bits \<beta> ` set (map the ?as)) \<union> \<Union> (att_bits \<beta> ` set (map the ?us)) = \<Union> (att_bits \<beta> ` set ins)"
  proof -
    have "\<forall>x \<in> set ?us. x \<noteq> None" using us by fastforce
    moreover have "\<forall>x \<in> set ?as. x \<noteq> None" using I(5) by fastforce
    ultimately show ?thesis using I(7) unfolding r by (simp only: bits set_map)
  qed
  moreover have "live_slice (ag_atts s) 0 ?a = Ret (map the ?as)" using live_slice_ok [OF I(4) _ n, of 0 ?a] by simp
  moreover have "live_slice (ag_atts s) ?a ?u = Ret (map the ?us)" using live_slice_ok [OF I(4) _ n, of ?a ?u] by simp
  moreover have "map the ?as @ map the ?us \<noteq> []" using I(2) n by auto
  moreover have "\<forall>t \<in> set (map the ?as). aggregate_of env \<beta> ins t" using I(5) by fastforce
  moreover have "set (map the ?us) \<subseteq> set ins" using us by fastforce
  ultimately show ?thesis by blast
qed


lemma Aggregate_ok:
  assumes L: "agg_laws env \<alpha> \<beta>"
  shows "\<exists>out e. Aggregate env atts = Ret (out, e)
    \<and> (e = None \<longrightarrow> (\<forall>t \<in> set out. t \<in> set atts \<or> aggregate_of env \<beta> atts t)
        \<and> \<Union> (att_bits \<beta> ` set out) = \<Union> (att_bits \<beta> ` set atts) \<and> (out = [] \<longleftrightarrow> atts = []))
    \<and> (validate_atts env atts = None \<and> readable env atts \<longrightarrow> e = None)"
proof (cases "length atts < 2")
  case True
  then show ?thesis by (simp add: Aggregate_def MaxCoverAttestationAggregation_def)
next
  case two: False
  show ?thesis
  proof (cases "validate_atts env atts")
    case (Some err)
    then show ?thesis using two by (simp add: Aggregate_def MaxCoverAttestationAggregation_def)
  next
    case v: None
    then have nz: "nonempty_bits env atts" by (auto simp: validate_atts_def nonempty_bits_def split: if_splits)
    obtain cs e where c: "candidates_loop env atts [] = (cs, e)" by fastforce
    show ?thesis
    proof (cases e)
      case (Some err)
      then have "\<not> readable env atts" using candidates_loop_ok [OF c] by (auto simp: readable_def)
      then show ?thesis using two v c Some by (simp add: Aggregate_def MaxCoverAttestationAggregation_def)
    next
      case None
      then have cs: "list_all2 (\<lambda>t c. ae_ToBitlist64 env (at_AggregationBits t) = (c, None)) atts cs" using candidates_loop_ok [OF c] by simp
      let ?s = "\<lparr>ag_atts = map Some atts, ag_candidates = map Some cs, ag_aggregated = 0, ag_unaggregated = length atts,
        ag_covered = b_New env (b_Len env (cs ! 0))\<rparr>"
      have ne: "atts \<noteq> []" using two by auto
      obtain r where r: "aggregation_loop env (length atts div 2) ?s = Ret r"
        and R: "case r of Inl _ \<Rightarrow> \<not> readable env atts | Inr s' \<Rightarrow> agg_inv env \<alpha> \<beta> atts s'"
        using aggregation_loop_ok [OF L agg_inv_start [OF L cs ne refl] nz] by blast
      show ?thesis
      proof (cases r)
        case (Inl p)
        then show ?thesis using two v c None r R by (cases p) (simp add: Aggregate_def MaxCoverAttestationAggregation_def)
      next
        case (Inr s')
        then obtain as us where sl: "live_slice (ag_atts s') 0 (ag_aggregated s') = Ret as"
            "live_slice (ag_atts s') (ag_aggregated s') (ag_unaggregated s') = Ret us" "as @ us \<noteq> []"
            "\<forall>t \<in> set as. aggregate_of env \<beta> atts t" "set us \<subseteq> set atts"
            "\<Union> (att_bits \<beta> ` set as) \<union> \<Union> (att_bits \<beta> ` set us) = \<Union> (att_bits \<beta> ` set atts)"
          using R agg_inv_slices [of env \<alpha> \<beta> atts s'] by auto
        obtain fl e' where f: "filterContained env us = (fl, e')" by fastforce
        note F = filterContained_ok [OF L f]
        have st: "Aggregate env atts = Ret (if e' = None then (as @ fl, None) else ([], e'))"
          using two v c None r Inr sl(1,2) f by (cases e') (simp_all add: Aggregate_def MaxCoverAttestationAggregation_def)
        show ?thesis
        proof (cases "e' = None")
          case True
          then show ?thesis using st F sl ne by (auto simp: image_Un)
        next
          case False
          then obtain x y where "x \<in> set us" "y \<in> set us" "ae_Len env (at_AggregationBits x) \<noteq> ae_Len env (at_AggregationBits y)"
            using F by auto
          then have "\<not> readable env atts" using sl(5) unfolding readable_def by (metis subsetD)
          then show ?thesis using st False by auto
        qed
      qed
    qed
  qed
qed


lemma coverage_loop_ok:
  assumes L: "agg_laws env \<alpha> \<beta>"
  shows "coverage_loop env atts coverage = (Some c, None) \<Longrightarrow> \<alpha> c = \<alpha> coverage \<union> \<Union> (att_bits \<beta> ` set atts)"
proof (induction atts arbitrary: coverage)
  case (Cons a atts)
  obtain b where b: "ae_ToBitlist64 env (at_AggregationBits a) = (b, None)"
    using Cons.prems by (cases "ae_ToBitlist64 env (at_AggregationBits a)") (auto split: option.splits)
  obtain d where d: "b_Or env coverage b = (d, None)" "coverage_loop env atts d = (Some c, None)"
    using Cons.prems b by (cases "b_Or env coverage b") (auto split: option.splits)
  have "b_Len env coverage = b_Len env b" using lengths_differ(2) [OF L, of coverage b] d(1) by auto
  then have "\<alpha> d = \<alpha> coverage \<union> \<alpha> b" using b_Or [OF agg_bitlist64 [OF L]] d(1) by fastforce
  then show ?case using Cons.IH [OF d(2)] ToBitlist64 [OF L b] by auto
qed simp

lemma AggregateDisjoint_ok:
  assumes L: "agg_laws env \<alpha> \<beta>"
  shows "\<exists>r. AggregateDisjointOneBitAtts env atts = Ret r
    \<and> (\<forall>t. r = (Some t, None) \<longrightarrow> atts \<noteq> [] \<and> at_Data t = at_Data (hd atts) \<and> att_bits \<beta> t = \<Union> (att_bits \<beta> ` set atts))"
proof (cases "length atts < 2")
  case True
  then show ?thesis by (cases atts) (auto simp: AggregateDisjointOneBitAtts_def)
next
  case False
  then obtain a0 rest where a: "atts = a0 # rest" "rest \<noteq> []" by (cases atts; cases "tl atts") auto
  obtain c0 e0 where c0: "ae_ToBitlist64 env (at_AggregationBits a0) = (c0, e0)" by fastforce
  obtain c1 e1 where c1: "coverage_loop env rest c0 = (c1, e1)" by fastforce
  show ?thesis
  proof (cases "e0 = None \<and> e1 = None \<and> c1 \<noteq> None")
    case False
    then show ?thesis using a c0 c1
      by (auto simp: AggregateDisjointOneBitAtts_def split: option.splits)
  next
    case True
    then obtain c where c: "c1 = Some c" by auto
    have bits: "\<alpha> c = \<Union> (att_bits \<beta> ` set atts)"
      using coverage_loop_ok [OF L, of rest c0 c] c1 c True c0 ToBitlist64 [OF L, of "at_AggregationBits a0" c0] a by auto
    let ?keys = "[0..<length atts]"
    have k: "\<forall>k \<in> set ?keys. k < length (map Some atts) \<and> map Some atts ! k \<noteq> None" by simp
    have k': "?keys \<noteq> []" using a(1) by simp
    have h: "hd ?keys = 0" using a by (simp add: upt_conv_Cons)
    obtain target signs e where s: "sign_loop env (map Some atts) ?keys None [] = Ret ((target, signs), e)"
      and t: "e = None \<Longrightarrow> target = Some (0, at_Data a0)"
      using sign_loop_start [OF k k', of env] h a by (auto split: if_splits)
    show ?thesis
      using a c0 c1 c True s t bits ToBitlist(2) [OF L]
      by (cases "b_Count env c = 0"; cases e) (auto simp: AggregateDisjointOneBitAtts_def aggregateAttestations_def Let_def simp del: upt_Suc)
  qed
qed


subsection \<open>Properties\<close>

text \<open>
  (C37) \<^verbatim>\<open>Aggregate\<close> never panics. When it succeeds, every attestation it returns is one of the inputs or made of at least two inputs of its length that
  pairwise share no bit, with exactly their bits, the data of one of them and the aggregate of their signatures; the bits of the result are those of the
  input, so that no vote is lost; and the result is empty only for the empty list. It succeeds on attestations with bits of one
  length that can be read and with signatures that can be read.
\<close>
theorem Aggregate_sound:
  assumes "agg_laws env \<alpha> \<beta>"
  shows "\<exists>out e. Aggregate env atts = Ret (out, e)
    \<and> (e = None \<longrightarrow> (\<forall>t \<in> set out. t \<in> set atts \<or> aggregate_of env \<beta> atts t)
        \<and> \<Union> (att_bits \<beta> ` set out) = \<Union> (att_bits \<beta> ` set atts) \<and> (out = [] \<longleftrightarrow> atts = []))
    \<and> (validate_atts env atts = None \<and> readable env atts \<longrightarrow> e = None)"
  by (rule Aggregate_ok [OF assms])

text \<open>Bit lists with one byte per bit, signatures as bytes, and insertion sort.\<close>
definition byte_bits :: "u8 list \<Rightarrow> nat list" where
  "byte_bits x = filter (\<lambda>i. x ! i \<noteq> 0 \<and> i < unat (of_nat (length x) :: u64)) [0..<length x]"

fun insert_by :: "('a \<Rightarrow> 'a \<Rightarrow> bool) \<Rightarrow> 'a \<Rightarrow> 'a list \<Rightarrow> 'a list" where
  "insert_by lt x [] = [x]"
| "insert_by lt x (y # ys) = (if lt y x then y # insert_by lt x ys else x # y # ys)"

definition same_length :: "u8 list \<Rightarrow> u8 list \<Rightarrow> 'a \<Rightarrow> 'a result" where
  "same_length x y r = (r, if (of_nat (length x) :: u64) = of_nat (length y) then None else Some (Fresh ''bitlists are different lengths''))"

definition demo_agg :: "(u64 \<times> nat list) agg_env" where
  "demo_agg = bitlist64.extend list_bits
    \<lparr>ae_ToBitlist64 = (\<lambda>x. ((of_nat (length x), byte_bits x), None)),
     ae_ToBitlist = (\<lambda>(n, is). map (\<lambda>i. if i \<in> set is then 1 else 0) [0..<unat n]),
     ae_Len = (\<lambda>x. of_nat (length x)), ae_Count = (\<lambda>x. of_nat (length (byte_bits x))),
     ae_Contains = (\<lambda>x y. same_length x y (set (byte_bits y) \<subseteq> set (byte_bits x))),
     ae_Overlaps = (\<lambda>x y. same_length x y (\<exists>i \<in> set (byte_bits x). i \<in> set (byte_bits y))),
     ae_BitsOr = (\<lambda>x y. same_length x y (map (\<lambda>i. if x ! i \<noteq> 0 \<or> y ! i \<noteq> 0 then 1 else 0) [0..<length x])),
     ae_signatureFromBytes = (\<lambda>s. (s, None)), ae_aggregateSignatures = concat,
     ae_sortSlice = (\<lambda>lt xs. foldr (insert_by lt) xs [])\<rparr>"

lemma byte_bits_set: "set (byte_bits x) = {i. x ! i \<noteq> 0 \<and> i < unat (of_nat (length x) :: u64)}"
proof -
  have "unat (of_nat (length x) :: u64) \<le> length x" by (simp add: unat_of_nat)
  then show ?thesis by (auto simp: byte_bits_def)
qed

lemma byte_bits_count: "length (byte_bits x) = card (set (byte_bits x))" "card (set (byte_bits x)) < 2 ^ 64"
proof -
  show "length (byte_bits x) = card (set (byte_bits x))" by (rule distinct_card [symmetric]) (simp add: byte_bits_def)
  have "card (set (byte_bits x)) \<le> card {..<unat (of_nat (length x) :: u64)}" by (intro card_mono) (auto simp: byte_bits_set)
  then show "card (set (byte_bits x)) < 2 ^ 64" using unat_u64_bound [of "of_nat (length x)"] by simp
qed

lemma demo_agg_laws: "agg_laws demo_agg lb_bits (\<lambda>x. set (byte_bits x))"
proof -
  have i: "mset (insert_by lt x ys) = add_mset x (mset ys)" for lt :: "Attestation \<Rightarrow> Attestation \<Rightarrow> bool" and x ys by (induction ys) auto
  have s: "mset (foldr (insert_by lt) xs []) = mset xs" for lt :: "Attestation \<Rightarrow> Attestation \<Rightarrow> bool" and xs by (induction xs) (auto simp: i)
  have f: "b_New demo_agg = b_New list_bits" "b_Len demo_agg = b_Len list_bits" "b_Count demo_agg = b_Count list_bits" "b_Not demo_agg = b_Not list_bits"
    "b_Or demo_agg = b_Or list_bits" "b_And demo_agg = b_And list_bits" "b_AndCount demo_agg = b_AndCount list_bits"
    "b_XorCount demo_agg = b_XorCount list_bits" "b_Overlaps demo_agg = b_Overlaps list_bits" "b_SetBitAt demo_agg = b_SetBitAt list_bits"
    "b_BitIndices demo_agg = b_BitIndices list_bits"
    by (simp_all add: demo_agg_def bitlist64.defs)
  have l: "bitlist64_laws demo_agg lb_bits"
    using list_bits_laws unfolding bitlist64_laws_def f .
  have o: "\<forall>x y z. ae_BitsOr demo_agg x y = (z, None) \<longrightarrow> set (byte_bits z) = set (byte_bits x) \<union> set (byte_bits y)"
  proof (intro allI impI)
    fix x y z assume z: "ae_BitsOr demo_agg x y = (z, None)"
    have le: "unat (of_nat (length x) :: u64) \<le> length x" by (simp add: unat_of_nat)
    from z have "z = map (\<lambda>i. if x ! i \<noteq> 0 \<or> y ! i \<noteq> 0 then 1 else 0) [0..<length x]" "(of_nat (length x) :: u64) = of_nat (length y)"
      by (auto simp: demo_agg_def bitlist64.defs same_length_def split: if_splits)
    then show "set (byte_bits z) = set (byte_bits x) \<union> set (byte_bits y)" using le by (auto simp: byte_bits_set)
  qed
  have c: "\<forall>x. finite (set (byte_bits x)) \<and> card (set (byte_bits x)) < 2 ^ 64 \<and> ae_Count demo_agg x = of_nat (card (set (byte_bits x)))"
    using byte_bits_count by (simp add: demo_agg_def bitlist64.defs)
  have t: "\<forall>c. ae_Len demo_agg (ae_ToBitlist demo_agg c) = b_Len demo_agg c \<and> set (byte_bits (ae_ToBitlist demo_agg c)) = lb_bits c"
    by (auto simp: demo_agg_def bitlist64.defs list_bits_def byte_bits_set lb_bits_def split: if_splits)
  have u: "\<forall>x c. ae_ToBitlist64 demo_agg x = (c, None) \<longrightarrow> b_Len demo_agg c = ae_Len demo_agg x \<and> lb_bits c = set (byte_bits x)"
    by (auto simp: demo_agg_def bitlist64.defs list_bits_def byte_bits_set lb_bits_def)
  show ?thesis
    unfolding agg_laws_def
    by (intro conjI l o c t u allI) (auto simp: demo_agg_def bitlist64.defs same_length_def same_len_def list_bits_def s split: if_splits)
qed

definition demo_vote :: "u8 list \<Rightarrow> Attestation" where
  "demo_vote bits = demo_attestation\<lparr>at_AggregationBits := bits\<rparr>"

theorem Aggregate_sound_witness:
  "\<exists>out. Aggregate demo_agg [demo_vote [1, 0, 0], demo_vote [0, 1, 1], demo_vote [1, 1, 0]] = Ret (out, None)
    \<and> \<Union> ((\<lambda>t. set (byte_bits (at_AggregationBits t))) ` set out) = {0, 1, 2}"
proof -
  let ?atts = "[demo_vote [1, 0, 0], demo_vote [0, 1, 1], demo_vote [1, 1, 0]]"
  have v: "validate_atts demo_agg ?atts = None" "readable demo_agg ?atts"
    by (simp_all add: validate_atts_def readable_def demo_vote_def demo_agg_def bitlist64.defs list_bits_def)
  have b: "\<Union> ((\<lambda>t. set (byte_bits (at_AggregationBits t))) ` set ?atts) = {0, 1, 2}"
  proof -
    have "byte_bits [1, 0, 0] = [0]" "byte_bits [0, 1, 1] = [1, 2]" "byte_bits [1, 1, 0] = [0, 1]" by code_simp+
    then show ?thesis by (auto simp: demo_vote_def)
  qed
  show ?thesis using Aggregate_sound [OF demo_agg_laws, of ?atts] v b by auto
qed

text \<open>
  The filter that is documented as removing attestations contained in other attestations compares only with the last one it kept: the vote of
  one validator stays although a kept attestation contains it.
\<close>
theorem contained_attestation_kept:
  "filterContained demo_agg [demo_vote [1, 1, 1, 0, 0], demo_vote [0, 0, 0, 1, 1], demo_vote [1, 0, 0, 0, 0]]
      = ([demo_vote [1, 1, 1, 0, 0], demo_vote [0, 0, 0, 1, 1], demo_vote [1, 0, 0, 0, 0]], None)
    \<and> ae_Contains demo_agg (at_AggregationBits (demo_vote [1, 1, 1, 0, 0])) (at_AggregationBits (demo_vote [1, 0, 0, 0, 0])) = (True, None)"
  by code_simp

end
