(* ===== verification/AttestationPool.thy ===== *)
theory AttestationPool
  imports AggregateVotes
begin

text \<open>
  The pool of attestations: \<^verbatim>\<open>beacon-chain/operations/attestations/kv\<close> and the preparation of attestations for the fork choice in
  \<^verbatim>\<open>prepare_forkchoice.go\<close> and \<^verbatim>\<open>prune_expired.go\<close>.

  A method that takes a lock holds it for the whole of its work on a map and is one step here. Ranging over a Go map visits the keys in
  an order that is an argument. Attestations and their data are not nil (on a nil attestation the methods return at once), and they are values, so the
  copies of the code need no counterpart. The cache of seen bits, go-cache, drops entries after an epoch: that is a step of its own
  in the step relation below, not part of the methods. When \<^verbatim>\<open>Aggregate\<close> fails, the list in the pool is left as it was, as if \<^verbatim>\<open>append\<close> had not
  shared its array.
\<close>

subsection \<open>The pool\<close>

record AttCaches =
  aggregatedAtt :: "(root32, Attestation list) gomap"
  unAggregatedAtt :: "(root32, Attestation) gomap"
  forkchoiceAtt :: "(root32, Attestation) gomap"
  blockAtt :: "(root32, Attestation list) gomap"
  seenAtt :: "(root32, u8 list list) gomap"

text \<open>
  What is used of other packages, beside bit lists and signatures: the hash of a message and the hash tree root of attestation data, the
  cache go-cache and the LRU cache.
\<close>
record 'b pool_env = "'b agg_env" +
  pe_hashAtt :: "Attestation \<Rightarrow> root32 result"
  pe_hashData :: "AttestationData \<Rightarrow> root32 result"
  pe_dataRoot :: "AttestationData \<Rightarrow> root32 result"
  pe_seenSet :: "root32 \<Rightarrow> u8 list list \<Rightarrow> (root32, u8 list list) gomap \<Rightarrow> (root32, u8 list list) gomap"
  pe_lruAdd :: "root32 \<Rightarrow> u8 list \<Rightarrow> (root32, u8 list) gomap \<Rightarrow> (root32, u8 list) gomap"

definition NewAttCaches :: AttCaches where
  "NewAttCaches = \<lparr>aggregatedAtt = [], unAggregatedAtt = [], forkchoiceAtt = [], blockAtt = [], seenAtt = []\<rparr>"

definition IsAggregated :: "('b, 'z) pool_env_scheme \<Rightarrow> Attestation \<Rightarrow> bool" where
  "IsAggregated pe att \<longleftrightarrow> ae_Count pe (at_AggregationBits att) > 1"

text \<open>The values of a map in an order of its keys.\<close>
definition gm_range :: "('k, 'v) gomap \<Rightarrow> 'k list \<Rightarrow> 'v list" where
  "gm_range m ks = List.map_filter (gm_get m) ks"

type_synonym one_order = "(root32, Attestation) gomap \<Rightarrow> root32 list"
type_synonym many_order = "(root32, Attestation list) gomap \<Rightarrow> root32 list"

subsection \<open>Attestations for the fork choice\<close>

definition SaveForkchoiceAttestation :: "('b, 'z) pool_env_scheme \<Rightarrow> Attestation \<Rightarrow> AttCaches \<Rightarrow> AttCaches \<times> go_error option" where
  "SaveForkchoiceAttestation pe att c = (case pe_hashAtt pe att of
     (_, Some err) \<Rightarrow> (c, Some (Wrap ''could not tree hash attestation'' err))
   | (r, None) \<Rightarrow> (c\<lparr>forkchoiceAtt := gm_set r att (forkchoiceAtt c)\<rparr>, None))"

fun SaveForkchoiceAttestations :: "('b, 'z) pool_env_scheme \<Rightarrow> Attestation list \<Rightarrow> AttCaches \<Rightarrow> AttCaches \<times> go_error option" where
  "SaveForkchoiceAttestations pe [] c = (c, None)"
| "SaveForkchoiceAttestations pe (att # atts) c = (case SaveForkchoiceAttestation pe att c of
     (c, Some err) \<Rightarrow> (c, Some err)
   | (c, None) \<Rightarrow> SaveForkchoiceAttestations pe atts c)"

definition ForkchoiceAttestations :: "one_order \<Rightarrow> AttCaches \<Rightarrow> Attestation list" where
  "ForkchoiceAttestations ord c = gm_range (forkchoiceAtt c) (ord (forkchoiceAtt c))"

definition DeleteForkchoiceAttestation :: "('b, 'z) pool_env_scheme \<Rightarrow> Attestation \<Rightarrow> AttCaches \<Rightarrow> AttCaches \<times> go_error option" where
  "DeleteForkchoiceAttestation pe att c = (case pe_hashAtt pe att of
     (_, Some err) \<Rightarrow> (c, Some (Wrap ''could not tree hash attestation'' err))
   | (r, None) \<Rightarrow> (c\<lparr>forkchoiceAtt := gm_del r (forkchoiceAtt c)\<rparr>, None))"

definition ForkchoiceAttestationCount :: "AttCaches \<Rightarrow> int" where
  "ForkchoiceAttestationCount c = int (gm_len (forkchoiceAtt c))"

subsection \<open>Attestations from blocks\<close>

text \<open>The loop that looks for a bit list that contains the given one.\<close>
fun contains_loop :: "('b, 'z) pool_env_scheme \<Rightarrow> u8 list list \<Rightarrow> u8 list \<Rightarrow> bool result" where
  "contains_loop pe [] bits = (False, None)"
| "contains_loop pe (b # bs) bits = (case ae_Contains pe b bits of
     (_, Some err) \<Rightarrow> (False, Some err)
   | (True, None) \<Rightarrow> (True, None)
   | (False, None) \<Rightarrow> contains_loop pe bs bits)"

definition SaveBlockAttestation :: "('b, 'z) pool_env_scheme \<Rightarrow> Attestation \<Rightarrow> AttCaches \<Rightarrow> AttCaches \<times> go_error option" where
  "SaveBlockAttestation pe att c = (case pe_hashData pe (at_Data att) of
     (_, Some err) \<Rightarrow> (c, Some (Wrap ''could not tree hash attestation'' err))
   | (r, None) \<Rightarrow>
       let atts = (case gm_get (blockAtt c) r of None \<Rightarrow> [] | Some atts \<Rightarrow> atts)
       in case contains_loop pe (map at_AggregationBits atts) (at_AggregationBits att) of
            (_, Some err) \<Rightarrow> (c, Some err)
          | (True, None) \<Rightarrow> (c, None)
          | (False, None) \<Rightarrow> (c\<lparr>blockAtt := gm_set r (atts @ [att]) (blockAtt c)\<rparr>, None))"

definition BlockAttestations :: "many_order \<Rightarrow> AttCaches \<Rightarrow> Attestation list" where
  "BlockAttestations ord c = concat (gm_range (blockAtt c) (ord (blockAtt c)))"

definition DeleteBlockAttestation :: "('b, 'z) pool_env_scheme \<Rightarrow> Attestation \<Rightarrow> AttCaches \<Rightarrow> AttCaches \<times> go_error option" where
  "DeleteBlockAttestation pe att c = (case pe_hashData pe (at_Data att) of
     (_, Some err) \<Rightarrow> (c, Some (Wrap ''could not tree hash attestation'' err))
   | (r, None) \<Rightarrow> (c\<lparr>blockAtt := gm_del r (blockAtt c)\<rparr>, None))"

subsection \<open>Bits seen before\<close>

definition insertSeenBit :: "('b, 'z) pool_env_scheme \<Rightarrow> Attestation \<Rightarrow> AttCaches \<Rightarrow> AttCaches \<times> go_error option" where
  "insertSeenBit pe att c = (case pe_hashData pe (at_Data att) of
     (_, Some err) \<Rightarrow> (c, Some err)
   | (r, None) \<Rightarrow> (case gm_get (seenAtt c) r of
       Some seenBits \<Rightarrow> (case contains_loop pe seenBits (at_AggregationBits att) of
           (_, Some err) \<Rightarrow> (c, Some err)
         | (alreadyExists, None) \<Rightarrow>
             (c\<lparr>seenAtt := pe_seenSet pe r (if \<not> alreadyExists then seenBits @ [at_AggregationBits att] else seenBits) (seenAtt c)\<rparr>, None))
     | None \<Rightarrow> (c\<lparr>seenAtt := pe_seenSet pe r [at_AggregationBits att] (seenAtt c)\<rparr>, None)))"

definition hasSeenBit :: "('b, 'z) pool_env_scheme \<Rightarrow> Attestation \<Rightarrow> AttCaches \<Rightarrow> bool result" where
  "hasSeenBit pe att c = (case pe_hashData pe (at_Data att) of
     (_, Some err) \<Rightarrow> (False, Some err)
   | (r, None) \<Rightarrow> (case gm_get (seenAtt c) r of
       Some seenBits \<Rightarrow> contains_loop pe seenBits (at_AggregationBits att)
     | None \<Rightarrow> (False, None)))"

subsection \<open>Single attestations\<close>

definition SaveUnaggregatedAttestation :: "('b, 'z) pool_env_scheme \<Rightarrow> Attestation \<Rightarrow> AttCaches \<Rightarrow> AttCaches \<times> go_error option" where
  "SaveUnaggregatedAttestation pe att c =
    (if IsAggregated pe att then (c, Some (Fresh ''attestation is aggregated''))
     else case hasSeenBit pe att c of
       (_, Some err) \<Rightarrow> (c, Some err)
     | (True, None) \<Rightarrow> (c, None)
     | (False, None) \<Rightarrow> (case pe_hashAtt pe att of
         (_, Some err) \<Rightarrow> (c, Some (Wrap ''could not tree hash attestation'' err))
       | (r, None) \<Rightarrow> (c\<lparr>unAggregatedAtt := gm_set r att (unAggregatedAtt c)\<rparr>, None)))"

fun SaveUnaggregatedAttestations :: "('b, 'z) pool_env_scheme \<Rightarrow> Attestation list \<Rightarrow> AttCaches \<Rightarrow> AttCaches \<times> go_error option" where
  "SaveUnaggregatedAttestations pe [] c = (c, None)"
| "SaveUnaggregatedAttestations pe (att # atts) c = (case SaveUnaggregatedAttestation pe att c of
     (c, Some err) \<Rightarrow> (c, Some err)
   | (c, None) \<Rightarrow> SaveUnaggregatedAttestations pe atts c)"

fun unseen_loop :: "('b, 'z) pool_env_scheme \<Rightarrow> AttCaches \<Rightarrow> Attestation list \<Rightarrow> Attestation list \<Rightarrow> Attestation list result" where
  "unseen_loop pe c [] atts = (atts, None)"
| "unseen_loop pe c (att # rest) atts = (case hasSeenBit pe att c of
     (_, Some err) \<Rightarrow> ([], Some err)
   | (seen, None) \<Rightarrow> unseen_loop pe c rest (if \<not> seen then atts @ [att] else atts))"

definition UnaggregatedAttestations :: "('b, 'z) pool_env_scheme \<Rightarrow> one_order \<Rightarrow> AttCaches \<Rightarrow> Attestation list result" where
  "UnaggregatedAttestations pe ord c = unseen_loop pe c (gm_range (unAggregatedAtt c) (ord (unAggregatedAtt c))) []"

definition UnaggregatedAttestationsBySlotIndex :: "one_order \<Rightarrow> Slot \<Rightarrow> u64 \<Rightarrow> AttCaches \<Rightarrow> Attestation list" where
  "UnaggregatedAttestationsBySlotIndex ord slot committeeIndex c =
    filter (\<lambda>a. slot = ad_Slot (at_Data a) \<and> committeeIndex = ad_CommitteeIndex (at_Data a)) (gm_range (unAggregatedAtt c) (ord (unAggregatedAtt c)))"

definition DeleteUnaggregatedAttestation :: "('b, 'z) pool_env_scheme \<Rightarrow> Attestation \<Rightarrow> AttCaches \<Rightarrow> AttCaches \<times> go_error option" where
  "DeleteUnaggregatedAttestation pe att c =
    (if IsAggregated pe att then (c, Some (Fresh ''attestation is aggregated''))
     else case insertSeenBit pe att c of
       (c, Some err) \<Rightarrow> (c, Some err)
     | (c, None) \<Rightarrow> (case pe_hashAtt pe att of
         (_, Some err) \<Rightarrow> (c, Some (Wrap ''could not tree hash attestation'' err))
       | (r, None) \<Rightarrow> (c\<lparr>unAggregatedAtt := gm_del r (unAggregatedAtt c)\<rparr>, None)))"

text \<open>The loop of \<^verbatim>\<open>DeleteSeenUnaggregatedAttestations\<close> over the keys; an error of \<^verbatim>\<open>hasSeenBit\<close> counts as not seen.\<close>
fun delete_seen_loop :: "('b, 'z) pool_env_scheme \<Rightarrow> root32 list \<Rightarrow> nat \<Rightarrow> AttCaches \<Rightarrow> AttCaches \<times> nat" where
  "delete_seen_loop pe [] n c = (c, n)"
| "delete_seen_loop pe (r # rs) n c = (case gm_get (unAggregatedAtt c) r of
     None \<Rightarrow> delete_seen_loop pe rs n c
   | Some att \<Rightarrow>
       if IsAggregated pe att then delete_seen_loop pe rs n c
       else if hasSeenBit pe att c = (True, None)
         then delete_seen_loop pe rs (Suc n) (c\<lparr>unAggregatedAtt := gm_del r (unAggregatedAtt c)\<rparr>)
       else delete_seen_loop pe rs n c)"

definition DeleteSeenUnaggregatedAttestations :: "('b, 'z) pool_env_scheme \<Rightarrow> one_order \<Rightarrow> AttCaches \<Rightarrow> AttCaches \<times> nat result" where
  "DeleteSeenUnaggregatedAttestations pe ord c = (let (c, n) = delete_seen_loop pe (ord (unAggregatedAtt c)) 0 c in (c, n, None))"

definition UnaggregatedAttestationCount :: "AttCaches \<Rightarrow> int" where
  "UnaggregatedAttestationCount c = int (gm_len (unAggregatedAtt c))"

subsection \<open>Aggregated attestations\<close>

definition HasAggregatedAttestation :: "('b, 'z) pool_env_scheme \<Rightarrow> Attestation \<Rightarrow> AttCaches \<Rightarrow> bool result" where
  "HasAggregatedAttestation pe att c = (case pe_hashData pe (at_Data att) of
     (_, Some err) \<Rightarrow> (False, Some (Wrap ''could not tree hash attestation'' err))
   | (r, None) \<Rightarrow>
       let bits = (\<lambda>atts. map at_AggregationBits (case atts of None \<Rightarrow> [] | Some atts \<Rightarrow> atts))
       in case contains_loop pe (bits (gm_get (aggregatedAtt c) r)) (at_AggregationBits att) of
            (_, Some err) \<Rightarrow> (False, Some err)
          | (True, None) \<Rightarrow> (True, None)
          | (False, None) \<Rightarrow> contains_loop pe (bits (gm_get (blockAtt c) r)) (at_AggregationBits att))"

definition SaveAggregatedAttestation :: "('b, 'z) pool_env_scheme \<Rightarrow> Attestation \<Rightarrow> AttCaches \<Rightarrow> (AttCaches \<times> go_error option) outcome" where
  "SaveAggregatedAttestation pe att c =
    (if \<not> IsAggregated pe att then Ret (c, Some (Fresh ''attestation is not aggregated''))
     else case HasAggregatedAttestation pe att c of
       (_, Some err) \<Rightarrow> Ret (c, Some err)
     | (True, None) \<Rightarrow> Ret (c, None)
     | (False, None) \<Rightarrow> (case hasSeenBit pe att c of
         (_, Some err) \<Rightarrow> Ret (c, Some err)
       | (True, None) \<Rightarrow> Ret (c, None)
       | (False, None) \<Rightarrow> (case pe_hashData pe (at_Data att) of
           (_, Some err) \<Rightarrow> Ret (c, Some (Wrap ''could not tree hash attestation'' err))
         | (r, None) \<Rightarrow> (case gm_get (aggregatedAtt c) r of
             None \<Rightarrow> Ret (c\<lparr>aggregatedAtt := gm_set r [att] (aggregatedAtt c)\<rparr>, None)
           | Some atts \<Rightarrow> obind (Aggregate pe (atts @ [att])) (\<lambda>res. case res of
               (_, Some err) \<Rightarrow> Ret (c, Some err)
             | (atts, None) \<Rightarrow> Ret (c\<lparr>aggregatedAtt := gm_set r atts (aggregatedAtt c)\<rparr>, None))))))"

fun filter_loop :: "('b, 'z) pool_env_scheme \<Rightarrow> u8 list \<Rightarrow> Attestation list \<Rightarrow> Attestation list \<Rightarrow> Attestation list result" where
  "filter_loop pe bits [] filtered = (filtered, None)"
| "filter_loop pe bits (a # as) filtered = (case ae_Contains pe bits (at_AggregationBits a) of
     (_, Some err) \<Rightarrow> ([], Some err)
   | (b, None) \<Rightarrow> filter_loop pe bits as (if \<not> b then filtered @ [a] else filtered))"

definition DeleteAggregatedAttestation :: "('b, 'z) pool_env_scheme \<Rightarrow> Attestation \<Rightarrow> AttCaches \<Rightarrow> AttCaches \<times> go_error option" where
  "DeleteAggregatedAttestation pe att c =
    (if \<not> IsAggregated pe att then (c, Some (Fresh ''attestation is not aggregated''))
     else case pe_hashData pe (at_Data att) of
       (_, Some err) \<Rightarrow> (c, Some (Wrap ''could not tree hash attestation data'' err))
     | (r, None) \<Rightarrow> (case insertSeenBit pe att c of
         (c, Some err) \<Rightarrow> (c, Some err)
       | (c, None) \<Rightarrow> (case gm_get (aggregatedAtt c) r of
           None \<Rightarrow> (c, None)
         | Some attList \<Rightarrow> (case filter_loop pe (at_AggregationBits att) attList [] of
             (_, Some err) \<Rightarrow> (c, Some err)
           | (filtered, None) \<Rightarrow>
               (if length filtered = 0 then c\<lparr>aggregatedAtt := gm_del r (aggregatedAtt c)\<rparr>
                else c\<lparr>aggregatedAtt := gm_set r filtered (aggregatedAtt c)\<rparr>, None)))))"

text \<open>Errors are logged and the attestation is deleted; the result is always nil.\<close>
fun SaveAggregatedAttestations :: "('b, 'z) pool_env_scheme \<Rightarrow> Attestation list \<Rightarrow> AttCaches \<Rightarrow> AttCaches outcome" where
  "SaveAggregatedAttestations pe [] c = Ret c"
| "SaveAggregatedAttestations pe (att # atts) c = obind (SaveAggregatedAttestation pe att c) (\<lambda>r. case r of
     (c, Some err) \<Rightarrow> SaveAggregatedAttestations pe atts (fst (DeleteAggregatedAttestation pe att c))
   | (c, None) \<Rightarrow> SaveAggregatedAttestations pe atts c)"

definition AggregatedAttestations :: "many_order \<Rightarrow> AttCaches \<Rightarrow> Attestation list" where
  "AggregatedAttestations ord c = concat (gm_range (aggregatedAtt c) (ord (aggregatedAtt c)))"

text \<open>The first attestation of every list is read, so an empty list panics.\<close>
fun slot_index_loop :: "Slot \<Rightarrow> u64 \<Rightarrow> Attestation list list \<Rightarrow> Attestation list \<Rightarrow> Attestation list outcome" where
  "slot_index_loop slot committeeIndex [] atts = Ret atts"
| "slot_index_loop slot committeeIndex (a # as) atts =
    (if a = [] then Panic
     else slot_index_loop slot committeeIndex as
       (if slot = ad_Slot (at_Data (hd a)) \<and> committeeIndex = ad_CommitteeIndex (at_Data (hd a)) then atts @ a else atts))"

definition AggregatedAttestationsBySlotIndex :: "many_order \<Rightarrow> Slot \<Rightarrow> u64 \<Rightarrow> AttCaches \<Rightarrow> Attestation list outcome" where
  "AggregatedAttestationsBySlotIndex ord slot committeeIndex c = slot_index_loop slot committeeIndex (gm_range (aggregatedAtt c) (ord (aggregatedAtt c))) []"

definition AggregatedAttestationCount :: "AttCaches \<Rightarrow> int" where
  "AggregatedAttestationCount c = int (gm_len (aggregatedAtt c))"

subsection \<open>Aggregation\<close>

text \<open>The lists of attestations with one hash tree root of their data.\<close>
fun group_loop :: "('b, 'z) pool_env_scheme \<Rightarrow> Attestation list \<Rightarrow> (root32, Attestation list) gomap \<Rightarrow> (root32, Attestation list) gomap result" where
  "group_loop pe [] m = (m, None)"
| "group_loop pe (att # atts) m = (case pe_dataRoot pe (at_Data att) of
     (_, Some err) \<Rightarrow> (m, Some err)
   | (r, None) \<Rightarrow> group_loop pe atts (gm_set r ((case gm_get m r of None \<Rightarrow> [] | Some as \<Rightarrow> as) @ [att]) m))"

text \<open>
  The goroutines of \<^verbatim>\<open>aggregateParallel\<close> take the lists from a channel; they are handled one after the other in the order of the argument.
\<close>
fun aggregateParallel ::
  "('b, 'z) pool_env_scheme \<Rightarrow> Attestation list list \<Rightarrow> (root32, bool) gomap \<Rightarrow> AttCaches \<Rightarrow> (AttCaches \<times> (root32, bool) gomap) outcome" where
  "aggregateParallel pe [] leftOver c = Ret (c, leftOver)"
| "aggregateParallel pe (as # rest) leftOver c = obind (AggregateDisjointOneBitAtts pe as) (\<lambda>r. case r of
     (_, Some err) \<Rightarrow> aggregateParallel pe rest leftOver c
   | (None, None) \<Rightarrow> aggregateParallel pe rest leftOver c
   | (Some aggregated, None) \<Rightarrow>
       if IsAggregated pe aggregated then obind (SaveAggregatedAttestations pe [aggregated] c) (aggregateParallel pe rest leftOver)
       else (case pe_hashAtt pe aggregated of
           (_, Some err) \<Rightarrow> aggregateParallel pe rest leftOver c
         | (h, None) \<Rightarrow> aggregateParallel pe rest (gm_set h True leftOver) c))"

fun delete_aggregated_loop :: "('b, 'z) pool_env_scheme \<Rightarrow> (root32, bool) gomap \<Rightarrow> Attestation list \<Rightarrow> AttCaches \<Rightarrow> AttCaches \<times> go_error option" where
  "delete_aggregated_loop pe leftOver [] c = (c, None)"
| "delete_aggregated_loop pe leftOver (att # atts) c = (case pe_hashAtt pe att of
     (_, Some err) \<Rightarrow> (c, Some err)
   | (h, None) \<Rightarrow>
       if gm_get leftOver h = Some True then delete_aggregated_loop pe leftOver atts c
       else (case DeleteUnaggregatedAttestation pe att c of
           (c, Some err) \<Rightarrow> (c, Some err)
         | (c, None) \<Rightarrow> delete_aggregated_loop pe leftOver atts c))"

definition aggregateUnaggregatedAtts ::
  "('b, 'z) pool_env_scheme \<Rightarrow> many_order \<Rightarrow> Attestation list \<Rightarrow> AttCaches \<Rightarrow> (AttCaches \<times> go_error option) outcome" where
  "aggregateUnaggregatedAtts pe ord unaggregatedAtts c = (case group_loop pe unaggregatedAtts [] of
     (_, Some err) \<Rightarrow> Ret (c, Some err)
   | (attsByDataRoot, None) \<Rightarrow>
       obind (aggregateParallel pe (gm_range attsByDataRoot (ord attsByDataRoot)) [] c) (\<lambda>(c, leftOver).
         Ret (delete_aggregated_loop pe leftOver unaggregatedAtts c)))"

definition AggregateUnaggregatedAttestations ::
  "('b, 'z) pool_env_scheme \<Rightarrow> one_order \<Rightarrow> many_order \<Rightarrow> AttCaches \<Rightarrow> (AttCaches \<times> go_error option) outcome" where
  "AggregateUnaggregatedAttestations pe ord1 ord c = (case UnaggregatedAttestations pe ord1 c of
     (_, Some err) \<Rightarrow> Ret (c, Some err)
   | (unaggregatedAtts, None) \<Rightarrow> aggregateUnaggregatedAtts pe ord unaggregatedAtts c)"

subsection \<open>Preparation for the fork choice\<close>

text \<open>The bits already passed on, per attestation data; the cache is returned with the answer.\<close>
definition seen :: "('b, 'z) pool_env_scheme \<Rightarrow> Attestation \<Rightarrow> (root32, u8 list) gomap \<Rightarrow> (root32, u8 list) gomap \<times> bool result" where
  "seen pe att processed = (case pe_hashData pe (at_Data att) of
     (_, Some err) \<Rightarrow> (processed, False, Some err)
   | (attRoot, None) \<Rightarrow>
       let incomingBits = at_AggregationBits att
       in case gm_get processed attRoot of
            Some savedBits \<Rightarrow>
              if ae_Len pe savedBits = ae_Len pe incomingBits then
                if savedBits = incomingBits then (processed, True, None)
                else (case ae_Contains pe savedBits incomingBits of
                    (_, Some err) \<Rightarrow> (processed, False, Some err)
                  | (True, None) \<Rightarrow> (processed, True, None)
                  | (False, None) \<Rightarrow> (case ae_BitsOr pe incomingBits savedBits of
                      (_, Some err) \<Rightarrow> (processed, False, Some err)
                    | (bits, None) \<Rightarrow> (pe_lruAdd pe attRoot bits processed, False, None)))
              else (pe_lruAdd pe attRoot incomingBits processed, False, None)
          | None \<Rightarrow> (pe_lruAdd pe attRoot incomingBits processed, False, None))"

fun unprocessed_loop ::
  "('b, 'z) pool_env_scheme \<Rightarrow> Attestation list \<Rightarrow> (root32, Attestation list) gomap \<Rightarrow> (root32, u8 list) gomap
    \<Rightarrow> (root32, u8 list) gomap \<times> (root32, Attestation list) gomap result" where
  "unprocessed_loop pe [] m processed = (processed, m, None)"
| "unprocessed_loop pe (att # atts) m processed = (case seen pe att processed of
     (processed, _, Some err) \<Rightarrow> (processed, m, Some err)
   | (processed, True, None) \<Rightarrow> unprocessed_loop pe atts m processed
   | (processed, False, None) \<Rightarrow> (case pe_dataRoot pe (at_Data att) of
       (_, Some err) \<Rightarrow> (processed, m, Some err)
     | (r, None) \<Rightarrow> unprocessed_loop pe atts (gm_set r ((case gm_get m r of None \<Rightarrow> [] | Some as \<Rightarrow> as) @ [att]) m) processed))"

definition aggregateAndSaveForkChoiceAtts ::
  "('b, 'z) pool_env_scheme \<Rightarrow> Attestation list \<Rightarrow> AttCaches \<Rightarrow> (AttCaches \<times> go_error option) outcome" where
  "aggregateAndSaveForkChoiceAtts pe atts c = obind (Aggregate pe atts) (\<lambda>r. case r of
     (_, Some err) \<Rightarrow> Ret (c, Some err)
   | (aggregatedAtts, None) \<Rightarrow> Ret (SaveForkchoiceAttestations pe aggregatedAtts c))"

fun save_groups_loop :: "('b, 'z) pool_env_scheme \<Rightarrow> Attestation list list \<Rightarrow> AttCaches \<Rightarrow> (AttCaches \<times> go_error option) outcome" where
  "save_groups_loop pe [] c = Ret (c, None)"
| "save_groups_loop pe (atts # groups) c = obind (aggregateAndSaveForkChoiceAtts pe atts c) (\<lambda>r. case r of
     (c, Some err) \<Rightarrow> Ret (c, Some err)
   | (c, None) \<Rightarrow> save_groups_loop pe groups c)"

fun delete_block_loop :: "('b, 'z) pool_env_scheme \<Rightarrow> Attestation list \<Rightarrow> AttCaches \<Rightarrow> AttCaches \<times> go_error option" where
  "delete_block_loop pe [] c = (c, None)"
| "delete_block_loop pe (a # as) c = (case DeleteBlockAttestation pe a c of
     (c, Some err) \<Rightarrow> (c, Some err)
   | (c, None) \<Rightarrow> delete_block_loop pe as c)"

definition batchForkChoiceAtts ::
  "('b, 'z) pool_env_scheme \<Rightarrow> one_order \<Rightarrow> many_order \<Rightarrow> (root32, u8 list) gomap \<Rightarrow> AttCaches
    \<Rightarrow> ((root32, u8 list) gomap \<times> AttCaches \<times> go_error option) outcome" where
  "batchForkChoiceAtts pe ord1 ord processed c = obind (AggregateUnaggregatedAttestations pe ord1 ord c) (\<lambda>r. case r of
     (c, Some err) \<Rightarrow> Ret (processed, c, Some err)
   | (c, None) \<Rightarrow>
       let atts = AggregatedAttestations ord c @ BlockAttestations ord c @ ForkchoiceAttestations ord1 c
       in case unprocessed_loop pe atts [] processed of
            (processed, _, Some err) \<Rightarrow> Ret (processed, c, Some err)
          | (processed, attsByDataRoot, None) \<Rightarrow>
              obind (save_groups_loop pe (gm_range attsByDataRoot (ord attsByDataRoot)) c) (\<lambda>r. case r of
                (c, Some err) \<Rightarrow> Ret (processed, c, Some err)
              | (c, None) \<Rightarrow> Ret (processed, delete_block_loop pe (BlockAttestations ord c) c)))"

subsection \<open>Expiry\<close>

text \<open>\<open>now\<close> is the reading of the clock; the product may panic.\<close>
definition expired :: "u64 \<Rightarrow> u64 \<Rightarrow> Slot \<Rightarrow> bool outcome" where
  "expired genesisTime now slot =
    (let expirationSlot = slot + SlotsPerEpoch
     in obind (Slot_Mul expirationSlot SecondsPerSlot) (\<lambda>t. Ret (now \<ge> genesisTime + t)))"

text \<open>Errors of the deletions are logged.\<close>
fun prune_loop ::
  "(Attestation \<Rightarrow> AttCaches \<Rightarrow> AttCaches \<times> go_error option) \<Rightarrow> u64 \<Rightarrow> u64 \<Rightarrow> Attestation list \<Rightarrow> AttCaches \<Rightarrow> AttCaches outcome" where
  "prune_loop delete genesisTime now [] c = Ret c"
| "prune_loop delete genesisTime now (att # atts) c = obind (expired genesisTime now (ad_Slot (at_Data att))) (\<lambda>old.
     prune_loop delete genesisTime now atts (if old then fst (delete att c) else c))"

definition pruneExpiredAtts :: "('b, 'z) pool_env_scheme \<Rightarrow> one_order \<Rightarrow> many_order \<Rightarrow> u64 \<Rightarrow> u64 \<Rightarrow> AttCaches \<Rightarrow> AttCaches outcome" where
  "pruneExpiredAtts pe ord1 ord genesisTime now c =
    obind (prune_loop (DeleteAggregatedAttestation pe) genesisTime now (AggregatedAttestations ord c) c) (\<lambda>c.
      let c = fst (DeleteSeenUnaggregatedAttestations pe ord1 c)
      in case UnaggregatedAttestations pe ord1 c of
           (_, Some err) \<Rightarrow> Ret c
         | (unAggregatedAtts, None) \<Rightarrow>
             obind (prune_loop (DeleteUnaggregatedAttestation pe) genesisTime now unAggregatedAtts c) (\<lambda>c.
               prune_loop (DeleteBlockAttestation pe) genesisTime now (BlockAttestations ord c) c))"


subsection \<open>Well-formed pools\<close>

text \<open>
  The documented behaviour of the caches: what they return after an entry is added.
\<close>
definition pool_laws :: "('b, 'z) pool_env_scheme \<Rightarrow> ('b \<Rightarrow> nat set) \<Rightarrow> (u8 list \<Rightarrow> nat set) \<Rightarrow> bool" where
  "pool_laws pe \<alpha> \<beta> \<longleftrightarrow> agg_laws pe \<alpha> \<beta>
    \<and> (\<forall>k v m k'. gm_get (pe_seenSet pe k v m) k' = (if k' = k then Some v else gm_get m k'))
    \<and> (\<forall>k v m k' w. gm_get (pe_lruAdd pe k v m) k' = Some w \<longrightarrow> (if k' = k then w = v else gm_get m k' = Some w))"

lemma pool_facts:
  assumes "pool_laws pe \<alpha> \<beta>"
  shows pool_agg: "agg_laws pe \<alpha> \<beta>"
    and seenSet: "gm_get (pe_seenSet pe k v m) k' = (if k' = k then Some v else gm_get m k')"
    and lruAdd: "gm_get (pe_lruAdd pe k u m') k' = Some w \<Longrightarrow> (if k' = k then w = u else gm_get m' k' = Some w)"
proof -
  have s: "\<forall>k v m k'. gm_get (pe_seenSet pe k v m) k' = (if k' = k then Some v else gm_get m k')"
    and l: "\<forall>k v m k' w. gm_get (pe_lruAdd pe k v m) k' = Some w \<longrightarrow> (if k' = k then w = v else gm_get m k' = Some w)"
    and A: "agg_laws pe \<alpha> \<beta>"
    using assms unfolding pool_laws_def by - (elim conjE, assumption)+
  show "gm_get (pe_seenSet pe k v m) k' = (if k' = k then Some v else gm_get m k')" using s by simp
  show "gm_get (pe_lruAdd pe k u m') k' = Some w \<Longrightarrow> (if k' = k then w = u else gm_get m' k' = Some w)" using l by blast
  show "agg_laws pe \<alpha> \<beta>" by (rule A)
qed

text \<open>The hash functions do not collide on the given attestations.\<close>
definition no_collision :: "('b, 'z) pool_env_scheme \<Rightarrow> Attestation set \<Rightarrow> bool" where
  "no_collision pe S \<longleftrightarrow> (\<forall>a \<in> S. \<forall>b \<in> S. \<forall>r.
    (pe_hashAtt pe a = (r, None) \<and> pe_hashAtt pe b = (r, None) \<longrightarrow> a = b)
    \<and> (pe_hashData pe (at_Data a) = (r, None) \<and> pe_hashData pe (at_Data b) = (r, None)
        \<or> pe_dataRoot pe (at_Data a) = (r, None) \<and> pe_dataRoot pe (at_Data b) = (r, None) \<longrightarrow> at_Data a = at_Data b))"

lemma no_collisionD:
  assumes "no_collision pe S" "a \<in> S" "b \<in> S"
  shows "pe_hashAtt pe a = (r, None) \<Longrightarrow> pe_hashAtt pe b = (r, None) \<Longrightarrow> a = b"
    and "pe_hashData pe (at_Data a) = (r, None) \<Longrightarrow> pe_hashData pe (at_Data b) = (r, None) \<Longrightarrow> at_Data a = at_Data b"
    and "pe_dataRoot pe (at_Data a) = (r, None) \<Longrightarrow> pe_dataRoot pe (at_Data b) = (r, None) \<Longrightarrow> at_Data a = at_Data b"
  using assms unfolding no_collision_def by blast+

lemma no_collision_mono: "no_collision pe S \<Longrightarrow> T \<subseteq> S \<Longrightarrow> no_collision pe T"
  unfolding no_collision_def by blast

text \<open>Attestations are stored under their hash, lists under the hash of their data; lists are not empty, and each pool holds its kind.\<close>
definition one_ok :: "('b, 'z) pool_env_scheme \<Rightarrow> (Attestation \<Rightarrow> bool) \<Rightarrow> (root32, Attestation) gomap \<Rightarrow> bool" where
  "one_ok pe P m \<longleftrightarrow> (\<forall>r t. gm_get m r = Some t \<longrightarrow> pe_hashAtt pe t = (r, None) \<and> P t)"

definition many_ok :: "('b, 'z) pool_env_scheme \<Rightarrow> (Attestation \<Rightarrow> bool) \<Rightarrow> (root32, Attestation list) gomap \<Rightarrow> bool" where
  "many_ok pe P m \<longleftrightarrow> (\<forall>r ts. gm_get m r = Some ts \<longrightarrow> ts \<noteq> [] \<and> (\<forall>t \<in> set ts. pe_hashData pe (at_Data t) = (r, None) \<and> P t))"

definition pool_ok :: "('b, 'z) pool_env_scheme \<Rightarrow> AttCaches \<Rightarrow> bool" where
  "pool_ok pe c \<longleftrightarrow> one_ok pe (\<lambda>_. True) (forkchoiceAtt c) \<and> one_ok pe (\<lambda>t. \<not> IsAggregated pe t) (unAggregatedAtt c)
    \<and> many_ok pe (\<lambda>_. True) (blockAtt c) \<and> many_ok pe (IsAggregated pe) (aggregatedAtt c)"

text \<open>The bits of an attestation have been seen.\<close>
abbreviation marked :: "('b, 'z) pool_env_scheme \<Rightarrow> AttCaches \<Rightarrow> Attestation \<Rightarrow> bool" where
  "marked pe c att \<equiv> hasSeenBit pe att c = (True, None)"

text \<open>The attestation is not among the single ones of the pool.\<close>
abbreviation gone :: "AttCaches \<Rightarrow> Attestation \<Rightarrow> bool" where
  "gone c att \<equiv> \<forall>r. gm_get (unAggregatedAtt c) r \<noteq> Some att"

text \<open>What every method of the pool keeps: the order of its maps, the bits seen, and that an attestation whose bits were seen does not come back.\<close>
definition pool_keeps :: "('b, 'z) pool_env_scheme \<Rightarrow> AttCaches \<Rightarrow> AttCaches \<Rightarrow> bool" where
  "pool_keeps pe c c' \<longleftrightarrow> (pool_ok pe c \<longrightarrow> pool_ok pe c') \<and> (\<forall>att. marked pe c att \<longrightarrow> marked pe c' att)
    \<and> (\<forall>att. marked pe c att \<longrightarrow> gone c att \<longrightarrow> gone c' att)"

named_theorems pool_ops \<open>what the methods of the pool keep\<close>

lemma pool_keeps_refl [pool_ops]: "pool_keeps pe c c"
  by (simp add: pool_keeps_def)

lemma pool_keeps_trans: "pool_keeps pe c d \<Longrightarrow> pool_keeps pe d e \<Longrightarrow> pool_keeps pe c e"
  by (simp add: pool_keeps_def)

lemma one_ok_set: "one_ok pe P m \<Longrightarrow> pe_hashAtt pe t = (r, None) \<Longrightarrow> P t \<Longrightarrow> one_ok pe P (gm_set r t m)"
  by (simp add: one_ok_def)

lemma one_ok_del: "one_ok pe P m \<Longrightarrow> one_ok pe P (gm_del r m)"
  by (simp add: one_ok_def)

lemma many_ok_set: "many_ok pe P m \<Longrightarrow> ts \<noteq> [] \<Longrightarrow> \<forall>t \<in> set ts. pe_hashData pe (at_Data t) = (r, None) \<and> P t \<Longrightarrow> many_ok pe P (gm_set r ts m)"
  by (simp add: many_ok_def)

lemma many_ok_del: "many_ok pe P m \<Longrightarrow> many_ok pe P (gm_del r m)"
  by (simp add: many_ok_def)

lemmas map_ok = one_ok_set one_ok_del many_ok_set many_ok_del

lemma hasSeenBit_same: "seenAtt c' = seenAtt c \<Longrightarrow> hasSeenBit pe att c' = hasSeenBit pe att c"
  by (simp only: hasSeenBit_def)

lemma pool_keepsI:
  assumes "seenAtt c' = seenAtt c" "pool_ok pe c \<Longrightarrow> pool_ok pe c'"
    "\<And>r t. gm_get (unAggregatedAtt c') r = Some t \<Longrightarrow> gm_get (unAggregatedAtt c) r = Some t \<or> \<not> marked pe c t"
  shows "pool_keeps pe c c'"
  using hasSeenBit_same [OF assms(1), of pe] assms(2,3) by (simp only: pool_keeps_def) blast

lemma contains_loop_append: "contains_loop pe bs x = (True, None) \<Longrightarrow> contains_loop pe (bs @ cs) x = (True, None)"
  by (induction bs) (auto split: prod.splits option.splits bool.splits)

lemma contains_loop_end: "contains_loop pe bs x = (False, None) \<Longrightarrow> contains_loop pe (bs @ [y]) x = contains_loop pe [y] x"
  by (induction bs) (auto split: prod.splits option.splits bool.splits)

lemma Contains_refl: "agg_laws pe \<alpha> \<beta> \<Longrightarrow> ae_Contains pe x x = (True, None)"
  using Contains [of pe \<alpha> \<beta> x x] by (cases "ae_Contains pe x x") simp

lemma insertSeenBit_ok:
  assumes L: "pool_laws pe \<alpha> \<beta>" and i: "insertSeenBit pe att c = (c', e)"
  shows "pool_keeps pe c c'" "e = None \<Longrightarrow> marked pe c' att" "\<exists>m. c' = c\<lparr>seenAtt := m\<rparr>"
proof -
  obtain r he where h: "pe_hashData pe (at_Data att) = (r, he)" by fastforce
  note G = seenSet [OF L] and R = Contains_refl [OF pool_agg [OF L], of "at_AggregationBits att"]
  show "\<exists>m. c' = c\<lparr>seenAtt := m\<rparr>"
    using i by (auto simp: insertSeenBit_def split: prod.splits option.splits if_splits intro: exI [of _ "seenAtt c"])
  have ok: "pool_ok pe c' = pool_ok pe c"
    using i by (auto simp: insertSeenBit_def pool_ok_def split: prod.splits option.splits if_splits)
  have un: "unAggregatedAtt c' = unAggregatedAtt c"
    using i by (auto simp: insertSeenBit_def split: prod.splits option.splits if_splits)
  have "marked pe c' a" if m: "marked pe c a" for a
  proof (cases "pe_hashData pe (at_Data a) = (r, None) \<and> he = None \<and> (\<exists>bs. gm_get (seenAtt c) r = Some bs)")
    case True
    then obtain bs where bs: "gm_get (seenAtt c) r = Some bs" "contains_loop pe bs (at_AggregationBits a) = (True, None)"
      using m by (auto simp: hasSeenBit_def)
    then show ?thesis
      using i h True m contains_loop_append [OF bs(2)] G
      by (auto simp: insertSeenBit_def hasSeenBit_def split: prod.splits option.splits if_splits)
  next
    case False
    then show ?thesis
      using i h m G by (auto simp: insertSeenBit_def hasSeenBit_def split: prod.splits option.splits if_splits)
  qed
  then show "pool_keeps pe c c'" using ok un by (simp add: pool_keeps_def)
  show "marked pe c' att" if "e = None"
    using i that h G R contains_loop_end [of pe _ "at_AggregationBits att" "at_AggregationBits att"]
    by (auto simp: insertSeenBit_def hasSeenBit_def split: prod.splits option.splits if_splits)
qed


subsection \<open>What the methods keep\<close>

lemma SaveForkchoiceAttestation_keeps [pool_ops]: "pool_keeps pe c (fst (SaveForkchoiceAttestation pe att c))"
  by (cases "pe_hashAtt pe att"; cases "snd (pe_hashAtt pe att)")
    (auto simp: SaveForkchoiceAttestation_def pool_ok_def intro!: pool_keepsI map_ok intro: pool_keeps_refl)

lemma SaveForkchoiceAttestations_keeps [pool_ops]: "pool_keeps pe c (fst (SaveForkchoiceAttestations pe atts c))"
proof (induction atts arbitrary: c)
  case (Cons att atts)
  obtain c' e where s: "SaveForkchoiceAttestation pe att c = (c', e)" by fastforce
  have "pool_keeps pe c c'" using SaveForkchoiceAttestation_keeps [of pe c att] s by simp
  then show ?case using s Cons.IH [of c'] by (cases e) (auto intro: pool_keeps_trans)
qed (simp add: pool_keeps_refl)

lemma DeleteForkchoiceAttestation_keeps [pool_ops]: "pool_keeps pe c (fst (DeleteForkchoiceAttestation pe att c))"
  by (cases "pe_hashAtt pe att"; cases "snd (pe_hashAtt pe att)")
    (auto simp: DeleteForkchoiceAttestation_def pool_ok_def intro!: pool_keepsI map_ok intro: pool_keeps_refl)

lemma SaveBlockAttestation_keeps [pool_ops]: "pool_keeps pe c (fst (SaveBlockAttestation pe att c))"
proof -
  obtain r e where h: "pe_hashData pe (at_Data att) = (r, e)" by fastforce
  let ?atts = "case gm_get (blockAtt c) r of None \<Rightarrow> [] | Some atts \<Rightarrow> atts"
  obtain b e' where b: "contains_loop pe (map at_AggregationBits ?atts) (at_AggregationBits att) = (b, e')" by fastforce
  show ?thesis
  proof (cases "e = None \<and> e' = None \<and> \<not> b")
    case True
    have "pool_ok pe c \<Longrightarrow> many_ok pe (\<lambda>_. True) (gm_set r (?atts @ [att]) (blockAtt c))"
      using h True by (intro many_ok_set; cases "gm_get (blockAtt c) r") (auto simp: pool_ok_def many_ok_def)
    then show ?thesis
      using h b True by (auto simp: SaveBlockAttestation_def Let_def pool_ok_def intro!: pool_keepsI)
  next
    case False
    then show ?thesis
      using h b by (cases e; cases e'; cases b) (auto simp: SaveBlockAttestation_def Let_def pool_keeps_refl)
  qed
qed

lemma DeleteBlockAttestation_keeps [pool_ops]: "pool_keeps pe c (fst (DeleteBlockAttestation pe att c))"
  by (cases "pe_hashData pe (at_Data att)"; cases "snd (pe_hashData pe (at_Data att))")
    (auto simp: DeleteBlockAttestation_def pool_ok_def intro!: pool_keepsI map_ok intro: pool_keeps_refl)

lemma SaveUnaggregatedAttestation_keeps [pool_ops]: "pool_keeps pe c (fst (SaveUnaggregatedAttestation pe att c))"
proof -
  obtain b e where s: "hasSeenBit pe att c = (b, e)" by fastforce
  obtain r e' where h: "pe_hashAtt pe att = (r, e')" by fastforce
  show ?thesis
  proof (cases "\<not> IsAggregated pe att \<and> e = None \<and> \<not> b \<and> e' = None")
    case True
    then show ?thesis
      using s h by (auto simp: SaveUnaggregatedAttestation_def pool_ok_def intro!: pool_keepsI map_ok split: if_splits)
  next
    case False
    then show ?thesis
      using s h by (cases e; cases e'; cases b) (auto simp: SaveUnaggregatedAttestation_def pool_keeps_refl)
  qed
qed

lemma SaveUnaggregatedAttestations_keeps [pool_ops]: "pool_keeps pe c (fst (SaveUnaggregatedAttestations pe atts c))"
proof (induction atts arbitrary: c)
  case (Cons att atts)
  obtain c' e where s: "SaveUnaggregatedAttestation pe att c = (c', e)" by fastforce
  have "pool_keeps pe c c'" using SaveUnaggregatedAttestation_keeps [of pe c att] s by simp
  then show ?case using s Cons.IH [of c'] by (cases e) (auto intro: pool_keeps_trans)
qed (simp add: pool_keeps_refl)

lemma delete_unaggregated: "pool_keeps pe c (c\<lparr>unAggregatedAtt := gm_del r (unAggregatedAtt c)\<rparr>)"
  by (auto simp: pool_ok_def intro!: pool_keepsI map_ok split: if_splits)

lemma DeleteUnaggregatedAttestation_ok:
  assumes L: "pool_laws pe \<alpha> \<beta>" and d: "DeleteUnaggregatedAttestation pe att c = (c', e)"
  shows "pool_keeps pe c c'" "e = None \<Longrightarrow> marked pe c' att" "e = None \<Longrightarrow> pool_ok pe c \<Longrightarrow> gone c' att"
proof -
  obtain c1 e1 where i: "insertSeenBit pe att c = (c1, e1)" by fastforce
  obtain r e2 where h: "pe_hashAtt pe att = (r, e2)" by fastforce
  note I = insertSeenBit_ok [OF L i]
  let ?c2 = "c1\<lparr>unAggregatedAtt := gm_del r (unAggregatedAtt c1)\<rparr>"
  have k: "pool_keeps pe c ?c2" by (rule pool_keeps_trans [OF I(1) delete_unaggregated])
  show "pool_keeps pe c c'"
    using d i h I(1) k by (cases "IsAggregated pe att"; cases e1; cases e2) (auto simp: DeleteUnaggregatedAttestation_def pool_keeps_refl)
  show "marked pe c' att" if "e = None"
    using d i h that I(2) hasSeenBit_same [of ?c2 c1 pe att]
    by (cases "IsAggregated pe att"; cases e1; cases e2) (auto simp: DeleteUnaggregatedAttestation_def)
  show "gone c' att" if n: "e = None" and ok: "pool_ok pe c"
  proof -
    have "one_ok pe (\<lambda>t. \<not> IsAggregated pe t) (unAggregatedAtt c1)" using I(1) ok by (simp add: pool_keeps_def pool_ok_def)
    moreover have "c' = ?c2 \<and> e2 = None"
      using d i h n by (cases "IsAggregated pe att"; cases e1; cases e2) (auto simp: DeleteUnaggregatedAttestation_def)
    ultimately show ?thesis using h by (auto simp: one_ok_def)
  qed
qed

lemma delete_seen_loop_keeps: "pool_keeps pe c (fst (delete_seen_loop pe rs n c))"
proof (induction rs arbitrary: n c)
  case (Cons r rs)
  show ?case
    using Cons.IH pool_keeps_trans [OF delete_unaggregated [of pe c r] Cons.IH]
    by (auto split: option.splits)
qed (simp add: pool_keeps_refl)

lemma DeleteSeenUnaggregatedAttestations_keeps [pool_ops]: "pool_keeps pe c (fst (DeleteSeenUnaggregatedAttestations pe ord c))"
  using delete_seen_loop_keeps [of pe c "ord (unAggregatedAtt c)" 0] by (auto simp: DeleteSeenUnaggregatedAttestations_def split: prod.splits)


lemma filter_loop_set: "filter_loop pe bits as acc = (out, None) \<Longrightarrow> set out \<subseteq> set acc \<union> set as"
proof (induction as arbitrary: acc)
  case (Cons a as)
  obtain b e where c: "ae_Contains pe bits (at_AggregationBits a) = (b, e)" by fastforce
  then show ?case using Cons.prems Cons.IH [of acc] Cons.IH [of "acc @ [a]"] by (cases e; cases b) auto
qed simp

lemma DeleteAggregatedAttestation_keeps:
  assumes L: "pool_laws pe \<alpha> \<beta>"
  shows "pool_keeps pe c (fst (DeleteAggregatedAttestation pe att c))"
proof -
  obtain r e where h: "pe_hashData pe (at_Data att) = (r, e)" by fastforce
  obtain c1 e1 where i: "insertSeenBit pe att c = (c1, e1)" by fastforce
  note I = insertSeenBit_ok(1) [OF L i]
  show ?thesis
  proof (cases "IsAggregated pe att \<and> e = None \<and> e1 = None \<and> gm_get (aggregatedAtt c1) r \<noteq> None")
    case False
    then show ?thesis using h i I by (cases e; cases e1) (auto simp: DeleteAggregatedAttestation_def pool_keeps_refl)
  next
    case True
    then obtain ts where ts: "gm_get (aggregatedAtt c1) r = Some ts" by blast
    obtain out e2 where f: "filter_loop pe (at_AggregationBits att) ts [] = (out, e2)" by fastforce
    have del: "pool_keeps pe c1 (c1\<lparr>aggregatedAtt := gm_del r (aggregatedAtt c1)\<rparr>)" by (auto simp: pool_ok_def intro!: pool_keepsI map_ok)
    have set: "pool_keeps pe c1 (c1\<lparr>aggregatedAtt := gm_set r out (aggregatedAtt c1)\<rparr>)" if "e2 = None" "out \<noteq> []"
    proof (rule pool_keepsI)
      have "set out \<subseteq> set ts" using filter_loop_set [of pe _ ts "[]" out] f that by auto
      then show "pool_ok pe c1 \<Longrightarrow> pool_ok pe (c1\<lparr>aggregatedAtt := gm_set r out (aggregatedAtt c1)\<rparr>)"
        using ts that by (auto simp: pool_ok_def many_ok_def)
    qed simp_all
    show ?thesis
      using True h i f ts I del set
      by (cases e2; cases "out = []") (auto simp: DeleteAggregatedAttestation_def intro: pool_keeps_trans)
  qed
qed

lemma IsAggregated_card:
  assumes "agg_laws pe \<alpha> \<beta>"
  shows "IsAggregated pe t \<longleftrightarrow> 1 < card (att_bits \<beta> t)"
  using bits_Count [OF assms, of "at_AggregationBits t"] by (simp add: IsAggregated_def word_less_nat_alt unat_of_nat)

lemma aggregate_of_data: "aggregate_of env \<beta> ins t \<Longrightarrow> \<exists>x \<in> set ins. at_Data t = at_Data x \<and> att_bits \<beta> x \<subseteq> att_bits \<beta> t"
proof -
  assume "aggregate_of env \<beta> ins t"
  then obtain ts where "2 \<le> length ts" "set ts \<subseteq> set ins" "att_bits \<beta> t = (\<Union>x \<in> set ts. att_bits \<beta> x)" "at_Data t = at_Data (hd ts)"
    unfolding aggregate_of_def by (elim exE conjE) (rule that)
  then show ?thesis by (cases ts) auto
qed

text \<open>What aggregation gives for attestations that agree on a property of the data and have more than one bit.\<close>
lemma Aggregate_data:
  assumes L: "agg_laws pe \<alpha> \<beta>" and a: "Aggregate pe ts = Ret (out, None)" and t: "t \<in> set out"
  shows "\<exists>x \<in> set ts. at_Data t = at_Data x \<and> (IsAggregated pe x \<longrightarrow> IsAggregated pe t)"
proof -
  have "t \<in> set ts \<or> aggregate_of pe \<beta> ts t" using Aggregate_ok [OF L, of ts] a t by auto
  then show ?thesis
  proof
    assume "aggregate_of pe \<beta> ts t"
    then obtain x where x: "x \<in> set ts" "at_Data t = at_Data x" "att_bits \<beta> x \<subseteq> att_bits \<beta> t" using aggregate_of_data by blast
    have "card (att_bits \<beta> x) \<le> card (att_bits \<beta> t)" using x(3) bits_Count(1) [OF L] by (simp add: card_mono)
    then show ?thesis using x IsAggregated_card [OF L] by auto
  qed auto
qed

lemma SaveAggregatedAttestation_ok:
  assumes L: "pool_laws pe \<alpha> \<beta>"
  shows "\<exists>c' e. SaveAggregatedAttestation pe att c = Ret (c', e) \<and> pool_keeps pe c c'"
proof -
  obtain b1 e1 where h1: "HasAggregatedAttestation pe att c = (b1, e1)" by fastforce
  obtain b2 e2 where h2: "hasSeenBit pe att c = (b2, e2)" by fastforce
  obtain r e3 where h: "pe_hashData pe (at_Data att) = (r, e3)" by fastforce
  note A = pool_agg [OF L]
  show ?thesis
  proof (cases "IsAggregated pe att \<and> e1 = None \<and> \<not> b1 \<and> e2 = None \<and> \<not> b2 \<and> e3 = None")
    case False
    then show ?thesis
      using h1 h2 h by (cases e1; cases e2; cases e3; cases b1; cases b2) (auto simp: SaveAggregatedAttestation_def pool_keeps_refl)
  next
    case True
    show ?thesis
    proof (cases "gm_get (aggregatedAtt c) r")
      case None
      have "pool_keeps pe c (c\<lparr>aggregatedAtt := gm_set r [att] (aggregatedAtt c)\<rparr>)"
        using h True by (auto simp: pool_ok_def intro!: pool_keepsI map_ok)
      then show ?thesis using h1 h2 h True None by (simp add: SaveAggregatedAttestation_def)
    next
      case (Some ts)
      obtain out e where a: "Aggregate pe (ts @ [att]) = Ret (out, e)" and ne: "e = None \<Longrightarrow> out \<noteq> []"
        using Aggregate_ok [OF A, of "ts @ [att]"] by auto
      have "pool_keeps pe c (c\<lparr>aggregatedAtt := gm_set r out (aggregatedAtt c)\<rparr>)" if n: "e = None"
      proof (rule pool_keepsI)
        assume ok: "pool_ok pe c"
        have in_ts: "\<forall>x \<in> set (ts @ [att]). pe_hashData pe (at_Data x) = (r, None) \<and> IsAggregated pe x"
          using ok Some True h by (auto simp: pool_ok_def many_ok_def)
        have "\<forall>t \<in> set out. pe_hashData pe (at_Data t) = (r, None) \<and> IsAggregated pe t"
          using Aggregate_data [OF A] a n in_ts by fastforce
        then show "pool_ok pe (c\<lparr>aggregatedAtt := gm_set r out (aggregatedAtt c)\<rparr>)"
          using ok ne [OF n] by (auto simp: pool_ok_def intro!: map_ok)
      qed simp_all
      then show ?thesis using h1 h2 h True Some a by (cases e) (auto simp: SaveAggregatedAttestation_def pool_keeps_refl)
    qed
  qed
qed

lemma SaveAggregatedAttestations_ok:
  assumes L: "pool_laws pe \<alpha> \<beta>"
  shows "\<exists>c'. SaveAggregatedAttestations pe atts c = Ret c' \<and> pool_keeps pe c c'"
proof (induction atts arbitrary: c)
  case (Cons att atts)
  obtain c1 e where s: "SaveAggregatedAttestation pe att c = Ret (c1, e)" "pool_keeps pe c c1" using SaveAggregatedAttestation_ok [OF L] by blast
  note D = DeleteAggregatedAttestation_keeps [OF L, of c1 att]
  show ?case
  proof (cases e)
    case None
    then show ?thesis using s Cons.IH [of c1] by (auto intro: pool_keeps_trans)
  next
    case (Some err)
    then show ?thesis using s Cons.IH [of "fst (DeleteAggregatedAttestation pe att c1)"] D by (auto intro: pool_keeps_trans)
  qed
qed (simp add: pool_keeps_refl)


lemma aggregateParallel_ok:
  assumes L: "pool_laws pe \<alpha> \<beta>"
  shows "\<exists>c' lo. aggregateParallel pe groups leftOver c = Ret (c', lo) \<and> pool_keeps pe c c'"
proof (induction groups arbitrary: leftOver c)
  case (Cons as rest)
  obtain ag e where r: "AggregateDisjointOneBitAtts pe as = Ret (ag, e)" using AggregateDisjoint_ok [OF pool_agg [OF L], of as] by auto
  show ?case
  proof (cases "e = None \<and> ag \<noteq> None")
    case False
    then show ?thesis using r Cons.IH [of leftOver c] by (cases e; cases ag) auto
  next
    case True
    then obtain t where t: "ag = Some t" by auto
    obtain h e' where h: "pe_hashAtt pe t = (h, e')" by fastforce
    obtain c1 where s: "SaveAggregatedAttestations pe [t] c = Ret c1" "pool_keeps pe c c1" using SaveAggregatedAttestations_ok [OF L] by blast
    show ?thesis
    proof (cases "IsAggregated pe t")
      case agg: True
      obtain c' lo where "aggregateParallel pe rest leftOver c1 = Ret (c', lo)" "pool_keeps pe c1 c'" using Cons.IH by blast
      then show ?thesis using r True t s agg by (auto intro: pool_keeps_trans simp del: SaveAggregatedAttestations.simps)
    next
      case False
      then show ?thesis using r True t h Cons.IH [of leftOver c] Cons.IH [of "gm_set h True leftOver" c] by (cases e') auto
    qed
  qed
qed (simp add: pool_keeps_refl)

lemma delete_aggregated_loop_keeps:
  assumes L: "pool_laws pe \<alpha> \<beta>"
  shows "pool_keeps pe c (fst (delete_aggregated_loop pe leftOver atts c))"
proof (induction atts arbitrary: c)
  case (Cons att atts)
  obtain h e where h: "pe_hashAtt pe att = (h, e)" by fastforce
  obtain c1 e1 where d: "DeleteUnaggregatedAttestation pe att c = (c1, e1)" by fastforce
  have "pool_keeps pe c c1" by (rule DeleteUnaggregatedAttestation_ok(1) [OF L d])
  then show ?case using h d Cons.IH [of c] Cons.IH [of c1]
    by (cases e; cases e1; cases "gm_get leftOver h = Some True") (auto simp: pool_keeps_refl intro: pool_keeps_trans)
qed (simp add: pool_keeps_refl)

lemma AggregateUnaggregatedAttestations_ok:
  assumes L: "pool_laws pe \<alpha> \<beta>"
  shows "\<exists>c' e. AggregateUnaggregatedAttestations pe ord1 ord c = Ret (c', e) \<and> pool_keeps pe c c'"
proof -
  obtain us e where u: "UnaggregatedAttestations pe ord1 c = (us, e)" by fastforce
  obtain m e' where g: "group_loop pe us [] = (m, e')" by fastforce
  obtain c1 lo where p: "aggregateParallel pe (gm_range m (ord m)) [] c = Ret (c1, lo)" "pool_keeps pe c c1" using aggregateParallel_ok [OF L] by blast
  obtain c2 e2 where d: "delete_aggregated_loop pe lo us c1 = (c2, e2)" by fastforce
  have "pool_keeps pe c1 c2" using delete_aggregated_loop_keeps [OF L, of c1 lo us] d by simp
  then show ?thesis using u g p d
    by (cases e; cases e') (auto simp: AggregateUnaggregatedAttestations_def aggregateUnaggregatedAtts_def pool_keeps_refl intro: pool_keeps_trans)
qed

lemma save_groups_loop_ok:
  assumes L: "pool_laws pe \<alpha> \<beta>"
  shows "\<exists>c' e. save_groups_loop pe groups c = Ret (c', e) \<and> pool_keeps pe c c'"
proof (induction groups arbitrary: c)
  case (Cons g groups)
  obtain out e where a: "Aggregate pe g = Ret (out, e)" using Aggregate_ok [OF pool_agg [OF L], of g] by auto
  obtain c1 e1 where s: "SaveForkchoiceAttestations pe out c = (c1, e1)" by fastforce
  have k: "pool_keeps pe c c1" using SaveForkchoiceAttestations_keeps [of pe c out] s by simp
  obtain c2 e2 where r: "save_groups_loop pe groups c1 = Ret (c2, e2)" "pool_keeps pe c1 c2" using Cons.IH by blast
  show ?case
    using a s k r by (cases e; cases e1) (auto simp: aggregateAndSaveForkChoiceAtts_def pool_keeps_refl intro: pool_keeps_trans)
qed (simp add: pool_keeps_refl)

lemma delete_block_loop_keeps: "pool_keeps pe c (fst (delete_block_loop pe atts c))"
proof (induction atts arbitrary: c)
  case (Cons att atts)
  obtain c1 e where d: "DeleteBlockAttestation pe att c = (c1, e)" by fastforce
  have "pool_keeps pe c c1" using DeleteBlockAttestation_keeps [of pe c att] d by simp
  then show ?case using d Cons.IH [of c1] by (cases e) (auto intro: pool_keeps_trans)
qed (simp add: pool_keeps_refl)

lemma batchForkChoiceAtts_ok:
  assumes L: "pool_laws pe \<alpha> \<beta>"
  shows "\<exists>p c' e. batchForkChoiceAtts pe ord1 ord processed c = Ret (p, c', e) \<and> pool_keeps pe c c'"
proof -
  obtain c1 e1 where a: "AggregateUnaggregatedAttestations pe ord1 ord c = Ret (c1, e1)" "pool_keeps pe c c1"
    using AggregateUnaggregatedAttestations_ok [OF L] by blast
  let ?atts = "AggregatedAttestations ord c1 @ BlockAttestations ord c1 @ ForkchoiceAttestations ord1 c1"
  obtain p m e2 where u: "unprocessed_loop pe ?atts [] processed = (p, m, e2)" using prod_cases3 by blast
  obtain c2 e3 where s: "save_groups_loop pe (gm_range m (ord m)) c1 = Ret (c2, e3)" "pool_keeps pe c1 c2" using save_groups_loop_ok [OF L] by blast
  obtain c3 e4 where d: "delete_block_loop pe (BlockAttestations ord c2) c2 = (c3, e4)" by fastforce
  have k: "pool_keeps pe c2 c3" using delete_block_loop_keeps [of pe c2 "BlockAttestations ord c2"] d by simp
  show ?thesis
    using a u s d k by (cases e1; cases e2; cases e3) (auto simp: batchForkChoiceAtts_def Let_def intro: pool_keeps_trans)
qed

lemma prune_loop_keeps:
  assumes "\<And>att c. pool_keeps pe c (fst (delete att c))"
  shows "prune_loop delete genesisTime now atts c = Ret c' \<Longrightarrow> pool_keeps pe c c'"
proof (induction atts arbitrary: c)
  case (Cons att atts)
  then obtain old where "expired genesisTime now (ad_Slot (at_Data att)) = Ret old"
    "prune_loop delete genesisTime now atts (if old then fst (delete att c) else c) = Ret c'" by (auto simp: obind_Ret_iff)
  then show ?case using Cons.IH assms [of c att] by (cases old) (auto intro: pool_keeps_trans)
qed (simp add: pool_keeps_refl)

lemma pruneExpiredAtts_keeps:
  assumes L: "pool_laws pe \<alpha> \<beta>" and p: "pruneExpiredAtts pe ord1 ord genesisTime now c = Ret c'"
  shows "pool_keeps pe c c'"
proof -
  have du: "pool_keeps pe c (fst (DeleteUnaggregatedAttestation pe att c))" for att c
    using DeleteUnaggregatedAttestation_ok(1) [OF L] by (metis prod.collapse)
  obtain c1 where c1: "prune_loop (DeleteAggregatedAttestation pe) genesisTime now (AggregatedAttestations ord c) c = Ret c1"
    using p by (auto simp: pruneExpiredAtts_def obind_Ret_iff)
  let ?c2 = "fst (DeleteSeenUnaggregatedAttestations pe ord1 c1)"
  have k2: "pool_keeps pe c ?c2"
    using prune_loop_keeps [OF DeleteAggregatedAttestation_keeps [OF L] c1] DeleteSeenUnaggregatedAttestations_keeps by (rule pool_keeps_trans)
  obtain us e where u: "UnaggregatedAttestations pe ord1 ?c2 = (us, e)" by fastforce
  show ?thesis
  proof (cases e)
    case (Some err)
    then show ?thesis using p c1 u k2 by (simp add: pruneExpiredAtts_def Let_def)
  next
    case None
    then obtain c3 where c3: "prune_loop (DeleteUnaggregatedAttestation pe) genesisTime now us ?c2 = Ret c3"
      "prune_loop (DeleteBlockAttestation pe) genesisTime now (BlockAttestations ord c3) c3 = Ret c'"
      using p c1 u by (auto simp: pruneExpiredAtts_def Let_def obind_Ret_iff)
    show ?thesis
      using k2 prune_loop_keeps [OF du c3(1)] prune_loop_keeps [OF DeleteBlockAttestation_keeps c3(2)] by (blast intro: pool_keeps_trans)
  qed
qed

end
