(* ===== verification/PoolVotes.thy ===== *)
theory PoolVotes
  imports AttestationPool
begin

text \<open>
  The attestation pool over time: the methods as a step relation, the invariant of the pool, bits that have been seen, and the votes
  on their way to the fork choice.
\<close>

subsection \<open>The pool as a state machine\<close>

text \<open>
  Every method of the pool that changes it, the two routines of the attestation service and, last, an entry of the cache of
  seen bits that expires. Results that are not returned by a panicking call take no step.
\<close>
inductive pool_step :: "('b, 'z) pool_env_scheme \<Rightarrow> AttCaches \<Rightarrow> AttCaches \<Rightarrow> bool" for pe :: "('b, 'z) pool_env_scheme" where
  SaveForkchoice: "pool_step pe c (fst (SaveForkchoiceAttestation pe att c))"
| SaveForkchoices: "pool_step pe c (fst (SaveForkchoiceAttestations pe atts c))"
| DeleteForkchoice: "pool_step pe c (fst (DeleteForkchoiceAttestation pe att c))"
| SaveBlock: "pool_step pe c (fst (SaveBlockAttestation pe att c))"
| DeleteBlock: "pool_step pe c (fst (DeleteBlockAttestation pe att c))"
| SaveUnaggregated: "pool_step pe c (fst (SaveUnaggregatedAttestation pe att c))"
| SaveUnaggregateds: "pool_step pe c (fst (SaveUnaggregatedAttestations pe atts c))"
| DeleteUnaggregated: "pool_step pe c (fst (DeleteUnaggregatedAttestation pe att c))"
| DeleteSeen: "pool_step pe c (fst (DeleteSeenUnaggregatedAttestations pe ord1 c))"
| SaveAggregated: "SaveAggregatedAttestation pe att c = Ret (c', e) \<Longrightarrow> pool_step pe c c'"
| SaveAggregateds: "SaveAggregatedAttestations pe atts c = Ret c' \<Longrightarrow> pool_step pe c c'"
| DeleteAggregated: "pool_step pe c (fst (DeleteAggregatedAttestation pe att c))"
| AggregateUnaggregated: "AggregateUnaggregatedAttestations pe ord1 ord c = Ret (c', e) \<Longrightarrow> pool_step pe c c'"
| Batch: "batchForkChoiceAtts pe ord1 ord processed c = Ret (p, c', e) \<Longrightarrow> pool_step pe c c'"
| Prune: "pruneExpiredAtts pe ord1 ord genesisTime now c = Ret c' \<Longrightarrow> pool_step pe c c'"

inductive pool_or_expiry :: "('b, 'z) pool_env_scheme \<Rightarrow> AttCaches \<Rightarrow> AttCaches \<Rightarrow> bool" for pe :: "('b, 'z) pool_env_scheme" where
  Method: "pool_step pe c c' \<Longrightarrow> pool_or_expiry pe c c'"
| Expire: "pool_or_expiry pe c (c\<lparr>seenAtt := gm_del k (seenAtt c)\<rparr>)"

lemma pool_step_keeps:
  assumes L: "pool_laws pe \<alpha> \<beta>" and s: "pool_step pe c c'"
  shows "pool_keeps pe c c'"
  using s
proof cases
  case (DeleteUnaggregated att)
  then show ?thesis using DeleteUnaggregatedAttestation_ok(1) [OF L] by (metis prod.collapse)
next
  case (SaveAggregated att e)
  then show ?thesis using SaveAggregatedAttestation_ok [OF L, of att c] by auto
next
  case (SaveAggregateds atts)
  then show ?thesis using SaveAggregatedAttestations_ok [OF L, of atts c] by auto
next
  case (DeleteAggregated att)
  then show ?thesis using DeleteAggregatedAttestation_keeps [OF L] by simp
next
  case (AggregateUnaggregated ord1 ord e)
  then show ?thesis using AggregateUnaggregatedAttestations_ok [OF L, of ord1 ord c] by auto
next
  case (Batch ord1 ord processed p e)
  then show ?thesis using batchForkChoiceAtts_ok [OF L, of ord1 ord processed c] by auto
next
  case (Prune ord1 ord genesisTime now)
  then show ?thesis using pruneExpiredAtts_keeps [OF L] by blast
qed (simp_all add: pool_ops)

text \<open>The pools that can be reached under the laws of the packages are well formed.\<close>
interpretation pool: step_invariant "\<lambda>c. c = NewAttCaches" "pool_or_expiry pe" "\<lambda>_. True" "\<lambda>c. (\<exists>\<alpha> \<beta>. pool_laws pe \<alpha> \<beta>) \<longrightarrow> pool_ok pe c"
  for pe :: "('b, 'z) pool_env_scheme"
proof (standard, goal_cases)
  case (2 c)
  then show ?case by (simp add: NewAttCaches_def pool_ok_def one_ok_def many_ok_def)
next
  case (3 c c')
  from 3(3) show ?case
  proof cases
    case Method
    then show ?thesis using 3(2) pool_step_keeps by (fastforce simp: pool_keeps_def)
  next
    case (Expire k)
    then show ?thesis using 3(2) by (simp add: pool_ok_def)
  qed
qed simp


lemma gm_range_set: "set (gm_range m ks) = {v. \<exists>k \<in> set ks. gm_get m k = Some v}"
  by (induction ks) (auto simp: gm_range_def List.map_filter_simps split: option.splits)

lemma gm_range_order: "gm_order m ks \<Longrightarrow> set (gm_range m ks) = {v. \<exists>k. gm_get m k = Some v}"
  by (auto simp: gm_range_set gm_order_get)

lemma slot_index_loop_ok:
  "[] \<notin> set groups \<Longrightarrow> \<exists>out. slot_index_loop slot ix groups acc = Ret out
    \<and> set out = set acc \<union> \<Union> {set g |g. g \<in> set groups \<and> slot = ad_Slot (at_Data (hd g)) \<and> ix = ad_CommitteeIndex (at_Data (hd g))}"
proof (induction groups arbitrary: acc)
  case (Cons g groups)
  let ?acc = "if slot = ad_Slot (at_Data (hd g)) \<and> ix = ad_CommitteeIndex (at_Data (hd g)) then acc @ g else acc"
  obtain out where o: "slot_index_loop slot ix groups ?acc = Ret out"
    "set out = set ?acc \<union> \<Union> {set g |g. g \<in> set groups \<and> slot = ad_Slot (at_Data (hd g)) \<and> ix = ad_CommitteeIndex (at_Data (hd g))}"
    using Cons.IH [of ?acc] Cons.prems by auto
  have "g \<noteq> []" using Cons.prems by auto
  then show ?case using o by (auto split: if_splits)
qed simp

text \<open>
  (C38) In every pool that can be reached, under any order of the maps and with entries of the cache of seen bits expiring at any time,
  single attestations and those for the fork choice are stored under the hash of the attestation, the lists of aggregated attestations and of attestations from blocks under the
  hash of the data, no list is empty, and single and aggregated attestations are in their own pools. Therefore, when the hashes do not collide on the aggregated attestations, the query by slot and committee, which reads the data of the first
  attestation of each list, never panics and returns exactly the aggregated attestations of that slot and committee.
\<close>
theorem pool_well_formed:
  assumes "pool_laws pe \<alpha> \<beta>" "reach (\<lambda>c. c = NewAttCaches) (pool_or_expiry pe) c" "gm_order (aggregatedAtt c) (ord (aggregatedAtt c))"
    "no_collision pe (set (AggregatedAttestations ord c))"
  shows "pool_ok pe c \<and> (\<exists>atts. AggregatedAttestationsBySlotIndex ord slot ix c = Ret atts
    \<and> set atts = {t \<in> set (AggregatedAttestations ord c). ad_Slot (at_Data t) = slot \<and> ad_CommitteeIndex (at_Data t) = ix})"
proof -
  have ok: "pool_ok pe c" using pool.reach_inv [OF assms(2)] assms(1) by blast
  let ?G = "gm_range (aggregatedAtt c) (ord (aggregatedAtt c))"
  have g: "g \<noteq> [] \<and> (\<forall>t \<in> set g. at_Data t = at_Data (hd g))" if G: "g \<in> set ?G" for g
  proof -
    obtain r where "gm_get (aggregatedAtt c) r = Some g" using G gm_range_order [OF assms(3)] by auto
    then have ne: "g \<noteq> []" and h: "\<forall>t \<in> set g. pe_hashData pe (at_Data t) = (r, None)" using ok by (auto simp: pool_ok_def many_ok_def)
    have "set g \<subseteq> set (AggregatedAttestations ord c)" using G by (auto simp: AggregatedAttestations_def)
    then have "at_Data t = at_Data (hd g)" if "t \<in> set g" for t using that no_collisionD(2) [OF assms(4)] h hd_in_set [OF ne] by blast
    then show ?thesis using ne by blast
  qed
  then have "[] \<notin> set ?G" by blast
  then obtain out where o: "slot_index_loop slot ix ?G [] = Ret out"
    "set out = set [] \<union> \<Union> {set g |g. g \<in> set ?G \<and> slot = ad_Slot (at_Data (hd g)) \<and> ix = ad_CommitteeIndex (at_Data (hd g))}"
    using slot_index_loop_ok [of ?G slot ix "[]"] by blast
  have "set out = {t \<in> set (concat ?G). ad_Slot (at_Data t) = slot \<and> ad_CommitteeIndex (at_Data t) = ix}"
  proof (intro set_eqI iffI)
    fix t assume "t \<in> set out"
    then obtain h where h: "h \<in> set ?G" "t \<in> set h" "slot = ad_Slot (at_Data (hd h))" "ix = ad_CommitteeIndex (at_Data (hd h))" using o(2) by auto
    have "at_Data t = at_Data (hd h)" using g h(1,2) by blast
    then show "t \<in> {t \<in> set (concat ?G). ad_Slot (at_Data t) = slot \<and> ad_CommitteeIndex (at_Data t) = ix}" using h by auto
  next
    fix t assume "t \<in> {t \<in> set (concat ?G). ad_Slot (at_Data t) = slot \<and> ad_CommitteeIndex (at_Data t) = ix}"
    then obtain h where h: "h \<in> set ?G" "t \<in> set h" "ad_Slot (at_Data t) = slot" "ad_CommitteeIndex (at_Data t) = ix" by auto
    then have "at_Data t = at_Data (hd h)" using g by blast
    then show "t \<in> set out" unfolding o(2) using h by auto
  qed
  then show ?thesis using ok o(1) by (simp add: AggregatedAttestationsBySlotIndex_def AggregatedAttestations_def)
qed

subsection \<open>Bits that have been seen\<close>

lemma unseen_loop_ok: "unseen_loop pe c atts acc = (out, None) \<Longrightarrow> t \<in> set out \<Longrightarrow> t \<in> set acc \<or> t \<in> set atts \<and> \<not> marked pe c t"
proof (induction atts arbitrary: acc)
  case (Cons a atts)
  obtain b e where h: "hasSeenBit pe a c = (b, e)" by fastforce
  then show ?case using Cons.prems Cons.IH [of acc] Cons.IH [of "acc @ [a]"] by (cases e; cases b) auto
qed simp

lemma unseen_loop_error: "unseen_loop pe c atts acc = (out, Some e) \<Longrightarrow> out = []"
  by (induction atts arbitrary: acc) (auto split: prod.splits option.splits)

lemma pool_steps_keep:
  assumes L: "pool_laws pe \<alpha> \<beta>" and s: "(pool_step pe)\<^sup>*\<^sup>* c c'"
  shows "pool_keeps pe c c'"
  using s
proof (induction rule: rtranclp_induct)
  case (step d e)
  then show ?case using pool_step_keeps [OF L step.hyps(2)] by (blast intro: pool_keeps_trans)
qed (rule pool_keeps_refl)

text \<open>
  (C39) Once \<^verbatim>\<open>DeleteUnaggregatedAttestation\<close> has accepted an attestation in a pool that can be reached, no sequence of calls of the pool makes either query for
  single attestations, \<^verbatim>\<open>UnaggregatedAttestations\<close> or \<^verbatim>\<open>UnaggregatedAttestationsBySlotIndex\<close>, return it again, under any order of the map, and saving it again changes
  nothing, as long as the entry of the cache of seen bits has not expired.
\<close>
theorem deleted_never_returned:
  assumes "pool_laws pe \<alpha> \<beta>" "reach (\<lambda>c. c = NewAttCaches) (pool_or_expiry pe) c"
    "DeleteUnaggregatedAttestation pe att c = (c1, None)" "(pool_step pe)\<^sup>*\<^sup>* c1 c2"
  shows "(\<forall>ord. att \<notin> set (fst (UnaggregatedAttestations pe ord c2)))
    \<and> (\<forall>ord slot ix. att \<notin> set (UnaggregatedAttestationsBySlotIndex ord slot ix c2))
    \<and> SaveUnaggregatedAttestation pe att c2 = (c2, None)"
proof -
  note D = DeleteUnaggregatedAttestation_ok [OF assms(1,3)]
  have ok: "pool_ok pe c" using pool.reach_inv [OF assms(2)] assms(1) by blast
  have m: "marked pe c2 att" and g: "gone c2 att"
    using pool_steps_keep [OF assms(1,4)] D(2) D(3) [OF _ ok] by (auto simp: pool_keeps_def)
  have un: "att \<notin> set (gm_range (unAggregatedAtt c2) ks)" for ks using g by (auto simp: gm_range_set)
  have "att \<notin> set (fst (UnaggregatedAttestations pe ord c2))" for ord
  proof (cases "UnaggregatedAttestations pe ord c2")
    case (Pair atts e)
    then have u: "unseen_loop pe c2 (gm_range (unAggregatedAtt c2) (ord (unAggregatedAtt c2))) [] = (atts, e)"
      by (simp add: UnaggregatedAttestations_def)
    show ?thesis
    proof (cases e)
      case None
      then show ?thesis using Pair m unseen_loop_ok [of pe c2 _ "[]" atts att] u by auto
    next
      case (Some err)
      then have "atts = []" using unseen_loop_error u by blast
      then show ?thesis using Pair by simp
    qed
  qed
  moreover have "\<not> IsAggregated pe att" using assms(3) by (auto simp: DeleteUnaggregatedAttestation_def split: if_splits)
  ultimately show ?thesis using m un by (simp add: SaveUnaggregatedAttestation_def UnaggregatedAttestationsBySlotIndex_def)
qed


subsection \<open>Votes on their way to the fork choice\<close>

text \<open>The bits passed on before for some data, the bits in the groups of a round, and those in the fork-choice pool.\<close>
definition saved_bits :: "('b, 'z) pool_env_scheme \<Rightarrow> (u8 list \<Rightarrow> nat set) \<Rightarrow> (root32, u8 list) gomap \<Rightarrow> AttestationData \<Rightarrow> nat set" where
  "saved_bits pe \<beta> p d = \<Union> {\<beta> b |b r. pe_hashData pe d = (r, None) \<and> gm_get p r = Some b}"

definition members :: "(root32, Attestation list) gomap \<Rightarrow> Attestation set" where
  "members m = {t. \<exists>r ts. gm_get m r = Some ts \<and> t \<in> set ts}"

definition group_bits :: "(u8 list \<Rightarrow> nat set) \<Rightarrow> (root32, Attestation list) gomap \<Rightarrow> AttestationData \<Rightarrow> nat set" where
  "group_bits \<beta> m d = (\<Union>t \<in> {t \<in> members m. at_Data t = d}. att_bits \<beta> t)"

definition forkchoice_set :: "AttCaches \<Rightarrow> Attestation set" where
  "forkchoice_set c = {t. \<exists>r. gm_get (forkchoiceAtt c) r = Some t}"

definition forkchoice_bits :: "(u8 list \<Rightarrow> nat set) \<Rightarrow> AttCaches \<Rightarrow> AttestationData \<Rightarrow> nat set" where
  "forkchoice_bits \<beta> c d = (\<Union>t \<in> {t \<in> forkchoice_set c. at_Data t = d}. att_bits \<beta> t)"

definition grouped :: "('b, 'z) pool_env_scheme \<Rightarrow> (root32, Attestation list) gomap \<Rightarrow> bool" where
  "grouped pe m \<longleftrightarrow> (\<forall>r ts. gm_get m r = Some ts \<longrightarrow> (\<forall>t \<in> set ts. pe_dataRoot pe (at_Data t) = (r, None)))"

lemma seen_ok:
  assumes L: "pool_laws pe \<alpha> \<beta>" and s: "seen pe att p = (p', b, None)" and S: "no_collision pe S" "att \<in> S"
  shows "if b then p' = p \<and> att_bits \<beta> att \<subseteq> saved_bits pe \<beta> p (at_Data att)
     else \<forall>d \<in> at_Data ` S. saved_bits pe \<beta> p' d \<subseteq> saved_bits pe \<beta> p d \<union> (if d = at_Data att then att_bits \<beta> att else {})"
proof -
  note A = pool_agg [OF L]
  obtain r where h: "pe_hashData pe (at_Data att) = (r, None)" using s by (auto simp: seen_def split: prod.splits option.splits)
  have add: "\<forall>d \<in> at_Data ` S. saved_bits pe \<beta> (pe_lruAdd pe r x p) d \<subseteq> saved_bits pe \<beta> p d \<union> (if d = at_Data att then att_bits \<beta> att else {})"
    if x: "\<beta> x \<subseteq> att_bits \<beta> att \<union> saved_bits pe \<beta> p (at_Data att)" for x
  proof (intro ballI subsetI)
    fix d i assume d: "d \<in> at_Data ` S" and "i \<in> saved_bits pe \<beta> (pe_lruAdd pe r x p) d"
    then obtain b r' where b: "i \<in> \<beta> b" "pe_hashData pe d = (r', None)" "gm_get (pe_lruAdd pe r x p) r' = Some b"
      by (auto simp: saved_bits_def)
    have w: "if r' = r then b = x else gm_get p r' = Some b" by (rule lruAdd [OF L b(3)])
    show "i \<in> saved_bits pe \<beta> p d \<union> (if d = at_Data att then att_bits \<beta> att else {})"
    proof (cases "r' = r")
      case True
      then have "d = at_Data att" using no_collisionD(2) [OF S(1) _ S(2)] d b(2) h by blast
      then show ?thesis using x b(1) w True by auto
    next
      case False
      then show ?thesis using w b by (auto simp: saved_bits_def)
    qed
  qed
  show ?thesis
  proof (cases "gm_get p r")
    case None
    then show ?thesis using s h add [of "at_AggregationBits att"] by (auto simp: seen_def Let_def)
  next
    case (Some sb)
    then have sv: "saved_bits pe \<beta> p (at_Data att) = \<beta> sb" using h by (auto simp: saved_bits_def)
    show ?thesis
    proof (cases "ae_Len pe sb = ae_Len pe (at_AggregationBits att) \<and> sb \<noteq> at_AggregationBits att")
      case False
      then show ?thesis using s h Some sv add [of "at_AggregationBits att"] by (auto simp: seen_def Let_def split: if_splits)
    next
      case True
      obtain c e where c: "ae_Contains pe sb (at_AggregationBits att) = (c, e)" by fastforce
      obtain bits e' where o: "ae_BitsOr pe (at_AggregationBits att) sb = (bits, e')" by fastforce
      show ?thesis
        using s h Some True c o sv Contains(1) [OF A, of sb "at_AggregationBits att" c] BitsOr [OF A, of "at_AggregationBits att" sb bits] add [of bits]
        by (cases e; cases c; cases e') (auto simp: seen_def Let_def)
    qed
  qed
qed

lemma members_add:
  assumes "ts = (case gm_get m r of None \<Rightarrow> [] | Some as \<Rightarrow> as)"
  shows "members (gm_set r (ts @ [att]) m) = insert att (members m)"
proof (intro set_eqI iffI)
  fix t assume "t \<in> members (gm_set r (ts @ [att]) m)"
  then show "t \<in> insert att (members m)" using assms by (cases "gm_get m r") (auto simp: members_def split: if_splits)
next
  fix t assume "t \<in> insert att (members m)"
  then consider "t = att" | r' us where "gm_get m r' = Some us" "t \<in> set us" by (auto simp: members_def)
  then show "t \<in> members (gm_set r (ts @ [att]) m)"
  proof cases
    case 1
    then show ?thesis by (auto simp: members_def intro!: exI [of _ r])
  next
    case 2
    then show ?thesis using assms by (cases "r' = r") (auto simp: members_def intro!: exI [of _ r'])
  qed
qed

lemma group_bits_add:
  assumes "ts = (case gm_get m r of None \<Rightarrow> [] | Some as \<Rightarrow> as)"
  shows "group_bits \<beta> (gm_set r (ts @ [att]) m) d = group_bits \<beta> m d \<union> (if d = at_Data att then att_bits \<beta> att else {})"
proof -
  have "{t \<in> insert att (members m). at_Data t = d} = {t \<in> members m. at_Data t = d} \<union> (if d = at_Data att then {att} else {})" by auto
  then show ?thesis by (simp add: group_bits_def members_add [OF assms])
qed

lemma unprocessed_loop_ok:
  assumes L: "pool_laws pe \<alpha> \<beta>" and S: "no_collision pe S"
  shows "unprocessed_loop pe atts m p = (p', m', None) \<Longrightarrow> set atts \<subseteq> S \<Longrightarrow> grouped pe m \<Longrightarrow>
    \<forall>d \<in> at_Data ` S. saved_bits pe \<beta> p d \<subseteq> B d \<union> group_bits \<beta> m d \<Longrightarrow>
    grouped pe m' \<and> members m' \<subseteq> members m \<union> set atts \<and> (\<forall>d. group_bits \<beta> m d \<subseteq> group_bits \<beta> m' d)
    \<and> (\<forall>att \<in> set atts. att_bits \<beta> att \<subseteq> B (at_Data att) \<union> group_bits \<beta> m' (at_Data att))"
proof (induction atts arbitrary: m p)
  case (Cons att atts)
  obtain p1 b e where s: "seen pe att p = (p1, b, e)" using prod_cases3 by blast
  obtain r e' where h: "pe_dataRoot pe (at_Data att) = (r, e')" by fastforce
  have e: "e = None" using Cons.prems(1) s by (cases e; cases b) auto
  have a: "att \<in> S" "at_Data att \<in> at_Data ` S" "set atts \<subseteq> S" using Cons.prems(2) by auto
  note C = seen_ok [OF L s [unfolded e] S a(1)]
  show ?case
  proof (cases b)
    case True
    then have u: "unprocessed_loop pe atts m p = (p', m', None)" using Cons.prems(1) s e C by simp
    note I = Cons.IH [OF u a(3) Cons.prems(3,4)]
    have "att_bits \<beta> att \<subseteq> B (at_Data att) \<union> group_bits \<beta> m (at_Data att)" using C True Cons.prems(4) a(2) by fastforce
    then show ?thesis using I by fastforce
  next
    case False
    let ?ts = "case gm_get m r of None \<Rightarrow> [] | Some as \<Rightarrow> as"
    let ?m = "gm_set r (?ts @ [att]) m"
    have u: "unprocessed_loop pe atts ?m p1 = (p', m', None)" and r: "e' = None" using Cons.prems(1) s e False h by (cases e'; simp)+
    have g: "grouped pe ?m" using Cons.prems(3) h r by (cases "gm_get m r") (auto simp: grouped_def split: if_splits)
    note gb = group_bits_add [OF refl, of \<beta> r m att] and mb = members_add [OF refl, of r m att]
    have "\<forall>d \<in> at_Data ` S. saved_bits pe \<beta> p1 d \<subseteq> B d \<union> group_bits \<beta> ?m d" using C False Cons.prems(4) unfolding gb by fastforce
    note I = Cons.IH [OF u a(3) g this, unfolded gb mb]
    have "\<forall>d. group_bits \<beta> m d \<union> (if d = at_Data att then att_bits \<beta> att else {}) \<subseteq> group_bits \<beta> m' d" using I by blast
    from spec [OF this, of "at_Data att"] have "att_bits \<beta> att \<subseteq> group_bits \<beta> m' (at_Data att)" by simp
    then show ?thesis using I by auto
  qed
qed auto

lemma SaveForkchoiceAttestation_adds:
  assumes S: "no_collision pe S" "att \<in> S" "forkchoice_set c \<subseteq> S" and ok: "pool_ok pe c" and s: "SaveForkchoiceAttestation pe att c = (c', None)"
  shows "forkchoice_set c' = insert att (forkchoice_set c)"
proof -
  obtain r where h: "pe_hashAtt pe att = (r, None)" and c': "c' = c\<lparr>forkchoiceAtt := gm_set r att (forkchoiceAtt c)\<rparr>"
    using s by (auto simp: SaveForkchoiceAttestation_def split: prod.splits option.splits)
  have "t = att" if t: "gm_get (forkchoiceAtt c) r = Some t" for t
  proof -
    have "pe_hashAtt pe t = (r, None)" using ok t by (auto simp: pool_ok_def one_ok_def)
    moreover have "t \<in> S" using S(3) t by (auto simp: forkchoice_set_def)
    ultimately show ?thesis using no_collisionD(1) [OF S(1)] S(2) h by blast
  qed
  then have "\<exists>r''. gm_get (gm_set r att (forkchoiceAtt c)) r'' = Some t" if "gm_get (forkchoiceAtt c) r' = Some t" for r' t
    using that by (intro exI [of _ r']) auto
  moreover have "\<exists>r''. gm_get (gm_set r att (forkchoiceAtt c)) r'' = Some att" by (rule exI [of _ r]) simp
  moreover have f: "forkchoiceAtt c' = gm_set r att (forkchoiceAtt c)" using c' by simp
  ultimately have "insert att (forkchoice_set c) \<subseteq> forkchoice_set c'" unfolding forkchoice_set_def by (simp only:) blast
  moreover have "forkchoice_set c' \<subseteq> insert att (forkchoice_set c)" unfolding forkchoice_set_def f by (auto split: if_splits)
  ultimately show ?thesis by (rule equalityI [rotated])
qed

lemma SaveForkchoiceAttestations_adds:
  assumes S: "no_collision pe S"
  shows "SaveForkchoiceAttestations pe atts c = (c', None) \<Longrightarrow> pool_ok pe c \<Longrightarrow> set atts \<subseteq> S \<Longrightarrow> forkchoice_set c \<subseteq> S \<Longrightarrow>
    forkchoice_set c' = set atts \<union> forkchoice_set c"
proof (induction atts arbitrary: c)
  case (Cons att atts)
  obtain c1 where s: "SaveForkchoiceAttestation pe att c = (c1, None)" "SaveForkchoiceAttestations pe atts c1 = (c', None)"
    using Cons.prems(1) by (auto split: prod.splits option.splits)
  have ok: "pool_ok pe c1" using SaveForkchoiceAttestation_keeps [of pe c att] s(1) Cons.prems(2) by (simp add: pool_keeps_def)
  have "att \<in> S" using Cons.prems(3) by simp
  note f = SaveForkchoiceAttestation_adds [OF S this Cons.prems(4,2) s(1)]
  show ?case using Cons.IH [OF s(2) ok] Cons.prems(3,4) f by auto
qed simp

lemma aggregate_of_mono: "aggregate_of pe \<beta> g t \<Longrightarrow> set g \<subseteq> set atts \<Longrightarrow> aggregate_of pe \<beta> atts t"
  unfolding aggregate_of_def by (elim exE conjE, intro exI conjI) (assumption | rule order_trans)+

text \<open>The attestations that can be made from a list.\<close>
definition made_of :: "('b, 'z) agg_env_scheme \<Rightarrow> (u8 list \<Rightarrow> nat set) \<Rightarrow> Attestation list \<Rightarrow> Attestation set" where
  "made_of pe \<beta> atts = set atts \<union> {t. aggregate_of pe \<beta> atts t}"

lemma save_group_adds:
  assumes L: "pool_laws pe \<alpha> \<beta>" and ok: "pool_ok pe c" and a: "aggregateAndSaveForkChoiceAtts pe g c = Ret (c', None)"
    and S: "no_collision pe (made_of pe \<beta> atts)" "set g \<subseteq> set atts" "forkchoice_set c \<subseteq> made_of pe \<beta> atts" and same: "\<forall>t \<in> set g. at_Data t = d"
  shows "pool_ok pe c' \<and> forkchoice_set c \<subseteq> forkchoice_set c' \<and> forkchoice_set c' \<subseteq> made_of pe \<beta> atts
    \<and> \<Union> (att_bits \<beta> ` set g) \<subseteq> forkchoice_bits \<beta> c' d"
proof -
  obtain out where out: "Aggregate pe g = Ret (out, None)" "SaveForkchoiceAttestations pe out c = (c', None)"
    using a by (auto simp: aggregateAndSaveForkChoiceAtts_def obind_Ret_iff split: prod.splits option.splits)
  have "\<forall>t \<in> set out. t \<in> set g \<or> aggregate_of pe \<beta> g t" and U: "\<Union> (att_bits \<beta> ` set out) = \<Union> (att_bits \<beta> ` set g)"
    using Aggregate_ok [OF pool_agg [OF L], of g] out(1) by auto
  then have o: "set out \<subseteq> made_of pe \<beta> atts" using S(2) aggregate_of_mono [of pe \<beta> g _ atts] by (auto simp: made_of_def)
  have f: "forkchoice_set c' = set out \<union> forkchoice_set c" by (rule SaveForkchoiceAttestations_adds [OF S(1) out(2) ok o S(3)])
  have "\<forall>t \<in> set out. at_Data t = d" using Aggregate_data [OF pool_agg [OF L] out(1)] same by fastforce
  then have "set out \<subseteq> {t \<in> forkchoice_set c'. at_Data t = d}" using f by auto
  then have "\<Union> (att_bits \<beta> ` set out) \<subseteq> forkchoice_bits \<beta> c' d" unfolding forkchoice_bits_def by (intro UN_mono) auto
  moreover have "pool_ok pe c'" using SaveForkchoiceAttestations_keeps [of pe c out] out(2) ok by (simp add: pool_keeps_def)
  ultimately show ?thesis using f o S(3) U by auto
qed

lemma forkchoice_bits_mono: "forkchoice_set c \<subseteq> forkchoice_set c' \<Longrightarrow> forkchoice_bits \<beta> c d \<subseteq> forkchoice_bits \<beta> c' d"
  by (auto simp: forkchoice_bits_def)

lemma save_groups_loop_adds:
  assumes L: "pool_laws pe \<alpha> \<beta>" and S: "no_collision pe (made_of pe \<beta> atts)"
  shows "save_groups_loop pe groups c = Ret (c', None) \<Longrightarrow> pool_ok pe c \<Longrightarrow> forkchoice_set c \<subseteq> made_of pe \<beta> atts \<Longrightarrow>
    \<forall>g \<in> set groups. set g \<subseteq> set atts \<and> (\<exists>d. \<forall>t \<in> set g. at_Data t = d) \<Longrightarrow>
    pool_ok pe c' \<and> forkchoice_set c \<subseteq> forkchoice_set c' \<and> (\<forall>g \<in> set groups. \<forall>t \<in> set g. att_bits \<beta> t \<subseteq> forkchoice_bits \<beta> c' (at_Data t))"
proof (induction groups arbitrary: c)
  case (Cons g groups)
  obtain c1 where s: "aggregateAndSaveForkChoiceAtts pe g c = Ret (c1, None)" "save_groups_loop pe groups c1 = Ret (c', None)"
    using Cons.prems(1) by (auto simp: obind_Ret_iff split: prod.splits option.splits)
  obtain d where d: "\<forall>t \<in> set g. at_Data t = d" and g: "set g \<subseteq> set atts" using Cons.prems(4) by auto
  note A = save_group_adds [OF L Cons.prems(2) s(1) S g Cons.prems(3) d]
  have I: "pool_ok pe c'" "forkchoice_set c1 \<subseteq> forkchoice_set c'" "\<forall>g \<in> set groups. \<forall>t \<in> set g. att_bits \<beta> t \<subseteq> forkchoice_bits \<beta> c' (at_Data t)"
    using Cons.IH [OF s(2)] A Cons.prems(4) by auto
  have "att_bits \<beta> t \<subseteq> forkchoice_bits \<beta> c' (at_Data t)" if "t \<in> set g" for t
    using that d A forkchoice_bits_mono [OF I(2), of \<beta> d] by auto
  then show ?case using I A by auto
qed simp

lemma delete_block_loop_ok:
  "delete_block_loop pe atts c = (c', e) \<Longrightarrow> forkchoiceAtt c' = forkchoiceAtt c
    \<and> (e = None \<longrightarrow> (\<forall>r ts. gm_get (blockAtt c') r = Some ts \<longrightarrow> gm_get (blockAtt c) r = Some ts \<and> (\<forall>t \<in> set atts. pe_hashData pe (at_Data t) \<noteq> (r, None))))"
proof (induction atts arbitrary: c)
  case (Cons att atts)
  obtain r e1 where h: "pe_hashData pe (at_Data att) = (r, e1)" by fastforce
  show ?case
  proof (cases e1)
    case None
    let ?c = "c\<lparr>blockAtt := gm_del r (blockAtt c)\<rparr>"
    have "delete_block_loop pe atts ?c = (c', e)" using Cons.prems h None by (simp add: DeleteBlockAttestation_def)
    note I = Cons.IH [OF this]
    have "gm_get (blockAtt c) r' = Some ts \<and> (\<forall>t \<in> set (att # atts). pe_hashData pe (at_Data t) \<noteq> (r', None))"
      if n: "e = None" "gm_get (blockAtt c') r' = Some ts" for r' ts
    proof -
      have "gm_get (blockAtt ?c) r' = Some ts \<and> (\<forall>t \<in> set atts. pe_hashData pe (at_Data t) \<noteq> (r', None))" using I n by blast
      then show ?thesis using h None by (cases "r' = r") auto
    qed
    then show ?thesis using I by auto
  next
    case (Some err)
    then show ?thesis using Cons.prems h by (auto simp: DeleteBlockAttestation_def)
  qed
qed simp


text \<open>
  (C40) A successful preparation of attestations for the fork choice loses no vote of the pools of aggregated and of block attestations: every bit of such
  an attestation has been passed on before for the same data, or is in an attestation of the fork-choice pool with the same data. Afterwards
  the pool of block attestations is empty. (The hash functions are assumed not to collide on the attestations that can be made from the pools.)
\<close>
theorem batch_keeps_votes:
  assumes "pool_laws pe \<alpha> \<beta>" "reach (\<lambda>c. c = NewAttCaches) (pool_or_expiry pe) c" "\<And>m. gm_order m (ord m)" "\<And>m. gm_order m (ord1 m)"
    "AggregateUnaggregatedAttestations pe ord1 ord c = Ret (c1, None)" "batchForkChoiceAtts pe ord1 ord p c = Ret (p', c2, None)"
    "no_collision pe (made_of pe \<beta> (AggregatedAttestations ord c1 @ BlockAttestations ord c1 @ ForkchoiceAttestations ord1 c1))"
  shows "(\<forall>att \<in> set (AggregatedAttestations ord c1 @ BlockAttestations ord c1).
      att_bits \<beta> att \<subseteq> saved_bits pe \<beta> p (at_Data att) \<union> forkchoice_bits \<beta> c2 (at_Data att))
    \<and> (\<forall>r. gm_get (blockAtt c2) r = None)"
proof -
  let ?atts = "AggregatedAttestations ord c1 @ BlockAttestations ord c1 @ ForkchoiceAttestations ord1 c1"
  have ok: "pool_ok pe c1"
    using pool.reach_inv [OF assms(2)] assms(1,5) AggregateUnaggregatedAttestations_ok [OF assms(1), of ord1 ord c] by (auto simp: pool_keeps_def)
  obtain m c' where u: "unprocessed_loop pe ?atts [] p = (p', m, None)" and s: "save_groups_loop pe (gm_range m (ord m)) c1 = Ret (c', None)"
    and d: "delete_block_loop pe (BlockAttestations ord c') c' = (c2, None)"
    using assms(5,6) by (auto simp: batchForkChoiceAtts_def Let_def obind_Ret_iff split: prod.splits option.splits)
  have S: "set ?atts \<subseteq> made_of pe \<beta> ?atts" by (auto simp: made_of_def)
  have U: "grouped pe m" "members m \<subseteq> set ?atts"
      "\<forall>att \<in> set ?atts. att_bits \<beta> att \<subseteq> saved_bits pe \<beta> p (at_Data att) \<union> group_bits \<beta> m (at_Data att)"
    using unprocessed_loop_ok [OF assms(1,7) u S, where B = "saved_bits pe \<beta> p"] by (auto simp: grouped_def members_def)
  have gs: "set (gm_range m (ord m)) = {g. \<exists>r. gm_get m r = Some g}" by (rule gm_range_order [OF assms(3)])
  have "\<forall>g \<in> set (gm_range m (ord m)). set g \<subseteq> set ?atts \<and> (\<exists>d. \<forall>t \<in> set g. at_Data t = d)"
  proof
    fix g assume "g \<in> set (gm_range m (ord m))"
    then obtain r where r: "gm_get m r = Some g" using gs by auto
    then have sub: "set g \<subseteq> set ?atts" using U(2) by (auto simp: members_def)
    have "\<forall>t \<in> set g. pe_dataRoot pe (at_Data t) = (r, None)" using U(1) r by (simp add: grouped_def)
    then have "\<forall>t \<in> set g. \<forall>t' \<in> set g. at_Data t = at_Data t'" using no_collisionD(3) [OF assms(7)] sub S by blast
    then show "set g \<subseteq> set ?atts \<and> (\<exists>d. \<forall>t \<in> set g. at_Data t = d)" using sub by blast
  qed
  moreover have "forkchoice_set c1 \<subseteq> made_of pe \<beta> ?atts"
    using gm_range_order [OF assms(4), of "forkchoiceAtt c1"] by (auto simp: made_of_def forkchoice_set_def ForkchoiceAttestations_def)
  ultimately have G: "pool_ok pe c'" "\<forall>g \<in> set (gm_range m (ord m)). \<forall>t \<in> set g. att_bits \<beta> t \<subseteq> forkchoice_bits \<beta> c' (at_Data t)"
    using save_groups_loop_adds [OF assms(1,7) s ok] by auto
  have D: "forkchoiceAtt c2 = forkchoiceAtt c'" and B: "\<forall>r ts. gm_get (blockAtt c2) r = Some ts \<longrightarrow> gm_get (blockAtt c') r = Some ts
      \<and> (\<forall>t \<in> set (BlockAttestations ord c'). pe_hashData pe (at_Data t) \<noteq> (r, None))"
    using delete_block_loop_ok [OF d] by auto
  have "group_bits \<beta> m x \<subseteq> forkchoice_bits \<beta> c2 x" for x
  proof -
    have "att_bits \<beta> t \<subseteq> forkchoice_bits \<beta> c' (at_Data t)" if "t \<in> members m" for t using that G(2) gs by (auto simp: members_def)
    then show ?thesis using D by (auto simp: group_bits_def forkchoice_bits_def forkchoice_set_def)
  qed
  moreover have "gm_get (blockAtt c2) r = None" for r
  proof (rule ccontr)
    assume "gm_get (blockAtt c2) r \<noteq> None"
    then obtain ts where ts: "gm_get (blockAtt c') r = Some ts" "\<forall>t \<in> set (BlockAttestations ord c'). pe_hashData pe (at_Data t) \<noteq> (r, None)"
      using B by blast
    then have "hd ts \<in> set (BlockAttestations ord c')" "pe_hashData pe (at_Data (hd ts)) = (r, None)"
      using G(1) gm_range_order [OF assms(3), of "blockAtt c'"] by (auto simp: BlockAttestations_def pool_ok_def many_ok_def)
    then show False using ts(2) by blast
  qed
  ultimately show ?thesis using U(3) by fastforce
qed


subsection \<open>Examples\<close>

text \<open>Caches that keep everything, and hashes that tell the attestations of the examples apart.\<close>
definition demo_pool :: "(u64 \<times> nat list) pool_env" where
  "demo_pool = agg_env.extend demo_agg
    \<lparr>pe_hashAtt = (\<lambda>t. (foldr (\<lambda>b h. h * 256 + ucast b) (at_AggregationBits t @ at_Signature t) 1, None)),
     pe_hashData = (\<lambda>d. (ucast (ad_Slot d), None)), pe_dataRoot = (\<lambda>d. (ucast (ad_Slot d), None)),
     pe_seenSet = gm_set, pe_lruAdd = gm_set\<rparr>"

definition key_order :: "(root32, 'v) gomap \<Rightarrow> root32 list" where
  "key_order m = remdups (map fst m)"

lemma key_order: "gm_order m (key_order m)"
  by (auto simp: gm_order_def key_order_def gm_keys_def)

lemma demo_pool_laws: "pool_laws demo_pool lb_bits (\<lambda>x. set (byte_bits x))"
proof -
  have f: "b_New demo_pool = b_New demo_agg" "b_Len demo_pool = b_Len demo_agg" "b_Count demo_pool = b_Count demo_agg" "b_Not demo_pool = b_Not demo_agg"
    "b_Or demo_pool = b_Or demo_agg" "b_And demo_pool = b_And demo_agg" "b_AndCount demo_pool = b_AndCount demo_agg"
    "b_XorCount demo_pool = b_XorCount demo_agg" "b_Overlaps demo_pool = b_Overlaps demo_agg" "b_SetBitAt demo_pool = b_SetBitAt demo_agg"
    "b_BitIndices demo_pool = b_BitIndices demo_agg" "ae_ToBitlist64 demo_pool = ae_ToBitlist64 demo_agg" "ae_ToBitlist demo_pool = ae_ToBitlist demo_agg"
    "ae_Len demo_pool = ae_Len demo_agg" "ae_Count demo_pool = ae_Count demo_agg" "ae_Contains demo_pool = ae_Contains demo_agg"
    "ae_BitsOr demo_pool = ae_BitsOr demo_agg" "ae_sortSlice demo_pool = ae_sortSlice demo_agg"
    by (simp_all add: demo_pool_def agg_env.defs)
  have "agg_laws demo_pool lb_bits (\<lambda>x. set (byte_bits x))" using demo_agg_laws unfolding agg_laws_def bitlist64_laws_def f .
  then show ?thesis by (simp add: pool_laws_def demo_pool_def agg_env.defs)
qed

definition block_pool :: AttCaches where
  "block_pool = fst (SaveBlockAttestation demo_pool (demo_vote [1, 1, 0]) NewAttCaches)"

lemma block_pool_reach: "reach (\<lambda>c. c = NewAttCaches) (pool_or_expiry demo_pool) block_pool"
  unfolding block_pool_def by (rule reach.move [OF reach.start]) (auto intro: pool_or_expiry.Method pool_step.SaveBlock)

text \<open>Two aggregated attestations with different data.\<close>
definition late_vote :: Attestation where
  "late_vote = (demo_vote [0, 1, 1])\<lparr>at_Data := (at_Data (demo_vote [0, 1, 1]))\<lparr>ad_Slot := 1\<rparr>\<rparr>"

definition agg_pool :: AttCaches where
  "agg_pool = (case SaveAggregatedAttestations demo_pool [demo_vote [1, 1, 0], late_vote] NewAttCaches of Ret c \<Rightarrow> c | _ \<Rightarrow> NewAttCaches)"

lemma agg_pool_reach: "reach (\<lambda>c. c = NewAttCaches) (pool_or_expiry demo_pool) agg_pool"
proof -
  obtain c where c: "SaveAggregatedAttestations demo_pool [demo_vote [1, 1, 0], late_vote] NewAttCaches = Ret c"
    using SaveAggregatedAttestations_ok [OF demo_pool_laws] by blast
  have "pool_or_expiry demo_pool NewAttCaches c" by (rule pool_or_expiry.Method [OF pool_step.SaveAggregateds [OF c]])
  then show ?thesis unfolding agg_pool_def c by (auto intro: reach.move reach.start)
qed

theorem pool_well_formed_witness:
  "pool_ok demo_pool agg_pool \<and> set (AggregatedAttestations key_order agg_pool) = {demo_vote [1, 1, 0], late_vote}
    \<and> (\<exists>atts. AggregatedAttestationsBySlotIndex key_order 1 0 agg_pool = Ret atts \<and> set atts = {late_vote})"
proof -
  let ?a = "demo_vote [1, 1, 0]"
  have A: "set (AggregatedAttestations key_order agg_pool) = {?a, late_vote}" by code_simp
  have "pe_hashAtt demo_pool ?a \<noteq> pe_hashAtt demo_pool late_vote" "pe_hashData demo_pool (at_Data ?a) \<noteq> pe_hashData demo_pool (at_Data late_vote)"
    "pe_dataRoot demo_pool (at_Data ?a) \<noteq> pe_dataRoot demo_pool (at_Data late_vote)" by (code_simp, code_simp, code_simp)
  then have n: "no_collision demo_pool {?a, late_vote}" by (auto simp: no_collision_def)
  have "{t \<in> {?a, late_vote}. ad_Slot (at_Data t) = 1 \<and> ad_CommitteeIndex (at_Data t) = 0} = {late_vote}"
  proof -
    have "ad_Slot (at_Data ?a) = 319" "ad_Slot (at_Data late_vote) = 1" "ad_CommitteeIndex (at_Data late_vote) = 0" by (code_simp, code_simp, code_simp)
    then show ?thesis by auto
  qed
  then show ?thesis
    using pool_well_formed [where ord = key_order and slot = 1 and ix = 0, OF demo_pool_laws agg_pool_reach key_order] A n by simp
qed

theorem deleted_never_returned_witness:
  "let att = demo_vote [1, 0, 0]; c = fst (SaveUnaggregatedAttestation demo_pool att NewAttCaches);
       c1 = fst (DeleteUnaggregatedAttestation demo_pool att c)
   in UnaggregatedAttestationsBySlotIndex key_order 319 0 c = [att]
     \<and> att \<notin> set (UnaggregatedAttestationsBySlotIndex key_order 319 0 (fst (SaveUnaggregatedAttestation demo_pool (demo_vote [0, 1, 0]) c1)))"
proof -
  let ?a = "demo_vote [1, 0, 0]"
  let ?c = "fst (SaveUnaggregatedAttestation demo_pool ?a NewAttCaches)"
  let ?c1 = "fst (DeleteUnaggregatedAttestation demo_pool ?a ?c)"
  let ?c2 = "fst (SaveUnaggregatedAttestation demo_pool (demo_vote [0, 1, 0]) ?c1)"
  have r: "reach (\<lambda>c. c = NewAttCaches) (pool_or_expiry demo_pool) ?c"
    by (rule reach.move [OF reach.start]) (auto intro: pool_or_expiry.Method pool_step.SaveUnaggregated)
  have d: "DeleteUnaggregatedAttestation demo_pool ?a ?c = (?c1, None)" by code_simp
  have s: "(pool_step demo_pool)\<^sup>*\<^sup>* ?c1 ?c2" by (intro r_into_rtranclp pool_step.SaveUnaggregated)
  have q: "UnaggregatedAttestationsBySlotIndex key_order 319 0 ?c = [?a]" by code_simp
  show ?thesis unfolding Let_def using deleted_never_returned [OF demo_pool_laws r d s] q by blast
qed

lemma made_of_one:
  assumes "att_bits \<beta> t \<noteq> {}"
  shows "made_of pe \<beta> [t] = {t}"
proof -
  have "\<not> aggregate_of pe \<beta> [t] x" for x
  proof
    assume "aggregate_of pe \<beta> [t] x"
    then obtain ts where ts: "2 \<le> length ts" "set ts \<subseteq> {t}"
        "\<forall>i < length ts. \<forall>j < length ts. i \<noteq> j \<longrightarrow> att_bits \<beta> (ts ! i) \<inter> att_bits \<beta> (ts ! j) = {}"
      unfolding aggregate_of_def by (elim exE conjE) (rule that, simp_all)
    then have "ts ! 0 \<in> {t}" "ts ! 1 \<in> {t}" by (meson nth_mem subsetD less_le_trans zero_less_numeral one_less_numeral_iff semiring_norm(76))+
    moreover have "(0 :: nat) < length ts" "(1 :: nat) < length ts" using ts(1) by linarith+
    then have "att_bits \<beta> (ts ! 0) \<inter> att_bits \<beta> (ts ! 1) = {}" using ts(3) by blast
    ultimately show False using assms by simp
  qed
  then show ?thesis by (auto simp: made_of_def)
qed

theorem batch_keeps_votes_witness:
  "\<exists>p' c2. batchForkChoiceAtts demo_pool key_order key_order [] block_pool = Ret (p', c2, None)
    \<and> {0, 1} \<subseteq> forkchoice_bits (\<lambda>x. set (byte_bits x)) c2 (at_Data demo_attestation)"
proof -
  let ?v = "demo_vote [1, 1, 0]"
  have b: "byte_bits [1, 1, 0] = [0, 1]" by code_simp
  have a: "AggregateUnaggregatedAttestations demo_pool key_order key_order block_pool = Ret (block_pool, None)" by code_simp
  have "(case batchForkChoiceAtts demo_pool key_order key_order [] block_pool of Ret (p', c2, e) \<Rightarrow> e = None | _ \<Rightarrow> False)" by code_simp
  then obtain p' c2 where r: "batchForkChoiceAtts demo_pool key_order key_order [] block_pool = Ret (p', c2, None)"
    by (auto split: outcome.splits)
  have l: "AggregatedAttestations key_order block_pool = []" "BlockAttestations key_order block_pool = [?v]" "ForkchoiceAttestations key_order block_pool = []"
    by code_simp+
  have n: "no_collision demo_pool (made_of demo_pool (\<lambda>x. set (byte_bits x)) (AggregatedAttestations key_order block_pool
      @ BlockAttestations key_order block_pool @ ForkchoiceAttestations key_order block_pool))"
    unfolding l by (simp add: made_of_one b demo_vote_def no_collision_def)
  have "att_bits (\<lambda>x. set (byte_bits x)) ?v \<subseteq> saved_bits demo_pool (\<lambda>x. set (byte_bits x)) [] (at_Data ?v) \<union> forkchoice_bits (\<lambda>x. set (byte_bits x)) c2 (at_Data ?v)"
    using batch_keeps_votes [OF demo_pool_laws block_pool_reach key_order key_order a r n] l by auto
  then show ?thesis using r by (auto simp: saved_bits_def demo_vote_def b)
qed

text \<open>
  When the aggregation of single attestations with the same data fails, for example because one of them has a signature that cannot be read,
  \<^verbatim>\<open>AggregateUnaggregatedAttestations\<close> reports no error and removes all of them from the pool without having saved an aggregate: the
  votes of the others are lost, although the method is documented as keeping the attestations that could not be aggregated.
\<close>
theorem failed_aggregation_drops_votes:
  "let env = demo_pool\<lparr>ae_signatureFromBytes := \<lambda>s. if s = [] then (s, None) else ([], Some (Fresh ''could not unmarshal bytes into signature''))\<rparr>;
       good = demo_vote [1, 0, 0]; bad = (demo_vote [0, 1, 0])\<lparr>at_Signature := [7]\<rparr>;
       before = fst (SaveUnaggregatedAttestations env [good, bad] NewAttCaches)
   in UnaggregatedAttestations env key_order before = ([good, bad], None)
     \<and> (case AggregateUnaggregatedAttestations env key_order key_order before of
          Ret (after, None) \<Rightarrow> UnaggregatedAttestations env key_order after = ([], None) \<and> AggregatedAttestations key_order after = []
            \<and> SaveUnaggregatedAttestation env good after = (after, None)
        | _ \<Rightarrow> False)"
  by code_simp

end
