(* ===== verification/AttestationReception.thy ===== *)
theory AttestationReception
  imports ForkQueries ForkSync BlockOperations PoolVotes
begin

text \<open>
  How attestations reach the fork choice: \<^verbatim>\<open>blockchain/process_attestation.go\<close>, \<^verbatim>\<open>process_attestation_helpers.go\<close>,
  \<^verbatim>\<open>receive_attestation.go\<close>, the part of \<^verbatim>\<open>process_block.go\<close> that tells the fork choice of a block, its attestations and slashings, and
  \<^verbatim>\<open>cache/checkpoint_state.go\<close>.

  The service is a record of the fork-choice store, the attestation pool, the cache of checkpoint states and the blocks of the initial sync, of which only
  the slot is read. The database, state generation, slot processing and the head are asked through a record of
  answers. Readings of the clock are an argument, in the order in which the code takes them. Nil fields inside an attestation are
  excluded, a nil attestation is \<open>None\<close>, and a bit list without bytes is nil.
\<close>

subsection \<open>Roots as byte slices\<close>

text \<open>The bytes of an array of 32 bytes as a number, the first byte being the highest.\<close>
definition be_root :: "u8 list \<Rightarrow> root32" where
  "be_root bs = foldl (\<lambda>w b. push_bit 8 w + ucast b) 0 bs"

definition ToBytes32 :: "u8 list \<Rightarrow> root32" where
  "ToBytes32 x = be_root (take 32 (x @ replicate (32 - length x) 0))"

text \<open>The conversion \<^verbatim>\<open>[32]byte(x)\<close> of the language.\<close>
definition array32 :: "u8 list \<Rightarrow> root32 outcome" where
  "array32 x = (if length x < 32 then Panic else Ret (ToBytes32 x))"

text \<open>The slice \<^verbatim>\<open>r[:]\<close>.\<close>
definition root_bytes :: "root32 \<Rightarrow> u8 list" where
  "root_bytes r = map (\<lambda>i. ucast (drop_bit (8 * (31 - i)) r)) [0..<32]"

subsection \<open>The service\<close>

text \<open>Empty roots and no states are the nil values of the fields.\<close>
record nextSlotCache =
  ns_prevRoot :: "u8 list"
  ns_lastRoot :: "u8 list"
  ns_prevState :: "BeaconState option"
  ns_lastState :: "BeaconState option"

record chain_service =
  ch_fork :: Store
  ch_pool :: AttCaches
  ch_states :: "(root32, BeaconState) gomap"
  ch_initSyncBlocks :: "(root32, Slot) gomap"
  ch_nextSlot :: nextSlotCache
  ch_genesis :: go_time

text \<open>What the service asks other parts of the node and other packages.\<close>
record 'b chain_env = "'b pool_env" +
  ce_hash :: "u8 list \<Rightarrow> u8 list"
  ce_caches :: cache_view
  ce_bits :: bitlist
  ce_hashCheckpoint :: "CheckpointPB \<Rightarrow> root32 result"
  ce_lruAdd :: "root32 \<Rightarrow> BeaconState \<Rightarrow> (root32, BeaconState) gomap \<Rightarrow> (root32, BeaconState) gomap"
  ce_HeadSlot :: Slot
  ce_HeadState :: "BeaconState option result"
  ce_ProcessSlots :: "BeaconState \<Rightarrow> Slot \<Rightarrow> BeaconState option result outcome"
  ce_StateByRoot :: "root32 \<Rightarrow> BeaconState option result"
  ce_HasStateSummary :: "root32 \<Rightarrow> bool"
  ce_dbHasBlock :: "root32 \<Rightarrow> bool"
  ce_dbBlock :: "root32 \<Rightarrow> Slot option result"

definition ErrNotCheckpoint :: go_error where "ErrNotCheckpoint = Sentinel ''not a checkpoint in forkchoice''"
definition errBlockNotFoundInCacheOrDB :: go_error where "errBlockNotFoundInCacheOrDB = Sentinel ''block not found in cache or db''"

definition StateByCheckpoint :: "('b, 'z) chain_env_scheme \<Rightarrow> CheckpointPB \<Rightarrow> (root32, BeaconState) gomap \<Rightarrow> BeaconState option result" where
  "StateByCheckpoint ce cp cache = (case ce_hashCheckpoint ce cp of
     (_, Some err) \<Rightarrow> (None, Some err)
   | (h, None) \<Rightarrow> (gm_get cache h, None))"

definition AddCheckpointState ::
  "('b, 'z) chain_env_scheme \<Rightarrow> CheckpointPB \<Rightarrow> BeaconState \<Rightarrow> (root32, BeaconState) gomap \<Rightarrow> (root32, BeaconState) gomap \<times> go_error option" where
  "AddCheckpointState ce cp st cache = (case ce_hashCheckpoint ce cp of
     (_, Some err) \<Rightarrow> (cache, Some err)
   | (h, None) \<Rightarrow> (ce_lruAdd ce h st cache, None))"

text \<open>The state saved under a root when it is not past the wanted slot; a root without a state is a nil pointer.\<close>
definition saved_state :: "u8 list \<Rightarrow> Slot \<Rightarrow> u8 list \<Rightarrow> BeaconState option \<Rightarrow> BeaconState option outcome" where
  "saved_state root wantedSlot r st =
    (if root \<noteq> r then Ret None
     else case st of None \<Rightarrow> Panic | Some st \<Rightarrow> Ret (if bs_slot st \<le> wantedSlot then Some st else None))"

definition NextSlotState :: "u8 list \<Rightarrow> Slot \<Rightarrow> nextSlotCache \<Rightarrow> BeaconState option outcome" where
  "NextSlotState root wantedSlot nsc = obind (saved_state root wantedSlot (ns_lastRoot nsc) (ns_lastState nsc)) (\<lambda>st. case st of
     Some st \<Rightarrow> Ret (Some st)
   | None \<Rightarrow> saved_state root wantedSlot (ns_prevRoot nsc) (ns_prevState nsc))"

definition UpdateNextSlotCache ::
  "('b, 'z) chain_env_scheme \<Rightarrow> u8 list \<Rightarrow> BeaconState \<Rightarrow> nextSlotCache \<Rightarrow> (nextSlotCache \<times> go_error option) outcome" where
  "UpdateNextSlotCache ce root st nsc = obind (ce_ProcessSlots ce st (bs_slot st + 1)) (\<lambda>r. case r of
     (_, Some err) \<Rightarrow> Ret (nsc, Some (Wrap ''could not process slots'' err))
   | (copied, None) \<Rightarrow> Ret (\<lparr>ns_prevRoot = ns_lastRoot nsc, ns_lastRoot = root, ns_prevState = ns_lastState nsc, ns_lastState = copied\<rparr>, None))"

definition LastCachedState :: "nextSlotCache \<Rightarrow> u8 list \<times> BeaconState option" where
  "LastCachedState nsc = (case ns_lastState nsc of None \<Rightarrow> ([], None) | Some st \<Rightarrow> (ns_lastRoot nsc, Some st))"

definition ProcessSlotsIfPossible :: "('b, 'z) chain_env_scheme \<Rightarrow> BeaconState \<Rightarrow> Slot \<Rightarrow> BeaconState option result outcome" where
  "ProcessSlotsIfPossible ce st targetSlot = (if targetSlot > bs_slot st then ce_ProcessSlots ce st targetSlot else Ret (Some st, None))"

definition ProcessSlotsUsingNextSlotCache ::
  "('b, 'z) chain_env_scheme \<Rightarrow> BeaconState \<Rightarrow> u8 list \<Rightarrow> Slot \<Rightarrow> nextSlotCache \<Rightarrow> BeaconState option result outcome" where
  "ProcessSlotsUsingNextSlotCache ce parentState parentRoot slot nsc = obind (NextSlotState parentRoot slot nsc) (\<lambda>nextSlotState.
     let parentState = (case nextSlotState of None \<Rightarrow> parentState | Some st \<Rightarrow> st)
     in if bs_slot parentState = slot then Ret (Some parentState, None)
        else obind (ce_ProcessSlots ce parentState slot) (\<lambda>r. case r of
          (_, Some err) \<Rightarrow> Ret (None, Some (Wrap ''could not process slots'' err))
        | (st, None) \<Rightarrow> Ret (st, None)))"

definition hasBlock :: "('b, 'z) chain_env_scheme \<Rightarrow> root32 \<Rightarrow> chain_service \<Rightarrow> bool" where
  "hasBlock ce root s \<longleftrightarrow> HasNode root (ch_fork s) \<or> ce_dbHasBlock ce root"

text \<open>A block is represented by its slot.\<close>
definition getBlock :: "('b, 'z) chain_env_scheme \<Rightarrow> root32 \<Rightarrow> chain_service \<Rightarrow> Slot result" where
  "getBlock ce r s = (case gm_get (ch_initSyncBlocks s) r of
     Some b \<Rightarrow> (b, None)
   | None \<Rightarrow> (case ce_dbBlock ce r of
       (_, Some err) \<Rightarrow> (0, Some (Wrap ''could not retrieve block from db'' err))
     | (None, None) \<Rightarrow> (0, Some errBlockNotFoundInCacheOrDB)
     | (Some b, None) \<Rightarrow> (b, None)))"

subsection \<open>The target state of an attestation\<close>

text \<open>Whether the head state can be used: the target is the epoch of the head, and its block is canonical and not older than the epoch before.\<close>
definition head_serves :: "('b, 'z) chain_env_scheme \<Rightarrow> CheckpointPB \<Rightarrow> chain_service \<Rightarrow> bool outcome" where
  "head_serves ce c s = obind (ToEpoch (ce_HeadSlot ce)) (\<lambda>headEpoch.
     if c_Epoch c \<noteq> headEpoch then Ret False
     else obind (array32 (c_Root c)) (\<lambda>root. case Slot_of root (ch_fork s) of
       (_, Some err) \<Rightarrow> Ret False
     | (targetSlot, None) \<Rightarrow> obind (ToEpoch targetSlot) (\<lambda>targetEpoch.
         if targetEpoch + 1 \<ge> headEpoch then IsCanonical root (ch_fork s) else Ret False)))"

text \<open>Saves a state under a checkpoint and returns it.\<close>
definition save_and_return ::
  "('b, 'z) chain_env_scheme \<Rightarrow> CheckpointPB \<Rightarrow> BeaconState \<Rightarrow> chain_service \<Rightarrow> chain_service \<times> BeaconState option result" where
  "save_and_return ce c st s = (case AddCheckpointState ce c st (ch_states s) of
     (cache, Some err) \<Rightarrow> (s\<lparr>ch_states := cache\<rparr>, None, Some (Wrap ''could not save checkpoint state to cache'' err))
   | (cache, None) \<Rightarrow> (s\<lparr>ch_states := cache\<rparr>, Some st, None))"

text \<open>The last resort: the state of the block, advanced to the start of the epoch. A nil state without an error is cached by the code and panics when used.\<close>
definition regenerate_state ::
  "('b, 'z) chain_env_scheme \<Rightarrow> CheckpointPB \<Rightarrow> chain_service \<Rightarrow> (chain_service \<times> BeaconState option result) outcome" where
  "regenerate_state ce c s = obind (array32 (c_Root c)) (\<lambda>root.
     obind (IsViableForCheckpoint \<lparr>cpEpoch = c_Epoch c, cpRoot = root\<rparr> (ch_fork s)) (\<lambda>v. case v of
       (_, Some err) \<Rightarrow> Ret (s, None, Some (Wrap ''could not check checkpoint condition in forkchoice'' err))
     | (False, None) \<Rightarrow> Ret (s, None, Some (Wrap ''epoch and root'' ErrNotCheckpoint))
     | (True, None) \<Rightarrow> (case ce_StateByRoot ce (ToBytes32 (c_Root c)) of
         (_, Some err) \<Rightarrow> Ret (s, None, Some (Wrap ''could not get pre state for epoch'' err))
       | (None, None) \<Rightarrow> (case EpochStart (c_Epoch c) of (_, Some err) \<Rightarrow> Ret (s, None, Some err) | (_, None) \<Rightarrow> Panic)
       | (Some baseState, None) \<Rightarrow> (case EpochStart (c_Epoch c) of
           (_, Some err) \<Rightarrow> Ret (s, None, Some err)
         | (epochStartSlot, None) \<Rightarrow> obind (ProcessSlotsIfPossible ce baseState epochStartSlot) (\<lambda>r. case r of
             (_, Some err) \<Rightarrow> Ret (s, None, Some (Wrap ''could not process slots up to epoch'' err))
           | (None, None) \<Rightarrow> Panic
           | (Some baseState, None) \<Rightarrow> Ret (save_and_return ce c baseState s))))))"

definition getAttPreState ::
  "('b, 'z) chain_env_scheme \<Rightarrow> CheckpointPB \<Rightarrow> chain_service \<Rightarrow> (chain_service \<times> BeaconState option result) outcome" where
  "getAttPreState ce c s = obind (head_serves ce c s) (\<lambda>serves.
     if serves then Ret (s, ce_HeadState ce)
     else case StateByCheckpoint ce c (ch_states s) of
       (_, Some err) \<Rightarrow> Ret (s, None, Some (Wrap ''could not get cached checkpoint state'' err))
     | (Some cachedState, None) \<Rightarrow> Ret (s, Some cachedState, None)
     | (None, None) \<Rightarrow> (case EpochStart (c_Epoch c) of
         (_, Some err) \<Rightarrow> Ret (s, None, Some (Wrap ''could not compute epoch start'' err))
       | (slot, None) \<Rightarrow> obind (NextSlotState (c_Root c) slot (ch_nextSlot s)) (\<lambda>next. case next of
           None \<Rightarrow> regenerate_state ce c s
         | Some cachedState \<Rightarrow>
             obind (if bs_slot cachedState \<noteq> slot then ce_ProcessSlots ce cachedState slot else Ret (Some cachedState, None)) (\<lambda>r. case r of
               (_, Some err) \<Rightarrow> Ret (s, None, Some (Wrap ''could not process slots'' err))
             | (None, None) \<Rightarrow> Panic
             | (Some cachedState, None) \<Rightarrow> Ret (save_and_return ce c cachedState s)))))"

definition AttestationTargetState ::
  "('b, 'z) chain_env_scheme \<Rightarrow> go_time \<Rightarrow> CheckpointPB \<Rightarrow> chain_service \<Rightarrow> (chain_service \<times> BeaconState option result) outcome" where
  "AttestationTargetState ce now target s = (case EpochStart (c_Epoch target) of
     (_, Some err) \<Rightarrow> Ret (s, None, Some err)
   | (ss, None) \<Rightarrow> obind (ValidateClock (unix_of now) ss (unix_of (ch_genesis s))) (\<lambda>e. case e of
       Some err \<Rightarrow> Ret (s, None, Some err)
     | None \<Rightarrow> getAttPreState ce target s))"

definition VerifyLmdFfgConsistency :: "Attestation \<Rightarrow> chain_service \<Rightarrow> go_error option outcome" where
  "VerifyLmdFfgConsistency a s =
    obind (array32 (ad_BeaconBlockRoot (at_Data a))) (\<lambda>root.
    obind (TargetRootForEpoch root (c_Epoch (ad_Target (at_Data a))) (ch_fork s)) (\<lambda>x. Ret (case x of
      (_, Some err) \<Rightarrow> Some err
    | (r, None) \<Rightarrow> if c_Root (ad_Target (at_Data a)) \<noteq> root_bytes r then Some (Fresh ''FFG and LMD votes are not consistent'') else None)))"

subsection \<open>Receiving an attestation\<close>

definition ValidateNilAttestation :: "Attestation option \<Rightarrow> go_error option" where
  "ValidateNilAttestation att = (case att of
     None \<Rightarrow> Some (Fresh ''attestation can't be nil'')
   | Some a \<Rightarrow> if at_AggregationBits a = [] then Some (Fresh ''attestation's bitfield can't be nil'') else None)"

text \<open>The current and the previous epoch, counted from a time in seconds; the difference wraps for times before the genesis.\<close>
definition recent_epochs :: "u64 \<Rightarrow> u64 \<Rightarrow> (Epoch \<times> Epoch) outcome" where
  "recent_epochs genesis nowTime = obind (ToEpoch ((nowTime - genesis) div SecondsPerSlot)) (\<lambda>currentEpoch.
     Ret (currentEpoch, if currentEpoch > 1 then currentEpoch - 1 else 0))"

definition verifyAttTargetEpoch :: "u64 \<Rightarrow> u64 \<Rightarrow> CheckpointPB \<Rightarrow> go_error option outcome" where
  "verifyAttTargetEpoch genesis nowTime c = obind (recent_epochs genesis nowTime) (\<lambda>(currentEpoch, prevEpoch).
     Ret (if c_Epoch c \<noteq> prevEpoch \<and> c_Epoch c \<noteq> currentEpoch then Some (Fresh ''target epoch does not match current epoch or prev epoch'') else None))"

definition VerifyCheckpointEpoch :: "go_time \<Rightarrow> CheckpointPB \<Rightarrow> go_time \<Rightarrow> bool outcome" where
  "VerifyCheckpointEpoch now c genesis = obind (recent_epochs (unix_of genesis) (unix_of now)) (\<lambda>(currentEpoch, prevEpoch).
     Ret (\<not> (c_Epoch c \<noteq> prevEpoch \<and> c_Epoch c \<noteq> currentEpoch)))"

definition verifyBeaconBlock :: "('b, 'z) chain_env_scheme \<Rightarrow> AttestationData \<Rightarrow> chain_service \<Rightarrow> go_error option" where
  "verifyBeaconBlock ce data s = (case getBlock ce (ToBytes32 (ad_BeaconBlockRoot data)) s of
     (_, Some err) \<Rightarrow> Some err
   | (slot, None) \<Rightarrow> if slot > ad_Slot data then Some (Fresh ''could not process attestation for future block'') else None)"

text \<open>The validators that an attestation names by its bits, under a state.\<close>
definition attesting :: "('b, 'z) chain_env_scheme \<Rightarrow> BeaconState \<Rightarrow> Attestation \<Rightarrow> u64 list result outcome" where
  "attesting ce st a = obind (BeaconCommitteeFromState (ce_hash ce) (ce_caches ce) st (ad_Slot (at_Data a)) (ad_CommitteeIndex (at_Data a))) (\<lambda>r.
     case r of (_, Some err) \<Rightarrow> Ret ([], Some err)
     | (committee, None) \<Rightarrow> Ret (AttestingIndices (ce_bits ce) (at_AggregationBits a) committee))"

text \<open>The part of \<^verbatim>\<open>OnAttestation\<close> that uses the target state.\<close>
definition count_votes :: "('b, 'z) chain_env_scheme \<Rightarrow> Attestation \<Rightarrow> BeaconState \<Rightarrow> chain_service \<Rightarrow> (chain_service \<times> go_error option) outcome" where
  "count_votes ce a baseState s =
    obind (BeaconCommitteeFromState (ce_hash ce) (ce_caches ce) baseState (ad_Slot (at_Data a)) (ad_CommitteeIndex (at_Data a))) (\<lambda>r. case r of
      (_, Some err) \<Rightarrow> Ret (s, Some err)
    | (committee, None) \<Rightarrow> (case ConvertToIndexed (ce_bits ce) a committee of
        (_, Some err) \<Rightarrow> Ret (s, Some err)
      | (None, None) \<Rightarrow> Panic
      | (Some indexedAtt, None) \<Rightarrow> (case IsValidAttestationIndices indexedAtt of
          Some err \<Rightarrow> Ret (s, Some err)
        | None \<Rightarrow> Ret (s\<lparr>ch_fork := ProcessAttestation (ia_AttestingIndices indexedAtt) (ToBytes32 (ad_BeaconBlockRoot (at_Data a)))
                                       (ad_Slot (at_Data a)) (ch_fork s)\<rparr>, None))))"

definition receive_body ::
  "('b, 'z) chain_env_scheme \<Rightarrow> (nat \<Rightarrow> go_time) \<Rightarrow> duration \<Rightarrow> Attestation \<Rightarrow> chain_service \<Rightarrow> (chain_service \<times> go_error option) outcome" where
  "receive_body ce clk disparity a s =
    (let tgt = ad_Target (at_Data a); genesis = unix_of (ch_genesis s)
     in case ValidateSlotTargetEpoch (at_Data a) of
          Some err \<Rightarrow> Ret (s, Some err)
        | None \<Rightarrow> obind (getAttPreState ce tgt s) (\<lambda>r. case r of
            (s, _, Some err) \<Rightarrow> Ret (s, Some err)
          | (s, baseState, None) \<Rightarrow> obind (verifyAttTargetEpoch genesis (unix_of (clk 0 + sint disparity)) tgt) (\<lambda>e. case e of
              Some err \<Rightarrow> Ret (s, Some err)
            | None \<Rightarrow> (case verifyBeaconBlock ce (at_Data a) s of
                Some err \<Rightarrow> Ret (s, Some (Wrap ''could not verify attestation beacon block'' err))
              | None \<Rightarrow> obind (VerifyTime (unix_of (clk 1)) (clk 2) genesis (ad_Slot (at_Data a) + 1) disparity) (\<lambda>e. case e of
                  Some err \<Rightarrow> Ret (s, Some err)
                | None \<Rightarrow> (case baseState of None \<Rightarrow> Panic | Some baseState \<Rightarrow> count_votes ce a baseState s))))))"

text \<open>
  The deferred function writes the slot of the attestation to a file; when the file can be opened (\<open>opened\<close>), it reads the field of a nil attestation.
\<close>
definition OnAttestation ::
  "('b, 'z) chain_env_scheme \<Rightarrow> bool \<Rightarrow> (nat \<Rightarrow> go_time) \<Rightarrow> duration \<Rightarrow> Attestation option \<Rightarrow> chain_service
    \<Rightarrow> (chain_service \<times> go_error option) outcome" where
  "OnAttestation ce opened clk disparity att s =
    obind (case ValidateNilAttestation att of Some err \<Rightarrow> Ret (s, Some err) | None \<Rightarrow> receive_body ce clk disparity (the att) s)
      (\<lambda>r. if opened \<and> att = None then Panic else Ret r)"

definition receiveAttestationNoPubsub ::
  "('b, 'z) chain_env_scheme \<Rightarrow> bool \<Rightarrow> (nat \<Rightarrow> go_time) \<Rightarrow> duration \<Rightarrow> Attestation option \<Rightarrow> chain_service
    \<Rightarrow> (chain_service \<times> go_error option) outcome" where
  "receiveAttestationNoPubsub ce opened clk disparity att s = obind (OnAttestation ce opened clk disparity att s) (\<lambda>r. case r of
     (s, Some err) \<Rightarrow> Ret (s, Some (Wrap ''could not process attestation'' err))
   | (s, None) \<Rightarrow> Ret (s, None))"

subsection \<open>The attestations of the pool\<close>

text \<open>
  One turn of the loop of \<^verbatim>\<open>processAttestations\<close>, with its readings of the clock. Errors are logged; the attestation is deleted from the pool before it is processed.
\<close>
definition process_one ::
  "('b, 'z) chain_env_scheme \<Rightarrow> bool \<Rightarrow> (nat \<Rightarrow> go_time) \<Rightarrow> duration \<Rightarrow> Attestation \<Rightarrow> chain_service \<Rightarrow> chain_service outcome" where
  "process_one ce opened clk disparity a s =
    obind (VerifyTime (unix_of (clk 0)) (clk 1) (unix_of (ch_genesis s)) (ad_Slot (at_Data a) + 1) disparity) (\<lambda>e.
      let root = ToBytes32 (ad_BeaconBlockRoot (at_Data a))
      in if e \<noteq> None \<or> \<not> (ce_HasStateSummary ce root \<and> hasBlock ce root s) then Ret s
         else
           let s = s\<lparr>ch_pool := fst (DeleteForkchoiceAttestation ce a (ch_pool s))\<rparr>
           in obind (VerifyCheckpointEpoch (clk 2) (ad_Target (at_Data a)) (ch_genesis s)) (\<lambda>ok.
                if \<not> ok then Ret s
                else obind (receiveAttestationNoPubsub ce opened (\<lambda>i. clk (3 + i)) disparity (Some a) s) (\<lambda>(s, _). Ret s)))"

fun process_loop ::
  "('b, 'z) chain_env_scheme \<Rightarrow> bool \<Rightarrow> (nat \<Rightarrow> nat \<Rightarrow> go_time) \<Rightarrow> duration \<Rightarrow> Attestation list \<Rightarrow> chain_service \<Rightarrow> chain_service outcome" where
  "process_loop ce opened clk disparity [] s = Ret s"
| "process_loop ce opened clk disparity (a # atts) s = obind (process_one ce opened (clk 0) disparity a s)
     (process_loop ce opened (\<lambda>i. clk (Suc i)) disparity atts)"

definition processAttestations ::
  "('b, 'z) chain_env_scheme \<Rightarrow> one_order \<Rightarrow> bool \<Rightarrow> (nat \<Rightarrow> nat \<Rightarrow> go_time) \<Rightarrow> duration \<Rightarrow> chain_service \<Rightarrow> chain_service outcome" where
  "processAttestations ce ord opened clk disparity s =
     process_loop ce opened clk disparity (ForkchoiceAttestations ord (ch_pool s)) s"

text \<open>\<^verbatim>\<open>UpdateHead\<close> up to the choice of the head; then the execution engine is told.\<close>
definition UpdateHead ::
  "('b, 'z) chain_env_scheme \<Rightarrow> one_order \<Rightarrow> map_iter \<Rightarrow> ctxt \<Rightarrow> bool \<Rightarrow> (nat \<Rightarrow> nat \<Rightarrow> go_time) \<Rightarrow> go_time \<Rightarrow> u64 \<Rightarrow> duration \<Rightarrow> chain_service
    \<Rightarrow> (chain_service \<times> root32 result) outcome" where
  "UpdateHead ce ord iter ctx opened clk now elapsed disparity s =
    obind (processAttestations ce ord opened clk disparity s) (\<lambda>s.
    obind (Head iter ctx now elapsed (ch_fork s)) (\<lambda>(f, r). Ret (s\<lparr>ch_fork := f\<rparr>, r)))"

subsection \<open>Receiving a block\<close>

fun handleBlockAttestations ::
  "('b, 'z) chain_env_scheme \<Rightarrow> Attestation list \<Rightarrow> BeaconState \<Rightarrow> chain_service \<Rightarrow> (chain_service \<times> go_error option) outcome" where
  "handleBlockAttestations ce [] st s = Ret (s, None)"
| "handleBlockAttestations ce (a # atts) st s =
    obind (BeaconCommitteeFromState (ce_hash ce) (ce_caches ce) st (ad_Slot (at_Data a)) (ad_CommitteeIndex (at_Data a))) (\<lambda>r. case r of
      (_, Some err) \<Rightarrow> Ret (s, Some err)
    | (committee, None) \<Rightarrow> (case AttestingIndices (ce_bits ce) (at_AggregationBits a) committee of
        (_, Some err) \<Rightarrow> Ret (s, Some err)
      | (indices, None) \<Rightarrow>
          let r = ToBytes32 (ad_BeaconBlockRoot (at_Data a))
          in if HasNode r (ch_fork s)
             then handleBlockAttestations ce atts st (s\<lparr>ch_fork := ProcessAttestation indices r (ad_Slot (at_Data a)) (ch_fork s)\<rparr>)
             else (case SaveBlockAttestation ce a (ch_pool s) of
                 (pool, Some err) \<Rightarrow> Ret (s\<lparr>ch_pool := pool\<rparr>, Some err)
               | (pool, None) \<Rightarrow> handleBlockAttestations ce atts st (s\<lparr>ch_pool := pool\<rparr>))))"

definition InsertSlashingsToForkChoiceStore :: "AttesterSlashing list \<Rightarrow> Store \<Rightarrow> Store" where
  "InsertSlashingsToForkChoiceStore slashings f =
     fold (\<lambda>slashing. fold InsertSlashedIndex (SlashableAttesterIndices slashing)) slashings f"

text \<open>
  \<^verbatim>\<open>postBlockProcess\<close> up to the comparison of the head with the block, which is the answer; then the execution engine is told. The fork choice
  sees the post state through \<open>sv\<close>, the committees are computed from \<open>st\<close>.
\<close>
definition postBlockProcess ::
  "('b, 'z) chain_env_scheme \<Rightarrow> map_iter \<Rightarrow> ctxt \<Rightarrow> (nat \<Rightarrow> u64) \<Rightarrow> go_time \<Rightarrow> u64 \<Rightarrow> root32 \<Rightarrow> Attestation list \<Rightarrow> AttesterSlashing list
    \<Rightarrow> StateView \<Rightarrow> BeaconState \<Rightarrow> bool \<Rightarrow> chain_service \<Rightarrow> (chain_service \<times> bool result) outcome" where
  "postBlockProcess ce iter ctx clk now elapsed blockRoot atts slashings sv st isValidPayload s =
    obind (InsertNode iter ctx clk sv blockRoot (ch_fork s)) (\<lambda>r. case r of
      (f, Some err) \<Rightarrow> Ret (s\<lparr>ch_fork := f\<rparr>, False, Some (Wrap ''could not insert block to fork choice store'' err))
    | (f, None) \<Rightarrow> obind (handleBlockAttestations ce atts st (s\<lparr>ch_fork := f\<rparr>)) (\<lambda>r. case r of
        (s, Some err) \<Rightarrow> Ret (s, False, Some (Wrap ''could not handle block's attestations'' err))
      | (s, None) \<Rightarrow>
          let f = InsertSlashingsToForkChoiceStore slashings (ch_fork s)
          in obind (if isValidPayload then SetOptimisticToValid ctx blockRoot f else Ret (f, None)) (\<lambda>r. case r of
               (f, Some err) \<Rightarrow> Ret (s\<lparr>ch_fork := f\<rparr>, False, Some (Wrap ''could not set optimistic block to valid'' err))
             | (f, None) \<Rightarrow> obind (Head iter ctx now elapsed f) (\<lambda>(f, headRoot, _). Ret (s\<lparr>ch_fork := f\<rparr>, headRoot = blockRoot, None)))))"

end
