(* ===== verification/ChainVotes.thy ===== *)
theory ChainVotes
  imports AttestationReception
begin

text \<open>
  What reaches the fork choice: what an accepted attestation does, where recorded votes come from, what decides the stability of a received block, and what
  happens to the attestations of the pool.
\<close>

subsection \<open>An accepted attestation\<close>

text \<open>Only the cache of checkpoint states may differ.\<close>
definition same_chain :: "chain_service \<Rightarrow> chain_service \<Rightarrow> bool" where
  "same_chain s s' \<longleftrightarrow> s' = s\<lparr>ch_states := ch_states s'\<rparr>"

lemma same_chain_refl [simp]: "same_chain s s"
  by (simp add: same_chain_def)

lemma same_chain_fields:
  assumes "same_chain s s'"
  shows "ch_fork s' = ch_fork s" "ch_pool s' = ch_pool s" "ch_initSyncBlocks s' = ch_initSyncBlocks s" "ch_genesis s' = ch_genesis s"
  by (subst assms [unfolded same_chain_def], simp)+

lemma save_and_return_keeps [simp]: "same_chain s (fst (save_and_return ce c st s))"
  by (auto simp: save_and_return_def same_chain_def split: prod.splits option.splits)

lemma regenerate_state_keeps [simp]: "yields (\<lambda>r. same_chain s (fst r)) (regenerate_state ce c s)"
  unfolding regenerate_state_def by (auto split: prod.splits option.splits bool.splits)

lemma getAttPreState_yields: "yields (\<lambda>r. same_chain s (fst r)) (getAttPreState ce c s)"
  unfolding getAttPreState_def by (auto split: prod.splits option.splits)

lemma getAttPreState_keeps: "getAttPreState ce c s = Ret (s', x) \<Longrightarrow> same_chain s s'"
  using yieldsD [OF getAttPreState_yields] by fastforce

lemma count_votes_cases:
  assumes "count_votes ce a st s = Ret (s', e)"
  obtains (failed) err where "e = Some err" "s' = s"
  | (counted) committee ix where "e = None"
      "BeaconCommitteeFromState (ce_hash ce) (ce_caches ce) st (ad_Slot (at_Data a)) (ad_CommitteeIndex (at_Data a)) = Ret (committee, None)"
      "AttestingIndices (ce_bits ce) (at_AggregationBits a) committee = (ix, None)" "ix \<noteq> []" "distinct ix"
      "s' = s\<lparr>ch_fork := ProcessAttestation (sort ix) (ToBytes32 (ad_BeaconBlockRoot (at_Data a))) (ad_Slot (at_Data a)) (ch_fork s)\<rparr>"
proof -
  obtain committee ce' where c: "BeaconCommitteeFromState (ce_hash ce) (ce_caches ce) st (ad_Slot (at_Data a)) (ad_CommitteeIndex (at_Data a)) = Ret (committee, ce')"
    using assms by (auto simp: count_votes_def obind_Ret_iff)
  obtain ix ie where i: "AttestingIndices (ce_bits ce) (at_AggregationBits a) committee = (ix, ie)" by fastforce
  have d: "distinct ix" if "sorted_wrt (<) (sort ix)"
    using that strict_sorted_iff [of "sort ix"] by simp
  show ?thesis
  proof (cases "e = None")
    case True
    have ce': "ce' = None" using assms True c by (auto simp: count_votes_def split: option.splits)
    have ie: "ie = None" using assms True c ce' i by (auto simp: count_votes_def ConvertToIndexed_def split: option.splits)
    have v: "IsValidAttestationIndices \<lparr>ia_AttestingIndices = sort ix, ia_Data = at_Data a, ia_Signature = at_Signature a\<rparr> = None"
      "s' = s\<lparr>ch_fork := ProcessAttestation (sort ix) (ToBytes32 (ad_BeaconBlockRoot (at_Data a))) (ad_Slot (at_Data a)) (ch_fork s)\<rparr>"
      using assms True c ce' i ie by (auto simp: count_votes_def ConvertToIndexed_def split: option.splits)
    have "ix \<noteq> []" "distinct ix"
      using v(1) d by (auto simp: IsValidAttestationIndices_def Let_def unique_sorted_loop_iff split: if_splits)
    then show ?thesis using counted True c i v(2) ce' ie by blast
  next
    case False
    then show ?thesis using assms failed c i by (auto simp: count_votes_def ConvertToIndexed_def split: option.splits)
  qed
qed

text \<open>The checks an attestation passes before its votes are counted.\<close>
definition checks_passed :: "('b, 'z) chain_env_scheme \<Rightarrow> (nat \<Rightarrow> go_time) \<Rightarrow> duration \<Rightarrow> Attestation \<Rightarrow> chain_service \<Rightarrow> bool" where
  "checks_passed ce clk disparity a s \<longleftrightarrow>
    ValidateSlotTargetEpoch (at_Data a) = None
    \<and> verifyAttTargetEpoch (unix_of (ch_genesis s)) (unix_of (clk 0 + sint disparity)) (ad_Target (at_Data a)) = Ret None
    \<and> verifyBeaconBlock ce (at_Data a) s = None
    \<and> VerifyTime (unix_of (clk 1)) (clk 2) (unix_of (ch_genesis s)) (ad_Slot (at_Data a) + 1) disparity = Ret None"

lemma receive_body_yields:
  "yields (\<lambda>(s', e). (\<exists>err. e = Some err) \<and> same_chain s s'
     \<or> (\<exists>s1 st. getAttPreState ce (ad_Target (at_Data a)) s = Ret (s1, Some st, None) \<and> checks_passed ce clk disparity a s1
          \<and> count_votes ce a st s1 = Ret (s', e)))
    (receive_body ce clk disparity a s)"
proof (cases "getAttPreState ce (ad_Target (at_Data a)) s")
  case (Ret r)
  obtain s1 x where r: "r = (s1, x)" by (cases r)
  have "same_chain s s1" using getAttPreState_keeps Ret r by blast
  then show ?thesis
    unfolding receive_body_def Let_def Ret r using same_chain_fields(4) [of s s1]
    by (auto split: prod.splits option.splits simp: yields_def checks_passed_def obind_Ret_iff)
qed (auto simp: receive_body_def Let_def split: option.splits)

lemma verifyBeaconBlock_same: "same_chain s s' \<Longrightarrow> verifyBeaconBlock ce data s' = verifyBeaconBlock ce data s"
  by (simp add: verifyBeaconBlock_def getBlock_def same_chain_fields)

lemma checks_passed_same: "same_chain s s' \<Longrightarrow> checks_passed ce clk disparity a s' = checks_passed ce clk disparity a s"
  by (simp add: checks_passed_def verifyBeaconBlock_same same_chain_fields)

text \<open>The votes of an attestation under a state: itself with each of the validators it names.\<close>
definition named :: "('b, 'z) chain_env_scheme \<Rightarrow> BeaconState \<Rightarrow> Attestation \<Rightarrow> (Attestation \<times> u64) set" where
  "named ce st a = (case attesting ce st a of Ret (ix, None) \<Rightarrow> {a} \<times> set ix | _ \<Rightarrow> {})"

text \<open>The votes of an attestation under its target state.\<close>
definition target_votes :: "('b, 'z) chain_env_scheme \<Rightarrow> Attestation \<Rightarrow> chain_service \<Rightarrow> (Attestation \<times> u64) set" where
  "target_votes ce a s = (case getAttPreState ce (ad_Target (at_Data a)) s of Ret (_, Some st, None) \<Rightarrow> named ce st a | _ \<Rightarrow> {})"

abbreviation att_root :: "Attestation \<Rightarrow> root32" where
  "att_root a \<equiv> ToBytes32 (ad_BeaconBlockRoot (at_Data a))"

lemma OnAttestation_cases:
  assumes "OnAttestation ce opened clk disparity att s = Ret (s', e)"
  obtains (failed) err where "e = Some err" "same_chain s s'"
  | (counted) a s1 st committee ix where "e = None" "att = Some a" "at_AggregationBits a \<noteq> []" "same_chain s s1" "checks_passed ce clk disparity a s"
      "getAttPreState ce (ad_Target (at_Data a)) s = Ret (s1, Some st, None)"
      "BeaconCommitteeFromState (ce_hash ce) (ce_caches ce) st (ad_Slot (at_Data a)) (ad_CommitteeIndex (at_Data a)) = Ret (committee, None)"
      "AttestingIndices (ce_bits ce) (at_AggregationBits a) committee = (ix, None)" "ix \<noteq> []" "distinct ix"
      "s' = s1\<lparr>ch_fork := ProcessAttestation (sort ix) (att_root a) (ad_Slot (at_Data a)) (ch_fork s)\<rparr>"
proof (cases "ValidateNilAttestation att")
  case None
  then obtain a where a: "att = Some a" "at_AggregationBits a \<noteq> []" by (auto simp: ValidateNilAttestation_def split: option.splits if_splits)
  have "receive_body ce clk disparity a s = Ret (s', e)" using assms a None by (auto simp: OnAttestation_def obind_Ret_iff split: if_splits)
  from yieldsD [OF receive_body_yields this] consider err where "e = Some err" "same_chain s s'"
    | s1 st where "getAttPreState ce (ad_Target (at_Data a)) s = Ret (s1, Some st, None)" "checks_passed ce clk disparity a s1" "count_votes ce a st s1 = Ret (s', e)"
    by auto
  then show ?thesis
  proof cases
    case 1
    then show ?thesis using failed by blast
  next
    case (2 s1 st)
    note k = getAttPreState_keeps [OF 2(1)]
    from 2(3) show ?thesis
    proof (cases rule: count_votes_cases)
      case (failed err)
      then show ?thesis using that(1) k by blast
    next
      case (counted committee ix)
      moreover have "checks_passed ce clk disparity a s" using 2(2) checks_passed_same [OF k] by blast
      ultimately show ?thesis using that(2) [of a s1 st committee ix] a k 2(1) same_chain_fields(1) [OF k] by simp
    qed
  qed
next
  case (Some err)
  then have "e = Some err" "s' = s" using assms by (auto simp: OnAttestation_def split: if_splits)
  then show ?thesis using failed by simp
qed

subsection \<open>Where votes come from\<close>

text \<open>The calls of the fork choice by the service that do not record votes.\<close>
inductive quiet_step :: "Store \<Rightarrow> Store \<Rightarrow> bool" where
  quiet_head: "iter_ok iter \<Longrightarrow> Head iter ctx now elapsed s = Ret (t, r) \<Longrightarrow> quiet_step s t"
| quiet_insert: "iter_ok iter \<Longrightarrow> InsertNode iter ctx clk st root s = Ret (t, e) \<Longrightarrow> quiet_step s t"
| quiet_chain: "iter_ok iter \<Longrightarrow> InsertChain iter ctx ck bs s = Ret (t, e) \<Longrightarrow> quiet_step s t"
| quiet_valid: "SetOptimisticToValid ctx root s = Ret (t, e) \<Longrightarrow> quiet_step s t"
| quiet_invalid: "SetOptimisticToInvalid ctx root pr lvh s = Ret (t, x) \<Longrightarrow> quiet_step s t"
| quiet_justified: "UpdateJustifiedCheckpoint c s = (t, e) \<Longrightarrow> quiet_step s t"
| quiet_finalized: "UpdateFinalizedCheckpoint c s = (t, e) \<Longrightarrow> quiet_step s t"
| quiet_slot: "NewSlot ctx sl s = Ret (t, e) \<Longrightarrow> quiet_step s t"
| quiet_genesis: "quiet_step s (SetGenesisTime g s)"
| quiet_origin: "quiet_step s (SetOriginRoot root s)"

lemma quiet_fc_step: "quiet_step s t \<Longrightarrow> fc_step any_ctx s t"
  by (induction rule: quiet_step.induct) (auto intro: fc_step.intros simp: any_ctx_def)

lemma quiet_step_cases:
  assumes "quiet_step s t" "wf_store s"
  obtains (evolves) "evolves s t" | (valid) A where "t = clear_optimistic A s"
  using assms
proof (induction rule: quiet_step.induct)
  case (quiet_insert iter ctx clk st root s t e)
  then show ?case using Ret_fst_eq [OF InsertNode_returns] by blast
next
  case (quiet_chain iter ctx ck bs s t e)
  then show ?case using Ret_fst_eq [OF InsertChain_returns] by blast
next
  case (quiet_valid ctx root s t e)
  then show ?case using wf_SetOptimisticToValid [of s ctx root] by auto
next
  case (quiet_invalid ctx root pr lvh s t x)
  then show ?case using wf_SetOptimisticToInvalid shrinks_evolves by blast
next
  case (quiet_slot ctx sl s t e)
  then show ?case using prune_returns [of s ctx] evolves_refl
    by (cases "IsEpochStart sl") (simp add: NewSlot_def, metis outcome.inject prod.inject, simp add: NewSlot_def)
next
  case (quiet_head iter ctx now elapsed s t r)
  then show ?case using Head_evolves by blast
qed (auto simp: UpdateJustifiedCheckpoint_def UpdateFinalizedCheckpoint_def SetGenesisTime_def SetOriginRoot_def evolves_fields split: option.splits)

text \<open>Every vote marked on a block is a vote of \<open>V\<close> for its root.\<close>
definition votes_from :: "(Attestation \<times> u64) set \<Rightarrow> Store \<Rightarrow> bool" where
  "votes_from V f \<longleftrightarrow> (\<forall>a < nextAddr f. \<forall>v \<in> voters (nodes f a). \<exists>att. (att, v) \<in> V \<and> att_root att = n_root (nodes f a))"

lemma votes_from_mono: "votes_from V f \<Longrightarrow> V \<subseteq> W \<Longrightarrow> votes_from W f"
  unfolding votes_from_def by blast

lemma votes_from_evolves:
  assumes "votes_from V s" "evolves s t"
  shows "votes_from V t"
  unfolding votes_from_def
proof (intro allI impI ballI)
  fix a v assume a: "a < nextAddr t" "v \<in> voters (nodes t a)"
  show "\<exists>att. (att, v) \<in> V \<and> att_root att = n_root (nodes t a)"
  proof (cases "a < nextAddr s")
    case True
    then show ?thesis using assms a by (auto simp: votes_from_def evolves_def same_block_def voters_def)
  next
    case False
    then have "fresh_node (nodes t a)" using assms(2) a(1) by (auto simp: evolves_def)
    then show ?thesis using a(2) by (simp add: fresh_node_def voters_def)
  qed
qed

lemma votes_from_clear: "votes_from V s \<Longrightarrow> votes_from V (clear_optimistic A s)"
  by (auto simp: votes_from_def voters_def clear_optimistic_def)

lemma votes_from_quiet:
  assumes "quiet_step s t" "wf_store s" "votes_from V s"
  shows "votes_from V t"
  using assms(1,2)
proof (cases rule: quiet_step_cases)
  case evolves
  then show ?thesis using votes_from_evolves [OF assms(3)] by blast
next
  case (valid A)
  then show ?thesis using votes_from_clear [OF assms(3)] by blast
qed

lemma votes_from_vote:
  assumes "wf_store s" "votes_from V s" "\<And>v. v \<in> set vs \<Longrightarrow> (att, v) \<in> V" "att_root att = r"
  shows "votes_from V (ProcessAttestation vs r sl s)"
proof (cases "gm_get (nodeByRoot s) r")
  case None
  then show ?thesis using assms(2) by (simp add: ProcessAttestation_unknown)
next
  case (Some b)
  have r: "n_root (nodes s b) = r" by (rule wf_lookup_root [OF assms(1) Some])
  show ?thesis unfolding votes_from_def
  proof (intro allI impI ballI)
    fix a v assume a: "a < nextAddr (ProcessAttestation vs r sl s)" "v \<in> voters (nodes (ProcessAttestation vs r sl s) a)"
    have s: "n_root (nodes (ProcessAttestation vs r sl s) a) = n_root (nodes s a)"
      using ProcessAttestation_nodes(3) [OF Some] by (simp add: same_block_def)
    show "\<exists>att. (att, v) \<in> V \<and> att_root att = n_root (nodes (ProcessAttestation vs r sl s) a)"
    proof (cases "v \<in> voters (nodes s a)")
      case True
      then show ?thesis using assms(2) a(1) s by (auto simp: votes_from_def)
    next
      case False
      have "nodes (ProcessAttestation vs r sl s) a = nodes s a" if "a \<noteq> b" by (rule ProcessAttestation_nodes(2) [OF Some that])
      then have b: "a = b" using a(2) False by metis
      then have "v \<in> set vs" using False a(2) ProcessAttestation_nodes(1) [OF Some, of vs sl] by simp
      then have "(att, v) \<in> V" by (rule assms(3))
      moreover have "att_root att = n_root (nodes (ProcessAttestation vs r sl s) a)" using s b r assms(4) by simp
      ultimately show ?thesis by blast
    qed
  qed
qed

text \<open>
  The service with the votes it has accepted: attestations of the pool, blocks with their attestations, other calls of the fork
  choice, and changes of everything but the fork choice by other parts of the node. \<open>adm\<close> restricts what the service is answered.
\<close>
inductive chain_step ::
  "(('b, 'z) chain_env_scheme \<Rightarrow> bool) \<Rightarrow> chain_service \<times> (Attestation \<times> u64) set \<Rightarrow> chain_service \<times> (Attestation \<times> u64) set \<Rightarrow> bool"
  for adm :: "('b, 'z) chain_env_scheme \<Rightarrow> bool" where
  Attested: "adm ce \<Longrightarrow> OnAttestation ce opened clk disparity (Some a) s = Ret (s', e)
    \<Longrightarrow> chain_step adm (s, V) (s', if e = None then V \<union> target_votes ce a s else V)"
| Block: "adm ce \<Longrightarrow> iter_ok iter \<Longrightarrow> postBlockProcess ce iter ctx clk now elapsed root atts slashings sv st valid s = Ret (s', r)
    \<Longrightarrow> chain_step adm (s, V) (s', V \<union> (\<Union>a \<in> set atts. named ce st a))"
| Fork: "quiet_step (ch_fork s) f \<Longrightarrow> chain_step adm (s, V) (s\<lparr>ch_fork := f\<rparr>, V)"
| Other: "ch_fork s' = ch_fork s \<Longrightarrow> chain_step adm (s, V) (s', V)"

definition chain_init :: "chain_service \<times> (Attestation \<times> u64) set \<Rightarrow> bool" where
  "chain_init x \<longleftrightarrow> ch_fork (fst x) = New_store \<and> snd x = {}"

text \<open>The store is reached by the operations of the fork choice, and its votes are accepted ones.\<close>
definition fork_inv :: "(Attestation \<times> u64) set \<Rightarrow> Store \<Rightarrow> bool" where
  "fork_inv V f \<longleftrightarrow> fc_reach f \<and> votes_from V f"

definition chain_inv :: "chain_service \<times> (Attestation \<times> u64) set \<Rightarrow> bool" where
  "chain_inv x \<longleftrightarrow> fork_inv (snd x) (ch_fork (fst x))"

lemma fork_inv_quiet: "quiet_step f g \<Longrightarrow> fork_inv V f \<Longrightarrow> fork_inv V g"
  unfolding fork_inv_def using quiet_fc_step reach.move votes_from_quiet reach_wf by metis

lemma fork_inv_vote:
  "fork_inv V f \<Longrightarrow> (\<And>v. v \<in> set vs \<Longrightarrow> (att, v) \<in> V) \<Longrightarrow> fork_inv V (ProcessAttestation vs (att_root att) sl f)"
  unfolding fork_inv_def using votes_from_vote [OF reach_wf, of any_ctx f V vs att "att_root att" sl] reach.move vote_step by metis

lemma fork_inv_mono: "fork_inv V f \<Longrightarrow> V \<subseteq> W \<Longrightarrow> fork_inv W f"
  unfolding fork_inv_def using votes_from_mono by blast

lemma named_eq:
  assumes "BeaconCommitteeFromState (ce_hash ce) (ce_caches ce) st (ad_Slot (at_Data a)) (ad_CommitteeIndex (at_Data a)) = Ret (committee, None)"
    "AttestingIndices (ce_bits ce) (at_AggregationBits a) committee = (ix, None)"
  shows "named ce st a = {a} \<times> set ix"
  using assms by (simp add: named_def attesting_def)

lemma OnAttestation_inv:
  assumes "fork_inv V (ch_fork s)" "OnAttestation ce opened clk disparity (Some a) s = Ret (s', e)"
  shows "fork_inv (if e = None then V \<union> target_votes ce a s else V) (ch_fork s')"
  using assms(2)
proof (cases rule: OnAttestation_cases)
  case (failed err)
  then show ?thesis using assms(1) same_chain_fields(1) by simp
next
  case (counted a' s1 st committee ix)
  have "target_votes ce a s = {a} \<times> set ix"
    using counted(2,6) named_eq [OF counted(7,8)] by (simp add: target_votes_def)
  then show ?thesis
    using counted fork_inv_vote [OF fork_inv_mono [OF assms(1)], of "V \<union> {a} \<times> set ix" "sort ix" a "ad_Slot (at_Data a)"] by simp
qed

lemma handleBlockAttestations_inv:
  assumes "fork_inv V (ch_fork s)" "handleBlockAttestations ce atts st s = Ret (s', e)"
  shows "fork_inv (V \<union> (\<Union>a \<in> set atts. named ce st a)) (ch_fork s')"
  using assms
proof (induction atts arbitrary: s V)
  case (Cons a atts)
  obtain committee ce' where c: "BeaconCommitteeFromState (ce_hash ce) (ce_caches ce) st (ad_Slot (at_Data a)) (ad_CommitteeIndex (at_Data a)) = Ret (committee, ce')"
    using Cons.prems(2) by (auto simp: obind_Ret_iff)
  obtain ix ie where i: "AttestingIndices (ce_bits ce) (at_AggregationBits a) committee = (ix, ie)" by (cases "AttestingIndices (ce_bits ce) (at_AggregationBits a) committee")
  show ?case
  proof (cases "ce' = None \<and> ie = None")
    case False
    then have "s' = s" using Cons.prems(2) c i by (auto split: option.splits)
    then show ?thesis using fork_inv_mono [OF Cons.prems(1)] by simp
  next
    case True
    let ?W = "V \<union> {a} \<times> set ix"
    have n: "named ce st a = {a} \<times> set ix" using named_eq c i True by simp
    have u: "V \<union> (\<Union>a \<in> set (a # atts). named ce st a) = ?W \<union> (\<Union>a \<in> set atts. named ce st a)" using n by auto
    have w: "fork_inv ?W (ch_fork s)" by (rule fork_inv_mono [OF Cons.prems(1)]) simp
    show ?thesis
    proof (cases "HasNode (att_root a) (ch_fork s)")
      case True
      let ?s = "s\<lparr>ch_fork := ProcessAttestation ix (att_root a) (ad_Slot (at_Data a)) (ch_fork s)\<rparr>"
      have "handleBlockAttestations ce atts st ?s = Ret (s', e)"
        using Cons.prems(2) c i \<open>ce' = None \<and> ie = None\<close> True by (simp add: Let_def)
      moreover have "fork_inv ?W (ch_fork ?s)" using fork_inv_vote [OF w, of ix a] by simp
      ultimately show ?thesis using Cons.IH unfolding u by blast
    next
      case False
      obtain pool pe where p: "SaveBlockAttestation ce a (ch_pool s) = (pool, pe)" by (cases "SaveBlockAttestation ce a (ch_pool s)")
      have h: "(pe \<noteq> None \<and> s' = s\<lparr>ch_pool := pool\<rparr>) \<or> handleBlockAttestations ce atts st (s\<lparr>ch_pool := pool\<rparr>) = Ret (s', e)"
        using Cons.prems(2) c i \<open>ce' = None \<and> ie = None\<close> False p by (auto simp: Let_def split: option.splits)
      have w': "fork_inv ?W (ch_fork (s\<lparr>ch_pool := pool\<rparr>))" using w by simp
      from h show ?thesis
      proof
        assume "pe \<noteq> None \<and> s' = s\<lparr>ch_pool := pool\<rparr>"
        then show ?thesis unfolding u using fork_inv_mono [OF w, of "?W \<union> (\<Union>a \<in> set atts. named ce st a)"] by simp
      next
        assume "handleBlockAttestations ce atts st (s\<lparr>ch_pool := pool\<rparr>) = Ret (s', e)"
        then show ?thesis unfolding u by (rule Cons.IH [OF w'])
      qed
    qed
  qed
qed simp

lemma InsertSlashings_id [simp]: "InsertSlashingsToForkChoiceStore slashings f = f"
proof -
  have "fold InsertSlashedIndex xs g = g" for xs :: "u64 list" and g
    by (induction xs arbitrary: g) (simp_all add: InsertSlashedIndex_def)
  then show ?thesis unfolding InsertSlashingsToForkChoiceStore_def by (induction slashings arbitrary: f) simp_all
qed

lemma postBlockProcess_inv:
  assumes "fork_inv V (ch_fork s)" "iter_ok iter"
    "postBlockProcess ce iter ctx clk now elapsed root atts slashings sv st valid s = Ret (s', r)"
  shows "fork_inv (V \<union> (\<Union>a \<in> set atts. named ce st a)) (ch_fork s')"
proof -
  let ?W = "V \<union> (\<Union>a \<in> set atts. named ce st a)"
  have head: "yields (\<lambda>x. fork_inv ?W (fst x)) (Head iter ctx now elapsed f)" if "fork_inv ?W f" for f
    using that fork_inv_quiet quiet_head [OF assms(2)] by (fastforce simp: yields_def)
  have tail: "yields (\<lambda>x. fork_inv ?W (ch_fork (fst x)))
      (obind (if valid then SetOptimisticToValid ctx root f else Ret (f, None)) (\<lambda>r. case r of
         (f, Some err) \<Rightarrow> Ret (t\<lparr>ch_fork := f\<rparr>, False, Some (Wrap ''could not set optimistic block to valid'' err))
       | (f, None) \<Rightarrow> obind (Head iter ctx now elapsed f) (\<lambda>(f, headRoot, _). Ret (t\<lparr>ch_fork := f\<rparr>, headRoot = root, None))))"
    if f: "fork_inv ?W f" for f t
  proof (intro yields_obind, goal_cases)
    case (1 x)
    obtain g e where x: "x = (g, e)" by (cases x)
    have g: "fork_inv ?W g" using 1 x f fork_inv_quiet [OF quiet_valid f] by (cases valid) auto
    show ?case unfolding x using g head [OF g] by (auto simp: yields_def obind_Ret_iff split: option.splits prod.splits)
  qed
  obtain f e where i: "InsertNode iter ctx clk sv root (ch_fork s) = Ret (f, e)"
    using assms(3) by (auto simp: postBlockProcess_def obind_Ret_iff)
  have f: "fork_inv V f" using fork_inv_quiet [OF quiet_insert [OF assms(2) i] assms(1)] .
  show ?thesis
  proof (cases e)
    case (Some err)
    then show ?thesis using assms(3) i fork_inv_mono [OF f, of ?W] by (auto simp: postBlockProcess_def)
  next
    case None
    obtain t h where t: "handleBlockAttestations ce atts st (s\<lparr>ch_fork := f\<rparr>) = Ret (t, h)"
      using assms(3) i None by (auto simp: postBlockProcess_def obind_Ret_iff)
    have w: "fork_inv ?W (ch_fork t)" by (rule handleBlockAttestations_inv [OF _ t]) (simp add: f)
    show ?thesis
      using assms(3) i None t w tail [OF w, of t] by (cases h) (auto simp: postBlockProcess_def Let_def yields_def)
  qed
qed

lemma chain_inv_step:
  assumes "chain_step adm x y" "chain_inv x"
  shows "chain_inv y"
  using assms
proof (induction rule: chain_step.induct)
  case (Attested ce opened clk disparity a s s' e V)
  then show ?case using OnAttestation_inv unfolding chain_inv_def by (metis fst_conv snd_conv)
next
  case (Block ce iter ctx clk now elapsed root atts slashings sv st valid s s' r V)
  then show ?case using postBlockProcess_inv unfolding chain_inv_def by (metis fst_conv snd_conv)
qed (auto simp: chain_inv_def intro: fork_inv_quiet)

interpretation chain: step_invariant chain_init "chain_step adm" "\<lambda>_. True" chain_inv for adm
proof
  show "chain_inv x" if "chain_init x" for x
    using that reach_New by (auto simp: chain_init_def chain_inv_def fork_inv_def votes_from_def New_store_def)
qed (auto intro: chain_inv_step)

abbreviation chain_reach :: "(('b, 'z) chain_env_scheme \<Rightarrow> bool) \<Rightarrow> chain_service \<Rightarrow> (Attestation \<times> u64) set \<Rightarrow> bool" where
  "chain_reach adm s V \<equiv> reach chain_init (chain_step adm) (s, V)"

lemma chain_reach_inv: "chain_reach adm s V \<Longrightarrow> fork_inv V (ch_fork s)"
  using chain.reach_inv [of adm "(s, V)"] by (simp add: chain_inv_def)

text \<open>
  (C8) A call of \<^verbatim>\<open>OnAttestation\<close> that fails changes neither the fork choice nor the pool. One that succeeds has found the target state and
  the attested block, which is not newer than the attestation; the target epoch is that of the slot, the attesting validators are different
  members of the committee under the target state, at least one, and all that changes in the fork choice is that their votes are recorded for the block.
\<close>
theorem OnAttestation_effect:
  assumes "OnAttestation ce opened clk disparity (Some a) s = Ret (s', e)"
  shows "ch_pool s' = ch_pool s \<and> (case e of Some _ \<Rightarrow> ch_fork s' = ch_fork s
    | None \<Rightarrow> \<exists>s1 st committee ix. getAttPreState ce (ad_Target (at_Data a)) s = Ret (s1, Some st, None)
        \<and> c_Epoch (ad_Target (at_Data a)) = ad_Slot (at_Data a) div SlotsPerEpoch
        \<and> (\<exists>slot. getBlock ce (att_root a) s = (slot, None) \<and> slot \<le> ad_Slot (at_Data a))
        \<and> BeaconCommitteeFromState (ce_hash ce) (ce_caches ce) st (ad_Slot (at_Data a)) (ad_CommitteeIndex (at_Data a)) = Ret (committee, None)
        \<and> AttestingIndices (ce_bits ce) (at_AggregationBits a) committee = (ix, None)
        \<and> ix \<noteq> [] \<and> distinct ix \<and> set ix \<subseteq> set committee
        \<and> ch_fork s' = ProcessAttestation (sort ix) (att_root a) (ad_Slot (at_Data a)) (ch_fork s))"
  using assms
proof (cases rule: OnAttestation_cases)
  case (failed err)
  then show ?thesis using same_chain_fields by simp
next
  case (counted a' s1 st committee ix)
  have "set ix \<subseteq> set committee" using counted(8) by (auto simp: AttestingIndices_def split: if_splits)
  moreover have "ad_Slot (at_Data a) div SlotsPerEpoch = c_Epoch (ad_Target (at_Data a))" "\<exists>slot. getBlock ce (att_root a) s = (slot, None) \<and> slot \<le> ad_Slot (at_Data a)"
    using counted(2,5) by (auto simp: checks_passed_def ValidateSlotTargetEpoch_def verifyBeaconBlock_def not_less split: if_splits prod.splits option.splits)
  ultimately show ?thesis using counted same_chain_fields(2) [OF counted(4)] by auto
qed

text \<open>
  (C7) In every state the service reaches, by attestations, blocks and the other calls of the fork choice in any order and with any answers
  of the rest of the node, the store of the fork choice is one reached by the operations of the fork choice, and each validator
  marked as a voter of a block was named by an attestation for that block which the service accepted under its target state or that a block carried.
\<close>
theorem votes_are_attested:
  assumes "chain_reach adm s V" "a < nextAddr (ch_fork s)" "v \<in> voters (nodes (ch_fork s) a)"
  shows "fc_reach (ch_fork s) \<and> (\<exists>att. (att, v) \<in> V \<and> att_root att = n_root (nodes (ch_fork s) a))"
  using chain_reach_inv [OF assms(1)] assms(2,3) by (auto simp: fork_inv_def votes_from_def)

text \<open>
  (C4) A block becomes stable only on the votes of a quorum: when the service inserts a block that is marked stable under a parent of a slot other than 0,
  of which no other copy is left in the store, at least 256 different validators were named by accepted attestations for the parent.
\<close>
theorem stable_block_quorum:
  assumes "chain_reach adm s V" "gm_get (nodeByRoot (ch_fork s)) root = None" "gm_get (nodeByRoot (ch_fork s)) parentRoot = Some p"
    "insert_node iter ctx clk (ch_fork s) slot root parentRoot ph je fe = Ret (t, a, e)" "n_stabled (nodes t a)"
    "n_slot (nodes (ch_fork s) p) \<noteq> 0" "\<And>b. b < nextAddr (ch_fork s) \<Longrightarrow> n_root (nodes (ch_fork s) b) = parentRoot \<Longrightarrow> b = p"
  shows "\<exists>W. finite W \<and> 256 \<le> card W \<and> (\<forall>v \<in> W. \<exists>att. (att, v) \<in> V \<and> att_root att = parentRoot)"
proof -
  have inv: "fc_reach (ch_fork s)" "votes_from V (ch_fork s)" using chain_reach_inv [OF assms(1)] by (simp_all add: fork_inv_def)
  have p: "p < nextAddr (ch_fork s)" "n_root (nodes (ch_fork s) p) = parentRoot"
    using wf_lookup [OF reach_wf [OF inv(1)] assms(3)] wf_lookup_root [OF reach_wf [OF inv(1)] assms(3)] by blast+
  have "{b. b < nextAddr (ch_fork s) \<and> n_root (nodes (ch_fork s) b) = parentRoot} = {p}" using p assms(7) by blast
  then have "recorded (ch_fork s) parentRoot = card (voters (nodes (ch_fork s) p))" by (simp add: recorded_def)
  moreover have "256 \<le> recorded (ch_fork s) parentRoot" by (rule recorded_quorum [OF inv(1) assms(2-6)])
  moreover have "\<forall>v \<in> voters (nodes (ch_fork s) p). \<exists>att. (att, v) \<in> V \<and> att_root att = parentRoot" using inv(2) p by (auto simp: votes_from_def)
  ultimately show ?thesis using finite_voters [of "nodes (ch_fork s) p"] by metis
qed

subsection \<open>The attestations of the pool\<close>

lemma chain_reach_other: "chain_reach adm s V \<Longrightarrow> ch_fork s' = ch_fork s \<Longrightarrow> chain_reach adm s' V"
  using reach.move chain_step.Other by metis

text \<open>Whether an attestation of the pool is taken out when its turn comes: its slot is over, and the node has the block and its state.\<close>
definition due :: "('b, 'z) chain_env_scheme \<Rightarrow> (nat \<Rightarrow> go_time) \<Rightarrow> duration \<Rightarrow> Attestation \<Rightarrow> chain_service \<Rightarrow> bool" where
  "due ce clk disparity a s \<longleftrightarrow>
    VerifyTime (unix_of (clk 0)) (clk 1) (unix_of (ch_genesis s)) (ad_Slot (at_Data a) + 1) disparity = Ret None
    \<and> ce_HasStateSummary ce (att_root a) \<and> hasBlock ce (att_root a) s"

lemma process_one_cases:
  assumes "process_one ce opened clk disparity a s = Ret s'"
  obtains (waits) "s' = s" "\<not> due ce clk disparity a s"
  | (stale) "s' = s\<lparr>ch_pool := fst (DeleteForkchoiceAttestation ce a (ch_pool s))\<rparr>" "due ce clk disparity a s"
  | (taken) e where "OnAttestation ce opened (\<lambda>i. clk (3 + i)) disparity (Some a) (s\<lparr>ch_pool := fst (DeleteForkchoiceAttestation ce a (ch_pool s))\<rparr>) = Ret (s', e)"
      "due ce clk disparity a s"
proof -
  obtain e where e: "VerifyTime (unix_of (clk 0)) (clk 1) (unix_of (ch_genesis s)) (ad_Slot (at_Data a) + 1) disparity = Ret e"
    using assms by (auto simp: process_one_def obind_Ret_iff)
  show ?thesis
  proof (cases "e \<noteq> None \<or> \<not> (ce_HasStateSummary ce (att_root a) \<and> hasBlock ce (att_root a) s)")
    case True
    then have "s' = s" using assms e by (auto simp: process_one_def Let_def)
    moreover have "\<not> due ce clk disparity a s" using True e by (auto simp: due_def)
    ultimately show ?thesis using waits by blast
  next
    case False
    let ?s = "s\<lparr>ch_pool := fst (DeleteForkchoiceAttestation ce a (ch_pool s))\<rparr>"
    have d: "due ce clk disparity a s" using False e by (simp add: due_def)
    obtain ok where ok: "VerifyCheckpointEpoch (clk 2) (ad_Target (at_Data a)) (ch_genesis ?s) = Ret ok"
      "(if \<not> ok then Ret ?s else obind (receiveAttestationNoPubsub ce opened (\<lambda>i. clk (3 + i)) disparity (Some a) ?s) (\<lambda>(s, _). Ret s)) = Ret s'"
      using assms e False by (auto simp: process_one_def Let_def obind_Ret_iff)
    show ?thesis
    proof (cases ok)
      case True
      then obtain e' where "receiveAttestationNoPubsub ce opened (\<lambda>i. clk (3 + i)) disparity (Some a) ?s = Ret (s', e')"
        using ok(2) by (auto simp: obind_Ret_iff)
      then obtain e'' where "OnAttestation ce opened (\<lambda>i. clk (3 + i)) disparity (Some a) ?s = Ret (s', e'')"
        by (auto simp: receiveAttestationNoPubsub_def obind_Ret_iff split: option.splits)
      then show ?thesis using taken d by blast
    next
      case False
      then show ?thesis using ok(2) stale d by simp
    qed
  qed
qed

lemma OnAttestation_keeps:
  assumes "OnAttestation ce opened clk disparity att s = Ret (s', e)"
  shows "ch_pool s' = ch_pool s" "ch_genesis s' = ch_genesis s" "nodeByRoot (ch_fork s') = nodeByRoot (ch_fork s)"
  using assms by (cases rule: OnAttestation_cases; simp add: same_chain_fields)+

text \<open>The service with an attestation taken out of the pool for the fork choice.\<close>
definition taken_out :: "('b, 'z) chain_env_scheme \<Rightarrow> Attestation \<Rightarrow> chain_service \<Rightarrow> chain_service" where
  "taken_out ce a s = s\<lparr>ch_pool := fst (DeleteForkchoiceAttestation ce a (ch_pool s))\<rparr>"

text \<open>
  What the turn of one attestation has to do: one that is not due stays where it is; one that is due leaves the pool and, if the epoch of its target is the current or
  the previous one, is given to \<^verbatim>\<open>OnAttestation\<close>. The last argument says whether it was accepted.
\<close>
definition turn_spec ::
  "('b, 'z) chain_env_scheme \<Rightarrow> bool \<Rightarrow> (nat \<Rightarrow> go_time) \<Rightarrow> duration \<Rightarrow> Attestation \<Rightarrow> chain_service \<Rightarrow> chain_service \<Rightarrow> bool \<Rightarrow> bool" where
  "turn_spec ce opened clk disparity a s s' accepted \<longleftrightarrow>
    (if \<not> due ce clk disparity a s then s' = s \<and> \<not> accepted
     else VerifyCheckpointEpoch (clk 2) (ad_Target (at_Data a)) (ch_genesis s) = Ret False \<and> s' = taken_out ce a s \<and> \<not> accepted
       \<or> VerifyCheckpointEpoch (clk 2) (ad_Target (at_Data a)) (ch_genesis s) = Ret True
         \<and> (\<exists>e. OnAttestation ce opened (\<lambda>i. clk (3 + i)) disparity (Some a) (taken_out ce a s) = Ret (s', e) \<and> (accepted \<longleftrightarrow> e = None)))"

lemma turn_cases:
  assumes "turn_spec ce opened clk disparity a s s' accepted"
  obtains (unchanged) "\<not> accepted" "ch_fork s' = ch_fork s"
  | (given) e where "OnAttestation ce opened (\<lambda>i. clk (3 + i)) disparity (Some a) (taken_out ce a s) = Ret (s', e)" "accepted \<longleftrightarrow> e = None"
  using assms by (auto simp: turn_spec_def taken_out_def split: if_splits)

lemma process_one_turn:
  assumes "process_one ce opened clk disparity a s = Ret s'"
  shows "\<exists>accepted. turn_spec ce opened clk disparity a s s' accepted"
proof (cases "due ce clk disparity a s")
  case True
  then have v: "VerifyTime (unix_of (clk 0)) (clk 1) (unix_of (ch_genesis s)) (ad_Slot (at_Data a) + 1) disparity = Ret None"
    "ce_HasStateSummary ce (att_root a)" "hasBlock ce (att_root a) s" by (simp_all add: due_def)
  have g: "ch_genesis (taken_out ce a s) = ch_genesis s" by (simp add: taken_out_def)
  obtain ok where ok: "VerifyCheckpointEpoch (clk 2) (ad_Target (at_Data a)) (ch_genesis s) = Ret ok"
    "(if \<not> ok then Ret (taken_out ce a s)
      else obind (receiveAttestationNoPubsub ce opened (\<lambda>i. clk (3 + i)) disparity (Some a) (taken_out ce a s)) (\<lambda>(s, _). Ret s)) = Ret s'"
    using assms v g by (auto simp: process_one_def Let_def obind_Ret_iff taken_out_def [symmetric])
  show ?thesis
  proof (cases ok)
    case True
    then obtain e where "OnAttestation ce opened (\<lambda>i. clk (3 + i)) disparity (Some a) (taken_out ce a s) = Ret (s', e)"
      using ok(2) by (auto simp: receiveAttestationNoPubsub_def obind_Ret_iff split: option.splits)
    then show ?thesis using ok(1) True \<open>due ce clk disparity a s\<close> by (auto simp: turn_spec_def)
  next
    case False
    then show ?thesis using ok \<open>due ce clk disparity a s\<close> by (auto simp: turn_spec_def)
  qed
next
  case False
  from assms have "s' = s" by (cases rule: process_one_cases) (use False in simp_all)
  then show ?thesis using False by (auto simp: turn_spec_def)
qed

lemma process_loop_turns:
  assumes "process_loop ce opened clk disparity atts s = Ret s'"
  shows "\<exists>f acc. f 0 = s \<and> f (length atts) = s' \<and> (\<forall>i < length atts. turn_spec ce opened (clk i) disparity (atts ! i) (f i) (f (Suc i)) (acc i))"
  using assms
proof (induction atts arbitrary: clk s)
  case (Cons a atts)
  obtain s1 where s1: "process_one ce opened (clk 0) disparity a s = Ret s1" "process_loop ce opened (\<lambda>i. clk (Suc i)) disparity atts s1 = Ret s'"
    using Cons.prems by (auto simp: obind_Ret_iff)
  obtain ok where ok: "turn_spec ce opened (clk 0) disparity a s s1 ok" using process_one_turn [OF s1(1)] by blast
  obtain f acc where f: "f 0 = s1" "f (length atts) = s'"
    "\<forall>i < length atts. turn_spec ce opened (clk (Suc i)) disparity (atts ! i) (f i) (f (Suc i)) (acc i)" using Cons.IH [OF s1(2)] by blast
  have "turn_spec ce opened (clk i) disparity ((a # atts) ! i) (case_nat s f i) (case_nat s f (Suc i)) (case_nat ok acc i)" if "i < length (a # atts)" for i
    using that ok f by (cases i) simp_all
  moreover have "case_nat s f 0 = s" "case_nat s f (length (a # atts)) = s'" using f by simp_all
  ultimately show ?case by blast
qed auto

lemma process_one_keeps:
  assumes "process_one ce opened clk disparity a s = Ret s'"
  shows "ch_genesis s' = ch_genesis s" "nodeByRoot (ch_fork s') = nodeByRoot (ch_fork s)"
    "ch_pool s' = (if due ce clk disparity a s then fst (DeleteForkchoiceAttestation ce a (ch_pool s)) else ch_pool s)"
  using assms by (cases rule: process_one_cases; simp add: OnAttestation_keeps)+

lemma due_same:
  "ch_genesis s' = ch_genesis s \<Longrightarrow> nodeByRoot (ch_fork s') = nodeByRoot (ch_fork s) \<Longrightarrow> due ce clk disparity a s' = due ce clk disparity a s"
  by (simp add: due_def hasBlock_def HasNode_def)

lemma gm_range_map: "gm_order m ks \<Longrightarrow> gm_range m ks = map (\<lambda>k. the (gm_get m k)) ks"
proof -
  have "gm_range m xs = map (\<lambda>k. the (gm_get m k)) xs" if "\<forall>k \<in> set xs. gm_get m k \<noteq> None" for xs
    using that by (induction xs) (auto simp: gm_range_def List.map_filter_simps)
  then show "gm_order m ks \<Longrightarrow> gm_range m ks = map (\<lambda>k. the (gm_get m k)) ks" by (auto simp: gm_order_get)
qed

lemma process_loop_pool:
  assumes "process_loop ce opened clk disparity atts s = Ret s'" "\<forall>a \<in> set atts. snd (pe_hashAtt ce a) = None"
    "distinct (map (\<lambda>a. fst (pe_hashAtt ce a)) atts)"
  shows "gm_get (forkchoiceAtt (ch_pool s')) r =
    (if \<exists>i < length atts. due ce (clk i) disparity (atts ! i) s \<and> fst (pe_hashAtt ce (atts ! i)) = r then None else gm_get (forkchoiceAtt (ch_pool s)) r)"
  using assms
proof (induction atts arbitrary: clk s)
  case (Cons a atts)
  obtain s1 where s1: "process_one ce opened (clk 0) disparity a s = Ret s1" "process_loop ce opened (\<lambda>i. clk (Suc i)) disparity atts s1 = Ret s'"
    using Cons.prems(1) by (auto simp: obind_Ret_iff)
  note k = process_one_keeps [OF s1(1)]
  have h: "pe_hashAtt ce a = (fst (pe_hashAtt ce a), None)" using Cons.prems(2) by (metis list.set_intros(1) prod.collapse)
  have g: "gm_get (forkchoiceAtt (ch_pool s1)) r = (if due ce (clk 0) disparity a s \<and> fst (pe_hashAtt ce a) = r then None else gm_get (forkchoiceAtt (ch_pool s)) r)"
    unfolding k(3) using h by (auto simp: DeleteForkchoiceAttestation_def split: prod.splits)
  have "gm_get (forkchoiceAtt (ch_pool s')) r =
    (if \<exists>i < length atts. due ce (clk (Suc i)) disparity (atts ! i) s1 \<and> fst (pe_hashAtt ce (atts ! i)) = r then None else gm_get (forkchoiceAtt (ch_pool s1)) r)"
    by (rule Cons.IH [OF s1(2)]) (use Cons.prems in auto)
  moreover have "(\<exists>i < length (a # atts). due ce (clk i) disparity ((a # atts) ! i) s \<and> fst (pe_hashAtt ce ((a # atts) ! i)) = r)
    \<longleftrightarrow> due ce (clk 0) disparity a s \<and> fst (pe_hashAtt ce a) = r
      \<or> (\<exists>i < length atts. due ce (clk (Suc i)) disparity (atts ! i) s \<and> fst (pe_hashAtt ce (atts ! i)) = r)"
    by (auto simp: less_Suc_eq_0_disj)
  moreover have "due ce c disparity b s1 = due ce c disparity b s" for c b by (rule due_same [OF k(1,2)])
  ultimately show ?case by (auto simp: g)
qed simp

text \<open>
  Feeding the pool to the fork choice takes out exactly the attestations whose slot is over and whose block and state the node has, each
  whether or not it is then counted; the others wait in the pool.
\<close>
theorem pool_attestations_taken:
  assumes "processAttestations ce ord opened clk disparity s = Ret s'" "one_ok ce (\<lambda>_. True) (forkchoiceAtt (ch_pool s))"
    "gm_order (forkchoiceAtt (ch_pool s)) (ord (forkchoiceAtt (ch_pool s)))" "i < length (ForkchoiceAttestations ord (ch_pool s))"
  shows "let a = ForkchoiceAttestations ord (ch_pool s) ! i
    in gm_get (forkchoiceAtt (ch_pool s')) (fst (pe_hashAtt ce a)) = (if due ce (clk i) disparity a s then None else Some a)"
proof -
  let ?m = "forkchoiceAtt (ch_pool s)" and ?L = "ForkchoiceAttestations ord (ch_pool s)" and ?h = "\<lambda>a. fst (pe_hashAtt ce a)"
  have m: "?L = map (\<lambda>k. the (gm_get ?m k)) (ord ?m)" "\<forall>k \<in> set (ord ?m). \<exists>t. gm_get ?m k = Some t"
    using assms(3) by (auto simp: ForkchoiceAttestations_def gm_range_map gm_order_get)
  have hk: "pe_hashAtt ce (the (gm_get ?m k)) = (k, None)" if "k \<in> set (ord ?m)" for k
    using m(2) that assms(2) by (fastforce simp: one_ok_def)
  have hs: "map ?h ?L = ord ?m" unfolding m(1) using hk by (simp add: map_idI)
  have "distinct (map ?h ?L)" using assms(3) by (simp add: hs gm_order_def)
  moreover have "\<forall>a \<in> set ?L. snd (pe_hashAtt ce a) = None" unfolding m(1) using hk by simp
  ultimately have p: "gm_get (forkchoiceAtt (ch_pool s')) r =
    (if \<exists>i < length ?L. due ce (clk i) disparity (?L ! i) s \<and> ?h (?L ! i) = r then None else gm_get ?m r)" for r
    using process_loop_pool assms(1) unfolding processAttestations_def by blast
  have u: "j = i" if "j < length ?L" "?h (?L ! j) = ?h (?L ! i)" for j
    using that assms(4) \<open>distinct (map ?h ?L)\<close> by (metis length_map nth_eq_iff_index_eq nth_map)
  have "gm_get ?m (?h (?L ! i)) = Some (?L ! i)"
    using assms(4) m hk by (simp add: m(1))
  then show ?thesis unfolding Let_def p using u assms(4) by auto
qed

lemma voters_ProcessAttestation: "voters (nodes f a) \<subseteq> voters (nodes (ProcessAttestation vs r sl f) a)"
proof (cases "gm_get (nodeByRoot f) r")
  case None
  then show ?thesis by (simp add: ProcessAttestation_unknown)
next
  case (Some b)
  then show ?thesis using ProcessAttestation_nodes(1,2) [OF Some, where vs = vs and sl = sl] by (cases "a = b") simp_all
qed

lemma OnAttestation_marks:
  assumes "OnAttestation ce opened clk disparity (Some a) s = Ret (s', e)"
  shows "voters (nodes (ch_fork s) b) \<subseteq> voters (nodes (ch_fork s') b)"
    "e = None \<Longrightarrow> gm_get (nodeByRoot (ch_fork s)) (att_root a) = Some b \<Longrightarrow> snd ` target_votes ce a s \<subseteq> voters (nodes (ch_fork s') b)"
proof -
  have "voters (nodes (ch_fork s) b) \<subseteq> voters (nodes (ch_fork s') b)
    \<and> (e = None \<longrightarrow> gm_get (nodeByRoot (ch_fork s)) (att_root a) = Some b \<longrightarrow> snd ` target_votes ce a s \<subseteq> voters (nodes (ch_fork s') b))"
    using assms
  proof (cases rule: OnAttestation_cases)
    case (failed err)
    then show ?thesis by (simp add: same_chain_fields)
  next
    case (counted a' s1 st committee ix)
    have "target_votes ce a s = {a} \<times> set ix" using counted(2,6) named_eq [OF counted(7,8)] by (simp add: target_votes_def)
    then show ?thesis using counted voters_ProcessAttestation ProcessAttestation_nodes(1) by auto
  qed
  then show "voters (nodes (ch_fork s) b) \<subseteq> voters (nodes (ch_fork s') b)"
    "e = None \<Longrightarrow> gm_get (nodeByRoot (ch_fork s)) (att_root a) = Some b \<Longrightarrow> snd ` target_votes ce a s \<subseteq> voters (nodes (ch_fork s') b)"
    by blast+
qed

text \<open>What a sequence of turns gives: accepted votes are counted and stay, the blocks of the fork choice are the same.\<close>
lemma turns_effect:
  assumes "\<forall>j < n. turn_spec ce opened (clk j) disparity (atts ! j) (f j) (f (Suc j)) (acc j)" "chain_reach adm (f 0) V" "adm ce" "i \<le> n"
  shows "chain_reach adm (f i) (V \<union> (\<Union>j \<in> {j. j < i \<and> acc j}. target_votes ce (atts ! j) (taken_out ce (atts ! j) (f j))))"
    "nodeByRoot (ch_fork (f i)) = nodeByRoot (ch_fork (f 0))"
    "j < i \<Longrightarrow> acc j \<Longrightarrow> gm_get (nodeByRoot (ch_fork (f 0))) (att_root (atts ! j)) = Some b
      \<Longrightarrow> snd ` target_votes ce (atts ! j) (taken_out ce (atts ! j) (f j)) \<subseteq> voters (nodes (ch_fork (f i)) b)"
  using assms(4)
proof (induction i)
  case (Suc i)
  note t = assms(1) [rule_format, of i] and F = taken_out_def
  let ?W = "V \<union> (\<Union>j \<in> {j. j < i \<and> acc j}. target_votes ce (atts ! j) (taken_out ce (atts ! j) (f j)))"
  let ?p = "taken_out ce (atts ! i) (f i)"
  { case 1
    then have reach: "chain_reach adm (f i) ?W" and i: "i < n" using Suc by simp_all
    have W: "V \<union> (\<Union>j \<in> {j. j < Suc i \<and> acc j}. target_votes ce (atts ! j) (taken_out ce (atts ! j) (f j)))
      = (if acc i then ?W \<union> target_votes ce (atts ! i) ?p else ?W)" by (auto simp: less_Suc_eq)
    from t [OF i] have "chain_reach adm (f (Suc i)) (if acc i then ?W \<union> target_votes ce (atts ! i) ?p else ?W)"
    proof (cases rule: turn_cases)
      case unchanged
      then show ?thesis using chain_reach_other [OF reach] by simp
    next
      case (given e)
      have "chain_reach adm ?p ?W" by (rule chain_reach_other [OF reach]) (simp add: F)
      from reach.move [OF this chain_step.Attested [where adm = adm and ce = ce, OF assms(3) given(1)]] show ?thesis using given(2) by simp
    qed
    then show ?case unfolding W .
  next
    case 2
    then have n: "nodeByRoot (ch_fork (f i)) = nodeByRoot (ch_fork (f 0))" and i: "i < n" using Suc by simp_all
    from t [OF i] show ?case
    proof (cases rule: turn_cases)
      case (given e)
      then show ?thesis using OnAttestation_keeps(3) [OF given(1)] n by (simp add: F)
    qed (use n in simp)
  next
    case 3
    then have i: "i < n" and IH: "j < i \<Longrightarrow> snd ` target_votes ce (atts ! j) (taken_out ce (atts ! j) (f j)) \<subseteq> voters (nodes (ch_fork (f i)) b)"
      and n: "nodeByRoot (ch_fork (f i)) = nodeByRoot (ch_fork (f 0))" using Suc by simp_all
    show ?case using t [OF i]
    proof (cases rule: turn_cases)
      case unchanged
      then have "j < i" using 3 by (cases "j = i") auto
      then show ?thesis using IH unchanged by simp
    next
      case (given e)
      have "ch_fork ?p = ch_fork (f i)" by (simp add: F)
      note m = OnAttestation_marks [OF given(1), of b, unfolded this]
      show ?thesis
      proof (cases "j = i")
        case True
        then show ?thesis using m(2) given(2) 3 n by simp
      next
        case False
        then show ?thesis using IH 3(1) m(1) by fastforce
      qed
    qed }
qed (use assms(2) in simp_all)

text \<open>
  (C9) \<^verbatim>\<open>UpdateHead\<close> gives every attestation of the pool its turn, in the order of the map, and then computes the head on the resulting fork choice. Each turn does what
  \<open>turn_spec\<close> says. Afterwards exactly the attestations that were due are gone from the pool, the votes of the accepted ones, and no others, have been added to the
  accepted votes, each validator they name is marked on the block, and the state is one that attestations one by one and calls of the fork choice reach.
\<close>
theorem UpdateHead_refines_steps:
  assumes "chain_reach adm s V" "adm ce" "iter_ok iter" "UpdateHead ce ord iter ctx opened clk now elapsed disparity s = Ret (s', r)"
    "one_ok ce (\<lambda>_. True) (forkchoiceAtt (ch_pool s))" "gm_order (forkchoiceAtt (ch_pool s)) (ord (forkchoiceAtt (ch_pool s)))"
  defines "L \<equiv> ForkchoiceAttestations ord (ch_pool s)"
  shows "\<exists>f acc. f 0 = s \<and> (\<forall>i < length L. turn_spec ce opened (clk i) disparity (L ! i) (f i) (f (Suc i)) (acc i))
    \<and> Head iter ctx now elapsed (ch_fork (f (length L))) = Ret (ch_fork s', r) \<and> s' = (f (length L))\<lparr>ch_fork := ch_fork s'\<rparr>
    \<and> chain_reach adm s' (V \<union> (\<Union>i \<in> {i. i < length L \<and> acc i}. target_votes ce (L ! i) (taken_out ce (L ! i) (f i))))
    \<and> (\<forall>i < length L. gm_get (forkchoiceAtt (ch_pool s')) (fst (pe_hashAtt ce (L ! i))) = (if due ce (clk i) disparity (L ! i) s then None else Some (L ! i)))
    \<and> (\<forall>i < length L. \<forall>b. acc i \<longrightarrow> gm_get (nodeByRoot (ch_fork s)) (att_root (L ! i)) = Some b
        \<longrightarrow> snd ` target_votes ce (L ! i) (taken_out ce (L ! i) (f i)) \<subseteq> voters (nodes (ch_fork s') b))"
proof -
  obtain s1 g where s1: "processAttestations ce ord opened clk disparity s = Ret s1" "Head iter ctx now elapsed (ch_fork s1) = Ret (g, r)"
    "s' = s1\<lparr>ch_fork := g\<rparr>"
    using assms(4) by (auto simp: UpdateHead_def obind_Ret_iff)
  obtain f acc where f: "f 0 = s" "f (length L) = s1" "\<forall>i < length L. turn_spec ce opened (clk i) disparity (L ! i) (f i) (f (Suc i)) (acc i)"
    using process_loop_turns [OF s1(1) [unfolded processAttestations_def]] L_def by blast
  let ?W = "V \<union> (\<Union>i \<in> {i. i < length L \<and> acc i}. target_votes ce (L ! i) (taken_out ce (L ! i) (f i)))"
  note E = turns_effect [where adm = adm and ce = ce, OF f(3) assms(1) [folded f(1)] assms(2) order_refl, unfolded f(1,2)]
  have reach: "chain_reach adm s' ?W"
    unfolding s1(3) by (rule reach.move [OF E(1) chain_step.Fork [OF quiet_head [OF assms(3) s1(2)]]])
  have pool: "gm_get (forkchoiceAtt (ch_pool s')) (fst (pe_hashAtt ce (L ! i))) = (if due ce (clk i) disparity (L ! i) s then None else Some (L ! i))"
    if "i < length L" for i
    using pool_attestations_taken [OF s1(1) assms(5,6)] that s1(3) by (simp add: L_def Let_def)
  have wf: "wf_store (ch_fork s1)" using chain_reach_inv [OF E(1)] reach_wf by (auto simp: fork_inv_def)
  have "snd ` target_votes ce (L ! i) (taken_out ce (L ! i) (f i)) \<subseteq> voters (nodes (ch_fork s') b)"
    if "i < length L" "acc i" "gm_get (nodeByRoot (ch_fork s)) (att_root (L ! i)) = Some b" for i b
  proof -
    have "b < nextAddr (ch_fork s1)" using wf_lookup [OF wf] that(3) E(2) by simp
    then have "voters (nodes g b) = voters (nodes (ch_fork s1) b)" using Head_evolves [OF wf s1(2)] by (simp add: evolves_def voters_def)
    then show ?thesis using E(3) [OF that] s1(3) by simp
  qed
  then show ?thesis using f reach pool s1(2,3) by (intro exI [of _ f] exI [of _ acc]) simp
qed

subsection \<open>Stability of a received block\<close>

lemma steps_same_block:
  assumes "(fc_step any_ctx)\<^sup>*\<^sup>* s t" "fc_reach s" "a < nextAddr s"
  shows "fc_reach t \<and> a < nextAddr t \<and> same_block (nodes t a) (nodes s a)"
  using assms(1)
proof (induction rule: rtranclp_induct)
  case base
  then show ?case using assms(2,3) by (simp add: same_block_def)
next
  case (step t u)
  then show ?case using step_same_block [of t u a] reach.move same_block_trans by metis
qed

lemma handleBlockAttestations_steps:
  "handleBlockAttestations ce atts st s = Ret (s', e) \<Longrightarrow> (fc_step any_ctx)\<^sup>*\<^sup>* (ch_fork s) (ch_fork s')"
proof (induction atts arbitrary: s)
  case (Cons a atts)
  obtain committee c where c: "BeaconCommitteeFromState (ce_hash ce) (ce_caches ce) st (ad_Slot (at_Data a)) (ad_CommitteeIndex (at_Data a)) = Ret (committee, c)"
    using Cons.prems by (auto simp: obind_Ret_iff)
  let ?g = "\<lambda>ix. s\<lparr>ch_fork := ProcessAttestation ix (att_root a) (ad_Slot (at_Data a)) (ch_fork s)\<rparr>"
  consider "ch_fork s' = ch_fork s" | ix where "handleBlockAttestations ce atts st (?g ix) = Ret (s', e)"
    | pool where "handleBlockAttestations ce atts st (s\<lparr>ch_pool := pool\<rparr>) = Ret (s', e)"
    using Cons.prems c by (fastforce simp: Let_def split: option.splits prod.splits if_splits)
  then show ?case
  proof cases
    case (2 ix)
    then show ?thesis using Cons.IH [OF 2] vote_step [OF refl] by (metis chain_service.select_convs(1) chain_service.surjective chain_service.update_convs(1) converse_rtranclp_into_rtranclp)
  next
    case (3 pool)
    then show ?thesis using Cons.IH [OF 3] by simp
  qed simp
qed simp

text \<open>What follows the insertion of the block in \<^verbatim>\<open>postBlockProcess\<close>.\<close>
lemma postBlockProcess_steps:
  assumes "postBlockProcess ce iter ctx clk now elapsed root atts slashings sv st valid s = Ret (s', r, None)" "iter_ok iter"
  obtains f where "InsertNode iter ctx clk sv root (ch_fork s) = Ret (f, None)" "(fc_step any_ctx)\<^sup>*\<^sup>* f (ch_fork s')"
proof -
  obtain f where f: "InsertNode iter ctx clk sv root (ch_fork s) = Ret (f, None)"
    using assms(1) by (auto simp: postBlockProcess_def obind_Ret_iff split: option.splits)
  obtain t where t: "handleBlockAttestations ce atts st (s\<lparr>ch_fork := f\<rparr>) = Ret (t, None)"
    using assms(1) f by (auto simp: postBlockProcess_def obind_Ret_iff split: option.splits)
  obtain g where g: "(if valid then SetOptimisticToValid ctx root (ch_fork t) else Ret (ch_fork t, None)) = Ret (g, None)"
    using assms(1) f t by (auto simp: postBlockProcess_def Let_def obind_Ret_iff split: option.splits)
  have h: "\<exists>x. Head iter ctx now elapsed g = Ret (ch_fork s', x)"
    using assms(1) f t g by (auto simp: postBlockProcess_def Let_def obind_Ret_iff split: option.splits)
  have "(fc_step any_ctx)\<^sup>*\<^sup>* f (ch_fork t)" using handleBlockAttestations_steps [OF t] by simp
  moreover have "(fc_step any_ctx)\<^sup>*\<^sup>* (ch_fork t) g"
    using g quiet_fc_step [OF quiet_valid] by (cases valid) auto
  moreover have "fc_step any_ctx g (ch_fork s')" using h quiet_fc_step [OF quiet_head [OF assms(2)]] by blast
  ultimately show ?thesis using that [OF f] by (meson rtranclp.rtrancl_into_rtrancl rtranclp_trans)
qed

lemma insert_node_grows:
  assumes "wf_store s" "gm_get (nodeByRoot s) root = None" "gm_get (nodeByRoot s) parentRoot = Some p"
    "insert_node iter ctx clk s slot root parentRoot ph je fe = Ret (t, a, e)"
  shows "nextAddr s < nextAddr t"
proof (rule insert_node_cases [OF assms(1) assms(4) [symmetric]], goal_cases)
  case (5 p' n tg s3 ce h e)
  then have "nextAddr t = nextAddr s3" by (auto split: if_splits)
  then show ?case unfolding 5(5) by (simp add: set_stabled_def)
qed (use assms in \<open>auto simp: with_child_def with_node_def\<close>)

lemma InsertNode_stable:
  assumes "wf_store s" "gm_get (nodeByRoot s) root = None" "gm_get (nodeByRoot s) parentRoot = Some p" "sv_LatestBlockHeader sv = Some parentRoot"
    "InsertNode iter ctx clk sv root s = Ret (f, None)"
  shows "nextAddr s < nextAddr f" "n_root (nodes f (nextAddr s)) = root"
    "n_stabled (nodes f (nextAddr s)) \<longleftrightarrow> genesisTime s \<le> clk 1 \<and>
      (case (case cacheAttCount s of None \<Rightarrow> None | Some m \<Rightarrow> gm_get m parentRoot) of Some c \<Rightarrow> c \<ge> 256 | None \<Rightarrow> n_slot (nodes s p) = 0)"
proof -
  obtain t a ph jc fc where i: "insert_node iter ctx clk s (sv_Slot sv) root parentRoot ph (cpEpoch jc) (cpEpoch fc) = Ret (t, a, None)"
    and u: "updateCheckpoints ctx jc fc t = Ret (f, None)"
    using assms(4,5) by (auto simp: InsertNode_def obind_Ret_iff split: option.splits prod.splits)
  note n = insert_child_node [OF assms(1-3) i]
  have w: "wf_store t" "evolves s t" using insert_node_returns [OF assms(1)] i by (metis outcome.inject prod.inject)+
  have e: "evolves t f" using updateCheckpoints_returns [OF w(1)] u by (metis outcome.inject prod.inject)
  have l: "nextAddr s < nextAddr t" using insert_node_grows [OF assms(1-3) i] .
  then have "same_block (nodes f (nextAddr s)) (nodes t (nextAddr s))" "nextAddr s < nextAddr f" using e by (auto simp: evolves_def)
  then show "nextAddr s < nextAddr f" "n_root (nodes f (nextAddr s)) = root"
    "n_stabled (nodes f (nextAddr s)) \<longleftrightarrow> genesisTime s \<le> clk 1 \<and>
      (case (case cacheAttCount s of None \<Rightarrow> None | Some m \<Rightarrow> gm_get m parentRoot) of Some c \<Rightarrow> c \<ge> 256 | None \<Rightarrow> n_slot (nodes s p) = 0)"
    using n by (auto simp: same_block_def)
qed

text \<open>
  Whether a received block is stable is decided by the votes recorded before it arrived: the attestations that the block itself carries
  are counted after it has been inserted and make no difference to it.
\<close>
theorem own_attestations_late:
  assumes "chain_reach adm s V" "iter_ok iter" "gm_get (nodeByRoot (ch_fork s)) root = None" "gm_get (nodeByRoot (ch_fork s)) parentRoot = Some p"
    "sv_LatestBlockHeader sv = Some parentRoot"
    "postBlockProcess ce iter ctx clk now elapsed root atts slashings sv st valid s = Ret (s', r, None)"
  shows "let f = ch_fork s; n = nodes (ch_fork s') (nextAddr f)
    in n_root n = root \<and> (n_stabled n \<longleftrightarrow> genesisTime f \<le> clk 1 \<and>
      (case (case cacheAttCount f of None \<Rightarrow> None | Some m \<Rightarrow> gm_get m parentRoot) of Some c \<Rightarrow> c \<ge> 256 | None \<Rightarrow> n_slot (nodes f p) = 0))"
proof -
  have reach: "fc_reach (ch_fork s)" using chain_reach_inv [OF assms(1)] by (simp add: fork_inv_def)
  obtain f where f: "InsertNode iter ctx clk sv root (ch_fork s) = Ret (f, None)" "(fc_step any_ctx)\<^sup>*\<^sup>* f (ch_fork s')"
    by (rule postBlockProcess_steps [OF assms(6,2)])
  note n = InsertNode_stable [OF reach_wf [OF reach] assms(3-5) f(1)]
  have "fc_reach f" by (rule reach.move [OF reach quiet_fc_step [OF quiet_insert [OF assms(2) f(1)]]])
  then have "same_block (nodes (ch_fork s') (nextAddr (ch_fork s))) (nodes f (nextAddr (ch_fork s)))"
    using steps_same_block [OF f(2) _ n(1)] by blast
  then show ?thesis using n(2,3) unfolding Let_def same_block_def by blast
qed

text \<open>
  The function that \<^verbatim>\<open>OnAttestation\<close> defers reads the slot of the attestation for its log, so that a nil attestation, for which an error is
  meant to be returned, panics when the log file can be opened.
\<close>
theorem nil_attestation_panics:
  "ValidateNilAttestation None \<noteq> None \<and> OnAttestation ce True clk disparity None s = Panic
    \<and> (\<exists>err. OnAttestation ce False clk disparity None s = Ret (s, Some err))"
  by (simp add: OnAttestation_def ValidateNilAttestation_def)

subsection \<open>A small service\<close>

definition demo_chain :: "(u64 \<times> nat list) chain_env" where
  "demo_chain = pool_env.extend demo_pool
    \<lparr>ce_hash = (\<lambda>x. x), ce_caches = demo_caches\<lparr>cv_Committee := (\<lambda>_ _ _. (Some (map of_nat [0..<256]), None))\<rparr>,
     ce_bits = \<lparr>bl_Len = (\<lambda>_. 256), bl_BitIndices = (\<lambda>_. [0..<256])\<rparr>, ce_hashCheckpoint = (\<lambda>_. (0, None)), ce_lruAdd = gm_set,
     ce_HeadSlot = 0, ce_HeadState = (None, None), ce_ProcessSlots = (\<lambda>st sl. Ret (Some (st\<lparr>bs_slot := sl\<rparr>), None)),
     ce_StateByRoot = (\<lambda>_. (None, None)), ce_HasStateSummary = (\<lambda>_. True), ce_dbHasBlock = (\<lambda>_. False), ce_dbBlock = (\<lambda>_. (Some 1, None))\<rparr>"

definition demo_service :: "Store \<Rightarrow> AttCaches \<Rightarrow> chain_service" where
  "demo_service f pool = \<lparr>ch_fork = f, ch_pool = pool, ch_states = [(0, demo_state)], ch_initSyncBlocks = [],
     ch_nextSlot = \<lparr>ns_prevRoot = [], ns_lastRoot = [], ns_prevState = None, ns_lastState = None\<rparr>, ch_genesis = 0\<rparr>"

text \<open>The votes of 256 validators for the block with root 2, and a time in the following slot.\<close>
definition quorum_vote :: Attestation where
  "quorum_vote = demo_attestation\<lparr>at_Data := (at_Data demo_attestation)\<lparr>ad_BeaconBlockRoot := replicate 31 0 @ [2]\<rparr>\<rparr>"

definition demo_time :: go_time where "demo_time = 3850 * second_ns"

definition demo_quorum :: Store where
  "demo_quorum = ProcessAttestation (map of_nat [0..<256]) 2 319 two_store"

lemma quorum_vote_facts:
  "at_AggregationBits quorum_vote = [3]" "ad_Slot (at_Data quorum_vote) = 319" "ad_CommitteeIndex (at_Data quorum_vote) = 0"
  "ad_Target (at_Data quorum_vote) = \<lparr>c_Epoch = 9, c_Root = replicate 32 7\<rparr>" "att_root quorum_vote = 2"
proof -
  show "att_root quorum_vote = 2" by code_simp
qed (simp_all add: quorum_vote_def demo_attestation_def)

lemma demo_chain_facts:
  "ce_hash demo_chain = (\<lambda>x. x)" "ce_caches demo_chain = demo_caches\<lparr>cv_Committee := (\<lambda>_ _ _. (Some (map of_nat [0..<256]), None))\<rparr>"
  "ce_bits demo_chain = \<lparr>bl_Len = (\<lambda>_. 256), bl_BitIndices = (\<lambda>_. [0..<256])\<rparr>" "ce_hashCheckpoint demo_chain = (\<lambda>_. (0, None))"
  "ce_HeadSlot demo_chain = 0" "ce_dbBlock demo_chain = (\<lambda>_. (Some 1, None))" "ce_HasStateSummary demo_chain = (\<lambda>_. True)"
  by (simp_all add: demo_chain_def pool_env.defs)

lemma demo_committee:
  "BeaconCommitteeFromState (ce_hash demo_chain) (ce_caches demo_chain) demo_state 319 0 = Ret (map of_nat [0..<256], None)"
proof -
  obtain seed where s: "Seed (\<lambda>x. x) demo_state 9 DomainBeaconAttester = (seed, None)" using small_seed by (metis prod.collapse)
  show ?thesis by (simp add: BeaconCommitteeFromState_def SlotsPerEpoch_def s demo_chain_facts quorum_vote_facts demo_caches_def del: upt_rec_numeral)
qed

lemma demo_attesting: "AttestingIndices (ce_bits demo_chain) bits (map of_nat [0..<256]) = (map of_nat [0..<256], None)"
proof -
  have "filter (\<lambda>i. i < 256) [0..<256] = [0..<256]" by (rule filter_True) simp
  moreover have "map (\<lambda>i. map of_nat [0..<256] ! i) [0..<256] = (map of_nat [0..<256] :: u64 list)" by (rule map_cong) simp_all
  ultimately show ?thesis by (simp add: AttestingIndices_def demo_chain_facts del: upt_rec_numeral)
qed

lemma sorted_256: "sorted_wrt (<) (map of_nat [0..<256] :: u64 list)"
  by (auto simp: sorted_wrt_map word_less_nat_alt unat_of_nat sorted_wrt_iff_nth_less simp del: upt_rec_numeral)

lemma demo_count_votes:
  "count_votes demo_chain quorum_vote demo_state s = Ret (s\<lparr>ch_fork := ProcessAttestation (map of_nat [0..<256]) 2 319 (ch_fork s)\<rparr>, None)"
proof -
  have "sorted (map of_nat [0..<256] :: u64 list)" using sorted_256 strict_sorted_iff by blast
  then have "sort (map of_nat [0..<256] :: u64 list) = map of_nat [0..<256]" by (rule sorted_sort_id)
  moreover have "unique_sorted_loop (map of_nat [0..<256]) = None" using sorted_256 by (simp add: unique_sorted_loop_iff del: upt_rec_numeral)
  ultimately show ?thesis
    by (simp add: count_votes_def demo_committee ConvertToIndexed_def demo_attesting IsValidAttestationIndices_def Let_def MaxValidatorsPerCommittee_def
        quorum_vote_facts del: upt_rec_numeral)
qed

lemma demo_time_ok: "VerifyTime (unix_of demo_time) demo_time (unix_of 0) 320 0 = Ret None"
proof -
  have u: "unix_of demo_time = 3850" "unix_of 0 = 0" by (simp_all add: unix_of_def demo_time_def second_ns_def)
  have "ToTime 0 320 = (3840 * second_ns, None)"
    by (simp add: ToTime_def Slot_SafeMul_def Slot_SafeAdd_def Mul64_def Add64_def SecondsPerSlot_def time_Unix_def)
  moreover have "ValidateClock 3850 320 0 = Ret None"
    by (simp add: ValidateClock_def CurrentSlot_def Slot_Add_def Slot_SafeAdd_def Add64_def SecondsPerSlot_def MaxSlotBuffer_def must_def)
  moreover have "time_Sub (3840 * second_ns) demo_time = word_of_int (-10000000000)" by (simp add: time_Sub_def second_ns_def demo_time_def)
  ultimately show ?thesis by (simp add: VerifyTime_def u)
qed

lemma demo_OnAttestation:
  "OnAttestation demo_chain False (\<lambda>_. demo_time) 0 (Some quorum_vote) (demo_service f pool)
    = Ret (demo_service (ProcessAttestation (map of_nat [0..<256]) 2 319 f) pool, None)"
proof -
  have t: "verifyAttTargetEpoch (unix_of 0) (unix_of (demo_time + sint (0 :: 64 word))) \<lparr>c_Epoch = 9, c_Root = replicate 32 7\<rparr> = Ret None"
    "ValidateSlotTargetEpoch (at_Data quorum_vote) = None" "ToEpoch 0 = Ret 0"
    by code_simp+
  have g: "getAttPreState demo_chain \<lparr>c_Epoch = 9, c_Root = replicate 32 7\<rparr> (demo_service f pool) = Ret (demo_service f pool, Some demo_state, None)"
    by (simp add: getAttPreState_def head_serves_def demo_chain_facts t(3) StateByCheckpoint_def demo_service_def gm_get_def)
  have b: "verifyBeaconBlock demo_chain (at_Data quorum_vote) (demo_service f pool) = None"
    by (simp add: verifyBeaconBlock_def getBlock_def demo_service_def demo_chain_facts quorum_vote_facts gm_get_def)
  show ?thesis
    by (simp add: OnAttestation_def ValidateNilAttestation_def receive_body_def Let_def quorum_vote_facts t(2) g b demo_count_votes del: upt_rec_numeral)
      (use t(1) demo_time_ok in \<open>simp add: demo_service_def del: upt_rec_numeral\<close>)
qed

text \<open>Every answer of the environment is possible.\<close>
abbreviation any_env :: "(u64 \<times> nat list) chain_env \<Rightarrow> bool" where "any_env \<equiv> \<lambda>_. True"

lemma demo_reach_add:
  assumes "chain_reach any_env (demo_service f pool) V"
  shows "chain_reach any_env (demo_service (add_block slot root parent f) pool) V"
proof -
  have "wf_store f" using chain_reach_inv [OF assms] reach_wf by (auto simp: fork_inv_def demo_service_def)
  then obtain t e where r: "InsertNode (map fst) background (\<lambda>_. 1000) (block_view slot parent) root f = Ret (t, e)"
    using InsertNode_returns by blast
  have "chain_step any_env (demo_service f pool, V) ((demo_service f pool)\<lparr>ch_fork := t\<rparr>, V)"
    by (rule chain_step.Fork) (use quiet_insert [OF iter_ok_fst r] in \<open>simp add: demo_service_def\<close>)
  then show ?thesis using reach.move [OF assms] r by (simp add: add_block_def demo_service_def)
qed

lemma demo_reach_two: "chain_reach any_env (demo_service two_store pool) {}"
  unfolding two_store_def by (intro demo_reach_add reach.start) (simp add: chain_init_def demo_service_def)

lemma demo_target_votes: "target_votes demo_chain quorum_vote (demo_service f pool) = {quorum_vote} \<times> set (map of_nat [0..<256])"
proof -
  have "ToEpoch 0 = Ret 0" by code_simp
  then have "getAttPreState demo_chain \<lparr>c_Epoch = 9, c_Root = replicate 32 7\<rparr> (demo_service f pool) = Ret (demo_service f pool, Some demo_state, None)"
    by (simp add: getAttPreState_def head_serves_def demo_chain_facts StateByCheckpoint_def demo_service_def gm_get_def)
  moreover have "named demo_chain demo_state quorum_vote = {quorum_vote} \<times> set (map of_nat [0..<256])"
    by (rule named_eq [OF _ demo_attesting]) (simp add: quorum_vote_facts demo_committee del: upt_rec_numeral)
  ultimately show ?thesis by (simp add: target_votes_def quorum_vote_facts del: upt_rec_numeral)
qed

lemma demo_reach_quorum:
  "chain_reach any_env (demo_service demo_quorum pool) ({quorum_vote} \<times> set (map of_nat [0..<256]))"
proof -
  have "chain_step any_env (demo_service two_store pool, {}) (demo_service demo_quorum pool, {} \<union> target_votes demo_chain quorum_vote (demo_service two_store pool))"
    using chain_step.Attested [where adm = any_env, OF TrueI demo_OnAttestation, of two_store pool "{}"] by (simp add: demo_quorum_def del: upt_rec_numeral)
  then show ?thesis unfolding demo_target_votes using reach.move [OF demo_reach_two] by simp
qed

theorem OnAttestation_effect_witness:
  "ch_fork (demo_service demo_quorum NewAttCaches) = demo_quorum
    \<and> (\<exists>ix. ix \<noteq> [] \<and> distinct ix \<and> demo_quorum = ProcessAttestation (sort ix) 2 319 two_store)"
proof -
  have on: "OnAttestation demo_chain False (\<lambda>_. demo_time) 0 (Some quorum_vote) (demo_service two_store NewAttCaches) = Ret (demo_service demo_quorum NewAttCaches, None)"
    unfolding demo_quorum_def by (rule demo_OnAttestation)
  show ?thesis using OnAttestation_effect [OF on] by (auto simp: quorum_vote_facts demo_service_def)
qed

lemma demo_quorum_facts:
  "gm_get (nodeByRoot demo_quorum) 2 = Some (Suc 0)" "gm_get (nodeByRoot demo_quorum) 3 = None" "nextAddr demo_quorum = 2" "n_root (nodes demo_quorum 0) = 1"
  "n_slot (nodes demo_quorum (Suc 0)) = 1" "voters (nodes demo_quorum (Suc 0)) = set (map of_nat [0..<256])" "genesisTime demo_quorum = 0"
proof -
  have "nextAddr two_store = 2" "n_root (nodes two_store 0) = 1" by code_simp+
  then show "gm_get (nodeByRoot demo_quorum) 2 = Some (Suc 0)" "gm_get (nodeByRoot demo_quorum) 3 = None" "nextAddr demo_quorum = 2" "n_root (nodes demo_quorum 0) = 1"
    "n_slot (nodes demo_quorum (Suc 0)) = 1" "voters (nodes demo_quorum (Suc 0)) = set (map of_nat [0..<256])"
    unfolding demo_quorum_def using ProcessAttestation_nodes [OF two_store_facts(1), where vs = "map of_nat [0..<256]" and sl = 319] two_store_facts
    by (simp_all add: same_block_def voters_def del: upt_rec_numeral)
  show "genesisTime demo_quorum = 0"
    by (simp add: demo_quorum_def ProcessAttestation_def UpdateVoted_def Let_def two_store_facts split: prod.split)
qed

theorem votes_are_attested_witness:
  "\<exists>att. att_root att = 2 \<and> (att, 7) \<in> {quorum_vote} \<times> set (map of_nat [0..<256] :: u64 list)"
proof -
  have "(7 :: u64) \<in> set (map of_nat [0..<256])" by (auto intro!: image_eqI [of _ _ 7])
  then have "Suc 0 < nextAddr (ch_fork (demo_service demo_quorum NewAttCaches))" "7 \<in> voters (nodes (ch_fork (demo_service demo_quorum NewAttCaches)) (Suc 0))"
    by (simp_all add: demo_service_def demo_quorum_facts del: upt_rec_numeral)
  note v = votes_are_attested [OF demo_reach_quorum this]
  have "n_root (nodes demo_quorum (Suc 0)) = 2"
    using wf_lookup_root [OF _ demo_quorum_facts(1)] reach_wf chain_reach_inv [OF demo_reach_quorum [of NewAttCaches]] by (auto simp: fork_inv_def demo_service_def)
  then show ?thesis using v by (auto simp: demo_service_def)
qed

theorem stable_block_quorum_witness:
  "\<exists>W. finite W \<and> 256 \<le> card W \<and> (\<forall>v \<in> W. \<exists>att. (att, v) \<in> {quorum_vote} \<times> set (map of_nat [0..<256] :: u64 list) \<and> att_root att = 2)"
proof -
  let ?s = "demo_service demo_quorum NewAttCaches"
  have f: "ch_fork ?s = demo_quorum" by (simp add: demo_service_def)
  have wf: "wf_store demo_quorum" using chain_reach_inv [OF demo_reach_quorum [of NewAttCaches]] reach_wf by (auto simp: fork_inv_def demo_service_def)
  obtain t a e where r: "insert_node (map fst) background (\<lambda>_. 1000) demo_quorum 2 3 2 3 0 0 = Ret (t, a, e)" by (rule insert_node_returns [OF wf])
  have "cached demo_quorum 2 = 256"
    unfolding demo_quorum_def ProcessAttestation_cached [OF two_store_facts(1)] using card_256 by (simp add: two_store_facts voters_def)
  then obtain m where "cacheAttCount demo_quorum = Some m" "gm_get m 2 = Some 256" by (auto simp: cached_def split: option.splits)
  then have "n_stabled (nodes t a)" using insert_child_node(5) [OF wf demo_quorum_facts(2,1) r] by (simp add: demo_quorum_facts)
  moreover have "b = Suc 0" if "b < nextAddr demo_quorum" "n_root (nodes demo_quorum b) = 2" for b
    using that demo_quorum_facts(3,4) by (cases b) auto
  ultimately show ?thesis
    using stable_block_quorum [OF demo_reach_quorum [of NewAttCaches], unfolded f, OF demo_quorum_facts(2,1) r] demo_quorum_facts(5) by simp
qed

lemma Head_returns:
  assumes "wf_store s" "treeRootNode s \<noteq> None"
  shows "\<exists>t r. Head iter ctx now el s = Ret (t, r)"
proof -
  obtain h e where "updateBestDescendant iter ctx s (cpEpoch (justifiedCheckpoint s)) (cpEpoch (finalizedCheckpoint s))
    (EpochsSinceGenesis (time_Unix (genesisTime s)) now el) = Ret (s\<lparr>headNode := h\<rparr>, e)"
    using updateBestDescendant_cases [OF assms] by blast
  then show ?thesis using assms(2) by (cases e) (auto simp: Head_def Let_def head_def split: option.splits)
qed

definition vote_pool :: AttCaches where
  "vote_pool = NewAttCaches\<lparr>forkchoiceAtt := [(fst (pe_hashAtt demo_chain quorum_vote), quorum_vote)]\<rparr>"

lemma demo_hash: "pe_hashAtt demo_chain quorum_vote = (259, None)"
  by (simp add: demo_chain_def pool_env.defs demo_pool_def agg_env.defs quorum_vote_facts) (simp add: quorum_vote_def demo_attestation_def)

lemma vote_pool_facts:
  "ch_pool (demo_service two_store vote_pool) = vote_pool" "forkchoiceAtt vote_pool = [(259, quorum_vote)]"
  "ForkchoiceAttestations key_order vote_pool = [quorum_vote]"
  "one_ok demo_chain (\<lambda>_. True) (forkchoiceAtt (ch_pool (demo_service two_store vote_pool)))"
  "due demo_chain (\<lambda>_. demo_time) 0 quorum_vote (demo_service two_store vote_pool)"
proof -
  show f: "ch_pool (demo_service two_store vote_pool) = vote_pool" "forkchoiceAtt vote_pool = [(259, quorum_vote)]"
    by (simp_all add: demo_service_def vote_pool_def demo_hash)
  show "ForkchoiceAttestations key_order vote_pool = [quorum_vote]"
    by (simp add: f ForkchoiceAttestations_def key_order_def gm_range_def List.map_filter_simps gm_get_def)
  show "one_ok demo_chain (\<lambda>_. True) (forkchoiceAtt (ch_pool (demo_service two_store vote_pool)))"
    unfolding f by (simp add: one_ok_def gm_get_def demo_hash)
  show "due demo_chain (\<lambda>_. demo_time) 0 quorum_vote (demo_service two_store vote_pool)"
    using demo_time_ok by (simp add: due_def quorum_vote_facts demo_chain_facts hasBlock_def HasNode_def two_store_facts) (simp add: demo_service_def two_store_facts)
qed

lemma demo_target_epoch: "VerifyCheckpointEpoch demo_time \<lparr>c_Epoch = 9, c_Root = replicate 32 7\<rparr> 0 = Ret True"
  by code_simp

lemma demo_taken_out: "\<exists>pool. taken_out demo_chain quorum_vote (demo_service f q) = demo_service f pool"
  by (simp add: taken_out_def demo_service_def)

lemma vote_pool_taken:
  "\<exists>pool. processAttestations demo_chain key_order False (\<lambda>_ _. demo_time) 0 (demo_service two_store vote_pool) = Ret (demo_service demo_quorum pool)"
proof -
  obtain pool where p: "(demo_service two_store vote_pool)\<lparr>ch_pool := fst (DeleteForkchoiceAttestation demo_chain quorum_vote vote_pool)\<rparr> = demo_service two_store pool"
    by (simp add: demo_service_def)
  have "hasBlock demo_chain 2 (demo_service two_store vote_pool)" by (simp add: hasBlock_def HasNode_def demo_service_def two_store_facts)
  then have "process_one demo_chain False (\<lambda>_. demo_time) 0 quorum_vote (demo_service two_store vote_pool)
    = obind (receiveAttestationNoPubsub demo_chain False (\<lambda>_. demo_time) 0 (Some quorum_vote) (demo_service two_store pool)) (\<lambda>(s, _). Ret s)"
    using demo_time_ok demo_target_epoch p
    by (simp add: process_one_def Let_def quorum_vote_facts demo_chain_facts demo_service_def)
  then show ?thesis
    by (simp add: processAttestations_def vote_pool_facts receiveAttestationNoPubsub_def demo_OnAttestation demo_quorum_def del: upt_rec_numeral) blast
qed

theorem UpdateHead_refines_steps_witness:
  "\<exists>s' r. UpdateHead demo_chain key_order (map fst) background False (\<lambda>_ _. demo_time) demo_time 0 0 (demo_service two_store vote_pool) = Ret (s', r)
    \<and> gm_get (forkchoiceAtt (ch_pool s')) 259 = None \<and> set (map of_nat [0..<256]) \<subseteq> voters (nodes (ch_fork s') 1)"
proof -
  let ?s = "demo_service two_store vote_pool"
  obtain pool where p: "processAttestations demo_chain key_order False (\<lambda>_ _. demo_time) 0 ?s = Ret (demo_service demo_quorum pool)"
    using vote_pool_taken by blast
  have wf: "wf_store demo_quorum" using chain_reach_inv [OF demo_reach_quorum [of NewAttCaches]] reach_wf by (auto simp: fork_inv_def demo_service_def)
  have "treeRootNode two_store \<noteq> None" by code_simp
  then have "treeRootNode demo_quorum \<noteq> None" by (simp add: demo_quorum_def ProcessAttestation_def UpdateVoted_def Let_def split: prod.split option.split)
  from Head_returns [OF wf this] obtain t r where "Head (map fst) background demo_time 0 demo_quorum = Ret (t, r)" by blast
  then obtain s' where u: "UpdateHead demo_chain key_order (map fst) background False (\<lambda>_ _. demo_time) demo_time 0 0 ?s = Ret (s', r)"
    using p by (simp add: UpdateHead_def demo_service_def)
  obtain f :: "nat \<Rightarrow> chain_service" and acc where f: "f 0 = ?s" "turn_spec demo_chain False (\<lambda>_. demo_time) 0 quorum_vote ?s (f 1) (acc 0)"
    "gm_get (forkchoiceAtt (ch_pool s')) 259 = None"
    "acc 0 \<longrightarrow> snd ` target_votes demo_chain quorum_vote (taken_out demo_chain quorum_vote ?s) \<subseteq> voters (nodes (ch_fork s') 1)"
    using UpdateHead_refines_steps [where adm = any_env and ord = key_order, OF demo_reach_two TrueI iter_ok_fst u vote_pool_facts(4) key_order]
      vote_pool_facts(5) two_store_facts(1)
    by (auto simp: vote_pool_facts demo_hash quorum_vote_facts) (auto simp: demo_service_def)
  obtain q where q: "taken_out demo_chain quorum_vote ?s = demo_service two_store q" using demo_taken_out by blast
  have g: "ch_genesis ?s = 0" by (simp add: demo_service_def)
  have "acc 0" using f(2) vote_pool_facts(5) demo_target_epoch
    by (auto simp: turn_spec_def g q quorum_vote_facts demo_OnAttestation simp del: upt_rec_numeral)
  then show ?thesis using u f(3,4) unfolding q demo_target_votes by auto
qed

theorem pool_attestations_taken_witness:
  "\<exists>s'. processAttestations demo_chain key_order False (\<lambda>_ _. demo_time) 0 (demo_service two_store vote_pool) = Ret s'
    \<and> gm_get (forkchoiceAtt (ch_pool s')) 259 = None"
proof -
  obtain s' where p: "processAttestations demo_chain key_order False (\<lambda>_ _. demo_time) 0 (demo_service two_store vote_pool) = Ret s'"
    using vote_pool_taken by blast
  show ?thesis
    using pool_attestations_taken [where ord = key_order, OF p vote_pool_facts(4) key_order, of 0] p vote_pool_facts(5) by (simp add: vote_pool_facts demo_hash)
qed

theorem own_attestations_late_witness:
  "\<exists>s' r. postBlockProcess demo_chain (map fst) background (\<lambda>_. 1000) demo_time 0 3 [quorum_vote] [] (block_view 2 2) demo_state False
      (demo_service two_store NewAttCaches) = Ret (s', r, None)
    \<and> n_root (nodes (ch_fork s') 2) = 3 \<and> \<not> n_stabled (nodes (ch_fork s') 2)"
proof -
  let ?s = "demo_service two_store NewAttCaches" and ?f = "add_block 2 3 2 two_store"
  let ?g = "ProcessAttestation (map of_nat [0..<256]) 2 319 ?f"
  have "(case InsertNode (map fst) background (\<lambda>_. 1000) (block_view 2 2) 3 two_store of Ret (t, e) \<Rightarrow> e = None | _ \<Rightarrow> False)" by code_simp
  then have i: "InsertNode (map fst) background (\<lambda>_. 1000) (block_view 2 2) 3 two_store = Ret (?f, None)"
    by (auto simp: add_block_def split: outcome.splits)
  have n: "gm_get (nodeByRoot ?f) 2 = Some 1" "treeRootNode ?f \<noteq> None" by code_simp+
  have h: "handleBlockAttestations demo_chain [quorum_vote] demo_state (demo_service ?f NewAttCaches) = Ret (demo_service ?g NewAttCaches, None)"
    using n(1) by (simp add: quorum_vote_facts demo_committee demo_attesting HasNode_def Let_def del: upt_rec_numeral)
      (simp add: demo_service_def del: upt_rec_numeral)
  have "fc_reach ?g" using reach_vote [OF reach_add_block [OF reach_two_store]] by (simp add: any_ctx_def)
  then obtain t r where hd: "Head (map fst) background demo_time 0 ?g = Ret (t, r)"
    using Head_returns [OF reach_wf, of any_ctx ?g] n(2) by fastforce
  have p: "postBlockProcess demo_chain (map fst) background (\<lambda>_. 1000) demo_time 0 3 [quorum_vote] [] (block_view 2 2) demo_state False ?s
    = Ret (demo_service t NewAttCaches, fst r = 3, None)"
    using i h hd by (cases r) (simp add: postBlockProcess_def Let_def demo_service_def del: upt_rec_numeral handleBlockAttestations.simps)
  have c: "cacheAttCount two_store = None" "nextAddr two_store = 2" by code_simp+
  show ?thesis
    using own_attestations_late [where adm = any_env, OF demo_reach_two iter_ok_fst _ _ _ p] p two_store_facts c
    by (simp add: demo_service_def block_view_def Let_def)
qed

end
