(* ===== verification/AltairEpoch.thy ===== *)
theory AltairEpoch
  imports EpochProcessing BlockAttestations
begin

text \<open>
  Epoch processing since Altair, \<^verbatim>\<open>beacon-chain/core/altair/epoch_precompute.go\<close>, the rotation of the participation flags in \<^verbatim>\<open>epoch_spec.go\<close>,
  and the accessors of the state it uses. Votes are recorded as flags of the state and not as pending attestations; inactivity is a score per validator.
  The records and balances are those of \<^verbatim>\<open>precompute\<close>. On an error the code returns no state; the state given here beside an error is what it had become.
\<close>

subsection \<open>Accessors and parameters\<close>

definition InactivityScoreBias :: u64 where "InactivityScoreBias = 4"
definition InactivityScoreRecoveryRate :: u64 where "InactivityScoreRecoveryRate = 16"
definition InactivityPenaltyQuotientAltair :: u64 where "InactivityPenaltyQuotientAltair = 50331648"
definition InactivityPenaltyQuotientBellatrix :: u64 where "InactivityPenaltyQuotientBellatrix = 16777216"
definition ProportionalSlashingMultiplierAltair :: u64 where "ProportionalSlashingMultiplierAltair = 2"
definition ProportionalSlashingMultiplierBellatrix :: u64 where "ProportionalSlashingMultiplierBellatrix = 3"

lemmas altair_params = InactivityScoreBias_def InactivityScoreRecoveryRate_def InactivityPenaltyQuotientAltair_def
  InactivityPenaltyQuotientBellatrix_def ProportionalSlashingMultiplierAltair_def ProportionalSlashingMultiplierBellatrix_def

definition ProportionalSlashingMultiplier_state :: "BeaconState \<Rightarrow> u64 result" where
  "ProportionalSlashingMultiplier_state s =
    (if bs_version s \<in> {Bellatrix, Capella, Deneb} then (ProportionalSlashingMultiplierBellatrix, None)
     else if bs_version s = Altair then (ProportionalSlashingMultiplierAltair, None)
     else if bs_version s = Phase0 then (ProportionalSlashingMultiplier, None)
     else (0, Some (errNotSupported ''ProportionalSlashingMultiplier()'')))"

definition InactivityPenaltyQuotient_state :: "BeaconState \<Rightarrow> u64 result" where
  "InactivityPenaltyQuotient_state s =
    (if bs_version s \<in> {Bellatrix, Capella, Deneb} then (InactivityPenaltyQuotientBellatrix, None)
     else if bs_version s = Altair then (InactivityPenaltyQuotientAltair, None)
     else if bs_version s = Phase0 then (InactivityPenaltyQuotient, None)
     else (0, Some (errNotSupported ''InactivityPenaltyQuotient()'')))"

definition InactivityScores :: "BeaconState \<Rightarrow> u64 list result" where
  "InactivityScores s = (if bs_version s = Phase0 then ([], Some (errNotSupported ''InactivityScores'')) else (bs_inactivityScores s, None))"

definition SetInactivityScores :: "u64 list \<Rightarrow> BeaconState \<Rightarrow> BeaconState \<times> go_error option" where
  "SetInactivityScores val s = (if bs_version s = Phase0 then (s, Some (errNotSupported ''SetInactivityScores''))
     else (s\<lparr>bs_inactivityScores := val\<rparr>, None))"

definition CurrentEpochParticipation :: "BeaconState \<Rightarrow> u8 list option result" where
  "CurrentEpochParticipation s = (if bs_version s = Phase0 then (None, Some (errNotSupported ''CurrentEpochParticipation''))
     else (bs_currentEpochParticipation s, None))"

definition PreviousEpochParticipation :: "BeaconState \<Rightarrow> u8 list option result" where
  "PreviousEpochParticipation s = (if bs_version s = Phase0 then (None, Some (errNotSupported ''PreviousEpochParticipation''))
     else (bs_previousEpochParticipation s, None))"

definition SetPreviousParticipationBits :: "u8 list option \<Rightarrow> BeaconState \<Rightarrow> BeaconState \<times> go_error option" where
  "SetPreviousParticipationBits val s = (if bs_version s = Phase0 then (s, Some (errNotSupported ''SetPreviousParticipationBits''))
     else (s\<lparr>bs_previousEpochParticipation := val\<rparr>, None))"

definition SetCurrentParticipationBits :: "u8 list option \<Rightarrow> BeaconState \<Rightarrow> BeaconState \<times> go_error option" where
  "SetCurrentParticipationBits val s = (if bs_version s = Phase0 then (s, Some (errNotSupported ''SetCurrentParticipationBits''))
     else (s\<lparr>bs_currentEpochParticipation := val\<rparr>, None))"

subsection \<open>Records\<close>

definition init_record :: "Epoch \<Rightarrow> Epoch \<Rightarrow> u64 \<Rightarrow> Validator \<Rightarrow> PValidator" where
  "init_record currentEpoch prevEpoch score val = zero_pvalidator
    \<lparr>pv_CurrentEpochEffectiveBalance := v_EffectiveBalance val, pv_InactivityScore := score, pv_IsSlashed := v_Slashed val,
     pv_IsWithdrawableCurrentEpoch := (currentEpoch \<ge> v_WithdrawableEpoch val),
     pv_IsActiveCurrentEpoch := IsActiveValidatorUsingTrie val currentEpoch, pv_IsActivePrevEpoch := IsActiveValidatorUsingTrie val prevEpoch\<rparr>"

definition init_step ::
  "u64 list \<Rightarrow> Epoch \<Rightarrow> Epoch \<Rightarrow> nat \<Rightarrow> Validator \<Rightarrow> PValidator list \<times> Balance \<Rightarrow> (PValidator list \<times> Balance) result" where
  "init_step scores currentEpoch prevEpoch idx val = (\<lambda>(vp, bal).
    case (if IsActiveValidatorUsingTrie val currentEpoch then Add64 (pb_ActiveCurrentEpoch bal) (v_EffectiveBalance val)
          else (pb_ActiveCurrentEpoch bal, None)) of
      (x, Some err) \<Rightarrow> ((vp, bal\<lparr>pb_ActiveCurrentEpoch := x\<rparr>), Some err)
    | (x, None) \<Rightarrow>
        (case (if IsActiveValidatorUsingTrie val prevEpoch then Add64 (pb_ActivePrevEpoch bal) (v_EffectiveBalance val)
               else (pb_ActivePrevEpoch bal, None)) of
           (y, Some err) \<Rightarrow> ((vp, bal\<lparr>pb_ActiveCurrentEpoch := x, pb_ActivePrevEpoch := y\<rparr>), Some err)
         | (y, None) \<Rightarrow> ((vp[idx := init_record currentEpoch prevEpoch (scores ! idx) val],
             bal\<lparr>pb_ActiveCurrentEpoch := x, pb_ActivePrevEpoch := y\<rparr>), None)))"

definition InitializePrecomputeValidators :: "BeaconState \<Rightarrow> (PValidator list \<times> Balance) option result" where
  "InitializePrecomputeValidators s = (case InactivityScores s of
     (_, Some err) \<Rightarrow> (None, Some err)
   | (inactivityScores, None) \<Rightarrow>
       if NumValidators s \<noteq> int (length inactivityScores)
       then (None, Some (Fresh ''num of validators is different than num of inactivity scores''))
       else case ReadFromEveryValidator s (init_step inactivityScores (CurrentEpoch s) (PrevEpoch s))
              (replicate (nat (NumValidators s)) zero_pvalidator, zero_balance) of
          (_, Some err) \<Rightarrow> (None, Some (Wrap ''could not read every validator'' err))
        | (r, None) \<Rightarrow> (Some r, None))"

subsection \<open>Participation\<close>

text \<open>A flag of one entry, and what it changes in the record of the validator; the record is only looked up when the flag is set.\<close>
definition mark_flag ::
  "u8 \<Rightarrow> u8 \<Rightarrow> (PValidator \<Rightarrow> bool) \<Rightarrow> (PValidator \<Rightarrow> PValidator) \<Rightarrow> nat \<Rightarrow> PValidator list \<Rightarrow> PValidator list result outcome" where
  "mark_flag b pos active upd i vp = (case HasValidatorFlag b pos of
     (_, Some err) \<Rightarrow> Ret (vp, Some err)
   | (has, None) \<Rightarrow>
       if \<not> has then Ret (vp, None)
       else if length vp \<le> i then Panic
       else Ret (if active (vp ! i) then vp[i := upd (vp ! i)] else vp, None))"

definition ok_then :: "'a result outcome \<Rightarrow> ('a \<Rightarrow> 'a result outcome) \<Rightarrow> 'a result outcome" where
  "ok_then m f = obind m (\<lambda>r. case r of (x, Some err) \<Rightarrow> Ret (x, Some err) | (x, None) \<Rightarrow> f x)"

fun current_loop :: "nat \<Rightarrow> u8 list \<Rightarrow> PValidator list \<Rightarrow> PValidator list result outcome" where
  "current_loop i [] vp = Ret (vp, None)"
| "current_loop i (b # cp) vp =
    ok_then (mark_flag b TimelySourceFlagIndex pv_IsActiveCurrentEpoch (\<lambda>v. v\<lparr>pv_IsCurrentEpochAttester := True\<rparr>) i vp) (\<lambda>vp.
    ok_then (mark_flag b TargetFlag pv_IsActiveCurrentEpoch
        (\<lambda>v. v\<lparr>pv_IsCurrentEpochAttester := True, pv_IsCurrentEpochTargetAttester := True\<rparr>) i vp)
      (current_loop (Suc i) cp))"

fun previous_loop :: "nat \<Rightarrow> u8 list \<Rightarrow> PValidator list \<Rightarrow> PValidator list result outcome" where
  "previous_loop i [] vp = Ret (vp, None)"
| "previous_loop i (b # pp) vp =
    ok_then (mark_flag b TimelySourceFlagIndex pv_IsActivePrevEpoch
        (\<lambda>v. v\<lparr>pv_IsPrevEpochAttester := True, pv_IsPrevEpochSourceAttester := True\<rparr>) i vp) (\<lambda>vp.
    ok_then (mark_flag b TargetFlag pv_IsActivePrevEpoch
        (\<lambda>v. v\<lparr>pv_IsPrevEpochAttester := True, pv_IsPrevEpochTargetAttester := True\<rparr>) i vp) (\<lambda>vp.
    ok_then (mark_flag b TimelyHeadFlagIndex pv_IsActivePrevEpoch (\<lambda>v. v\<lparr>pv_IsPrevEpochHeadAttester := True\<rparr>) i vp)
      (previous_loop (Suc i) pp)))"

text \<open>Ranging over a nil slice does nothing.\<close>
definition ranged :: "'a list option \<Rightarrow> 'a list" where
  "ranged x = (case x of None \<Rightarrow> [] | Some xs \<Rightarrow> xs)"

definition ProcessEpochParticipation ::
  "BeaconState \<Rightarrow> Balance \<Rightarrow> PValidator list \<Rightarrow> (PValidator list \<times> Balance) option result outcome" where
  "ProcessEpochParticipation s bal vp = (case CurrentEpochParticipation s of
     (_, Some err) \<Rightarrow> Ret (None, Some err)
   | (cp, None) \<Rightarrow> obind (current_loop 0 (ranged cp) vp) (\<lambda>r. case r of
       (_, Some err) \<Rightarrow> Ret (None, Some err)
     | (vp, None) \<Rightarrow> (case PreviousEpochParticipation s of
         (_, Some err) \<Rightarrow> Ret (None, Some err)
       | (pp, None) \<Rightarrow> obind (previous_loop 0 (ranged pp) vp) (\<lambda>r. case r of
           (_, Some err) \<Rightarrow> Ret (None, Some err)
         | (vp, None) \<Rightarrow> Ret (Some (vp, UpdateBalance vp bal (bs_version s)), None)))))"

subsection \<open>Inactivity scores\<close>

text \<open>The new score of an eligible validator.\<close>
definition new_score :: "bool \<Rightarrow> PValidator \<Rightarrow> u64 result" where
  "new_score leak v =
    (case (if pv_IsPrevEpochTargetAttester v \<and> \<not> pv_IsSlashed v
           then (if pv_InactivityScore v > 0 then pv_InactivityScore v - 1 else pv_InactivityScore v, None)
           else Add64 (pv_InactivityScore v) InactivityScoreBias) of
       (x, Some err) \<Rightarrow> (x, Some err)
     | (x, None) \<Rightarrow> (if leak then x
         else x - (if InactivityScoreRecoveryRate > x then x else InactivityScoreRecoveryRate), None))"

text \<open>The records before \<open>i\<close> are done; those from \<open>i\<close> on are the list that is walked.\<close>
fun scores_loop :: "bool \<Rightarrow> nat \<Rightarrow> PValidator list \<Rightarrow> u64 list \<times> PValidator list \<Rightarrow> (u64 list \<times> PValidator list) result outcome" where
  "scores_loop leak i [] (scores, vp) = Ret ((scores, vp), None)"
| "scores_loop leak i (v # vs) (scores, vp) =
    (if \<not> EligibleForRewards v then scores_loop leak (Suc i) vs (scores, vp)
     else case new_score leak v of
       (x, Some err) \<Rightarrow> Ret ((scores, vp[i := v\<lparr>pv_InactivityScore := x\<rparr>]), Some err)
     | (x, None) \<Rightarrow> if length scores \<le> i then Panic
         else scores_loop leak (Suc i) vs (scores[i := x], vp[i := v\<lparr>pv_InactivityScore := x\<rparr>]))"

definition ProcessInactivityScores :: "BeaconState \<Rightarrow> PValidator list \<Rightarrow> (BeaconState \<times> PValidator list \<times> go_error option) outcome" where
  "ProcessInactivityScores s vp =
    (if CurrentEpoch s = GenesisEpoch then Ret (s, vp, None)
     else case InactivityScores s of
       (_, Some err) \<Rightarrow> Ret (s, vp, Some err)
     | (inactivityScores, None) \<Rightarrow>
         obind (scores_loop (IsInInactivityLeak (PrevEpoch s) (c_Epoch (bs_finalizedCheckpoint s))) 0 vp (inactivityScores, vp)) (\<lambda>r. case r of
           ((_, vp), Some err) \<Rightarrow> Ret (s, vp, Some err)
         | ((inactivityScores, vp), None) \<Rightarrow> (case SetInactivityScores inactivityScores s of (s, err) \<Rightarrow> Ret (s, vp, err))))"

subsection \<open>Rewards and penalties\<close>

record AttDelta =
  dl_HeadReward :: u64
  dl_SourceReward :: u64
  dl_SourcePenalty :: u64
  dl_TargetReward :: u64
  dl_TargetPenalty :: u64
  dl_InactivityPenalty :: u64

definition zero_delta :: AttDelta where
  "zero_delta = \<lparr>dl_HeadReward = 0, dl_SourceReward = 0, dl_SourcePenalty = 0, dl_TargetReward = 0, dl_TargetPenalty = 0, dl_InactivityPenalty = 0\<rparr>"

text \<open>The reward for one flag; there is none during a leak.\<close>
definition flag_reward :: "u64 \<Rightarrow> u64 \<Rightarrow> u64 \<Rightarrow> u64 \<Rightarrow> bool \<Rightarrow> u64 outcome" where
  "flag_reward baseReward weight attested activeIncrement leak =
    (if leak then Ret 0
     else let n = baseReward * weight * (attested div EffectiveBalanceIncrement); d = activeIncrement * WeightDenominator
          in if d = 0 then Panic else Ret (n div d))"

definition attestationDelta_altair :: "Balance \<Rightarrow> PValidator \<Rightarrow> u64 \<Rightarrow> u64 \<Rightarrow> bool \<Rightarrow> AttDelta result outcome" where
  "attestationDelta_altair bal val baseRewardMultiplier inactivityDenominator inactivityLeak =
    (let eligible = pv_IsActivePrevEpoch val \<or> pv_IsSlashed val \<and> \<not> pv_IsWithdrawableCurrentEpoch val
     in if \<not> eligible \<or> pb_ActiveCurrentEpoch bal = 0 then Ret (zero_delta, None)
        else
          let effectiveBalance = pv_CurrentEpochEffectiveBalance val;
              baseReward = (effectiveBalance div EffectiveBalanceIncrement) * baseRewardMultiplier;
              activeIncrement = pb_ActiveCurrentEpoch bal div EffectiveBalanceIncrement
          in obind (if pv_IsPrevEpochSourceAttester val \<and> \<not> pv_IsSlashed val
                then obind (flag_reward baseReward TimelySourceWeight (pb_PrevEpochAttested bal) activeIncrement inactivityLeak)
                       (\<lambda>r. Ret (zero_delta\<lparr>dl_SourceReward := r\<rparr>))
                else Ret (zero_delta\<lparr>dl_SourcePenalty := baseReward * TimelySourceWeight div WeightDenominator\<rparr>)) (\<lambda>d.
             obind (if pv_IsPrevEpochTargetAttester val \<and> \<not> pv_IsSlashed val
                then obind (flag_reward baseReward TimelyTargetWeight (pb_PrevEpochTargetAttested bal) activeIncrement inactivityLeak)
                       (\<lambda>r. Ret (d\<lparr>dl_TargetReward := r\<rparr>))
                else Ret (d\<lparr>dl_TargetPenalty := baseReward * TimelyTargetWeight div WeightDenominator\<rparr>)) (\<lambda>d.
             obind (if pv_IsPrevEpochHeadAttester val \<and> \<not> pv_IsSlashed val
                then obind (flag_reward baseReward TimelyHeadWeight (pb_PrevEpochHeadAttested bal) activeIncrement inactivityLeak)
                       (\<lambda>r. Ret (d\<lparr>dl_HeadReward := r\<rparr>))
                else Ret d) (\<lambda>d.
             if \<not> pv_IsPrevEpochTargetAttester val \<or> pv_IsSlashed val
             then (case Mul64 effectiveBalance (pv_InactivityScore val) of
                 (_, Some err) \<Rightarrow> Ret (zero_delta, Some err)
               | (n, None) \<Rightarrow> if inactivityDenominator = 0 then Panic else Ret (d\<lparr>dl_InactivityPenalty := n div inactivityDenominator\<rparr>, None))
             else Ret (d, None)))))"

fun altair_deltas_loop :: "Balance \<Rightarrow> u64 \<Rightarrow> u64 \<Rightarrow> bool \<Rightarrow> PValidator list \<Rightarrow> AttDelta list result outcome" where
  "altair_deltas_loop bal m d leak [] = Ret ([], None)"
| "altair_deltas_loop bal m d leak (v # vp) = obind (attestationDelta_altair bal v m d leak) (\<lambda>r. case r of
     (_, Some err) \<Rightarrow> Ret ([], Some err)
   | (x, None) \<Rightarrow> obind (altair_deltas_loop bal m d leak vp) (\<lambda>r. case r of
       (_, Some err) \<Rightarrow> Ret ([], Some err)
     | (xs, None) \<Rightarrow> Ret (x # xs, None)))"

definition AttestationsDelta_altair ::
  "sqrt_cache \<Rightarrow> BeaconState \<Rightarrow> Balance \<Rightarrow> PValidator list \<Rightarrow> (sqrt_cache \<times> AttDelta list result) outcome" where
  "AttestationsDelta_altair c s bal vp =
    obind (CachedSquareRoot c (pb_ActiveCurrentEpoch bal)) (\<lambda>(c, root).
      if root = 0 then Panic
      else let baseRewardMultiplier = EffectiveBalanceIncrement * BaseRewardFactor div root;
               leak = IsInInactivityLeak (PrevEpoch s) (c_Epoch (bs_finalizedCheckpoint s))
           in case InactivityPenaltyQuotient_state s of
                (_, Some err) \<Rightarrow> Ret (c, [], Some err)
              | (inactivityPenaltyQuotient, None) \<Rightarrow>
                  obind (altair_deltas_loop bal baseRewardMultiplier (InactivityScoreBias * inactivityPenaltyQuotient) leak vp)
                    (\<lambda>r. Ret (c, r)))"

definition delta_reward :: "AttDelta \<Rightarrow> u64" where
  "delta_reward d = dl_HeadReward d + dl_SourceReward d + dl_TargetReward d"

definition delta_penalty :: "AttDelta \<Rightarrow> u64" where
  "delta_penalty d = dl_SourcePenalty d + dl_TargetPenalty d + dl_InactivityPenalty d"

fun altair_rewards_loop ::
  "AttDelta list \<Rightarrow> nat list \<Rightarrow> u64 list \<times> PValidator list \<Rightarrow> (u64 list \<times> PValidator list) result outcome" where
  "altair_rewards_loop attDeltas [] (balances, vp) = Ret ((balances, vp), None)"
| "altair_rewards_loop attDeltas (i # is) (balances, vp) =
    (let vp = vp[i := (vp ! i)\<lparr>pv_BeforeEpochTransitionBalance := balances ! i\<rparr>]
     in if length attDeltas \<le> i then Panic
        else case IncreaseBalanceWithVal (balances ! i) (delta_reward (attDeltas ! i)) of
          (b, Some err) \<Rightarrow> Ret ((balances[i := b], vp), Some err)
        | (b, None) \<Rightarrow>
            let b = DecreaseBalanceWithVal b (delta_penalty (attDeltas ! i))
            in altair_rewards_loop attDeltas is (balances[i := b], vp[i := (vp ! i)\<lparr>pv_AfterEpochTransitionBalance := b\<rparr>]))"

definition ProcessRewardsAndPenaltiesPrecompute_altair ::
  "sqrt_cache \<Rightarrow> BeaconState \<Rightarrow> Balance \<Rightarrow> PValidator list \<Rightarrow> (sqrt_cache \<times> PValidator list \<times> BeaconState \<times> go_error option) outcome" where
  "ProcessRewardsAndPenaltiesPrecompute_altair c s bal vp =
    (if CurrentEpoch s = GenesisEpoch then Ret (c, vp, s, None)
     else let numOfVals = NumValidators s
       in if int (length vp) \<noteq> numOfVals \<or> int (length vp) \<noteq> BalancesLength s
          then Ret (c, vp, s, Some (Fresh ''validator registries not the same length as state's validator registries''))
          else obind (AttestationsDelta_altair c s bal vp) (\<lambda>r. case r of
            (c, _, Some err) \<Rightarrow> Ret (c, vp, s, Some (Wrap ''could not get attestation delta'' err))
          | (c, attDeltas, None) \<Rightarrow> obind (altair_rewards_loop attDeltas [0..<nat numOfVals] (bals s, vp)) (\<lambda>r. case r of
              ((_, vp), Some err) \<Rightarrow> Ret (c, vp, s, Some err)
            | ((balances, vp), None) \<Rightarrow> Ret (c, vp, SetBalances (Some balances) s, None))))"

subsection \<open>Flags of the next epoch\<close>

definition ProcessParticipationFlagUpdates :: "BeaconState \<Rightarrow> BeaconState \<times> go_error option" where
  "ProcessParticipationFlagUpdates s = (case CurrentEpochParticipation s of
     (_, Some err) \<Rightarrow> (s, Some err)
   | (c, None) \<Rightarrow> (case SetPreviousParticipationBits c s of
       (s, Some err) \<Rightarrow> (s, Some err)
     | (s, None) \<Rightarrow> SetCurrentParticipationBits (Some (replicate (nat (NumValidators s)) 0)) s))"

end
