(* ===== verification/AltairBalances.thy ===== *)
theory AltairBalances
  imports AltairEpoch
begin

text \<open>
  What the epoch processing since Altair computes from the flags of the state: records and balances are those of the specification, the
  unrealized checkpoints that the fork choice asks for are the ones that the end of the epoch brings, scores and deltas are those of the specification.
\<close>

subsection \<open>Records\<close>

lemma flag_index_bits: "HasValidatorFlag b TimelySourceFlagIndex = (bit b 0, None)" "HasValidatorFlag b TargetFlag = (bit b 1, None)"
  "HasValidatorFlag b TimelyHeadFlagIndex = (bit b 2, None)"
  by (simp_all add: HasValidatorFlag_bit TimelySourceFlagIndex_def TimelyTargetFlagIndex_def TimelyHeadFlagIndex_def)

definition mark_current :: "u8 \<Rightarrow> PValidator \<Rightarrow> PValidator" where
  "mark_current c v = v\<lparr>pv_IsCurrentEpochAttester := pv_IsCurrentEpochAttester v \<or> pv_IsActiveCurrentEpoch v \<and> (bit c 0 \<or> bit c 1),
     pv_IsCurrentEpochTargetAttester := pv_IsCurrentEpochTargetAttester v \<or> pv_IsActiveCurrentEpoch v \<and> bit c 1\<rparr>"

definition mark_previous :: "u8 \<Rightarrow> PValidator \<Rightarrow> PValidator" where
  "mark_previous p v = v\<lparr>pv_IsPrevEpochAttester := pv_IsPrevEpochAttester v \<or> pv_IsActivePrevEpoch v \<and> (bit p 0 \<or> bit p 1),
     pv_IsPrevEpochSourceAttester := pv_IsPrevEpochSourceAttester v \<or> pv_IsActivePrevEpoch v \<and> bit p 0,
     pv_IsPrevEpochTargetAttester := pv_IsPrevEpochTargetAttester v \<or> pv_IsActivePrevEpoch v \<and> bit p 1,
     pv_IsPrevEpochHeadAttester := pv_IsPrevEpochHeadAttester v \<or> pv_IsActivePrevEpoch v \<and> bit p 2\<rparr>"

lemma mark_flag_eq:
  assumes "i < length vp" "HasValidatorFlag b pos = (h, None)"
  shows "mark_flag b pos active upd i vp = Ret (vp[i := if h \<and> active (vp ! i) then upd (vp ! i) else vp ! i], None)"
  using assms by (simp add: mark_flag_def)

lemma current_step:
  assumes "i < length vp"
  shows "current_loop i (b # cp) vp = current_loop (Suc i) cp (vp[i := mark_current b (vp ! i)])"
proof -
  have "(if bit b 1 \<and> pv_IsActiveCurrentEpoch w then w\<lparr>pv_IsCurrentEpochAttester := True, pv_IsCurrentEpochTargetAttester := True\<rparr> else w)
      = mark_current b v" if "w = (if bit b 0 \<and> pv_IsActiveCurrentEpoch v then v\<lparr>pv_IsCurrentEpochAttester := True\<rparr> else v)" for v w
    unfolding that by (cases v) (auto simp: mark_current_def)
  then show ?thesis using assms by (simp add: ok_then_def mark_flag_eq [OF _ flag_index_bits(1)] mark_flag_eq [OF _ flag_index_bits(2)])
qed

lemma previous_step:
  assumes "i < length vp"
  shows "previous_loop i (b # pp) vp = previous_loop (Suc i) pp (vp[i := mark_previous b (vp ! i)])"
proof -
  have "(if bit b 2 \<and> pv_IsActivePrevEpoch x then x\<lparr>pv_IsPrevEpochHeadAttester := True\<rparr> else x) = mark_previous b v"
    if "w = (if bit b 0 \<and> pv_IsActivePrevEpoch v then v\<lparr>pv_IsPrevEpochAttester := True, pv_IsPrevEpochSourceAttester := True\<rparr> else v)"
      "x = (if bit b 1 \<and> pv_IsActivePrevEpoch w then w\<lparr>pv_IsPrevEpochAttester := True, pv_IsPrevEpochTargetAttester := True\<rparr> else w)" for v w x
    unfolding that by (cases v) (auto simp: mark_previous_def)
  then show ?thesis using assms
    by (simp add: ok_then_def mark_flag_eq [OF _ flag_index_bits(1)] mark_flag_eq [OF _ flag_index_bits(2)] mark_flag_eq [OF _ flag_index_bits(3)])
qed

text \<open>A loop that rewrites one entry after the other is a map over the entries.\<close>
lemma entrywise_loop:
  assumes "\<And>i b bs vp. i < length vp \<Longrightarrow> loop i (b # bs) vp = loop (Suc i) bs (vp[i := f b (vp ! i)])" "\<And>i vp. loop i [] vp = Ret (vp, None)"
    "length bs + k = length vp"
  shows "loop k bs vp = Ret (take k vp @ map2 f bs (drop k vp), None)"
  using assms(3)
proof (induction bs arbitrary: k vp)
  case (Cons b bs)
  have k: "k < length vp" using Cons.prems by simp
  have "drop k vp = vp ! k # drop (Suc k) vp" using Cons_nth_drop_Suc [OF k] by simp
  moreover have "take (Suc k) (vp[k := x]) = take k vp @ [x]" for x using k by (simp add: take_Suc_conv_app_nth)
  ultimately show ?case using Cons.IH [of "Suc k" "vp[k := f b (vp ! k)]"] Cons.prems k by (simp add: assms(1))
qed (simp add: assms(2))

lemma current_loop_eq: "length cp = length vp \<Longrightarrow> current_loop 0 cp vp = Ret (map2 mark_current cp vp, None)"
  by (subst entrywise_loop [where loop = current_loop, OF current_step]) simp_all

lemma previous_loop_eq: "length pp = length vp \<Longrightarrow> previous_loop 0 pp vp = Ret (map2 mark_previous pp vp, None)"
  by (subst entrywise_loop [where loop = previous_loop, OF previous_step]) simp_all

subsection \<open>Sums of balances\<close>

abbreviation total_eff :: "Validator list \<Rightarrow> nat" where
  "total_eff vs \<equiv> (\<Sum>v \<leftarrow> vs. unat (v_EffectiveBalance v))"

text \<open>The effective balance of the validators at which a condition on index and validator holds, as a 64-bit sum.\<close>
definition balance_of :: "('a \<Rightarrow> Validator \<Rightarrow> bool) \<Rightarrow> 'a list \<Rightarrow> Validator list \<Rightarrow> u64" where
  "balance_of Q xs vs = (\<Sum>(x, v) \<leftarrow> zip xs vs. if Q x v then v_EffectiveBalance v else 0)"

lemma balance_of_simps [simp]: "balance_of Q [] vs = 0" "balance_of Q xs [] = 0"
  "balance_of Q (x # xs) (v # vs) = (if Q x v then v_EffectiveBalance v else 0) + balance_of Q xs vs"
  by (simp_all add: balance_of_def)


lemma Add64_eq: "unat a + unat b < 2 ^ 64 \<Longrightarrow> Add64 a b = (a + b, None)"
  by (simp add: Add64_def)


lemma init_step_eq:
  assumes "unat (pb_ActiveCurrentEpoch b) + unat (v_EffectiveBalance v) < 2 ^ 64" "unat (pb_ActivePrevEpoch b) + unat (v_EffectiveBalance v) < 2 ^ 64"
  shows "init_step scores ce pe k v (vp, b) = ((vp[k := init_record ce pe (scores ! k) v],
    b\<lparr>pb_ActiveCurrentEpoch := pb_ActiveCurrentEpoch b + (if IsActiveValidatorUsingTrie v ce then v_EffectiveBalance v else 0),
      pb_ActivePrevEpoch := pb_ActivePrevEpoch b + (if IsActiveValidatorUsingTrie v pe then v_EffectiveBalance v else 0)\<rparr>), None)"
  using assms by (simp add: init_step_def Add64_eq)

lemma init_loop:
  assumes "unat (pb_ActiveCurrentEpoch b) + total_eff vs < 2 ^ 64" "unat (pb_ActivePrevEpoch b) + total_eff vs < 2 ^ 64"
    "k + length vs = length vp" "length vp = length scores"
  shows "read_every (init_step scores ce pe) k vs (vp, b) = ((take k vp @ map2 (init_record ce pe) (drop k scores) vs,
    b\<lparr>pb_ActiveCurrentEpoch := pb_ActiveCurrentEpoch b + balance_of (\<lambda>_ v. IsActiveValidatorUsingTrie v ce) (drop k scores) vs,
      pb_ActivePrevEpoch := pb_ActivePrevEpoch b + balance_of (\<lambda>_ v. IsActiveValidatorUsingTrie v pe) (drop k scores) vs\<rparr>), None)"
  using assms
proof (induction vs arbitrary: k vp b)
  case (Cons v vs)
  let ?a = "\<lambda>e. if IsActiveValidatorUsingTrie v e then v_EffectiveBalance v else 0"
  let ?b = "b\<lparr>pb_ActiveCurrentEpoch := pb_ActiveCurrentEpoch b + ?a ce, pb_ActivePrevEpoch := pb_ActivePrevEpoch b + ?a pe\<rparr>"
  have a: "unat (x + ?a e) \<le> unat x + unat (v_EffectiveBalance v)" if "unat x + unat (v_EffectiveBalance v) < 2 ^ 64" for x e
    using unat_add_no_wrap [OF that] by simp
  have k: "k < length vp" "k < length scores" using Cons.prems(3,4) by simp_all
  have d: "drop k scores = scores ! k # drop (Suc k) scores" using Cons_nth_drop_Suc [OF k(2)] by simp
  have t: "take (Suc k) (vp[k := x]) = take k vp @ [x]" for x using k by (simp add: take_Suc_conv_app_nth)
  have "unat (pb_ActiveCurrentEpoch ?b) + total_eff vs < 2 ^ 64" "unat (pb_ActivePrevEpoch ?b) + total_eff vs < 2 ^ 64"
    using a [of "pb_ActiveCurrentEpoch b" ce] a [of "pb_ActivePrevEpoch b" pe] Cons.prems(1,2) by simp_all
  then have "read_every (init_step scores ce pe) (Suc k) vs (vp[k := init_record ce pe (scores ! k) v], ?b)
    = ((take (Suc k) (vp[k := init_record ce pe (scores ! k) v]) @ map2 (init_record ce pe) (drop (Suc k) scores) vs,
      ?b\<lparr>pb_ActiveCurrentEpoch := pb_ActiveCurrentEpoch ?b + balance_of (\<lambda>_ v. IsActiveValidatorUsingTrie v ce) (drop (Suc k) scores) vs,
        pb_ActivePrevEpoch := pb_ActivePrevEpoch ?b + balance_of (\<lambda>_ v. IsActiveValidatorUsingTrie v pe) (drop (Suc k) scores) vs\<rparr>), None)"
    by (rule Cons.IH) (use Cons.prems(3,4) in simp_all)
  moreover have "init_step scores ce pe k v (vp, b) = ((vp[k := init_record ce pe (scores ! k) v], ?b), None)"
    by (rule init_step_eq) (use Cons.prems(1,2) in simp_all)
  ultimately show ?case by (simp add: t d add.assoc)
qed simp

lemma attested_sums:
  "pb_PrevEpochTargetAttested (fold (add_balances ver) vp b) = pb_PrevEpochTargetAttested b
     + (\<Sum>v \<leftarrow> vp. if \<not> pv_IsSlashed v \<and> pv_IsPrevEpochTargetAttester v then pv_CurrentEpochEffectiveBalance v else 0)"
  "pb_CurrentEpochTargetAttested (fold (add_balances ver) vp b) = pb_CurrentEpochTargetAttested b
     + (\<Sum>v \<leftarrow> vp. if \<not> pv_IsSlashed v \<and> pv_IsCurrentEpochTargetAttester v then pv_CurrentEpochEffectiveBalance v else 0)"
  "pb_PrevEpochHeadAttested (fold (add_balances ver) vp b) = pb_PrevEpochHeadAttested b
     + (\<Sum>v \<leftarrow> vp. if \<not> pv_IsSlashed v \<and> pv_IsPrevEpochHeadAttester v then pv_CurrentEpochEffectiveBalance v else 0)"
  "Altair \<le> ver \<Longrightarrow> pb_PrevEpochAttested (fold (add_balances ver) vp b) = pb_PrevEpochAttested b
     + (\<Sum>v \<leftarrow> vp. if \<not> pv_IsSlashed v \<and> pv_IsPrevEpochSourceAttester v then pv_CurrentEpochEffectiveBalance v else 0)"
  by (induction vp arbitrary: b) (simp_all add: add_balances_def Let_def add.assoc Phase0_def Altair_def)

lemma lower_bounds:
  "pb_PrevEpochTargetAttested (EnsureBalancesLowerBound b) = math_Max EffectiveBalanceIncrement (pb_PrevEpochTargetAttested b)"
  "pb_CurrentEpochTargetAttested (EnsureBalancesLowerBound b) = math_Max EffectiveBalanceIncrement (pb_CurrentEpochTargetAttested b)"
  "pb_PrevEpochHeadAttested (EnsureBalancesLowerBound b) = math_Max EffectiveBalanceIncrement (pb_PrevEpochHeadAttested b)"
  "pb_PrevEpochAttested (EnsureBalancesLowerBound b) = math_Max EffectiveBalanceIncrement (pb_PrevEpochAttested b)"
  by (simp_all add: EnsureBalancesLowerBound_def math_Max_def Let_def)

subsection \<open>Records and balances of an epoch\<close>

definition altair_records :: "Epoch \<Rightarrow> Epoch \<Rightarrow> u64 list \<Rightarrow> Validator list \<Rightarrow> u8 list \<Rightarrow> u8 list \<Rightarrow> PValidator list" where
  "altair_records ce pe scores vs cp pp = map2 mark_previous pp (map2 mark_current cp (map2 (init_record ce pe) scores vs))"

text \<open>The validators that took part with a flag: active in the epoch, not slashed, the flag set.\<close>
definition participates :: "Epoch \<Rightarrow> nat \<Rightarrow> u8 \<Rightarrow> Validator \<Rightarrow> bool" where
  "participates e flag b v \<longleftrightarrow> IsActiveValidatorUsingTrie v e \<and> \<not> v_Slashed v \<and> bit b flag"

lemmas record_simps = mark_previous_def mark_current_def init_record_def zero_pvalidator_def participates_def

lemma record_sums:
  fixes ce pe :: Epoch
  assumes "length scores = length vs" "length vs = length cp" "length cp = length pp"
  defines "vp \<equiv> altair_records ce pe scores vs cp pp"
  shows "(\<Sum>v \<leftarrow> vp. if \<not> pv_IsSlashed v \<and> pv_IsPrevEpochTargetAttester v then pv_CurrentEpochEffectiveBalance v else 0) = balance_of (participates pe 1) pp vs"
    "(\<Sum>v \<leftarrow> vp. if \<not> pv_IsSlashed v \<and> pv_IsCurrentEpochTargetAttester v then pv_CurrentEpochEffectiveBalance v else 0) = balance_of (participates ce 1) cp vs"
    "(\<Sum>v \<leftarrow> vp. if \<not> pv_IsSlashed v \<and> pv_IsPrevEpochHeadAttester v then pv_CurrentEpochEffectiveBalance v else 0) = balance_of (participates pe 2) pp vs"
    "(\<Sum>v \<leftarrow> vp. if \<not> pv_IsSlashed v \<and> pv_IsPrevEpochSourceAttester v then pv_CurrentEpochEffectiveBalance v else 0) = balance_of (participates pe 0) pp vs"
  unfolding vp_def using assms(1-3)
  by (induction scores vs cp pp rule: list_induct4) (auto simp: altair_records_def record_simps)


lemma balance_of_const: "length xs = length ys \<Longrightarrow> balance_of (\<lambda>_. Q) xs vs = balance_of (\<lambda>_. Q) ys vs"
  by (induction xs ys arbitrary: vs rule: list_induct2) (simp, case_tac vs, simp_all)

text \<open>A state since Altair whose lists of validators, flags and scores fit together.\<close>
definition altair_state :: "BeaconState \<Rightarrow> Validator list \<Rightarrow> u8 list \<Rightarrow> u8 list \<Rightarrow> bool" where
  "altair_state s vs cp pp \<longleftrightarrow> Altair \<le> bs_version s \<and> bs_validators s = Some vs \<and> bs_currentEpochParticipation s = Some cp
     \<and> bs_previousEpochParticipation s = Some pp \<and> length cp = length vs \<and> length pp = length vs \<and> length (bs_inactivityScores s) = length vs"

abbreviation state_records :: "BeaconState \<Rightarrow> Validator list \<Rightarrow> u8 list \<Rightarrow> u8 list \<Rightarrow> PValidator list" where
  "state_records s vs cp pp \<equiv> altair_records (CurrentEpoch s) (PrevEpoch s) (bs_inactivityScores s) vs cp pp"

definition epoch_balances :: "BeaconState \<Rightarrow> Validator list \<Rightarrow> u8 list \<Rightarrow> u8 list \<Rightarrow> Balance \<Rightarrow> bool" where
  "epoch_balances s vs cp pp b \<longleftrightarrow>
     pb_ActiveCurrentEpoch b = math_Max EffectiveBalanceIncrement (balance_of (\<lambda>_ v. IsActiveValidatorUsingTrie v (CurrentEpoch s)) cp vs)
   \<and> pb_CurrentEpochTargetAttested b = math_Max EffectiveBalanceIncrement (balance_of (participates (CurrentEpoch s) 1) cp vs)
   \<and> pb_PrevEpochAttested b = math_Max EffectiveBalanceIncrement (balance_of (participates (PrevEpoch s) 0) pp vs)
   \<and> pb_PrevEpochTargetAttested b = math_Max EffectiveBalanceIncrement (balance_of (participates (PrevEpoch s) 1) pp vs)
   \<and> pb_PrevEpochHeadAttested b = math_Max EffectiveBalanceIncrement (balance_of (participates (PrevEpoch s) 2) pp vs)"

lemma altair_precompute:
  assumes "altair_state s vs cp pp" "total_eff vs < 2 ^ 64"
  obtains vp0 b0 b where "InitializePrecomputeValidators s = (Some (vp0, b0), None)"
    "ProcessEpochParticipation s b0 vp0 = Ret (Some (state_records s vs cp pp, b), None)" "epoch_balances s vs cp pp b"
proof -
  note s = assms(1) [unfolded altair_state_def]
  have ver: "bs_version s \<noteq> Phase0" using s by (simp add: Phase0_def Altair_def)
  let ?ce = "CurrentEpoch s" and ?pe = "PrevEpoch s" and ?sc = "bs_inactivityScores s"
  let ?act = "\<lambda>e. balance_of (\<lambda>_ v. IsActiveValidatorUsingTrie v e) ?sc vs"
  let ?new = "map2 (init_record ?ce ?pe) ?sc vs" and ?bal = "zero_balance\<lparr>pb_ActiveCurrentEpoch := ?act ?ce, pb_ActivePrevEpoch := ?act ?pe\<rparr>"
  have "read_every (init_step ?sc ?ce ?pe) 0 vs (replicate (length vs) zero_pvalidator, zero_balance) = ((?new, ?bal), None)"
    using init_loop [of zero_balance vs 0 "replicate (length vs) zero_pvalidator" ?sc ?ce ?pe] s assms(2) by (simp add: zero_balance_def)
  then have i: "InitializePrecomputeValidators s = (Some (?new, ?bal), None)"
    using s ver by (simp add: InitializePrecomputeValidators_def InactivityScores_def NumValidators_def vals_def ReadFromEveryValidator_def)
  let ?vp = "state_records s vs cp pp"
  have p: "ProcessEpochParticipation s ?bal ?new = Ret (Some (?vp, UpdateBalance ?vp ?bal (bs_version s)), None)"
    using s ver by (simp add: ProcessEpochParticipation_def CurrentEpochParticipation_def PreviousEpochParticipation_def ranged_def
        current_loop_eq previous_loop_eq altair_records_def)
  have "?act ?ce = balance_of (\<lambda>_ v. IsActiveValidatorUsingTrie v ?ce) cp vs" using s by (intro balance_of_const) simp
  then have "epoch_balances s vs cp pp (UpdateBalance ?vp ?bal (bs_version s))"
    using s by (simp add: epoch_balances_def UpdateBalance_active) 
      (simp add: UpdateBalance_def lower_bounds attested_sums record_sums zero_balance_def)
  then show thesis using that i p by blast
qed

subsection \<open>Unrealized checkpoints\<close>










subsection \<open>Inactivity scores\<close>

text \<open>The update of one score in the specification.\<close>
definition spec_score :: "bool \<Rightarrow> bool \<Rightarrow> nat \<Rightarrow> nat" where
  "spec_score leak target score = (let m = (if target then score - 1 else score + 4) in if leak then m else m - 16)"

definition score_update :: "bool \<Rightarrow> PValidator \<Rightarrow> u64" where
  "score_update leak v = (if EligibleForRewards v then fst (new_score leak v) else pv_InactivityScore v)"

lemma new_score_nat:
  assumes "unat (pv_InactivityScore v) + 4 < 2 ^ 64"
  shows "snd (new_score leak v) = None"
    "unat (fst (new_score leak v)) = spec_score leak (pv_IsPrevEpochTargetAttester v \<and> \<not> pv_IsSlashed v) (unat (pv_InactivityScore v))"
proof -
  let ?x = "pv_InactivityScore v"
  have a: "Add64 ?x 4 = (?x + 4, None)" "unat (?x + 4) = unat ?x + 4" using assms by (simp_all add: Add64_def unat_add_no_wrap)
  have d: "unat (if ?x > 0 then ?x - 1 else ?x) = unat ?x - 1" by (simp add: unat_minus_one word_gt_0)
  have r: "unat (y - (if 16 > y then y else 16)) = unat y - 16" for y :: u64 by (simp add: word_less_nat_alt unat_sub word_le_nat_alt)
  let ?t = "pv_IsPrevEpochTargetAttester v \<and> \<not> pv_IsSlashed v"
  define y where "y = (if ?t then if ?x > 0 then ?x - 1 else ?x else ?x + 4)"
  have y: "unat y = (if ?t then unat ?x - 1 else unat ?x + 4)" unfolding y_def by (subst if_distrib [of unat]) (simp only: a(2) d)
  have e: "(if ?t then (if ?x > 0 then ?x - 1 else ?x, None) else Add64 ?x 4) = (y, None)"
    unfolding y_def a(1) by (simp only: if_distrib [of "\<lambda>x. (x, None)"])
  have n: "new_score leak v = (if leak then y else y - (if 16 > y then y else 16), None)"
    unfolding new_score_def altair_params e by simp
  show "snd (new_score leak v) = None" by (simp add: n)
  show "unat (fst (new_score leak v)) = spec_score leak ?t (unat ?x)" by (simp only: n fst_conv if_distrib [of unat] r y spec_score_def Let_def)
qed

lemma scores_loop_eq:
  assumes "\<forall>v \<in> set vs. unat (pv_InactivityScore v) + 4 < 2 ^ 64" "drop k vp = vs" "drop k sc = map pv_InactivityScore vs" "k \<le> length sc" "length sc = length vp"
  shows "scores_loop leak k vs (sc, vp) = Ret ((take k sc @ map (score_update leak) vs,
    take k vp @ map (\<lambda>v. v\<lparr>pv_InactivityScore := score_update leak v\<rparr>) vs), None)"
  using assms
proof (induction vs arbitrary: k sc vp)
  case (Cons v vs)
  have k: "k < length vp" using Cons.prems(2) by (metis drop_all list.distinct(1) not_le)
  have n: "vp ! k = v" "sc ! k = pv_InactivityScore v" "drop (Suc k) vp = vs" "drop (Suc k) sc = map pv_InactivityScore vs"
    using Cons_nth_drop_Suc [OF k] Cons_nth_drop_Suc [of k sc] Cons.prems(2,3,5) k by simp_all
  let ?x = "score_update leak v"
  let ?sc = "sc[k := ?x]" and ?vp = "vp[k := v\<lparr>pv_InactivityScore := ?x\<rparr>]"
  have "scores_loop leak k (v # vs) (sc, vp) = scores_loop leak (Suc k) vs (?sc, ?vp)"
  proof (cases "EligibleForRewards v")
    case True
    obtain y where "new_score leak v = (y, None)" using new_score_nat(1) [of v leak] Cons.prems(1) by (metis list.set_intros(1) prod.collapse)
    then show ?thesis using True k Cons.prems(5) by (simp add: score_update_def)
  next
    case False
    then have "?sc = sc" "?vp = vp" using list_update_id [of sc k] list_update_id [of vp k] by (simp_all add: score_update_def n(1,2))
    then show ?thesis using False by simp
  qed
  also have "\<dots> = Ret ((take (Suc k) ?sc @ map (score_update leak) vs, take (Suc k) ?vp @ map (\<lambda>v. v\<lparr>pv_InactivityScore := score_update leak v\<rparr>) vs), None)"
    by (rule Cons.IH) (use Cons.prems n k in simp_all)
  finally show ?case using k Cons.prems(5) by (simp add: take_Suc_conv_app_nth)
qed simp


lemma altair_records_nth:
  assumes "length scores = length vs" "length cp = length vs" "length pp = length vs" "i < length vs"
  shows "altair_records ce pe scores vs cp pp ! i = mark_previous (pp ! i) (mark_current (cp ! i) (init_record ce pe (scores ! i) (vs ! i)))"
  using assms by (simp add: altair_records_def)

lemma altair_records_length: "length scores = length vs \<Longrightarrow> length cp = length vs \<Longrightarrow> length pp = length vs
    \<Longrightarrow> length (altair_records ce pe scores vs cp pp) = length vs"
  by (simp add: altair_records_def)

lemma altair_records_scores:
  assumes "length scores = length vs" "length cp = length vs" "length pp = length vs"
  shows "map pv_InactivityScore (altair_records ce pe scores vs cp pp) = scores"
  using assms by (intro nth_equalityI) (simp_all add: altair_records_length altair_records_nth record_simps)

text \<open>The validators whose score is updated and who are rewarded or penalized: \<^verbatim>\<open>get_eligible_validator_indices\<close> of the specification.\<close>
definition spec_eligible :: "BeaconState \<Rightarrow> Validator \<Rightarrow> bool" where
  "spec_eligible s v \<longleftrightarrow> IsActiveValidatorUsingTrie v (PrevEpoch s) \<or> v_Slashed v \<and> CurrentEpoch s < v_WithdrawableEpoch v"

text \<open>
  (C18) Inactivity scores are those of the specification: on the records that \<^verbatim>\<open>InitializePrecomputeValidators\<close> and \<^verbatim>\<open>ProcessEpochParticipation\<close> make of a state,
  and a state \<open>t\<close> that differs from it in its checkpoints, \<^verbatim>\<open>ProcessInactivityScores\<close> succeeds when no score would overflow. The score of an eligible validator
  goes down by one, not below zero, for a timely target vote of an unslashed validator and up by 4 otherwise, and outside an inactivity leak down by 16, not below
  zero; all other scores and the rest of the state are unchanged.
\<close>
theorem inactivity_scores_spec:
  assumes "altair_state s vs cp pp" "total_eff vs < 2 ^ 64" "InitializePrecomputeValidators s = (Some (vp0, b0), None)"
    "ProcessEpochParticipation s b0 vp0 = Ret (Some (vp, b), None)" "CurrentEpoch s \<noteq> 0" "\<forall>x \<in> set (bs_inactivityScores s). unat x + 4 < 2 ^ 64"
    "bs_slot t = bs_slot s" "bs_version t = bs_version s" "bs_inactivityScores t = bs_inactivityScores s"
  shows "\<exists>t' vp'. ProcessInactivityScores t vp = Ret (t', vp', None) \<and> t' = t\<lparr>bs_inactivityScores := bs_inactivityScores t'\<rparr>
    \<and> length (bs_inactivityScores t') = length vs
    \<and> (\<forall>i < length vs. unat (bs_inactivityScores t' ! i) =
        (if spec_eligible s (vs ! i)
         then spec_score (IsInInactivityLeak (PrevEpoch t) (c_Epoch (bs_finalizedCheckpoint t))) (participates (PrevEpoch s) 1 (pp ! i) (vs ! i))
                (unat (bs_inactivityScores s ! i))
         else unat (bs_inactivityScores s ! i)))"
proof -
  note s = assms(1) [unfolded altair_state_def]
  have vp: "vp = state_records s vs cp pp" by (rule altair_precompute [OF assms(1,2)]) (use assms(3,4) in simp)
  let ?l = "IsInInactivityLeak (PrevEpoch t) (c_Epoch (bs_finalizedCheckpoint t))" and ?sc = "bs_inactivityScores s"
  have ep: "CurrentEpoch t \<noteq> GenesisEpoch" "bs_version t \<noteq> Phase0"
    using assms(5,7,8) s by (simp_all add: CurrentEpoch_def GenesisEpoch_def Phase0_def Altair_def)
  have m: "map pv_InactivityScore vp = ?sc" unfolding vp using s by (simp add: altair_records_scores)
  have small: "\<forall>v \<in> set vp. unat (pv_InactivityScore v) + 4 < 2 ^ 64" using assms(6) unfolding m [symmetric] by simp
  have len: "length vp = length vs" using m s by (metis length_map)
  have "scores_loop ?l 0 vp (?sc, vp) = Ret ((take 0 ?sc @ map (score_update ?l) vp, take 0 vp @ map (\<lambda>v. v\<lparr>pv_InactivityScore := score_update ?l v\<rparr>) vp), None)"
    by (rule scores_loop_eq) (use small m len s in simp_all)
  then have run: "ProcessInactivityScores t vp = Ret (t\<lparr>bs_inactivityScores := map (score_update ?l) vp\<rparr>, map (\<lambda>v. v\<lparr>pv_InactivityScore := score_update ?l v\<rparr>) vp, None)"
    using ep by (simp add: ProcessInactivityScores_def InactivityScores_def SetInactivityScores_def assms(9))
  have "unat (score_update ?l (vp ! i)) = (if spec_eligible s (vs ! i)
      then spec_score ?l (participates (PrevEpoch s) 1 (pp ! i) (vs ! i)) (unat (?sc ! i)) else unat (?sc ! i))" if "i < length vs" for i
  proof -
    have r: "vp ! i = mark_previous (pp ! i) (mark_current (cp ! i) (init_record (CurrentEpoch s) (PrevEpoch s) (?sc ! i) (vs ! i)))"
      unfolding vp using that s by (simp add: altair_records_nth)
    have "EligibleForRewards (vp ! i) = spec_eligible s (vs ! i)" by (auto simp: r EligibleForRewards_def spec_eligible_def record_simps not_le)
    moreover have t: "(pv_IsPrevEpochTargetAttester (vp ! i) \<and> \<not> pv_IsSlashed (vp ! i)) = participates (PrevEpoch s) 1 (pp ! i) (vs ! i)"
      "pv_InactivityScore (vp ! i) = ?sc ! i" by (auto simp: r record_simps)
    have "unat (pv_InactivityScore (vp ! i)) + 4 < 2 ^ 64" using small that len by (metis nth_mem)
    from new_score_nat(2) [OF this, of ?l] have "unat (fst (new_score ?l (vp ! i))) = spec_score ?l (participates (PrevEpoch s) 1 (pp ! i) (vs ! i)) (unat (?sc ! i))"
      unfolding t .
    ultimately show ?thesis using t(2) by (simp add: score_update_def)
  qed
  then show ?thesis using run len by simp
qed


subsection \<open>Rewards and penalties\<close>

text \<open>The specification on natural numbers: base reward, reward for a flag, and what one validator gains and loses.\<close>
definition spec_altair_base :: "nat \<Rightarrow> nat \<Rightarrow> nat" where
  "spec_altair_base eff sq = (eff div 1000000000) * (64000000000 div sq)"

definition spec_flag_reward :: "nat \<Rightarrow> nat \<Rightarrow> nat \<Rightarrow> nat \<Rightarrow> bool \<Rightarrow> nat" where
  "spec_flag_reward br weight attested tot leak =
    (if leak then 0 else br * weight * (attested div 1000000000) div ((tot div 1000000000) * 64))"

definition spec_altair_reward :: "nat \<Rightarrow> Balance \<Rightarrow> PValidator \<Rightarrow> bool \<Rightarrow> nat" where
  "spec_altair_reward br b v leak =
    (let ok = (\<lambda>x. EligibleForRewards v \<and> \<not> pv_IsSlashed v \<and> x); tot = unat (pb_ActiveCurrentEpoch b)
     in (if ok (pv_IsPrevEpochSourceAttester v) then spec_flag_reward br 14 (unat (pb_PrevEpochAttested b)) tot leak else 0)
      + (if ok (pv_IsPrevEpochTargetAttester v) then spec_flag_reward br 26 (unat (pb_PrevEpochTargetAttested b)) tot leak else 0)
      + (if ok (pv_IsPrevEpochHeadAttester v) then spec_flag_reward br 14 (unat (pb_PrevEpochHeadAttested b)) tot leak else 0))"

definition spec_altair_penalty :: "nat \<Rightarrow> nat \<Rightarrow> PValidator \<Rightarrow> nat" where
  "spec_altair_penalty br q v =
    (if \<not> EligibleForRewards v then 0
     else let ok = \<not> pv_IsSlashed v
       in (if ok \<and> pv_IsPrevEpochSourceAttester v then 0 else br * 14 div 64)
        + (if ok \<and> pv_IsPrevEpochTargetAttester v then 0
           else br * 26 div 64 + unat (pv_CurrentEpochEffectiveBalance v) * unat (pv_InactivityScore v) div (4 * q)))"

lemma altair_base_nat:
  fixes eff sq :: u64
  assumes "unat eff \<le> 32000000000" "31622 \<le> unat sq"
  shows "unat ((eff div EffectiveBalanceIncrement) * (EffectiveBalanceIncrement * BaseRewardFactor div sq)) = spec_altair_base (unat eff) (unat sq)"
    and "spec_altair_base (unat eff) (unat sq) \<le> 64765024"
proof -
  have "unat eff div 1000000000 \<le> 32" using assms(1) by linarith
  moreover have "64000000000 div unat sq \<le> 64000000000 div 31622" by (rule div_le_mono2) (use assms(2) in simp_all)
  then have "64000000000 div unat sq \<le> 2023907" by simp
  ultimately have "(unat eff div 1000000000) * (64000000000 div unat sq) \<le> 32 * 2023907" by (rule mult_le_mono)
  then show b: "spec_altair_base (unat eff) (unat sq) \<le> 64765024" by (simp add: spec_altair_base_def)
  then show "unat ((eff div EffectiveBalanceIncrement) * (EffectiveBalanceIncrement * BaseRewardFactor div sq)) = spec_altair_base (unat eff) (unat sq)"
    unfolding spec_altair_base_def EffectiveBalanceIncrement_def BaseRewardFactor_def
    by (subst unat_mult_no_wrap) (simp_all add: unat_div)
qed

lemma flag_penalty_nat:
  fixes br w :: u64
  assumes "unat br \<le> 64765024" "unat w \<le> 26"
  shows "unat (br * w div WeightDenominator) = unat br * unat w div 64" "unat br * unat w div 64 \<le> 2 ^ 58"
proof -
  have m: "unat br * unat w \<le> 64765024 * 26" using assms by (rule mult_le_mono)
  then show "unat (br * w div WeightDenominator) = unat br * unat w div 64"
    unfolding WeightDenominator_def by (subst unat_div, subst unat_mult_no_wrap) simp_all
  show "unat br * unat w div 64 \<le> 2 ^ 58" using m by (intro order.trans [OF div_le_dividend]) simp
qed

lemma flag_reward_nat:
  fixes br w a t :: u64
  assumes "unat br \<le> 64765024" "unat w \<le> 26" "unat a < 2 ^ 63" "EffectiveBalanceIncrement \<le> t"
  obtains x where "flag_reward br w a (t div EffectiveBalanceIncrement) leak = Ret x"
    "unat x = spec_flag_reward (unat br) (unat w) (unat a) (unat t) leak" "unat x \<le> 2 ^ 58"
proof -
  have a: "unat a div 1000000000 \<le> 9223372036" using assms(3) by simp
  have bw: "unat br * unat w \<le> 64765024 * 26" using assms(1,2) by (rule mult_le_mono)
  then have n: "unat br * unat w * (unat a div 1000000000) \<le> 64765024 * 26 * 9223372036" using a by (rule mult_le_mono)
  have m1: "unat (br * w) = unat br * unat w" using bw by (subst unat_mult_no_wrap) simp_all
  have m: "unat (br * w * (a div 1000000000)) = unat br * unat w * (unat a div 1000000000)"
    using n by (subst unat_mult_no_wrap) (simp_all add: m1 unat_div)
  have t: "unat t div 1000000000 \<le> 18446744073" "1 \<le> unat t div 1000000000"
    using unat_u64_lt [of t] assms(4) by (simp_all add: EffectiveBalanceIncrement_def word_le_nat_alt)
  have d: "unat (t div 1000000000 * 64) = unat t div 1000000000 * 64"
    using t(1) by (subst unat_mult_no_wrap) (simp_all add: unat_div)
  then have nz: "t div 1000000000 * 64 \<noteq> 0" using t(2) by (metis mult_eq_0_iff not_one_le_zero unat_0 zero_neq_numeral)
  let ?x = "if leak then 0 else br * w * (a div EffectiveBalanceIncrement) div (t div EffectiveBalanceIncrement * WeightDenominator)"
  have "flag_reward br w a (t div EffectiveBalanceIncrement) leak = Ret ?x"
    using nz by (simp add: flag_reward_def Let_def EffectiveBalanceIncrement_def WeightDenominator_def)
  moreover have x: "unat ?x = spec_flag_reward (unat br) (unat w) (unat a) (unat t) leak"
    by (simp add: spec_flag_reward_def EffectiveBalanceIncrement_def WeightDenominator_def unat_div m d)
  moreover have "unat br * unat w * (unat a div 1000000000) div (unat t div 1000000000 * 64) \<le> 64765024 * 26 * 9223372036 div 64"
    using n t(2) by (intro order.trans [OF div_le_mono2 [of 64] div_le_mono]) auto
  then have "unat ?x \<le> 2 ^ 58" unfolding x by (simp add: spec_flag_reward_def)
  ultimately show thesis by (rule that)
qed


lemma inactivity_penalty_nat:
  fixes e x q :: u64
  assumes "unat e * unat x < 2 ^ 64" "2 ^ 24 \<le> unat q" "unat q \<le> 2 ^ 32"
  obtains n where "Mul64 e x = (n, None)" "4 * q \<noteq> 0" "unat (n div (4 * q)) = unat e * unat x div (4 * unat q)" "unat (n div (4 * q)) \<le> 2 ^ 58"
proof -
  have q: "unat (4 * q) = 4 * unat q" using assms(3) by (subst unat_mult_no_wrap) simp_all
  have n: "unat (e * x) = unat e * unat x" using assms(1) by (rule unat_mult_no_wrap)
  have "unat e * unat x div (4 * unat q) \<le> 2 ^ 64 div 2 ^ 26"
    using assms(1,2) by (intro order.trans [OF div_le_mono2 [of "2 ^ 26"] div_le_mono]) auto
  moreover have "4 * q \<noteq> 0" using q assms(2) by (metis mult_eq_0_iff not_numeral_le_zero power_eq_0_iff unat_0 le_zero_eq zero_neq_numeral)
  ultimately show thesis using assms(1) by (intro that [of "e * x"]) (simp_all add: Mul64_def unat_div n q)
qed

lemma altair_delta_nat:
  assumes "unat (pv_CurrentEpochEffectiveBalance v) \<le> 32000000000" "31622 \<le> unat sq" "EffectiveBalanceIncrement \<le> pb_ActiveCurrentEpoch b"
    "unat (pb_PrevEpochAttested b) < 2 ^ 63" "unat (pb_PrevEpochTargetAttested b) < 2 ^ 63" "unat (pb_PrevEpochHeadAttested b) < 2 ^ 63"
    "unat (pv_CurrentEpochEffectiveBalance v) * unat (pv_InactivityScore v) < 2 ^ 64" "2 ^ 24 \<le> unat q" "unat q \<le> 2 ^ 32"
  defines "br \<equiv> spec_altair_base (unat (pv_CurrentEpochEffectiveBalance v)) (unat sq)"
  obtains d where "attestationDelta_altair b v (EffectiveBalanceIncrement * BaseRewardFactor div sq) (4 * q) leak = Ret (d, None)"
    "unat (delta_reward d) = spec_altair_reward br b v leak" "unat (delta_penalty d) = spec_altair_penalty br (unat q) v"
proof (cases "EligibleForRewards v")
  case False
  have "attestationDelta_altair b v m k leak = Ret (zero_delta, None)" for m k
    using False by (auto simp: attestationDelta_altair_def EligibleForRewards_def)
  then show thesis by (rule that)
    (use False in \<open>simp_all add: delta_reward_def delta_penalty_def zero_delta_def spec_altair_reward_def spec_altair_penalty_def\<close>)
next
  case True
  let ?e = "pv_CurrentEpochEffectiveBalance v" and ?t = "pb_ActiveCurrentEpoch b"
  define base where "base = (?e div EffectiveBalanceIncrement) * (EffectiveBalanceIncrement * BaseRewardFactor div sq)"
  have base: "unat base = br" "unat base \<le> 64765024" using altair_base_nat [OF assms(1,2)] by (simp_all add: base_def br_def)
  have w: "unat TimelySourceWeight = 14" "unat TimelyTargetWeight = 26" "unat TimelyHeadWeight = 14"
    by (simp_all add: TimelySourceWeight_def TimelyTargetWeight_def TimelyHeadWeight_def)
  have w26: "unat TimelySourceWeight \<le> 26" "unat TimelyTargetWeight \<le> 26" "unat TimelyHeadWeight \<le> 26" by (simp_all add: w)
  obtain x1 where x1: "flag_reward base TimelySourceWeight (pb_PrevEpochAttested b) (?t div EffectiveBalanceIncrement) leak = Ret x1"
    "unat x1 = spec_flag_reward br 14 (unat (pb_PrevEpochAttested b)) (unat ?t) leak" "unat x1 \<le> 2 ^ 58"
    using flag_reward_nat [OF base(2) w26(1) assms(4,3), of leak] unfolding base(1) w by metis
  obtain x2 where x2: "flag_reward base TimelyTargetWeight (pb_PrevEpochTargetAttested b) (?t div EffectiveBalanceIncrement) leak = Ret x2"
    "unat x2 = spec_flag_reward br 26 (unat (pb_PrevEpochTargetAttested b)) (unat ?t) leak" "unat x2 \<le> 2 ^ 58"
    using flag_reward_nat [OF base(2) w26(2) assms(5,3), of leak] unfolding base(1) w by metis
  obtain x3 where x3: "flag_reward base TimelyHeadWeight (pb_PrevEpochHeadAttested b) (?t div EffectiveBalanceIncrement) leak = Ret x3"
    "unat x3 = spec_flag_reward br 14 (unat (pb_PrevEpochHeadAttested b)) (unat ?t) leak" "unat x3 \<le> 2 ^ 58"
    using flag_reward_nat [OF base(2) w26(3) assms(6,3), of leak] unfolding base(1) w by metis
  obtain n where n: "Mul64 ?e (pv_InactivityScore v) = (n, None)" "4 * q \<noteq> 0"
    "unat (n div (4 * q)) = unat ?e * unat (pv_InactivityScore v) div (4 * unat q)" "unat (n div (4 * q)) \<le> 2 ^ 58"
    by (rule inactivity_penalty_nat [OF assms(7-9)])
  note p1 = flag_penalty_nat [OF base(2) w26(1)] and p2 = flag_penalty_nat [OF base(2) w26(2)]
  let ?S = "pv_IsPrevEpochSourceAttester v \<and> \<not> pv_IsSlashed v" and ?T = "pv_IsPrevEpochTargetAttester v \<and> \<not> pv_IsSlashed v"
    and ?H = "pv_IsPrevEpochHeadAttester v \<and> \<not> pv_IsSlashed v"
  define d where "d = \<lparr>dl_HeadReward = if ?H then x3 else 0, dl_SourceReward = if ?S then x1 else 0,
    dl_SourcePenalty = if ?S then 0 else base * TimelySourceWeight div WeightDenominator, dl_TargetReward = if ?T then x2 else 0,
    dl_TargetPenalty = if ?T then 0 else base * TimelyTargetWeight div WeightDenominator, dl_InactivityPenalty = if ?T then 0 else n div (4 * q)\<rparr>"
  have t0: "?t \<noteq> 0" using assms(3) by (auto simp: EffectiveBalanceIncrement_def)
  have "attestationDelta_altair b v (EffectiveBalanceIncrement * BaseRewardFactor div sq) (4 * q) leak = Ret (d, None)"
    using True t0 x1(1) x2(1) x3(1) n(1,2)
    by (cases "pv_IsSlashed v"; cases "pv_IsPrevEpochSourceAttester v"; cases "pv_IsPrevEpochTargetAttester v"; cases "pv_IsPrevEpochHeadAttester v";
        simp add: attestationDelta_altair_def EligibleForRewards_def Let_def zero_delta_def d_def flip: base_def)
  moreover have "unat (delta_reward d) = (if ?H then unat x3 else 0) + (if ?S then unat x1 else 0) + (if ?T then unat x2 else 0)"
    using x1(3) x2(3) x3(3) by (simp add: delta_reward_def d_def unat_add_no_wrap)
  then have "unat (delta_reward d) = spec_altair_reward br b v leak" using True x1(2) x2(2) x3(2) by (simp add: spec_altair_reward_def Let_def)
  moreover have "unat (delta_penalty d) = (if ?S then 0 else unat (base * TimelySourceWeight div WeightDenominator))
      + (if ?T then 0 else unat (base * TimelyTargetWeight div WeightDenominator)) + (if ?T then 0 else unat (n div (4 * q)))"
    using p1 p2 n(4) by (simp add: delta_penalty_def d_def unat_add_no_wrap)
  then have "unat (delta_penalty d) = spec_altair_penalty br (unat q) v"
    using True by (auto simp: spec_altair_penalty_def Let_def p1(1) p2(1) n(3) base(1) w)
  ultimately show thesis by (rule that)
qed


lemma isqrt_unique:
  assumes "is_isqrt n a" "is_isqrt n b"
  shows "a = b"
proof (rule ccontr)
  assume "a \<noteq> b"
  then have "a + 1 \<le> b \<or> b + 1 \<le> a" by linarith
  then have "(a + 1) * (a + 1) \<le> b * b \<or> (b + 1) * (b + 1) \<le> a * a" using mult_le_mono by blast
  then show False using assms by (auto simp: is_isqrt_def)
qed

lemma altair_deltas_loop_all:
  assumes "\<forall>v \<in> set vp. \<exists>d. attestationDelta_altair b v m k leak = Ret (d, None) \<and> P v d"
  shows "\<exists>ds. altair_deltas_loop b m k leak vp = Ret (ds, None) \<and> list_all2 P vp ds"
  using assms
proof (induction vp)
  case (Cons v vp)
  then obtain d ds where "attestationDelta_altair b v m k leak = Ret (d, None)" "P v d" "altair_deltas_loop b m k leak vp = Ret (ds, None)" "list_all2 P vp ds"
    by auto
  then show ?case by (intro exI [of _ "d # ds"]) simp
qed simp

lemma altair_rewards_loop_nat:
  assumes "distinct is" "\<forall>i \<in> set is. i < length bs \<and> i < length ds \<and> unat (bs ! i) + unat (delta_reward (ds ! i)) < 2 ^ 64"
  shows "\<exists>bs' vp'. altair_rewards_loop ds is (bs, vp) = Ret ((bs', vp'), None) \<and> length bs' = length bs \<and> length vp' = length vp
    \<and> (\<forall>i < length bs. unat (bs' ! i) = (if i \<in> set is then unat (bs ! i) + unat (delta_reward (ds ! i)) - unat (delta_penalty (ds ! i)) else unat (bs ! i)))"
  using assms
proof (induction "is" arbitrary: bs vp)
  case (Cons j js)
  let ?b = "bs ! j + delta_reward (ds ! j)"
  have j: "j < length bs" "j < length ds" "Add64 (bs ! j) (delta_reward (ds ! j)) = (?b, None)" "unat ?b = unat (bs ! j) + unat (delta_reward (ds ! j))"
    using Cons.prems(2) by (simp_all add: Add64_eq unat_add_no_wrap)
  let ?bs = "bs[j := DecreaseBalanceWithVal ?b (delta_penalty (ds ! j))]"
  let ?vp = "vp[j := (vp[j := (vp ! j)\<lparr>pv_BeforeEpochTransitionBalance := bs ! j\<rparr>] ! j)\<lparr>pv_AfterEpochTransitionBalance := DecreaseBalanceWithVal ?b (delta_penalty (ds ! j))\<rparr>]"
  have run: "altair_rewards_loop ds (j # js) (bs, vp) = altair_rewards_loop ds js (?bs, ?vp)"
    using j by (simp add: IncreaseBalanceWithVal_def Let_def)
  have "\<forall>i \<in> set js. i < length ?bs \<and> i < length ds \<and> unat (?bs ! i) + unat (delta_reward (ds ! i)) < 2 ^ 64"
    using Cons.prems by (auto simp: nth_list_update)
  then obtain bs' vp' where "altair_rewards_loop ds js (?bs, ?vp) = Ret ((bs', vp'), None)" "length bs' = length bs" "length vp' = length vp"
    "\<forall>i < length bs. unat (bs' ! i) = (if i \<in> set js then unat (?bs ! i) + unat (delta_reward (ds ! i)) - unat (delta_penalty (ds ! i)) else unat (?bs ! i))"
    using Cons.IH [of ?bs ?vp] Cons.prems(1) by auto
  then show ?case unfolding run using j(1,4) Cons.prems(1) by (auto simp: nth_list_update DecreaseBalanceWithVal_nat)
qed simp

text \<open>
  (C17) Rewards and penalties since Altair are those of the specification and none of the 64-bit products and sums wraps around: with balances below \<open>2 ^ 63\<close>, an active
  balance of at least one increment, effective balances up to 32 ETH and scores that do not overflow the inactivity penalty, \<^verbatim>\<open>ProcessRewardsAndPenaltiesPrecompute\<close>
  succeeds, and each balance is the old balance plus the rewards minus the penalties, not below zero; nothing else of the state changes.
\<close>
theorem altair_rewards_spec:
  assumes "Altair \<le> bs_version s" "bs_version s \<le> Deneb" "CurrentEpoch s \<noteq> 0" "sqrt_ready c" "length vp = length (vals s)" "length vp = length (bals s)"
    "EffectiveBalanceIncrement \<le> pb_ActiveCurrentEpoch b" "is_isqrt (unat (pb_ActiveCurrentEpoch b)) sq"
    "unat (pb_PrevEpochAttested b) < 2 ^ 63" "unat (pb_PrevEpochTargetAttested b) < 2 ^ 63" "unat (pb_PrevEpochHeadAttested b) < 2 ^ 63"
    "\<forall>v \<in> set vp. unat (pv_CurrentEpochEffectiveBalance v) \<le> 32000000000
        \<and> unat (pv_CurrentEpochEffectiveBalance v) * unat (pv_InactivityScore v) < 2 ^ 64"
    "\<forall>i < length vp. unat (bals s ! i) + spec_altair_reward (spec_altair_base (unat (pv_CurrentEpochEffectiveBalance (vp ! i))) sq) b (vp ! i)
        (IsInInactivityLeak (PrevEpoch s) (c_Epoch (bs_finalizedCheckpoint s))) < 2 ^ 64"
  shows "\<exists>c' vp' s'. ProcessRewardsAndPenaltiesPrecompute_altair c s b vp = Ret (c', vp', s', None) \<and> sqrt_ready c'
    \<and> s' = s\<lparr>bs_balances := Some (bals s')\<rparr> \<and> length (bals s') = length (bals s)
    \<and> (\<forall>i < length vp. let br = spec_altair_base (unat (pv_CurrentEpochEffectiveBalance (vp ! i))) sq
        in unat (bals s' ! i) = unat (bals s ! i) + spec_altair_reward br b (vp ! i) (IsInInactivityLeak (PrevEpoch s) (c_Epoch (bs_finalizedCheckpoint s)))
          - spec_altair_penalty br (if bs_version s = Altair then 50331648 else 16777216) (vp ! i))"
proof -
  obtain c' r where r: "CachedSquareRoot c (pb_ActiveCurrentEpoch b) = Ret (c', r)" "sqrt_ready c'" "r \<noteq> 0" "is_isqrt (unat (pb_ActiveCurrentEpoch b)) (unat r)"
    by (rule CachedSquareRoot_ready [OF assms(4,7)])
  have sq: "sq = unat r" using r(4) assms(8) by (rule isqrt_unique [symmetric])
  let ?l = "IsInInactivityLeak (PrevEpoch s) (c_Epoch (bs_finalizedCheckpoint s))"
  let ?q = "if bs_version s = Altair then InactivityPenaltyQuotientAltair else InactivityPenaltyQuotientBellatrix"
  let ?n = "if bs_version s = Altair then 50331648 else 16777216 :: nat"
  let ?br = "\<lambda>v. spec_altair_base (unat (pv_CurrentEpochEffectiveBalance v)) (unat r)"
  have q: "InactivityPenaltyQuotient_state s = (?q, None)" "unat ?q = ?n" "2 ^ 24 \<le> unat ?q" "unat ?q \<le> 2 ^ 32"
    using assms(1,2) by (auto simp: InactivityPenaltyQuotient_state_def state_params altair_params)
  let ?P = "\<lambda>v d. unat (delta_reward d) = spec_altair_reward (?br v) b v ?l \<and> unat (delta_penalty d) = spec_altair_penalty (?br v) ?n v"
  have "\<exists>d. attestationDelta_altair b v (EffectiveBalanceIncrement * BaseRewardFactor div r) (InactivityScoreBias * ?q) ?l = Ret (d, None) \<and> ?P v d" if "v \<in> set vp" for v
    using altair_delta_nat [OF _ isqrt_increment [OF assms(7) r(4)] assms(7,9-11) _ q(3,4), of v ?l] that assms(12) unfolding InactivityScoreBias_def q(2) by metis
  then obtain ds where ds: "altair_deltas_loop b (EffectiveBalanceIncrement * BaseRewardFactor div r) (InactivityScoreBias * ?q) ?l vp = Ret (ds, None)" "list_all2 ?P vp ds"
    using altair_deltas_loop_all [of vp b _ _ ?l ?P] by blast
  have dl: "length ds = length vp" and P: "\<forall>i < length vp. ?P (vp ! i) (ds ! i)" using ds(2) by (simp_all add: list_all2_conv_all_nth)
  have "AttestationsDelta_altair c s b vp = Ret (c', ds, None)" using r(1,3) ds(1) q(1) by (simp add: AttestationsDelta_altair_def)
  moreover obtain bs' vp' where bs': "altair_rewards_loop ds [0..<length vp] (bals s, vp) = Ret ((bs', vp'), None)" "length bs' = length (bals s)"
    "\<forall>i < length (bals s). unat (bs' ! i) = (if i \<in> set [0..<length vp] then unat (bals s ! i) + unat (delta_reward (ds ! i)) - unat (delta_penalty (ds ! i)) else unat (bals s ! i))"
    using altair_rewards_loop_nat [of "[0..<length vp]" "bals s" ds vp] assms(6,13) dl P unfolding sq by auto
  ultimately have "ProcessRewardsAndPenaltiesPrecompute_altair c s b vp = Ret (c', vp', s\<lparr>bs_balances := Some bs'\<rparr>, None)"
    using assms(3,5,6) by (simp add: ProcessRewardsAndPenaltiesPrecompute_altair_def GenesisEpoch_def NumValidators_def BalancesLength_def SetBalances_def)
  then show ?thesis using r(2) bs'(2,3) P assms(6) by (simp add: bals_def sq)
qed


subsection \<open>Examples\<close>

text \<open>Two validators in epoch 10, during a leak; the second missed the target of the epoch before.\<close>
definition altair_demo :: BeaconState where
  "altair_demo = (small_state [full_validator, full_validator] [32000000000, 32000000000])\<lparr>bs_slot := 321, bs_version := Altair,
     bs_currentEpochParticipation := Some [7, 7], bs_previousEpochParticipation := Some [2, 0], bs_inactivityScores := [0, 9]\<rparr>"

abbreviation demo_pair :: "Validator list" where "demo_pair \<equiv> [full_validator, full_validator]"

lemma altair_demo_facts: "altair_state altair_demo demo_pair [7, 7] [2, 0]" "total_eff demo_pair < 2 ^ 63" "CurrentEpoch altair_demo = 10" "PrevEpoch altair_demo = 9"
  "bs_slot altair_demo = 321" "bs_inactivityScores altair_demo = [0, 9]" "bs_finalizedCheckpoint altair_demo = genesis_checkpoint"
  by (simp_all add: altair_state_def altair_demo_def full_validator_def CurrentEpoch_def PrevEpoch_def SlotsPerEpoch_def)


theorem inactivity_scores_spec_witness:
  "\<exists>vp0 b0 vp b t vp'. InitializePrecomputeValidators altair_demo = (Some (vp0, b0), None)
    \<and> ProcessEpochParticipation altair_demo b0 vp0 = Ret (Some (vp, b), None)
    \<and> ProcessInactivityScores altair_demo vp = Ret (t, vp', None) \<and> map unat (bs_inactivityScores t) = [0, 13]"
proof -
  have tot: "total_eff demo_pair < 2 ^ 64" using altair_demo_facts(2) by simp
  obtain vp0 b0 b where pre: "InitializePrecomputeValidators altair_demo = (Some (vp0, b0), None)"
    "ProcessEpochParticipation altair_demo b0 vp0 = Ret (Some (state_records altair_demo demo_pair [7, 7] [2, 0], b), None)"
    by (rule altair_precompute [OF altair_demo_facts(1) tot])
  have l: "IsInInactivityLeak 9 (c_Epoch genesis_checkpoint)"
    by (simp add: IsInInactivityLeak_def FinalityDelay_def MinEpochsToInactivityPenalty_def genesis_checkpoint_def)
  obtain t vp' where t: "ProcessInactivityScores altair_demo (state_records altair_demo demo_pair [7, 7] [2, 0]) = Ret (t, vp', None)" "length (bs_inactivityScores t) = 2"
    "\<forall>i < 2. unat (bs_inactivityScores t ! i) = (if spec_eligible altair_demo (demo_pair ! i) then spec_score True (participates 9 1 ([2, 0] ! i) (demo_pair ! i)) (unat ([0, 9 :: u64] ! i)) else unat ([0, 9 :: u64] ! i))"
    using inactivity_scores_spec [OF altair_demo_facts(1) tot pre, of altair_demo] l by (auto simp: altair_demo_facts)
  have e: "spec_eligible altair_demo full_validator"
    by (simp add: spec_eligible_def altair_demo_facts IsActiveValidatorUsingTrie_def checkValidatorActiveStatus_def full_validator_def)
  obtain x y where xy: "bs_inactivityScores t = [x, y]" using t(2) by (auto simp: length_Suc_conv numeral_2_eq_2)
  have "unat x = 0" using t(3) [rule_format, of 0] e by (simp add: xy spec_score_def participates_def IsActiveValidatorUsingTrie_def checkValidatorActiveStatus_def full_validator_def)
  moreover have "unat y = 13" using t(3) [rule_format, of 1] e by (simp add: xy spec_score_def participates_def)
  ultimately show ?thesis using pre t(1) xy by auto
qed

text \<open>One validator that did everything right in the epoch before, outside a leak.\<close>
definition perfect_record :: PValidator where
  "perfect_record = mark_previous 7 (init_record 10 9 0 full_validator)"

definition perfect_balance :: Balance where
  "perfect_balance = EnsureBalancesLowerBound (zero_balance\<lparr>pb_ActiveCurrentEpoch := 32000000000, pb_PrevEpochAttested := 32000000000,
     pb_PrevEpochTargetAttested := 32000000000, pb_PrevEpochHeadAttested := 32000000000\<rparr>)"

theorem altair_rewards_spec_witness:
  "\<exists>c' vp' s'. ProcessRewardsAndPenaltiesPrecompute_altair cachedSquareRoot
      ((small_state [full_validator] [32000000000])\<lparr>bs_version := Altair, bs_finalizedCheckpoint := \<lparr>c_Epoch = 8, c_Root = []\<rparr>\<rparr>) perfect_balance [perfect_record]
    = Ret (c', vp', s', None) \<and> unat (bals s' ! 0) = 32009659817"
proof -
  let ?s = "(small_state [full_validator] [32000000000])\<lparr>bs_version := Altair, bs_finalizedCheckpoint := \<lparr>c_Epoch = 8, c_Root = []\<rparr>\<rparr>"
  have b: "pb_ActiveCurrentEpoch perfect_balance = 32000000000" "pb_PrevEpochAttested perfect_balance = 32000000000"
    "pb_PrevEpochTargetAttested perfect_balance = 32000000000" "pb_PrevEpochHeadAttested perfect_balance = 32000000000"
    by (simp_all add: perfect_balance_def EnsureBalancesLowerBound_active lower_bounds math_Max_def EffectiveBalanceIncrement_def)
  have v: "pv_CurrentEpochEffectiveBalance perfect_record = 32000000000" "pv_InactivityScore perfect_record = 0" "EligibleForRewards perfect_record" "\<not> pv_IsSlashed perfect_record"
    "pv_IsPrevEpochSourceAttester perfect_record" "pv_IsPrevEpochTargetAttester perfect_record" "pv_IsPrevEpochHeadAttester perfect_record"
    by (simp_all add: perfect_record_def record_simps EligibleForRewards_def IsActiveValidatorUsingTrie_def checkValidatorActiveStatus_def full_validator_def)
  have l: "\<not> IsInInactivityLeak (PrevEpoch ?s) 8" "CurrentEpoch ?s \<noteq> 0"
    by (simp_all add: IsInInactivityLeak_def FinalityDelay_def MinEpochsToInactivityPenalty_def PrevEpoch_def CurrentEpoch_def SlotsPerEpoch_def)
  have r: "spec_altair_reward (spec_altair_base 32000000000 178885) perfect_balance perfect_record False = 9659817"
    "spec_altair_penalty (spec_altair_base 32000000000 178885) 50331648 perfect_record = 0"
    by (simp_all add: spec_altair_reward_def spec_altair_penalty_def spec_altair_base_def spec_flag_reward_def b v)
  have c: "sqrt_ready cachedSquareRoot" using sqrt_cache_ok_init by (simp add: sqrt_ready_def cachedSquareRoot_def)
  show ?thesis
    using altair_rewards_spec [of ?s cachedSquareRoot "[perfect_record]" perfect_balance 178885] c l r
    by (auto simp: b v is_isqrt_def EffectiveBalanceIncrement_def vals_def bals_def Altair_def Deneb_def)
qed

end
