(* ===== verification/SyncCommittees.thy ===== *)
theory SyncCommittees
  imports AltairEpoch
begin

text \<open>
  Sync committees, \<^verbatim>\<open>beacon-chain/core/altair/sync_committee.go\<close> and \<^verbatim>\<open>ProcessSyncCommitteeUpdates\<close> of \<^verbatim>\<open>epoch_spec.go\<close>: 512 validators are drawn by shuffling
  and by their effective balance, in a loop without a bound. The aggregation of public keys is a parameter. The cache of sync committees that the
  node keeps beside the state is left out.
\<close>

subsection \<open>Selection\<close>

definition SyncCommitteeSize :: u64 where "SyncCommitteeSize = 512"
definition SyncCommitteeSubnetCount :: u64 where "SyncCommitteeSubnetCount = 4"
definition TargetAggregatorsPerSyncSubcommittee :: u64 where "TargetAggregatorsPerSyncSubcommittee = 16"
definition DomainSyncCommittee :: "u8 list" where "DomainSyncCommittee = [7, 0, 0, 0]"
definition maxRandomByte :: u64 where "maxRandomByte = 255"

lemmas sync_params = SyncCommitteeSize_def SyncCommitteeSubnetCount_def TargetAggregatorsPerSyncSubcommittee_def

text \<open>One candidate: it is taken when its effective balance is large enough for the random byte. The remainder panics for an empty list.\<close>
definition sync_round ::
  "(u8 list \<Rightarrow> u8 list) \<Rightarrow> BeaconState \<Rightarrow> ValidatorIndex list \<Rightarrow> u8 list \<Rightarrow> ValidatorIndex \<Rightarrow> ValidatorIndex option result outcome" where
  "sync_round hash s indices seed i =
    (let count = of_nat (length indices) :: u64
     in if count = 0 then Panic
        else case ComputeShuffledIndex hash (i mod count) count seed True of
          (_, Some err) \<Rightarrow> Ret (None, Some err)
        | (sIndex, None) \<Rightarrow>
            let randomByte = hash (seed @ Bytes8 (i div 32)) ! unat (i mod 32); cIndex = indices ! unat sIndex
            in case ValidatorAtIndexReadOnly s cIndex of
                 (Some v, None) \<Rightarrow>
                   Ret (if v_EffectiveBalance v * maxRandomByte \<ge> MaxEffectiveBalance * ucast randomByte then Some cIndex else None, None)
               | (_, err) \<Rightarrow> Ret (None, err))"

text \<open>
  The loop after \<open>n\<close> turns; its 64-bit variable is \<open>n\<close> modulo \<open>2 ^ 64\<close>. The context is asked in every turn. No result means that the loop does not end.
\<close>
partial_function (option) sync_loop ::
  "(nat \<Rightarrow> bool) \<Rightarrow> (u8 list \<Rightarrow> u8 list) \<Rightarrow> BeaconState \<Rightarrow> ValidatorIndex list \<Rightarrow> u8 list \<Rightarrow> nat \<Rightarrow> ValidatorIndex list
    \<Rightarrow> ValidatorIndex list result outcome option" where
  "sync_loop cancelled hash s indices seed n cIndices =
    (if \<not> of_nat (length cIndices) < SyncCommitteeSize then Some (Ret (cIndices, None))
     else if cancelled n then Some (Ret ([], Some CtxErr))
     else case sync_round hash s indices seed (of_nat n) of
       Ret r \<Rightarrow> (case r of
           (_, Some err) \<Rightarrow> Some (Ret ([], Some err))
         | (c, None) \<Rightarrow> sync_loop cancelled hash s indices seed (Suc n) (case c of None \<Rightarrow> cIndices | Some x \<Rightarrow> cIndices @ [x]))
     | Panic \<Rightarrow> Some Panic
     | Diverge \<Rightarrow> Some Diverge)"

definition NextSyncCommitteeIndices ::
  "(u8 list \<Rightarrow> u8 list) \<Rightarrow> cache_view \<Rightarrow> (nat \<Rightarrow> bool) \<Rightarrow> BeaconState \<Rightarrow> ValidatorIndex list result outcome" where
  "NextSyncCommitteeIndices hash cv cancelled s =
    (let epoch = NextEpoch s
     in case ActiveValidatorIndices hash cv s epoch of
          (_, Some err) \<Rightarrow> Ret ([], Some err)
        | (indices, None) \<Rightarrow> (case Seed hash s epoch DomainSyncCommittee of
            (_, Some err) \<Rightarrow> Ret ([], Some err)
          | (seed, None) \<Rightarrow> (case sync_loop cancelled hash s indices seed 0 [] of None \<Rightarrow> Diverge | Some r \<Rightarrow> r)))"

definition NextSyncCommittee ::
  "(u8 list \<Rightarrow> u8 list) \<Rightarrow> cache_view \<Rightarrow> (nat \<Rightarrow> bool) \<Rightarrow> (u8 list list \<Rightarrow> u8 list result) \<Rightarrow> BeaconState \<Rightarrow> SyncCommittee option result outcome" where
  "NextSyncCommittee hash cv cancelled aggregate s = obind (NextSyncCommitteeIndices hash cv cancelled s) (\<lambda>r. case r of
     (_, Some err) \<Rightarrow> Ret (None, Some err)
   | (indices, None) \<Rightarrow>
       let pubkeys = map (PubkeyAtIndex s) indices
       in case aggregate pubkeys of
            (_, Some err) \<Rightarrow> Ret (None, Some err)
          | (aggregated, None) \<Rightarrow> Ret (Some \<lparr>sc_Pubkeys = pubkeys, sc_AggregatePubkey = aggregated\<rparr>, None))"

subsection \<open>The state\<close>

definition CurrentSyncCommittee_state :: "BeaconState \<Rightarrow> SyncCommittee option result" where
  "CurrentSyncCommittee_state s = (if bs_version s = Phase0 then (None, Some (errNotSupported ''CurrentSyncCommittee'')) else (bs_currentSyncCommittee s, None))"

definition NextSyncCommittee_state :: "BeaconState \<Rightarrow> SyncCommittee option result" where
  "NextSyncCommittee_state s = (if bs_version s = Phase0 then (None, Some (errNotSupported ''NextSyncCommittee'')) else (bs_nextSyncCommittee s, None))"

definition SetCurrentSyncCommittee :: "SyncCommittee option \<Rightarrow> BeaconState \<Rightarrow> BeaconState \<times> go_error option" where
  "SetCurrentSyncCommittee val s = (if bs_version s = Phase0 then (s, Some (errNotSupported ''SetCurrentSyncCommittee''))
     else (s\<lparr>bs_currentSyncCommittee := val\<rparr>, None))"

definition SetNextSyncCommittee :: "SyncCommittee option \<Rightarrow> BeaconState \<Rightarrow> BeaconState \<times> go_error option" where
  "SetNextSyncCommittee val s = (if bs_version s = Phase0 then (s, Some (errNotSupported ''SetNextSyncCommittee''))
     else (s\<lparr>bs_nextSyncCommittee := val\<rparr>, None))"

definition ProcessSyncCommitteeUpdates ::
  "(u8 list \<Rightarrow> u8 list) \<Rightarrow> cache_view \<Rightarrow> (nat \<Rightarrow> bool) \<Rightarrow> (u8 list list \<Rightarrow> u8 list result) \<Rightarrow> BeaconState \<Rightarrow> (BeaconState \<times> go_error option) outcome" where
  "ProcessSyncCommitteeUpdates hash cv cancelled aggregate s =
    (if NextEpoch s mod EpochsPerSyncCommitteePeriod \<noteq> 0 then Ret (s, None)
     else case NextSyncCommittee_state s of
       (_, Some err) \<Rightarrow> Ret (s, Some err)
     | (nextSyncCommittee, None) \<Rightarrow> (case SetCurrentSyncCommittee nextSyncCommittee s of
         (s, Some err) \<Rightarrow> Ret (s, Some err)
       | (s, None) \<Rightarrow> obind (NextSyncCommittee hash cv cancelled aggregate s) (\<lambda>r. case r of
           (_, Some err) \<Rightarrow> Ret (s, Some err)
         | (nextSyncCommittee, None) \<Rightarrow> Ret (SetNextSyncCommittee nextSyncCommittee s))))"

subsection \<open>Subcommittees and messages\<close>

text \<open>The bounds are 64-bit sums; a slice whose first bound is above the second panics.\<close>
definition SyncSubCommitteePubkeys :: "SyncCommittee \<Rightarrow> u64 \<Rightarrow> u8 list list result outcome" where
  "SyncSubCommitteePubkeys syncCommittee subComIdx =
    (let subCommSize = SyncCommitteeSize div SyncCommitteeSubnetCount;
         i = subComIdx * subCommSize;
         endOfSubCom = i + subCommSize;
         pubkeyLen = of_nat (length (sc_Pubkeys syncCommittee)) :: u64
     in if endOfSubCom > pubkeyLen then Ret ([], Some (Fresh ''end index is larger than array length''))
        else if i > endOfSubCom then Panic
        else Ret (take (unat endOfSubCom - unat i) (drop (unat i) (sc_Pubkeys syncCommittee)), None))"

definition IsSyncCommitteeAggregator :: "(u8 list \<Rightarrow> u8 list) \<Rightarrow> u8 list \<Rightarrow> bool result" where
  "IsSyncCommitteeAggregator hash sig =
    (if length sig \<noteq> 96 then (False, Some (Fresh ''incorrect sig length''))
     else let modulo = math_Max 1 (SyncCommitteeSize div SyncCommitteeSubnetCount div TargetAggregatorsPerSyncSubcommittee)
          in (le64 (take 8 (hash sig)) mod modulo = 0, None))"

definition ErrTooLate :: go_error where "ErrTooLate = Sentinel ''sync message is too late''"

text \<open>The clock is read four times.\<close>
definition ValidateSyncMessageTime :: "(nat \<Rightarrow> go_time) \<Rightarrow> Slot \<Rightarrow> go_time \<Rightarrow> duration \<Rightarrow> go_error option outcome" where
  "ValidateSyncMessageTime clk slot genesis clockDisparity =
    obind (ValidateClock (unix_of (clk 0)) slot (unix_of genesis)) (\<lambda>e. case e of
      Some err \<Rightarrow> Ret (Some err)
    | None \<Rightarrow> (case ToTime (unix_of genesis) slot of
        (_, Some err) \<Rightarrow> Ret (Some err)
      | (messageTime, None) \<Rightarrow>
          let currentSlot = Since (unix_of (clk 1)) genesis
          in case ToTime (unix_of genesis) currentSlot of
               (_, Some err) \<Rightarrow> Ret (Some err)
             | (slotStartTime, None) \<Rightarrow>
                 let currentLowerBound = clk 2 + sint (- clockDisparity);
                     lowerBound = (if slotStartTime < currentLowerBound then slotStartTime else slotStartTime + sint (- clockDisparity));
                     upperBound = clk 3 + sint clockDisparity
                 in Ret (if messageTime < lowerBound then Some (Wrap ''sync message time not within allowable range'' ErrTooLate)
                         else if messageTime > upperBound then Some (Fresh ''sync message time not within allowable range'')
                         else None)))"


subsection \<open>The selection ends\<close>

lemma sync_round_ok:
  assumes "bs_validators s = Some vs" "ai \<noteq> []" "length ai \<le> 2 ^ 40" "\<forall>i \<in> set ai. unat i < length vs"
  defines "n \<equiv> of_nat (length ai) :: u64"
  shows "sync_round hash s ai seed i =
    (let c = ai ! unat (fold (shuffle_step hash seed n) all_rounds (i mod n))
     in Ret (if v_EffectiveBalance (vs ! unat c) * 255 \<ge> MaxEffectiveBalance * ucast (hash (seed @ Bytes8 (i div 32)) ! unat (i mod 32))
             then Some c else None, None))"
proof -
  have n: "unat n = length ai" using assms(3) by (simp add: n_def unat_of_nat)
  then have n40: "unat n \<le> 2 ^ 40" "n \<noteq> 0" using assms(2,3) by auto
  then have i: "i mod n < n" by (simp add: word_less_nat_alt unat_mod unat_gt_0)
  have sh: "ComputeShuffledIndex hash (i mod n) n seed True = (fold (shuffle_step hash seed n) all_rounds (i mod n), None)"
    using i n40 by (simp add: ComputeShuffledIndex_eq maxShuffle_nat not_le [symmetric])
  have c: "ai ! unat (fold (shuffle_step hash seed n) all_rounds (i mod n)) \<in> set ai"
    using proposer_round_ok(2) [OF assms(1-4)] by (simp add: n_def)
  show ?thesis using bspec [OF assms(4) c] n40(2)
    unfolding sync_round_def n_def [symmetric] Let_def sh maxRandomByte_def
    by (simp add: vals_def assms(1) ValidatorAtIndexReadOnly_def out_of_range_def)
qed

text \<open>How many turns it takes until the loop variable is \<open>k\<close> modulo \<open>L\<close> again.\<close>
definition turns_to :: "nat \<Rightarrow> nat \<Rightarrow> nat \<Rightarrow> nat" where
  "turns_to L k n = (if n mod L \<le> k then k - n mod L else k + L - n mod L)"

lemma turns_to_Suc:
  assumes "k < L"
  shows "turns_to L k (Suc n) = (if n mod L = k then L - 1 else turns_to L k n - 1)" "turns_to L k n = 0 \<longleftrightarrow> n mod L = k" "turns_to L k n < L"
proof -
  have r: "n mod L < L" using assms by (intro mod_less_divisor) simp
  show "turns_to L k (Suc n) = (if n mod L = k then L - 1 else turns_to L k n - 1)"
    using assms r by (auto simp: turns_to_def mod_Suc split: if_splits)
  have "(if r \<le> k then k - r else k + L - r) = 0 \<longleftrightarrow> r = k" "(if r \<le> k then k - r else k + L - r) < L" if "r < L" for r
    using that assms by auto
  then show "turns_to L k n = 0 \<longleftrightarrow> n mod L = k" "turns_to L k n < L" using r by (simp_all only: turns_to_def)
qed

lemma sync_loop_fills:
  assumes "\<And>n. n < 2 ^ 64 \<Longrightarrow> \<exists>c. sync_round hash s ai seed (of_nat n) = Ret (c, None) \<and> (n mod L = k \<longrightarrow> c \<noteq> None) \<and> set_option c \<subseteq> A" "k < L" "\<And>n. \<not> cancelled n"
  shows "length cs < 512 \<Longrightarrow> n + ((511 - length cs) * L + turns_to L k n) < 2 ^ 64 \<Longrightarrow> set cs \<subseteq> A
    \<Longrightarrow> \<exists>cs'. sync_loop cancelled hash s ai seed n cs = Some (Ret (cs', None)) \<and> length cs' = 512 \<and> set cs' \<subseteq> A"
proof (induction "(511 - length cs) * L + turns_to L k n" arbitrary: n cs rule: less_induct)
  case less
  obtain c where c: "sync_round hash s ai seed (of_nat n) = Ret (c, None)" "n mod L = k \<longrightarrow> c \<noteq> None" "set_option c \<subseteq> A"
    using assms(1) [of n] less.prems(2) by auto
  let ?cs = "case c of None \<Rightarrow> cs | Some x \<Rightarrow> cs @ [x]"
  have run: "sync_loop cancelled hash s ai seed n cs = sync_loop cancelled hash s ai seed (Suc n) ?cs"
    using less.prems(1) assms(3) c(1) by (subst sync_loop.simps) (simp add: SyncCommitteeSize_def word_less_nat_alt unat_of_nat)
  have A: "set ?cs \<subseteq> A" using less.prems(3) c(3) by (cases c) auto
  show ?case
  proof (cases "length ?cs = 512")
    case True
    then have "sync_loop cancelled hash s ai seed (Suc n) ?cs = Some (Ret (?cs, None))"
      by (subst sync_loop.simps) (simp add: SyncCommitteeSize_def)
    then show ?thesis using run True A by simp
  next
    case False
    have l: "length ?cs < 512" using False less.prems(1) by (cases c) auto
    have split: "(511 - length cs) * L = (511 - Suc (length cs)) * L + L" if "Suc (length cs) < 512"
      using that by (simp add: algebra_simps Suc_diff_le flip: mult_Suc)
    have "(511 - length ?cs) * L + turns_to L k (Suc n) < (511 - length cs) * L + turns_to L k n"
      using turns_to_Suc [OF assms(2), of n] c(2) split l assms(2) by (cases c) (auto split: if_splits)
    then show ?thesis unfolding run using less.hyps [of ?cs "Suc n"] l less.prems(2) A by simp
  qed
qed

text \<open>
  (C19) The selection of a sync committee ends: when the active indices and the seed can be read, one of the active validators, at most \<open>2 ^ 40\<close>, has the full effective
  balance and the context is not cancelled, the loop of \<^verbatim>\<open>NextSyncCommitteeIndices\<close>, which has no bound, returns 512 active validators for every hash function.
\<close>
theorem NextSyncCommitteeIndices_returns:
  assumes "bs_validators s = Some vs" "ActiveValidatorIndices hash cv s (NextEpoch s) = (ai, None)" "Seed hash s (NextEpoch s) DomainSyncCommittee = (seed, None)"
    "length ai \<le> 2 ^ 40" "\<forall>i \<in> set ai. unat i < length vs" "full \<in> set ai" "v_EffectiveBalance (vs ! unat full) = MaxEffectiveBalance" "\<And>n. \<not> cancelled n"
  shows "\<exists>committee. NextSyncCommitteeIndices hash cv cancelled s = Ret (committee, None) \<and> length committee = 512 \<and> set committee \<subseteq> set ai"
proof -
  have ne: "ai \<noteq> []" using assms(6) by auto
  let ?n = "of_nat (length ai) :: u64"
  have n: "unat ?n = length ai" using assms(4) by (simp add: unat_of_nat)
  obtain p where p: "p < length ai" "ai ! p = full" using assms(6) by (metis in_set_conv_nth)
  have pn: "unat (of_nat p :: u64) = p" using p(1) assms(4) by (simp add: unat_of_nat)
  have "(of_nat p :: u64) < ?n" using p(1) by (simp add: word_less_nat_alt pn n)
  then obtain k where k: "k < ?n" "fold (shuffle_step hash seed ?n) all_rounds k = of_nat p"
    using shuffle_onto [of ?n "of_nat p" hash seed] n assms(4) by auto
  have kL: "unat k < length ai" using k(1) n by (simp add: word_less_nat_alt)
  note round = sync_round_ok [OF assms(1) ne assms(4,5), where hash = hash and seed = seed]
  have "\<exists>c. sync_round hash s ai seed (of_nat i) = Ret (c, None) \<and> (i mod length ai = unat k \<longrightarrow> c \<noteq> None) \<and> set_option c \<subseteq> set ai" if "i < 2 ^ 64" for i
  proof -
    have i: "of_nat i mod ?n = k" if "i mod length ai = unat k"
      using that \<open>i < 2 ^ 64\<close> n by (simp add: word_unat_eq_iff unat_mod unat_of_nat)
    show ?thesis unfolding round [where i = "of_nat i"] Let_def
      using proposer_round_ok(2) [OF assms(1) ne assms(4,5), where hash = hash and seed = seed and i = "of_nat i"] i k(2) p pn assms(7) full_balance_accepted by auto
  qed
  moreover have "0 + ((511 - length []) * length ai + turns_to (length ai) (unat k) 0) < 2 ^ 64"
    using turns_to_Suc(3) [OF kL, of 0] assms(4) by simp
  ultimately obtain cs where "sync_loop cancelled hash s ai seed 0 [] = Some (Ret (cs, None))" "length cs = 512" "set cs \<subseteq> set ai"
    using sync_loop_fills [of hash s ai seed "length ai" "unat k" "set ai" cancelled "[]" 0] kL assms(8) by auto
  then show ?thesis using assms(2,3) by (simp add: NextSyncCommitteeIndices_def)
qed


lemma next_epoch_seed: "Seed hash (small_state vs bs) 11 d = (hash (d @ Bytes8 11 @ replicate 32 5), None)"
  by (simp add: Seed_def RandaoMix_def RandaoMixAtIndex_def EpochsPerHistoricalVector_def MinSeedLookahead_def out_of_range_def)

lemma one_full_active:
  "ActiveValidatorIndices hash cold_caches (small_state [full_validator] bs) 11 = ([0], None)"
  by (simp add: ActiveValidatorIndices_def next_epoch_seed cold_caches_def ReadFromEveryValidator_def IsActiveValidatorUsingTrie_def
      checkValidatorActiveStatus_def full_validator_def)

theorem NextSyncCommitteeIndices_returns_witness:
  "\<exists>committee. NextSyncCommitteeIndices (\<lambda>xs. replicate 32 (last xs)) cold_caches (\<lambda>_. False) (small_state [full_validator] [32000000000]) = Ret (committee, None)
    \<and> length committee = 512 \<and> set committee \<subseteq> {0}"
proof -
  let ?s = "small_state [full_validator] [32000000000]"
  have e: "NextEpoch ?s = 11" by (simp add: NextEpoch_def SlotsPerEpoch_def)
  show ?thesis
    using NextSyncCommitteeIndices_returns [where s = ?s and full = 0 and cancelled = "\<lambda>_. False", OF small_state_sel(2), unfolded e, OF one_full_active next_epoch_seed]
    by (simp add: full_validator_def MaxEffectiveBalance_def)
qed

subsection \<open>Subcommittees\<close>

text \<open>The four subcommittees are the four quarters of a committee; a fifth one is refused.\<close>
lemma SyncSubCommitteePubkeys_quarters:
  assumes "length (sc_Pubkeys sc) = 512"
  shows "unat i < 4 \<Longrightarrow> SyncSubCommitteePubkeys sc i = Ret (take 128 (drop (128 * unat i) (sc_Pubkeys sc)), None)"
    "unat i = 4 \<Longrightarrow> \<exists>err. SyncSubCommitteePubkeys sc i = Ret ([], Some err)"
proof -
  have m: "unat (i * 128) = 128 * unat i" "unat (i * 128 + 128) = 128 * unat i + 128" if "unat i \<le> 4"
    using that by (simp_all add: unat_word_ariths)
  show "unat i < 4 \<Longrightarrow> SyncSubCommitteePubkeys sc i = Ret (take 128 (drop (128 * unat i) (sc_Pubkeys sc)), None)"
    using m by (simp add: SyncSubCommitteePubkeys_def sync_params assms word_less_nat_alt)
  show "unat i = 4 \<Longrightarrow> \<exists>err. SyncSubCommitteePubkeys sc i = Ret ([], Some err)"
    using m by (simp add: SyncSubCommitteePubkeys_def sync_params assms word_less_nat_alt)
qed

text \<open>For an index such as \<open>2 ^ 57 - 1\<close> the end of the slice wraps around to zero and the slice panics; the callers test the index before.\<close>
lemma SyncSubCommitteePubkeys_wraps: "i * 128 = - 128 \<Longrightarrow> SyncSubCommitteePubkeys sc i = Panic"
  by (simp add: SyncSubCommitteePubkeys_def sync_params word_gt_0)

end
