(* ===== verification/Upgrades.thy ===== *)
theory Upgrades
  imports AltairBalances SyncCommittees
begin

text \<open>
  The upgrades of the state at a fork: \<^verbatim>\<open>core/altair/upgrade.go\<close>, \<^verbatim>\<open>core/execution/upgrade.go\<close>, \<^verbatim>\<open>core/capella/upgrade.go\<close>,
  \<^verbatim>\<open>core/deneb/upgrade.go\<close>, and the constructors of the state they use (\<^verbatim>\<open>state-native/state_trie.go\<close>). A message that holds a state of some version is
  represented by the record of the state, in which the fields the version does not have are zero. On an error the code returns no state.
\<close>

subsection \<open>Getters\<close>

definition BlockRoots :: "BeaconState \<Rightarrow> u8 list list" where
  "BlockRoots s = (case bs_blockRoots s of None \<Rightarrow> [] | Some r \<Rightarrow> r)"
definition StateRoots :: "BeaconState \<Rightarrow> u8 list list" where
  "StateRoots s = (case bs_stateRoots s of None \<Rightarrow> [] | Some r \<Rightarrow> r)"
definition RandaoMixes :: "BeaconState \<Rightarrow> u8 list list" where
  "RandaoMixes s = (case bs_randaoMixes s of None \<Rightarrow> [] | Some r \<Rightarrow> r)"

definition HistoricalSummaries :: "BeaconState \<Rightarrow> HistoricalSummary list result" where
  "HistoricalSummaries s = (if bs_version s < Capella then ([], Some (errNotSupported ''HistoricalSummaries'')) else (bs_historicalSummaries s, None))"
definition NextWithdrawalIndex :: "BeaconState \<Rightarrow> u64 result" where
  "NextWithdrawalIndex s = (if bs_version s < Capella then (0, Some (errNotSupported ''NextWithdrawalIndex'')) else (bs_nextWithdrawalIndex s, None))"
definition NextWithdrawalValidatorIndex :: "BeaconState \<Rightarrow> ValidatorIndex result" where
  "NextWithdrawalValidatorIndex s = (if bs_version s < Capella then (0, Some (errNotSupported ''NextWithdrawalValidatorIndex''))
     else (bs_nextWithdrawalValidatorIndex s, None))"

text \<open>The interface \<^verbatim>\<open>ExecutionData\<close>, as far as a state returns it.\<close>
datatype ExecutionData =
    executionPayloadHeader ExecutionPayloadHeader
  | executionPayloadHeaderCapella ExecutionPayloadHeaderCapella
  | executionPayloadHeaderDeneb ExecutionPayloadHeaderDeneb

definition ErrNilObjectWrapped :: go_error where "ErrNilObjectWrapped = Sentinel ''attempted to wrap nil object''"
definition ErrUnsupportedField :: go_error where "ErrUnsupportedField = Sentinel ''unsupported getter''"

definition wrapped :: "('a \<Rightarrow> ExecutionData) \<Rightarrow> 'a option \<Rightarrow> ExecutionData option result" where
  "wrapped w p = (case p of None \<Rightarrow> (None, Some ErrNilObjectWrapped) | Some h \<Rightarrow> (Some (w h), None))"

definition LatestExecutionPayloadHeader :: "BeaconState \<Rightarrow> ExecutionData option result" where
  "LatestExecutionPayloadHeader s =
    (if bs_version s < Bellatrix then (None, Some (errNotSupported ''LatestExecutionPayloadHeader''))
     else if bs_version s = Bellatrix then wrapped executionPayloadHeader (bs_latestExecutionPayloadHeader s)
     else if bs_version s = Capella then wrapped executionPayloadHeaderCapella (bs_latestExecutionPayloadHeaderCapella s)
     else wrapped executionPayloadHeaderDeneb (bs_latestExecutionPayloadHeaderDeneb s))"

text \<open>The methods of the interface that every kind of header has.\<close>
fun header_of :: "ExecutionData \<Rightarrow> ExecutionPayloadHeader" where
  "header_of (executionPayloadHeader h) = h"
| "header_of (executionPayloadHeaderCapella h) = ExecutionPayloadHeader.truncate h"
| "header_of (executionPayloadHeaderDeneb h) = ExecutionPayloadHeader.truncate h"

fun WithdrawalsRoot :: "ExecutionData \<Rightarrow> u8 list result" where
  "WithdrawalsRoot (executionPayloadHeader h) = ([], Some ErrUnsupportedField)"
| "WithdrawalsRoot (executionPayloadHeaderCapella h) = (ph_WithdrawalsRoot h, None)"
| "WithdrawalsRoot (executionPayloadHeaderDeneb h) = (ph_WithdrawalsRoot h, None)"

subsection \<open>Constructors\<close>

definition BlockRootsLength :: nat where "BlockRootsLength = 8192"
definition StateRootsLength :: nat where "StateRootsLength = 8192"
definition RandaoMixesArrayLength :: nat where "RandaoMixesArrayLength = 65536"

text \<open>An array of 32 bytes: longer slices are cut and shorter ones padded.\<close>
definition bytes32 :: "u8 list \<Rightarrow> u8 list" where
  "bytes32 x = take 32 (x @ replicate (32 - length x) 0)"

text \<open>A fresh array of \<open>n\<close> roots, filled from a slice; a longer slice panics.\<close>
definition fixed_roots :: "nat \<Rightarrow> u8 list list \<Rightarrow> u8 list list outcome" where
  "fixed_roots n roots = (if n < length roots then Panic else Ret (map bytes32 roots @ replicate (n - length roots) (replicate 32 0)))"

text \<open>What the four constructors have in common.\<close>
definition from_proto :: "int \<Rightarrow> BeaconState \<Rightarrow> BeaconState outcome" where
  "from_proto v st =
    obind (fixed_roots BlockRootsLength (BlockRoots st)) (\<lambda>bRoots.
    obind (fixed_roots StateRootsLength (StateRoots st)) (\<lambda>sRoots.
    obind (fixed_roots RandaoMixesArrayLength (RandaoMixes st)) (\<lambda>mixes.
    Ret (st\<lparr>bs_version := v, bs_genesisValidatorsRoot := bytes32 (bs_genesisValidatorsRoot st),
            bs_historicalRoots := map bytes32 (bs_historicalRoots st),
            bs_blockRoots := Some bRoots, bs_stateRoots := Some sRoots, bs_randaoMixes := Some mixes\<rparr>))))"

definition InitializeFromProtoUnsafeAltair :: "BeaconState \<Rightarrow> BeaconState outcome" where
  "InitializeFromProtoUnsafeAltair = from_proto Altair"
definition InitializeFromProtoUnsafeBellatrix :: "BeaconState \<Rightarrow> BeaconState outcome" where
  "InitializeFromProtoUnsafeBellatrix = from_proto Bellatrix"
definition InitializeFromProtoUnsafeCapella :: "BeaconState \<Rightarrow> BeaconState outcome" where
  "InitializeFromProtoUnsafeCapella = from_proto Capella"
definition InitializeFromProtoUnsafeDeneb :: "BeaconState \<Rightarrow> BeaconState outcome" where
  "InitializeFromProtoUnsafeDeneb = from_proto Deneb"

definition AltairForkVersion :: "u8 list" where "AltairForkVersion = [1, 0, 0, 0]"
definition BellatrixForkVersion :: "u8 list" where "BellatrixForkVersion = [2, 0, 0, 0]"
definition CapellaForkVersion :: "u8 list" where "CapellaForkVersion = [3, 0, 0, 0]"
definition DenebForkVersion :: "u8 list" where "DenebForkVersion = [4, 0, 0, 0]"

text \<open>The fields that every upgrade copies; all others are zero. The fork is dereferenced for its version.\<close>
definition carried :: "BeaconState \<Rightarrow> u8 list \<Rightarrow> BeaconState outcome" where
  "carried s newVersion = (case bs_fork s of
     None \<Rightarrow> Panic
   | Some fork \<Rightarrow> Ret
      \<lparr>bs_slot = bs_slot s, bs_version = 0, bs_eth1DataVotes = bs_eth1DataVotes s, bs_validators = bs_validators s, bs_balances = bs_balances s,
       bs_slashings = bs_slashings s, bs_blockRoots = bs_blockRoots s, bs_stateRoots = bs_stateRoots s, bs_randaoMixes = bs_randaoMixes s,
       bs_previousEpochAttestations = [], bs_currentEpochAttestations = [],
       bs_previousEpochParticipation = None, bs_currentEpochParticipation = None, bs_justificationBits = bs_justificationBits s,
       bs_previousJustifiedCheckpoint = bs_previousJustifiedCheckpoint s, bs_currentJustifiedCheckpoint = bs_currentJustifiedCheckpoint s,
       bs_finalizedCheckpoint = bs_finalizedCheckpoint s, bs_inactivityScores = [], bs_currentSyncCommittee = None, bs_nextSyncCommittee = None,
       bs_historicalRoots = bs_historicalRoots s, bs_historicalSummaries = [], bs_eth1Data = bs_eth1Data s, bs_eth1DepositIndex = bs_eth1DepositIndex s,
       bs_nextWithdrawalIndex = 0, bs_nextWithdrawalValidatorIndex = 0, bs_latestBlockHeader = bs_latestBlockHeader s,
       bs_genesisTime = bs_genesisTime s, bs_genesisValidatorsRoot = bs_genesisValidatorsRoot s,
       bs_fork = Some \<lparr>fk_PreviousVersion = fk_CurrentVersion fork, fk_CurrentVersion = newVersion, fk_Epoch = CurrentEpoch s\<rparr>,
       bs_latestExecutionPayloadHeader = None, bs_latestExecutionPayloadHeaderCapella = None, bs_latestExecutionPayloadHeaderDeneb = None\<rparr>)"

text \<open>A getter whose error ends the upgrade.\<close>
definition get :: "BeaconState \<Rightarrow> 'a result \<Rightarrow> ('a \<Rightarrow> (BeaconState \<times> go_error option) outcome) \<Rightarrow> (BeaconState \<times> go_error option) outcome" where
  "get s r f = (case r of (_, Some err) \<Rightarrow> Ret (s, Some err) | (x, None) \<Rightarrow> f x)"

subsection \<open>Altair\<close>

text \<open>One of the three blocks in the loop of \<^verbatim>\<open>TranslateParticipation\<close>.\<close>
definition translate_flag :: "(u8, bool) gomap \<Rightarrow> u8 \<Rightarrow> u8 \<Rightarrow> u8 result" where
  "translate_flag participatedFlags pos b = (case HasValidatorFlag b pos of
     (_, Some err) \<Rightarrow> (b, Some err)
   | (has, None) \<Rightarrow> if gm_get participatedFlags pos = Some True \<and> \<not> has then AddValidatorFlag b pos else (b, None))"

fun translate_indices :: "(u8, bool) gomap \<Rightarrow> u64 list \<Rightarrow> u8 list \<Rightarrow> u8 list result outcome" where
  "translate_indices participatedFlags [] p = Ret (p, None)"
| "translate_indices participatedFlags (index # indices) p =
    (if out_of_range p index then Panic
     else case translate_flag participatedFlags TimelySourceFlagIndex (p ! unat index) of
       (_, Some err) \<Rightarrow> Ret (p, Some err)
     | (b, None) \<Rightarrow> (case translate_flag participatedFlags TargetFlag b of
         (_, Some err) \<Rightarrow> Ret (p, Some err)
       | (b, None) \<Rightarrow> (case translate_flag participatedFlags TimelyHeadFlagIndex b of
           (_, Some err) \<Rightarrow> Ret (p, Some err)
         | (b, None) \<Rightarrow> translate_indices participatedFlags indices (p[unat index := b]))))"

text \<open>The flags of a pending attestation and the validators that attested.\<close>
definition translate_of ::
  "(u8 list \<Rightarrow> u8 list) \<Rightarrow> cache_view \<Rightarrow> bitlist \<Rightarrow> BeaconState \<Rightarrow> PendingAttestation \<Rightarrow> ((u8, bool) gomap \<times> u64 list) result outcome" where
  "translate_of hash cv bl s att = (case AttestationParticipationFlagIndices s (pa_Data att) (pa_InclusionDelay att) of
     (_, Some err) \<Rightarrow> Ret (([], []), Some err)
   | (participatedFlags, None) \<Rightarrow>
       obind (BeaconCommitteeFromState hash cv s (ad_Slot (pa_Data att)) (ad_CommitteeIndex (pa_Data att))) (\<lambda>r. case r of
         (_, Some err) \<Rightarrow> Ret (([], []), Some err)
       | (committee, None) \<Rightarrow> (case AttestingIndices bl (pa_AggregationBits att) committee of
           (_, Some err) \<Rightarrow> Ret (([], []), Some err)
         | (indices, None) \<Rightarrow> Ret ((participatedFlags, indices), None))))"

fun translate_loop ::
  "(u8 list \<Rightarrow> u8 list) \<Rightarrow> cache_view \<Rightarrow> bitlist \<Rightarrow> BeaconState \<Rightarrow> PendingAttestation list \<Rightarrow> u8 list \<Rightarrow> u8 list result outcome" where
  "translate_loop hash cv bl s [] p = Ret (p, None)"
| "translate_loop hash cv bl s (att # atts) p = obind (translate_of hash cv bl s att) (\<lambda>r. case r of
     (_, Some err) \<Rightarrow> Ret (p, Some err)
   | ((participatedFlags, indices), None) \<Rightarrow> obind (translate_indices participatedFlags indices p) (\<lambda>r. case r of
       (p, Some err) \<Rightarrow> Ret (p, Some err)
     | (p, None) \<Rightarrow> translate_loop hash cv bl s atts p))"

definition TranslateParticipation ::
  "(u8 list \<Rightarrow> u8 list) \<Rightarrow> cache_view \<Rightarrow> bitlist \<Rightarrow> PendingAttestation list \<Rightarrow> BeaconState \<Rightarrow> (BeaconState \<times> go_error option) outcome" where
  "TranslateParticipation hash cv bl atts s = (case PreviousEpochParticipation s of
     (_, Some err) \<Rightarrow> Ret (s, Some err)
   | (epochParticipation, None) \<Rightarrow>
       obind (translate_loop hash cv bl s atts (case epochParticipation of None \<Rightarrow> [] | Some p \<Rightarrow> p)) (\<lambda>r. case r of
         (_, Some err) \<Rightarrow> Ret (s, Some err)
       | (p, None) \<Rightarrow> Ret (SetPreviousParticipationBits (map_option (\<lambda>_. p) epochParticipation) s)))"

definition UpgradeToAltair ::
  "(u8 list \<Rightarrow> u8 list) \<Rightarrow> cache_view \<Rightarrow> bitlist \<Rightarrow> (nat \<Rightarrow> bool) \<Rightarrow> (u8 list list \<Rightarrow> u8 list result) \<Rightarrow> BeaconState
    \<Rightarrow> (BeaconState \<times> go_error option) outcome" where
  "UpgradeToAltair hash cv bl cancelled aggregate state =
    obind (carried state AltairForkVersion) (\<lambda>s.
    obind (InitializeFromProtoUnsafeAltair
            (s\<lparr>bs_previousEpochParticipation := Some (replicate (length (vals state)) 0),
               bs_currentEpochParticipation := Some (replicate (length (vals state)) 0),
               bs_inactivityScores := replicate (length (vals state)) 0\<rparr>)) (\<lambda>newState.
    get state (PreviousEpochAttestations state) (\<lambda>prevEpochAtts.
    obind (TranslateParticipation hash cv bl prevEpochAtts newState) (\<lambda>r. case r of
      (_, Some err) \<Rightarrow> Ret (state, Some err)
    | (newState, None) \<Rightarrow> obind (NextSyncCommittee hash cv cancelled aggregate newState) (\<lambda>c.
        get state c (\<lambda>committee. case SetCurrentSyncCommittee committee newState of
          (_, Some err) \<Rightarrow> Ret (state, Some err)
        | (newState, None) \<Rightarrow> (case SetNextSyncCommittee committee newState of
            (_, Some err) \<Rightarrow> Ret (state, Some err)
          | (newState, None) \<Rightarrow> Ret (newState, None))))))))"

subsection \<open>Bellatrix, Capella and Deneb\<close>

text \<open>The getters of what a state since Altair has; the continuation gets the assignment of their results.\<close>
definition with_altair :: "BeaconState \<Rightarrow> ((BeaconState \<Rightarrow> BeaconState) \<Rightarrow> (BeaconState \<times> go_error option) outcome) \<Rightarrow> (BeaconState \<times> go_error option) outcome" where
  "with_altair state k =
    get state (CurrentSyncCommittee_state state) (\<lambda>currentSyncCommittee.
    get state (NextSyncCommittee_state state) (\<lambda>nextSyncCommittee.
    get state (PreviousEpochParticipation state) (\<lambda>prevEpochParticipation.
    get state (CurrentEpochParticipation state) (\<lambda>currentEpochParticipation.
    get state (InactivityScores state) (\<lambda>inactivityScores.
    k (\<lambda>s. s\<lparr>bs_previousEpochParticipation := prevEpochParticipation, bs_currentEpochParticipation := currentEpochParticipation,
      bs_inactivityScores := inactivityScores, bs_currentSyncCommittee := currentSyncCommittee, bs_nextSyncCommittee := nextSyncCommittee\<rparr>))))))"

text \<open>The new state from the copied fields and the new ones.\<close>
definition upgraded ::
  "BeaconState \<Rightarrow> u8 list \<Rightarrow> (BeaconState \<Rightarrow> BeaconState) \<Rightarrow> (BeaconState \<Rightarrow> BeaconState outcome) \<Rightarrow> (BeaconState \<times> go_error option) outcome" where
  "upgraded state newVersion newFields init = obind (carried state newVersion) (\<lambda>s. obind (init (newFields s)) (\<lambda>s. Ret (s, None)))"

definition empty_header :: ExecutionPayloadHeader where
  "empty_header = \<lparr>ph_ParentHash = replicate 32 0, ph_FeeRecipient = replicate 20 0, ph_StateRoot = replicate 32 0, ph_ReceiptsRoot = replicate 32 0,
     ph_LogsBloom = replicate 256 0, ph_PrevRandao = replicate 32 0, ph_BlockNumber = 0, ph_GasLimit = 0, ph_GasUsed = 0, ph_Timestamp = 0,
     ph_ExtraData = [], ph_BaseFeePerGas = replicate 32 0, ph_BlockHash = replicate 32 0, ph_TransactionsRoot = replicate 32 0\<rparr>"

definition UpgradeToBellatrix :: "BeaconState \<Rightarrow> (BeaconState \<times> go_error option) outcome" where
  "UpgradeToBellatrix state = with_altair state (\<lambda>altair.
    upgraded state BellatrixForkVersion (\<lambda>s. (altair s)\<lparr>bs_latestExecutionPayloadHeader := Some empty_header\<rparr>) InitializeFromProtoUnsafeBellatrix)"

text \<open>The header of a payload with the root of its withdrawals.\<close>
definition capella_header :: "ExecutionPayloadHeader \<Rightarrow> u8 list \<Rightarrow> ExecutionPayloadHeaderCapella" where
  "capella_header h withdrawalsRoot = ExecutionPayloadHeader.extend h (ExecutionPayloadHeaderCapella.fields withdrawalsRoot)"

definition UpgradeToCapella :: "BeaconState \<Rightarrow> (BeaconState \<times> go_error option) outcome" where
  "UpgradeToCapella state = with_altair state (\<lambda>altair.
    get state (LatestExecutionPayloadHeader state) (\<lambda>payloadHeader. case payloadHeader of
      None \<Rightarrow> Panic
    | Some h \<Rightarrow> upgraded state CapellaForkVersion
        (\<lambda>s. (altair s)\<lparr>bs_latestExecutionPayloadHeaderCapella := Some (capella_header (header_of h) (replicate 32 0)),
           bs_nextWithdrawalIndex := 0, bs_nextWithdrawalValidatorIndex := 0, bs_historicalSummaries := []\<rparr>)
        InitializeFromProtoUnsafeCapella))"

definition UpgradeToDeneb :: "BeaconState \<Rightarrow> (BeaconState \<times> go_error option) outcome" where
  "UpgradeToDeneb state = with_altair state (\<lambda>altair.
    get state (LatestExecutionPayloadHeader state) (\<lambda>payloadHeader. case payloadHeader of
      None \<Rightarrow> Panic
    | Some h \<Rightarrow>
        get state (WithdrawalsRoot h) (\<lambda>wdRoot.
        get state (NextWithdrawalIndex state) (\<lambda>wi.
        get state (NextWithdrawalValidatorIndex state) (\<lambda>vi.
        get state (HistoricalSummaries state) (\<lambda>summaries.
        upgraded state DenebForkVersion
          (\<lambda>s. (altair s)\<lparr>bs_latestExecutionPayloadHeaderDeneb :=
                 Some (ExecutionPayloadHeaderCapella.extend (capella_header (header_of h) wdRoot) (ExecutionPayloadHeaderDeneb.fields 0 0)),
             bs_nextWithdrawalIndex := wi, bs_nextWithdrawalValidatorIndex := vi, bs_historicalSummaries := summaries\<rparr>)
          InitializeFromProtoUnsafeDeneb))))))"

subsection \<open>What an upgrade keeps\<close>

definition roots_ok :: "nat \<Rightarrow> u8 list list option \<Rightarrow> bool" where
  "roots_ok n r \<longleftrightarrow> (case r of None \<Rightarrow> False | Some xs \<Rightarrow> length xs = n \<and> (\<forall>x \<in> set xs. length x = 32))"

text \<open>
  The type of a state: one balance per validator, vectors of the lengths that the specification gives, and since Altair one score and entry of each
  list of flags per validator.
\<close>
definition well_typed :: "BeaconState \<Rightarrow> bool" where
  "well_typed s \<longleftrightarrow> bs_validators s \<noteq> None \<and> map_option length (bs_balances s) = Some (length (vals s)) \<and> length (bs_slashings s) = 8192
     \<and> roots_ok 8192 (bs_blockRoots s) \<and> roots_ok 8192 (bs_stateRoots s) \<and> roots_ok 65536 (bs_randaoMixes s)
     \<and> (bs_version s \<noteq> Phase0 \<longrightarrow> map_option length (bs_currentEpochParticipation s) = Some (length (vals s))
         \<and> map_option length (bs_previousEpochParticipation s) = Some (length (vals s)) \<and> length (bs_inactivityScores s) = length (vals s))"

text \<open>What no upgrade may change: the ledger of the validators, the checkpoints and the history.\<close>
definition ledger where
  "ledger s = (bs_slot s, bs_validators s, bs_balances s, bs_slashings s, bs_blockRoots s, bs_stateRoots s, bs_randaoMixes s, bs_latestBlockHeader s,
     (bs_justificationBits s, bs_previousJustifiedCheckpoint s, bs_currentJustifiedCheckpoint s, bs_finalizedCheckpoint s),
     (bs_eth1Data s, bs_eth1DataVotes s, bs_eth1DepositIndex s, bs_genesisTime s))"

lemma length_bytes32 [simp]: "length (bytes32 x) = 32"
  by (simp add: bytes32_def)

lemma bytes32_id [simp]: "length x = 32 \<Longrightarrow> bytes32 x = x"
  by (simp add: bytes32_def)

lemma fixed_roots_id: "roots_ok n r \<Longrightarrow> fixed_roots n (case r of None \<Rightarrow> [] | Some x \<Rightarrow> x) = Ret (case r of None \<Rightarrow> [] | Some x \<Rightarrow> x)"
  by (auto simp: roots_ok_def fixed_roots_def map_idI split: option.splits)

lemma from_proto_typed:
  assumes "roots_ok 8192 (bs_blockRoots st)" "roots_ok 8192 (bs_stateRoots st)" "roots_ok 65536 (bs_randaoMixes st)"
  shows "from_proto v st = Ret (st\<lparr>bs_version := v, bs_genesisValidatorsRoot := bytes32 (bs_genesisValidatorsRoot st), bs_historicalRoots := map bytes32 (bs_historicalRoots st)\<rparr>)"
proof -
  obtain b r m where "bs_blockRoots st = Some b" "bs_stateRoots st = Some r" "bs_randaoMixes st = Some m" using assms by (auto simp: roots_ok_def split: option.splits)
  then show ?thesis using fixed_roots_id [OF assms(1)] fixed_roots_id [OF assms(2)] fixed_roots_id [OF assms(3)]
    by (simp add: from_proto_def BlockRootsLength_def StateRootsLength_def RandaoMixesArrayLength_def BlockRoots_def StateRoots_def RandaoMixes_def)
qed

lemma get_yields: "(\<And>x. r = (x, None) \<Longrightarrow> yields P (f x)) \<Longrightarrow> (\<And>e. P (s, Some e)) \<Longrightarrow> yields P (get s r f)"
  by (cases r; cases "snd r") (auto simp: get_def)

text \<open>What an upgrade to version \<open>v\<close> promises when it succeeds.\<close>
definition upgrade_post :: "int \<Rightarrow> u8 list \<Rightarrow> BeaconState \<Rightarrow> BeaconState \<times> go_error option \<Rightarrow> bool" where
  "upgrade_post v newVersion s = (\<lambda>(t, err). err = None \<longrightarrow> ledger t = ledger s \<and> well_typed t \<and> bs_version t = v
     \<and> bs_fork t = map_option (\<lambda>f. \<lparr>fk_PreviousVersion = fk_CurrentVersion f, fk_CurrentVersion = newVersion, fk_Epoch = CurrentEpoch s\<rparr>) (bs_fork s))"

lemma upgrade_post_error [simp]: "upgrade_post v nv s (t, Some e)"
  by (simp add: upgrade_post_def)

lemma carried_ledger:
  assumes "carried s nv = Ret t"
  shows "ledger t = ledger s" "bs_fork t = map_option (\<lambda>f. \<lparr>fk_PreviousVersion = fk_CurrentVersion f, fk_CurrentVersion = nv, fk_Epoch = CurrentEpoch s\<rparr>) (bs_fork s)"
  using assms by (auto simp: carried_def ledger_def split: option.splits)

text \<open>Constructing a state keeps the ledger, and the result is well typed when the new lists have the right lengths.\<close>
lemma from_proto_post:
  assumes "well_typed s" "ledger u = ledger s" "bs_fork u = map_option (\<lambda>f. \<lparr>fk_PreviousVersion = fk_CurrentVersion f, fk_CurrentVersion = nv, fk_Epoch = CurrentEpoch s\<rparr>) (bs_fork s)"
    "map_option length (bs_currentEpochParticipation u) = Some (length (vals s))" "map_option length (bs_previousEpochParticipation u) = Some (length (vals s))"
    "length (bs_inactivityScores u) = length (vals s)"
  shows "\<exists>t. from_proto v u = Ret t \<and> upgrade_post v nv s (t, None)"
proof -
  have "roots_ok 8192 (bs_blockRoots u)" "roots_ok 8192 (bs_stateRoots u)" "roots_ok 65536 (bs_randaoMixes u)"
    using assms(1,2) by (simp_all add: well_typed_def ledger_def)
  from from_proto_typed [OF this] show ?thesis using assms by (simp add: upgrade_post_def ledger_def well_typed_def vals_def)
qed

lemma upgraded_post:
  assumes "well_typed s" "bs_fork s \<noteq> None" "\<And>u. ledger (f u) = ledger u \<and> bs_fork (f u) = bs_fork u"
    "\<And>u. map_option length (bs_currentEpochParticipation (f u)) = Some (length (vals s)) \<and> map_option length (bs_previousEpochParticipation (f u)) = Some (length (vals s))
      \<and> length (bs_inactivityScores (f u)) = length (vals s)"
  shows "\<exists>t. upgraded s nv f (from_proto v) = Ret (t, None) \<and> upgrade_post v nv s (t, None)"
proof -
  obtain u where u: "carried s nv = Ret u" using assms(2) by (auto simp: carried_def)
  obtain t where "from_proto v (f u) = Ret t" "upgrade_post v nv s (t, None)"
    using from_proto_post [OF assms(1), of "f u" nv v] carried_ledger [OF u] assms(3) [of u] assms(4) [of u] by auto
  then show ?thesis by (simp add: upgraded_def u)
qed

lemma with_altair_typed:
  assumes "bs_version s \<noteq> Phase0"
  shows "with_altair s k = k (\<lambda>u. u\<lparr>bs_previousEpochParticipation := bs_previousEpochParticipation s, bs_currentEpochParticipation := bs_currentEpochParticipation s,
      bs_inactivityScores := bs_inactivityScores s, bs_currentSyncCommittee := bs_currentSyncCommittee s, bs_nextSyncCommittee := bs_nextSyncCommittee s\<rparr>)"
  using assms by (simp add: with_altair_def get_def CurrentSyncCommittee_state_def NextSyncCommittee_state_def PreviousEpochParticipation_def
      CurrentEpochParticipation_def InactivityScores_def)

lemma with_altair_phase0: "bs_version s = Phase0 \<Longrightarrow> with_altair s k = Ret (s, Some (errNotSupported ''CurrentSyncCommittee''))"
  by (simp add: with_altair_def get_def CurrentSyncCommittee_state_def)

lemmas initializers = InitializeFromProtoUnsafeAltair_def InitializeFromProtoUnsafeBellatrix_def InitializeFromProtoUnsafeCapella_def InitializeFromProtoUnsafeDeneb_def
lemmas versions = Phase0_def Altair_def Bellatrix_def Capella_def Deneb_def

text \<open>The later upgrades succeed on states of the version before that have a fork and a header.\<close>
lemma UpgradeToBellatrix_succeeds:
  assumes "well_typed s" "bs_version s \<noteq> Phase0" "bs_fork s \<noteq> None"
  shows "\<exists>t. UpgradeToBellatrix s = Ret (t, None) \<and> upgrade_post Bellatrix BellatrixForkVersion s (t, None)"
  unfolding UpgradeToBellatrix_def with_altair_typed [OF assms(2)] initializers
  by (rule upgraded_post [OF assms(1,3)]) (use assms(1,2) in \<open>simp_all add: well_typed_def ledger_def\<close>)

lemma UpgradeToCapella_succeeds:
  assumes "well_typed s" "bs_version s \<noteq> Phase0" "bs_fork s \<noteq> None" "LatestExecutionPayloadHeader s = (Some h, None)"
  shows "\<exists>t. UpgradeToCapella s = Ret (t, None) \<and> upgrade_post Capella CapellaForkVersion s (t, None)"
  unfolding UpgradeToCapella_def with_altair_typed [OF assms(2)] initializers get_def assms(4) prod.case option.case
  by (rule upgraded_post [OF assms(1,3)]) (use assms(1,2) in \<open>simp_all add: well_typed_def ledger_def\<close>)

lemma UpgradeToDeneb_succeeds:
  assumes "well_typed s" "bs_version s \<ge> Capella" "bs_fork s \<noteq> None" "LatestExecutionPayloadHeader s = (Some h, None)" "WithdrawalsRoot h = (w, None)"
  shows "\<exists>t. UpgradeToDeneb s = Ret (t, None) \<and> upgrade_post Deneb DenebForkVersion s (t, None)"
proof -
  have v: "bs_version s \<noteq> Phase0" "\<not> bs_version s < Capella" using assms(2) by (simp_all add: versions)
  show ?thesis
    unfolding UpgradeToDeneb_def with_altair_typed [OF v(1)] initializers get_def assms(4,5) NextWithdrawalIndex_def NextWithdrawalValidatorIndex_def
      HistoricalSummaries_def if_not_P [OF v(2)] prod.case option.case
    by (rule upgraded_post [OF assms(1,3)]) (use assms(1) v(1) in \<open>simp_all add: well_typed_def ledger_def\<close>)
qed

lemma upgraded_panics: "bs_fork s = None \<Longrightarrow> upgraded s nv f g = Panic"
  by (simp add: upgraded_def carried_def)

lemma later_upgrades_post:
  assumes "well_typed s"
  shows "yields (upgrade_post Bellatrix BellatrixForkVersion s) (UpgradeToBellatrix s)"
    "yields (upgrade_post Capella CapellaForkVersion s) (UpgradeToCapella s)"
    "yields (upgrade_post Deneb DenebForkVersion s) (UpgradeToDeneb s)"
proof -
  have err: "bs_version s = Phase0 \<Longrightarrow> yields (upgrade_post v nv s) (with_altair s k)" for v nv k by (simp add: with_altair_phase0)
  have no_fork: "bs_fork s = None \<Longrightarrow> yields P (upgraded s nv f g)" for P nv f g by (simp add: upgraded_panics)
  show "yields (upgrade_post Bellatrix BellatrixForkVersion s) (UpgradeToBellatrix s)"
  proof (cases "bs_version s = Phase0 \<or> bs_fork s = None")
    case True
    then show ?thesis using err no_fork by (cases "bs_version s = Phase0") (simp_all add: UpgradeToBellatrix_def with_altair_typed)
  qed (use UpgradeToBellatrix_succeeds [OF assms] in \<open>auto simp: yields_def\<close>)
  show "yields (upgrade_post Capella CapellaForkVersion s) (UpgradeToCapella s)"
  proof (cases "bs_version s = Phase0")
    case False
    obtain x e where x: "LatestExecutionPayloadHeader s = (x, e)" by fastforce
    show ?thesis
    proof (cases "x = None \<or> e \<noteq> None \<or> bs_fork s = None")
      case True
      then show ?thesis using False no_fork by (cases e; cases x) (auto simp: UpgradeToCapella_def with_altair_typed get_def x)
    next
      case no: False
      then obtain h where h: "x = Some h" "e = None" "bs_fork s \<noteq> None" by auto
      show ?thesis using UpgradeToCapella_succeeds [OF assms False h(3), of h] x h by (auto simp: yields_def)
    qed
  qed (simp add: UpgradeToCapella_def err)
  show "yields (upgrade_post Deneb DenebForkVersion s) (UpgradeToDeneb s)"
  proof (cases "bs_version s = Phase0")
    case False
    obtain x e where x: "LatestExecutionPayloadHeader s = (x, e)" by fastforce
    show ?thesis
    proof (cases "x = None \<or> e \<noteq> None \<or> bs_fork s = None \<or> bs_version s < Capella")
      case True
      then show ?thesis using False no_fork
        by (cases e; cases x) (auto simp: UpgradeToDeneb_def with_altair_typed get_def x NextWithdrawalIndex_def split: prod.splits option.splits)
    next
      case no: False
      then obtain h where h: "x = Some h" "e = None" "bs_fork s \<noteq> None" "Capella \<le> bs_version s" by auto
      obtain w we where w: "WithdrawalsRoot h = (w, we)" by fastforce
      show ?thesis
      proof (cases we)
        case None
        then show ?thesis using UpgradeToDeneb_succeeds [OF assms h(4,3), of h w] x h w by (auto simp: yields_def)
      next
        case (Some we')
        then show ?thesis using False x h w by (simp add: UpgradeToDeneb_def with_altair_typed get_def)
      qed
    qed
  qed (simp add: UpgradeToDeneb_def err)
qed

subsection \<open>Translating attestations into flags\<close>

lemma translate_flag_eq: "unat pos \<le> 7 \<Longrightarrow> translate_flag F pos b = (if gm_get F pos = Some True then b OR push_bit (unat pos) 1 else b, None)"
proof -
  assume p: "unat pos \<le> 7"
  have "bit b (unat pos) \<Longrightarrow> b OR push_bit (unat pos) 1 = b" by (rule bit_eqI) (auto simp: bit_or_iff bit_exp_iff)
  then show ?thesis by (simp add: translate_flag_def HasValidatorFlag_bit AddValidatorFlag_bit p)
qed

lemma translate_indices_step:
  assumes "\<not> out_of_range p i"
  shows "translate_indices F (i # is) p = translate_indices F is (p[unat i := p ! unat i OR flag_mask F])"
proof -
  have "push_bit 1 (1 :: u8) = 2" "push_bit 2 (1 :: u8) = 4" by simp_all
  then show ?thesis using assms
    by (simp add: translate_flag_eq TimelySourceFlagIndex_def TimelyTargetFlagIndex_def TimelyHeadFlagIndex_def flag_mask_def or.assoc)
qed

lemma translate_indices_ok:
  "translate_indices F is p = Ret (q, e) \<Longrightarrow> e = None \<and> length q = length p
    \<and> (\<forall>i < length p. q ! i = (if i \<in> unat ` set is then p ! i OR flag_mask F else p ! i))"
proof (induction "is" arbitrary: p)
  case (Cons j js)
  show ?case
  proof (cases "out_of_range p j")
    case False
    then have "unat j < length p" by (simp add: out_of_range_def)
    then show ?thesis using Cons.prems Cons.IH [of "p[unat j := p ! unat j OR flag_mask F]"] False
      by (auto simp: translate_indices_step nth_list_update or.assoc simp del: translate_indices.simps)
  qed (use Cons.prems in simp)
qed simp

lemma translate_loop_ok:
  "translate_loop hash cv bl s atts p = Ret (q, None) \<Longrightarrow> length q = length p
    \<and> (\<forall>att \<in> set atts. \<exists>F is. translate_of hash cv bl s att = Ret ((F, is), None))
    \<and> (\<forall>i < length p. \<forall>k. bit (q ! i) k \<longleftrightarrow> bit (p ! i) k
        \<or> (\<exists>att \<in> set atts. \<exists>F is. translate_of hash cv bl s att = Ret ((F, is), None) \<and> i \<in> unat ` set is \<and> bit (flag_mask F) k))"
proof (induction atts arbitrary: p)
  case (Cons att atts)
  obtain F "is" where t: "translate_of hash cv bl s att = Ret ((F, is), None)"
    using Cons.prems by (auto simp: obind_Ret_iff split: option.splits)
  obtain p1 e where p1: "translate_indices F is p = Ret (p1, e)"
    using Cons.prems t by (auto simp: obind_Ret_iff)
  have ok: "e = None" "length p1 = length p" "\<forall>i < length p. p1 ! i = (if i \<in> unat ` set is then p ! i OR flag_mask F else p ! i)"
    using translate_indices_ok [OF p1] by auto
  have "translate_loop hash cv bl s atts p1 = Ret (q, None)" using Cons.prems t p1 ok by simp
  from Cons.IH [OF this] show ?case using t ok by (auto simp: bit_or_iff)
qed simp

lemma TranslateParticipation_ok:
  assumes "TranslateParticipation hash cv bl atts s = Ret (t, None)"
  obtains q where "t = s\<lparr>bs_previousEpochParticipation := map_option (\<lambda>_. q) (bs_previousEpochParticipation s)\<rparr>"
    "translate_loop hash cv bl s atts (case bs_previousEpochParticipation s of None \<Rightarrow> [] | Some p \<Rightarrow> p) = Ret (q, None)"
  using assms by (auto simp: TranslateParticipation_def PreviousEpochParticipation_def SetPreviousParticipationBits_def obind_Ret_iff split: if_splits option.splits)

lemma UpgradeToAltair_post:
  assumes "well_typed s"
  shows "yields (upgrade_post Altair AltairForkVersion s) (UpgradeToAltair hash cv bl cancelled agg s)"
proof (cases "bs_fork s")
  case (Some f)
  then obtain u where u: "carried s AltairForkVersion = Ret u" by (auto simp: carried_def)
  let ?z = "replicate (length (vals s)) 0"
  obtain v where v: "from_proto Altair (u\<lparr>bs_previousEpochParticipation := Some ?z, bs_currentEpochParticipation := Some ?z, bs_inactivityScores := ?z\<rparr>) = Ret v"
    "upgrade_post Altair AltairForkVersion s (v, None)"
    using from_proto_post [OF assms, of "u\<lparr>bs_previousEpochParticipation := Some ?z, bs_currentEpochParticipation := Some ?z, bs_inactivityScores := ?z\<rparr>" AltairForkVersion Altair]
      carried_ledger [OF u] by (auto simp: ledger_def)
  have tr: "upgrade_post Altair AltairForkVersion s (w\<lparr>bs_currentSyncCommittee := c, bs_nextSyncCommittee := d\<rparr>, None)"
    if w: "TranslateParticipation hash cv bl atts v = Ret (w, None)" for atts w c d
  proof -
    obtain q where q: "w = v\<lparr>bs_previousEpochParticipation := map_option (\<lambda>_. q) (bs_previousEpochParticipation v)\<rparr>"
      "translate_loop hash cv bl v atts (case bs_previousEpochParticipation v of None \<Rightarrow> [] | Some p \<Rightarrow> p) = Ret (q, None)"
      by (rule TranslateParticipation_ok [OF w])
    have "bs_previousEpochParticipation v = Some p \<Longrightarrow> length q = length p" for p using translate_loop_ok [OF q(2)] by simp
    then have "well_typed v \<Longrightarrow> well_typed (w\<lparr>bs_currentSyncCommittee := c, bs_nextSyncCommittee := d\<rparr>)"
      by (cases "bs_previousEpochParticipation v") (simp_all add: q(1) well_typed_def vals_def)
    moreover have "ledger (w\<lparr>bs_currentSyncCommittee := c, bs_nextSyncCommittee := d\<rparr>) = ledger v" by (simp add: q(1) ledger_def)
    ultimately show ?thesis using v(2) by (simp add: upgrade_post_def q(1))
  qed
  show ?thesis unfolding UpgradeToAltair_def u obind.simps initializers v(1)
  proof (rule get_yields, rule yields_obind, goal_cases)
    case (1 atts r)
    obtain w e where r: "r = (w, e)" by fastforce
    show ?case
    proof (cases e)
      case None
      have "bs_version v = Altair" using v(2) by (simp add: upgrade_post_def)
      then have "bs_version w = Altair" using 1(2) r None by (auto elim: TranslateParticipation_ok)
      then show ?thesis using tr 1(2) r None
        by (auto simp: SetCurrentSyncCommittee_def SetNextSyncCommittee_def versions intro!: get_yields)
    qed (simp add: r)
  qed simp
qed (simp add: UpgradeToAltair_def carried_def)

text \<open>
  (C15) The upgrades at a fork keep the ledger: on a state of the right type each of the four upgrades that succeeds leaves validators, balances, slashings, roots, mixes,
  checkpoints, deposit data and slot as they were, gives a state of the right type and of the new version, and records the old version in the fork; and those to
  Bellatrix, Capella and Deneb do succeed on a state that has a fork and is of the version before.
\<close>
theorem upgrades_keep_ledger:
  assumes "well_typed s"
  shows "yields (upgrade_post Altair AltairForkVersion s) (UpgradeToAltair hash cv bl cancelled agg s)
    \<and> yields (upgrade_post Bellatrix BellatrixForkVersion s) (UpgradeToBellatrix s)
    \<and> yields (upgrade_post Capella CapellaForkVersion s) (UpgradeToCapella s)
    \<and> yields (upgrade_post Deneb DenebForkVersion s) (UpgradeToDeneb s)
    \<and> (bs_fork s \<noteq> None \<longrightarrow>
        (bs_version s = Altair \<longrightarrow> (\<exists>t. UpgradeToBellatrix s = Ret (t, None)))
      \<and> (bs_version s = Bellatrix \<and> bs_latestExecutionPayloadHeader s \<noteq> None \<longrightarrow> (\<exists>t. UpgradeToCapella s = Ret (t, None)))
      \<and> (bs_version s = Capella \<and> bs_latestExecutionPayloadHeaderCapella s \<noteq> None \<longrightarrow> (\<exists>t. UpgradeToDeneb s = Ret (t, None))))"
proof -
  have 1: "\<exists>t. UpgradeToBellatrix s = Ret (t, None)" if "bs_fork s \<noteq> None" "bs_version s = Altair"
    using UpgradeToBellatrix_succeeds [OF assms] that by (auto simp: versions)
  have 2: "\<exists>t. UpgradeToCapella s = Ret (t, None)" if "bs_fork s \<noteq> None" "bs_version s = Bellatrix" "bs_latestExecutionPayloadHeader s = Some h" for h
    using UpgradeToCapella_succeeds [OF assms, of "executionPayloadHeader h"] that by (auto simp: versions LatestExecutionPayloadHeader_def wrapped_def)
  have 3: "\<exists>t. UpgradeToDeneb s = Ret (t, None)" if "bs_fork s \<noteq> None" "bs_version s = Capella" "bs_latestExecutionPayloadHeaderCapella s = Some h" for h
    using UpgradeToDeneb_succeeds [OF assms, of "executionPayloadHeaderCapella h"] that by (auto simp: versions LatestExecutionPayloadHeader_def wrapped_def)
  show ?thesis using UpgradeToAltair_post [OF assms] later_upgrades_post [OF assms] 1 2 3 by blast
qed

text \<open>
  The pending attestations of the last phase 0 epoch become flags: after \<^verbatim>\<open>TranslateParticipation\<close> a bit of a validator's flags is set exactly when it was set before or
  when some attestation that the validator took part in earns the flag, whatever the order of the attestations and however often a validator attested; nothing else
  of the state changes.
\<close>
theorem participation_translated:
  assumes "TranslateParticipation hash cv bl atts s = Ret (t, None)" "bs_previousEpochParticipation s = Some p"
  shows "\<exists>q. t = s\<lparr>bs_previousEpochParticipation := Some q\<rparr> \<and> length q = length p
    \<and> (\<forall>i < length p. \<forall>k. bit (q ! i) k \<longleftrightarrow> bit (p ! i) k
        \<or> (\<exists>att \<in> set atts. \<exists>F is. translate_of hash cv bl s att = Ret ((F, is), None) \<and> i \<in> unat ` set is \<and> bit (flag_mask F) k))"
proof -
  obtain q where q: "t = s\<lparr>bs_previousEpochParticipation := map_option (\<lambda>_. q) (bs_previousEpochParticipation s)\<rparr>"
    "translate_loop hash cv bl s atts (case bs_previousEpochParticipation s of None \<Rightarrow> [] | Some p \<Rightarrow> p) = Ret (q, None)"
    by (rule TranslateParticipation_ok [OF assms(1)])
  then show ?thesis using translate_loop_ok [OF q(2)] assms(2) by auto
qed

lemma replicate_roots_ok: "roots_ok n (Some (replicate m x)) \<longleftrightarrow> m = n \<and> (m = 0 \<or> length x = 32)"
  by (auto simp: roots_ok_def)

theorem upgrades_keep_ledger_witness:
  "\<exists>t. UpgradeToBellatrix (altair_demo\<lparr>bs_fork := Some \<lparr>fk_PreviousVersion = [0, 0, 0, 0], fk_CurrentVersion = AltairForkVersion, fk_Epoch = 5\<rparr>\<rparr>) = Ret (t, None)
    \<and> bs_version t = Bellatrix \<and> bs_balances t = Some [32000000000, 32000000000]
    \<and> bs_fork t = Some \<lparr>fk_PreviousVersion = AltairForkVersion, fk_CurrentVersion = BellatrixForkVersion, fk_Epoch = 10\<rparr>"
proof -
  define s where "s = altair_demo\<lparr>bs_fork := Some \<lparr>fk_PreviousVersion = [0, 0, 0, 0], fk_CurrentVersion = AltairForkVersion, fk_Epoch = 5\<rparr>\<rparr>"
  have "well_typed s" by (simp add: s_def well_typed_def altair_demo_def vals_def replicate_roots_ok)
  note up = upgrades_keep_ledger [OF this, of id cold_caches demo_bits "\<lambda>_. False" "\<lambda>_. ([], None)"]
  have v: "bs_version s = Altair" "bs_balances s = Some [32000000000, 32000000000]" "bs_fork s \<noteq> None" "CurrentEpoch s = 10"
    by (simp_all add: altair_demo_def s_def CurrentEpoch_def SlotsPerEpoch_def)
  then obtain t where t: "UpgradeToBellatrix s = Ret (t, None)" using up by blast
  moreover have "yields (upgrade_post Bellatrix BellatrixForkVersion s) (UpgradeToBellatrix s)" using up by blast
  ultimately have "upgrade_post Bellatrix BellatrixForkVersion s (t, None)" by simp
  then show ?thesis using t v unfolding s_def [symmetric] by (auto simp: upgrade_post_def ledger_def s_def)
qed

text \<open>The demo attestation by validator 0, included one slot later, earns all three flags.\<close>
abbreviation flags_demo :: BeaconState where
  "flags_demo \<equiv> demo_state\<lparr>bs_version := Altair, bs_previousEpochParticipation := Some [0]\<rparr>"

lemma flags_demo_translated:
  "translate_of id demo_caches demo_bits flags_demo (pending_of demo_attestation 320 0) = Ret (([(0, True), (1, True), (2, True)], [0]), None)"
proof -
  obtain seed where s: "Seed id demo_state 9 DomainBeaconAttester = (seed, None)"
    using small_seed by (metis prod.collapse)
  then have s: "Seed id flags_demo 9 DomainBeaconAttester = (seed, None)"
    by (simp add: Seed_def RandaoMix_def RandaoMixAtIndex_def)
  have b: "BeaconCommitteeFromState id demo_caches flags_demo 319 0 = Ret ([0], None)"
    by (simp add: BeaconCommitteeFromState_def SlotsPerEpoch_def s demo_caches_def)
  have r: "BlockRootAtSlot flags_demo 319 = (replicate 32 7, None)" "BlockRootAtSlot flags_demo 288 = (replicate 32 7, None)"
    by (simp_all add: BlockRootAtSlot_def BlockRootAtIndex_def SlotsPerHistoricalRoot_def out_of_range_def)
  have e: "BlockRoot flags_demo 9 = (replicate 32 7, None)"
    by (simp add: BlockRoot_def EpochStart_def Slot_SafeMul_def Mul64_def SlotsPerEpoch_def r)
  have f: "AttestationParticipationFlagIndices flags_demo (pa_Data (pending_of demo_attestation 320 0)) 1 = ([(0, True), (1, True), (2, True)], None)"
    by (simp add: AttestationParticipationFlagIndices_def MatchingStatus_def pending_of_def demo_attestation_def e r CheckPointIsEqual_def genesis_checkpoint_def
       CurrentEpoch_def SlotsPerEpoch_def SqrRootSlotsPerEpoch_def MinAttestationInclusionDelay_def gm_set_def TimelySourceFlagIndex_def TimelyTargetFlagIndex_def TimelyHeadFlagIndex_def)
  have d: "pa_InclusionDelay (pending_of demo_attestation 320 0) = 1" by (simp add: pending_of_def demo_attestation_def)
  show ?thesis unfolding translate_of_def d f
    by (simp add: pending_of_def demo_attestation_def b AttestingIndices_def demo_bits_def)
qed

theorem participation_translated_witness:
  "\<exists>t q. TranslateParticipation id demo_caches demo_bits [pending_of demo_attestation 320 0] flags_demo = Ret (t, None)
    \<and> bs_previousEpochParticipation t = Some q \<and> bit (q ! 0) 0 \<and> bit (q ! 0) 1 \<and> bit (q ! 0) 2"
proof -
  let ?F = "[(0, True), (1, True), (2, True)] :: (u8, bool) gomap"
  have m: "flag_mask ?F = 7" by (simp add: flag_mask_def gm_get_def)
  have "translate_indices ?F [0] [0] = Ret ([7], None)" using m by (simp add: translate_indices_step out_of_range_def del: translate_indices.simps(2))
  then have "translate_loop id demo_caches demo_bits flags_demo [pending_of demo_attestation 320 0] [0] = Ret ([7], None)"
    by (simp add: flags_demo_translated del: translate_indices.simps)
  then obtain t where t: "TranslateParticipation id demo_caches demo_bits [pending_of demo_attestation 320 0] flags_demo = Ret (t, None)"
    by (simp add: TranslateParticipation_def PreviousEpochParticipation_def SetPreviousParticipationBits_def versions)
  have "bit (7 :: u8) 0" "bit (7 :: u8) 1" "bit (7 :: u8) 2" by (simp_all add: bit_simps)
  then show ?thesis using participation_translated [OF t, of "[0]"] t flags_demo_translated m by fastforce
qed

end
