(* ===== verification/EpochEnds.thy ===== *)
theory EpochEnds
  imports Upgrades
begin

text \<open>
  That the steps of an epoch and the upgrades end: each returns or panics. The one loop without a bound draws a sync committee; whatever
  depends on it ends when it does.
\<close>

definition ends :: "'a outcome \<Rightarrow> bool" where
  "ends m \<longleftrightarrow> m \<noteq> Diverge"

lemma ends_simps [simp]: "ends (Ret x)" "ends Panic" "\<not> ends Diverge"
  by (simp_all add: ends_def)

lemma ends_obind [intro!]: "ends m \<Longrightarrow> (\<And>x. m = Ret x \<Longrightarrow> ends (f x)) \<Longrightarrow> ends (obind m f)"
  by (cases m) auto

lemma ends_must [simp]: "ends (must p)"
  by (simp add: ends_def must_not_Diverge)

named_theorems ending \<open>operations that end\<close>

subsection \<open>Committees\<close>

lemma ends_arith [ending]: "ends (Slot_ModSlot a b)" "ends (Slot_Mul a m)" "ends (SplitOffset x y z)" "ends (go_slice xs i j)"
  by (auto simp: Slot_ModSlot_def Slot_Mod_def Slot_Mul_def SplitOffset_def go_slice_def split: prod.split option.split)

lemma ends_committee [ending]: "ends (BeaconCommitteeFromState hash cv s slot ix)"
proof -
  have "ends (computeCommittee hash indices seed index cnt)" for indices seed index cnt
    unfolding computeCommittee_def Let_def by (auto simp: ending split: prod.split option.split)
  then have "ends (BeaconCommittee hash cached indices seed slot ix)" for cached indices seed
    unfolding BeaconCommittee_def Let_def by (auto simp: ending split: prod.split option.split)
  then show ?thesis unfolding BeaconCommitteeFromState_def Let_def by (auto split: prod.split option.split)
qed

subsection \<open>Phase 0\<close>

lemma ends_UpdateValidator [ending]: "ends (UpdateValidator vp r is a sl)"
  by (induction vp r "is" a sl rule: UpdateValidator.induct) auto

lemma ends_attestations_loop [ending]: "ends (attestations_loop hash cv bl s atts vp)"
  by (induction atts arbitrary: vp) (auto simp: ending split: prod.split option.split)

lemma ends_ProcessAttestations [ending]: "ends (ProcessAttestations hash cv bl s vp b)"
  unfolding ProcessAttestations_def by (auto simp: ending split: prod.split option.split)

lemma ends_newton_loop: "ends (newton_loop balance sr val)"
proof (induction balance sr val rule: newton_loop.induct)
  case (1 balance sr val)
  then show ?case by (subst newton_loop.simps) (auto simp: Let_def)
qed

lemma ends_CachedSquareRoot [ending]: "ends (CachedSquareRoot c balance)"
  unfolding CachedSquareRoot_def by (auto simp: ends_newton_loop)

lemma ends_attestationDelta [ending]: "ends (attestationDelta b sq v p f)"
proof -
  have "ends (vote_reward br a cb leak)" for br a cb leak by (simp add: vote_reward_def Let_def)
  then show ?thesis unfolding attestationDelta_def Let_def by (auto split: prod.split)
qed

lemma ends_deltas_loop [ending]: "ends (deltas_loop b sq p f i vp rp)"
  by (induction b sq p f i vp rp rule: deltas_loop.induct) (auto simp: ending split: prod.split)

lemma ends_deltas [ending]: "ends (AttestationsDelta c s b vp)" "ends (ProposersDelta c s b vp)"
  unfolding AttestationsDelta_def ProposersDelta_def Let_def by (auto simp: ending split: prod.split)

lemma ends_rewards_loop [ending]: "ends (rewards_loop rs ps qs is st)"
  by (induction rs ps qs "is" st rule: rewards_loop.induct) (auto simp: Let_def split: prod.split option.split)

lemma ends_rewards [ending]: "ends (ProcessRewardsAndPenaltiesPrecompute c s b vp AttestationsDelta ProposersDelta)"
  unfolding ProcessRewardsAndPenaltiesPrecompute_def Let_def by (auto simp: ending split: prod.split option.split)

lemma ends_slashings [ending]: "ends (ProcessSlashingsPrecompute b s)" "ends (ProcessSlashings cv m s)"
  unfolding ProcessSlashingsPrecompute_def ProcessSlashings_def Let_def by (auto split: prod.split option.split bool.split)

lemma ends_registry_step [ending]: "ends (registry_step hash cv e i v s)"
  unfolding registry_step_def Let_def by (auto split: prod.split option.split)

lemma ends_registry_loop [ending]: "ends (registry_loop hash cv e i vs s)"
  by (induction vs arbitrary: i s) (auto simp: ending split: prod.split option.split)

lemma ends_registry [ending]: "ends (ProcessRegistryUpdates hash cv s)"
  unfolding ProcessRegistryUpdates_def Let_def by (auto simp: ending split: prod.split option.split)

lemma ends_mixes [ending]: "ends (ProcessRandaoMixesReset s)"
  unfolding ProcessRandaoMixesReset_def Let_def by (auto split: prod.split option.split)

subsection \<open>Altair\<close>

lemma ends_ok_then: "ends m \<Longrightarrow> (\<And>x. ends (f x)) \<Longrightarrow> ends (ok_then m f)"
  unfolding ok_then_def by (auto split: prod.split option.split)

lemma ends_mark_flag: "ends (mark_flag b pos active upd i vp)"
  unfolding mark_flag_def by (auto split: prod.split option.split)

lemma ends_flag_loops [ending]: "ends (current_loop i cp vp)" "ends (previous_loop i pp vp)"
proof -
  show "ends (current_loop i cp vp)" by (induction cp arbitrary: i vp) (auto intro!: ends_ok_then ends_mark_flag)
  show "ends (previous_loop i pp vp)" by (induction pp arbitrary: i vp) (auto intro!: ends_ok_then ends_mark_flag)
qed

lemma ends_participation [ending]: "ends (ProcessEpochParticipation s b vp)"
  unfolding ProcessEpochParticipation_def by (auto simp: ending split: prod.split option.split)

lemma ends_scores_loop [ending]: "ends (scores_loop leak i vs st)"
  by (induction leak i vs st rule: scores_loop.induct) (auto split: prod.split option.split)

lemma ends_scores [ending]: "ends (ProcessInactivityScores s vp)"
  unfolding ProcessInactivityScores_def by (auto simp: ending split: prod.split option.split)

lemma ends_altair_delta [ending]: "ends (attestationDelta_altair b v m d leak)"
proof -
  have "ends (flag_reward br w a inc leak)" for br w a inc by (simp add: flag_reward_def Let_def)
  then show ?thesis unfolding attestationDelta_altair_def Let_def by (auto split: prod.split option.split)
qed

lemma ends_altair_deltas_loop [ending]: "ends (altair_deltas_loop b m d leak vp)"
  by (induction vp) (auto simp: ending split: prod.split option.split)

lemma ends_altair_deltas [ending]: "ends (AttestationsDelta_altair c s b vp)"
  unfolding AttestationsDelta_altair_def Let_def by (auto simp: ending split: prod.split option.split)

lemma ends_altair_rewards_loop [ending]: "ends (altair_rewards_loop ds is st)"
  by (induction ds "is" st rule: altair_rewards_loop.induct) (auto simp: Let_def split: prod.split option.split)

lemma ends_altair_rewards [ending]: "ends (ProcessRewardsAndPenaltiesPrecompute_altair c s b vp)"
  unfolding ProcessRewardsAndPenaltiesPrecompute_altair_def Let_def by (auto simp: ending split: prod.split option.split)

subsection \<open>Sync committees and upgrades\<close>

lemma ends_NextSyncCommittee:
  "(\<And>u. ends (NextSyncCommitteeIndices hash cv cancelled u)) \<Longrightarrow> ends (NextSyncCommittee hash cv cancelled aggregate s)"
  unfolding NextSyncCommittee_def Let_def by (auto split: prod.split option.split)

lemma ends_sync_updates:
  "(\<And>u. ends (NextSyncCommitteeIndices hash cv cancelled u)) \<Longrightarrow> ends (ProcessSyncCommitteeUpdates hash cv cancelled aggregate s)"
  unfolding ProcessSyncCommitteeUpdates_def using ends_NextSyncCommittee [of hash cv cancelled aggregate] by (auto split: prod.split option.split)

lemma ends_get: "(\<And>x. ends (f x)) \<Longrightarrow> ends (get s r f)"
  unfolding get_def by (auto split: prod.split option.split)

lemma ends_init: "ends (carried s nv)" "ends (from_proto v s)"
  by (auto simp: carried_def from_proto_def fixed_roots_def split: option.split)

lemma ends_upgraded: "(\<And>s. ends (init s)) \<Longrightarrow> ends (upgraded state nv nf init)"
  unfolding upgraded_def by (auto simp: ends_init)

lemma ends_with_altair: "(\<And>a. ends (k a)) \<Longrightarrow> ends (with_altair state k)"
  unfolding with_altair_def by (intro ends_get)

lemma ends_translate_indices: "ends (translate_indices f is p)"
  by (induction "is" arbitrary: p) (auto split: prod.split option.split)

lemma ends_translate [ending]: "ends (TranslateParticipation hash cv bl atts s)"
proof -
  have "ends (translate_of hash cv bl s att)" for att unfolding translate_of_def by (auto simp: ending split: prod.split option.split)
  then have "ends (translate_loop hash cv bl s atts p)" for p
    by (induction atts arbitrary: p) (auto simp: ends_translate_indices split: prod.split option.split)
  then show ?thesis unfolding TranslateParticipation_def by (auto split: prod.split option.split)
qed

lemma ends_UpgradeToAltair:
  assumes "\<And>u. ends (NextSyncCommitteeIndices hash cv cancelled u)"
  shows "ends (UpgradeToAltair hash cv bl cancelled aggregate s)"
  unfolding UpgradeToAltair_def InitializeFromProtoUnsafeAltair_def using ends_NextSyncCommittee [OF assms, of aggregate]
  by (auto simp: ends_init ending intro!: ends_get split: prod.split option.split)

lemma ends_later_upgrades [ending]: "ends (UpgradeToBellatrix s)" "ends (UpgradeToCapella s)" "ends (UpgradeToDeneb s)"
  unfolding UpgradeToBellatrix_def UpgradeToCapella_def UpgradeToDeneb_def
    InitializeFromProtoUnsafeBellatrix_def InitializeFromProtoUnsafeCapella_def InitializeFromProtoUnsafeDeneb_def
  by (auto intro!: ends_with_altair ends_get ends_upgraded simp: ends_init split: option.split)

end
