(* ===== verification/EpochTransition.thy ===== *)
theory EpochTransition
  imports EpochEnds
begin

text \<open>
  The end of an epoch and the passing of slots: \<^verbatim>\<open>core/altair/transition.go\<close>, \<^verbatim>\<open>ProcessHistoricalDataUpdate\<close> and \<^verbatim>\<open>ProcessFinalUpdates\<close> of
  \<^verbatim>\<open>core/epoch/epoch_processing.go\<close>, and \<^verbatim>\<open>ProcessSlot\<close>, \<^verbatim>\<open>ProcessSlots\<close>, \<^verbatim>\<open>UpgradeState\<close> and \<^verbatim>\<open>ProcessEpochPrecompute\<close> of \<^verbatim>\<open>core/transition/transition.go\<close>.

  Hash tree roots, the aggregation of keys and bit fields are parameters. What caches answer and whether
  the context is cancelled is an argument for every epoch and slot. On an error the code returns no state; the state given beside an error here is what it had become.
\<close>

subsection \<open>Parameters\<close>

record transition_env =
  te_hash :: "u8 list \<Rightarrow> u8 list"
  te_bv :: bv4
  te_bits :: bitlist
  te_stateRoot :: "BeaconState \<Rightarrow> u8 list result"
  te_headerRoot :: "BeaconBlockHeader \<Rightarrow> u8 list result"
  te_ArraysRoot :: "u8 list list \<Rightarrow> nat \<Rightarrow> u8 list result"
  te_batchRoot :: "u8 list list \<Rightarrow> u8 list list \<Rightarrow> u8 list result"
  te_AggregatePublicKeys :: "u8 list list \<Rightarrow> u8 list result"

text \<open>What the caches answer in one slot, with the end of an epoch and an upgrade in it, and whether the context is cancelled in the loops for a sync committee.\<close>
record epoch_view =
  ev_attestations :: cache_view
  ev_registry :: cache_view
  ev_slashings :: cache_view
  ev_sync :: cache_view
  ev_cancelled :: "nat \<Rightarrow> bool"
  ev_upgrade :: cache_view
  ev_upgrade_cancelled :: "nat \<Rightarrow> bool"

text \<open>Running steps one after the other until one fails.\<close>
definition and_then :: "(BeaconState \<times> go_error option) outcome \<Rightarrow> (BeaconState \<Rightarrow> (BeaconState \<times> go_error option) outcome) \<Rightarrow> (BeaconState \<times> go_error option) outcome" where
  "and_then m f = obind m (\<lambda>r. case r of (s, Some err) \<Rightarrow> Ret (s, Some err) | (s, None) \<Rightarrow> f s)"

definition wrap_error :: "string \<Rightarrow> BeaconState \<times> go_error option \<Rightarrow> (BeaconState \<times> go_error option) outcome" where
  "wrap_error m r = Ret (fst r, map_option (Wrap m) (snd r))"

subsection \<open>Historical data\<close>

definition AppendHistoricalRoots :: "u8 list \<Rightarrow> BeaconState \<Rightarrow> BeaconState \<times> go_error option" where
  "AppendHistoricalRoots root s = (if bs_version s > Bellatrix then (s, Some (errNotSupported ''AppendHistoricalRoots''))
     else (s\<lparr>bs_historicalRoots := bs_historicalRoots s @ [root]\<rparr>, None))"

definition AppendHistoricalSummaries :: "HistoricalSummary \<Rightarrow> BeaconState \<Rightarrow> BeaconState \<times> go_error option" where
  "AppendHistoricalSummaries summary s = (if bs_version s < Capella then (s, Some (errNotSupported ''AppendHistoricalSummaries''))
     else (s\<lparr>bs_historicalSummaries := bs_historicalSummaries s @ [summary]\<rparr>, None))"

definition ProcessHistoricalDataUpdate :: "transition_env \<Rightarrow> BeaconState \<Rightarrow> BeaconState \<times> go_error option" where
  "ProcessHistoricalDataUpdate te s =
    (let nextEpoch = CurrentEpoch s + 1; epochsPerHistoricalRoot = SlotsPerHistoricalRoot div SlotsPerEpoch
     in if nextEpoch mod epochsPerHistoricalRoot \<noteq> 0 then (s, None)
        else if bs_version s \<ge> Capella then
          (case te_ArraysRoot te (BlockRoots s) BlockRootsLength of
             (_, Some err) \<Rightarrow> (s, Some err)
           | (br, None) \<Rightarrow> (case te_ArraysRoot te (StateRoots s) StateRootsLength of
               (_, Some err) \<Rightarrow> (s, Some err)
             | (sr, None) \<Rightarrow> AppendHistoricalSummaries \<lparr>hs_BlockSummaryRoot = br, hs_StateSummaryRoot = sr\<rparr> s))
        else (case te_batchRoot te (BlockRoots s) (StateRoots s) of
             (_, Some err) \<Rightarrow> (s, Some (Wrap ''could not hash historical batch'' err))
           | (batchRoot, None) \<Rightarrow> AppendHistoricalRoots batchRoot s))"

subsection \<open>Epochs\<close>

definition ProcessFinalUpdates :: "transition_env \<Rightarrow> BeaconState \<Rightarrow> (BeaconState \<times> go_error option) outcome" where
  "ProcessFinalUpdates te s =
    and_then (Ret (ProcessEth1DataReset s)) (\<lambda>s.
    and_then (Ret (ProcessEffectiveBalanceUpdates s)) (\<lambda>s.
    and_then (Ret (ProcessSlashingsReset s)) (\<lambda>s.
    and_then (ProcessRandaoMixesReset s) (\<lambda>s.
    and_then (Ret (ProcessHistoricalDataUpdate te s)) (\<lambda>s.
    Ret (ProcessParticipationRecordUpdates s))))))"

definition ProcessEpochPrecompute ::
  "transition_env \<Rightarrow> epoch_view \<Rightarrow> sqrt_cache \<Rightarrow> BeaconState \<Rightarrow> (sqrt_cache \<times> BeaconState \<times> go_error option) outcome" where
  "ProcessEpochPrecompute te ev c s = (case New_precompute s of
     (Some (vp, bp), None) \<Rightarrow> obind (ProcessAttestations (te_hash te) (ev_attestations ev) (te_bits te) s vp bp) (\<lambda>r. case r of
         (Some (vp, bp), None) \<Rightarrow>
           (case ProcessJustificationAndFinalizationPreCompute (te_bv te) bp s of
              (s, Some err) \<Rightarrow> Ret (c, s, Some (Wrap ''could not process justification'' err))
            | (s, None) \<Rightarrow> obind (ProcessRewardsAndPenaltiesPrecompute c s bp vp AttestationsDelta ProposersDelta) (\<lambda>(c, _, s, err). case err of
                Some err \<Rightarrow> Ret (c, s, Some (Wrap ''could not process rewards and penalties'' err))
              | None \<Rightarrow>
                  obind (and_then (obind (ProcessRegistryUpdates (te_hash te) (ev_registry ev) s) (wrap_error ''could not process registry updates'')) (\<lambda>s.
                         and_then (ProcessSlashingsPrecompute bp s) (\<lambda>s.
                         obind (ProcessFinalUpdates te s) (wrap_error ''could not process final updates''))))
                    (\<lambda>(s, err). Ret (c, s, err))))
       | (_, err) \<Rightarrow> Ret (c, s, err))
   | (_, err) \<Rightarrow> Ret (c, s, err))"

text \<open>The steps after rewards and penalties.\<close>
definition epoch_rest :: "transition_env \<Rightarrow> epoch_view \<Rightarrow> BeaconState \<Rightarrow> (BeaconState \<times> go_error option) outcome" where
  "epoch_rest te ev s =
    and_then (obind (ProcessRegistryUpdates (te_hash te) (ev_registry ev) s) (wrap_error ''could not process registry updates'')) (\<lambda>s.
    case ProportionalSlashingMultiplier_state s of
      (_, Some err) \<Rightarrow> Ret (s, Some err)
    | (multiplier, None) \<Rightarrow>
        and_then (ProcessSlashings (ev_slashings ev) multiplier s) (\<lambda>s.
        and_then (Ret (ProcessEth1DataReset s)) (\<lambda>s.
        and_then (Ret (ProcessEffectiveBalanceUpdates s)) (\<lambda>s.
        and_then (Ret (ProcessSlashingsReset s)) (\<lambda>s.
        and_then (ProcessRandaoMixesReset s) (\<lambda>s.
        and_then (Ret (ProcessHistoricalDataUpdate te s)) (\<lambda>s.
        and_then (Ret (ProcessParticipationFlagUpdates s)) (\<lambda>s.
        ProcessSyncCommitteeUpdates (te_hash te) (ev_sync ev) (ev_cancelled ev) (te_AggregatePublicKeys te) s))))))))"

definition ProcessEpoch ::
  "transition_env \<Rightarrow> epoch_view \<Rightarrow> sqrt_cache \<Rightarrow> BeaconState \<Rightarrow> (sqrt_cache \<times> BeaconState \<times> go_error option) outcome" where
  "ProcessEpoch te ev c s = (case InitializePrecomputeValidators s of
     (Some (vp, bp), None) \<Rightarrow> obind (ProcessEpochParticipation s bp vp) (\<lambda>r. case r of
         (Some (vp, bp), None) \<Rightarrow>
           (case ProcessJustificationAndFinalizationPreCompute (te_bv te) bp s of
              (s, Some err) \<Rightarrow> Ret (c, s, Some (Wrap ''could not process justification'' err))
            | (s, None) \<Rightarrow> obind (ProcessInactivityScores s vp) (\<lambda>(s, vp, err). case err of
                Some err \<Rightarrow> Ret (c, s, Some (Wrap ''could not process inactivity updates'' err))
              | None \<Rightarrow> obind (ProcessRewardsAndPenaltiesPrecompute_altair c s bp vp) (\<lambda>(c, _, s, err). case err of
                  Some err \<Rightarrow> Ret (c, s, Some (Wrap ''could not process rewards and penalties'' err))
                | None \<Rightarrow> obind (epoch_rest te ev s) (\<lambda>(s, err). Ret (c, s, err)))))
       | (_, err) \<Rightarrow> Ret (c, s, err))
   | (_, err) \<Rightarrow> Ret (c, s, err))"

subsection \<open>Slots\<close>

definition UpdateStateRootAtIndex :: "u64 \<Rightarrow> u8 list \<Rightarrow> BeaconState \<Rightarrow> BeaconState \<times> go_error option" where
  "UpdateStateRootAtIndex idx stateRoot s =
    (if out_of_range (StateRoots s) idx then (s, Some (Wrap ''state root index does not exist'' ErrOutOfBounds))
     else (s\<lparr>bs_stateRoots := Some ((StateRoots s)[unat idx := stateRoot])\<rparr>, None))"

definition UpdateBlockRootAtIndex :: "u64 \<Rightarrow> u8 list \<Rightarrow> BeaconState \<Rightarrow> BeaconState \<times> go_error option" where
  "UpdateBlockRootAtIndex idx blockRoot s =
    (if out_of_range (BlockRoots s) idx then (s, Some (Wrap ''block root index does not exist'' ErrOutOfBounds))
     else (s\<lparr>bs_blockRoots := Some ((BlockRoots s)[unat idx := blockRoot])\<rparr>, None))"

text \<open>The getter of the header copies its slices, so that the test of the state root for nil is never true. A nil header is dereferenced.\<close>
definition ProcessSlot :: "transition_env \<Rightarrow> BeaconState \<Rightarrow> (BeaconState \<times> go_error option) outcome" where
  "ProcessSlot te s = (case te_stateRoot te s of
     (_, Some err) \<Rightarrow> Ret (s, Some err)
   | (prevStateRoot, None) \<Rightarrow> (case UpdateStateRootAtIndex (bs_slot s mod SlotsPerHistoricalRoot) prevStateRoot s of
       (s, Some err) \<Rightarrow> Ret (s, Some err)
     | (s, None) \<Rightarrow> (case bs_latestBlockHeader s of
         None \<Rightarrow> Panic
       | Some header \<Rightarrow>
           let header = (if bh_StateRoot header = replicate 32 0 then header\<lparr>bh_StateRoot := prevStateRoot\<rparr> else header);
               s = s\<lparr>bs_latestBlockHeader := Some header\<rparr>
           in case te_headerRoot te header of
                (_, Some err) \<Rightarrow> Ret (s, Some (Wrap ''could not determine prev block root'' err))
              | (prevBlockRoot, None) \<Rightarrow> Ret (UpdateBlockRootAtIndex (bs_slot s mod SlotsPerHistoricalRoot) prevBlockRoot s))))"

definition upgrade_if :: "bool \<Rightarrow> (BeaconState \<Rightarrow> (BeaconState \<times> go_error option) outcome) \<Rightarrow> BeaconState \<Rightarrow> (BeaconState \<times> go_error option) outcome" where
  "upgrade_if can up s = (if can then up s else Ret (s, None))"

definition UpgradeState :: "transition_env \<Rightarrow> epoch_view \<Rightarrow> BeaconState \<Rightarrow> (BeaconState \<times> go_error option) outcome" where
  "UpgradeState te ev s =
    and_then (upgrade_if (CanUpgradeToAltair (bs_slot s))
      (UpgradeToAltair (te_hash te) (ev_upgrade ev) (te_bits te) (ev_upgrade_cancelled ev) (te_AggregatePublicKeys te)) s) (\<lambda>s.
    and_then (upgrade_if (CanUpgradeToBellatrix (bs_slot s)) UpgradeToBellatrix s) (\<lambda>s.
    and_then (upgrade_if (CanUpgradeToCapella (bs_slot s)) UpgradeToCapella s) (\<lambda>s.
    upgrade_if (CanUpgradeToDeneb (bs_slot s)) UpgradeToDeneb s)))"

text \<open>The body of the loop of \<^verbatim>\<open>ProcessSlots\<close> after the test of the context.\<close>
definition slot_turn ::
  "transition_env \<Rightarrow> epoch_view \<Rightarrow> sqrt_cache \<Rightarrow> BeaconState \<Rightarrow> (sqrt_cache \<times> BeaconState \<times> go_error option) outcome" where
  "slot_turn te ev c s = obind (ProcessSlot te s) (\<lambda>r. case r of
     (s, Some err) \<Rightarrow> Ret (c, s, Some (Wrap ''could not process slot'' err))
   | (s, None) \<Rightarrow>
       obind (if CanProcessEpoch s then
                (if bs_version s = Phase0 then obind (ProcessEpochPrecompute te ev c s) (\<lambda>(c, s, err).
                     Ret (c, s, map_option (Wrap ''could not process epoch with optimizations'') err))
                 else if bs_version s \<ge> Altair then obind (ProcessEpoch te ev c s) (\<lambda>(c, s, err). Ret (c, s, map_option (Wrap ''could not process epoch'') err))
                 else Ret (c, s, Some (Fresh ''beacon state should have a version'')))
              else Ret (c, s, None)) (\<lambda>(c, s, err). case err of
         Some err \<Rightarrow> Ret (c, s, Some err)
       | None \<Rightarrow> obind (UpgradeState te ev (s\<lparr>bs_slot := bs_slot s + 1\<rparr>)) (\<lambda>(s, err). Ret (c, s, map_option (Wrap ''failed to upgrade state'') err))))"

text \<open>
  The loop after \<open>n\<close> turns; the argument \<open>cached\<close> is the state to put into the cache of skipped slots when the loop is left with a state beyond
  the slot \<open>highestSlot\<close>. No result means that the loop does not end.
\<close>
partial_function (option) slots_loop ::
  "transition_env \<Rightarrow> (nat \<Rightarrow> epoch_view) \<Rightarrow> (nat \<Rightarrow> bool) \<Rightarrow> Slot \<Rightarrow> Slot \<Rightarrow> nat \<Rightarrow> sqrt_cache \<Rightarrow> BeaconState
    \<Rightarrow> (sqrt_cache \<times> BeaconState option \<times> BeaconState \<times> go_error option) outcome option" where
  "slots_loop te evs cancelled highestSlot slot n c s =
    (let put = (if highestSlot < bs_slot s then Some s else None)
     in if \<not> bs_slot s < slot then Some (Ret (c, put, s, None))
        else if cancelled n then Some (Ret (c, put, s, Some CtxErr))
        else case slot_turn te (evs n) c s of
          Ret r \<Rightarrow> (case r of
              (c, s, Some err) \<Rightarrow> Some (Ret (c, None, s, Some err))
            | (c, s, None) \<Rightarrow> slots_loop te evs cancelled highestSlot slot (Suc n) c s)
        | Panic \<Rightarrow> Some Panic
        | Diverge \<Rightarrow> Some Diverge)"

text \<open>What the cache of skipped slots answers.\<close>
record skip_cache =
  sk_cacheKey :: "BeaconState \<Rightarrow> go_error option"
  sk_Get :: "BeaconState option result"
  sk_MarkInProgress :: "go_error option"
  sk_Get_again :: "BeaconState option result"

definition restart :: "Slot \<Rightarrow> BeaconState option \<Rightarrow> BeaconState \<Rightarrow> BeaconState" where
  "restart slot cachedState s = (case cachedState of None \<Rightarrow> s | Some t \<Rightarrow> if bs_slot t < slot then t else s)"

text \<open>Results: the cache of square roots, the state put into the cache of skipped slots, and the state.\<close>
definition ProcessSlots ::
  "transition_env \<Rightarrow> skip_cache \<Rightarrow> (nat \<Rightarrow> epoch_view) \<Rightarrow> (nat \<Rightarrow> bool) \<Rightarrow> Slot \<Rightarrow> sqrt_cache \<Rightarrow> BeaconState
    \<Rightarrow> (sqrt_cache \<times> BeaconState option \<times> BeaconState \<times> go_error option) outcome" where
  "ProcessSlots te sk evs cancelled slot c s =
    (if bs_slot s \<ge> slot then Ret (c, None, s, Some (Fresh ''expected state.slot < slot''))
     else case sk_cacheKey sk s of
       Some err \<Rightarrow> Ret (c, None, s, Some err)
     | None \<Rightarrow> (case sk_Get sk of
         (_, Some err) \<Rightarrow> Ret (c, None, s, Some err)
       | (cachedState, None) \<Rightarrow>
           let s = restart slot cachedState s;
               run = (\<lambda>s. case slots_loop te evs cancelled (bs_slot s) slot 0 c s of None \<Rightarrow> Diverge | Some r \<Rightarrow> r)
           in case sk_MarkInProgress sk of
                None \<Rightarrow> run s
              | Some err \<Rightarrow>
                  if errors_Is err ErrAlreadyInProgress then
                    (case sk_Get_again sk of
                       (_, Some err) \<Rightarrow> Ret (c, None, s, Some err)
                     | (cachedState, None) \<Rightarrow> run (restart slot cachedState s))
                  else Ret (c, None, s, Some err)))"

subsection \<open>Shapes\<close>

definition keeps :: "BeaconState \<Rightarrow> BeaconState \<Rightarrow> bool" where
  "keeps s t \<longleftrightarrow> bs_slot t = bs_slot s \<and> bs_version t = bs_version s \<and> (well_typed s \<longrightarrow> well_typed t)"

lemma keeps_refl [simp]: "keeps s s" by (simp add: keeps_def)
lemma keeps_trans: "keeps s t \<Longrightarrow> keeps t u \<Longrightarrow> keeps s u" by (simp add: keeps_def)

text \<open>All that a type depends on; most steps leave it alone.\<close>
definition shape where
  "shape s = (bs_slot s, bs_version s, map_option length (bs_validators s), map_option length (bs_balances s), length (bs_slashings s),
     bs_blockRoots s, bs_stateRoots s, bs_randaoMixes s, map_option length (bs_currentEpochParticipation s), map_option length (bs_previousEpochParticipation s),
     length (bs_inactivityScores s))"

lemma shape_keeps: "shape t = shape s \<Longrightarrow> keeps s t"
  by (cases "bs_validators s"; cases "bs_validators t") (auto simp: shape_def keeps_def well_typed_def vals_def)

abbreviation kept :: "BeaconState \<Rightarrow> (BeaconState \<times> 'e) outcome \<Rightarrow> bool" where
  "kept s \<equiv> yields (\<lambda>r. keeps s (fst r))"

lemma and_then_kept:
  assumes "kept s m" "\<And>t. kept t (f t)"
  shows "kept s (and_then m f)"
proof -
  have "kept s (case r of (t, Some err) \<Rightarrow> Ret (t, Some err) | (t, None) \<Rightarrow> f t)" if "m = Ret r" for r
  proof (cases r)
    case (Pair t e)
    have "keeps s t" using yieldsD [OF assms(1) that] Pair by simp
    then show ?thesis using assms(2) [of t] Pair by (cases e) (auto simp: yields_def intro: keeps_trans)
  qed
  then show ?thesis unfolding and_then_def by (rule yields_obind)
qed

lemma wrap_error_kept: "kept s m \<Longrightarrow> kept s (obind m (wrap_error w))"
  by (auto simp: yields_def wrap_error_def obind_Ret_iff)

subsection \<open>The steps of an epoch keep the type\<close>

lemma UpdateValidatorAtIndex_shape: "shape (fst (UpdateValidatorAtIndex i v s)) = shape s"
  by (cases "bs_validators s") (auto simp: UpdateValidatorAtIndex_def shape_def vals_def out_of_range_def)

lemma UpdateValidator_shape: "UpdateValidatorAtIndex i v s = (t, e) \<Longrightarrow> shape t = shape s"
  using UpdateValidatorAtIndex_shape [of i v s] by simp

lemma InitiateValidatorExit_shape: "shape (fst (InitiateValidatorExit hash cv idx q c s)) = shape s"
proof -
  let ?x = "ActivationExitEpoch (CurrentEpoch s)"
  obtain q1 c1 where q1: "(if ?x > q then (?x, 0) else (q, c)) = (q1, c1)" by fastforce
  obtain n ne where n: "ActiveValidatorCount hash cv s (CurrentEpoch s) = (n, ne)" by fastforce
  obtain q2 e2 where q2: "(if c1 \<ge> ValidatorExitChurnLimit n then Epoch_SafeAdd q1 1 else (q1, None)) = (q2, e2)" by fastforce
  obtain w e3 where w: "Epoch_SafeAddEpoch q2 MinValidatorWithdrawabilityDelay = (w, e3)" by fastforce
  have u: "shape (fst (case UpdateValidatorAtIndex idx v s of (s', Some err) \<Rightarrow> (s', 0, Some err) | (s', None) \<Rightarrow> (s', q2, None))) = shape s" for v
    using UpdateValidator_shape [of idx v s] by (simp split: prod.split option.split)
  obtain val ve where v: "ValidatorAtIndex s idx = (val, ve)" by fastforce
  show ?thesis unfolding InitiateValidatorExit_def Let_def q1 n v
    by (cases val; cases ve; cases ne; cases e2; cases e3) (simp_all add: q2 w u)
qed

lemma DecreaseBalance_shape: "shape (fst (DecreaseBalance i d s)) = shape s"
proof (cases "DecreaseBalance i d s")
  case (Pair t e)
  then show ?thesis
  proof (cases "bs_balances s")
    case None
    then show ?thesis using Pair by (auto simp: DecreaseBalance_def BalanceAtIndex_def balanceAtIndex_def UpdateBalancesAtIndex_def bals_def out_of_range_def)
  next
    case (Some b)
    show ?thesis
    proof (cases e)
      case None
      then have "t = s\<lparr>bs_balances := Some (b[unat i := DecreaseBalanceWithVal (b ! unat i) d])\<rparr>" using DecreaseBalance_ok [OF Some, of i d t] Pair by simp
      then show ?thesis using Pair Some by (simp add: shape_def)
    next
      case (Some err)
      then have "t = s" using Pair balance_errors_keep(2) [of i d s t err] by simp
      then show ?thesis using Pair by simp
    qed
  qed
qed

lemma apply_every_shape:
  assumes "\<And>i v s. shape (snd (fst (f i v s))) = shape s"
  shows "apply_every f i vs s = ((vs', s'), e) \<Longrightarrow> length vs' = length vs \<and> shape s' = shape s"
proof (induction vs arbitrary: i s vs' s' e)
  case (Cons v vs)
  obtain ch v1 s1 e1 where f: "f i v s = (((ch, v1), s1), e1)" by (metis prod.collapse)
  have "shape s1 = shape s" using assms [of i v s] f by simp
  then show ?case using Cons f by (cases e1) (fastforce split: prod.splits)+
qed simp

lemma ApplyToEveryValidator_shape:
  assumes "\<And>i v s. shape (snd (fst (f i v s))) = shape s"
  shows "shape (fst (ApplyToEveryValidator f s)) = shape s"
proof (cases "bs_validators s")
  case (Some vs)
  obtain vs' s' e where a: "apply_every f 0 vs s = ((vs', s'), e)" by (metis prod.collapse)
  then have "length vs' = length vs" "shape s' = shape s" using apply_every_shape [OF assms a] by simp_all
  then show ?thesis using Some a by (simp add: ApplyToEveryValidator_def shape_def)
qed (simp add: ApplyToEveryValidator_def)

lemma slashing_func_shape: "shape (snd (fst (slashing_func e m t i v s))) = shape s"
  using DecreaseBalance_shape [of "of_nat i" _ s] by (auto simp: slashing_func_def Let_def split: prod.splits option.splits) (metis fst_conv)+

lemma registry_step_shape: "yields (\<lambda>r. shape (snd (fst r)) = shape s) (registry_step hash cv e i v s)"
proof -
  let ?w = "if IsEligibleForActivationQueue v then v\<lparr>v_ActivationEligibilityEpoch := e + 1\<rparr> else v"
  obtain t err where u: "(if IsEligibleForActivationQueue v then UpdateValidatorAtIndex (of_nat i) ?w s else (s, None)) = (t, err)" by fastforce
  then have t: "shape t = shape s" using UpdateValidator_shape [of "of_nat i" ?w s t err] by (auto split: if_splits)
  obtain q c where m: "MaxExitEpochAndChurn t = (q, c)" by fastforce
  obtain t' x where i: "InitiateValidatorExit hash cv (of_nat i) q c t = (t', x)" by (metis prod.exhaust)
  then have t': "shape t' = shape s" using InitiateValidatorExit_shape [of hash cv "of_nat i" q c t] t by simp
  show ?thesis unfolding registry_step_def Let_def u
    by (cases err; cases x; cases "snd x") (simp_all add: t t' m i)
qed

lemma registry_loop_shape: "yields (\<lambda>r. shape (snd (fst r)) = shape s) (registry_loop hash cv e i vs s)"
proof (induction vs arbitrary: i s)
  case (Cons v vs)
  have "yields (\<lambda>r. shape (snd (fst r)) = shape s) (case r of ((validator, s), Some err) \<Rightarrow> Ret ((validator # vs, s), Some err)
      | ((validator, s), None) \<Rightarrow> obind (registry_loop hash cv e (Suc i) vs s) (\<lambda>((validators, s), err). Ret ((validator # validators, s), err)))"
    if "registry_step hash cv e i v s = Ret r" for r
  proof -
    obtain w t err where r: "r = ((w, t), err)" by (metis prod.collapse)
    have "shape t = shape s" using yieldsD [OF registry_step_shape that] r by simp
    then show ?thesis using Cons.IH [of t "Suc i"] r by (cases err) (auto simp: yields_def obind_Ret_iff)
  qed
  then show ?case by (simp only: registry_loop.simps yields_obind)
qed simp

lemma activation_loop_shape: "shape (fst (activation_loop e is s)) = shape s"
proof (induction "is" arbitrary: s)
  case (Cons i "is")
  have u: "shape t = shape s" if "UpdateValidatorAtIndex j w s = (t, err)" for j w t err using UpdateValidatorAtIndex_shape [of j w s] that by simp
  show ?case using Cons.IH by (auto split: prod.splits option.splits dest: u)
qed simp

lemma ProcessRegistryUpdates_kept: "kept s (ProcessRegistryUpdates hash cv s)"
  unfolding ProcessRegistryUpdates_def Let_def
proof (rule yields_obind)
  fix r
  assume l: "registry_loop hash cv (CurrentEpoch s) 0 (vals s) s = Ret r"
  obtain vs t err where r: "r = ((vs, t), err)" by (metis prod.exhaust)
  have t: "shape t = shape s" using yieldsD [OF registry_loop_shape l] r by simp
  have a: "keeps s (fst (activation_loop e is t))" for e "is" using t activation_loop_shape [of e "is" t] by (simp add: shape_keeps)
  obtain n ne where n: "ActiveValidatorCount hash cv t (CurrentEpoch s) = (n, ne)" by fastforce
  show "kept s (case r of ((_, s), Some err) \<Rightarrow> Ret (s, Some err) | ((validators, s'), None) \<Rightarrow> (case ActiveValidatorCount hash cv s' (CurrentEpoch s) of
      (_, Some err) \<Rightarrow> Ret (s', Some (Wrap ''could not get active validator count'' err))
    | (activeValidatorCount, None) \<Rightarrow> Ret (activation_loop (ActivationExitEpoch (CurrentEpoch s))
        (take (unat (if (if bs_version s' \<ge> Deneb then ValidatorActivationChurnLimitDeneb activeValidatorCount else ValidatorActivationChurnLimit activeValidatorCount)
              < of_nat (length (activation_queue s' validators))
            then if bs_version s' \<ge> Deneb then ValidatorActivationChurnLimitDeneb activeValidatorCount else ValidatorActivationChurnLimit activeValidatorCount
            else of_nat (length (activation_queue s' validators)))) (activation_queue s' validators)) s')))"
    by (cases err; cases ne) (simp_all only: r n prod.case option.case yields_simps fst_conv a shape_keeps [OF t])
qed

lemma ProcessJustification_shape: "shape (fst (ProcessJustificationAndFinalizationPreCompute bv b s)) = shape s"
  by (simp add: process_cases weigh_simps shape_def split: prod.split option.split)

lemma scores_loop_length: "scores_loop leak k vs (sc, vp) = Ret ((sc', vp'), e) \<Longrightarrow> length sc' = length sc"
proof (induction vs arbitrary: k sc vp)
  case (Cons v vs)
  obtain x xe where x: "new_score leak v = (x, xe)" by fastforce
  show ?case using Cons x by (cases xe) (auto split: if_splits)
qed simp

lemma ProcessInactivityScores_kept: "kept s (ProcessInactivityScores s vp)"
proof -
  have "keeps s (s\<lparr>bs_inactivityScores := sc\<rparr>)" if "length sc = length (bs_inactivityScores s)" for sc
    using that by (intro shape_keeps) (simp add: shape_def)
  moreover have "length sc = length (bs_inactivityScores s)" if "scores_loop l 0 vp (bs_inactivityScores s, vp) = Ret ((sc, vp'), e)" for l sc vp' e
    by (rule scores_loop_length [OF that])
  ultimately show ?thesis unfolding ProcessInactivityScores_def InactivityScores_def SetInactivityScores_def
    by (auto split: option.split)
qed

lemma altair_rewards_loop_length: "altair_rewards_loop ds is (bs, vp) = Ret ((bs', vp'), e) \<Longrightarrow> length bs' = length bs"
proof (induction "is" arbitrary: bs vp)
  case (Cons i "is")
  obtain x xe where x: "IncreaseBalanceWithVal (bs ! i) (delta_reward (ds ! i)) = (x, xe)" by fastforce
  show ?case using Cons.prems Cons.IH x by (cases xe) (auto simp: Let_def split: if_splits)
qed simp

lemma rewards_altair_kept: "yields (\<lambda>(c, vp, t, e). keeps s t) (ProcessRewardsAndPenaltiesPrecompute_altair c s b vp)"
proof -
  have "keeps s (SetBalances (Some bs) s)" if "altair_rewards_loop ds is (bals s, vp) = Ret ((bs, vp'), e)" for ds "is" bs vp' e
    using altair_rewards_loop_length [OF that]
    by (cases "bs_balances s") (auto simp: keeps_def well_typed_def SetBalances_def bals_def vals_def)
  then show ?thesis unfolding ProcessRewardsAndPenaltiesPrecompute_altair_def Let_def
    by (auto split: option.split)
qed

lemma ProcessSlashings_kept: "kept s (ProcessSlashings cv m s)"
proof -
  obtain t te where t: "TotalActiveBalance cv s = (t, te)" by fastforce
  obtain x xe where x: "sum_slashings (bs_slashings s) 0 = (x, xe)" by fastforce
  have "keeps s (fst (ApplyToEveryValidator (slashing_func e a d) s))" for e a d
    by (intro shape_keeps ApplyToEveryValidator_shape slashing_func_shape)
  then show ?thesis unfolding ProcessSlashings_def Let_def t x by (cases te; cases xe) simp_all
qed

lemma ProcessEth1DataReset_kept: "kept s (Ret (ProcessEth1DataReset s))"
  by (simp add: ProcessEth1DataReset_def Let_def SetEth1DataVotes_def shape_keeps shape_def)

lemma ProcessEffectiveBalanceUpdates_kept: "kept s (Ret (ProcessEffectiveBalanceUpdates s))"
  unfolding ProcessEffectiveBalanceUpdates_def Let_def yields_simps
  by (intro shape_keeps ApplyToEveryValidator_shape) simp

lemma ProcessSlashingsReset_kept: "kept s (Ret (ProcessSlashingsReset s))"
  by (simp add: ProcessSlashingsReset_def Let_def UpdateSlashingsAtIndex_def shape_keeps shape_def)

lemma roots_ok_update: "roots_ok n (Some r) \<Longrightarrow> length x = 32 \<Longrightarrow> roots_ok n (Some (r[i := x]))"
  using set_update_subset_insert [of r i x] by (auto simp: roots_ok_def)

lemma ProcessRandaoMixesReset_kept: "kept s (ProcessRandaoMixesReset s)"
proof -
  obtain mix me where m: "RandaoMix s (CurrentEpoch s) = (mix, me)" by fastforce
  have "keeps s (fst (UpdateRandaoMixesAtIndex i (take 32 mix) s))" if "\<not> length mix < 32" for i
    using that by (cases "bs_randaoMixes s") (auto simp: UpdateRandaoMixesAtIndex_def keeps_def well_typed_def vals_def roots_ok_update)
  then show ?thesis unfolding ProcessRandaoMixesReset_def Let_def m by (cases me) simp_all
qed

lemma ProcessHistoricalDataUpdate_kept: "kept s (Ret (ProcessHistoricalDataUpdate te s))"
proof -
  have "shape (fst (AppendHistoricalSummaries x s)) = shape s" "shape (fst (AppendHistoricalRoots r s)) = shape s" for x r
    by (simp_all add: AppendHistoricalSummaries_def AppendHistoricalRoots_def shape_def)
  then have "shape (fst (ProcessHistoricalDataUpdate te s)) = shape s"
    unfolding ProcessHistoricalDataUpdate_def Let_def by (simp split: prod.split option.split)
  then show ?thesis by (simp add: shape_keeps)
qed

lemma ProcessParticipationFlagUpdates_kept: "kept s (Ret (ProcessParticipationFlagUpdates s))"
  by (auto simp: ProcessParticipationFlagUpdates_def CurrentEpochParticipation_def SetPreviousParticipationBits_def SetCurrentParticipationBits_def
      keeps_def well_typed_def vals_def NumValidators_def)

lemma ProcessSyncCommitteeUpdates_kept: "kept s (ProcessSyncCommitteeUpdates hash cv cancelled agg s)"
proof -
  have "keeps s (s\<lparr>bs_currentSyncCommittee := x\<rparr>)" "keeps s (s\<lparr>bs_currentSyncCommittee := x, bs_nextSyncCommittee := y\<rparr>)" for x y
    by (intro shape_keeps, simp add: shape_def)+
  then show ?thesis unfolding ProcessSyncCommitteeUpdates_def NextSyncCommittee_state_def SetCurrentSyncCommittee_def
    by (auto simp: SetNextSyncCommittee_def split: option.split)
qed

lemmas kept_steps = ProcessSlashings_kept ProcessEth1DataReset_kept ProcessEffectiveBalanceUpdates_kept ProcessSlashingsReset_kept
  ProcessRandaoMixesReset_kept ProcessHistoricalDataUpdate_kept ProcessParticipationFlagUpdates_kept ProcessSyncCommitteeUpdates_kept

lemma epoch_rest_kept: "kept s (epoch_rest te ev s)"
  unfolding epoch_rest_def
proof (intro and_then_kept wrap_error_kept ProcessRegistryUpdates_kept, goal_cases)
  case (1 t)
  obtain m me where m: "ProportionalSlashingMultiplier_state t = (m, me)" by fastforce
  show ?case unfolding m prod.case
    by (cases me; simp only: option.case yields_simps fst_conv keeps_refl) (intro and_then_kept kept_steps)
qed

lemma ProcessEpoch_kept: "yields (\<lambda>(c, t, e). keeps s t) (ProcessEpoch te ev c s)"
proof -
  have rest: "yields (\<lambda>(c, t, e). keeps s t) (obind (epoch_rest te ev u) (\<lambda>(t, err). Ret (c, t, err)))" if "keeps s u" for u c
    using epoch_rest_kept [of u te ev] that by (auto simp: yields_def obind_Ret_iff intro: keeps_trans)
  have rewards: "yields (\<lambda>(c, t, e). keeps s t) (obind (ProcessRewardsAndPenaltiesPrecompute_altair c u bp vp) (\<lambda>(c, _, t, err). case err of
      Some err \<Rightarrow> Ret (c, t, Some (Wrap ''could not process rewards and penalties'' err))
    | None \<Rightarrow> obind (epoch_rest te ev t) (\<lambda>(t, err). Ret (c, t, err))))" if "keeps s u" for u c bp vp
  proof (rule yields_obind, goal_cases)
    case (1 r)
    obtain c' vp' t err where r: "r = (c', vp', t, err)" by (metis prod.exhaust)
    have "keeps s t" using yieldsD [OF rewards_altair_kept 1] that r by (auto intro: keeps_trans)
    then show ?case using rest r by (cases err) simp_all
  qed
  have scores: "yields (\<lambda>(c, t, e). keeps s t) (obind (ProcessInactivityScores u vp) (\<lambda>(t, vp, err). case err of
      Some err \<Rightarrow> Ret (c, t, Some (Wrap ''could not process inactivity updates'' err))
    | None \<Rightarrow> obind (ProcessRewardsAndPenaltiesPrecompute_altair c t bp vp) (\<lambda>(c, _, t, err). case err of
        Some err \<Rightarrow> Ret (c, t, Some (Wrap ''could not process rewards and penalties'' err))
      | None \<Rightarrow> obind (epoch_rest te ev t) (\<lambda>(t, err). Ret (c, t, err)))))" if "keeps s u" for u bp vp
  proof (rule yields_obind, goal_cases)
    case (1 r)
    obtain t vp' err where r: "r = (t, vp', err)" by (metis prod.exhaust)
    have "keeps s t" using yieldsD [OF ProcessInactivityScores_kept 1] that r by (auto intro: keeps_trans)
    then show ?case using rewards r by (cases err) simp_all
  qed
  have just: "keeps s t" if "ProcessJustificationAndFinalizationPreCompute (te_bv te) bp s = (t, e)" for bp t e
    using ProcessJustification_shape [of "te_bv te" bp s] that by (simp add: shape_keeps)
  show ?thesis unfolding ProcessEpoch_def by (auto simp: scores just split: option.split prod.split)
qed

subsection \<open>Slots keep the type\<close>

text \<open>What is needed of the parameters: roots have 32 bytes.\<close>
definition transition_laws :: "transition_env \<Rightarrow> bool" where
  "transition_laws te \<longleftrightarrow> (\<forall>s. length (fst (te_stateRoot te s)) = 32) \<and> (\<forall>h. length (fst (te_headerRoot te h)) = 32)"

lemma roots_update_keeps:
  assumes "roots_ok 8192 (bs_stateRoots s) \<Longrightarrow> roots_ok 8192 x" "roots_ok 8192 (bs_blockRoots s) \<Longrightarrow> roots_ok 8192 y"
  shows "keeps s (s\<lparr>bs_stateRoots := x\<rparr>)" "keeps s (s\<lparr>bs_blockRoots := y\<rparr>)"
  using assms by (simp_all add: keeps_def well_typed_def vals_def)

lemma root_update_keeps:
  assumes "length r = 32"
  shows "keeps s (fst (UpdateStateRootAtIndex i r s))" "keeps s (fst (UpdateBlockRootAtIndex i r s))"
proof -
  have "roots_ok 8192 x \<Longrightarrow> roots_ok 8192 (Some ((case x of None \<Rightarrow> [] | Some r \<Rightarrow> r)[unat i := r]))" for x
    using roots_ok_update [OF _ assms] by (cases x) (auto simp: roots_ok_def)
  then show "keeps s (fst (UpdateStateRootAtIndex i r s))" "keeps s (fst (UpdateBlockRootAtIndex i r s))"
    by (simp_all add: UpdateStateRootAtIndex_def UpdateBlockRootAtIndex_def StateRoots_def BlockRoots_def roots_update_keeps)
qed

lemma ProcessSlot_kept:
  assumes "transition_laws te"
  shows "kept s (ProcessSlot te s)"
proof -
  obtain r e where r: "te_stateRoot te s = (r, e)" by fastforce
  have lr: "length r = 32" using assms r by (auto simp: transition_laws_def dest: spec [of _ s])
  obtain t e1 where t: "UpdateStateRootAtIndex (bs_slot s mod SlotsPerHistoricalRoot) r s = (t, e1)" by fastforce
  have kt: "keeps s t" using root_update_keeps(1) [OF lr] t by (metis fst_conv)
  have "kept s (case te_headerRoot te h of (_, Some err) \<Rightarrow> Ret (t\<lparr>bs_latestBlockHeader := Some h\<rparr>, Some (w err))
      | (x, None) \<Rightarrow> Ret (UpdateBlockRootAtIndex i x (t\<lparr>bs_latestBlockHeader := Some h\<rparr>)))" for h w i
  proof -
    obtain x xe where x: "te_headerRoot te h = (x, xe)" by fastforce
    have "length x = 32" using assms x by (auto simp: transition_laws_def dest: spec [of _ h])
    moreover have "keeps t (t\<lparr>bs_latestBlockHeader := Some h\<rparr>)" by (intro shape_keeps) (simp add: shape_def)
    ultimately show ?thesis using x kt root_update_keeps(2) by (cases xe) (auto intro: keeps_trans)
  qed
  then show ?thesis unfolding ProcessSlot_def r Let_def
    by (cases e; cases e1; cases "bs_latestBlockHeader t") (simp_all add: t kt)
qed

lemma rewards_loop_length: "rewards_loop rs ps qs is (bs, vp) = Ret ((bs', vp'), e) \<Longrightarrow> length bs' = length bs"
proof (induction "is" arbitrary: bs vp)
  case (Cons i "is")
  obtain x xe where x: "IncreaseBalanceWithVal (bs ! i) (rs ! i + qs ! i) = (x, xe)" by fastforce
  show ?case using Cons.prems Cons.IH x by (cases xe) (auto simp: Let_def split: if_splits)
qed simp

lemma rewards_kept: "yields (\<lambda>(c, vp, t, e). keeps s t) (ProcessRewardsAndPenaltiesPrecompute c s b vp f g)"
proof -
  have "keeps s (SetBalances (Some bs) s)" if "rewards_loop rs ps qs is (bals s, vp) = Ret ((bs, vp'), e)" for rs ps qs "is" bs vp' e
    using rewards_loop_length [OF that]
    by (cases "bs_balances s") (auto simp: keeps_def well_typed_def SetBalances_def bals_def vals_def)
  then show ?thesis unfolding ProcessRewardsAndPenaltiesPrecompute_def Let_def
    by (auto split: option.split)
qed

lemma ProcessSlashingsPrecompute_kept: "kept s (ProcessSlashingsPrecompute b s)"
proof -
  obtain h he where h: "ReadFromEveryValidator s (\<lambda>idx val h. (h \<or> to_slash (CurrentEpoch s + EpochsPerSlashingsVector div 2) val, None)) False = (h, he)" by fastforce
  have "keeps s (fst (ApplyToEveryValidator (slashing_func e a d) s))" for e a d
    by (intro shape_keeps ApplyToEveryValidator_shape slashing_func_shape)
  then show ?thesis unfolding ProcessSlashingsPrecompute_def Let_def h by (cases h; cases he) simp_all
qed

lemma ProcessFinalUpdates_kept: "kept s (ProcessFinalUpdates te s)"
proof -
  have "kept s (Ret (ProcessParticipationRecordUpdates s))" for s
    by (auto simp: ProcessParticipationRecordUpdates_def RotateAttestations_def shape_def intro: shape_keeps)
  then show ?thesis unfolding ProcessFinalUpdates_def by (intro and_then_kept kept_steps)
qed

lemma ProcessEpochPrecompute_kept: "yields (\<lambda>(c, t, e). keeps s t) (ProcessEpochPrecompute te ev c s)"
proof -
  let ?rest = "\<lambda>u bp. and_then (obind (ProcessRegistryUpdates (te_hash te) (ev_registry ev) u) (wrap_error ''could not process registry updates'')) (\<lambda>s.
    and_then (ProcessSlashingsPrecompute bp s) (\<lambda>s. obind (ProcessFinalUpdates te s) (wrap_error ''could not process final updates'')))"
  have "kept u (?rest u bp)" for u bp
    by (intro and_then_kept wrap_error_kept ProcessRegistryUpdates_kept ProcessSlashingsPrecompute_kept ProcessFinalUpdates_kept)
  then have rest: "yields (\<lambda>(c, t, e). keeps s t) (obind (?rest u bp) (\<lambda>(t, err). Ret (c, t, err)))" if "keeps s u" for u c bp
    using that by (fastforce simp: yields_def obind_Ret_iff intro: keeps_trans)
  have rewards: "yields (\<lambda>(c, t, e). keeps s t) (obind (ProcessRewardsAndPenaltiesPrecompute c u bp vp AttestationsDelta ProposersDelta) (\<lambda>(c, _, t, err). case err of
      Some err \<Rightarrow> Ret (c, t, Some (Wrap ''could not process rewards and penalties'' err))
    | None \<Rightarrow> obind (?rest t bp) (\<lambda>(t, err). Ret (c, t, err))))" if "keeps s u" for u bp vp
  proof (rule yields_obind, goal_cases)
    case (1 r)
    obtain c' vp' t err where r: "r = (c', vp', t, err)" by (metis prod.exhaust)
    have "keeps s t" using yieldsD [OF rewards_kept 1] that r by (auto intro: keeps_trans)
    then show ?case using rest r by (cases err) simp_all
  qed
  have just: "keeps s t" if "ProcessJustificationAndFinalizationPreCompute (te_bv te) bp s = (t, e)" for bp t e
    using ProcessJustification_shape [of "te_bv te" bp s] that by (simp add: shape_keeps)
  show ?thesis unfolding ProcessEpochPrecompute_def by (auto simp: rewards just split: option.split prod.split)
qed

text \<open>Unless it fails, a step from a typed state leads to a typed state at slot \<open>n\<close>.\<close>
abbreviation arrives :: "Slot \<Rightarrow> BeaconState \<times> go_error option \<Rightarrow> bool" where
  "arrives n r \<equiv> snd r = None \<longrightarrow> bs_slot (fst r) = n \<and> well_typed (fst r)"

lemma and_then_arrives:
  assumes "yields (arrives n) m" "\<And>t. bs_slot t = n \<Longrightarrow> well_typed t \<Longrightarrow> yields (arrives n) (f t)"
  shows "yields (arrives n) (and_then m f)"
  unfolding and_then_def
proof (rule yields_obind, goal_cases)
  case (1 r)
  then have "arrives n r" using yieldsD [OF assms(1)] by blast
  then show ?case using assms(2) [of "fst r"] by (cases r; cases "snd r") simp_all
qed

lemma upgrade_if_arrives:
  assumes "bs_slot s = n" "well_typed s" "\<And>s. well_typed s \<Longrightarrow> yields (upgrade_post v nv s) (up s)"
  shows "yields (arrives n) (upgrade_if can up s)"
  using assms(1,2) assms(3) [OF assms(2)] by (auto simp: upgrade_if_def yields_def upgrade_post_def ledger_def)

lemmas upgrades_arrive = upgrade_if_arrives [OF _ _ UpgradeToAltair_post] upgrade_if_arrives [OF _ _ later_upgrades_post(1)]
  upgrade_if_arrives [OF _ _ later_upgrades_post(2)] upgrade_if_arrives [OF _ _ later_upgrades_post(3)]

lemma UpgradeState_arrives: "well_typed s \<Longrightarrow> yields (arrives (bs_slot s)) (UpgradeState te ev s)"
  unfolding UpgradeState_def by (intro and_then_arrives upgrades_arrive) simp_all

text \<open>What a turn of \<^verbatim>\<open>ProcessSlots\<close> promises: unless it fails the slot is one higher, and the type is kept.\<close>
definition next_slot :: "BeaconState \<Rightarrow> BeaconState \<Rightarrow> go_error option \<Rightarrow> bool" where
  "next_slot s t e \<longleftrightarrow> e = None \<longrightarrow> bs_slot t = bs_slot s + 1 \<and> well_typed t"

lemma slot_turn_next:
  assumes "transition_laws te" "well_typed s"
  shows "yields (\<lambda>(c, t, e). next_slot s t e) (slot_turn te ev c s)"
proof -
  let ?epoch = "\<lambda>u. if CanProcessEpoch u then
      (if bs_version u = Phase0 then obind (ProcessEpochPrecompute te ev c u) (\<lambda>(c, s, err). Ret (c, s, map_option (Wrap ''could not process epoch with optimizations'') err))
       else if bs_version u \<ge> Altair then obind (ProcessEpoch te ev c u) (\<lambda>(c, s, err). Ret (c, s, map_option (Wrap ''could not process epoch'') err))
       else Ret (c, u, Some (Fresh ''beacon state should have a version'')))
    else Ret (c, u, None)"
  have epoch: "yields (\<lambda>(c, t, e). keeps u t) (?epoch u)" for u
    using ProcessEpoch_kept [of u te ev c] ProcessEpochPrecompute_kept [of u te ev c] by (auto simp: yields_def obind_Ret_iff)
  have up: "next_slot s v e" if "UpgradeState te ev (t\<lparr>bs_slot := bs_slot t + 1\<rparr>) = Ret (v, e)" "keeps s t" for t v e
  proof -
    have "well_typed (t\<lparr>bs_slot := bs_slot t + 1\<rparr>)" using that(2) assms(2) by (simp add: keeps_def well_typed_def vals_def)
    then show ?thesis using yieldsD [OF UpgradeState_arrives that(1)] that(2) by (simp add: next_slot_def keeps_def)
  qed
  have turn: "yields (\<lambda>(c, t, e). next_slot s t e) (obind (?epoch u) (\<lambda>(c, t, err). case err of Some err \<Rightarrow> Ret (c, t, Some err)
    | None \<Rightarrow> obind (UpgradeState te ev (t\<lparr>bs_slot := bs_slot t + 1\<rparr>)) (\<lambda>(t, err). Ret (c, t, map_option (Wrap ''failed to upgrade state'') err))))"
    if "keeps s u" for u
  proof (rule yields_obind, goal_cases)
    case (1 r)
    obtain c' t err where r: "r = (c', t, err)" by (metis prod.exhaust)
    have t: "keeps s t" using yieldsD [OF epoch 1] that r by (auto intro: keeps_trans)
    show ?case
    proof (cases err)
      case None
      have "next_slot s v (map_option w e)" if "UpgradeState te ev (t\<lparr>bs_slot := bs_slot t + 1\<rparr>) = Ret (v, e)" for v e w
        using up [OF that t] by (simp add: next_slot_def)
      then show ?thesis using r None by (auto simp: yields_def obind_Ret_iff)
    qed (simp add: r next_slot_def)
  qed
  show ?thesis unfolding slot_turn_def
  proof (rule yields_obind, goal_cases)
    case (1 r)
    obtain u err where r: "r = (u, err)" by fastforce
    have "keeps s u" using yieldsD [OF ProcessSlot_kept [OF assms(1)] 1] r by simp
    from turn [OF this] show ?case by (cases err) (simp_all only: r prod.case option.case yields_simps next_slot_def, simp)
  qed
qed

subsection \<open>What a slot does\<close>

text \<open>
  What has to happen between slot \<open>n\<close> and slot \<open>n + 1\<close>: the slot is processed; if it is the last one of its epoch, the epoch is processed, in the way of the
  version; the slot is counted up; and at the first slot of the epoch of a fork the state is upgraded to its version.
\<close>
definition spec_upgrade :: "transition_env \<Rightarrow> epoch_view \<Rightarrow> BeaconState \<Rightarrow> BeaconState \<Rightarrow> bool" where
  "spec_upgrade te ev s t \<longleftrightarrow>
    (let n = unat (bs_slot s)
     in if n = 32 * 74240 then UpgradeToAltair (te_hash te) (ev_upgrade ev) (te_bits te) (ev_upgrade_cancelled ev) (te_AggregatePublicKeys te) s = Ret (t, None)
        else if n = 32 * 144896 then UpgradeToBellatrix s = Ret (t, None)
        else if n = 32 * 194048 then UpgradeToCapella s = Ret (t, None)
        else if n = 32 * 269568 then UpgradeToDeneb s = Ret (t, None)
        else t = s)"

definition slot_spec :: "transition_env \<Rightarrow> epoch_view \<Rightarrow> sqrt_cache \<times> BeaconState \<Rightarrow> sqrt_cache \<times> BeaconState \<Rightarrow> bool" where
  "slot_spec te ev = (\<lambda>(c, s) (c', t). \<exists>u v. ProcessSlot te s = Ret (u, None)
    \<and> (if Suc (unat (bs_slot s)) mod 32 \<noteq> 0 then c' = c \<and> v = u
       else if bs_version s = Phase0 then ProcessEpochPrecompute te ev c u = Ret (c', v, None)
       else ProcessEpoch te ev c u = Ret (c', v, None))
    \<and> bs_slot v = bs_slot s \<and> spec_upgrade te ev (v\<lparr>bs_slot := bs_slot s + 1\<rparr>) t)"

lemma fork_slot: "IsEpochStart slot \<and> slot div SlotsPerEpoch = e \<longleftrightarrow> unat slot = 32 * unat e"
proof -
  have "unat slot mod 32 = 0 \<and> unat slot div 32 = unat e \<longleftrightarrow> unat slot = 32 * unat e" by auto
  then show ?thesis by (simp add: IsEpochStart_def SlotsPerEpoch_def word_unat_eq_iff unat_div unat_mod)
qed

lemma and_then_Ret: "and_then m f = Ret (t, None) \<longleftrightarrow> (\<exists>u. m = Ret (u, None) \<and> f u = Ret (t, None))"
  unfolding and_then_def obind_Ret_iff by (auto split: option.splits prod.splits)

lemma UpgradeState_spec:
  assumes "well_typed s" "UpgradeState te ev s = Ret (t, None)"
  shows "spec_upgrade te ev s t"
proof -
  let ?n = "bs_slot s" and ?U1 = "UpgradeToAltair (te_hash te) (ev_upgrade ev) (te_bits te) (ev_upgrade_cancelled ev) (te_AggregatePublicKeys te)"
  note can = CanUpgradeToAltair_def CanUpgradeToBellatrix_def CanUpgradeToCapella_def CanUpgradeToDeneb_def fork_slot
    AltairForkEpoch_def BellatrixForkEpoch_def CapellaForkEpoch_def DenebForkEpoch_def
  obtain a b c where r: "upgrade_if (CanUpgradeToAltair ?n) ?U1 s = Ret (a, None)" "upgrade_if (CanUpgradeToBellatrix (bs_slot a)) UpgradeToBellatrix a = Ret (b, None)"
    "upgrade_if (CanUpgradeToCapella (bs_slot b)) UpgradeToCapella b = Ret (c, None)" "upgrade_if (CanUpgradeToDeneb (bs_slot c)) UpgradeToDeneb c = Ret (t, None)"
    using assms(2) unfolding UpgradeState_def and_then_Ret by blast
  have sl: "bs_slot a = ?n" "bs_slot b = ?n" "bs_slot c = ?n"
    using yieldsD [OF upgrades_arrive(1) [OF refl assms(1)] r(1)] yieldsD [OF upgrades_arrive(2) r(2)] yieldsD [OF upgrades_arrive(3) r(3)] by auto
  show ?thesis using r unfolding sl by (auto simp: spec_upgrade_def upgrade_if_def can split: if_splits)
qed

lemma last_slot: "(w + 1) mod 32 = 0 \<longleftrightarrow> Suc (unat (w :: u64)) mod 32 = 0"
proof -
  have "unat (w + 1) = (unat w + 1) mod 2 ^ 64" by (simp add: unat_word_ariths)
  moreover have "(unat w + 1) mod 2 ^ 64 mod 32 = (unat w + 1) mod 32" by (rule mod_mod_cancel) simp
  ultimately show ?thesis by (simp add: word_unat_eq_iff unat_mod)
qed

lemma slot_turn_spec:
  assumes "transition_laws te" "well_typed s" "slot_turn te ev c s = Ret (c', t, None)"
  shows "slot_spec te ev (c, s) (c', t)"
proof -
  obtain u where u: "ProcessSlot te s = Ret (u, None)" using assms(3) by (auto simp: slot_turn_def obind_Ret_iff split: option.splits)
  have k: "keeps s u" using yieldsD [OF ProcessSlot_kept [OF assms(1)] u] by simp
  then have last: "CanProcessEpoch u \<longleftrightarrow> Suc (unat (bs_slot s)) mod 32 = 0" and ver: "bs_version u = bs_version s"
    using last_slot by (simp_all add: CanProcessEpoch_def keeps_def SlotsPerEpoch_def)
  obtain v where v: "if Suc (unat (bs_slot s)) mod 32 \<noteq> 0 then c' = c \<and> v = u
       else if bs_version s = Phase0 then ProcessEpochPrecompute te ev c u = Ret (c', v, None) else ProcessEpoch te ev c u = Ret (c', v, None)"
    "UpgradeState te ev (v\<lparr>bs_slot := bs_slot v + 1\<rparr>) = Ret (t, None)"
    using assms(3) u unfolding slot_turn_def last ver
    by (cases "Suc (unat (bs_slot s)) mod 32 = 0"; cases "bs_version s = Phase0") (auto simp: obind_Ret_iff last ver split: option.splits if_splits)
  have "keeps u v"
    using v(1) yieldsD [OF ProcessEpoch_kept, of te ev c u] yieldsD [OF ProcessEpochPrecompute_kept, of te ev c u] by (fastforce split: if_splits)
  then have kv: "keeps s v" using k keeps_trans by blast
  then have "well_typed (v\<lparr>bs_slot := bs_slot v + 1\<rparr>)" using assms(2) by (simp add: keeps_def well_typed_def vals_def)
  from UpgradeState_spec [OF this v(2)] show ?thesis using u v(1) kv unfolding slot_spec_def prod.case keeps_def by metis
qed

lemma ends_and_then: "ends m \<Longrightarrow> (\<And>t. ends (f t)) \<Longrightarrow> ends (and_then m f)"
  unfolding and_then_def by (auto split: prod.split option.split)

lemma ends_upgrade_if: "(\<And>t. ends (up t)) \<Longrightarrow> ends (upgrade_if can up s)"
  by (simp add: upgrade_if_def)

lemma slot_run_step:
  assumes "slot_spec te (evs n) x y" "\<exists>f. f 0 = y \<and> f k = z \<and> (\<forall>i < k. slot_spec te (evs (Suc n + i)) (f i) (f (Suc i)))"
  shows "\<exists>f. f 0 = x \<and> f (Suc k) = z \<and> (\<forall>i < Suc k. slot_spec te (evs (n + i)) (f i) (f (Suc i)))"
proof -
  obtain f where f: "f 0 = y" "f k = z" "\<forall>i < k. slot_spec te (evs (Suc n + i)) (f i) (f (Suc i))" using assms(2) by blast
  have "slot_spec te (evs (n + i)) (case_nat x f i) (case_nat x f (Suc i))" if "i < Suc k" for i
    using that assms(1) f by (cases i) simp_all
  then show ?thesis using f(2) by (intro exI [of _ "case_nat x f"]) simp
qed

lemma slot_turn_ends:
  assumes "\<And>u. ends (NextSyncCommitteeIndices (te_hash te) (ev_sync ev) (ev_cancelled ev) u)"
    "\<And>u. ends (NextSyncCommitteeIndices (te_hash te) (ev_upgrade ev) (ev_upgrade_cancelled ev) u)"
  shows "ends (slot_turn te ev c s)"
proof -
  note seq = ends_and_then ends_upgrade_if ends_sync_updates [OF assms(1)] ends_UpgradeToAltair [OF assms(2)]
  have "ends (ProcessSlot te u)" for u unfolding ProcessSlot_def Let_def by (auto split: prod.split option.split)
  moreover have "ends (UpgradeState te ev u)" for u
    unfolding UpgradeState_def by (intro seq) (simp_all add: ending)
  moreover have "ends (ProcessFinalUpdates te u)" for u
    unfolding ProcessFinalUpdates_def by (intro seq) (simp_all add: ending)
  then have "ends (ProcessEpochPrecompute te ev c u)" for u
    unfolding ProcessEpochPrecompute_def by (auto simp: ending wrap_error_def intro!: seq split: prod.split option.split)
  moreover have "ends (epoch_rest te ev u)" for u
    unfolding epoch_rest_def by (auto simp: ending wrap_error_def intro!: seq split: prod.split option.split)
  then have "ends (ProcessEpoch te ev c u)" for u
    unfolding ProcessEpoch_def by (auto simp: ending split: prod.split option.split)
  ultimately show ?thesis unfolding slot_turn_def by (auto split: prod.split option.split)
qed

lemma slots_loop_spec:
  assumes "transition_laws te"
  shows "bs_slot s \<le> slot \<Longrightarrow> well_typed s \<Longrightarrow> \<exists>r. slots_loop te evs cancelled h slot n c s = Some r
    \<and> yields (\<lambda>(c', put, t, e). e = None \<longrightarrow> bs_slot t = slot \<and> well_typed t \<and> put = (if h < slot then Some t else None)
        \<and> (\<exists>f. f 0 = (c, s) \<and> f (unat slot - unat (bs_slot s)) = (c', t)
            \<and> (\<forall>i < unat slot - unat (bs_slot s). slot_spec te (evs (n + i)) (f i) (f (Suc i))))) r
    \<and> (r = Diverge \<longrightarrow> (\<exists>i c' u. slot_turn te (evs i) c' u = Diverge))"
proof (induction "unat slot - unat (bs_slot s)" arbitrary: n c s rule: less_induct)
  case less
  show ?case
  proof (cases "bs_slot s < slot \<and> \<not> cancelled n")
    case False
    then show ?thesis using less.prems by (subst slots_loop.simps) (auto simp: Let_def intro!: exI [of _ "\<lambda>_. (c, s)"])
  next
    case True
    show ?thesis
    proof (cases "slot_turn te (evs n) c s")
      case (Ret r)
      obtain c' t err where r: "r = (c', t, err)" by (metis prod.exhaust)
      have nx: "next_slot s t err" using yieldsD [OF slot_turn_next [OF assms less.prems(2)] Ret] r by simp
      show ?thesis
      proof (cases err)
        case None
        have "unat (bs_slot s) + unat (1 :: u64) < 2 ^ 64" using True unat_u64_lt [of slot] by (simp add: word_less_nat_alt)
        then have "unat (bs_slot s + 1) = unat (bs_slot s) + 1" using unat_add_no_wrap [of "bs_slot s" 1] by simp
        then have t: "bs_slot t \<le> slot" "unat slot - unat (bs_slot s) = Suc (unat slot - unat (bs_slot t))"
          using nx None True by (auto simp: next_slot_def word_less_nat_alt word_le_nat_alt)
        have w: "well_typed t" using nx None by (simp add: next_slot_def)
        have sp: "slot_spec te (evs n) (c, s) (c', t)" by (rule slot_turn_spec [OF assms less.prems(2)]) (use Ret r None in simp)
        have eq: "slots_loop te evs cancelled h slot n c s = slots_loop te evs cancelled h slot (Suc n) c' t"
          using True Ret r None by (subst slots_loop.simps) (simp add: Let_def)
        have run: "\<exists>f. f 0 = (c, s) \<and> f (Suc k) = z \<and> (\<forall>i < Suc k. slot_spec te (evs (n + i)) (f i) (f (Suc i)))"
          if "\<exists>f. f 0 = (c', t) \<and> f k = z \<and> (\<forall>i < k. slot_spec te (evs (Suc n + i)) (f i) (f (Suc i)))" for k z
          by (rule slot_run_step [OF sp that])
        have "unat slot - unat (bs_slot t) < unat slot - unat (bs_slot s)" using t(2) by simp
        from less.hyps [OF this t(1) w, of "Suc n" c'] show ?thesis unfolding eq t(2) yields_def using run by fastforce
      next
        case (Some e)
        then show ?thesis using True Ret r by (subst slots_loop.simps) (simp add: Let_def)
      qed
    next
      case Panic
      then show ?thesis using True by (subst slots_loop.simps) (simp add: Let_def)
    next
      case Diverge
      then show ?thesis using True by (subst slots_loop.simps) (auto simp: Let_def)
    qed
  qed
qed

lemma ProcessSlots_cases:
  obtains (early) e where "ProcessSlots te sk evs cancelled slot c s = Ret (c, None, e)" "snd e \<noteq> None"
  | (run) u where "u \<in> insert s (set_option (fst (sk_Get sk)) \<union> set_option (fst (sk_Get_again sk)))" "bs_slot u < slot"
      "ProcessSlots te sk evs cancelled slot c s = (case slots_loop te evs cancelled (bs_slot u) slot 0 c u of None \<Rightarrow> Diverge | Some r \<Rightarrow> r)"
proof -
  obtain x xe where x: "sk_Get sk = (x, xe)" by fastforce
  obtain y ye where y: "sk_Get_again sk = (y, ye)" by fastforce
  let ?P = "ProcessSlots te sk evs cancelled slot c s" and ?a = "restart slot x s" and ?b = "restart slot y (restart slot x s)"
  let ?run = "\<lambda>u. case slots_loop te evs cancelled (bs_slot u) slot 0 c u of None \<Rightarrow> Diverge | Some r \<Rightarrow> r"
  have a: "?a \<in> insert s (set_option x)" "?b \<in> insert ?a (set_option y)" by (cases x; cases y; simp add: restart_def)+
  have lt: "bs_slot s < slot \<Longrightarrow> bs_slot ?a < slot \<and> bs_slot ?b < slot" by (cases x; cases y; simp add: restart_def)
  consider (stop) e where "?P = Ret (c, None, e)" "snd e \<noteq> None" | (first) "bs_slot s < slot" "?P = ?run ?a" | (again) "bs_slot s < slot" "?P = ?run ?b"
  proof (cases "bs_slot s < slot \<and> sk_cacheKey sk s = None \<and> xe = None")
    case False
    then have "\<exists>err. ?P = Ret (c, None, s, Some err)"
      by (cases "sk_cacheKey sk s"; cases xe) (auto simp: ProcessSlots_def x)
    then show ?thesis using stop by fastforce
  next
    case True
    then have "?P = ?run ?a \<or> ?P = ?run ?b \<or> (\<exists>err. ?P = Ret (c, None, ?a, Some err))"
      by (cases "sk_MarkInProgress sk"; cases ye) (auto simp: ProcessSlots_def x y Let_def)
    then show ?thesis using stop first again True by fastforce
  qed
  then show thesis using early run [of ?a] run [of ?b] a lt x y by cases auto
qed

text \<open>
  (C14) The end of an epoch keeps the type of the state: \<^verbatim>\<open>ProcessEpoch\<close> on a state with one balance and, since Altair, one inactivity score and entry of the participation lists
  per validator and with vectors of roots, mixes and slashings of the lengths of the specification leaves such a state, at the same slot and of the same version, whether or
  not it reports an error.
\<close>
theorem epoch_keeps_type:
  assumes "well_typed s" "ProcessEpoch te ev c s = Ret (c', t, err)"
  shows "well_typed t \<and> bs_slot t = bs_slot s \<and> bs_version t = bs_version s"
  using yieldsD [OF ProcessEpoch_kept assms(2)] assms(1) by (simp add: keeps_def)

text \<open>
  (C13) \<^verbatim>\<open>ProcessSlots\<close> arrives: when no error is reported the state is at exactly the wanted slot, well typed as the states it started from or found in the cache are, and the one
  that is put into the cache; and it is the last of a sequence of states, one per slot from the given or a cached state on, each of which follows from the one before as \<open>slot_spec\<close> says,
  with the processing of every epoch that ends and every upgrade on the way. It never runs forever, whatever the caches answer and whenever the context is cancelled, unless
  drawing a sync committee does. Hash tree roots are assumed to have 32 bytes.
\<close>
theorem ProcessSlots_arrives:
  assumes "transition_laws te" "well_typed s" "\<forall>t \<in> set_option (fst (sk_Get sk)) \<union> set_option (fst (sk_Get_again sk)). well_typed t"
  shows "(\<forall>c' put t. ProcessSlots te sk evs cancelled slot c s = Ret (c', put, t, None) \<longrightarrow> bs_slot t = slot \<and> well_typed t \<and> put = Some t
      \<and> (\<exists>u f. u \<in> insert s (set_option (fst (sk_Get sk)) \<union> set_option (fst (sk_Get_again sk))) \<and> bs_slot u < slot
          \<and> f 0 = (c, u) \<and> f (unat slot - unat (bs_slot u)) = (c', t)
          \<and> (\<forall>i < unat slot - unat (bs_slot u). slot_spec te (evs i) (f i) (f (Suc i)))))
    \<and> (ProcessSlots te sk evs cancelled slot c s = Diverge \<longrightarrow> (\<exists>n u.
          NextSyncCommitteeIndices (te_hash te) (ev_sync (evs n)) (ev_cancelled (evs n)) u = Diverge
          \<or> NextSyncCommitteeIndices (te_hash te) (ev_upgrade (evs n)) (ev_upgrade_cancelled (evs n)) u = Diverge))"
proof -
  let ?S = "insert s (set_option (fst (sk_Get sk)) \<union> set_option (fst (sk_Get_again sk)))"
  let ?run = "\<lambda>u. case slots_loop te evs cancelled (bs_slot u) slot 0 c u of None \<Rightarrow> Diverge | Some r \<Rightarrow> r"
  have wt: "well_typed u" if "u \<in> ?S" for u using assms(2,3) that by blast
  consider e where "ProcessSlots te sk evs cancelled slot c s = Ret (c, None, e)" "snd e \<noteq> None"
    | u where "u \<in> ?S" "bs_slot u < slot" "ProcessSlots te sk evs cancelled slot c s = ?run u"
    by (rule ProcessSlots_cases)
  then show ?thesis
  proof cases
    case 1
    then show ?thesis by auto
  next
    case (2 u)
    obtain r where r: "slots_loop te evs cancelled (bs_slot u) slot 0 c u = Some r" and y: "yields (\<lambda>(c', put, t, e). e = None \<longrightarrow> bs_slot t = slot \<and> well_typed t
        \<and> put = (if bs_slot u < slot then Some t else None) \<and> (\<exists>f. f 0 = (c, u) \<and> f (unat slot - unat (bs_slot u)) = (c', t)
            \<and> (\<forall>i < unat slot - unat (bs_slot u). slot_spec te (evs (0 + i)) (f i) (f (Suc i))))) r"
      and d: "r = Diverge \<longrightarrow> (\<exists>i c' u. slot_turn te (evs i) c' u = Diverge)"
      using slots_loop_spec [OF assms(1) less_imp_le [OF 2(2)] wt [OF 2(1)], of evs cancelled "bs_slot u" 0 c] by blast
    have p: "ProcessSlots te sk evs cancelled slot c s = r" using 2(3) r by simp
    have "\<exists>n u. NextSyncCommitteeIndices (te_hash te) (ev_sync (evs n)) (ev_cancelled (evs n)) u = Diverge
        \<or> NextSyncCommitteeIndices (te_hash te) (ev_upgrade (evs n)) (ev_upgrade_cancelled (evs n)) u = Diverge" if "r = Diverge"
      using d that slot_turn_ends [of te "evs _"] unfolding ends_def by metis
    moreover have "bs_slot t = slot \<and> well_typed t \<and> put = Some t \<and> (\<exists>f. f 0 = (c, u) \<and> f (unat slot - unat (bs_slot u)) = (c', t)
        \<and> (\<forall>i < unat slot - unat (bs_slot u). slot_spec te (evs i) (f i) (f (Suc i))))" if "r = Ret (c', put, t, None)" for c' put t
      using yieldsD [OF y that] 2(2) by simp
    ultimately show ?thesis unfolding p using 2(1,2) by blast
  qed
qed

subsection \<open>A small state\<close>

abbreviation epoch_demo :: BeaconState where
  "epoch_demo \<equiv> altair_demo\<lparr>bs_slot := 31\<rparr>"

lemma epoch_demo_facts: "CurrentEpoch epoch_demo = 0" "bs_validators epoch_demo = Some demo_pair" "vals epoch_demo = demo_pair" "bals epoch_demo = [32000000000, 32000000000]"
  "bs_slashings epoch_demo = replicate 8192 0" "bs_version epoch_demo = Altair" "well_typed epoch_demo"
  by (simp_all add: altair_demo_def CurrentEpoch_def SlotsPerEpoch_def vals_def bals_def well_typed_def replicate_roots_ok)

lemma epoch_demo_validators [simp]: "epoch_demo\<lparr>bs_validators := Some demo_pair\<rparr> = epoch_demo"
  by (simp add: altair_demo_def small_state_def)

lemma epoch_demo_registry: "ProcessRegistryUpdates id cold_caches epoch_demo = Ret (epoch_demo, None)"
proof -
  have "snd (Seed id epoch_demo 0 DomainBeaconAttester) = None"
    by (simp add: Seed_def RandaoMix_def RandaoMixAtIndex_def EpochsPerHistoricalVector_def MinSeedLookahead_def out_of_range_def altair_demo_def)
  then obtain n where n: "ActiveValidatorCount id cold_caches epoch_demo 0 = (n, None)"
    using ActiveValidatorCount_cold [OF epoch_demo_facts(2), of id 0] by simp
  have st: "registry_step id cold_caches 0 i full_validator epoch_demo = Ret ((full_validator, epoch_demo), None)" for i
    by (simp add: registry_step_def full_validator_def IsEligibleForActivationQueue_def isEligibileForActivationQueue_def FarFutureEpoch_def EjectionBalance_def)
  have q: "activation_queue epoch_demo demo_pair = []"
    by (simp add: activation_queue_def indices_where_def full_validator_def IsEligibleForActivation_def isEligibleForActivation_def FarFutureEpoch_def)
  show ?thesis by (simp add: ProcessRegistryUpdates_def epoch_demo_facts(1,3) st q n)
qed

lemma epoch_demo_slashings: "ProcessSlashings cold_caches m epoch_demo = Ret (epoch_demo, None)"
proof -
  have s: "sum_slashings (replicate n 0) 0 = (0, None)" for n by (induction n) (simp_all add: Add64_def)
  have t: "slashing_func e a b i full_validator epoch_demo = (((False, full_validator), epoch_demo), None)" for e a b i
    by (simp add: slashing_func_def to_slash_def full_validator_def)
  have ts: "\<not> to_slash e full_validator" for e by (simp add: to_slash_def full_validator_def)
  have a: "ApplyToEveryValidator (slashing_func e a b) epoch_demo = (epoch_demo, None)" for e a b
    using epoch_demo_facts(2) by (simp add: ApplyToEveryValidator_def t)
  show ?thesis unfolding ProcessSlashings_def Let_def TotalActiveBalance_cold [OF epoch_demo_facts(2)] epoch_demo_facts(3,5) s by (simp add: ts a)
qed

lemma epoch_demo_balances: "ProcessEffectiveBalanceUpdates epoch_demo = (epoch_demo, None)"
proof -
  have h: "hysteresis 32000000000 full_validator = (False, full_validator)"
    by (simp add: hysteresis_def full_validator_def EffectiveBalanceIncrement_def HysteresisQuotient_def HysteresisDownwardMultiplier_def HysteresisUpwardMultiplier_def)
  show ?thesis unfolding ProcessEffectiveBalanceUpdates_def Let_def epoch_demo_facts(4)
    by (simp add: ApplyToEveryValidator_def epoch_demo_facts(2) [simplified] h)
qed

definition demo_env :: transition_env where
  "demo_env = \<lparr>te_hash = id, te_bv = byte_bv4, te_bits = demo_bits, te_stateRoot = (\<lambda>_. (replicate 32 4, None)), te_headerRoot = (\<lambda>_. (replicate 32 6, None)),
     te_ArraysRoot = (\<lambda>_ _. ([], None)), te_batchRoot = (\<lambda>_ _. ([], None)), te_AggregatePublicKeys = (\<lambda>_. ([], None))\<rparr>"

definition demo_view :: epoch_view where
  "demo_view = \<lparr>ev_attestations = cold_caches, ev_registry = cold_caches, ev_slashings = cold_caches, ev_sync = cold_caches, ev_cancelled = (\<lambda>_. False),
     ev_upgrade = cold_caches, ev_upgrade_cancelled = (\<lambda>_. False)\<rparr>"

lemma epoch_demo_rest: "\<exists>t. epoch_rest demo_env demo_view epoch_demo = Ret (t, None)"
proof -
  have m: "ProportionalSlashingMultiplier_state epoch_demo = (ProportionalSlashingMultiplierAltair, None)"
    by (simp add: ProportionalSlashingMultiplier_state_def epoch_demo_facts(6) [simplified] versions)
  have r: "RandaoMix epoch_demo 0 = (replicate 32 5, None)"
    by (simp add: RandaoMix_def RandaoMixAtIndex_def EpochsPerHistoricalVector_def out_of_range_def altair_demo_def)
  have e: "ProcessEth1DataReset epoch_demo = (epoch_demo, None)"
    by (simp add: ProcessEth1DataReset_def epoch_demo_facts(1) EpochsPerEth1VotingPeriod_def)
  let ?s = "epoch_demo\<lparr>bs_slashings := (replicate 8192 0)[Suc 0 := 0]\<rparr>"
  have sl: "ProcessSlashingsReset epoch_demo = (?s, None)"
    unfolding ProcessSlashingsReset_def Let_def epoch_demo_facts(1,5)
    using epoch_demo_facts(5) by (simp add: UpdateSlashingsAtIndex_def EpochsPerSlashingsVector_def out_of_range_def)
  let ?t = "?s\<lparr>bs_randaoMixes := Some ((replicate 65536 (replicate 32 5))[Suc 0 := replicate 32 5])\<rparr>"
  have same: "CurrentEpoch ?s = 0" "RandaoMix ?s 0 = (replicate 32 5, None)" "bs_randaoMixes ?s = Some (replicate 65536 (replicate 32 5))"
    using epoch_demo_facts(1) r by (simp_all add: CurrentEpoch_def RandaoMix_def RandaoMixAtIndex_def) (simp add: altair_demo_def)
  have mx: "ProcessRandaoMixesReset ?s = Ret (?t, None)"
    unfolding ProcessRandaoMixesReset_def Let_def same RandaoMixesLength_def option.case
    by (simp add: UpdateRandaoMixesAtIndex_def same(3) [simplified] EpochsPerHistoricalVector_def out_of_range_def)
  have ce: "CurrentEpoch ?t = 0" "bs_version ?t = Altair" using same(1) epoch_demo_facts(6) by (simp_all add: CurrentEpoch_def)
  have hi: "ProcessHistoricalDataUpdate te ?t = (?t, None)" for te
    unfolding ProcessHistoricalDataUpdate_def Let_def ce by (simp add: SlotsPerHistoricalRoot_def SlotsPerEpoch_def)
  obtain u where u: "ProcessParticipationFlagUpdates ?t = (u, None)" "CurrentEpoch u = 0"
    using ce by (simp add: ProcessParticipationFlagUpdates_def CurrentEpochParticipation_def SetPreviousParticipationBits_def SetCurrentParticipationBits_def versions CurrentEpoch_def)
  have "ProcessSyncCommitteeUpdates h cv c a u = Ret (u, None)" for h cv c a
    using u(2) by (simp add: ProcessSyncCommitteeUpdates_def NextEpoch_def CurrentEpoch_def EpochsPerSyncCommitteePeriod_def)
  then show ?thesis
    by (simp add: epoch_rest_def demo_env_def demo_view_def epoch_demo_registry wrap_error_def and_then_def m epoch_demo_slashings e epoch_demo_balances sl mx hi u(1))
qed

theorem epoch_keeps_type_witness:
  "\<exists>c t. ProcessEpoch demo_env demo_view \<lparr>squareRoot = 0, sqBalance = 0\<rparr> epoch_demo = Ret (c, t, None) \<and> well_typed t \<and> bs_slot t = 31"
proof -
  have "altair_state epoch_demo demo_pair [7, 7] [2, 0]" using altair_demo_facts(1) by (simp add: altair_state_def)
  moreover have "total_eff demo_pair < 2 ^ 64" using altair_demo_facts(2) by simp
  ultimately obtain vp b vp' b' where i: "InitializePrecomputeValidators epoch_demo = (Some (vp, b), None)"
    "ProcessEpochParticipation epoch_demo b vp = Ret (Some (vp', b'), None)"
    by (rule altair_precompute) blast
  obtain t where "epoch_rest demo_env demo_view epoch_demo = Ret (t, None)" using epoch_demo_rest by blast
  then have "\<exists>c t. ProcessEpoch demo_env demo_view \<lparr>squareRoot = 0, sqBalance = 0\<rparr> epoch_demo = Ret (c, t, None)"
    by (simp add: ProcessEpoch_def i process_cases ProcessInactivityScores_def ProcessRewardsAndPenaltiesPrecompute_altair_def epoch_demo_facts(1) GenesisEpoch_def)
  then show ?thesis using epoch_keeps_type [OF epoch_demo_facts(7)] by fastforce
qed

lemma transition_laws_demo: "transition_laws demo_env"
  by (simp add: transition_laws_def demo_env_def)

definition empty_skip :: skip_cache where
  "empty_skip = \<lparr>sk_cacheKey = (\<lambda>_. None), sk_Get = (None, None), sk_MarkInProgress = None, sk_Get_again = (None, None)\<rparr>"

lemma demo_slot_turn: "\<exists>t. slot_turn demo_env ev c altair_demo = Ret (c, t, None) \<and> bs_slot t = 322"
proof -
  obtain h where h: "bs_latestBlockHeader altair_demo = Some h" by (simp add: altair_demo_def small_state_def)
  have "bs_stateRoots altair_demo = Some (replicate 8192 (replicate 32 9))" "bs_blockRoots altair_demo = Some (replicate 8192 (replicate 32 7))"
    by (simp_all add: altair_demo_def)
  then obtain t where t: "ProcessSlot demo_env altair_demo = Ret (t, None)" "bs_slot t = 321"
    using h altair_demo_facts(5)
    by (simp add: ProcessSlot_def demo_env_def UpdateStateRootAtIndex_def UpdateBlockRootAtIndex_def StateRoots_def BlockRoots_def out_of_range_def SlotsPerHistoricalRoot_def Let_def)
  have no: "\<not> IsEpochStart 322" "\<not> CanProcessEpoch t" using t(2) by (simp_all add: IsEpochStart_def CanProcessEpoch_def SlotsPerEpoch_def)
  have "UpgradeState demo_env ev (t\<lparr>bs_slot := 322\<rparr>) = Ret (t\<lparr>bs_slot := 322\<rparr>, None)"
    by (simp add: UpgradeState_def upgrade_if_def and_then_def no CanUpgradeToAltair_def CanUpgradeToBellatrix_def CanUpgradeToCapella_def CanUpgradeToDeneb_def)
  then show ?thesis by (simp add: slot_turn_def t no)
qed

theorem ProcessSlots_arrives_witness:
  "\<exists>c put t u. ProcessSlots demo_env empty_skip (\<lambda>_. demo_view) (\<lambda>_. False) 322 \<lparr>squareRoot = 0, sqBalance = 0\<rparr> altair_demo = Ret (c, put, t, None)
    \<and> bs_slot t = 322 \<and> well_typed t \<and> put = Some t \<and> ProcessSlot demo_env altair_demo = Ret (u, None) \<and> t = u\<lparr>bs_slot := 322\<rparr>"
proof -
  let ?c = "\<lparr>squareRoot = 0, sqBalance = 0\<rparr> :: sqrt_cache"
  have wt: "well_typed altair_demo" by (simp add: well_typed_def altair_demo_def vals_def replicate_roots_ok)
  obtain u where u: "slot_turn demo_env demo_view ?c altair_demo = Ret (?c, u, None)" "bs_slot u = 322" using demo_slot_turn by blast
  then have "slots_loop demo_env (\<lambda>_. demo_view) (\<lambda>_. False) 321 322 0 ?c altair_demo = Some (Ret (?c, Some u, u, None))"
    by (subst slots_loop.simps, subst slots_loop.simps) (simp add: altair_demo_facts(5) Let_def)
  then have run: "ProcessSlots demo_env empty_skip (\<lambda>_. demo_view) (\<lambda>_. False) 322 ?c altair_demo = Ret (?c, Some u, u, None)"
    by (simp add: ProcessSlots_def empty_skip_def altair_demo_facts(5) restart_def)
  have "\<forall>c' put t. ProcessSlots demo_env empty_skip (\<lambda>_. demo_view) (\<lambda>_. False) 322 ?c altair_demo = Ret (c', put, t, None)
      \<longrightarrow> bs_slot t = 322 \<and> well_typed t \<and> put = Some t \<and> slot_spec demo_env demo_view (?c, altair_demo) (c', t)"
    using ProcessSlots_arrives [OF transition_laws_demo wt, of empty_skip "\<lambda>_. demo_view" "\<lambda>_. False" 322 ?c]
    by (fastforce simp: empty_skip_def altair_demo_facts(5))
  then have t: "bs_slot u = 322 \<and> well_typed u" "slot_spec demo_env demo_view (?c, altair_demo) (?c, u)" using run by blast+
  then obtain w where "ProcessSlot demo_env altair_demo = Ret (w, None)" "u = w\<lparr>bs_slot := 322\<rparr>"
    by (auto simp: slot_spec_def spec_upgrade_def altair_demo_facts(5) Let_def)
  then show ?thesis using run t(1) by blast
qed

end
