(* ===== verification/Withdrawals.thy ===== *)
theory Withdrawals
  imports Upgrades
begin

text \<open>
  Withdrawals since Capella: \<^verbatim>\<open>state-native/getters_withdrawal.go\<close>, \<^verbatim>\<open>setters_withdrawal.go\<close>, and \<^verbatim>\<open>core/blocks/withdrawals.go\<close> without the signatures.
  The hash tree root of a list of withdrawals and the hash of a public key are parameters. A validator of the state is never nil here.
\<close>

subsection \<open>Configuration and data\<close>

definition BLSWithdrawalPrefixByte :: u8 where "BLSWithdrawalPrefixByte = 0"
definition ETH1AddressWithdrawalPrefixByte :: u8 where "ETH1AddressWithdrawalPrefixByte = 1"
definition MaxWithdrawalsPerPayload :: u64 where "MaxWithdrawalsPerPayload = 16"
definition MaxValidatorsPerWithdrawalsSweep :: u64 where "MaxValidatorsPerWithdrawalsSweep = 16384"
definition ETH1AddressOffset :: nat where "ETH1AddressOffset = 12"

lemmas withdrawal_params = MaxWithdrawalsPerPayload_def MaxValidatorsPerWithdrawalsSweep_def

record Withdrawal =
  wd_Index :: u64
  wd_ValidatorIndex :: ValidatorIndex
  wd_Address :: "u8 list"
  wd_Amount :: u64

subsection \<open>Expected withdrawals\<close>

definition hasETH1WithdrawalCredential :: "Validator \<Rightarrow> bool" where
  "hasETH1WithdrawalCredential val \<longleftrightarrow> length (v_WithdrawalCredentials val) > 0 \<and> v_WithdrawalCredentials val ! 0 = ETH1AddressWithdrawalPrefixByte"

definition isFullyWithdrawableValidator :: "Validator \<Rightarrow> Epoch \<Rightarrow> bool" where
  "isFullyWithdrawableValidator val epoch \<longleftrightarrow> hasETH1WithdrawalCredential val \<and> v_WithdrawableEpoch val \<le> epoch"

definition isPartiallyWithdrawableValidator :: "Validator \<Rightarrow> u64 \<Rightarrow> bool" where
  "isPartiallyWithdrawableValidator val balance \<longleftrightarrow>
    (let hasMaxBalance = (v_EffectiveBalance val = MaxEffectiveBalance); hasExcessBalance = (balance > MaxEffectiveBalance)
     in hasETH1WithdrawalCredential val \<and> hasExcessBalance \<and> hasMaxBalance)"

text \<open>The withdrawal of one validator, if there is one. Slicing the credentials panics when they are shorter than the offset of the address.\<close>
definition withdrawal_of :: "Epoch \<Rightarrow> Validator \<Rightarrow> u64 \<Rightarrow> ValidatorIndex \<Rightarrow> u64 \<Rightarrow> Withdrawal option outcome" where
  "withdrawal_of epoch val balance validatorIndex withdrawalIndex =
    (let make = (\<lambda>amount. if length (v_WithdrawalCredentials val) < ETH1AddressOffset then Panic
           else Ret (Some \<lparr>wd_Index = withdrawalIndex, wd_ValidatorIndex = validatorIndex,
             wd_Address = drop ETH1AddressOffset (v_WithdrawalCredentials val), wd_Amount = amount\<rparr>))
     in if balance > 0 \<and> isFullyWithdrawableValidator val epoch then make balance
        else if isPartiallyWithdrawableValidator val balance then make (balance - MaxEffectiveBalance)
        else Ret None)"

text \<open>The loop with the number of turns that are left.\<close>
fun withdrawals_loop :: "BeaconState \<Rightarrow> Epoch \<Rightarrow> nat \<Rightarrow> ValidatorIndex \<Rightarrow> u64 \<Rightarrow> Withdrawal list \<Rightarrow> Withdrawal list result outcome" where
  "withdrawals_loop s epoch 0 validatorIndex withdrawalIndex withdrawals = Ret (withdrawals, None)"
| "withdrawals_loop s epoch (Suc n) validatorIndex withdrawalIndex withdrawals = (case validatorAtIndex s validatorIndex of
     (Some val, None) \<Rightarrow> (case balanceAtIndex s validatorIndex of
         (_, Some err) \<Rightarrow> Ret ([], Some (Wrap ''could not retrieve balance at index'' err))
       | (balance, None) \<Rightarrow> obind (withdrawal_of epoch val balance validatorIndex withdrawalIndex) (\<lambda>w.
           let withdrawals = (case w of None \<Rightarrow> withdrawals | Some w \<Rightarrow> withdrawals @ [w]);
               withdrawalIndex = (case w of None \<Rightarrow> withdrawalIndex | Some w \<Rightarrow> withdrawalIndex + 1)
           in if of_nat (length withdrawals) = MaxWithdrawalsPerPayload then Ret (withdrawals, None)
              else let validatorIndex = validatorIndex + 1
                   in withdrawals_loop s epoch n (if validatorIndex = of_nat (length (vals s)) then 0 else validatorIndex) withdrawalIndex withdrawals))
   | (_, Some err) \<Rightarrow> Ret ([], Some (Wrap ''could not retrieve validator at index'' err))
   | (None, None) \<Rightarrow> Panic)"

definition ExpectedWithdrawals :: "BeaconState \<Rightarrow> Withdrawal list result outcome" where
  "ExpectedWithdrawals s =
    (if bs_version s < Capella then Ret ([], Some (errNotSupported ''ExpectedWithdrawals''))
     else obind (ToEpoch (bs_slot s)) (\<lambda>epoch.
       let bound = math_Min (of_nat (length (vals s))) MaxValidatorsPerWithdrawalsSweep
       in withdrawals_loop s epoch (unat bound) (bs_nextWithdrawalValidatorIndex s) (bs_nextWithdrawalIndex s) []))"

subsection \<open>Processing withdrawals\<close>

definition SetNextWithdrawalIndex :: "u64 \<Rightarrow> BeaconState \<Rightarrow> BeaconState \<times> go_error option" where
  "SetNextWithdrawalIndex i s = (if bs_version s < Capella then (s, Some (errNotSupported ''SetNextWithdrawalIndex''))
     else (s\<lparr>bs_nextWithdrawalIndex := i\<rparr>, None))"
definition SetNextWithdrawalValidatorIndex :: "ValidatorIndex \<Rightarrow> BeaconState \<Rightarrow> BeaconState \<times> go_error option" where
  "SetNextWithdrawalValidatorIndex i s = (if bs_version s < Capella then (s, Some (errNotSupported ''SetNextWithdrawalValidatorIndex''))
     else (s\<lparr>bs_nextWithdrawalValidatorIndex := i\<rparr>, None))"

text \<open>The withdrawals of a payload: a blinded one has only their root.\<close>
datatype payload_withdrawals = Blinded "u8 list result" | Full "Withdrawal list result"

definition withdrawals_root :: "(Withdrawal list \<Rightarrow> u8 list result) \<Rightarrow> payload_withdrawals \<Rightarrow> u8 list result" where
  "withdrawals_root sliceRoot executionData = (case executionData of
     Blinded (_, Some err) \<Rightarrow> ([], Some (Wrap ''could not get withdrawals root'' err))
   | Blinded (r, None) \<Rightarrow> (bytes32 r, None)
   | Full (_, Some err) \<Rightarrow> ([], Some (Wrap ''could not get withdrawals'' err))
   | Full (wds, None) \<Rightarrow> (case sliceRoot wds of
       (_, Some err) \<Rightarrow> ([], Some (Wrap ''could not get withdrawals root'' err))
     | (r, None) \<Rightarrow> (r, None)))"

fun decrease_loop :: "Withdrawal list \<Rightarrow> BeaconState \<Rightarrow> BeaconState \<times> go_error option" where
  "decrease_loop [] s = (s, None)"
| "decrease_loop (w # ws) s = (case DecreaseBalance (wd_ValidatorIndex w) (wd_Amount w) s of
     (s, Some err) \<Rightarrow> (s, Some (Wrap ''could not decrease balance'' err))
   | (s, None) \<Rightarrow> decrease_loop ws s)"

text \<open>Where the next sweep begins. The remainder panics when there is no validator.\<close>
definition next_sweep :: "Withdrawal list \<Rightarrow> BeaconState \<Rightarrow> ValidatorIndex result outcome" where
  "next_sweep expectedWithdrawals s =
    (let n = of_int (NumValidators s) :: u64
     in if of_nat (length expectedWithdrawals) < MaxWithdrawalsPerPayload then
          (case NextWithdrawalValidatorIndex s of
             (_, Some err) \<Rightarrow> Ret (0, Some (Wrap ''could not get next withdrawal validator index'' err))
           | (nextValidatorIndex, None) \<Rightarrow> if n = 0 then Panic else Ret ((nextValidatorIndex + MaxValidatorsPerWithdrawalsSweep) mod n, None))
        else let nextValidatorIndex = wd_ValidatorIndex (last expectedWithdrawals) + 1
             in Ret (if nextValidatorIndex = n then 0 else nextValidatorIndex, None))"

definition ProcessWithdrawals ::
  "(Withdrawal list \<Rightarrow> u8 list result) \<Rightarrow> payload_withdrawals \<Rightarrow> BeaconState \<Rightarrow> (BeaconState \<times> go_error option) outcome" where
  "ProcessWithdrawals sliceRoot executionData s = obind (ExpectedWithdrawals s) (\<lambda>r. case r of
     (_, Some err) \<Rightarrow> Ret (s, Some (Wrap ''could not get expected withdrawals'' err))
   | (expectedWithdrawals, None) \<Rightarrow> (case withdrawals_root sliceRoot executionData of
       (_, Some err) \<Rightarrow> Ret (s, Some err)
     | (wdRoot, None) \<Rightarrow> (case sliceRoot expectedWithdrawals of
         (_, Some err) \<Rightarrow> Ret (s, Some (Wrap ''could not get expected withdrawals root'' err))
       | (expectedRoot, None) \<Rightarrow>
           if expectedRoot \<noteq> wdRoot then Ret (s, Some (Fresh ''expected withdrawals root''))
           else case decrease_loop expectedWithdrawals s of
             (s, Some err) \<Rightarrow> Ret (s, Some err)
           | (s, None) \<Rightarrow> (case (if length expectedWithdrawals > 0 then SetNextWithdrawalIndex (wd_Index (last expectedWithdrawals) + 1) s else (s, None)) of
               (s, Some err) \<Rightarrow> Ret (s, Some (Wrap ''could not set next withdrawal index'' err))
             | (s, None) \<Rightarrow> obind (next_sweep expectedWithdrawals s) (\<lambda>r. case r of
                 (_, Some err) \<Rightarrow> Ret (s, Some err)
               | (nextValidatorIndex, None) \<Rightarrow> (case SetNextWithdrawalValidatorIndex nextValidatorIndex s of
                   (s, Some err) \<Rightarrow> Ret (s, Some (Wrap ''could not set next withdrawal validator index'' err))
                 | (s, None) \<Rightarrow> Ret (s, None)))))))"

subsection \<open>Changes of credentials\<close>

definition executionToBLSPadding :: nat where "executionToBLSPadding = 12"
definition errNilSignedWithdrawalMessage :: go_error where "errNilSignedWithdrawalMessage = Sentinel ''nil SignedBLSToExecutionChange message''"
definition errNilWithdrawalMessage :: go_error where "errNilWithdrawalMessage = Sentinel ''nil BLSToExecutionChange message''"
definition errInvalidBLSPrefix :: go_error where "errInvalidBLSPrefix = Sentinel ''withdrawal credential prefix is not a BLS prefix''"
definition errInvalidWithdrawalCredentials :: go_error where "errInvalidWithdrawalCredentials = Sentinel ''withdrawal credentials do not match''"

record BLSToExecutionChange =
  bc_ValidatorIndex :: ValidatorIndex
  bc_FromBlsPubkey :: "u8 list"
  bc_ToExecutionAddress :: "u8 list"

text \<open>A signed change is an optional message in an optional envelope. Empty credentials panic.\<close>
definition ValidateBLSToExecutionChange ::
  "(u8 list \<Rightarrow> u8 list) \<Rightarrow> BeaconState \<Rightarrow> BLSToExecutionChange option option \<Rightarrow> Validator option result outcome" where
  "ValidateBLSToExecutionChange hash st signedChange = (case signedChange of
     None \<Rightarrow> Ret (None, Some errNilSignedWithdrawalMessage)
   | Some None \<Rightarrow> Ret (None, Some errNilWithdrawalMessage)
   | Some (Some message) \<Rightarrow> (case ValidatorAtIndex st (bc_ValidatorIndex message) of
       (Some val, None) \<Rightarrow>
         let cred = v_WithdrawalCredentials val
         in if cred = [] then Panic
            else if cred ! 0 \<noteq> BLSWithdrawalPrefixByte then Ret (None, Some errInvalidBLSPrefix)
            else if drop 1 (hash (bc_FromBlsPubkey message)) \<noteq> drop 1 cred then Ret (None, Some errInvalidWithdrawalCredentials)
            else Ret (Some val, None)
     | (_, Some err) \<Rightarrow> Ret (None, Some err)
     | (None, None) \<Rightarrow> Panic))"

definition processBLSToExecutionChange ::
  "(u8 list \<Rightarrow> u8 list) \<Rightarrow> BLSToExecutionChange option option \<Rightarrow> BeaconState \<Rightarrow> (BeaconState \<times> go_error option) outcome" where
  "processBLSToExecutionChange hash signedChange st = obind (ValidateBLSToExecutionChange hash st signedChange) (\<lambda>r. case r of
     (_, Some err) \<Rightarrow> Ret (st, Some err)
   | (Some val, None) \<Rightarrow> (case signedChange of
       Some (Some message) \<Rightarrow>
         let newCredentials = (replicate executionToBLSPadding 0)[0 := ETH1AddressWithdrawalPrefixByte]
         in Ret (UpdateValidatorAtIndex (bc_ValidatorIndex message)
              (val\<lparr>v_WithdrawalCredentials := newCredentials @ bc_ToExecutionAddress message\<rparr>) st)
     | _ \<Rightarrow> Panic)
   | (None, None) \<Rightarrow> Panic)"

fun changes_loop :: "(u8 list \<Rightarrow> u8 list) \<Rightarrow> BLSToExecutionChange option option list \<Rightarrow> BeaconState \<Rightarrow> (BeaconState \<times> go_error option) outcome" where
  "changes_loop hash [] st = Ret (st, None)"
| "changes_loop hash (change # changes) st = obind (processBLSToExecutionChange hash change st) (\<lambda>r. case r of
     (st, Some err) \<Rightarrow> Ret (st, Some (Wrap ''could not process BLSToExecutionChange'' err))
   | (st, None) \<Rightarrow> changes_loop hash changes st)"

text \<open>The version of the block and what its body answers are arguments.\<close>
definition ProcessBLSToExecutionChanges ::
  "(u8 list \<Rightarrow> u8 list) \<Rightarrow> int \<Rightarrow> BLSToExecutionChange option option list result \<Rightarrow> BeaconState \<Rightarrow> (BeaconState \<times> go_error option) outcome" where
  "ProcessBLSToExecutionChanges hash blockVersion changes st =
    (if blockVersion < Capella then Ret (st, None)
     else case changes of
       (_, Some err) \<Rightarrow> Ret (st, Some (Wrap ''could not get BLSToExecutionChanges'' err))
     | (changes, None) \<Rightarrow> if length changes = 0 then Ret (st, None) else changes_loop hash changes st)"

subsection \<open>The sweep of the specification\<close>

text \<open>What is due to validator \<open>i\<close>: its index, its address and the amount.\<close>
definition due :: "BeaconState \<Rightarrow> Epoch \<Rightarrow> nat \<Rightarrow> (ValidatorIndex \<times> u8 list \<times> u64) option" where
  "due s e i =
    (let v = vals s ! i; b = bals s ! i; addr = drop 12 (v_WithdrawalCredentials v)
     in if \<not> hasETH1WithdrawalCredential v then None
        else if b > 0 \<and> v_WithdrawableEpoch v \<le> e then Some (of_nat i, addr, b)
        else if v_EffectiveBalance v = MaxEffectiveBalance \<and> b > MaxEffectiveBalance then Some (of_nat i, addr, b - MaxEffectiveBalance)
        else None)"

text \<open>The validators of a sweep that begins at \<open>k\<close> and visits \<open>n\<close> of them, round the end of the registry.\<close>
definition sweep :: "BeaconState \<Rightarrow> nat \<Rightarrow> nat \<Rightarrow> nat list" where
  "sweep s k n = map (\<lambda>j. (k + j) mod length (vals s)) [0..<n]"

fun numbered :: "u64 \<Rightarrow> (ValidatorIndex \<times> u8 list \<times> u64) list \<Rightarrow> Withdrawal list" where
  "numbered wi [] = []"
| "numbered wi ((i, a, m) # xs) = \<lparr>wd_Index = wi, wd_ValidatorIndex = i, wd_Address = a, wd_Amount = m\<rparr> # numbered (wi + 1) xs"

text \<open>A state whose withdrawals can be computed: balances and long enough credentials for every validator, and a sweep that begins inside the registry.\<close>
definition sweepable :: "BeaconState \<Rightarrow> bool" where
  "sweepable s \<longleftrightarrow> Capella \<le> bs_version s \<and> bs_validators s \<noteq> None \<and> map_option length (bs_balances s) = Some (length (vals s))
     \<and> length (vals s) < 2 ^ 64 \<and> unat (bs_nextWithdrawalValidatorIndex s) < length (vals s)
     \<and> (\<forall>v \<in> set (vals s). hasETH1WithdrawalCredential v \<longrightarrow> 12 \<le> length (v_WithdrawalCredentials v))"

definition spec_withdrawals :: "BeaconState \<Rightarrow> Withdrawal list" where
  "spec_withdrawals s = numbered (bs_nextWithdrawalIndex s)
     (take 16 (List.map_filter (due s (CurrentEpoch s)) (sweep s (unat (bs_nextWithdrawalValidatorIndex s)) (min (length (vals s)) 16384))))"

lemma sweep_Suc: "sweep s k (Suc n) = k mod length (vals s) # sweep s (Suc k mod length (vals s)) n"
  by (simp add: sweep_def upt_conv_Cons map_Suc_upt [symmetric] mod_simps del: upt_Suc)

lemma sweep_distinct: "n \<le> length (vals s) \<Longrightarrow> distinct (sweep s k n)"
proof -
  assume "n \<le> length (vals s)"
  moreover have "(k + i) mod N \<noteq> (k + j) mod N" if "i < j" "j < N" for i j N :: nat
  proof
    assume "(k + i) mod N = (k + j) mod N"
    then have "N dvd j - i" using that by (metis add_diff_cancel_left less_imp_le mod_eq_dvd_iff_nat add_le_cancel_left)
    then show False using that by (auto dest: dvd_imp_le)
  qed
  ultimately show ?thesis unfolding sweep_def distinct_map inj_on_def
    by (auto simp: less_le_trans) (metis less_le_trans linorder_neqE_nat)
qed

lemma withdrawal_of_due:
  assumes "sweepable s" "i < length (vals s)"
  shows "withdrawal_of e (vals s ! i) (bals s ! i) (of_nat i) wi
    = Ret (map_option (\<lambda>(i, a, m). \<lparr>wd_Index = wi, wd_ValidatorIndex = i, wd_Address = a, wd_Amount = m\<rparr>) (due s e i))"
proof -
  have "hasETH1WithdrawalCredential (vals s ! i) \<longrightarrow> \<not> length (v_WithdrawalCredentials (vals s ! i)) < 12"
    using assms by (auto simp: sweepable_def not_less)
  then show ?thesis
    by (auto simp: withdrawal_of_def due_def isFullyWithdrawableValidator_def isPartiallyWithdrawableValidator_def ETH1AddressOffset_def Let_def)
qed

lemma sweepable_lookup:
  assumes "sweepable s" "i < length (vals s)"
  shows "validatorAtIndex s (of_nat i) = (Some (vals s ! i), None)" "balanceAtIndex s (of_nat i) = (bals s ! i, None)"
proof -
  have u: "unat (of_nat i :: u64) = i" using assms by (simp add: sweepable_def unat_of_nat)
  obtain vs bs where "bs_validators s = Some vs" "bs_balances s = Some bs" "length bs = length vs"
    using assms(1) by (auto simp: sweepable_def vals_def split: option.splits)
  then show "validatorAtIndex s (of_nat i) = (Some (vals s ! i), None)" "balanceAtIndex s (of_nat i) = (bals s ! i, None)"
    using assms(2) u by (simp_all add: validatorAtIndex_def balanceAtIndex_def vals_def bals_def out_of_range_def)
qed

lemma withdrawals_loop_eq:
  assumes "sweepable s"
  shows "k < length (vals s) \<Longrightarrow> length ws < 16 \<Longrightarrow> withdrawals_loop s e n (of_nat k) wi ws
    = Ret (ws @ numbered wi (take (16 - length ws) (List.map_filter (due s e) (sweep s k n))), None)"
proof (induction n arbitrary: k wi ws)
  case 0
  then show ?case by (simp add: sweep_def)
next
  case (Suc n)
  let ?N = "length (vals s)" and ?k = "Suc k mod length (vals s)"
  have small: "of_nat (length ys) = MaxWithdrawalsPerPayload \<longleftrightarrow> length ys = 16" if "length ys \<le> 16" for ys :: "Withdrawal list"
    using that by (simp add: withdrawal_params word_unat_eq_iff unat_of_nat)
  have step: "(if (of_nat k :: u64) + 1 = of_nat ?N then 0 else of_nat k + 1) = (of_nat ?k :: u64)"
  proof (cases "Suc k = ?N")
    case False
    then have "Suc k < ?N" using Suc.prems by simp
    then have "(of_nat (Suc k) :: u64) \<noteq> of_nat ?N" using assms by (simp add: sweepable_def word_unat_eq_iff unat_of_nat del: of_nat_Suc)
    then show ?thesis using \<open>Suc k < ?N\<close> by (simp add: add.commute)
  qed (simp add: add.commute flip: of_nat_Suc)
  have k: "?k < ?N" by (rule mod_less_divisor) (use Suc.prems in linarith)
  show ?case
  proof (cases "due s e k")
    case None
    then show ?thesis using Suc.prems Suc.IH [OF k, of ws wi] sweepable_lookup [OF assms Suc.prems(1)] withdrawal_of_due [OF assms Suc.prems(1), of e wi]
      by (simp add: step small sweep_Suc Let_def)
  next
    case (Some x)
    obtain i a m where x: "x = (i, a, m)" by (metis prod.exhaust)
    let ?w = "\<lparr>wd_Index = wi, wd_ValidatorIndex = i, wd_Address = a, wd_Amount = m\<rparr>"
    note l = sweepable_lookup [OF assms Suc.prems(1)] withdrawal_of_due [OF assms Suc.prems(1), of e wi]
    show ?thesis
    proof (cases "length ws = 15")
      case True
      then show ?thesis using Suc.prems l Some x small [of "ws @ [?w]"] by (simp add: sweep_Suc Let_def)
    next
      case False
      then have "length (ws @ [?w]) < 16" using Suc.prems by simp
      moreover obtain q where "16 - length ws = Suc q" "16 - length (ws @ [?w]) = q" using Suc.prems by (cases "16 - length ws") auto
      ultimately show ?thesis using Suc.prems l Some x False Suc.IH [OF k, of "ws @ [?w]" "wi + 1"] small [of "ws @ [?w]"]
        by (simp add: step sweep_Suc Let_def)
    qed
  qed
qed

subsection \<open>What a withdrawal does to the balances\<close>

lemma numbered_indices: "map wd_ValidatorIndex (numbered wi xs) = map fst xs" "map wd_Amount (numbered wi xs) = map (snd \<circ> snd) xs"
  "length (numbered wi xs) = length xs"
  by (induction wi xs rule: numbered.induct) auto

lemma numbered_last: "xs \<noteq> [] \<Longrightarrow> wd_Index (last (numbered wi xs)) + 1 = wi + of_nat (length xs)"
proof (induction wi xs rule: numbered.induct)
  case (2 wi i a m xs)
  show ?case
  proof (cases xs)
    case (Cons y ys)
    then have "numbered (wi + 1) xs \<noteq> []" using numbered_indices(3) [of "wi + 1" xs] by auto
    then show ?thesis using 2 Cons by (simp add: add.assoc)
  qed simp
qed simp

lemma map_fst_due: "map fst (List.map_filter (due s e) is) = map of_nat (filter (\<lambda>i. due s e i \<noteq> None) is)"
  by (induction "is") (auto simp: due_def Let_def)

text \<open>What is due never exceeds the balance, and leaves nothing or the maximal effective balance.\<close>
lemma due_amount: "due s e i = Some (j, a, m) \<Longrightarrow> m \<le> bals s ! i \<and> bals s ! i - m \<in> {0, MaxEffectiveBalance} \<and> j = of_nat i"
  by (auto simp: due_def Let_def word_le_nat_alt unat_sub word_less_nat_alt split: if_splits)

lemma spec_withdrawals_props:
  assumes "sweepable s" "w \<in> set (spec_withdrawals s)"
  shows "unat (wd_ValidatorIndex w) < length (vals s) \<and> wd_Amount w \<le> bals s ! unat (wd_ValidatorIndex w)
    \<and> bals s ! unat (wd_ValidatorIndex w) - wd_Amount w \<in> {0, MaxEffectiveBalance}"
proof -
  let ?k = "unat (bs_nextWithdrawalValidatorIndex s)" and ?n = "min (length (vals s)) 16384" and ?e = "CurrentEpoch s"
  let ?L = "List.map_filter (due s ?e) (sweep s ?k ?n)"
  have "(wd_ValidatorIndex w, wd_Amount w) \<in> set (map (\<lambda>w. (wd_ValidatorIndex w, wd_Amount w)) (numbered wi xs)) \<Longrightarrow> \<exists>a. (wd_ValidatorIndex w, a, wd_Amount w) \<in> set xs" for wi xs
    by (induction wi xs rule: numbered.induct) auto
  then obtain a where "(wd_ValidatorIndex w, a, wd_Amount w) \<in> set ?L"
    using assms(2) by (fastforce simp: spec_withdrawals_def dest: in_set_takeD)
  then obtain i where i: "i \<in> set (sweep s ?k ?n)" "due s ?e i = Some (wd_ValidatorIndex w, a, wd_Amount w)"
    by (auto simp: map_filter_def)
  have "0 < length (vals s)" "length (vals s) < 2 ^ 64" using assms(1) by (auto simp: sweepable_def)
  moreover then have "i < length (vals s)" using i(1) by (auto simp: sweep_def)
  ultimately show ?thesis using due_amount [OF i(2)] by (simp add: unat_of_nat)
qed

lemma spec_withdrawals_distinct:
  assumes "sweepable s"
  shows "distinct (map wd_ValidatorIndex (spec_withdrawals s))" "length (spec_withdrawals s) \<le> 16"
proof -
  let ?S = "sweep s (unat (bs_nextWithdrawalValidatorIndex s)) (min (length (vals s)) 16384)"
  have "0 < length (vals s)" using assms by (auto simp: sweepable_def)
  then have "i < length (vals s)" if "i \<in> set ?S" for i using that by (auto simp: sweep_def)
  moreover have "length (vals s) < 2 ^ 64" using assms by (simp add: sweepable_def)
  ultimately have u: "unat (of_nat i :: u64) = i" if "i \<in> set ?S" for i using that by (force simp: unat_of_nat)
  have "inj_on (of_nat :: nat \<Rightarrow> u64) (set ?S)" by (rule inj_on_inverseI [where g = unat]) (rule u)
  then have "distinct (map (of_nat :: nat \<Rightarrow> u64) (filter P ?S))" for P
    using sweep_distinct [of "min (length (vals s)) 16384" s] by (auto simp: distinct_map intro: inj_on_subset)
  then show "distinct (map wd_ValidatorIndex (spec_withdrawals s))"
    by (simp add: spec_withdrawals_def numbered_indices take_map [symmetric] map_fst_due distinct_take)
  show "length (spec_withdrawals s) \<le> 16" by (simp add: spec_withdrawals_def numbered_indices(3))
qed

lemma decrease_loop_eq:
  assumes "distinct (map wd_ValidatorIndex ws)" "\<forall>w \<in> set ws. unat (wd_ValidatorIndex w) < length bs \<and> wd_Amount w \<le> bs ! unat (wd_ValidatorIndex w)"
    "bs_balances s = Some bs"
  shows "\<exists>bs'. decrease_loop ws s = (s\<lparr>bs_balances := Some bs'\<rparr>, None) \<and> length bs' = length bs
    \<and> (\<forall>w \<in> set ws. bs' ! unat (wd_ValidatorIndex w) = bs ! unat (wd_ValidatorIndex w) - wd_Amount w)
    \<and> (\<forall>i < length bs. i \<notin> (\<lambda>w. unat (wd_ValidatorIndex w)) ` set ws \<longrightarrow> bs' ! i = bs ! i)
    \<and> sum_list (map unat bs') + (\<Sum>w\<leftarrow>ws. unat (wd_Amount w)) = sum_list (map unat bs)"
  using assms
proof (induction ws arbitrary: bs s)
  case Nil
  then show ?case by (auto intro!: exI [of _ bs])
next
  case (Cons w ws)
  let ?i = "unat (wd_ValidatorIndex w)"
  let ?b = "bs[?i := bs ! ?i - wd_Amount w]"
  have i: "?i < length bs" "wd_Amount w \<le> bs ! ?i" using Cons.prems by simp_all
  have d: "DecreaseBalance (wd_ValidatorIndex w) (wd_Amount w) s = (s\<lparr>bs_balances := Some ?b\<rparr>, None)"
    using DecreaseBalance_ok [OF Cons.prems(3)] i by (auto simp: DecreaseBalanceWithVal_def not_less)
  have ne: "unat (wd_ValidatorIndex x) \<noteq> ?i" if "x \<in> set ws" for x using Cons.prems(1) that by (auto simp: image_iff simp flip: word_unat_eq_iff)
  have "\<forall>w \<in> set ws. unat (wd_ValidatorIndex w) < length ?b \<and> wd_Amount w \<le> ?b ! unat (wd_ValidatorIndex w)"
    using Cons.prems(2) ne [symmetric] by simp
  moreover have "distinct (map wd_ValidatorIndex ws)" using Cons.prems(1) by simp
  ultimately have "\<exists>bs'. decrease_loop ws (s\<lparr>bs_balances := Some ?b\<rparr>) = (s\<lparr>bs_balances := Some bs'\<rparr>, None) \<and> length bs' = length bs
    \<and> (\<forall>w \<in> set ws. bs' ! unat (wd_ValidatorIndex w) = ?b ! unat (wd_ValidatorIndex w) - wd_Amount w)
    \<and> (\<forall>i < length bs. i \<notin> (\<lambda>w. unat (wd_ValidatorIndex w)) ` set ws \<longrightarrow> bs' ! i = ?b ! i)
    \<and> sum_list (map unat bs') + (\<Sum>w\<leftarrow>ws. unat (wd_Amount w)) = sum_list (map unat ?b)"
    using Cons.IH [of ?b "s\<lparr>bs_balances := Some ?b\<rparr>"] by simp
  then obtain bs' where b: "decrease_loop ws (s\<lparr>bs_balances := Some ?b\<rparr>) = (s\<lparr>bs_balances := Some bs'\<rparr>, None)" "length bs' = length bs"
    "\<forall>w \<in> set ws. bs' ! unat (wd_ValidatorIndex w) = ?b ! unat (wd_ValidatorIndex w) - wd_Amount w"
    "\<forall>i < length bs. i \<notin> (\<lambda>w. unat (wd_ValidatorIndex w)) ` set ws \<longrightarrow> bs' ! i = ?b ! i"
    "sum_list (map unat bs') + (\<Sum>w\<leftarrow>ws. unat (wd_Amount w)) = sum_list (map unat ?b)"
    by blast
  have "sum_list (map unat ?b) + unat (wd_Amount w) = sum_list (map unat bs)"
    using i sum_list_update [of ?i "map unat bs" "unat (bs ! ?i - wd_Amount w)"] elem_le_sum_list [of ?i "map unat bs"]
    by (simp add: map_update unat_sub word_le_nat_alt)
  moreover have "bs' ! ?i = bs ! ?i - wd_Amount w" using b(4) [rule_format, OF i(1)] i ne [symmetric] by (auto simp: image_iff)
  moreover have "bs' ! j = bs ! j" if "j < length bs" "j \<notin> (\<lambda>w. unat (wd_ValidatorIndex w)) ` set (w # ws)" for j using b(4) that by auto
  ultimately show ?case using d b(1,2,3,5) ne [symmetric] by (intro exI [of _ bs']) simp
qed

lemma ExpectedWithdrawals_eq:
  assumes "sweepable s"
  shows "ExpectedWithdrawals s = Ret (spec_withdrawals s, None)"
proof -
  let ?k = "unat (bs_nextWithdrawalValidatorIndex s)"
  have k: "?k < length (vals s)" and c: "\<not> bs_version s < Capella" and l: "length (vals s) < 2 ^ 64" using assms by (simp_all add: sweepable_def)
  have n: "unat (math_Min (of_nat (length (vals s))) MaxValidatorsPerWithdrawalsSweep) = min (length (vals s)) 16384"
    using l by (auto simp: math_Min_def withdrawal_params word_less_nat_alt unat_of_nat min_def)
  have e: "ToEpoch (bs_slot s) = Ret (CurrentEpoch s)" by (simp add: ToEpoch_def Slot_DivSlot_def CurrentEpoch_def SlotsPerEpoch_def)
  show ?thesis using withdrawals_loop_eq [OF assms k, of "[]" "CurrentEpoch s" "min (length (vals s)) 16384" "bs_nextWithdrawalIndex s"]
    by (simp add: ExpectedWithdrawals_def c e n spec_withdrawals_def Let_def CurrentEpoch_def SlotsPerEpoch_def)
qed

text \<open>
  (C21) The withdrawals that a state expects are those of the specification: \<^verbatim>\<open>ExpectedWithdrawals\<close> neither fails nor panics on a state since Capella whose credentials are long
  enough, and returns what is due to the first 16 validators, in the order of a sweep of at most 16384 validators that begins at the state's next validator and wraps
  round the end of the registry, numbered from the state's next index.
\<close>
theorem expected_withdrawals_spec:
  assumes "sweepable s"
  shows "ExpectedWithdrawals s = Ret (spec_withdrawals s, None)"
  by (rule ExpectedWithdrawals_eq [OF assms])

text \<open>
  Where the next sweep has to begin: behind the last withdrawal of a full payload, otherwise behind the \<^verbatim>\<open>MAX_VALIDATORS_PER_WITHDRAWALS_SWEEP\<close>
  validators of this sweep, counted round the registry.
\<close>
definition spec_next_sweep :: "BeaconState \<Rightarrow> nat" where
  "spec_next_sweep s =
    (if length (spec_withdrawals s) = 16 then Suc (unat (wd_ValidatorIndex (last (spec_withdrawals s))))
     else unat (bs_nextWithdrawalValidatorIndex s) + 16384) mod length (vals s)"

lemma next_sweep_eq:
  assumes "sweepable s" "length (vals s) \<le> 2 ^ 40" "vals t = vals s" "bs_nextWithdrawalValidatorIndex t = bs_nextWithdrawalValidatorIndex s"
    "next_sweep (spec_withdrawals s) t = Ret (i, None)"
  shows "unat i = spec_next_sweep s"
proof -
  let ?N = "length (vals s)" and ?ws = "spec_withdrawals s"
  have N: "?N < 2 ^ 64" "0 < ?N" "unat (bs_nextWithdrawalValidatorIndex s) < ?N" using assms(1) by (auto simp: sweepable_def)
  have n: "unat (of_nat ?N :: u64) = ?N" using N by (simp add: unat_of_nat)
  have le: "length ?ws \<le> 16" by (rule spec_withdrawals_distinct(2) [OF assms(1)])
  have lim: "of_nat (length ?ws) < MaxWithdrawalsPerPayload \<longleftrightarrow> length ?ws < 16"
    using le by (simp add: withdrawal_params word_less_nat_alt unat_of_nat)
  show ?thesis
  proof (cases "length ?ws < 16")
    case True
    have u: "unat (bs_nextWithdrawalValidatorIndex s + 16384) = unat (bs_nextWithdrawalValidatorIndex s) + 16384"
      using N(3) assms(2) by (subst unat_add_no_wrap) simp_all
    show ?thesis using True assms(3-5) lim n N u
      by (auto simp: next_sweep_def NumValidators_def NextWithdrawalValidatorIndex_def Let_def unat_mod spec_next_sweep_def withdrawal_params split: if_splits)
  next
    case False
    then have full: "length ?ws = 16" using le by simp
    then have "?ws \<noteq> []" by auto
    then have l: "unat (wd_ValidatorIndex (last ?ws)) < ?N" using spec_withdrawals_props [OF assms(1), of "last ?ws"] by simp
    have u: "unat (wd_ValidatorIndex (last ?ws) + 1) = Suc (unat (wd_ValidatorIndex (last ?ws)))"
      using l N unat_add_no_wrap [of "wd_ValidatorIndex (last ?ws)" 1] by simp
    have "i = (if wd_ValidatorIndex (last ?ws) + 1 = of_nat ?N then 0 else wd_ValidatorIndex (last ?ws) + 1)"
      using assms(3,5) False lim by (simp add: next_sweep_def NumValidators_def Let_def split: if_splits)
    then show ?thesis using full l u n by (auto simp: spec_next_sweep_def word_unat_eq_iff)
  qed
qed

text \<open>
  (C20) Withdrawals conserve balances: when \<^verbatim>\<open>ProcessWithdrawals\<close> succeeds, the sum of all balances has gone down by exactly the sum of the withdrawn amounts, each
  validator that withdraws does so once and keeps nothing or the maximal effective balance, every other balance and the registry are as before, the next index has
  advanced by the number of withdrawals, and the next sweep begins where it has to: behind the last withdrawal of a full payload, otherwise behind the validators of
  this sweep, round the registry, which is assumed to be at most \<^verbatim>\<open>VALIDATOR_REGISTRY_LIMIT\<close> long.
\<close>
theorem withdrawals_conserve:
  assumes "sweepable s" "length (vals s) \<le> 2 ^ 40" "ProcessWithdrawals sliceRoot payload s = Ret (t, None)"
  shows "sum_list (map unat (bals t)) + (\<Sum>w\<leftarrow>spec_withdrawals s. unat (wd_Amount w)) = sum_list (map unat (bals s))
    \<and> distinct (map wd_ValidatorIndex (spec_withdrawals s)) \<and> length (bals t) = length (bals s) \<and> vals t = vals s
    \<and> (\<forall>w \<in> set (spec_withdrawals s). bals t ! unat (wd_ValidatorIndex w) \<in> {0, MaxEffectiveBalance})
    \<and> (\<forall>i < length (bals s). i \<notin> (\<lambda>w. unat (wd_ValidatorIndex w)) ` set (spec_withdrawals s) \<longrightarrow> bals t ! i = bals s ! i)
    \<and> bs_nextWithdrawalIndex t = bs_nextWithdrawalIndex s + of_nat (length (spec_withdrawals s))
    \<and> unat (bs_nextWithdrawalValidatorIndex t) = spec_next_sweep s"
proof -
  let ?ws = "spec_withdrawals s"
  obtain bs where bs: "bs_balances s = Some bs" "bals s = bs" "length bs = length (vals s)" using assms(1) by (auto simp: sweepable_def bals_def)
  note p = spec_withdrawals_props [OF assms(1)] and d = spec_withdrawals_distinct [OF assms(1)]
  obtain bs' where b: "decrease_loop ?ws s = (s\<lparr>bs_balances := Some bs'\<rparr>, None)" "length bs' = length bs"
    "\<forall>w \<in> set ?ws. bs' ! unat (wd_ValidatorIndex w) = bs ! unat (wd_ValidatorIndex w) - wd_Amount w"
    "\<forall>i < length bs. i \<notin> (\<lambda>w. unat (wd_ValidatorIndex w)) ` set ?ws \<longrightarrow> bs' ! i = bs ! i"
    "sum_list (map unat bs') + (\<Sum>w\<leftarrow>?ws. unat (wd_Amount w)) = sum_list (map unat bs)"
    using decrease_loop_eq [OF d(1) _ bs(1)] p bs by (metis (no_types, lifting))
  let ?u = "s\<lparr>bs_balances := Some bs', bs_nextWithdrawalIndex := bs_nextWithdrawalIndex s + of_nat (length ?ws)\<rparr>"
  have last: "wd_Index (last ?ws) + 1 = bs_nextWithdrawalIndex s + of_nat (length ?ws)" if "?ws \<noteq> []"
    using that numbered_last unfolding spec_withdrawals_def by (metis numbered.simps(1) numbered_indices(3))
  have c: "\<not> bs_version s < Capella" using assms(1) by (simp add: sweepable_def)
  have set: "(if length ?ws > 0 then SetNextWithdrawalIndex (wd_Index (last ?ws) + 1) (s\<lparr>bs_balances := Some bs'\<rparr>) else (s\<lparr>bs_balances := Some bs'\<rparr>, None)) = (?u, None)"
    using last c by (auto simp: SetNextWithdrawalIndex_def)
  obtain i where i: "next_sweep ?ws ?u = Ret (i, None)" "t = ?u\<lparr>bs_nextWithdrawalValidatorIndex := i\<rparr>"
  proof -
    obtain x xe where x: "withdrawals_root sliceRoot payload = (x, xe)" by fastforce
    obtain y ye where y: "sliceRoot ?ws = (y, ye)" by fastforce
    have "obind (next_sweep ?ws ?u) (\<lambda>r. case r of (_, Some err) \<Rightarrow> Ret (?u, Some err)
        | (j, None) \<Rightarrow> (case SetNextWithdrawalValidatorIndex j ?u of (s, Some err) \<Rightarrow> Ret (s, Some (Wrap ''could not set next withdrawal validator index'' err)) | (s, None) \<Rightarrow> Ret (s, None)))
      = Ret (t, None)"
      using assms(3) unfolding ProcessWithdrawals_def ExpectedWithdrawals_eq [OF assms(1)] obind.simps prod.case option.case x y b(1) set
      by (cases xe; cases ye; cases "y = x") simp_all
    then obtain r where "next_sweep ?ws ?u = Ret r" "(case r of (_, Some err) \<Rightarrow> Ret (?u, Some err) | (j, None) \<Rightarrow> Ret (?u\<lparr>bs_nextWithdrawalValidatorIndex := j\<rparr>, None)) = Ret (t, None)"
      using c by (auto simp: obind_Ret_iff SetNextWithdrawalValidatorIndex_def)
    then show thesis using that by (cases r; cases "snd r") auto
  qed
  have v: "vals ?u = vals s" "vals t = vals s" "bals t = bs'" by (simp_all add: vals_def bals_def i(2))
  have "unat i = spec_next_sweep s" using next_sweep_eq [OF assms(1,2) v(1) _ i(1)] by simp
  moreover have "\<forall>w \<in> set ?ws. bs' ! unat (wd_ValidatorIndex w) \<in> {0, MaxEffectiveBalance}" using b(3) p bs(2) by metis
  moreover have "bs_nextWithdrawalIndex t = bs_nextWithdrawalIndex s + of_nat (length ?ws)" "bs_nextWithdrawalValidatorIndex t = i" by (simp_all add: i(2))
  ultimately show ?thesis using v b(2,4,5) bs(2) d(1) by simp
qed

text \<open>
  (C22) Credentials change once: a change that \<^verbatim>\<open>processBLSToExecutionChange\<close> accepts names a validator whose credentials begin with the prefix for a BLS key and agree with
  the hash of the key in the message, replaces exactly these credentials by the address with the other prefix, and from then on every change for this validator is
  refused because of the prefix and leaves the state as it is.
\<close>
theorem credentials_change_once:
  assumes "processBLSToExecutionChange hash (Some (Some m)) st = Ret (st', None)"
  shows "let i = unat (bc_ValidatorIndex m); v = vals st ! i
    in i < length (vals st) \<and> v_WithdrawalCredentials v = BLSWithdrawalPrefixByte # drop 1 (hash (bc_FromBlsPubkey m))
      \<and> st' = st\<lparr>bs_validators := Some ((vals st)[i := v\<lparr>v_WithdrawalCredentials := ETH1AddressWithdrawalPrefixByte # replicate 11 0 @ bc_ToExecutionAddress m\<rparr>])\<rparr>
      \<and> (\<forall>m'. bc_ValidatorIndex m' = bc_ValidatorIndex m \<longrightarrow> processBLSToExecutionChange hash (Some (Some m')) st' = Ret (st', Some errInvalidBLSPrefix))"
proof -
  let ?i = "unat (bc_ValidatorIndex m)" and ?v = "vals st ! unat (bc_ValidatorIndex m)"
  let ?w = "?v\<lparr>v_WithdrawalCredentials := ETH1AddressWithdrawalPrefixByte # replicate 11 0 @ bc_ToExecutionAddress m\<rparr>"
  have new: "(replicate executionToBLSPadding 0)[0 := ETH1AddressWithdrawalPrefixByte] = ETH1AddressWithdrawalPrefixByte # replicate 11 0"
    by (simp add: executionToBLSPadding_def numeral_eq_Suc)
  obtain vs where vs: "bs_validators st = Some vs"
    using assms by (cases "bs_validators st") (auto simp: processBLSToExecutionChange_def ValidateBLSToExecutionChange_def ValidatorAtIndex_def validatorAtIndex_def zero_validator_def)
  then have V: "vals st = vs" by (simp add: vals_def)
  have i: "?i < length vs"
    using assms by (cases "out_of_range vs (bc_ValidatorIndex m)")
      (auto simp: processBLSToExecutionChange_def ValidateBLSToExecutionChange_def ValidatorAtIndex_def validatorAtIndex_def vs out_of_range_def)
  then have at: "ValidatorAtIndex st (bc_ValidatorIndex m) = (Some ?v, None)"
    by (simp add: ValidatorAtIndex_def validatorAtIndex_def vs V out_of_range_def)
  obtain b cs where cred: "v_WithdrawalCredentials ?v = b # cs" "b = BLSWithdrawalPrefixByte" "cs = drop 1 (hash (bc_FromBlsPubkey m))"
    using assms by (cases "v_WithdrawalCredentials ?v")
      (auto simp: processBLSToExecutionChange_def ValidateBLSToExecutionChange_def at Let_def split: if_splits)
  have st': "st' = st\<lparr>bs_validators := Some (vs[?i := ?w])\<rparr>"
    using assms cred i by (simp add: processBLSToExecutionChange_def ValidateBLSToExecutionChange_def at new UpdateValidatorAtIndex_def out_of_range_def V not_le)
  have "ValidatorAtIndex st' (bc_ValidatorIndex m) = (Some ?w, None)"
    using i by (simp add: ValidatorAtIndex_def validatorAtIndex_def st' V out_of_range_def)
  then have "processBLSToExecutionChange hash (Some (Some m')) st' = Ret (st', Some errInvalidBLSPrefix)" if "bc_ValidatorIndex m' = bc_ValidatorIndex m" for m'
    using that by (simp add: processBLSToExecutionChange_def ValidateBLSToExecutionChange_def ETH1AddressWithdrawalPrefixByte_def BLSWithdrawalPrefixByte_def)
  then show ?thesis using i cred st' V by (simp add: Let_def)
qed

subsection \<open>A small state\<close>

text \<open>Two validators with addresses and more than the maximal effective balance; the sweep begins at the second.\<close>
definition sweep_demo :: BeaconState where
  "sweep_demo = (small_state [full_validator, full_validator] [33000000000, 40000000000])\<lparr>bs_version := Capella, bs_nextWithdrawalIndex := 5,
     bs_nextWithdrawalValidatorIndex := 1\<rparr>"

lemma sweep_demo_sweepable: "sweepable sweep_demo"
  by (simp add: sweepable_def sweep_demo_def vals_def full_validator_def)

lemma sweep_demo_withdrawals: "map (\<lambda>w. (wd_Index w, wd_ValidatorIndex w, wd_Amount w)) (spec_withdrawals sweep_demo) = [(5, 1, 8000000000), (6, 0, 1000000000)]"
proof -
  have sw: "sweep sweep_demo 1 2 = [1, 0]" by (simp add: sweep_def sweep_demo_def vals_def upt_rec)
  have "\<not> (- 1 :: u64) \<le> 10" using word_order.extremum_uniqueI [of "10 :: u64"] by auto
  then have "due sweep_demo 10 0 = Some (0, replicate 20 1, 1000000000)" "due sweep_demo 10 1 = Some (1, replicate 20 1, 8000000000)"
    by (simp_all add: Let_def due_def sweep_demo_def vals_def bals_def full_validator_def hasETH1WithdrawalCredential_def ETH1AddressWithdrawalPrefixByte_def MaxEffectiveBalance_def)
  moreover have "CurrentEpoch sweep_demo = 10" "length (vals sweep_demo) = 2" "bs_nextWithdrawalValidatorIndex sweep_demo = 1" "bs_nextWithdrawalIndex sweep_demo = 5"
    by (simp_all add: sweep_demo_def CurrentEpoch_def SlotsPerEpoch_def vals_def)
  ultimately show ?thesis using sw by (simp add: spec_withdrawals_def)
qed

theorem expected_withdrawals_spec_witness:
  "\<exists>ws. ExpectedWithdrawals sweep_demo = Ret (ws, None)
    \<and> map (\<lambda>w. (wd_Index w, wd_ValidatorIndex w, wd_Amount w)) ws = [(5, 1, 8000000000), (6, 0, 1000000000)]"
  by (intro exI conjI) (rule expected_withdrawals_spec [OF sweep_demo_sweepable], rule sweep_demo_withdrawals)

theorem withdrawals_conserve_witness:
  "\<exists>t. ProcessWithdrawals (\<lambda>_. (replicate 32 0, None)) (Full ([], None)) sweep_demo = Ret (t, None)
    \<and> sum_list (map unat (bals t)) = 64000000000 \<and> bs_nextWithdrawalIndex t = 7
    \<and> bs_nextWithdrawalValidatorIndex t = 1"
proof -
  let ?ws = "spec_withdrawals sweep_demo"
  obtain w x where ws: "?ws = [w, x]" "wd_Index w = 5" "wd_ValidatorIndex w = 1" "wd_Amount w = 8000000000" "wd_Index x = 6" "wd_ValidatorIndex x = 0" "wd_Amount x = 1000000000"
    using sweep_demo_withdrawals by (auto simp: map_eq_Cons_conv)
  obtain bs' where d: "decrease_loop ?ws sweep_demo = (sweep_demo\<lparr>bs_balances := Some bs'\<rparr>, None)"
    using decrease_loop_eq [OF spec_withdrawals_distinct(1) [OF sweep_demo_sweepable], of "bals sweep_demo" sweep_demo] spec_withdrawals_props [OF sweep_demo_sweepable]
    by (auto simp: sweep_demo_def vals_def bals_def)
  have v: "\<not> bs_version sweep_demo < Capella" "vals (sweep_demo\<lparr>bs_balances := b, bs_nextWithdrawalIndex := k\<rparr>) = demo_pair" for b k by (simp_all add: sweep_demo_def vals_def)
  have "\<exists>t. ProcessWithdrawals (\<lambda>_. (replicate 32 0, None)) (Full ([], None)) sweep_demo = Ret (t, None)"
    unfolding ProcessWithdrawals_def ExpectedWithdrawals_eq [OF sweep_demo_sweepable] obind.simps prod.case option.case d
    by (simp add: ws withdrawals_root_def SetNextWithdrawalIndex_def next_sweep_def NextWithdrawalValidatorIndex_def NumValidators_def v withdrawal_params SetNextWithdrawalValidatorIndex_def)
  then obtain t where t: "ProcessWithdrawals (\<lambda>_. (replicate 32 0, None)) (Full ([], None)) sweep_demo = Ret (t, None)" by blast
  have "bals sweep_demo = [33000000000, 40000000000]" "bs_nextWithdrawalIndex sweep_demo = 5" by (simp_all add: sweep_demo_def bals_def)
  moreover have "length (vals sweep_demo) = 2" "bs_nextWithdrawalValidatorIndex sweep_demo = 1" by (simp_all add: sweep_demo_def vals_def)
  moreover from this have "spec_next_sweep sweep_demo = unat (1 :: u64)" by (simp add: spec_next_sweep_def ws)
  ultimately show ?thesis using withdrawals_conserve [OF sweep_demo_sweepable _ t] t ws by (simp add: word_unat_eq_iff [of _ 1])
qed

theorem credentials_change_once_witness:
  "\<exists>st'. processBLSToExecutionChange id (Some (Some \<lparr>bc_ValidatorIndex = 0, bc_FromBlsPubkey = replicate 32 2, bc_ToExecutionAddress = replicate 20 9\<rparr>))
      (small_state [full_validator\<lparr>v_WithdrawalCredentials := 0 # replicate 31 2\<rparr>] [0]) = Ret (st', None)
    \<and> processBLSToExecutionChange id (Some (Some \<lparr>bc_ValidatorIndex = 0, bc_FromBlsPubkey = [], bc_ToExecutionAddress = []\<rparr>)) st' = Ret (st', Some errInvalidBLSPrefix)"
proof -
  let ?m = "\<lparr>bc_ValidatorIndex = 0, bc_FromBlsPubkey = replicate 32 2, bc_ToExecutionAddress = replicate 20 9\<rparr>"
  let ?s = "small_state [full_validator\<lparr>v_WithdrawalCredentials := 0 # replicate 31 2\<rparr>] [0]"
  obtain st' where "processBLSToExecutionChange id (Some (Some ?m)) ?s = Ret (st', None)"
    by (simp add: processBLSToExecutionChange_def ValidateBLSToExecutionChange_def ValidatorAtIndex_def validatorAtIndex_def out_of_range_def BLSWithdrawalPrefixByte_def
        UpdateValidatorAtIndex_def vals_def)
  then show ?thesis using credentials_change_once [of id ?m ?s st'] by (auto simp: Let_def)
qed

end
