(* ===== verification/Spec2Isabelle.thy ===== *)
theory Spec2Isabelle
  imports ForkHead ForkQueries ForkSync ForkPrune EpochProcessing BlockOperations PoolVotes ChainVotes EpochTransition Withdrawals
begin

text \<open>
  A verification development for the modified Prysm beacon node of this repository
  (\<^verbatim>\<open>src/modified_prysm\<close>). The node replaces the weight-based fork choice of Prysm by one based on
  available attestations: a block is \<^emph>\<open>stable\<close> when enough validators have been seen voting for its
  parent, and the head is the deepest stable leaf. Around the fork choice the development models the part
  of the consensus core that decides what the fork choice is told: slots and epochs, the validator
  registry, shuffling and committees, justification and finalization, the processing of slots and epochs with the
  upgrades at forks, and operations of blocks.

  \<^bold>\<open>The program's parts and how they interact.\<close> The fork choice keeps a tree of blocks. Blocks are inserted with
  the checkpoints of their states, attestations are recorded as votes, and \<^verbatim>\<open>Head\<close> picks a leaf; a finalized
  checkpoint prunes the tree. The checkpoints come from epoch processing, which weighs the votes
  of committees; committees are slices of the shuffled active validators, and the registry says who is active.
  All of it runs on 64-bit slots, epochs, indices and balances with checked or wrapping arithmetic.

  \<^bold>\<open>Shared vocabulary\<close> (paths below \<^verbatim>\<open>src/modified_prysm\<close>).
  \<^item> \<open>Prelude\<close>: outcomes of Go calls (a value, a panic, or no return), errors and wrapped errors, Go maps as association
    lists, reachability; locales \<open>go_map\<close> (the contract of a map) and \<open>step_invariant\<close> (invariants of a step relation).
  \<^item> \<open>GoMath\<close>: \<^verbatim>\<open>math/math_helper.go\<close>. Locale \<open>checked_arith\<close>; the cached square root is the integer square root, and the
    one cache and balance for which it panics. \<^verbatim>\<open>IntegerSquareRoot\<close>, over floating point, is left out.
  \<^item> \<open>Primitives\<close>: \<^verbatim>\<open>consensus-types/primitives\<close>. Locale \<open>panicking_arith\<close> extends \<open>checked_arith\<close>, interpreted for slots
    and epochs.
  \<^item> \<open>SlotTime\<close>: \<^verbatim>\<open>time/slots/slottime.go\<close>; the clock is an argument.

  \<^bold>\<open>Fork choice\<close> (\<^verbatim>\<open>beacon-chain/forkchoice/doubly-linked-tree\<close>).
  \<^item> \<open>ForkStore\<close>, \<open>ForkChoice\<close>: the record \<open>Store\<close> with an explicit heap of nodes, and one definition per function of \<^verbatim>\<open>store.go\<close>,
    \<^verbatim>\<open>node.go\<close>, \<^verbatim>\<open>optimistic_sync.go\<close>, \<^verbatim>\<open>forkchoice.go\<close>, \<^verbatim>\<open>on_tick.go\<close>, \<^verbatim>\<open>last_root.go\<close> and \<^verbatim>\<open>reorg_late_blocks.go\<close>. The order in which
    a Go map is ranged over is an argument, and so are contexts and clocks.
  \<^item> \<open>ForkInvariant\<close>, \<open>ForkMachine\<close>: the well-formedness invariant, its preservation by every operation, and the operations as
    an inductive step relation whose reachable stores satisfy it; vote counts and validation as further invariants.
  \<^item> \<open>ForkDemo\<close>: small stores for the examples. \<open>ForkVotes\<close>: votes and stability. \<open>ForkHead\<close>: the choice of the head. \<open>ForkQueries\<close>:
    canonicity, ancestors and termination. \<open>ForkSync\<close>: immutability of blocks, optimistic status, rejected blocks and checkpoints.
    \<open>ForkPrune\<close>: pruning keeps the descendants of the finalized block.

  \<^bold>\<open>Shuffling and the registry.\<close>
  \<^item> \<open>Slices\<close>: \<^verbatim>\<open>container/slice/slice.go\<close>. \<open>Shuffle\<close>: \<^verbatim>\<open>core/helpers/shuffle.go\<close>; locale \<open>swap_or_not\<close>, the list shuffles agree with
    the shuffle of one index, and unshuffling is the inverse.
  \<^item> \<open>BeaconState\<close>: the record \<open>BeaconState\<close> with the fields the modelled code reads, its accessors
    (\<^verbatim>\<open>state/state-native\<close>), \<^verbatim>\<open>core/time\<close> and the roots, randao mixes and seeds of \<^verbatim>\<open>core/helpers\<close>.
  \<^item> \<open>Registry\<close>: \<^verbatim>\<open>core/helpers/validators.go\<close> and \<^verbatim>\<open>rewards_penalties.go\<close>; proposer selection returns. Caches are a record of
    answers (\<open>cache_view\<close>), so that every interleaving with other users of a cache is a choice of answers.
  \<^item> \<open>ExitQueue\<close>: \<^verbatim>\<open>core/validators/validator.go\<close>: exits respect the churn limit, slashing accounts exactly for what it takes and gives.
  \<^item> \<open>Committees\<close>: \<^verbatim>\<open>core/helpers/beacon_committee.go\<close> and \<^verbatim>\<open>cache/committee.go\<close>: committees are those of the specification, they partition
    the active validators, and the cache is transparent.

  \<^bold>\<open>Epochs.\<close>
  \<^item> \<open>Justification\<close>: \<^verbatim>\<open>core/epoch/precompute/justification_finalization.go\<close> and the unrealized balances: refinement of the
    specification, monotone finality.
  \<^item> \<open>Precompute\<close>: the other files of \<^verbatim>\<open>core/epoch/precompute\<close>: rewards never panic, and the 64-bit arithmetic of the
    rewards is that of the specification.
  \<^item> \<open>EpochProcessing\<close>: \<^verbatim>\<open>core/epoch/epoch_processing.go\<close>: activations, slashings, effective balances; a slashed attester that is not removed.
  \<^item> \<open>AltairEpoch\<close>, \<open>AltairBalances\<close>: \<^verbatim>\<open>core/altair/epoch_precompute.go\<close>: records, inactivity scores and deltas from participation flags. Scores and rewards are
    those of the specification, and the unrealized checkpoints that the fork choice asks for are those the end of the epoch brings.
  \<^item> \<open>SyncCommittees\<close>: \<^verbatim>\<open>core/altair/sync_committee.go\<close>: the unbounded loop that draws a committee ends.
  \<^item> \<open>Upgrades\<close>: \<^verbatim>\<open>upgrade.go\<close> of \<^verbatim>\<open>core/altair\<close>, \<^verbatim>\<open>core/execution\<close>, \<^verbatim>\<open>core/capella\<close> and \<^verbatim>\<open>core/deneb\<close>, and the constructors of \<^verbatim>\<open>state_trie.go\<close>: upgrades keep
    the ledger, and pending attestations become the flags they earn. The type of a state (\<open>well_typed\<close>) is defined here.
  \<^item> \<open>EpochTransition\<close>: \<^verbatim>\<open>core/altair/transition.go\<close>, historical data and final updates, and slots and epochs of \<^verbatim>\<open>core/transition/transition.go\<close>: an epoch
    keeps the type of the state, and \<^verbatim>\<open>ProcessSlots\<close> arrives at the wanted slot with every epoch and upgrade on the way. \<open>EpochEnds\<close>: the steps of an epoch and the
    upgrades end, unless drawing a sync committee does not.

  \<^bold>\<open>Blocks.\<close>
  \<^item> \<open>BlockAttestations\<close>: \<^verbatim>\<open>core/blocks/attestation.go\<close>, \<^verbatim>\<open>core/altair/attestation.go\<close> and \<^verbatim>\<open>reward.go\<close>: what verification without
    signatures guarantees, what a Phase 0 block adds to the pending attestations, and that participation is recorded and rewarded once.
  \<^item> \<open>BlockOperations\<close>: \<^verbatim>\<open>core/blocks/attester_slashing.go\<close>, \<^verbatim>\<open>proposer_slashing.go\<close>, \<^verbatim>\<open>exit.go\<close> and \<^verbatim>\<open>randao.go\<close>: exactly the
    offenders are slashed, exits keep the exit queue as the specification does, and mixing in a reveal is undone by mixing it in again.
  \<^item> \<open>Withdrawals\<close>: \<^verbatim>\<open>core/blocks/withdrawals.go\<close> and the expected withdrawals of a state: they are those of the specification's sweep, what is
    withdrawn is exactly what balances lose, and credentials change once.

  \<^bold>\<open>Attestation pool.\<close>
  \<^item> \<open>MaxCover\<close>, \<open>Aggregation\<close>, \<open>AggregateVotes\<close>: \<^verbatim>\<open>proto/prysm/v1alpha1/attestation/aggregation\<close>: the greedy cover selects disjoint
    candidates until none fits, and the in-place aggregation by rounds neither loses nor invents a vote.
  \<^item> \<open>AttestationPool\<close>: \<^verbatim>\<open>operations/attestations\<close> with its caches \<^verbatim>\<open>kv\<close>: saving, deleting, aggregating, preparing for the fork choice and
    expiry. \<open>PoolVotes\<close>: the operations as a step relation with the invariant of the pool; deleted attestations do not come back, prepared
    votes are kept, and votes that are lost when an aggregation fails.

  \<^bold>\<open>Reception.\<close>
  \<^item> \<open>AttestationReception\<close>: \<^verbatim>\<open>blockchain/process_attestation.go\<close>, \<^verbatim>\<open>process_attestation_helpers.go\<close>, \<^verbatim>\<open>receive_attestation.go\<close>, the part of
    \<^verbatim>\<open>process_block.go\<close> that feeds the fork choice, \<^verbatim>\<open>cache/checkpoint_state.go\<close> and the next-slot cache. The record \<open>chain_service\<close> joins the
    fork choice, the pool and the caches; the record \<open>chain_env\<close> holds the answers of the database, state generation and slot processing.
  \<^item> \<open>ChainVotes\<close>: the service as a step relation above that of the fork choice: votes come from attestations of committee members, a stable block
    rests on a quorum of them, what a block carries does not make it stable, and the pool is emptied of what was due.

  \<^bold>\<open>Bounds and fuel.\<close> Walks along pointers of the tree carry fuel, one more than there are allocated nodes; on well-formed stores
  it is never used up (for \<^verbatim>\<open>TargetRootForEpoch\<close>, which follows roots, under \<open>links_by_root\<close>). The loops of \<^verbatim>\<open>NextSyncCommitteeIndices\<close> and \<^verbatim>\<open>ProcessSlots\<close> are partial functions; the first is proved to end when a validator has the full balance, the second
  to end unless the first does not. Every other loop is
  a total function with a measure; \<^verbatim>\<open>ComputeProposerIndex\<close> counts its 64-bit loop variable up and wraps. Statements about shuffles and committees assume at most \<open>2 ^ 40\<close> validators, the
  limit the code itself enforces. Statements about balances say which sums must fit into 64 bits.

  \<^bold>\<open>Parameters.\<close> The hash function and the hash tree roots built on it, the bit fields of go-bitfield, the LRU cache and BLS are not part of the repository or generated. They are arguments,
  with the laws that are needed (\<open>bv4_laws\<close>, \<open>lru_laws\<close>, \<open>bitlist64_laws\<close>, \<open>agg_laws\<close>, \<open>pool_laws\<close>, \<open>transition_laws\<close>) as hypotheses, which concrete functions satisfy.

  \<^bold>\<open>Not modelled.\<close> Networking, RPC, database and validator client (input and output), and of the blockchain service what
  follows the choice of a head (messages to the execution engine, event feeds), the initial sync and start-up; signatures, hash tree roots, and the other
  operations of blocks (deposits with their Merkle proofs, votes for Ethereum 1 data, the header, the execution payload, sync aggregates); the multi-value slices
  of the experimental state, off by default; metrics, logs, traces and locks; \<^verbatim>\<open>CommitteeAssignments\<close> and the proposer cache; the unmodified node beside the
  modified one, and the attack tools. Nil entries in the slices of the state and nil fields of decoded messages are excluded.
\<close>

end
